(* ===== verification/Prelude.thy ===== *)
theory Prelude
  imports Complex_Main
begin

text \<open>
  Shared vocabulary of the development.

  \<^item> \<open>jstring\<close>: a JavaScript string, as its list of UTF-16 code units (natural numbers).
    \<open>js ''abc''\<close> is the string with the given ASCII characters.
  \<^item> \<open>js_num\<close>: a JavaScript number. A finite double is the rational it denotes; the rounding
    of IEEE arithmetic on non-integer values is not modelled (the integers the programs
    compute with are exact up to \<open>2 ^ 53 - 1\<close>, and every use checks that bound).
    Negative zero is not distinguished from zero.
  \<^item> \<open>js_value\<close>: a value of static type \<open>unknown\<close>, such as the result of \<open>JSON.parse\<close> or the
    arguments of a model-issued tool call. An object is its list of own properties.
  \<^item> the string functions the programs use: \<open>trim\<close>, \<open>startsWith\<close>, \<open>slice\<close>, \<open>indexOf\<close>.
  \<^item> generic facts on association lists, option and sum types.
\<close>

named_theorems result_simps \<open>unfolding rules for sum-typed results\<close>

section \<open>Strings\<close>

type_synonym jstring = "nat list"

definition js :: "string \<Rightarrow> jstring" where
  "js s = map of_char s"

lemma inj_js: "inj js"
  unfolding js_def using inj_mapI [OF inj_of_char] by (simp add: inj_on_def)

lemma js_eq_iff [simp]: "js a = js b \<longleftrightarrow> a = b"
  using inj_js by (auto dest: injD)

lemma js_Nil [simp]: "js [] = []"
  by (simp add: js_def)

lemma js_eq_Nil [simp]: "js a = [] \<longleftrightarrow> a = []" "[] = js a \<longleftrightarrow> a = []"
  by (auto simp: js_def)

lemma js_append [simp]: "js (a @ b) = js a @ js b"
  by (simp add: js_def)

lemma length_js [simp]: "length (js a) = length a"
  by (simp add: js_def)

text \<open>The white space and line terminators that \<open>String.prototype.trim\<close> removes.\<close>

definition is_js_space :: "nat \<Rightarrow> bool" where
  "is_js_space c \<longleftrightarrow>
     (9 \<le> c \<and> c \<le> 13) \<or> c = 32 \<or> c = 160 \<or> c = 5760 \<or> (8192 \<le> c \<and> c \<le> 8202) \<or>
     c = 8232 \<or> c = 8233 \<or> c = 8239 \<or> c = 8287 \<or> c = 12288 \<or> c = 65279"

definition trim :: "jstring \<Rightarrow> jstring" where
  "trim s = rev (dropWhile is_js_space (rev (dropWhile is_js_space s)))"

lemma dropWhile_id: "(xs = [] \<or> \<not> P (hd xs)) \<Longrightarrow> dropWhile P xs = xs"
  by (cases xs) auto

lemma rev_dropWhile_rev_hd:
  assumes "rev (dropWhile P (rev xs)) \<noteq> []"
  shows "hd (rev (dropWhile P (rev xs))) = hd xs"
proof -
  have "rev (takeWhile P (rev xs) @ dropWhile P (rev xs)) = xs"
    by (simp only: takeWhile_dropWhile_id rev_rev_ident)
  then have "xs = rev (dropWhile P (rev xs)) @ rev (takeWhile P (rev xs))"
    by (metis rev_append)
  with assms show ?thesis by (metis hd_append2)
qed

lemma trim_hd: "trim s \<noteq> [] \<Longrightarrow> \<not> is_js_space (hd (trim s))"
proof -
  assume ne: "trim s \<noteq> []"
  then have "hd (trim s) = hd (dropWhile is_js_space s)"
    unfolding trim_def by (rule rev_dropWhile_rev_hd)
  moreover have "dropWhile is_js_space s \<noteq> []"
    using ne unfolding trim_def by (metis dropWhile.simps(1) rev.simps(1))
  ultimately show ?thesis
    by (simp add: hd_dropWhile)
qed

lemma trim_last: "trim s \<noteq> [] \<Longrightarrow> \<not> is_js_space (last (trim s))"
  by (simp add: trim_def last_rev hd_dropWhile del: dropWhile_eq_Nil_conv)

lemma trim_fixed:
  assumes "s = [] \<or> \<not> is_js_space (hd s) \<and> \<not> is_js_space (last s)"
  shows "trim s = s"
proof (cases "s = []")
  case True
  then show ?thesis by (simp add: trim_def)
next
  case False
  with assms have "dropWhile is_js_space s = s" "dropWhile is_js_space (rev s) = rev s"
    by (auto intro!: dropWhile_id simp: hd_rev)
  then show ?thesis by (simp add: trim_def)
qed

lemma trim_trim [simp]: "trim (trim s) = trim s"
  by (rule trim_fixed) (use trim_hd trim_last in blast)

text \<open>
  \<open>s.startsWith(p)\<close>, and \<open>s.split(sep)[0]\<close> for a one-character separator.
\<close>

fun starts_with :: "jstring \<Rightarrow> jstring \<Rightarrow> bool" where
  "starts_with s [] = True"
| "starts_with [] (p # ps) = False"
| "starts_with (x # xs) (p # ps) = (x = p \<and> starts_with xs ps)"

lemma starts_with_iff: "starts_with s p \<longleftrightarrow> (\<exists>r. s = p @ r)"
  by (induction s p rule: starts_with.induct) auto

lemma starts_with_append [simp]: "starts_with (p @ r) p"
  by (auto simp: starts_with_iff)

definition before_char :: "nat \<Rightarrow> jstring \<Rightarrow> jstring" where
  "before_char c s = takeWhile (\<lambda>x. x \<noteq> c) s"

text \<open>\<open>s.split(c)\<close> for a one-character separator, and \<open>ps.join(c)\<close>.\<close>

fun split_on :: "nat \<Rightarrow> jstring \<Rightarrow> jstring list" where
  "split_on c [] = [[]]"
| "split_on c (x # xs) =
     (if x = c then [] # split_on c xs
      else (case split_on c xs of [] \<Rightarrow> [[x]] | p # ps \<Rightarrow> (x # p) # ps))"

fun join_on :: "nat \<Rightarrow> jstring list \<Rightarrow> jstring" where
  "join_on c [] = []"
| "join_on c [p] = p"
| "join_on c (p # q # ps) = p @ c # join_on c (q # ps)"

lemma split_on_ne [simp]: "split_on c s \<noteq> []"
  by (cases s) (auto split: list.splits)

lemma join_split [simp]: "join_on c (split_on c s) = s"
proof (induction c s rule: split_on.induct)
  case (2 c x xs)
  then show ?case
    by (cases "split_on c xs"; cases "tl (split_on c xs)") auto
qed simp

lemma split_on_append: "split_on c (a @ c # b) = split_on c a @ split_on c b"
  by (induction a) (auto split: list.splits)

lemma join_on_append:
  "ps \<noteq> [] \<Longrightarrow> qs \<noteq> [] \<Longrightarrow> join_on c (ps @ qs) = join_on c ps @ c # join_on c qs"
  by (induction c ps rule: join_on.induct) (auto simp: neq_Nil_conv)

section \<open>Numbers\<close>

datatype js_num = NaN | PosInf | NegInf | Fin rat

definition max_safe :: int where
  "max_safe = 9007199254740991"

definition is_int_rat :: "rat \<Rightarrow> bool" where
  "is_int_rat q \<longleftrightarrow> q = of_int \<lfloor>q\<rfloor>"

lemma is_int_rat_of_int [simp]: "is_int_rat (of_int i)"
  by (simp add: is_int_rat_def)

lemma is_int_rat_simps [simp]: "is_int_rat 0" "is_int_rat 1" "is_int_rat (numeral n)"
  by (simp_all add: is_int_rat_def)

text \<open>\<open>Number.isInteger\<close> and \<open>Number.isSafeInteger\<close>.\<close>

fun is_integer :: "js_num \<Rightarrow> bool" where
  "is_integer (Fin q) = is_int_rat q"
| "is_integer _ = False"

fun is_safe_integer :: "js_num \<Rightarrow> bool" where
  "is_safe_integer (Fin q) = (is_int_rat q \<and> \<bar>q\<bar> \<le> of_int max_safe)"
| "is_safe_integer _ = False"

fun is_finite :: "js_num \<Rightarrow> bool" where
  "is_finite (Fin q) = True"
| "is_finite _ = False"

lemma abs_of_int_le_iff: "\<bar>of_int i :: rat\<bar> \<le> of_int j \<longleftrightarrow> \<bar>i\<bar> \<le> j"
  by (metis of_int_abs of_int_le_iff)

lemma is_safe_integer_of_int [simp]: "is_safe_integer (Fin (of_int i)) \<longleftrightarrow> \<bar>i\<bar> \<le> max_safe"
  by (simp add: abs_of_int_le_iff)

text \<open>\<open>Math.trunc\<close> on a finite number.\<close>

definition trunc_rat :: "rat \<Rightarrow> int" where
  "trunc_rat q = (if 0 \<le> q then \<lfloor>q\<rfloor> else \<lceil>q\<rceil>)"

section \<open>Values of static type unknown\<close>

datatype js_value =
  JUndef | JNull | JBool bool | JNum js_num | JStr jstring
| JArr "js_value list" | JObj "(jstring \<times> js_value) list"

text \<open>\<open>v.k\<close> on an object; an absent property and a property of a non-object are \<open>undefined\<close>.\<close>

fun field :: "js_value \<Rightarrow> jstring \<Rightarrow> js_value" where
  "field (JObj kvs) k = (case map_of kvs k of None \<Rightarrow> JUndef | Some v \<Rightarrow> v)"
| "field _ k = JUndef"

text \<open>\<open>v ?? d\<close>.\<close>

definition nullish :: "js_value \<Rightarrow> js_value \<Rightarrow> js_value" where
  "nullish v d = (if v = JUndef \<or> v = JNull then d else v)"

text \<open>\<open>typeof v === "object" && v !== null\<close> (arrays included), and the same without arrays.\<close>

fun is_object :: "js_value \<Rightarrow> bool" where
  "is_object (JObj _) = True"
| "is_object (JArr _) = True"
| "is_object _ = False"

fun is_plain_object :: "js_value \<Rightarrow> bool" where
  "is_plain_object (JObj _) = True"
| "is_plain_object _ = False"

text \<open>The own enumerable keys, \<open>Object.keys(v)\<close> (an array has its indices, as decimal strings).\<close>

fun digits_of :: "nat \<Rightarrow> jstring" where
  "digits_of n = (if n < 10 then [48 + n] else digits_of (n div 10) @ [48 + n mod 10])"

declare digits_of.simps [simp del]

definition digits_value :: "jstring \<Rightarrow> nat" where
  "digits_value ds = foldl (\<lambda>a d. 10 * a + (d - 48)) 0 ds"

lemma digits_value_of [simp]: "digits_value (digits_of n) = n"
proof (induction n rule: digits_of.induct)
  case (1 n)
  then show ?case by (subst digits_of.simps) (simp add: digits_value_def)
qed

lemma digits_of_eq_iff [simp]: "digits_of m = digits_of n \<longleftrightarrow> m = n"
  by (metis digits_value_of)

fun object_keys :: "js_value \<Rightarrow> jstring list" where
  "object_keys (JObj kvs) = map fst kvs"
| "object_keys (JArr xs) = map digits_of [0..<length xs]"
| "object_keys _ = []"

fun str_list :: "js_value list \<Rightarrow> jstring list option" where
  "str_list [] = Some []"
| "str_list (JStr s # vs) = map_option ((#) s) (str_list vs)"
| "str_list (_ # vs) = None"

lemma str_list_map [simp]: "str_list (map JStr ss) = Some ss"
  by (induction ss) auto

lemma str_list_SomeD: "str_list vs = Some ss \<Longrightarrow> vs = map JStr ss"
  by (induction vs arbitrary: ss rule: str_list.induct) auto

text \<open>An optional value written as JSON: \<open>null\<close> when absent.\<close>

definition opt_json :: "('a \<Rightarrow> js_value) \<Rightarrow> 'a option \<Rightarrow> js_value" where
  "opt_json f v = (case v of None \<Rightarrow> JNull | Some x \<Rightarrow> f x)"

lemma opt_json_simps [simp]: "opt_json f None = JNull" "opt_json f (Some x) = f x"
  by (simp_all add: opt_json_def)

section \<open>Results\<close>

definition and_then :: "'e + 'a \<Rightarrow> ('a \<Rightarrow> 'e + 'b) \<Rightarrow> 'e + 'b" where
  "and_then r f = (case r of Inl e \<Rightarrow> Inl e | Inr x \<Rightarrow> f x)"

lemma and_then_simps [simp, result_simps]:
  "and_then (Inl e) f = Inl e" "and_then (Inr x) f = f x"
  by (simp_all add: and_then_def)

lemma and_then_Inr_iff [result_simps]:
  "and_then r f = Inr y \<longleftrightarrow> (\<exists>x. r = Inr x \<and> f x = Inr y)"
  by (cases r) auto

lemma and_then_Inl_iff:
  "and_then r f = Inl e \<longleftrightarrow> r = Inl e \<or> (\<exists>x. r = Inr x \<and> f x = Inl e)"
  by (cases r) auto

text \<open>A guard: an error when the condition fails.\<close>

definition require :: "bool \<Rightarrow> 'e \<Rightarrow> 'e + unit" where
  "require b e = (if b then Inr () else Inl e)"

lemma require_Inr [simp, result_simps]: "require b e = Inr u \<longleftrightarrow> b"
  by (simp add: require_def)

lemma require_Inl [simp, result_simps]: "require b e = Inl x \<longleftrightarrow> \<not> b \<and> x = e"
  by (auto simp: require_def)

lemma require_simps [simp]: "b \<Longrightarrow> require b e = Inr ()" "\<not> b \<Longrightarrow> require b e = Inl e"
  by (simp_all add: require_def)

definition is_ok :: "'e + 'a \<Rightarrow> bool" where
  "is_ok r = (case r of Inl _ \<Rightarrow> False | Inr _ \<Rightarrow> True)"

lemma is_ok_simps [simp]: "is_ok (Inr x)" "\<not> is_ok (Inl e)"
  by (simp_all add: is_ok_def)

lemma is_ok_iff: "is_ok r \<longleftrightarrow> (\<exists>x. r = Inr x)"
  by (cases r) auto

section \<open>Lists without duplicates as insertion-ordered sets and maps\<close>

text \<open>
  A JavaScript \<open>Set\<close> is the list of its elements in insertion order, and a \<open>Map\<close> the
  list of its entries in insertion order.
\<close>

definition set_add :: "'a \<Rightarrow> 'a list \<Rightarrow> 'a list" where
  "set_add x xs = (if x \<in> set xs then xs else xs @ [x])"

definition set_delete :: "'a \<Rightarrow> 'a list \<Rightarrow> 'a list" where
  "set_delete x xs = filter (\<lambda>y. y \<noteq> x) xs"

fun map_put :: "'k \<Rightarrow> 'v \<Rightarrow> ('k \<times> 'v) list \<Rightarrow> ('k \<times> 'v) list" where
  "map_put k v [] = [(k, v)]"
| "map_put k v ((k', v') # kvs) = (if k = k' then (k, v) # kvs else (k', v') # map_put k v kvs)"

definition map_del :: "'k \<Rightarrow> ('k \<times> 'v) list \<Rightarrow> ('k \<times> 'v) list" where
  "map_del k kvs = filter (\<lambda>kv. fst kv \<noteq> k) kvs"

lemma set_set_add [simp]: "set (set_add x xs) = insert x (set xs)"
  by (auto simp: set_add_def)

lemma distinct_set_add [simp]: "distinct (set_add x xs) \<longleftrightarrow> distinct xs"
  by (auto simp: set_add_def)

lemma set_set_delete [simp]: "set (set_delete x xs) = set xs - {x}"
  by (auto simp: set_delete_def)

lemma distinct_set_delete [simp]: "distinct xs \<Longrightarrow> distinct (set_delete x xs)"
  by (simp add: set_delete_def)

lemma map_of_map_put [simp]: "map_of (map_put k v kvs) = (map_of kvs)(k \<mapsto> v)"
  by (induction k v kvs rule: map_put.induct) auto

lemma map_of_map_del [simp]: "map_of (map_del k kvs) = (map_of kvs)(k := None)"
  by (induction kvs) (auto simp: map_del_def)

lemma keys_map_put [simp]: "fst ` set (map_put k v kvs) = insert k (fst ` set kvs)"
  by (induction k v kvs rule: map_put.induct) auto

lemma keys_map_del [simp]: "fst ` set (map_del k kvs) = fst ` set kvs - {k}"
  by (auto simp: map_del_def)

lemma distinct_map_put [simp]:
  "distinct (map fst kvs) \<Longrightarrow> distinct (map fst (map_put k v kvs))"
proof (induction k v kvs rule: map_put.induct)
  case (2 k v k' v' kvs)
  have "fst ` set (map_put k v kvs) = insert k (fst ` set kvs)" by simp
  with 2 show ?case by (auto simp del: keys_map_put)
qed simp

lemma distinct_map_del [simp]:
  "distinct (map fst kvs) \<Longrightarrow> distinct (map fst (map_del k kvs))"
  by (simp add: map_del_def distinct_map_filter)

lemma map_put_fresh: "k \<notin> fst ` set kvs \<Longrightarrow> map_put k v kvs = kvs @ [(k, v)]"
  by (induction k v kvs rule: map_put.induct) auto

lemma length_filter_map_del:
  "distinct (map fst kvs) \<Longrightarrow> map_of kvs k = Some v \<Longrightarrow>
   length (filter P kvs) = length (filter P (map_del k kvs)) + (if P (k, v) then 1 else 0)"
proof (induction kvs)
  case (Cons kv kvs)
  show ?case
  proof (cases "fst kv = k")
    case True
    with Cons.prems(1) have "filter (\<lambda>x. fst x \<noteq> k) kvs = kvs"
      by (intro filter_True) (use image_iff in fastforce)
    with True Cons.prems show ?thesis by (cases kv) (auto simp: map_del_def)
  next
    case False
    with Cons show ?thesis by (auto simp: map_del_def)
  qed
qed simp

lemma sum_map_del:
  "distinct (map fst kvs) \<Longrightarrow> map_of kvs k = Some (v::int) \<Longrightarrow>
   sum_list (map snd (map_del k kvs)) = sum_list (map snd kvs) - v"
proof (induction kvs)
  case (Cons kv kvs)
  show ?case
  proof (cases "fst kv = k")
    case True
    with Cons.prems(1) have "filter (\<lambda>x. fst x \<noteq> k) kvs = kvs"
      by (intro filter_True) (use image_iff in fastforce)
    with True Cons.prems show ?thesis by (cases kv) (auto simp: map_del_def)
  next
    case False
    with Cons show ?thesis by (cases kv) (auto simp: map_del_def)
  qed
qed simp

lemma sum_map_put:
  "distinct (map fst kvs) \<Longrightarrow> map_of kvs k = Some (v::int) \<Longrightarrow>
   sum_list (map snd (map_put k v' kvs)) = sum_list (map snd kvs) - v + v'"
  by (induction k v' kvs rule: map_put.induct) (auto split: if_splits)

lemma set_map_put: "kv \<in> set (map_put k v kvs) \<Longrightarrow> kv = (k, v) \<or> kv \<in> set kvs"
  by (induction k v kvs rule: map_put.induct) (auto split: if_splits)

lemma set_map_del [simp]: "kv \<in> set (map_del k kvs) \<longleftrightarrow> kv \<in> set kvs \<and> fst kv \<noteq> k"
  by (auto simp: map_del_def)

lemma length_set_delete_le: "length (set_delete x xs) \<le> length xs"
  by (simp add: set_delete_def)

end
