(* ===== verification/Goal.thy ===== *)
theory Goal
  imports Prelude
begin

text \<open>
  The goal domain of the codex-goals extension
  (\<open>nix/pkg/pi-extensions/ponygirls-codex-goals/src/goal.ts\<close>): the goal record, its validation
  and the lifecycle transitions.

  A transition is a pure function of the existing goal (\<open>None\<close> for \<open>null\<close>), the clock reading
  and its arguments; a \<open>TransitionError\<close> is its \<open>code\<close> (the message is text shown to the user,
  and no code branches on it). \<open>dp\<close> stands for \<open>Date.parse\<close> accepting a string, whose grammar
  the language leaves to the engine.
\<close>

section \<open>Types\<close>

datatype goal_status = Active | Paused | Blocked | Usage_limited | Budget_limited | Complete

record goal_record =
  gid :: jstring
  objective :: jstring
  gstatus :: goal_status
  token_budget :: "int option"
  tokens_used :: int
  time_used :: rat
  created_at :: jstring
  updated_at :: jstring

definition GOAL_STATUSES :: "goal_status list" where
  "GOAL_STATUSES = [Active, Paused, Blocked, Usage_limited, Budget_limited, Complete]"

fun status_name :: "goal_status \<Rightarrow> jstring" where
  "status_name Active = js ''active''"
| "status_name Paused = js ''paused''"
| "status_name Blocked = js ''blocked''"
| "status_name Usage_limited = js ''usage_limited''"
| "status_name Budget_limited = js ''budget_limited''"
| "status_name Complete = js ''complete''"

definition status_of :: "js_value \<Rightarrow> goal_status option" where
  "status_of v = (case v of JStr s \<Rightarrow> find (\<lambda>st. status_name st = s) GOAL_STATUSES | _ \<Rightarrow> None)"

definition MAX_OBJECTIVE_SCALARS :: nat where
  "MAX_OBJECTIVE_SCALARS = 4000"

datatype goal_error =
  Invalid_objective | Invalid_budget | Invalid_record | No_goal | Already_exists
| Needs_confirmation | Not_active | Not_resumable | Budget_exhausted | Already_complete
| Forbidden_for_authority

datatype goal_authority = User | Model

type_synonym goal_result = "goal_error + goal_record"

section \<open>Validation\<close>

text \<open>\<open>Array.from(text).length\<close>: a surrogate pair is one element, a lone surrogate is one too.\<close>

fun count_scalars :: "jstring \<Rightarrow> nat" where
  "count_scalars [] = 0"
| "count_scalars [c] = 1"
| "count_scalars (c # d # cs) =
     (if 55296 \<le> c \<and> c \<le> 56319 \<and> 56320 \<le> d \<and> d \<le> 57343 then Suc (count_scalars cs)
      else Suc (count_scalars (d # cs)))"

definition validate_objective :: "js_value \<Rightarrow> goal_error + jstring" where
  "validate_objective raw =
     (case raw of
        JStr s \<Rightarrow>
          (let trimmed = trim s in
           if length trimmed = 0 then Inl Invalid_objective
           else if count_scalars trimmed > MAX_OBJECTIVE_SCALARS then Inl Invalid_objective
           else Inr trimmed)
      | _ \<Rightarrow> Inl Invalid_objective)"

definition validate_token_budget :: "js_value \<Rightarrow> goal_error + int option" where
  "validate_token_budget raw =
     (if raw = JUndef \<or> raw = JNull then Inr None
      else case raw of
        JNum (Fin q) \<Rightarrow>
          if \<not> is_safe_integer (Fin q) \<or> q \<le> 0 then Inl Invalid_budget else Inr (Some \<lfloor>q\<rfloor>)
      | _ \<Rightarrow> Inl Invalid_budget)"

definition is_valid_timestamp :: "(jstring \<Rightarrow> bool) \<Rightarrow> js_value \<Rightarrow> bool" where
  "is_valid_timestamp dp v = (case v of JStr s \<Rightarrow> dp s | _ \<Rightarrow> False)"

fun str_of :: "js_value \<Rightarrow> jstring" where
  "str_of (JStr s) = s"
| "str_of _ = []"

text \<open>A nonnegative safe integer, and a nonnegative finite number.\<close>

definition nonneg_safe_int :: "js_value \<Rightarrow> int option" where
  "nonneg_safe_int v =
     (case v of JNum (Fin q) \<Rightarrow> if is_safe_integer (Fin q) \<and> 0 \<le> q then Some \<lfloor>q\<rfloor> else None
      | _ \<Rightarrow> None)"

definition nonneg_finite :: "js_value \<Rightarrow> rat option" where
  "nonneg_finite v = (case v of JNum (Fin q) \<Rightarrow> if 0 \<le> q then Some q else None | _ \<Rightarrow> None)"

definition validate_goal_record :: "(jstring \<Rightarrow> bool) \<Rightarrow> js_value \<Rightarrow> goal_result" where
  "validate_goal_record dp r =
     (if \<not> is_object r then Inl Invalid_record
      else case field r (js ''id'') of
        JStr i \<Rightarrow>
         (if length i = 0 then Inl Invalid_record
          else case validate_objective (field r (js ''objective'')) of
            Inl _ \<Rightarrow> Inl Invalid_record
          | Inr obj \<Rightarrow>
           (case status_of (field r (js ''status'')) of
              None \<Rightarrow> Inl Invalid_record
            | Some st \<Rightarrow>
             (case validate_token_budget (nullish (field r (js ''tokenBudget'')) JNull) of
                Inl _ \<Rightarrow> Inl Invalid_record
              | Inr budget \<Rightarrow>
               (case nonneg_safe_int (field r (js ''tokensUsed'')) of
                  None \<Rightarrow> Inl Invalid_record
                | Some used \<Rightarrow>
                 (case nonneg_finite (field r (js ''timeUsedSeconds'')) of
                    None \<Rightarrow> Inl Invalid_record
                  | Some secs \<Rightarrow>
                    if \<not> is_valid_timestamp dp (field r (js ''createdAt'')) then Inl Invalid_record
                    else if \<not> is_valid_timestamp dp (field r (js ''updatedAt'')) then Inl Invalid_record
                    else Inr \<lparr>gid = i, objective = obj, gstatus = st, token_budget = budget,
                              tokens_used = used, time_used = secs,
                              created_at = str_of (field r (js ''createdAt'')),
                              updated_at = str_of (field r (js ''updatedAt''))\<rparr>)))))
      | _ \<Rightarrow> Inl Invalid_record)"

section \<open>Predicates on a goal\<close>

definition is_terminal_status :: "goal_status \<Rightarrow> bool" where
  "is_terminal_status st \<longleftrightarrow> st = Complete \<or> st = Blocked \<or> st = Budget_limited \<or> st = Usage_limited"

definition is_unfinished :: "goal_record \<Rightarrow> bool" where
  "is_unfinished g \<longleftrightarrow> gstatus g \<noteq> Complete"

definition is_active_record :: "goal_record option \<Rightarrow> bool" where
  "is_active_record g = (case g of None \<Rightarrow> False | Some g \<Rightarrow> gstatus g = Active)"

definition budget_permits :: "goal_record \<Rightarrow> bool" where
  "budget_permits g = (case token_budget g of None \<Rightarrow> True | Some b \<Rightarrow> tokens_used g < b)"

section \<open>Creation\<close>

record create_input =
  in_objective :: js_value
  in_budget :: js_value

definition create_record :: "(jstring \<Rightarrow> bool) \<Rightarrow> create_input \<Rightarrow> jstring \<Rightarrow> jstring \<Rightarrow> goal_result" where
  "create_record dp inp now new_id =
     (case validate_objective (in_objective inp) of
        Inl e \<Rightarrow> Inl e
      | Inr obj \<Rightarrow>
       (case validate_token_budget (nullish (in_budget inp) JNull) of
          Inl e \<Rightarrow> Inl e
        | Inr budget \<Rightarrow>
          if \<not> is_valid_timestamp dp (JStr now) then Inl Invalid_record
          else Inr \<lparr>gid = new_id, objective = obj, gstatus = Active, token_budget = budget,
                    tokens_used = 0, time_used = 0, created_at = now, updated_at = now\<rparr>))"

definition user_create ::
  "(jstring \<Rightarrow> bool) \<Rightarrow> goal_record option \<Rightarrow> create_input \<Rightarrow> jstring \<Rightarrow> jstring \<Rightarrow> bool \<Rightarrow> bool \<Rightarrow> goal_result" where
  "user_create dp existing inp now new_id confirmed dialog_capable =
     (case existing of
        Some g \<Rightarrow>
          if is_unfinished g then
            (if \<not> confirmed then
               (if \<not> dialog_capable then Inl Needs_confirmation else Inl Needs_confirmation)
             else create_record dp inp now new_id)
          else create_record dp inp now new_id
      | None \<Rightarrow> create_record dp inp now new_id)"

definition model_create ::
  "(jstring \<Rightarrow> bool) \<Rightarrow> goal_record option \<Rightarrow> create_input \<Rightarrow> jstring \<Rightarrow> jstring \<Rightarrow> goal_result" where
  "model_create dp existing inp now new_id =
     (case existing of
        Some g \<Rightarrow> if is_unfinished g then Inl Already_exists else create_record dp inp now new_id
      | None \<Rightarrow> create_record dp inp now new_id)"

section \<open>Transitions\<close>

definition edit_objective :: "goal_record option \<Rightarrow> js_value \<Rightarrow> jstring \<Rightarrow> goal_result" where
  "edit_objective existing raw now =
     (case existing of
        None \<Rightarrow> Inl No_goal
      | Some g \<Rightarrow>
         (case validate_objective raw of
            Inl e \<Rightarrow> Inl e
          | Inr obj \<Rightarrow> Inr (g\<lparr>objective := obj, updated_at := now\<rparr>)))"

definition pause_record :: "goal_record option \<Rightarrow> jstring \<Rightarrow> goal_authority \<Rightarrow> goal_result" where
  "pause_record existing now authority =
     (case existing of
        None \<Rightarrow> Inl No_goal
      | Some g \<Rightarrow> if gstatus g \<noteq> Active then Inl Not_active
                  else Inr (g\<lparr>gstatus := Paused, updated_at := now\<rparr>))"

definition resume_record :: "goal_record option \<Rightarrow> jstring \<Rightarrow> js_value \<Rightarrow> goal_result" where
  "resume_record existing now opt_budget =
     (case existing of
        None \<Rightarrow> Inl No_goal
      | Some g \<Rightarrow>
        if gstatus g = Active then Inl Not_resumable
        else if gstatus g = Complete then Inl Already_complete
        else and_then (if opt_budget \<noteq> JUndef then validate_token_budget opt_budget
                       else Inr (token_budget g))
          (\<lambda>budget. let nxt = g\<lparr>gstatus := Active, token_budget := budget, updated_at := now\<rparr> in
             if \<not> budget_permits nxt then Inl Budget_exhausted else Inr nxt))"

definition complete_record :: "goal_record option \<Rightarrow> jstring \<Rightarrow> goal_result" where
  "complete_record existing now =
     (case existing of
        None \<Rightarrow> Inl No_goal
      | Some g \<Rightarrow>
        if gstatus g = Complete then Inl Already_complete
        else if gstatus g \<noteq> Active then Inl Not_active
        else Inr (g\<lparr>gstatus := Complete, updated_at := now\<rparr>))"

definition complete_from_budget_limited :: "goal_record option \<Rightarrow> jstring \<Rightarrow> goal_result" where
  "complete_from_budget_limited existing now =
     (case existing of
        None \<Rightarrow> Inl No_goal
      | Some g \<Rightarrow>
        if gstatus g = Complete then Inl Already_complete
        else if gstatus g \<noteq> Budget_limited \<and> gstatus g \<noteq> Active then Inl Not_active
        else Inr (g\<lparr>gstatus := Complete, updated_at := now\<rparr>))"

definition block_record :: "goal_record option \<Rightarrow> jstring \<Rightarrow> goal_result" where
  "block_record existing now =
     (case existing of
        None \<Rightarrow> Inl No_goal
      | Some g \<Rightarrow>
        if gstatus g \<noteq> Active then Inl Not_active
        else Inr (g\<lparr>gstatus := Blocked, updated_at := now\<rparr>))"

definition budget_limit_record :: "goal_record option \<Rightarrow> jstring \<Rightarrow> goal_result" where
  "budget_limit_record existing now =
     (case existing of
        None \<Rightarrow> Inl No_goal
      | Some g \<Rightarrow>
        if gstatus g = Complete then Inl Already_complete
        else Inr (g\<lparr>gstatus := Budget_limited, updated_at := now\<rparr>))"

definition usage_limit_record :: "goal_record option \<Rightarrow> jstring \<Rightarrow> goal_result" where
  "usage_limit_record existing now =
     (case existing of
        None \<Rightarrow> Inl No_goal
      | Some g \<Rightarrow>
        if gstatus g = Complete then Inl Already_complete
        else Inr (g\<lparr>gstatus := Usage_limited, updated_at := now\<rparr>))"

definition pause_preserving_budget_limit :: "goal_record option \<Rightarrow> jstring \<Rightarrow> goal_result" where
  "pause_preserving_budget_limit existing now =
     (case existing of
        None \<Rightarrow> Inl No_goal
      | Some g \<Rightarrow> if gstatus g = Budget_limited then Inr g else pause_record existing now User)"

lemmas goal_transition_defs =
  edit_objective_def pause_record_def resume_record_def complete_record_def
  complete_from_budget_limited_def block_record_def budget_limit_record_def
  usage_limit_record_def pause_preserving_budget_limit_def

section \<open>Well-formed goals and their JSON form\<close>

definition wf_objective :: "jstring \<Rightarrow> bool" where
  "wf_objective s \<longleftrightarrow> trim s = s \<and> s \<noteq> [] \<and> count_scalars s \<le> MAX_OBJECTIVE_SCALARS"

definition wf_budget :: "int option \<Rightarrow> bool" where
  "wf_budget b = (case b of None \<Rightarrow> True | Some n \<Rightarrow> 0 < n \<and> n \<le> max_safe)"

definition wf_goal :: "(jstring \<Rightarrow> bool) \<Rightarrow> goal_record \<Rightarrow> bool" where
  "wf_goal dp g \<longleftrightarrow>
     gid g \<noteq> [] \<and> wf_objective (objective g) \<and> wf_budget (token_budget g) \<and>
     0 \<le> tokens_used g \<and> tokens_used g \<le> max_safe \<and> 0 \<le> time_used g \<and>
     dp (created_at g) \<and> dp (updated_at g)"

definition int_json :: "int \<Rightarrow> js_value" where
  "int_json i = JNum (Fin (of_int i))"

definition goal_json :: "goal_record \<Rightarrow> js_value" where
  "goal_json g = JObj
     [(js ''id'', JStr (gid g)), (js ''objective'', JStr (objective g)),
      (js ''status'', JStr (status_name (gstatus g))),
      (js ''tokenBudget'', opt_json int_json (token_budget g)),
      (js ''tokensUsed'', int_json (tokens_used g)),
      (js ''timeUsedSeconds'', JNum (Fin (time_used g))),
      (js ''createdAt'', JStr (created_at g)), (js ''updatedAt'', JStr (updated_at g))]"

lemma field_goal_json [simp]:
  "field (goal_json g) (js ''id'') = JStr (gid g)"
  "field (goal_json g) (js ''objective'') = JStr (objective g)"
  "field (goal_json g) (js ''status'') = JStr (status_name (gstatus g))"
  "field (goal_json g) (js ''tokenBudget'') = opt_json int_json (token_budget g)"
  "field (goal_json g) (js ''tokensUsed'') = int_json (tokens_used g)"
  "field (goal_json g) (js ''timeUsedSeconds'') = JNum (Fin (time_used g))"
  "field (goal_json g) (js ''createdAt'') = JStr (created_at g)"
  "field (goal_json g) (js ''updatedAt'') = JStr (updated_at g)"
  "is_object (goal_json g)"
  by (simp_all add: goal_json_def)

lemma status_of_name [simp]: "status_of (JStr (status_name st)) = Some st"
  by (cases st) (simp_all add: status_of_def GOAL_STATUSES_def)

lemma validate_objective_iff:
  "validate_objective (JStr s) = Inr t \<longleftrightarrow> t = trim s \<and> wf_objective (trim s)"
  by (auto simp: validate_objective_def wf_objective_def Let_def)

lemma validate_objective_wf: "validate_objective v = Inr t \<Longrightarrow> wf_objective t"
  by (cases v) (auto simp: validate_objective_iff, simp_all add: validate_objective_def)

lemma validate_objective_fixed: "wf_objective s \<Longrightarrow> validate_objective (JStr s) = Inr s"
  by (simp add: validate_objective_iff) (simp add: wf_objective_def)

lemma is_int_rat_floor: "is_int_rat q \<Longrightarrow> of_int \<lfloor>q\<rfloor> = q"
  by (simp add: is_int_rat_def)

lemma int_rat_ge_one:
  assumes "is_int_rat q" "\<not> q \<le> 0"
  shows "1 \<le> q"
  using assms by (metis is_int_rat_def linorder_not_le of_int_0_less_iff of_int_1_le_iff zless_imp_add1_zle add_0)

lemma floor_le_max_safe:
  assumes "is_int_rat q" "\<bar>q\<bar> \<le> of_int max_safe"
  shows "\<lfloor>q\<rfloor> \<le> max_safe"
  using assms by (metis abs_le_D1 floor_mono floor_of_int)

lemma validate_token_budget_wf: "validate_token_budget v = Inr b \<Longrightarrow> wf_budget b"
  by (auto simp: validate_token_budget_def wf_budget_def int_rat_ge_one floor_le_max_safe
      split: if_splits js_value.splits js_num.splits)

lemma validate_token_budget_json [simp]:
  "validate_token_budget (nullish (opt_json int_json b) JNull) = (if wf_budget b then Inr b else Inl Invalid_budget)"
  by (cases b) (auto simp: validate_token_budget_def nullish_def wf_budget_def int_json_def abs_of_int_le_iff)

lemma nonneg_safe_int_json [simp]:
  "nonneg_safe_int (int_json i) = (if 0 \<le> i \<and> i \<le> max_safe then Some i else None)"
  by (auto simp: nonneg_safe_int_def int_json_def abs_of_int_le_iff)

lemma nonneg_safe_int_SomeD:
  "nonneg_safe_int v = Some i \<Longrightarrow> 0 \<le> i \<and> i \<le> max_safe"
  by (auto simp: nonneg_safe_int_def floor_le_max_safe split: js_value.splits js_num.splits if_splits)

lemma nonneg_finite_SomeD: "nonneg_finite v = Some q \<Longrightarrow> 0 \<le> q"
  by (auto simp: nonneg_finite_def split: js_value.splits js_num.splits if_splits)

lemma is_valid_timestampD: "is_valid_timestamp dp v \<Longrightarrow> dp (str_of v)"
  by (cases v) (auto simp: is_valid_timestamp_def)

lemma validate_goal_record_wf:
  "validate_goal_record dp v = Inr g \<Longrightarrow> wf_goal dp g"
  unfolding validate_goal_record_def
  by (auto simp: wf_goal_def dest: validate_objective_wf validate_token_budget_wf
      nonneg_safe_int_SomeD nonneg_finite_SomeD is_valid_timestampD
      split: if_splits js_value.splits sum.splits option.splits)

lemma validate_goal_json:
  assumes "wf_goal dp g"
  shows "validate_goal_record dp (goal_json g) = Inr g"
proof -
  have "validate_objective (JStr (objective g)) = Inr (objective g)"
    using assms by (simp add: wf_goal_def validate_objective_fixed)
  with assms show ?thesis
    by (simp add: validate_goal_record_def wf_goal_def nonneg_finite_def is_valid_timestamp_def)
qed

section \<open>The lifecycle as one step function\<close>

datatype goal_op =
  User_create create_input jstring jstring bool bool
| Model_create create_input jstring jstring
| Edit js_value jstring
| Pause jstring goal_authority
| Resume jstring js_value
| Complete_op jstring
| Complete_from_budget jstring
| Block jstring
| Budget_limit jstring
| Usage_limit jstring
| Pause_preserving jstring

fun apply_goal_op :: "(jstring \<Rightarrow> bool) \<Rightarrow> goal_op \<Rightarrow> goal_record option \<Rightarrow> goal_result" where
  "apply_goal_op dp (User_create inp now i c d) g = user_create dp g inp now i c d"
| "apply_goal_op dp (Model_create inp now i) g = model_create dp g inp now i"
| "apply_goal_op dp (Edit raw now) g = edit_objective g raw now"
| "apply_goal_op dp (Pause now a) g = pause_record g now a"
| "apply_goal_op dp (Resume now b) g = resume_record g now b"
| "apply_goal_op dp (Complete_op now) g = complete_record g now"
| "apply_goal_op dp (Complete_from_budget now) g = complete_from_budget_limited g now"
| "apply_goal_op dp (Block now) g = block_record g now"
| "apply_goal_op dp (Budget_limit now) g = budget_limit_record g now"
| "apply_goal_op dp (Usage_limit now) g = usage_limit_record g now"
| "apply_goal_op dp (Pause_preserving now) g = pause_preserving_budget_limit g now"

text \<open>The clock reading an operation is given, and the identity a creation is given.\<close>

fun op_now :: "goal_op \<Rightarrow> jstring" where
  "op_now (User_create _ now _ _ _) = now"
| "op_now (Model_create _ now _) = now"
| "op_now (Edit _ now) = now"
| "op_now (Pause now _) = now"
| "op_now (Resume now _) = now"
| "op_now (Complete_op now) = now"
| "op_now (Complete_from_budget now) = now"
| "op_now (Block now) = now"
| "op_now (Budget_limit now) = now"
| "op_now (Usage_limit now) = now"
| "op_now (Pause_preserving now) = now"

fun op_new_id :: "goal_op \<Rightarrow> jstring option" where
  "op_new_id (User_create _ _ i _ _) = Some i"
| "op_new_id (Model_create _ _ i) = Some i"
| "op_new_id _ = None"

definition good_op :: "(jstring \<Rightarrow> bool) \<Rightarrow> goal_op \<Rightarrow> bool" where
  "good_op dp op \<longleftrightarrow> dp (op_now op) \<and> op_new_id op \<noteq> Some []"

lemma create_record_Inr:
  "create_record dp inp now i = Inr g \<Longrightarrow>
   gid g = i \<and> gstatus g = Active \<and> tokens_used g = 0 \<and> time_used g = 0 \<and>
   created_at g = now \<and> updated_at g = now \<and> wf_objective (objective g) \<and>
   wf_budget (token_budget g) \<and> dp now"
  by (auto simp: create_record_def is_valid_timestamp_def
      dest: validate_objective_wf validate_token_budget_wf split: sum.splits if_splits)

lemma user_create_cases:
  "user_create dp g inp now i c d = Inr g' \<Longrightarrow>
   create_record dp inp now i = Inr g' \<and> (\<forall>g0. g = Some g0 \<and> is_unfinished g0 \<longrightarrow> c)"
  by (auto simp: user_create_def split: option.splits if_splits)

lemma model_create_cases:
  "model_create dp g inp now i = Inr g' \<Longrightarrow>
   create_record dp inp now i = Inr g' \<and> (\<forall>g0. g = Some g0 \<longrightarrow> gstatus g0 = Complete)"
  by (auto simp: model_create_def is_unfinished_def split: option.splits if_splits)

lemma resume_record_Inr:
  "resume_record g now b = Inr g' \<longleftrightarrow>
   (\<exists>g0 budget. g = Some g0 \<and> gstatus g0 \<noteq> Active \<and> gstatus g0 \<noteq> Complete \<and>
      (if b = JUndef then budget = token_budget g0 else validate_token_budget b = Inr budget) \<and>
      g' = g0\<lparr>gstatus := Active, token_budget := budget, updated_at := now\<rparr> \<and>
      (case budget of None \<Rightarrow> True | Some n \<Rightarrow> tokens_used g0 < n))"
  by (auto simp: resume_record_def Let_def budget_permits_def result_simps split: option.splits if_splits)

text \<open>
  Which status changes the operations on an existing goal allow; everything else about the goal
  is kept except what the operation names.
\<close>

fun goal_edge :: "goal_op \<Rightarrow> goal_status \<Rightarrow> goal_status \<Rightarrow> bool" where
  "goal_edge (Edit _ _) a b = (a = b)"
| "goal_edge (Pause _ _) a b = (a = Active \<and> b = Paused)"
| "goal_edge (Resume _ _) a b = (a \<notin> {Active, Complete} \<and> b = Active)"
| "goal_edge (Complete_op _) a b = (a = Active \<and> b = Complete)"
| "goal_edge (Complete_from_budget _) a b = (a \<in> {Active, Budget_limited} \<and> b = Complete)"
| "goal_edge (Block _) a b = (a = Active \<and> b = Blocked)"
| "goal_edge (Budget_limit _) a b = (a \<noteq> Complete \<and> b = Budget_limited)"
| "goal_edge (Usage_limit _) a b = (a \<noteq> Complete \<and> b = Usage_limited)"
| "goal_edge (Pause_preserving _) a b =
     (a = Active \<and> b = Paused \<or> a = Budget_limited \<and> b = Budget_limited)"
| "goal_edge _ a b = False"

lemma goal_op_frame:
  assumes "op_new_id op = None" and "apply_goal_op dp op g = Inr g'"
  shows "\<exists>g0. g = Some g0 \<and> goal_edge op (gstatus g0) (gstatus g') \<and> gid g' = gid g0 \<and>
    tokens_used g' = tokens_used g0 \<and> time_used g' = time_used g0 \<and> created_at g' = created_at g0"
  using assms
  by (cases op)
     (auto simp: resume_record_Inr edit_objective_def pause_record_def complete_record_def
        complete_from_budget_limited_def block_record_def budget_limit_record_def
        usage_limit_record_def pause_preserving_budget_limit_def
        split: option.splits if_splits sum.splits)

lemma goal_op_wf:
  assumes "good_op dp op" and "\<And>g0. g = Some g0 \<Longrightarrow> wf_goal dp g0" and "apply_goal_op dp op g = Inr g'"
  shows "wf_goal dp g'"
proof (cases "op_new_id op")
  case None
  with assms show ?thesis
    by (cases op)
       (auto simp: wf_goal_def good_op_def resume_record_Inr edit_objective_def pause_record_def
          complete_record_def complete_from_budget_limited_def block_record_def
          budget_limit_record_def usage_limit_record_def pause_preserving_budget_limit_def
          dest: validate_objective_wf validate_token_budget_wf split: option.splits if_splits sum.splits)
next
  case (Some i)
  then have "\<exists>inp now. create_record dp inp now i = Inr g'"
    using assms(3) by (cases op) (auto dest: user_create_cases model_create_cases)
  then obtain inp now where "create_record dp inp now i = Inr g'" by blast
  from create_record_Inr [OF this] Some assms(1) show ?thesis
    by (auto simp: wf_goal_def good_op_def max_safe_def)
qed

text \<open>Every goal that a run of operations can produce, starting from no goal.\<close>

inductive goal_reachable :: "(jstring \<Rightarrow> bool) \<Rightarrow> goal_record option \<Rightarrow> bool" for dp where
  no_goal: "goal_reachable dp None"
| op: "goal_reachable dp g \<Longrightarrow> good_op dp op \<Longrightarrow> apply_goal_op dp op g = Inr g' \<Longrightarrow> goal_reachable dp (Some g')"
| cleared: "goal_reachable dp g \<Longrightarrow> goal_reachable dp None"

lemma goal_reachable_wf: "goal_reachable dp g \<Longrightarrow> g = Some g0 \<Longrightarrow> wf_goal dp g0"
  by (induction arbitrary: g0 rule: goal_reachable.induct) (auto intro: goal_op_wf)

text \<open>A session's operations in order; a refused operation leaves the goal as it was.\<close>

fun run_goal_ops :: "(jstring \<Rightarrow> bool) \<Rightarrow> goal_op list \<Rightarrow> goal_record option \<Rightarrow> goal_record option" where
  "run_goal_ops dp [] g = g"
| "run_goal_ops dp (op # ops) g =
     run_goal_ops dp ops (case apply_goal_op dp op g of Inl _ \<Rightarrow> g | Inr g' \<Rightarrow> Some g')"

lemma run_goal_ops_append:
  "run_goal_ops dp (xs @ ys) g = run_goal_ops dp ys (run_goal_ops dp xs g)"
  by (induction dp xs g rule: run_goal_ops.induct) auto

lemma run_goal_ops_reachable:
  "goal_reachable dp g \<Longrightarrow> list_all (good_op dp) ops \<Longrightarrow> goal_reachable dp (run_goal_ops dp ops g)"
  by (induction dp ops g rule: run_goal_ops.induct)
     (auto split: sum.splits dest: goal_reachable.op)

lemma goal_edge_from_complete: "goal_edge op Complete st \<Longrightarrow> st = Complete"
  by (cases op) auto

definition is_user_create :: "goal_op \<Rightarrow> bool" where
  "is_user_create op = (case op of User_create _ _ _ _ _ \<Rightarrow> True | _ \<Rightarrow> False)"

lemma goal_op_same_id:
  assumes "\<not> is_user_create op" and "is_unfinished g" and "apply_goal_op dp op (Some g) = Inr g'"
  shows "gid g' = gid g"
proof (cases "op_new_id op")
  case None
  with assms(3) show ?thesis by (auto dest: goal_op_frame)
next
  case (Some i)
  with assms show ?thesis
    by (cases op) (auto simp: is_user_create_def is_unfinished_def dest: model_create_cases)
qed

section \<open>Properties\<close>

text \<open>
  The validator and the writer of a goal record agree: the JSON form of a goal is accepted and
  read back unchanged exactly when the goal is well formed (trimmed nonempty objective of at most
  4000 scalars, positive safe budget, safe nonnegative usage, parseable timestamps).
\<close>

theorem goal_codec: "validate_goal_record dp (goal_json g) = Inr g \<longleftrightarrow> wf_goal dp g"
  using validate_goal_json validate_goal_record_wf by blast

text \<open>
  Whatever sequence of lifecycle operations ran, whichever of them were refused, the goal a
  session holds is accepted by the record validator unchanged, so the next load never finds the
  extension's own goal malformed.
\<close>

theorem goal_operations_keep_valid:
  assumes "list_all (good_op dp) ops" and "run_goal_ops dp ops None = Some g"
  shows "validate_goal_record dp (goal_json g) = Inr g"
  using assms run_goal_ops_reachable [OF goal_reachable.no_goal assms(1)]
  by (auto intro: validate_goal_json goal_reachable_wf)

definition sample_create :: goal_op where
  "sample_create = User_create \<lparr>in_objective = JStr (js '' ship it ''), in_budget = JNum (Fin 10)\<rparr> (js ''t0'') (js ''g1'') False True"

lemma count_scalars_bound: "count_scalars s \<le> length s"
  by (induction s rule: count_scalars.induct) auto

lemma validate_objective_short:
  "trim s \<noteq> [] \<Longrightarrow> length (trim s) \<le> 4000 \<Longrightarrow> validate_objective (JStr s) = Inr (trim s)"
  using count_scalars_bound [of "trim s"]
  by (simp add: validate_objective_iff wf_objective_def MAX_OBJECTIVE_SCALARS_def)

lemma trim_ship: "trim (js '' ship it '') = js ''ship it''"
  by (simp add: trim_def js_def is_js_space_def)

lemma sample_create_run:
  "run_goal_ops (\<lambda>_. True) [sample_create] None =
   Some \<lparr>gid = js ''g1'', objective = js ''ship it'', gstatus = Active, token_budget = Some 10,
     tokens_used = 0, time_used = 0, created_at = js ''t0'', updated_at = js ''t0''\<rparr>"
  by (simp add: sample_create_def user_create_def create_record_def validate_objective_short trim_ship
      validate_token_budget_def nullish_def is_valid_timestamp_def max_safe_def)

theorem goal_operations_keep_valid_witness:
  "\<exists>g. run_goal_ops (\<lambda>_. True) [sample_create] None = Some g \<and>
       validate_goal_record (\<lambda>_. True) (goal_json g) = Inr g"
  using goal_operations_keep_valid [of "\<lambda>_. True" "[sample_create]"] sample_create_run
  by (auto simp: good_op_def sample_create_def)

text \<open>
  No sequence of operations other than a user's confirmed creation replaces an unfinished
  goal: if the session ends with another goal, the first one was complete at some point before.
  In particular the model-callable operations cannot discard the user's goal.
\<close>

theorem unfinished_goal_not_replaced:
  assumes "\<forall>op \<in> set ops. \<not> is_user_create op"
    and "run_goal_ops dp ops (Some g) = Some g'" and "gid g' \<noteq> gid g"
  shows "\<exists>k c. k \<le> length ops \<and> run_goal_ops dp (take k ops) (Some g) = Some c \<and>
               gid c = gid g \<and> gstatus c = Complete"
  using assms
proof (induction ops arbitrary: g)
  case (Cons op ops)
  show ?case
  proof (cases "is_unfinished g")
    case False
    then show ?thesis by (intro exI [of _ 0] exI [of _ g]) (simp add: is_unfinished_def)
  next
    case True
    define h where "h = (case apply_goal_op dp op (Some g) of Inl _ \<Rightarrow> g | Inr g' \<Rightarrow> g')"
    have step: "run_goal_ops dp (op # xs) (Some g) = run_goal_ops dp xs (Some h)" for xs
      by (simp add: h_def split: sum.splits)
    have "gid h = gid g"
      using Cons.prems(1) True goal_op_same_id by (auto simp: h_def split: sum.splits)
    with Cons.prems step have "run_goal_ops dp ops (Some h) = Some g'" "gid g' \<noteq> gid h" by auto
    with Cons.IH [of h] Cons.prems(1) obtain k c where
      "k \<le> length ops" "run_goal_ops dp (take k ops) (Some h) = Some c" "gid c = gid h" "gstatus c = Complete"
      by auto
    with step \<open>gid h = gid g\<close> show ?thesis
      by (intro exI [of _ "Suc k"] exI [of _ c]) simp
  qed
qed simp

theorem unfinished_goal_not_replaced_witness:
  "let g = \<lparr>gid = js ''g1'', objective = js ''a'', gstatus = Active, token_budget = None, tokens_used = 0,
            time_used = 0, created_at = [], updated_at = []\<rparr>;
       ops = [Complete_op (js ''t1''),
              Model_create \<lparr>in_objective = JStr (js '' ship it ''), in_budget = JUndef\<rparr> (js ''t2'') (js ''g2'')]
   in \<exists>k c. k \<le> 2 \<and> run_goal_ops (\<lambda>_. True) (take k ops) (Some g) = Some c \<and> gid c = gid g \<and> gstatus c = Complete"
proof -
  let ?g = "\<lparr>gid = js ''g1'', objective = js ''a'', gstatus = Active, token_budget = None, tokens_used = 0,
            time_used = 0, created_at = [], updated_at = []\<rparr>"
  let ?ops = "[Complete_op (js ''t1''),
              Model_create \<lparr>in_objective = JStr (js '' ship it ''), in_budget = JUndef\<rparr> (js ''t2'') (js ''g2'')]"
  have "\<exists>g'. run_goal_ops (\<lambda>_. True) ?ops (Some ?g) = Some g' \<and> gid g' = js ''g2''"
    by (simp add: complete_record_def model_create_def is_unfinished_def create_record_def
        validate_objective_short trim_ship validate_token_budget_def nullish_def is_valid_timestamp_def)
  then obtain g' where "run_goal_ops (\<lambda>_. True) ?ops (Some ?g) = Some g'" "gid g' = js ''g2''" by blast
  then have "\<exists>k c. k \<le> length ?ops \<and> run_goal_ops (\<lambda>_. True) (take k ?ops) (Some ?g) = Some c \<and>
               gid c = gid ?g \<and> gstatus c = Complete"
    by (intro unfinished_goal_not_replaced [where g' = g']) (simp_all add: is_user_create_def)
  then show ?thesis by (simp only: Let_def) (simp only: list.size add_0 One_nat_def add_Suc numeral_2_eq_2)
qed

text \<open>
  A complete goal is final: operations that create nothing leave it complete, with its
  identity, its usage and its creation time; only its objective text can still be edited.
\<close>

theorem complete_goal_is_final:
  assumes "\<forall>op \<in> set ops. op_new_id op = None" and "gstatus g = Complete"
  shows "\<exists>g'. run_goal_ops dp ops (Some g) = Some g' \<and> gstatus g' = Complete \<and> gid g' = gid g \<and>
    tokens_used g' = tokens_used g \<and> time_used g' = time_used g \<and> created_at g' = created_at g"
  using assms
proof (induction ops arbitrary: g)
  case (Cons op ops)
  show ?case
  proof (cases "apply_goal_op dp op (Some g)")
    case (Inl e)
    with Cons show ?thesis by simp
  next
    case (Inr h)
    from goal_op_frame [OF _ Inr] Cons.prems have h: "gstatus h = Complete" "gid h = gid g"
      "tokens_used h = tokens_used g" "time_used h = time_used g" "created_at h = created_at g"
      by (auto dest: goal_edge_from_complete)
    with Cons.IH [of h] Cons.prems show ?thesis by (auto simp: Inr)
  qed
qed simp

theorem complete_goal_is_final_witness:
  "let g = \<lparr>gid = js ''g1'', objective = js ''a'', gstatus = Complete, token_budget = Some 5, tokens_used = 7,
            time_used = 3, created_at = [], updated_at = []\<rparr>
   in \<exists>g'. run_goal_ops (\<lambda>_. True) [Budget_limit (js ''t1''), Resume (js ''t2'') JUndef, Edit (JStr (js '' ship it '')) (js ''t3'')] (Some g)
      = Some g' \<and> gstatus g' = Complete \<and> tokens_used g' = 7"
  using complete_goal_is_final [of "[Budget_limit (js ''t1''), Resume (js ''t2'') JUndef, Edit (JStr (js '' ship it '')) (js ''t3'')]"
      "\<lparr>gid = js ''g1'', objective = js ''a'', gstatus = Complete, token_budget = Some 5, tokens_used = 7,
            time_used = 3, created_at = [], updated_at = []\<rparr>" "\<lambda>_. True"]
  by (auto simp: Let_def)

text \<open>
  Resuming never reactivates a finished or exhausted goal: it succeeds exactly on a paused,
  blocked or limited goal whose (possibly raised) cap exceeds the tokens already used, and the
  result keeps the usage and is active within its budget.
\<close>

theorem resume_within_budget:
  "is_ok (resume_record (Some g) now opt_budget) \<longleftrightarrow>
     gstatus g \<notin> {Active, Complete} \<and>
     (let cap = (if opt_budget = JUndef then Inr (token_budget g) else validate_token_budget opt_budget)
      in is_ok cap \<and> budget_permits (g\<lparr>token_budget := projr cap\<rparr>))"
  by (cases "validate_token_budget opt_budget")
     (auto simp: resume_record_def Let_def budget_permits_def is_ok_iff and_then_def split: if_splits option.splits)

end
