(* ===== verification/GoalStore.thy ===== *)
theory GoalStore
  imports Goal
begin

text \<open>
  The sidecar envelope of the codex-goals extension and the store contract
  (\<open>ponygirls-codex-goals/src/store.ts\<close>): the persisted record, its validation, its JSON form,
  and the interface \<open>GoalStore\<close> as the locale \<open>goal_store\<close>, with the facts every client of a store
  may rely on. The two implementations are in \<open>MemStore\<close> and \<open>FileStore\<close>.

  A store error is its code and the envelope it carries as \<open>observed\<close> (\<open>None\<close> when it has none).
\<close>

section \<open>The envelope\<close>

definition SIDECAR_VERSION :: int where
  "SIDECAR_VERSION = 1"

definition sidecar_path_for :: "jstring \<Rightarrow> jstring" where
  "sidecar_path_for session_file = session_file @ js ''.codex-goals.json''"

datatype dispatch_phase = Admitted | Running

record dispatch_record =
  dispatch_id :: jstring
  d_session :: jstring
  d_goal :: jstring
  d_revision :: int
  d_phase :: dispatch_phase
  admitted_at :: jstring

record envelope =
  e_version :: int
  e_session :: jstring
  revision :: int
  goal :: "goal_record option"
  dispatch :: "dispatch_record option"
  cleared :: bool
  cleared_at :: "jstring option"
  charged_ids :: "jstring list"
  baseline_count :: "int option"
  e_remainder :: rat

datatype store_error_code =
  No_session_file | Malformed | Session_mismatch | Revision_conflict | Locked | Storage_failure | Indeterminate

type_synonym store_error = "store_error_code \<times> envelope option"
type_synonym 'a store_result = "store_error + 'a"

definition empty_envelope :: "jstring \<Rightarrow> envelope" where
  "empty_envelope sid = \<lparr>e_version = SIDECAR_VERSION, e_session = sid, revision = 0, goal = None,
     dispatch = None, cleared = False, cleared_at = None, charged_ids = [], baseline_count = None,
     e_remainder = 0\<rparr>"

section \<open>Validation\<close>

definition malformed :: "store_error" where
  "malformed = (Malformed, None)"

definition mismatch :: "store_error" where
  "mismatch = (Session_mismatch, None)"

fun nonempty_string :: "js_value \<Rightarrow> bool" where
  "nonempty_string (JStr s) = (s \<noteq> [])"
| "nonempty_string _ = False"

definition safe_int :: "js_value \<Rightarrow> int option" where
  "safe_int v = (case v of JNum (Fin q) \<Rightarrow> if is_safe_integer (Fin q) then Some \<lfloor>q\<rfloor> else None | _ \<Rightarrow> None)"

definition phase_of :: "js_value \<Rightarrow> dispatch_phase option" where
  "phase_of v = (if v = JStr (js ''admitted'') then Some Admitted
                 else if v = JStr (js ''running'') then Some Running else None)"

definition validate_dispatch ::
  "(jstring \<Rightarrow> bool) \<Rightarrow> js_value \<Rightarrow> jstring \<Rightarrow> goal_record option \<Rightarrow> dispatch_record option store_result" where
  "validate_dispatch dp d sid g =
     (if d = JNull \<or> d = JUndef then Inr None
      else if \<not> is_plain_object d then Inl malformed
      else if \<not> nonempty_string (field d (js ''dispatchId'')) \<or>
              \<not> nonempty_string (field d (js ''sessionId'')) \<or>
              \<not> nonempty_string (field d (js ''goalId'')) \<or>
              safe_int (field d (js ''revision'')) = None \<or>
              phase_of (field d (js ''phase'')) = None \<or>
              \<not> is_valid_timestamp dp (field d (js ''admittedAt'')) then Inl malformed
      else if str_of (field d (js ''sessionId'')) \<noteq> sid then Inl mismatch
      else if (case g of Some g' \<Rightarrow> str_of (field d (js ''goalId'')) \<noteq> gid g' | None \<Rightarrow> False)
      then Inl malformed
      else Inr (Some
        \<lparr>dispatch_id = str_of (field d (js ''dispatchId'')),
         d_session = str_of (field d (js ''sessionId'')),
         d_goal = str_of (field d (js ''goalId'')),
         d_revision = the (safe_int (field d (js ''revision''))),
         d_phase = the (phase_of (field d (js ''phase''))),
         admitted_at = str_of (field d (js ''admittedAt''))\<rparr>))"

definition validate_goal_field :: "(jstring \<Rightarrow> bool) \<Rightarrow> js_value \<Rightarrow> goal_record option store_result" where
  "validate_goal_field dp v =
     (if v = JNull then Inr None
      else case validate_goal_record dp v of Inl _ \<Rightarrow> Inl malformed | Inr g \<Rightarrow> Inr (Some g))"

fun bool_of :: "js_value \<Rightarrow> bool option" where
  "bool_of (JBool b) = Some b"
| "bool_of _ = None"

definition nullable_timestamp :: "(jstring \<Rightarrow> bool) \<Rightarrow> js_value \<Rightarrow> jstring option option" where
  "nullable_timestamp dp v =
     (if v = JNull then Some None
      else if is_valid_timestamp dp v then Some (Some (str_of v)) else None)"

definition string_array :: "js_value \<Rightarrow> jstring list option" where
  "string_array v = (case v of JArr vs \<Rightarrow> str_list vs | _ \<Rightarrow> None)"

definition nullable_count :: "js_value \<Rightarrow> int option option" where
  "nullable_count v =
     (if v = JNull then Some None else map_option Some (nonneg_safe_int v))"

definition or_malformed :: "'a option \<Rightarrow> 'a store_result" where
  "or_malformed v = (case v of None \<Rightarrow> Inl malformed | Some x \<Rightarrow> Inr x)"

lemma or_malformed_Inr [simp]: "or_malformed v = Inr x \<longleftrightarrow> v = Some x"
  by (auto simp: or_malformed_def split: option.splits)

lemma or_malformed_Inl [simp]: "or_malformed v = Inl e \<longleftrightarrow> v = None \<and> e = malformed"
  by (auto simp: or_malformed_def split: option.splits)

lemma or_malformed_Some [simp]: "or_malformed (Some x) = Inr x"
  by (simp add: or_malformed_def)

definition validate_envelope ::
  "(jstring \<Rightarrow> bool) \<Rightarrow> js_value \<Rightarrow> jstring \<Rightarrow> envelope store_result" where
  "validate_envelope dp raw sid =
     (if \<not> is_plain_object raw then Inl malformed
      else if field raw (js ''version'') \<noteq> JNum (Fin (of_int SIDECAR_VERSION)) then Inl malformed
      else if field raw (js ''sessionId'') \<noteq> JStr sid then Inl mismatch
      else
        and_then (or_malformed (nonneg_safe_int (field raw (js ''revision'')))) (\<lambda>rev.
        and_then (validate_goal_field dp (field raw (js ''goal''))) (\<lambda>g.
        and_then (validate_dispatch dp (field raw (js ''dispatch'')) sid g) (\<lambda>d.
        and_then (or_malformed (bool_of (field raw (js ''cleared'')))) (\<lambda>c.
        and_then (or_malformed (nullable_timestamp dp (field raw (js ''clearedAt'')))) (\<lambda>cat.
        and_then (or_malformed (string_array (field raw (js ''chargedEntryIds'')))) (\<lambda>ids.
        and_then (or_malformed (nullable_count (field raw (js ''baselineEntryCount'')))) (\<lambda>base.
        and_then (or_malformed (nonneg_finite (field raw (js ''remainderMs'')))) (\<lambda>rem.
          if (case g of Some g' \<Rightarrow> gstatus g' \<notin> set GOAL_STATUSES | None \<Rightarrow> False) then Inl malformed
          else Inr \<lparr>e_version = SIDECAR_VERSION, e_session = sid, revision = rev, goal = g,
                    dispatch = d, cleared = c, cleared_at = cat, charged_ids = ids,
                    baseline_count = base, e_remainder = rem\<rparr>)))))))))"

section \<open>The JSON form of an envelope\<close>

fun phase_name :: "dispatch_phase \<Rightarrow> jstring" where
  "phase_name Admitted = js ''admitted''"
| "phase_name Running = js ''running''"

definition dispatch_json :: "dispatch_record \<Rightarrow> js_value" where
  "dispatch_json d = JObj
     [(js ''dispatchId'', JStr (dispatch_id d)), (js ''sessionId'', JStr (d_session d)),
      (js ''goalId'', JStr (d_goal d)), (js ''revision'', int_json (d_revision d)),
      (js ''phase'', JStr (phase_name (d_phase d))), (js ''admittedAt'', JStr (admitted_at d))]"

text \<open>\<open>JSON.parse(JSON.stringify(e))\<close>.\<close>

definition envelope_json :: "envelope \<Rightarrow> js_value" where
  "envelope_json e = JObj
     [(js ''version'', int_json (e_version e)), (js ''sessionId'', JStr (e_session e)),
      (js ''revision'', int_json (revision e)), (js ''goal'', opt_json goal_json (goal e)),
      (js ''dispatch'', opt_json dispatch_json (dispatch e)), (js ''cleared'', JBool (cleared e)),
      (js ''clearedAt'', opt_json JStr (cleared_at e)),
      (js ''chargedEntryIds'', JArr (map JStr (charged_ids e))),
      (js ''baselineEntryCount'', opt_json int_json (baseline_count e)),
      (js ''remainderMs'', JNum (Fin (e_remainder e)))]"

definition wf_dispatch :: "(jstring \<Rightarrow> bool) \<Rightarrow> jstring \<Rightarrow> goal_record option \<Rightarrow> dispatch_record \<Rightarrow> bool" where
  "wf_dispatch dp sid g d \<longleftrightarrow>
     dispatch_id d \<noteq> [] \<and> d_session d = sid \<and> sid \<noteq> [] \<and> d_goal d \<noteq> [] \<and> \<bar>d_revision d\<bar> \<le> max_safe \<and>
     dp (admitted_at d) \<and> (case g of Some g' \<Rightarrow> d_goal d = gid g' | None \<Rightarrow> True)"

definition wf_envelope :: "(jstring \<Rightarrow> bool) \<Rightarrow> jstring \<Rightarrow> envelope \<Rightarrow> bool" where
  "wf_envelope dp sid e \<longleftrightarrow>
     e_version e = SIDECAR_VERSION \<and> e_session e = sid \<and> 0 \<le> revision e \<and> revision e \<le> max_safe \<and>
     (case goal e of None \<Rightarrow> True | Some g \<Rightarrow> wf_goal dp g) \<and>
     (case dispatch e of None \<Rightarrow> True | Some d \<Rightarrow> wf_dispatch dp sid (goal e) d) \<and>
     (case cleared_at e of None \<Rightarrow> True | Some t \<Rightarrow> dp t) \<and>
     (case baseline_count e of None \<Rightarrow> True | Some n \<Rightarrow> 0 \<le> n \<and> n \<le> max_safe) \<and> 0 \<le> e_remainder e"

lemma field_dispatch_json [simp]:
  "field (dispatch_json d) (js ''dispatchId'') = JStr (dispatch_id d)"
  "field (dispatch_json d) (js ''sessionId'') = JStr (d_session d)"
  "field (dispatch_json d) (js ''goalId'') = JStr (d_goal d)"
  "field (dispatch_json d) (js ''revision'') = int_json (d_revision d)"
  "field (dispatch_json d) (js ''phase'') = JStr (phase_name (d_phase d))"
  "field (dispatch_json d) (js ''admittedAt'') = JStr (admitted_at d)"
  "is_plain_object (dispatch_json d)" "dispatch_json d \<noteq> JNull" "dispatch_json d \<noteq> JUndef"
  by (simp_all add: dispatch_json_def)

lemma field_envelope_json [simp]:
  "field (envelope_json e) (js ''version'') = int_json (e_version e)"
  "field (envelope_json e) (js ''sessionId'') = JStr (e_session e)"
  "field (envelope_json e) (js ''revision'') = int_json (revision e)"
  "field (envelope_json e) (js ''goal'') = opt_json goal_json (goal e)"
  "field (envelope_json e) (js ''dispatch'') = opt_json dispatch_json (dispatch e)"
  "field (envelope_json e) (js ''cleared'') = JBool (cleared e)"
  "field (envelope_json e) (js ''clearedAt'') = opt_json JStr (cleared_at e)"
  "field (envelope_json e) (js ''chargedEntryIds'') = JArr (map JStr (charged_ids e))"
  "field (envelope_json e) (js ''baselineEntryCount'') = opt_json int_json (baseline_count e)"
  "field (envelope_json e) (js ''remainderMs'') = JNum (Fin (e_remainder e))"
  "is_plain_object (envelope_json e)"
  by (simp_all add: envelope_json_def)

lemma phase_of_name [simp]: "phase_of (JStr (phase_name p)) = Some p"
  by (cases p) (simp_all add: phase_of_def)

lemma int_json_eq_version [simp]:
  "int_json i = JNum (Fin (of_int j)) \<longleftrightarrow> i = j"
  by (simp add: int_json_def)

lemma safe_int_json [simp]: "safe_int (int_json i) = (if \<bar>i\<bar> \<le> max_safe then Some i else None)"
  by (simp add: safe_int_def int_json_def abs_of_int_le_iff)

lemma safe_int_SomeD: "safe_int v = Some i \<Longrightarrow> \<bar>i\<bar> \<le> max_safe"
proof -
  assume "safe_int v = Some i"
  then obtain q where "is_int_rat q" "\<bar>q\<bar> \<le> of_int max_safe" "i = \<lfloor>q\<rfloor>"
    by (auto simp: safe_int_def split: js_value.splits js_num.splits if_splits)
  then show ?thesis by (metis abs_of_int_le_iff is_int_rat_def)
qed

lemma nonempty_stringD: "nonempty_string v \<Longrightarrow> str_of v \<noteq> []"
  by (cases v) auto

lemma all_statuses [simp]: "st \<in> set GOAL_STATUSES"
  by (cases st) (simp_all add: GOAL_STATUSES_def)

lemma known_status:
  "(case g of Some g' \<Rightarrow> gstatus g' \<notin> set GOAL_STATUSES | None \<Rightarrow> False) = False"
  by (simp split: option.splits)

lemma validate_dispatch_wf:
  "validate_dispatch dp v sid g = Inr (Some d) \<Longrightarrow> wf_dispatch dp sid g d"
  by (auto simp: validate_dispatch_def wf_dispatch_def safe_int_SomeD
      dest: nonempty_stringD is_valid_timestampD safe_int_SomeD split: if_splits option.splits)

lemma validate_dispatch_json:
  "validate_dispatch dp (opt_json dispatch_json d) sid g = Inr d \<longleftrightarrow>
   (case d of None \<Rightarrow> True | Some d' \<Rightarrow> wf_dispatch dp sid g d')"
  by (cases d) (auto simp: validate_dispatch_def wf_dispatch_def is_valid_timestamp_def split: option.splits)

lemma validate_goal_field_wf:
  "validate_goal_field dp v = Inr (Some g) \<Longrightarrow> wf_goal dp g"
  by (auto simp: validate_goal_field_def dest: validate_goal_record_wf split: if_splits sum.splits)

lemma goal_json_not_null [simp]: "goal_json g \<noteq> JNull"
  by (simp add: goal_json_def)

lemma validate_goal_field_json:
  "validate_goal_field dp (opt_json goal_json g) = Inr g \<longleftrightarrow>
   (case g of None \<Rightarrow> True | Some g' \<Rightarrow> wf_goal dp g')"
  by (cases g) (auto simp: validate_goal_field_def validate_goal_json dest: validate_goal_record_wf split: sum.splits)

lemma nullable_timestamp_json [simp]:
  "nullable_timestamp dp (opt_json JStr t) = (if (case t of None \<Rightarrow> True | Some t' \<Rightarrow> dp t') then Some t else None)"
  by (cases t) (simp_all add: nullable_timestamp_def is_valid_timestamp_def)

lemma nullable_timestamp_SomeD: "nullable_timestamp dp v = Some (Some t) \<Longrightarrow> dp t"
  by (auto simp: nullable_timestamp_def dest: is_valid_timestampD split: if_splits)

lemma nullable_count_json [simp]:
  "nullable_count (opt_json int_json n) =
   (if (case n of None \<Rightarrow> True | Some i \<Rightarrow> 0 \<le> i \<and> i \<le> max_safe) then Some n else None)"
proof (cases n)
  case (Some i)
  have "int_json i \<noteq> JNull" by (simp add: int_json_def)
  with Some show ?thesis by (simp add: nullable_count_def)
qed (simp add: nullable_count_def)

lemma nullable_count_SomeD: "nullable_count v = Some (Some i) \<Longrightarrow> 0 \<le> i \<and> i \<le> max_safe"
  by (auto simp: nullable_count_def dest: nonneg_safe_int_SomeD split: if_splits)

lemma nonneg_finite_json [simp]: "nonneg_finite (JNum (Fin q)) = (if 0 \<le> q then Some q else None)"
  by (simp add: nonneg_finite_def)

lemma string_array_json [simp]: "string_array (JArr (map JStr ids)) = Some ids"
  by (simp add: string_array_def)

lemma validate_envelope_InrD:
  assumes "validate_envelope dp v sid = Inr e"
  shows "e_version e = SIDECAR_VERSION" "e_session e = sid"
    "nonneg_safe_int (field v (js ''revision'')) = Some (revision e)"
    "validate_goal_field dp (field v (js ''goal'')) = Inr (goal e)"
    "validate_dispatch dp (field v (js ''dispatch'')) sid (goal e) = Inr (dispatch e)"
    "bool_of (field v (js ''cleared'')) = Some (cleared e)"
    "nullable_timestamp dp (field v (js ''clearedAt'')) = Some (cleared_at e)"
    "string_array (field v (js ''chargedEntryIds'')) = Some (charged_ids e)"
    "nullable_count (field v (js ''baselineEntryCount'')) = Some (baseline_count e)"
    "nonneg_finite (field v (js ''remainderMs'')) = Some (e_remainder e)"
proof -
  from assms have "\<exists>rev g d c cat ids base rem.
    nonneg_safe_int (field v (js ''revision'')) = Some rev \<and>
    validate_goal_field dp (field v (js ''goal'')) = Inr g \<and>
    validate_dispatch dp (field v (js ''dispatch'')) sid g = Inr d \<and>
    bool_of (field v (js ''cleared'')) = Some c \<and>
    nullable_timestamp dp (field v (js ''clearedAt'')) = Some cat \<and>
    string_array (field v (js ''chargedEntryIds'')) = Some ids \<and>
    nullable_count (field v (js ''baselineEntryCount'')) = Some base \<and>
    nonneg_finite (field v (js ''remainderMs'')) = Some rem \<and>
    e = \<lparr>e_version = SIDECAR_VERSION, e_session = sid, revision = rev, goal = g,
                    dispatch = d, cleared = c, cleared_at = cat, charged_ids = ids,
                    baseline_count = base, e_remainder = rem\<rparr>"
    unfolding validate_envelope_def known_status
    by (simp only: and_then_Inr_iff or_malformed_Inr if_False sum.inject sum.distinct split: if_splits) blast
  then show "e_version e = SIDECAR_VERSION" "e_session e = sid"
    "nonneg_safe_int (field v (js ''revision'')) = Some (revision e)"
    "validate_goal_field dp (field v (js ''goal'')) = Inr (goal e)"
    "validate_dispatch dp (field v (js ''dispatch'')) sid (goal e) = Inr (dispatch e)"
    "bool_of (field v (js ''cleared'')) = Some (cleared e)"
    "nullable_timestamp dp (field v (js ''clearedAt'')) = Some (cleared_at e)"
    "string_array (field v (js ''chargedEntryIds'')) = Some (charged_ids e)"
    "nullable_count (field v (js ''baselineEntryCount'')) = Some (baseline_count e)"
    "nonneg_finite (field v (js ''remainderMs'')) = Some (e_remainder e)"
    by auto
qed

lemma validate_envelope_wf:
  assumes "validate_envelope dp v sid = Inr e"
  shows "wf_envelope dp sid e"
  unfolding wf_envelope_def
  using validate_envelope_InrD [OF assms]
  by (auto dest: nonneg_safe_int_SomeD validate_goal_field_wf validate_dispatch_wf
      nullable_timestamp_SomeD nullable_count_SomeD nonneg_finite_SomeD split: option.splits)

lemma validate_envelope_json:
  assumes "wf_envelope dp sid e"
  shows "validate_envelope dp (envelope_json e) sid = Inr e"
proof -
  have "validate_goal_field dp (opt_json goal_json (goal e)) = Inr (goal e)"
       "validate_dispatch dp (opt_json dispatch_json (dispatch e)) sid (goal e) = Inr (dispatch e)"
    using assms by (auto simp: validate_goal_field_json validate_dispatch_json wf_envelope_def)
  with assms show ?thesis
    by (auto simp: validate_envelope_def wf_envelope_def split: option.splits)
qed

text \<open>
  Validation of an envelope the program wrote changes nothing but the objective, which it trims.
\<close>

lemma validate_objective_trims: "validate_objective (JStr s) = Inr t \<Longrightarrow> t = trim s"
  by (simp add: validate_objective_iff)

definition trim_goal :: "goal_record \<Rightarrow> goal_record" where
  "trim_goal g = g\<lparr>objective := trim (objective g)\<rparr>"

lemma trim_goal_simps [simp]:
  "gid (trim_goal g) = gid g" "gstatus (trim_goal g) = gstatus g" "token_budget (trim_goal g) = token_budget g"
  "tokens_used (trim_goal g) = tokens_used g" "time_used (trim_goal g) = time_used g"
  "created_at (trim_goal g) = created_at g" "updated_at (trim_goal g) = updated_at g"
  "objective (trim_goal g) = trim (objective g)"
  by (simp_all add: trim_goal_def)

lemma validate_goal_json_eq: "validate_goal_record dp (goal_json g) = Inr g' \<Longrightarrow> g' = trim_goal g"
  by (auto simp: validate_goal_record_def trim_goal_def dest: validate_objective_trims
      split: if_splits sum.splits option.splits)

lemma validate_dispatch_json_eq:
  "validate_dispatch dp (opt_json dispatch_json d) sid g = Inr d' \<Longrightarrow> d' = d"
  by (cases d) (auto simp: validate_dispatch_def split: if_splits)

lemma validate_goal_field_json_eq:
  "validate_goal_field dp (opt_json goal_json g) = Inr g' \<Longrightarrow> g' = map_option trim_goal g"
  by (cases g) (auto simp: validate_goal_field_def dest: validate_goal_json_eq split: sum.splits)

lemma validate_written:
  assumes "validate_envelope dp (envelope_json x) sid = Inr e"
  shows "e = x\<lparr>e_version := SIDECAR_VERSION, e_session := sid, goal := map_option trim_goal (goal x)\<rparr>"
  using validate_envelope_InrD [OF assms]
  by (auto dest!: validate_goal_field_json_eq validate_dispatch_json_eq split: if_splits)

text \<open>The text of a sidecar, by what \<open>JSON.parse\<close> makes of it.\<close>

datatype side_text = Unparsable | Parsed js_value

definition parse_sidecar :: "(jstring \<Rightarrow> bool) \<Rightarrow> jstring \<Rightarrow> side_text \<Rightarrow> envelope store_result" where
  "parse_sidecar dp sid t = (case t of Unparsable \<Rightarrow> Inl malformed | Parsed v \<Rightarrow> validate_envelope dp v sid)"

lemma parse_sidecar_wf: "parse_sidecar dp sid t = Inr e \<Longrightarrow> wf_envelope dp sid e"
  by (auto simp: parse_sidecar_def dest: validate_envelope_wf split: side_text.splits)

lemma parse_sidecar_json [simp]:
  "wf_envelope dp sid e \<Longrightarrow> parse_sidecar dp sid (Parsed (envelope_json e)) = Inr e"
  by (simp add: parse_sidecar_def validate_envelope_json)

lemma wf_empty_envelope [simp]: "wf_envelope dp sid (empty_envelope sid)"
  by (simp add: wf_envelope_def empty_envelope_def max_safe_def)

lemma validate_dispatch_error:
  "validate_dispatch dp d sid g = Inl e \<Longrightarrow> e = malformed \<or> e = mismatch"
  by (auto simp: validate_dispatch_def split: if_splits)

lemma validate_goal_field_error: "validate_goal_field dp v = Inl e \<Longrightarrow> e = malformed"
  by (auto simp: validate_goal_field_def split: if_splits sum.splits)

lemma validate_envelope_error:
  assumes "validate_envelope dp v sid = Inl e"
  shows "e = malformed \<or> e = mismatch"
  using assms unfolding validate_envelope_def known_status
  by (simp only: and_then_Inl_iff or_malformed_Inl if_False sum.distinct simp_thms ex_simps split: if_splits)
     (use validate_dispatch_error validate_goal_field_error in blast)+

lemma parse_sidecar_error: "parse_sidecar dp sid t = Inl e \<Longrightarrow> e = malformed \<or> e = mismatch"
  by (auto simp: parse_sidecar_def dest: validate_envelope_error split: side_text.splits)

lemma not_indeterminate [simp]: "malformed \<noteq> (Indeterminate, obs)" "mismatch \<noteq> (Indeterminate, obs)"
  by (simp_all add: malformed_def mismatch_def)

section \<open>The store contract\<close>

text \<open>
  \<open>commit(expectedRevision, mutate)\<close> stamps the next revision and the version on what the
  mutation returns before it validates and writes it.
\<close>

definition stamp :: "int \<Rightarrow> envelope \<Rightarrow> envelope" where
  "stamp n e = e\<lparr>revision := n + 1, e_version := SIDECAR_VERSION\<rparr>"

lemma stamp_simps [simp]:
  "revision (stamp n e) = n + 1" "e_version (stamp n e) = SIDECAR_VERSION" "e_session (stamp n e) = e_session e"
  "goal (stamp n e) = goal e" "dispatch (stamp n e) = dispatch e" "charged_ids (stamp n e) = charged_ids e"
  "cleared (stamp n e) = cleared e" "cleared_at (stamp n e) = cleared_at e"
  "baseline_count (stamp n e) = baseline_count e" "e_remainder (stamp n e) = e_remainder e"
  by (simp_all add: stamp_def)

lemma wf_envelope_stamp:
  "wf_envelope dp sid e \<Longrightarrow> 0 \<le> n + 1 \<Longrightarrow> n + 1 \<le> max_safe \<Longrightarrow> wf_envelope dp sid (stamp n e)"
  by (auto simp: wf_envelope_def split: option.splits)

type_synonym 's loader = "'s \<Rightarrow> envelope store_result \<times> 's"
type_synonym 's committer = "'s \<Rightarrow> int \<Rightarrow> (envelope \<Rightarrow> envelope) \<Rightarrow> envelope store_result \<times> 's"

record 's store_ops =
  op_session :: "'s \<Rightarrow> jstring"
  op_load :: "'s loader"
  op_commit :: "'s committer"

fun run_commits ::
  "'s committer \<Rightarrow> (int \<times> (envelope \<Rightarrow> envelope)) list \<Rightarrow> 's \<Rightarrow> envelope store_result list \<times> 's" where
  "run_commits commit [] s = ([], s)"
| "run_commits commit ((n, f) # cs) s =
     (case commit s n f of (r, s1) \<Rightarrow>
      case run_commits commit cs s1 of (rs, s2) \<Rightarrow> (r # rs, s2))"

text \<open>A commit that installed its envelope: it succeeded, or only its durability is unknown.\<close>

definition installed :: "envelope store_result \<Rightarrow> bool" where
  "installed r = (case r of Inr _ \<Rightarrow> True | Inl (c, _) \<Rightarrow> c = Indeterminate)"

lemma installed_simps [simp]:
  "installed (Inr e)" "installed (Inl (c, obs)) = (c = Indeterminate)"
  by (simp_all add: installed_def)

lemma installed_Inl: "installed (Inl e) \<longleftrightarrow> fst e = Indeterminate"
  by (cases e) simp

locale goal_store =
  fixes dp :: "jstring \<Rightarrow> bool"
    and session :: "'s \<Rightarrow> jstring"
    and load :: "'s loader"
    and commit :: "'s committer"
    and content :: "'s \<Rightarrow> envelope option"
  assumes session_load: "load s = (r, s') \<Longrightarrow> session s' = session s"
    and session_commit: "commit s n f = (r, s') \<Longrightarrow> session s' = session s"
    and content_wf: "content s = Some e \<Longrightarrow> wf_envelope dp (session s) e"
    and load_content: "load s = (r, s') \<Longrightarrow> content s' = content s"
    and load_ok: "load s = (Inr e, s') \<Longrightarrow> content s = Some e"
    and commit_ok: "commit s n f = (Inr e, s') \<Longrightarrow>
          content s' = Some e \<and> (\<exists>c. content s = Some c \<and> revision c = n \<and>
            validate_envelope dp (envelope_json (stamp n (f c))) (session s) = Inr e)"
    and commit_refused: "commit s n f = (Inl (code, obs), s') \<Longrightarrow> code \<noteq> Indeterminate \<Longrightarrow>
          content s' = content s"
    and commit_indeterminate: "commit s n f = (Inl (Indeterminate, obs), s') \<Longrightarrow>
          \<exists>c e. content s = Some c \<and> revision c = n \<and> content s' = Some e \<and>
            validate_envelope dp (envelope_json (stamp n (f c))) (session s) = Inr e"
begin

lemma validated_revision:
  assumes "validate_envelope dp (envelope_json (stamp n x)) sid = Inr e"
  shows "revision e = n + 1"
  using validate_envelope_InrD(3) [OF assms] by (simp split: if_splits)

lemma commit_installed:
  assumes "commit s n f = (r, s')" and "installed r"
  shows "\<exists>c e. content s = Some c \<and> revision c = n \<and> content s' = Some e \<and> revision e = n + 1 \<and>
    validate_envelope dp (envelope_json (stamp n (f c))) (session s) = Inr e"
proof (cases r)
  case (Inl er)
  with assms obtain obs where "er = (Indeterminate, obs)" by (cases er) auto
  with assms Inl commit_indeterminate validated_revision show ?thesis by blast
next
  case (Inr e)
  with assms commit_ok validated_revision show ?thesis by blast
qed

lemma commit_not_installed:
  assumes "commit s n f = (r, s')" and "\<not> installed r"
  shows "content s' = content s"
  using assms commit_refused by (cases r) auto

lemma stale_commit:
  assumes "content s = Some c" and "revision c \<noteq> n" and "commit s n f = (r, s')"
  shows "\<not> installed r \<and> content s' = Some c"
  using assms commit_installed commit_not_installed by fastforce

lemma one_commit_per_revision:
  assumes "commit s n f = (r1, s1)" and "installed r1" and "commit s1 n g = (r2, s2)"
  shows "\<not> installed r2 \<and> content s2 = content s1"
proof -
  from commit_installed [OF assms(1,2)] obtain e where "content s1 = Some e" "revision e = n + 1" by auto
  with stale_commit [of s1 e n g r2 s2] assms(3) show ?thesis by simp
qed

lemma run_commits_revision:
  assumes "content s = Some c" and "run_commits commit cs s = (rs, s')"
  shows "\<exists>c'. content s' = Some c' \<and> revision c' = revision c + int (length (filter installed rs))"
  using assms
proof (induction cs arbitrary: s c rs)
  case (Cons x cs)
  obtain n f where x: "x = (n, f)" by (cases x)
  obtain r s1 where r: "commit s n f = (r, s1)" by fastforce
  obtain rs1 where run: "run_commits commit cs s1 = (rs1, s')" and rs: "rs = r # rs1"
    using Cons.prems(2) by (auto simp: x r split: prod.splits)
  have "\<exists>c1. content s1 = Some c1 \<and> revision c1 = revision c + (if installed r then 1 else 0)"
    using commit_installed [OF r] commit_not_installed [OF r] Cons.prems(1) by auto
  then obtain c1 where c1: "content s1 = Some c1" "revision c1 = revision c + (if installed r then 1 else 0)"
    by blast
  from Cons.IH [OF c1(1) run] c1(2) show ?case by (auto simp: rs)
qed simp

end

section \<open>Properties\<close>

text \<open>
  The sidecar codec: an envelope written as JSON is read back unchanged exactly when it is
  well formed for the session (version, nonnegative safe revision, a well-formed goal, a dispatch
  that names this session and this goal, parseable timestamps).
\<close>

theorem envelope_codec:
  "validate_envelope dp (envelope_json e) sid = Inr e \<longleftrightarrow> wf_envelope dp sid e"
  using validate_envelope_json validate_envelope_wf by blast

text \<open>
  Nothing from another session is ever accepted: an accepted sidecar carries the expected
  session id, and so does its dispatch, which also names the goal beside it.
\<close>

theorem accepted_envelope_identity:
  assumes "validate_envelope dp raw sid = Inr e"
  shows "field raw (js ''sessionId'') = JStr sid \<and> e_session e = sid \<and>
    (\<forall>d. dispatch e = Some d \<longrightarrow> d_session d = sid \<and> (\<forall>g. goal e = Some g \<longrightarrow> d_goal d = gid g))"
proof -
  have "field raw (js ''sessionId'') = JStr sid"
    using assms by (auto simp: validate_envelope_def split: if_splits)
  moreover have "wf_envelope dp sid e" by (rule validate_envelope_wf [OF assms])
  ultimately show ?thesis by (auto simp: wf_envelope_def wf_dispatch_def)
qed

definition sample_goal :: goal_record where
  "sample_goal = \<lparr>gid = js ''g1'', objective = js ''ship'', gstatus = Active, token_budget = Some 10,
     tokens_used = 3, time_used = 1, created_at = js ''t0'', updated_at = js ''t0''\<rparr>"

definition sample_dispatch :: dispatch_record where
  "sample_dispatch = \<lparr>dispatch_id = js ''d1'', d_session = js ''s1'', d_goal = js ''g1'', d_revision = 4,
     d_phase = Running, admitted_at = js ''t0''\<rparr>"

definition sample_envelope :: envelope where
  "sample_envelope = (empty_envelope (js ''s1''))\<lparr>revision := 5, goal := Some sample_goal, dispatch := Some sample_dispatch\<rparr>"

lemma wf_sample_goal: "wf_goal (\<lambda>_. True) sample_goal"
  using count_scalars_bound [of "js ''ship''"]
  by (simp add: wf_goal_def sample_goal_def wf_objective_def wf_budget_def max_safe_def MAX_OBJECTIVE_SCALARS_def)
     (simp add: js_def trim_def is_js_space_def)

lemma wf_sample_envelope: "wf_envelope (\<lambda>_. True) (js ''s1'') sample_envelope"
  using wf_sample_goal
  by (simp add: wf_envelope_def sample_envelope_def empty_envelope_def wf_dispatch_def sample_dispatch_def
      max_safe_def) (simp add: sample_goal_def)

theorem accepted_envelope_identity_witness:
  "\<exists>d. dispatch sample_envelope = Some d \<and> d_session d = js ''s1'' \<and> e_session sample_envelope = js ''s1''"
  using accepted_envelope_identity [OF validate_envelope_json [OF wf_sample_envelope]]
  by (simp add: sample_envelope_def)

end
