(* ===== verification/MemStore.thy ===== *)
theory MemStore
  imports GoalStore
begin

text \<open>
  \<open>InMemoryGoalStore\<close> of \<open>ponygirls-codex-goals/src/store.ts\<close>. The backing \<open>Map\<close>, which two
  instances may share, has keys \<open>sidecar:<id>\<close> and \<open>lock:<id>\<close>; the model keeps the two kinds of
  entries in two maps.
\<close>

record mem_store =
  m_session :: jstring
  m_instance :: jstring
  m_sidecars :: "(jstring \<times> side_text) list"
  m_locks :: "(jstring \<times> jstring) list"
  m_held :: bool
  m_lock_owner :: "jstring option"
  m_fail_flush :: bool
  m_fail_write :: bool

definition mem_new :: "jstring \<Rightarrow> jstring \<Rightarrow> mem_store" where
  "mem_new sid inst = \<lparr>m_session = sid, m_instance = inst, m_sidecars = [], m_locks = [], m_held = False,
     m_lock_owner = None, m_fail_flush = False, m_fail_write = False\<rparr>"

definition mem_load :: "(jstring \<Rightarrow> bool) \<Rightarrow> mem_store \<Rightarrow> envelope store_result \<times> mem_store" where
  "mem_load dp s =
     (case map_of (m_sidecars s) (m_session s) of
        None \<Rightarrow> Inr (empty_envelope (m_session s))
      | Some t \<Rightarrow> parse_sidecar dp (m_session s) t, s)"

definition mem_acquire_lock :: "mem_store \<Rightarrow> unit store_result \<times> mem_store" where
  "mem_acquire_lock s =
     (case map_of (m_locks s) (m_session s) of
        Some other \<Rightarrow>
          if other \<noteq> [] \<and> other \<noteq> m_instance s then (Inl (Locked, None), s)
          else (Inr (), s\<lparr>m_locks := map_put (m_session s) (m_instance s) (m_locks s),
                          m_lock_owner := Some (m_instance s), m_held := True\<rparr>)
      | None \<Rightarrow> (Inr (), s\<lparr>m_locks := map_put (m_session s) (m_instance s) (m_locks s),
                          m_lock_owner := Some (m_instance s), m_held := True\<rparr>))"

definition mem_release_lock :: "mem_store \<Rightarrow> mem_store" where
  "mem_release_lock s =
     (if \<not> m_held s then s
      else let s1 = s\<lparr>m_held := False\<rparr>;
               s2 = (if map_of (m_locks s1) (m_session s1) = Some (m_instance s1)
                     then s1\<lparr>m_locks := map_del (m_session s1) (m_locks s1)\<rparr> else s1)
           in s2\<lparr>m_lock_owner := None\<rparr>)"

definition mem_install :: "envelope \<Rightarrow> mem_store \<Rightarrow> mem_store" where
  "mem_install e s = s\<lparr>m_sidecars := map_put (m_session s) (Parsed (envelope_json e)) (m_sidecars s)\<rparr>"

definition mem_commit ::
  "(jstring \<Rightarrow> bool) \<Rightarrow> mem_store \<Rightarrow> int \<Rightarrow> (envelope \<Rightarrow> envelope) \<Rightarrow> envelope store_result \<times> mem_store" where
  "mem_commit dp s n f =
     (case mem_acquire_lock s of
        (Inl e, s) \<Rightarrow> (Inl e, s)
      | (Inr _, s) \<Rightarrow>
        if m_fail_write s then (Inl (Storage_failure, None), s\<lparr>m_fail_write := False\<rparr>)
        else case mem_load dp s of
          (Inl e, s) \<Rightarrow> (Inl e, s)
        | (Inr loaded, s) \<Rightarrow>
          if revision loaded \<noteq> n then (Inl (Revision_conflict, Some loaded), s)
          else case validate_envelope dp (envelope_json (stamp n (f loaded))) (m_session s) of
            Inl e \<Rightarrow> (Inl e, s)
          | Inr e \<Rightarrow>
            if m_fail_flush s then
              (Inl (Indeterminate, Some e), mem_install e (s\<lparr>m_fail_flush := False\<rparr>))
            else (Inr e, mem_install e s))"

definition mem_corrupt :: "side_text \<Rightarrow> mem_store \<Rightarrow> mem_store" where
  "mem_corrupt t s = s\<lparr>m_sidecars := map_put (m_session s) t (m_sidecars s)\<rparr>"

text \<open>What a load returns, when it returns an envelope.\<close>

definition mem_content :: "(jstring \<Rightarrow> bool) \<Rightarrow> mem_store \<Rightarrow> envelope option" where
  "mem_content dp s = (case fst (mem_load dp s) of Inl _ \<Rightarrow> None | Inr e \<Rightarrow> Some e)"

section \<open>Facts\<close>

lemma mem_acquire_lock_frame:
  "mem_acquire_lock s = (r, s') \<Longrightarrow>
   m_session s' = m_session s \<and> m_sidecars s' = m_sidecars s \<and> m_instance s' = m_instance s \<and>
   m_fail_write s' = m_fail_write s \<and> m_fail_flush s' = m_fail_flush s"
  by (auto simp: mem_acquire_lock_def split: option.splits if_splits)

lemma mem_content_cong:
  "m_session s' = m_session s \<Longrightarrow> m_sidecars s' = m_sidecars s \<Longrightarrow> mem_content dp s' = mem_content dp s"
  by (simp add: mem_content_def mem_load_def cong: option.case_cong)

lemma mem_content_wf: "mem_content dp s = Some e \<Longrightarrow> wf_envelope dp (m_session s) e"
  by (auto simp: mem_content_def mem_load_def dest: parse_sidecar_wf split: sum.splits option.splits)

lemma mem_content_install:
  "m_session s = sid \<Longrightarrow> wf_envelope dp sid e \<Longrightarrow> mem_content dp (mem_install e s) = Some e"
  by (simp add: mem_content_def mem_load_def mem_install_def)

lemma mem_install_session [simp]: "m_session (mem_install e s) = m_session s"
  by (simp add: mem_install_def)

lemma mem_load_error: "mem_load dp s = (Inl e, s') \<Longrightarrow> e = malformed \<or> e = mismatch"
  by (auto simp: mem_load_def dest: parse_sidecar_error split: option.splits)

lemma mem_lock_error: "mem_acquire_lock s = (Inl e, s') \<Longrightarrow> e = (Locked, None)"
  by (auto simp: mem_acquire_lock_def split: option.splits if_splits)

text \<open>Every way a commit can end.\<close>

lemma mem_commit_cases:
  assumes "mem_commit dp s n f = (r, s')"
  shows "(\<not> installed r \<and> m_session s' = m_session s \<and> m_sidecars s' = m_sidecars s) \<or>
    (\<exists>c e s0. mem_content dp s = Some c \<and> revision c = n \<and>
       validate_envelope dp (envelope_json (stamp n (f c))) (m_session s) = Inr e \<and>
       (r = Inr e \<or> (\<exists>obs. r = Inl (Indeterminate, obs))) \<and>
       s' = mem_install e s0 \<and> m_session s0 = m_session s)"
proof -
  obtain lk s1 where lk: "mem_acquire_lock s = (lk, s1)" by fastforce
  note frame = mem_acquire_lock_frame [OF lk]
  obtain ld where ld: "mem_load dp s1 = (ld, s1)" by (simp add: mem_load_def)
  have ld': "mem_content dp s = (case ld of Inl _ \<Rightarrow> None | Inr e \<Rightarrow> Some e)"
    using ld frame mem_content_cong [of s1 s dp] by (simp add: mem_content_def)
  have refused: "\<not> installed (Inl e)" if "e = malformed \<or> e = mismatch \<or> e = (Locked, None)" for e
    using that by (auto simp: malformed_def mismatch_def installed_Inl)
  show ?thesis
  proof (cases lk)
    case (Inl e)
    then have "e = (Locked, None)" using lk mem_lock_error by blast
    with assms lk frame Inl show ?thesis by (auto simp: mem_commit_def)
  next
    case lkok: (Inr u)
    show ?thesis
    proof (cases "m_fail_write s1")
      case True
      with assms lk lkok frame show ?thesis by (auto simp: mem_commit_def)
    next
      case nofault: False
      show ?thesis
      proof (cases ld)
        case (Inl e)
        then have "\<not> installed (Inl e)" using mem_load_error ld by (intro refused) blast
        with assms lk lkok nofault ld Inl frame show ?thesis by (auto simp: mem_commit_def)
      next
        case ldok: (Inr c)
        show ?thesis
        proof (cases "revision c = n")
          case False
          with assms lk lkok nofault ld ldok frame show ?thesis by (auto simp: mem_commit_def)
        next
          case rev: True
          show ?thesis
          proof (cases "validate_envelope dp (envelope_json (stamp n (f c))) (m_session s1)")
            case (Inl e)
            then have "\<not> installed (Inl e)" using validate_envelope_error by (intro refused) blast
            with assms lk lkok nofault ld ldok rev Inl frame show ?thesis by (auto simp: mem_commit_def)
          next
            case (Inr e)
            with assms lk lkok nofault ld ldok rev frame ld' show ?thesis
              by (auto simp: mem_commit_def split: if_splits)
          qed
        qed
      qed
    qed
  qed
qed

interpretation mem: goal_store dp m_session "mem_load dp" "mem_commit dp" "mem_content dp"
proof unfold_locales
  show "m_session s' = m_session s" if "mem_load dp s = (r, s')" for s r s'
    using that by (simp add: mem_load_def)
  show "m_session s' = m_session s" if "mem_commit dp s n f = (r, s')" for s n f r s'
    using mem_commit_cases [OF that] by auto
  show "wf_envelope dp (m_session s) e" if "mem_content dp s = Some e" for s e
    using that by (rule mem_content_wf)
  show "mem_content dp s' = mem_content dp s" if "mem_load dp s = (r, s')" for s r s'
    using that by (simp add: mem_load_def)
  show "mem_content dp s = Some e" if "mem_load dp s = (Inr e, s')" for s e s'
    using that by (simp add: mem_content_def)
  show "mem_content dp s' = Some e \<and> (\<exists>c. mem_content dp s = Some c \<and> revision c = n \<and>
      validate_envelope dp (envelope_json (stamp n (f c))) (m_session s) = Inr e)"
    if "mem_commit dp s n f = (Inr e, s')" for s n f e s'
    using mem_commit_cases [OF that] by (auto intro: mem_content_install dest: validate_envelope_wf)
  show "mem_content dp s' = mem_content dp s"
    if "mem_commit dp s n f = (Inl (code, obs), s')" "code \<noteq> Indeterminate" for s n f code obs s'
    using mem_commit_cases [OF that(1)] that(2) by (auto intro: mem_content_cong)
  show "\<exists>c e. mem_content dp s = Some c \<and> revision c = n \<and> mem_content dp s' = Some e \<and>
      validate_envelope dp (envelope_json (stamp n (f c))) (m_session s) = Inr e"
    if "mem_commit dp s n f = (Inl (Indeterminate, obs), s')" for s n f obs s'
    using mem_commit_cases [OF that] by (auto intro: mem_content_install dest: validate_envelope_wf)
qed

section \<open>Properties\<close>

text \<open>
  Two in-memory stores on one session cannot both hold the writer lock: while one instance's
  lock entry is in the shared backing map, the other instance's acquisition and commits are
  refused and leave the backing map unchanged.
\<close>

theorem mem_second_writer_locked:
  assumes "mem_acquire_lock a = (Inr (), a')" and "m_instance a \<noteq> []" and "m_instance b \<noteq> m_instance a"
    and "m_session b = m_session a" and "m_locks b = m_locks a'"
  shows "mem_commit dp b n f = (Inl (Locked, None), b)"
proof -
  have "map_of (m_locks b) (m_session b) = Some (m_instance a)"
    using assms by (auto simp: mem_acquire_lock_def split: option.splits if_splits)
  with assms show ?thesis by (simp add: mem_commit_def mem_acquire_lock_def)
qed

theorem mem_second_writer_locked_witness:
  "let a = snd (mem_acquire_lock (mem_new (js ''s1'') (js ''A''))) in
   mem_commit dp ((mem_new (js ''s1'') (js ''B''))\<lparr>m_locks := m_locks a\<rparr>) 0 id
     = (Inl (Locked, None), (mem_new (js ''s1'') (js ''B''))\<lparr>m_locks := m_locks a\<rparr>)"
proof -
  let ?a = "mem_new (js ''s1'') (js ''A'')"
  have "mem_acquire_lock ?a = (Inr (), snd (mem_acquire_lock ?a))"
    by (simp add: mem_acquire_lock_def mem_new_def)
  then show ?thesis unfolding Let_def
    by (rule mem_second_writer_locked) (simp_all add: mem_new_def)
qed

text \<open>
  No update is lost: whatever sequence of commits runs against the in-memory store, the
  stored revision has grown by exactly the number of commits that installed an envelope.
\<close>

theorem mem_commits_counted:
  assumes "mem_content dp s = Some c" and "run_commits (mem_commit dp) cs s = (rs, s')"
  shows "\<exists>c'. mem_content dp s' = Some c' \<and> revision c' = revision c + int (length (filter installed rs))"
  using assms by (rule mem.run_commits_revision)

lemma mem_new_content: "mem_content dp (mem_new sid inst) = Some (empty_envelope sid)"
  by (simp add: mem_content_def mem_load_def mem_new_def)

definition first_envelope :: "jstring \<Rightarrow> envelope" where
  "first_envelope sid = stamp 0 (empty_envelope sid)"

lemma validate_first: "validate_envelope dp (envelope_json (stamp 0 (empty_envelope sid))) sid = Inr (first_envelope sid)"
proof -
  have "wf_envelope dp sid (first_envelope sid)"
    by (simp add: wf_envelope_def first_envelope_def stamp_def empty_envelope_def max_safe_def)
  then show ?thesis unfolding first_envelope_def by (rule validate_envelope_json)
qed

lemma mem_new_commit: "installed (fst (mem_commit dp (mem_new sid inst) 0 id))"
proof -
  have "revision (empty_envelope sid) = 0" by (simp add: empty_envelope_def)
  with validate_first show ?thesis
    by (simp add: mem_commit_def mem_acquire_lock_def mem_new_def mem_load_def)
qed

theorem mem_commits_counted_witness:
  "\<exists>c' rs s'. run_commits (mem_commit (\<lambda>_. True)) [(0, id)] (mem_new (js ''s1'') (js ''A'')) = (rs, s') \<and>
     mem_content (\<lambda>_. True) s' = Some c' \<and> revision c' = 1"
proof -
  let ?s = "mem_new (js ''s1'') (js ''A'')"
  obtain rs s' where run: "run_commits (mem_commit (\<lambda>_. True)) [(0, id)] ?s = (rs, s')" by fastforce
  then have "length (filter installed rs) = 1"
    using mem_new_commit [of "\<lambda>_. True" "js ''s1''" "js ''A''"] by (auto split: prod.splits)
  with mem_commits_counted [OF mem_new_content run] run show ?thesis
    by (auto simp: empty_envelope_def)
qed

end
