(* ===== verification/Accounting.thy ===== *)
theory Accounting
  imports Prelude
begin

text \<open>
  Token and time accounting of the codex-goals extension
  (\<open>ponygirls-codex-goals/src/accounting.ts\<close>): normalising one usage report to chargeable tokens,
  charging each finalized entry once, and splitting active time into whole seconds and a carried
  remainder. Times are milliseconds as rationals.
\<close>

record usage_like =
  u_input :: js_value
  u_output :: js_value
  u_cacheRead :: js_value
  u_cacheWrite :: js_value
  u_reasoning :: js_value
  u_totalTokens :: js_value

definition to_nonneg_number :: "js_value \<Rightarrow> rat option" where
  "to_nonneg_number v =
     (case v of JNum (Fin q) \<Rightarrow> if q < 0 then None else Some q | _ \<Rightarrow> None)"

definition normalize_tokens :: "usage_like \<Rightarrow> int option" where
  "normalize_tokens u =
     (case (to_nonneg_number (u_input u), to_nonneg_number (u_output u)) of
        (Some inp, Some out) \<Rightarrow>
          (let cw = (case to_nonneg_number (u_cacheWrite u) of None \<Rightarrow> 0 | Some c \<Rightarrow> c);
               total = inp + cw + out
           in if \<not> is_safe_integer (Fin (of_int (trunc_rat total))) then None
              else Some (trunc_rat total))
      | _ \<Rightarrow> None)"

text \<open>
  The loop of \<open>chargeTokens\<close>: \<open>i\<close> is the index, \<open>seen\<close> the mutable set of charged entry ids. An
  entry without an id is named after its index.
\<close>

definition entry_id :: "jstring list \<Rightarrow> nat \<Rightarrow> jstring" where
  "entry_id ids i = (if i < length ids then ids ! i else js ''obs-'' @ digits_of i)"

fun charge_loop ::
  "jstring list \<Rightarrow> nat \<Rightarrow> usage_like list \<Rightarrow> int \<Rightarrow> bool \<Rightarrow> jstring list \<Rightarrow> int \<times> bool \<times> jstring list" where
  "charge_loop ids i [] tokens unknown seen = (tokens, unknown, seen)"
| "charge_loop ids i (u # us) tokens unknown seen =
     (let e = entry_id ids i in
      if e \<in> set seen then charge_loop ids (Suc i) us tokens unknown seen
      else case normalize_tokens u of
        None \<Rightarrow> charge_loop ids (Suc i) us tokens True seen
      | Some n \<Rightarrow> charge_loop ids (Suc i) us (tokens + n) unknown (set_add e seen))"

definition charge_tokens ::
  "int \<Rightarrow> usage_like list \<Rightarrow> jstring list \<Rightarrow> jstring list \<Rightarrow> int \<times> bool \<times> jstring list" where
  "charge_tokens current observations seen ids = charge_loop ids 0 observations current False seen"

definition elapsed_seconds :: "rat \<Rightarrow> rat \<Rightarrow> rat \<Rightarrow> int \<times> rat" where
  "elapsed_seconds start_ms end_ms carry =
     (let delta = max 0 (end_ms - start_ms + carry);
          seconds = \<lfloor>delta / 1000\<rfloor>
      in (seconds, delta - of_int seconds * 1000))"

record checkpoint_state =
  charged_entry_ids :: "jstring list"
  baseline_set :: bool
  span_start_ms :: "rat option"
  remainder_ms :: rat
  unknown_usage_seen :: bool

definition empty_checkpoints :: checkpoint_state where
  "empty_checkpoints = \<lparr>charged_entry_ids = [], baseline_set = False, span_start_ms = None,
     remainder_ms = 0, unknown_usage_seen = False\<rparr>"

section \<open>Facts\<close>

lemma to_nonneg_number_SomeD: "to_nonneg_number v = Some q \<Longrightarrow> 0 \<le> q"
  by (auto simp: to_nonneg_number_def split: js_value.splits js_num.splits if_splits)

lemma trunc_rat_nonneg: "0 \<le> q \<Longrightarrow> 0 \<le> trunc_rat q"
  by (simp add: trunc_rat_def)

lemma normalize_tokens_bounds:
  assumes "normalize_tokens u = Some n"
  shows "0 \<le> n" and "n \<le> max_safe"
proof -
  from assms obtain a b where ab: "to_nonneg_number (u_input u) = Some a" "to_nonneg_number (u_output u) = Some b"
    by (auto simp: normalize_tokens_def split: option.splits)
  define c where "c = (case to_nonneg_number (u_cacheWrite u) of None \<Rightarrow> 0 | Some c \<Rightarrow> c)"
  have "0 \<le> a" "0 \<le> b" "0 \<le> c"
    using ab by (auto simp: c_def dest: to_nonneg_number_SomeD split: option.splits)
  moreover have "n = trunc_rat (a + c + b) \<and> \<bar>n\<bar> \<le> max_safe"
    using assms ab by (auto simp: normalize_tokens_def Let_def c_def abs_of_int_le_iff split: if_splits)
  ultimately show "0 \<le> n" "n \<le> max_safe" by (auto intro: trunc_rat_nonneg)
qed

lemma charge_loop_append:
  "charge_loop ids i (xs @ ys) t u s =
     (let (t', u', s') = charge_loop ids i xs t u s in charge_loop ids (i + length xs) ys t' u' s')"
  by (induction ids i xs t u s rule: charge_loop.induct) (auto simp: Let_def split: option.splits)

lemma charge_loop_seen_mono:
  "charge_loop ids i us t u s = (t', u', s') \<Longrightarrow> set s \<subseteq> set s' \<and> t \<le> t'"
proof (induction ids i us t u s rule: charge_loop.induct)
  case (2 ids i x us t u s)
  show ?case
  proof (cases "entry_id ids i \<in> set s \<or> normalize_tokens x = None")
    case True
    with 2 show ?thesis by (auto simp: Let_def split: if_splits)
  next
    case False
    then obtain n where n: "normalize_tokens x = Some n" by auto
    with False 2 have "set (set_add (entry_id ids i) s) \<subseteq> set s' \<and> t + n \<le> t'" by (auto simp: Let_def)
    with normalize_tokens_bounds [OF n] show ?thesis by auto
  qed
qed simp

text \<open>Entries whose id is charged already, or that cannot be charged, change nothing.\<close>

definition settled :: "jstring list \<Rightarrow> nat \<Rightarrow> usage_like list \<Rightarrow> jstring list \<Rightarrow> bool" where
  "settled ids i us s \<longleftrightarrow>
     (\<forall>k < length us. entry_id ids (i + k) \<in> set s \<or> normalize_tokens (us ! k) = None)"

lemma settled_Cons:
  "settled ids i (x # us) s \<longleftrightarrow>
     (entry_id ids i \<in> set s \<or> normalize_tokens x = None) \<and> settled ids (Suc i) us s"
  by (simp add: settled_def All_less_Suc2)

lemma settled_mono: "settled ids i us s \<Longrightarrow> set s \<subseteq> set s' \<Longrightarrow> settled ids i us s'"
  by (auto simp: settled_def)

lemma charge_loop_settles:
  "charge_loop ids i us t u s = (t', u', s') \<Longrightarrow> settled ids i us s'"
proof (induction ids i us t u s rule: charge_loop.induct)
  case (1 ids i t u s)
  then show ?case by (simp add: settled_def)
next
  case (2 ids i x us t u s)
  show ?case
  proof (cases "entry_id ids i \<in> set s \<or> normalize_tokens x = None")
    case True
    then obtain u0 where run: "charge_loop ids (Suc i) us t u0 s = (t', u', s')"
      and "settled ids (Suc i) us s'"
      using 2 by (auto simp: Let_def split: if_splits)
    moreover have "set s \<subseteq> set s'" using charge_loop_seen_mono [OF run] by simp
    ultimately show ?thesis using True by (auto simp: settled_Cons)
  next
    case False
    then obtain n where n: "normalize_tokens x = Some n" by auto
    with False 2 have run: "charge_loop ids (Suc i) us (t + n) u (set_add (entry_id ids i) s) = (t', u', s')"
      and "settled ids (Suc i) us s'" by (auto simp: Let_def)
    moreover have "entry_id ids i \<in> set s'" using charge_loop_seen_mono [OF run] by auto
    ultimately show ?thesis by (simp add: settled_Cons)
  qed
qed

lemma charge_loop_settled:
  "settled ids i us s \<Longrightarrow> \<exists>u'. charge_loop ids i us t u s = (t, u', s)"
  by (induction ids i us t u s rule: charge_loop.induct)
     (auto simp: settled_Cons Let_def split: option.splits)

text \<open>
  What one pass adds: the sum over the first report of each id not charged before.
\<close>

fun fresh_charge :: "jstring list \<Rightarrow> nat \<Rightarrow> usage_like list \<Rightarrow> jstring set \<Rightarrow> int" where
  "fresh_charge ids i [] done = 0"
| "fresh_charge ids i (u # us) done =
     (case normalize_tokens u of
        Some n \<Rightarrow> if entry_id ids i \<in> done then fresh_charge ids (Suc i) us done
                  else n + fresh_charge ids (Suc i) us (insert (entry_id ids i) done)
      | None \<Rightarrow> fresh_charge ids (Suc i) us done)"

lemma charge_loop_amount:
  "fst (charge_loop ids i us t u s) = t + fresh_charge ids i us (set s)"
  by (induction ids i us t u s rule: charge_loop.induct)
     (auto simp: Let_def set_set_add split: option.splits)

section \<open>Properties\<close>

text \<open>
  Charging is once-only: a pass adds exactly the first chargeable report of each entry id not
  charged before, and running the same observations again over the set the first pass left
  charges nothing and marks nothing.
\<close>

theorem charge_tokens_once:
  "case charge_tokens current obs seen ids of (tokens, _, seen') \<Rightarrow>
     tokens = current + fresh_charge ids 0 obs (set seen) \<and> current \<le> tokens \<and> set seen \<subseteq> set seen' \<and>
     (case charge_tokens tokens obs seen' ids of (tokens2, _, seen2) \<Rightarrow> tokens2 = tokens \<and> seen2 = seen')"
proof -
  obtain t u s where run: "charge_loop ids 0 obs current False seen = (t, u, s)"
    by (metis prod_cases3)
  from charge_loop_settled [OF charge_loop_settles [OF run]]
  obtain u' where "charge_loop ids 0 obs t False s = (t, u', s)" by blast
  with run charge_loop_seen_mono [OF run] charge_loop_amount [of ids 0 obs current False seen] show ?thesis
    by (simp add: charge_tokens_def)
qed

text \<open>
  Splitting an active span at a checkpoint and carrying the remainder loses no time: the two
  parts have exactly the whole seconds and the remainder of the undivided span.
\<close>

theorem elapsed_seconds_split:
  assumes "a \<le> b" and "b \<le> c" and "0 \<le> carry"
  shows "case elapsed_seconds a b carry of (s1, r1) \<Rightarrow>
           (case elapsed_seconds b c r1 of (s2, r2) \<Rightarrow>
              elapsed_seconds a c carry = (s1 + s2, r2) \<and> 0 \<le> r1 \<and> r1 < 1000)"
proof -
  define d1 where "d1 = b - a + carry"
  define s1 where "s1 = \<lfloor>d1 / 1000\<rfloor>"
  define r1 where "r1 = d1 - of_int s1 * 1000"
  have d1: "0 \<le> d1" using assms by (simp add: d1_def)
  have r1: "0 \<le> r1" "r1 < 1000"
    unfolding r1_def s1_def by (linarith, linarith)
  have e1: "elapsed_seconds a b carry = (s1, r1)"
    using d1 by (simp add: elapsed_seconds_def Let_def s1_def r1_def d1_def)
  have "(c - a + carry) / 1000 = (c - b + r1) / 1000 + of_int s1"
    by (simp add: r1_def d1_def diff_divide_distrib add_divide_distrib)
  then have "\<lfloor>(c - a + carry) / 1000\<rfloor> = \<lfloor>(c - b + r1) / 1000\<rfloor> + s1"
    by (simp only: floor_add_int [symmetric])
  with assms r1 have "elapsed_seconds a c carry = (s1 + fst (elapsed_seconds b c r1), snd (elapsed_seconds b c r1))"
    by (simp add: elapsed_seconds_def Let_def max_def) (simp add: r1_def d1_def algebra_simps)
  with e1 r1 show ?thesis by (simp add: case_prod_unfold)
qed

theorem elapsed_seconds_split_witness:
  "elapsed_seconds 0 1500 0 = (1, 500) \<and> elapsed_seconds 1500 2600 500 = (1, 600) \<and>
   elapsed_seconds 0 2600 0 = (2, 600)"
proof -
  have "elapsed_seconds 0 1500 0 = (1, 500)" "elapsed_seconds 1500 2600 500 = (1, 600)"
    by (simp_all add: elapsed_seconds_def Let_def floor_eq_iff)
  with elapsed_seconds_split [of 0 1500 2600 0] show ?thesis by simp
qed

end
