(* ===== verification/GoalController.thy ===== *)
theory GoalController
  imports GoalStore Accounting
begin

text \<open>
  \<open>GoalController\<close> of \<open>ponygirls-codex-goals/src/runtime.ts\<close>: admission of autonomous work,
  dispatch identity, accounting and the classification of settled runs.

  The controller is generic in its store, as the class is: its operations take the record \<open>ops\<close> of
  store operations, and the facts about them are proved in the locale \<open>goal_client\<close>, which is
  \<open>goal_store\<close> seen from the client, for any store that keeps the contract. The clock, the id generator and the sender are the ports the class is
  constructed with: \<open>env\<close> gives the n-th reading of each clock, the n-th generated id, and whether
  the n-th message is accepted (\<open>False\<close>: the port throws). What the ports were given is the
  \<open>outbox\<close>. A rendered instruction is the constructor that names its template with the template's
  arguments. A thrown exception is \<open>Inl\<close>; the state it leaves is returned with it.
\<close>

section \<open>Ports and state\<close>

record ctl_env =
  ce_iso :: "nat \<Rightarrow> jstring"
  ce_ms :: "nat \<Rightarrow> rat"
  ce_id :: "nat \<Rightarrow> jstring"
  ce_send :: "nat \<Rightarrow> bool"

record entry_message =
  em_role :: jstring
  em_usage :: "usage_like option"

record session_entry =
  en_id :: jstring
  en_type :: jstring
  en_message :: "entry_message option"

record session_view =
  v_session :: jstring
  v_entries :: "session_entry list"
  v_idle :: bool
  v_pending :: bool

record admission_check =
  ac_session :: jstring
  ac_goal :: "goal_record option"
  ac_revision :: int
  ac_dispatch :: "dispatch_record option"
  ac_idle :: bool
  ac_queued :: bool
  ac_disabled :: bool
  ac_recovery :: bool

datatype classify_outcome =
  Empty_no_activity | Activity | Error_recovered | Error_exhausted string_or_text | Quota jstring | Aborted
and string_or_text = Fixed string | Text jstring

record last_assistant =
  la_stop :: "jstring option"
  la_error :: "jstring option"

record run_observation =
  ro_texts :: "jstring list"
  ro_tool_activity :: bool
  ro_last :: "last_assistant option"
  ro_exhausted :: "jstring option"
  ro_quota :: "jstring option"
  ro_aborted :: bool

definition empty_observation :: run_observation where
  "empty_observation = \<lparr>ro_texts = [], ro_tool_activity = False, ro_last = None, ro_exhausted = None,
     ro_quota = None, ro_aborted = False\<rparr>"

datatype content =
  Continuation goal_record int nat
| Budget_wrapup goal_record int
| Resync goal_record int

record details =
  dt_session :: jstring
  dt_goal :: jstring
  dt_revision :: int
  dt_dispatch :: "jstring option"

datatype outgoing =
  Instruction content details
| Stale_notice jstring jstring int jstring jstring
| Commit_meta jstring jstring int

record run_span =
  rs_dispatch :: "jstring option"
  rs_goal :: jstring
  rs_start :: rat

record 's ctl =
  c_generation :: nat
  c_disabled :: bool
  c_recovery :: bool
  c_committed :: bool
  c_streak :: nat
  c_executions :: nat
  c_running :: "run_span option"
  c_provisional :: run_observation
  c_last_content :: "(jstring \<times> content) option"
  c_store :: 's
  c_isos :: nat
  c_mss :: nat
  c_ids :: nat
  c_sends :: nat
  c_outbox :: "outgoing list"

definition new_controller :: "'s \<Rightarrow> 's ctl" where
  "new_controller st = \<lparr>c_generation = 0, c_disabled = False, c_recovery = False, c_committed = False,
     c_streak = 0, c_executions = 0, c_running = None, c_provisional = empty_observation,
     c_last_content = None, c_store = st, c_isos = 0, c_mss = 0, c_ids = 0, c_sends = 0, c_outbox = []\<rparr>"

datatype ctl_error =
  Sidecar_disappeared | Store_said store_error_code | Dispatch_session_mismatch
| Refused string | Transcript_failed | Accounting_failed store_error_code | Type_error
| Transition_said goal_error

definition now_iso :: "ctl_env \<Rightarrow> 's ctl \<Rightarrow> jstring \<times> 's ctl" where
  "now_iso env c = (ce_iso env (c_isos c), c\<lparr>c_isos := Suc (c_isos c)\<rparr>)"

definition now_ms :: "ctl_env \<Rightarrow> 's ctl \<Rightarrow> rat \<times> 's ctl" where
  "now_ms env c = (ce_ms env (c_mss c), c\<lparr>c_mss := Suc (c_mss c)\<rparr>)"

definition make_dispatch_id :: "ctl_env \<Rightarrow> 's ctl \<Rightarrow> jstring \<times> 's ctl" where
  "make_dispatch_id env c = (ce_id env (c_ids c), c\<lparr>c_ids := Suc (c_ids c)\<rparr>)"

text \<open>One call of a sender port: \<open>False\<close> when it throws, and then nothing is in the outbox.\<close>

definition send :: "ctl_env \<Rightarrow> outgoing \<Rightarrow> 's ctl \<Rightarrow> bool \<times> 's ctl" where
  "send env m c =
     (let c1 = c\<lparr>c_sends := Suc (c_sends c)\<rparr> in
      if ce_send env (c_sends c) then (True, c1\<lparr>c_outbox := c_outbox c1 @ [m]\<rparr>) else (False, c1))"

definition ctl_load :: "'s store_ops \<Rightarrow> 's ctl \<Rightarrow> envelope store_result \<times> 's ctl" where
  "ctl_load ops c = (case op_load ops (c_store c) of (r, st) \<Rightarrow> (r, c\<lparr>c_store := st\<rparr>))"

definition ctl_commit ::
  "'s store_ops \<Rightarrow> int \<Rightarrow> (envelope \<Rightarrow> envelope) \<Rightarrow> 's ctl \<Rightarrow> envelope store_result \<times> 's ctl" where
  "ctl_commit ops n f c = (case op_commit ops (c_store c) n f of (r, st) \<Rightarrow> (r, c\<lparr>c_store := st\<rparr>))"

section \<open>Operations\<close>

definition invalidate :: "'s ctl \<Rightarrow> 's ctl" where
  "invalidate c = c\<lparr>c_generation := c_generation c + 1, c_streak := 0\<rparr>"

definition load_state :: "'s store_ops \<Rightarrow> 's ctl \<Rightarrow> (envelope option \<times> ctl_error option) \<times> 's ctl" where
  "load_state ops c0 =
     (case ctl_load ops c0 of
        (Inl (code, _), c) \<Rightarrow>
          (let c = c\<lparr>c_disabled := True\<rparr> in
           if c_committed c then ((None, Some Sidecar_disappeared), c)
           else ((None, Some (Store_said code)), c))
      | (Inr e, c) \<Rightarrow>
          if revision e = 0 \<and> c_committed c then
            ((None, Some Sidecar_disappeared), c\<lparr>c_disabled := True\<rparr>)
          else
            let c = (if revision e > 0 then c\<lparr>c_committed := True\<rparr> else c) in
            case dispatch e of
              None \<Rightarrow> ((Some e, None), c)
            | Some d \<Rightarrow>
                if d_session d \<noteq> op_session ops (c_store c) then
                  ((Some e, Some Dispatch_session_mismatch), c\<lparr>c_disabled := True\<rparr>)
                else ((Some e, None), c\<lparr>c_recovery := True\<rparr>))"

definition check_admission :: "session_view \<Rightarrow> envelope option \<Rightarrow> 's ctl \<Rightarrow> admission_check" where
  "check_admission view e c =
     \<lparr>ac_session = v_session view, ac_goal = Option.bind e goal,
      ac_revision = (case e of None \<Rightarrow> 0 | Some e' \<Rightarrow> revision e'),
      ac_dispatch = Option.bind e dispatch, ac_idle = v_idle view, ac_queued = v_pending view,
      ac_disabled = c_disabled c, ac_recovery = c_recovery c\<rparr>"

definition can_admit :: "admission_check \<Rightarrow> bool \<times> string" where
  "can_admit k =
     (if ac_disabled k then (False, ''admission disabled pending recovery'')
      else if ac_recovery k then (False, ''unresolved dispatch requires /goal resume'')
      else if \<not> is_active_record (ac_goal k) then (False, ''no active goal'')
      else if ac_dispatch k \<noteq> None then (False, ''dispatch already outstanding'')
      else if \<not> ac_idle k then (False, ''agent not idle'')
      else if ac_queued k then (False, ''user input queued'')
      else if (case ac_goal k of Some g \<Rightarrow> \<not> budget_permits g | None \<Rightarrow> False) then (False, ''budget exhausted'')
      else (True, ''admissible''))"

definition admit_dispatch ::
  "'s store_ops \<Rightarrow> ctl_env \<Rightarrow> envelope \<Rightarrow> session_view \<Rightarrow> 's ctl \<Rightarrow> (ctl_error + envelope) \<times> 's ctl" where
  "admit_dispatch ops env e view c0 =
     (case goal e of
        None \<Rightarrow> (Inl (Refused ''no active goal''), c0)
      | Some g \<Rightarrow>
        if \<not> is_active_record (goal e) then (Inl (Refused ''no active goal''), c0)
        else if dispatch e \<noteq> None then (Inl (Refused ''dispatch already outstanding''), c0)
        else
          let (did, c) = make_dispatch_id env c0; (now, c) = now_iso env c;
              d = \<lparr>dispatch_id = did, d_session = v_session view, d_goal = gid g,
                   d_revision = revision e, d_phase = Admitted, admitted_at = now\<rparr>
          in case ctl_commit ops (revision e) (\<lambda>cur. cur\<lparr>dispatch := Some d\<rparr>) c of
               (Inl (code, _), c) \<Rightarrow>
                 (Inl (Store_said code),
                  if code = Storage_failure \<or> code = Indeterminate then c\<lparr>c_disabled := True\<rparr> else c)
             | (Inr e', c) \<Rightarrow> (Inr e', c\<lparr>c_committed := True\<rparr>))"

definition deliver_continuation ::
  "'s store_ops \<Rightarrow> ctl_env \<Rightarrow> envelope \<Rightarrow> session_view \<Rightarrow> nat \<Rightarrow> 's ctl \<Rightarrow> (ctl_error + jstring) \<times> 's ctl" where
  "deliver_continuation ops env e view gen_at_check c0 =
     (case ctl_load ops c0 of
        (Inl _, c) \<Rightarrow> (Inl (Refused ''stale authoritative state before delivery''), c)
      | (Inr auth, c) \<Rightarrow>
        if revision auth \<noteq> revision e \<or> (case goal auth of Some g \<Rightarrow> gstatus g \<noteq> Active | None \<Rightarrow> True) then
          (Inl (Refused ''stale authoritative state before delivery''), c)
        else if gen_at_check \<noteq> c_generation c then (Inl (Refused ''invalidated before delivery''), c)
        else if v_pending view then (Inl (Refused ''user input queued before delivery''), c)
        else case (goal e, dispatch e) of
          (Some g, Some d) \<Rightarrow>
            if d_session d \<noteq> v_session view \<or> d_goal d \<noteq> gid g then
              (Inl (Refused ''stale dispatch identity''), c)
            else
              let c = c\<lparr>c_executions := c_executions c + 1\<rparr>;
                  txt = Continuation g (revision e) (c_executions c)
              in case send env (Instruction txt
                     \<lparr>dt_session = v_session view, dt_goal = gid g, dt_revision = revision e,
                      dt_dispatch = Some (dispatch_id d)\<rparr>) c of
                   (False, c) \<Rightarrow> (Inl Transcript_failed, c\<lparr>c_disabled := True\<rparr>)
                 | (True, c) \<Rightarrow> (Inr (dispatch_id d), c\<lparr>c_last_content := Some (dispatch_id d, txt)\<rparr>)
        | _ \<Rightarrow> (Inl (Refused ''no admitted dispatch''), c))"

definition confirm_delivery ::
  "'s store_ops \<Rightarrow> ctl_env \<Rightarrow> jstring \<Rightarrow> envelope \<Rightarrow> 's ctl \<Rightarrow> (ctl_error + unit) \<times> 's ctl" where
  "confirm_delivery ops env did e c0 =
     (if map_option dispatch_id (dispatch e) \<noteq> Some did then (Inr (), c0)
      else case ctl_commit ops (revision e)
             (\<lambda>cur. cur\<lparr>dispatch := map_option (\<lambda>d. d\<lparr>d_phase := Running\<rparr>) (dispatch cur)\<rparr>) c0 of
        (Inl _, c) \<Rightarrow> (Inr (), c)
      | (Inr e', c) \<Rightarrow>
         (case goal e' of
            None \<Rightarrow> (Inl Type_error, c)
          | Some g \<Rightarrow>
              let (ms, c) = now_ms env c in
              (Inr (), c\<lparr>c_running := Some \<lparr>rs_dispatch = Some did, rs_goal = gid g, rs_start = ms\<rparr>\<rparr>)))"

definition cancel_stale_dispatch ::
  "'s store_ops \<Rightarrow> ctl_env \<Rightarrow> envelope \<Rightarrow> session_view \<Rightarrow> jstring \<Rightarrow> 's ctl \<Rightarrow> (ctl_error + unit) \<times> 's ctl" where
  "cancel_stale_dispatch ops env e view reason c0 =
     (case dispatch e of
        None \<Rightarrow> (Inr (), c0)
      | Some d \<Rightarrow>
         (case send env (Stale_notice (v_session view) (d_goal d) (d_revision d) (dispatch_id d) reason) c0 of
            (False, c) \<Rightarrow> (Inl Transcript_failed, c)
          | (True, c) \<Rightarrow>
             (case ctl_commit ops (revision e) (\<lambda>cur. cur\<lparr>dispatch := None\<rparr>) c of
                (Inr _, c) \<Rightarrow> (Inr (), invalidate c)
              | (Inl _, c) \<Rightarrow> (Inr (), c\<lparr>c_disabled := True\<rparr>))))"

definition begin_run :: "ctl_env \<Rightarrow> jstring \<Rightarrow> 's ctl \<Rightarrow> 's ctl" where
  "begin_run env g c0 =
     (let (ms, c) = now_ms env c0 in
      c\<lparr>c_running := Some \<lparr>rs_dispatch = None, rs_goal = g, rs_start = ms\<rparr>\<rparr>)"

section \<open>Accounting\<close>

definition slice_from :: "int \<Rightarrow> 'a list \<Rightarrow> 'a list" where
  "slice_from b xs = (if b < 0 then drop (length xs - nat (- b)) xs else drop (nat b) xs)"

text \<open>The loop over the entries since the baseline: tokens, unknown usage seen, charged ids.\<close>

fun account_entries ::
  "session_entry list \<Rightarrow> int \<Rightarrow> bool \<Rightarrow> jstring list \<Rightarrow> int \<times> bool \<times> jstring list" where
  "account_entries [] tokens unknown charged = (tokens, unknown, charged)"
| "account_entries (en # es) tokens unknown charged =
     (if en_type en \<noteq> js ''message'' then account_entries es tokens unknown charged
      else case en_message en of
        None \<Rightarrow> account_entries es tokens unknown charged
      | Some m \<Rightarrow>
        if en_id en \<in> set charged then account_entries es tokens unknown charged
        else if em_role m \<noteq> js ''assistant'' \<and> em_role m \<noteq> js ''toolResult'' then
          account_entries es tokens unknown charged
        else case em_usage m of
          None \<Rightarrow> account_entries es tokens (unknown \<or> em_role m = js ''assistant'') charged
        | Some u \<Rightarrow>
          (case normalize_tokens u of
             None \<Rightarrow> account_entries es tokens True charged
           | Some n \<Rightarrow> account_entries es (tokens + n) unknown (set_add (en_id en) charged)))"

record account_result =
  ar_envelope :: envelope
  ar_budget_hit :: bool
  ar_unknown :: bool

definition account_span ::
  "ctl_env \<Rightarrow> goal_record \<Rightarrow> envelope \<Rightarrow> 's ctl \<Rightarrow> (rat \<times> rat) \<times> 's ctl" where
  "account_span env g e c0 =
     (case c_running c0 of
        Some r \<Rightarrow>
          if rs_goal r = gid g then
            (let (ms, c) = now_ms env c0; (secs, rem) = elapsed_seconds (rs_start r) ms (e_remainder e)
             in ((time_used g + of_int secs, rem), c))
          else ((time_used g, e_remainder e), c0)
      | None \<Rightarrow> ((time_used g, e_remainder e), c0))"

text \<open>The goal after accounting: limited when an active goal's tokens reach its cap.\<close>

definition budget_hit :: "goal_record \<Rightarrow> bool" where
  "budget_hit g \<longleftrightarrow> (case token_budget g of None \<Rightarrow> False | Some b \<Rightarrow> b \<le> tokens_used g) \<and> gstatus g = Active"

definition settled_goal :: "ctl_env \<Rightarrow> goal_record \<Rightarrow> 's ctl \<Rightarrow> goal_record \<times> 's ctl" where
  "settled_goal env g c0 =
     (if budget_hit g then
        (let (now, c) = now_iso env c0 in (g\<lparr>gstatus := Budget_limited, updated_at := now\<rparr>, c))
      else (g, c0))"

definition account_mutation ::
  "goal_record \<Rightarrow> jstring list \<Rightarrow> int \<Rightarrow> rat \<Rightarrow> bool \<Rightarrow> envelope \<Rightarrow> envelope" where
  "account_mutation g charged baseline rem finished cur =
     cur\<lparr>goal := (case goal cur of None \<Rightarrow> None | Some _ \<Rightarrow> Some g), charged_ids := charged,
         baseline_count := Some baseline, e_remainder := rem,
         dispatch := (if finished \<and> (case dispatch cur of Some d \<Rightarrow> d_phase d = Running | None \<Rightarrow> False)
                      then None else dispatch cur)\<rparr>"

definition account ::
  "'s store_ops \<Rightarrow> ctl_env \<Rightarrow> envelope \<Rightarrow> session_view \<Rightarrow> bool \<Rightarrow> 's ctl \<Rightarrow> (ctl_error + account_result) \<times> 's ctl" where
  "account ops env e view finished c0 =
     (case goal e of
        None \<Rightarrow> (Inr \<lparr>ar_envelope = e, ar_budget_hit = False, ar_unknown = False\<rparr>, c0)
      | Some g \<Rightarrow>
        let baseline = (case baseline_count e of None \<Rightarrow> 0 | Some b \<Rightarrow> b);
            (tokens, unknown, charged) =
              account_entries (slice_from baseline (v_entries view)) (tokens_used g) False (charged_ids e);
            ((time, rem), c) = account_span env g e c0;
            (now, c) = now_iso env c;
            nxt = g\<lparr>tokens_used := tokens, time_used := time, updated_at := now\<rparr>;
            (final, c) = settled_goal env nxt c
        in case ctl_commit ops (revision e) (account_mutation final charged baseline rem finished) c of
             (Inl (code, _), c) \<Rightarrow>
               (Inl (Accounting_failed code), c\<lparr>c_disabled := True, c_recovery := True\<rparr>)
           | (Inr e', c) \<Rightarrow>
               (let c = c\<lparr>c_committed := True\<rparr>;
                    c = (if finished then c\<lparr>c_running := None\<rparr>
                         else case c_running c of
                           None \<Rightarrow> c
                         | Some r \<Rightarrow> (let (ms, c) = now_ms env c in c\<lparr>c_running := Some (r\<lparr>rs_start := ms\<rparr>)\<rparr>))
                in case send env (Commit_meta (v_session view) (gid final) (revision e')) c of
                     (False, c) \<Rightarrow> (Inl Transcript_failed, c\<lparr>c_disabled := True, c_recovery := True\<rparr>)
                   | (True, c) \<Rightarrow>
                       (Inr \<lparr>ar_envelope = e', ar_budget_hit = budget_hit nxt, ar_unknown = unknown\<rparr>, c)))"

definition settle_accounting ::
  "'s store_ops \<Rightarrow> ctl_env \<Rightarrow> envelope \<Rightarrow> session_view \<Rightarrow> 's ctl \<Rightarrow> (ctl_error + account_result) \<times> 's ctl" where
  "settle_accounting ops env e view c = account ops env e view True c"

definition checkpoint_accounting ::
  "'s store_ops \<Rightarrow> ctl_env \<Rightarrow> envelope \<Rightarrow> session_view \<Rightarrow> 's ctl \<Rightarrow> (ctl_error + account_result) \<times> 's ctl" where
  "checkpoint_accounting ops env e view c = account ops env e view False c"

section \<open>Observation and classification of a run\<close>

definition observe_assistant_text :: "jstring \<Rightarrow> 's ctl \<Rightarrow> 's ctl" where
  "observe_assistant_text t c =
     c\<lparr>c_provisional := (c_provisional c)\<lparr>ro_texts := ro_texts (c_provisional c) @ [t]\<rparr>\<rparr>"

definition observe_tool_activity :: "bool \<Rightarrow> 's ctl \<Rightarrow> 's ctl" where
  "observe_tool_activity nested c =
     (if \<not> nested then c\<lparr>c_provisional := (c_provisional c)\<lparr>ro_tool_activity := True\<rparr>\<rparr> else c)"

record end_message =
  ms_role :: jstring
  ms_stop :: "jstring option"
  ms_error :: "jstring option"
  ms_text :: js_value
  ms_content :: js_value

text \<open>
  The text a finalized message contributes: its nonempty \<open>text\<close>, else its nonempty string
  \<open>content\<close>, else the nonempty concatenation of the text parts of an array \<open>content\<close>.
\<close>

definition part_text :: "js_value \<Rightarrow> jstring" where
  "part_text p = (if field p (js ''type'') = JStr (js ''text'')
                  then (case field p (js ''text'') of JStr t \<Rightarrow> t | _ \<Rightarrow> []) else [])"

definition message_text :: "end_message \<Rightarrow> jstring option" where
  "message_text m =
     (case ms_text m of
        JStr (x # xs) \<Rightarrow> Some (x # xs)
      | _ \<Rightarrow>
        (case ms_content m of
           JStr (x # xs) \<Rightarrow> Some (x # xs)
         | JArr parts \<Rightarrow> (let t = concat (map part_text parts) in if length t > 0 then Some t else None)
         | _ \<Rightarrow> None))"

definition observe_end_message :: "end_message \<Rightarrow> run_observation \<Rightarrow> run_observation" where
  "observe_end_message m o1 =
     (if ms_role m = js ''assistant'' then
        o1\<lparr>ro_texts := ro_texts o1 @ (case message_text m of Some t \<Rightarrow> [t] | None \<Rightarrow> []),
           ro_last := Some \<lparr>la_stop = ms_stop m, la_error = ms_error m\<rparr>\<rparr>
      else o1)"

definition observe_agent_end :: "end_message list \<Rightarrow> 's ctl \<Rightarrow> 's ctl" where
  "observe_agent_end ms c = c\<lparr>c_provisional := fold observe_end_message ms (c_provisional c)\<rparr>"

fun truthy :: "jstring option \<Rightarrow> bool" where
  "truthy None = False"
| "truthy (Some s) = (s \<noteq> [])"

definition classify_previous_execution :: "run_observation \<Rightarrow> classify_outcome" where
  "classify_previous_execution ob =
     (let texts = trim (concat (ro_texts ob)) in
      if ro_aborted ob then Aborted
      else if Option.bind (ro_last ob) la_stop = Some (js ''aborted'') then
        Error_exhausted (Fixed ''Provider aborted without a host abort signal.'')
      else if truthy (ro_quota ob) then Quota (the (ro_quota ob))
      else if truthy (ro_exhausted ob) then Error_exhausted (Text (the (ro_exhausted ob)))
      else if Option.bind (ro_last ob) la_stop = Some (js ''error'') then
        Error_exhausted (case Option.bind (ro_last ob) la_error of
                           Some t \<Rightarrow> Text t | None \<Rightarrow> Fixed ''provider error'')
      else if ro_tool_activity ob then Activity
      else if length texts > 0 then Activity
      else Empty_no_activity)"

definition note_settled_outcome :: "classify_outcome \<Rightarrow> 's ctl \<Rightarrow> bool \<times> 's ctl" where
  "note_settled_outcome out c0 =
     (let c = c0\<lparr>c_streak := (if out = Empty_no_activity then c_streak c0 + 1 else 0),
                 c_provisional := empty_observation\<rparr>
      in (3 \<le> c_streak c, c))"

definition reset_streak_on_user_work :: "'s ctl \<Rightarrow> 's ctl" where
  "reset_streak_on_user_work c = c\<lparr>c_streak := 0\<rparr>"

definition mark_recovery_complete :: "'s ctl \<Rightarrow> 's ctl" where
  "mark_recovery_complete c = c\<lparr>c_recovery := False, c_disabled := False\<rparr>"

definition disable_admission :: "'s ctl \<Rightarrow> 's ctl" where
  "disable_admission c = c\<lparr>c_disabled := True\<rparr>"

section \<open>Terminal transitions and instructions\<close>

datatype terminal_kind = K_complete | K_blocked | K_budget | K_usage | K_complete_from_budget

definition terminal_goal :: "terminal_kind \<Rightarrow> goal_record \<Rightarrow> jstring \<Rightarrow> goal_result" where
  "terminal_goal kind g now =
     (case kind of
        K_blocked \<Rightarrow> block_record (Some g) now
      | K_budget \<Rightarrow> budget_limit_record (Some g) now
      | K_usage \<Rightarrow> usage_limit_record (Some g) now
      | K_complete_from_budget \<Rightarrow> complete_from_budget_limited (Some g) now
      | K_complete \<Rightarrow> Inr (g\<lparr>gstatus := Complete, updated_at := now\<rparr>))"

text \<open>A refused transition reads no clock; otherwise exactly one reading is used.\<close>

definition apply_terminal_transition ::
  "'s store_ops \<Rightarrow> ctl_env \<Rightarrow> envelope \<Rightarrow> terminal_kind \<Rightarrow> 's ctl \<Rightarrow> (ctl_error + envelope) \<times> 's ctl" where
  "apply_terminal_transition ops env e kind c0 =
     (case goal e of
        None \<Rightarrow> (Inl (Refused ''No goal.''), c0)
      | Some g \<Rightarrow>
        (case terminal_goal kind g (ce_iso env (c_isos c0)) of
           Inl er \<Rightarrow> (Inl (Transition_said er), c0)
         | Inr nxt \<Rightarrow>
           (case ctl_commit ops (revision e) (\<lambda>cur. cur\<lparr>goal := Some nxt, dispatch := None\<rparr>)
                   (c0\<lparr>c_isos := Suc (c_isos c0)\<rparr>) of
              (Inl (code, _), c) \<Rightarrow> (Inl (Store_said code), c\<lparr>c_disabled := True\<rparr>)
            | (Inr e', c) \<Rightarrow> (Inr e', invalidate (c\<lparr>c_committed := True\<rparr>)))))"

definition emit_budget_wrapup :: "ctl_env \<Rightarrow> envelope \<Rightarrow> 's ctl \<Rightarrow> 's ctl" where
  "emit_budget_wrapup env e c0 =
     (case goal e of
        None \<Rightarrow> c0
      | Some g \<Rightarrow>
        (case send env (Instruction (Budget_wrapup g (revision e))
             \<lparr>dt_session = e_session e, dt_goal = gid g, dt_revision = revision e, dt_dispatch = None\<rparr>) c0 of
           (True, c) \<Rightarrow> c
         | (False, c) \<Rightarrow> c\<lparr>c_disabled := True\<rparr>))"

definition emit_resync :: "ctl_env \<Rightarrow> envelope \<Rightarrow> session_view \<Rightarrow> 's ctl \<Rightarrow> 's ctl" where
  "emit_resync env e view c0 =
     (case goal e of
        None \<Rightarrow> c0
      | Some g \<Rightarrow>
        if \<not> is_active_record (goal e) then c0
        else
        (case send env (Instruction (Resync g (revision e))
             \<lparr>dt_session = v_session view, dt_goal = gid g, dt_revision = revision e, dt_dispatch = None\<rparr>) c0 of
           (True, c) \<Rightarrow> c
         | (False, c) \<Rightarrow> c\<lparr>c_disabled := True\<rparr>))"

section \<open>Facts for any store that keeps the contract\<close>

lemma port_frames [simp]:
  "c_store (snd (now_iso env c)) = c_store c" "c_store (snd (now_ms env c)) = c_store c"
  "c_store (snd (make_dispatch_id env c)) = c_store c"
  "c_outbox (snd (now_iso env c)) = c_outbox c" "c_outbox (snd (now_ms env c)) = c_outbox c"
  "c_outbox (snd (make_dispatch_id env c)) = c_outbox c"
  by (simp_all add: now_iso_def now_ms_def make_dispatch_id_def)

lemma send_cases:
  "send env m c = (b, c') \<Longrightarrow> c_store c' = c_store c \<and> c_generation c' = c_generation c \<and>
     c_outbox c' = (if b then c_outbox c @ [m] else c_outbox c) \<and> c_committed c' = c_committed c"
  by (auto simp: send_def Let_def split: if_splits)

lemma account_span_frame:
  "account_span env g e c = (tr, c') \<Longrightarrow> c_store c' = c_store c \<and> c_outbox c' = c_outbox c \<and> c_running c' = c_running c"
  by (auto simp: account_span_def now_ms_def Let_def split: option.splits if_splits prod.splits)

lemma settled_goal_frame:
  "settled_goal env g c = (g', c') \<Longrightarrow> c_store c' = c_store c \<and> c_outbox c' = c_outbox c \<and> c_running c' = c_running c \<and>
     gid g' = gid g \<and> tokens_used g' = tokens_used g \<and> token_budget g' = token_budget g \<and> objective g' = objective g \<and>
     time_used g' = time_used g \<and>
     gstatus g' = (if budget_hit g then Budget_limited else gstatus g)"
  by (auto simp: settled_goal_def now_iso_def Let_def split: if_splits)

text \<open>The tokens a finalized entry can be charged, whatever was charged before.\<close>

definition chargeable :: "session_entry \<Rightarrow> int option" where
  "chargeable en =
     Option.bind (if en_type en = js ''message'' then en_message en else None)
       (\<lambda>m. if em_role m = js ''assistant'' \<or> em_role m = js ''toolResult''
             then Option.bind (em_usage m) normalize_tokens else None)"

lemma chargeable_bounds: "chargeable en = Some n \<Longrightarrow> 0 \<le> n \<and> n \<le> max_safe"
  by (auto simp: chargeable_def bind_eq_Some_conv split: if_splits dest: normalize_tokens_bounds)

definition entry_settled :: "jstring list \<Rightarrow> session_entry \<Rightarrow> bool" where
  "entry_settled charged en \<longleftrightarrow> en_id en \<in> set charged \<or> chargeable en = None"

text \<open>What a pass over the entries must add: the first chargeable report of every fresh entry id.\<close>

fun entries_charge :: "session_entry list \<Rightarrow> jstring set \<Rightarrow> int" where
  "entries_charge [] done = 0"
| "entries_charge (en # es) done =
     (case chargeable en of
        Some n \<Rightarrow> if en_id en \<in> done then entries_charge es done
                  else n + entries_charge es (insert (en_id en) done)
      | None \<Rightarrow> entries_charge es done)"

lemma account_step_charge:
  assumes "en_id en \<notin> set charged" and "chargeable en = Some n"
  shows "account_entries (en # es) t u charged = account_entries es (t + n) u (set_add (en_id en) charged)"
  using assms by (auto simp: chargeable_def bind_eq_Some_conv split: if_splits)

lemma account_step_skip:
  assumes "entry_settled charged en"
  shows "\<exists>u'. account_entries (en # es) t u charged = account_entries es t u' charged"
  using assms by (auto simp: entry_settled_def chargeable_def split: option.splits)

lemma account_step_cases:
  assumes "account_entries (en # es) t u charged = r"
  obtains (skip) u' where "entry_settled charged en" "account_entries es t u' charged = r"
  | (charge) n where "en_id en \<notin> set charged" "chargeable en = Some n"
      "account_entries es (t + n) u (set_add (en_id en) charged) = r"
  using assms account_step_charge account_step_skip
  by (cases "entry_settled charged en") (metis, auto simp: entry_settled_def)

lemma account_entries_amount:
  "account_entries es t u charged = (t', u', charged') \<Longrightarrow> t' = t + entries_charge es (set charged)"
proof (induction es arbitrary: t u charged)
  case (Cons en es)
  from Cons.prems show ?case
  proof (cases rule: account_step_cases)
    case (skip u1)
    then show ?thesis using Cons.IH [OF skip(2)] by (auto simp: entry_settled_def split: option.splits)
  next
    case (charge n)
    then show ?thesis using Cons.IH [OF charge(3)] by (simp add: set_set_add)
  qed
qed simp

lemma account_entries_mono:
  "account_entries es t u charged = (t', u', charged') \<Longrightarrow> set charged \<subseteq> set charged' \<and> t \<le> t'"
proof (induction es arbitrary: t u charged)
  case (Cons en es)
  from Cons.prems show ?case
  proof (cases rule: account_step_cases)
    case (skip u1)
    then show ?thesis using Cons.IH by blast
  next
    case (charge n)
    then show ?thesis using Cons.IH [OF charge(3)] chargeable_bounds [OF charge(2)] by (auto simp: set_set_add)
  qed
qed simp

lemma account_entries_settled:
  "list_all (entry_settled charged) es \<Longrightarrow> \<exists>u'. account_entries es t u charged = (t, u', charged)"
proof (induction es arbitrary: u)
  case (Cons en es)
  then obtain u1 where "account_entries (en # es) t u charged = account_entries es t u1 charged"
    using account_step_skip by fastforce
  with Cons show ?case by auto
qed simp

lemma entry_settled_mono: "entry_settled s en \<Longrightarrow> set s \<subseteq> set s' \<Longrightarrow> entry_settled s' en"
  by (auto simp: entry_settled_def)

lemma account_entries_settles:
  "account_entries es t u charged = (t', u', charged') \<Longrightarrow> list_all (entry_settled charged') es"
proof (induction es arbitrary: t u charged)
  case (Cons en es)
  from Cons.prems show ?case
  proof (cases rule: account_step_cases)
    case (skip u1)
    with Cons.IH [OF skip(2)] account_entries_mono [OF skip(2)] entry_settled_mono show ?thesis by auto
  next
    case (charge n)
    with Cons.IH [OF charge(3)] account_entries_mono [OF charge(3)] show ?thesis
      by (auto simp: entry_settled_def set_set_add)
  qed
qed simp

section \<open>Clients of the store contract\<close>

definition store_ops_of :: "('s \<Rightarrow> jstring) \<Rightarrow> 's loader \<Rightarrow> 's committer \<Rightarrow> 's store_ops" where
  "store_ops_of session load commit = \<lparr>op_session = session, op_load = load, op_commit = commit\<rparr>"

lemma store_ops_of_simps [simp]:
  "op_session (store_ops_of session load commit) = session"
  "op_load (store_ops_of session load commit) = load"
  "op_commit (store_ops_of session load commit) = commit"
  by (simp_all add: store_ops_of_def)

text \<open>What a validated write keeps of the mutated envelope.\<close>

lemma written_facts:
  assumes "validate_envelope dp (envelope_json x) sid = Inr e"
  shows "goal e = map_option trim_goal (goal x)" "dispatch e = dispatch x" "charged_ids e = charged_ids x"
    "revision e = revision x" "baseline_count e = baseline_count x" "e_remainder e = e_remainder x"
    "wf_envelope dp sid e"
  using validate_written [OF assms] validate_envelope_wf [OF assms] by simp_all

text \<open>The controller over any store that keeps the contract.\<close>

locale goal_client = goal_store
begin

lemma ctl_load_cases:
  assumes "ctl_load (store_ops_of session load commit) c = (r, c')"
  obtains st where "load (c_store c) = (r, st)" "c' = c\<lparr>c_store := st\<rparr>"
    "content st = content (c_store c)" "session st = session (c_store c)"
    "\<And>e. r = Inr e \<Longrightarrow> content (c_store c) = Some e"
proof -
  obtain r0 st where l: "load (c_store c) = (r0, st)" by fastforce
  with assms have r: "r0 = r" and c': "c' = c\<lparr>c_store := st\<rparr>" by (auto simp: ctl_load_def)
  show thesis
    using that [of st] l r c' load_content [OF l] session_load [OF l] load_ok by blast
qed

lemma ctl_commit_cases:
  assumes "ctl_commit (store_ops_of session load commit) n f c = (r, c')"
  obtains st where "commit (c_store c) n f = (r, st)" "c' = c\<lparr>c_store := st\<rparr>"
    "session st = session (c_store c)"
proof -
  obtain r0 st where l: "commit (c_store c) n f = (r0, st)" by fastforce
  with assms have r: "r0 = r" and c': "c' = c\<lparr>c_store := st\<rparr>" by (auto simp: ctl_commit_def)
  show thesis using that [of st] l r c' session_commit [OF l] by blast
qed

lemma ctl_commit_ok:
  assumes "ctl_commit (store_ops_of session load commit) n f c = (Inr e, c')"
  shows "content (c_store c') = Some e \<and> revision e = n + 1 \<and>
    (\<exists>cur. content (c_store c) = Some cur \<and> revision cur = n \<and>
      goal e = map_option trim_goal (goal (f cur)) \<and> dispatch e = dispatch (f cur) \<and>
      charged_ids e = charged_ids (f cur) \<and> baseline_count e = baseline_count (f cur) \<and>
      e_remainder e = e_remainder (f cur)) \<and> wf_envelope dp (session (c_store c)) e"
proof -
  from assms obtain st where st: "commit (c_store c) n f = (Inr e, st)" "c' = c\<lparr>c_store := st\<rparr>"
    by (rule ctl_commit_cases)
  from commit_ok [OF st(1)] obtain cur where cur: "content st = Some e" "content (c_store c) = Some cur"
    "revision cur = n" "validate_envelope dp (envelope_json (stamp n (f cur))) (session (c_store c)) = Inr e"
    by blast
  with written_facts [OF cur(4)] st(2) show ?thesis by auto
qed

lemma ctl_commit_refused:
  assumes "ctl_commit (store_ops_of session load commit) n f c = (Inl (code, obs), c')" and "code \<noteq> Indeterminate"
  shows "content (c_store c') = content (c_store c)"
  using assms(1) by (rule ctl_commit_cases) (use commit_refused assms(2) in auto)

lemma ctl_commit_stale:
  assumes "content (c_store c) = Some cur" and "revision cur \<noteq> n"
    and "ctl_commit (store_ops_of session load commit) n f c = (r, c')"
  shows "\<exists>code obs. r = Inl (code, obs) \<and> code \<noteq> Indeterminate \<and> content (c_store c') = Some cur"
proof -
  from assms(3) obtain st where st: "commit (c_store c) n f = (r, st)" "c' = c\<lparr>c_store := st\<rparr>"
    by (rule ctl_commit_cases)
  from stale_commit [OF assms(1,2) st(1)] st(2) show ?thesis by (cases r) auto
qed

lemma load_state_dispatch:
  assumes "load_state (store_ops_of session load commit) c = ((Some e, er), c')" and "dispatch e \<noteq> None"
  shows "c_recovery c' \<or> c_disabled c'"
  using assms by (auto simp: load_state_def Let_def split: prod.splits sum.splits if_splits option.splits)

lemma load_state_unusable:
  assumes "load_state (store_ops_of session load commit) c = ((x, er), c')" and "er \<noteq> None"
  shows "c_disabled c'"
  using assms by (auto simp: load_state_def Let_def split: prod.splits sum.splits if_splits option.splits)

lemma load_state_frame:
  assumes "load_state (store_ops_of session load commit) c = (r, c')"
  shows "content (c_store c') = content (c_store c) \<and> c_outbox c' = c_outbox c"
proof -
  obtain lr c1 where l: "ctl_load (store_ops_of session load commit) c = (lr, c1)" by fastforce
  then have "content (c_store c1) = content (c_store c)" "c_outbox c1 = c_outbox c"
    by (auto elim!: ctl_load_cases)
  with assms l show ?thesis
    by (auto simp: load_state_def Let_def split: sum.splits if_splits option.splits)
qed

lemma admit_dispatch_admits:
  assumes "admit_dispatch (store_ops_of session load commit) env e view c = (Inr e', c')"
  shows "\<exists>g d. goal e = Some g \<and> gstatus g = Active \<and> dispatch e = None \<and>
    content (c_store c') = Some e' \<and> revision e' = revision e + 1 \<and> dispatch e' = Some d \<and>
    dispatch_id d = ce_id env (c_ids c) \<and> d_session d = v_session view \<and> d_goal d = gid g \<and>
    d_phase d = Admitted \<and> d_revision d = revision e \<and> c_committed c' \<and> c_generation c' = c_generation c"
proof -
  obtain g where g: "goal e = Some g" "gstatus g = Active" "dispatch e = None"
    using assms by (auto simp: admit_dispatch_def is_active_record_def split: option.splits if_splits)
  define d where "d = \<lparr>dispatch_id = ce_id env (c_ids c), d_session = v_session view, d_goal = gid g,
    d_revision = revision e, d_phase = Admitted, admitted_at = ce_iso env (c_isos c)\<rparr>"
  define c1 where "c1 = c\<lparr>c_ids := Suc (c_ids c), c_isos := Suc (c_isos c)\<rparr>"
  obtain r c2 where k: "ctl_commit (store_ops_of session load commit) (revision e)
      (\<lambda>cur. cur\<lparr>dispatch := Some d\<rparr>) c1 = (r, c2)" by fastforce
  have "r = Inr e' \<and> c' = c2\<lparr>c_committed := True\<rparr>"
    using assms g k by (auto simp: admit_dispatch_def is_active_record_def make_dispatch_id_def now_iso_def
        d_def c1_def split: sum.splits prod.splits if_splits)
  moreover from this k have "content (c_store c2) = Some e' \<and> revision e' = revision e + 1 \<and> dispatch e' = Some d"
    using ctl_commit_ok [of "revision e" "\<lambda>cur. cur\<lparr>dispatch := Some d\<rparr>" c1 e' c2] by auto
  moreover have "c_generation c2 = c_generation c" using k by (auto simp: c1_def elim!: ctl_commit_cases)
  ultimately show ?thesis using g by (simp add: d_def)
qed

lemma admit_dispatch_stale:
  assumes "content (c_store c) = Some cur" and "revision cur \<noteq> revision e"
    and "admit_dispatch (store_ops_of session load commit) env e view c = (r, c')"
  shows "(\<exists>er. r = Inl er) \<and> content (c_store c') = Some cur"
proof (cases "\<exists>g. goal e = Some g \<and> is_active_record (goal e) \<and> dispatch e = None")
  case False
  with assms show ?thesis by (auto simp: admit_dispatch_def split: option.splits if_splits)
next
  case True
  then obtain g where g: "goal e = Some g" "is_active_record (goal e)" "dispatch e = None" by blast
  define d where "d = \<lparr>dispatch_id = ce_id env (c_ids c), d_session = v_session view, d_goal = gid g,
    d_revision = revision e, d_phase = Admitted, admitted_at = ce_iso env (c_isos c)\<rparr>"
  define c1 where "c1 = c\<lparr>c_ids := Suc (c_ids c), c_isos := Suc (c_isos c)\<rparr>"
  obtain r2 c2 where k: "ctl_commit (store_ops_of session load commit) (revision e)
      (\<lambda>cur. cur\<lparr>dispatch := Some d\<rparr>) c1 = (r2, c2)" by fastforce
  from ctl_commit_stale [OF _ _ k] assms(1,2) obtain code obs where
    "r2 = Inl (code, obs)" "content (c_store c2) = Some cur" by (auto simp: c1_def)
  with assms(3) g k show ?thesis
    by (auto simp: admit_dispatch_def make_dispatch_id_def now_iso_def d_def c1_def split: if_splits)
qed


lemma deliver_continuation_cases:
  assumes "deliver_continuation (store_ops_of session load commit) env e view gen c = (r, c')"
  shows "content (c_store c') = content (c_store c) \<and>
    (case r of
       Inl _ \<Rightarrow> c_outbox c' = c_outbox c
     | Inr did \<Rightarrow> \<exists>auth ag g d. content (c_store c) = Some auth \<and> revision auth = revision e \<and>
         goal auth = Some ag \<and> gstatus ag = Active \<and> gen = c_generation c \<and> \<not> v_pending view \<and>
         goal e = Some g \<and> dispatch e = Some d \<and> did = dispatch_id d \<and>
         d_session d = v_session view \<and> d_goal d = gid g \<and>
         c_outbox c' = c_outbox c @ [Instruction (Continuation g (revision e) (Suc (c_executions c)))
           \<lparr>dt_session = v_session view, dt_goal = gid g, dt_revision = revision e, dt_dispatch = Some did\<rparr>])"
proof -
  obtain lr c1 where l: "ctl_load (store_ops_of session load commit) c = (lr, c1)" by fastforce
  then obtain st where c1: "c1 = c\<lparr>c_store := st\<rparr>" "content st = content (c_store c)"
    and ok: "\<And>a. lr = Inr a \<Longrightarrow> content (c_store c) = Some a" by (rule ctl_load_cases) blast
  show ?thesis
  proof (cases lr)
    case (Inl er)
    with assms l c1 show ?thesis by (auto simp: deliver_continuation_def split: prod.splits)
  next
    case (Inr auth)
    with ok have "content (c_store c) = Some auth" by simp
    with assms l c1 Inr show ?thesis
      by (auto simp: deliver_continuation_def send_def Let_def split: if_splits option.splits)
  qed
qed

lemma account_fails:
  assumes "account (store_ops_of session load commit) env e view fin c = (Inl er, c')"
  shows "c_disabled c' \<and> c_recovery c' \<and> c_outbox c' = c_outbox c \<and>
    (\<forall>code. er = Accounting_failed code \<longrightarrow> code \<noteq> Indeterminate \<longrightarrow> content (c_store c') = content (c_store c))"
proof -
  from assms obtain g where g: "goal e = Some g" by (auto simp: account_def split: option.splits)
  define base where "base = (case baseline_count e of None \<Rightarrow> 0 | Some b \<Rightarrow> b)"
  obtain t u ch where en: "account_entries (slice_from base (v_entries view)) (tokens_used g) False (charged_ids e) = (t, u, ch)"
    by (metis prod_cases3)
  obtain tm rem c1 where sp: "account_span env g e c = ((tm, rem), c1)" by (metis prod.collapse)
  define c2 where "c2 = c1\<lparr>c_isos := Suc (c_isos c1)\<rparr>"
  define nx where "nx = g\<lparr>tokens_used := t, time_used := tm, updated_at := ce_iso env (c_isos c1)\<rparr>"
  obtain fg c3 where sg: "settled_goal env nx c2 = (fg, c3)" by fastforce
  obtain cr c4 where k: "ctl_commit (store_ops_of session load commit) (revision e) (account_mutation fg ch base rem fin) c3 = (cr, c4)"
    by fastforce
  have st: "c_store c3 = c_store c" "c_outbox c3 = c_outbox c"
    using account_span_frame [OF sp] settled_goal_frame [OF sg] by (simp_all add: c2_def)
  have "c_outbox c4 = c_outbox c" using k st by (auto elim!: ctl_commit_cases)
  moreover have "\<And>code obs. cr = Inl (code, obs) \<Longrightarrow> code \<noteq> Indeterminate \<Longrightarrow> content (c_store c4) = content (c_store c)"
    using ctl_commit_refused k st by auto
  ultimately show ?thesis
    using assms g en sp sg k
    by (auto simp: account_def base_def [symmetric] now_iso_def c2_def [symmetric] nx_def [symmetric]
        now_ms_def send_def Let_def split: sum.splits if_splits option.splits)
qed

lemma account_settles:
  assumes cont: "content (c_store c) = Some e" and g: "goal e = Some g"
    and acc: "account (store_ops_of session load commit) env e view fin c = (Inr r, c')"
  defines "base \<equiv> (case baseline_count e of None \<Rightarrow> 0 | Some b \<Rightarrow> b)"
  shows "content (c_store c') = Some (ar_envelope r) \<and> revision (ar_envelope r) = revision e + 1 \<and>
    baseline_count (ar_envelope r) = Some base \<and> set (charged_ids e) \<subseteq> set (charged_ids (ar_envelope r)) \<and>
    list_all (entry_settled (charged_ids (ar_envelope r))) (slice_from base (v_entries view)) \<and>
    (\<exists>g'. goal (ar_envelope r) = Some g' \<and> gid g' = gid g \<and> token_budget g' = token_budget g \<and>
      tokens_used g' = tokens_used g + entries_charge (slice_from base (v_entries view)) (set (charged_ids e)) \<and>
      tokens_used g \<le> tokens_used g' \<and>
      gstatus g' = (if gstatus g = Active \<and> (\<exists>b. token_budget g = Some b \<and> b \<le> tokens_used g')
                    then Budget_limited else gstatus g) \<and>
      ar_budget_hit r = (gstatus g = Active \<and> (\<exists>b. token_budget g = Some b \<and> b \<le> tokens_used g'))) \<and>
    (\<forall>xs. list_all (entry_settled (charged_ids e)) xs \<and> slice_from base (v_entries view) = xs \<longrightarrow>
      charged_ids (ar_envelope r) = charged_ids e)"
proof -
  obtain t u ch where en: "account_entries (slice_from base (v_entries view)) (tokens_used g) False (charged_ids e) = (t, u, ch)"
    by (metis prod_cases3)
  obtain tm rem c1 where sp: "account_span env g e c = ((tm, rem), c1)" by (metis prod.collapse)
  define c2 where "c2 = c1\<lparr>c_isos := Suc (c_isos c1)\<rparr>"
  define nx where "nx = g\<lparr>tokens_used := t, time_used := tm, updated_at := ce_iso env (c_isos c1)\<rparr>"
  obtain fg c3 where sg: "settled_goal env nx c2 = (fg, c3)" by fastforce
  obtain cr c4 where k: "ctl_commit (store_ops_of session load commit) (revision e) (account_mutation fg ch base rem fin) c3 = (cr, c4)"
    by fastforce
  have st: "c_store c3 = c_store c" using account_span_frame [OF sp] settled_goal_frame [OF sg] by (simp add: c2_def)
  have fin: "cr = Inr (ar_envelope r) \<and> c_store c' = c_store c4 \<and> ar_budget_hit r = budget_hit nx"
    using acc g en sp sg k
    by (auto simp: account_def base_def now_iso_def c2_def [symmetric] nx_def [symmetric]
        now_ms_def send_def Let_def split: sum.splits if_splits option.splits)
  with k have "ctl_commit (store_ops_of session load commit) (revision e) (account_mutation fg ch base rem fin) c3 = (Inr (ar_envelope r), c4)"
    by simp
  from ctl_commit_ok [OF this] cont st g have w: "content (c_store c4) = Some (ar_envelope r)"
    "revision (ar_envelope r) = revision e + 1" "goal (ar_envelope r) = Some (trim_goal fg)"
    "charged_ids (ar_envelope r) = ch" "baseline_count (ar_envelope r) = Some base"
    by (auto simp: account_mutation_def)
  have fg: "gid fg = gid g" "token_budget fg = token_budget g" "tokens_used fg = t"
    "gstatus fg = (if budget_hit nx then Budget_limited else gstatus g)"
    using settled_goal_frame [OF sg] by (simp_all add: nx_def)
  have bh: "budget_hit nx \<longleftrightarrow> gstatus g = Active \<and> (\<exists>b. token_budget g = Some b \<and> b \<le> t)"
    by (auto simp: budget_hit_def nx_def split: option.splits)
  have same: "charged_ids (ar_envelope r) = charged_ids e"
    if "list_all (entry_settled (charged_ids e)) (slice_from base (v_entries view))"
    using account_entries_settled [OF that, of "tokens_used g" False] en w by auto
  show ?thesis
    using w fin fg bh same account_entries_amount [OF en] account_entries_mono [OF en] account_entries_settles [OF en]
    by simp
qed

lemma account_again:
  assumes cont: "content (c_store c) = Some e" and g: "goal e = Some g"
    and acc: "account (store_ops_of session load commit) env e view fin c = (Inr r, c1)"
    and again: "account (store_ops_of session load commit) env (ar_envelope r) view fin' c1 = (Inr r', c2)"
  shows "map_option tokens_used (goal (ar_envelope r')) = map_option tokens_used (goal (ar_envelope r)) \<and>
    charged_ids (ar_envelope r') = charged_ids (ar_envelope r)"
proof -
  note first = account_settles [OF cont g acc]
  then obtain g' where g': "goal (ar_envelope r) = Some g'" by blast
  have none: "entries_charge xs (set s) = 0" if "list_all (entry_settled s) xs" for xs s
    using that by (induction xs) (auto simp: entry_settled_def split: option.splits)
  show ?thesis using first g' account_settles [OF _ g' again] none by auto
qed

lemma terminal_goal_result:
  assumes "terminal_goal kind g now = Inr g'"
  shows "gstatus g' \<noteq> Active \<and> gid g' = gid g \<and> tokens_used g' = tokens_used g"
  using assms
  by (auto simp: terminal_goal_def block_record_def budget_limit_record_def usage_limit_record_def
      complete_from_budget_limited_def Let_def split: terminal_kind.splits if_splits)

lemma apply_terminal_stores:
  assumes "apply_terminal_transition (store_ops_of session load commit) env e kind c = (Inr e', c')"
  shows "content (c_store c') = Some e' \<and> revision e' = revision e + 1 \<and> dispatch e' = None \<and>
    (\<exists>g'. goal e' = Some g' \<and> gstatus g' \<noteq> Active) \<and> c_generation c' = c_generation c + 1 \<and>
    c_outbox c' = c_outbox c"
proof -
  obtain g where g: "goal e = Some g" using assms by (auto simp: apply_terminal_transition_def split: option.splits)
  obtain g' where t: "terminal_goal kind g (ce_iso env (c_isos c)) = Inr g'"
    using assms g by (auto simp: apply_terminal_transition_def split: sum.splits)
  define f :: "envelope \<Rightarrow> envelope" where "f = (\<lambda>cur. cur\<lparr>goal := Some g', dispatch := None\<rparr>)"
  obtain r c2 where k: "ctl_commit (store_ops_of session load commit) (revision e) f (c\<lparr>c_isos := Suc (c_isos c)\<rparr>) = (r, c2)"
    by fastforce
  have r: "r = Inr e' \<and> c' = invalidate (c2\<lparr>c_committed := True\<rparr>)"
    using assms g t k by (auto simp: apply_terminal_transition_def f_def split: sum.splits)
  with k have "ctl_commit (store_ops_of session load commit) (revision e) f (c\<lparr>c_isos := Suc (c_isos c)\<rparr>) = (Inr e', c2)"
    by simp
  from ctl_commit_ok [OF this] have "content (c_store c2) = Some e'" "revision e' = revision e + 1"
    "goal e' = Some (trim_goal g')" "dispatch e' = None" by (auto simp: f_def)
  moreover have "c_generation c2 = c_generation c \<and> c_outbox c2 = c_outbox c"
    using k by (auto elim!: ctl_commit_cases)
  ultimately show ?thesis using r terminal_goal_result [OF t] by (simp add: invalidate_def)
qed

end

text \<open>The verdicts of a run of settled outcomes, the latest last.\<close>

fun settle_outcomes :: "classify_outcome list \<Rightarrow> 's ctl \<Rightarrow> bool list \<times> 's ctl" where
  "settle_outcomes [] c = ([], c)"
| "settle_outcomes (out # outs) c =
     (case note_settled_outcome out c of (b, c1) \<Rightarrow>
      case settle_outcomes outs c1 of (bs, c2) \<Rightarrow> (b # bs, c2))"

text \<open>How many outcomes at the end of a list are empty.\<close>

definition empty_tail :: "classify_outcome list \<Rightarrow> nat" where
  "empty_tail outs = length (takeWhile (\<lambda>out. out = Empty_no_activity) (rev outs))"

lemma empty_tail_simps [simp]:
  "empty_tail [] = 0" "empty_tail (outs @ [out]) = (if out = Empty_no_activity then Suc (empty_tail outs) else 0)"
  by (simp_all add: empty_tail_def)

lemma settle_outcomes_append:
  "settle_outcomes (xs @ ys) c =
     (case settle_outcomes xs c of (b1, c1) \<Rightarrow> case settle_outcomes ys c1 of (b2, c2) \<Rightarrow> (b1 @ b2, c2))"
  by (induction xs c rule: settle_outcomes.induct) (auto split: prod.splits)

lemma settle_outcomes_streak:
  "c_streak c = 0 \<Longrightarrow> settle_outcomes outs c = (bs, c') \<Longrightarrow>
   c_streak c' = empty_tail outs \<and> bs = map (\<lambda>k. 3 \<le> empty_tail (take (Suc k) outs)) [0..<length outs]"
proof (induction outs arbitrary: bs c' rule: rev_induct)
  case (snoc out outs)
  obtain b1 c1 where r: "settle_outcomes outs c = (b1, c1)" by fastforce
  from snoc.IH [OF snoc.prems(1) r] snoc.prems(2) r show ?case
    by (auto simp: settle_outcomes_append note_settled_outcome_def Let_def)
qed simp

end
