(* ===== verification/FileStore.thy ===== *)
theory FileStore
  imports GoalStore
begin

text \<open>
  \<open>FileGoalStore\<close> of \<open>ponygirls-codex-goals/src/store.ts\<close>: the sidecar file with atomic
  replacement, and the lock file beside it.

  The file system is the two files the class touches. What the operating system decides (whether
  a read, an unlink or a write succeeds, whether the directory flush after the rename works,
  which processes are alive) is an \<open>io_env\<close> record, a fresh one for every step that does I/O:
  \<open>f_io s k\<close> is what the k-th step of the run meets. \<open>commit\<close>, \<open>load\<close> and \<open>acquireLock\<close> are
  one step for other processes here; the interleaving of two processes inside \<open>acquireLock\<close> is
  the subject of the last section.
\<close>

section \<open>State\<close>

record lock_file =
  lk_pid :: int
  lk_host :: jstring
  lk_owner :: "jstring option"

text \<open>An unreadable or malformed lock file is \<open>Bad_lock\<close>: \<open>readLockFile\<close> returns \<open>null\<close> on it.\<close>

datatype lock_state = No_lock | Bad_lock | Locked_by lock_file

datatype write_outcome = Write_ok | Write_failed | Write_unsynced

record io_env =
  io_read_ok :: bool
  io_lock_read_ok :: bool
  io_unlink_ok :: bool
  io_create_ok :: bool
  io_alive :: "int \<Rightarrow> bool option"
  io_write :: write_outcome

record file_store =
  f_pid :: int
  f_host :: jstring
  f_owner :: jstring
  f_session :: jstring
  f_held :: bool
  f_expected :: bool
  f_side :: "side_text option"
  f_lock :: lock_state
  f_io :: "nat \<Rightarrow> io_env"
  f_tick :: nat

definition next_io :: "file_store \<Rightarrow> io_env \<times> file_store" where
  "next_io s = (f_io s (f_tick s), s\<lparr>f_tick := Suc (f_tick s)\<rparr>)"

definition read_lock_file :: "io_env \<Rightarrow> lock_state \<Rightarrow> lock_file option" where
  "read_lock_file io l =
     (case l of Locked_by lf \<Rightarrow> if io_lock_read_ok io then Some lf else None | _ \<Rightarrow> None)"

definition own_lock :: "file_store \<Rightarrow> lock_file \<Rightarrow> bool" where
  "own_lock s lf \<longleftrightarrow> lk_pid lf = f_pid s \<and> lk_host lf = f_host s \<and> lk_owner lf = Some (f_owner s)"

definition my_lock :: "file_store \<Rightarrow> lock_file" where
  "my_lock s = \<lparr>lk_pid = f_pid s, lk_host = f_host s, lk_owner = Some (f_owner s)\<rparr>"

section \<open>Operations\<close>

definition file_load :: "(jstring \<Rightarrow> bool) \<Rightarrow> file_store \<Rightarrow> envelope store_result \<times> file_store" where
  "file_load dp s0 =
     (let (io, s) = next_io s0 in
      if \<not> io_read_ok io then (Inl (Storage_failure, None), s)
      else case f_side s of
        None \<Rightarrow>
          if \<not> f_expected s then (Inr (empty_envelope (f_session s)), s)
          else (Inl (Storage_failure, None), s)
      | Some t \<Rightarrow>
         (case parse_sidecar dp (f_session s) t of
            Inl e \<Rightarrow> (Inl e, s)
          | Inr e \<Rightarrow> (Inr e, if revision e > 0 then s\<lparr>f_expected := True\<rparr> else s)))"

text \<open>
  \<open>writeFileSync\<close> with the exclusive flag: it fails with \<open>EEXIST\<close> on any existing file, whatever
  it holds.
\<close>

definition create_lock :: "io_env \<Rightarrow> file_store \<Rightarrow> unit store_result \<times> file_store" where
  "create_lock io s =
     (if \<not> io_create_ok io then (Inl (Storage_failure, None), s)
      else if f_lock s \<noteq> No_lock then (Inl (Locked, None), s)
      else (Inr (), s\<lparr>f_lock := Locked_by (my_lock s), f_held := True\<rparr>))"

definition file_acquire_lock :: "file_store \<Rightarrow> unit store_result \<times> file_store" where
  "file_acquire_lock s0 =
     (let (io, s) = next_io s0 in
      case read_lock_file io (f_lock s) of
        Some existing \<Rightarrow>
          if own_lock s existing then (Inr (), s\<lparr>f_held := True\<rparr>)
          else if io_alive io (lk_pid existing) = Some False \<and> lk_host existing = f_host s then
            (if io_unlink_ok io then create_lock io (s\<lparr>f_lock := No_lock\<rparr>)
             else (Inl (Storage_failure, None), s))
          else (Inl (Locked, None), s)
      | None \<Rightarrow> create_lock io s)"

definition file_release_lock :: "file_store \<Rightarrow> file_store" where
  "file_release_lock s0 =
     (if \<not> f_held s0 then s0
      else let (io, s) = next_io s0; s = s\<lparr>f_held := False\<rparr> in
        case read_lock_file io (f_lock s) of
          Some existing \<Rightarrow>
            if own_lock s existing \<and> io_unlink_ok io then s\<lparr>f_lock := No_lock\<rparr> else s
        | None \<Rightarrow> s)"

definition file_commit ::
  "(jstring \<Rightarrow> bool) \<Rightarrow> file_store \<Rightarrow> int \<Rightarrow> (envelope \<Rightarrow> envelope) \<Rightarrow> envelope store_result \<times> file_store" where
  "file_commit dp s n f =
     (case file_acquire_lock s of
        (Inl e, s) \<Rightarrow> (Inl e, s)
      | (Inr _, s) \<Rightarrow>
       (case file_load dp s of
          (Inl e, s) \<Rightarrow> (Inl e, s)
        | (Inr loaded, s) \<Rightarrow>
          if revision loaded \<noteq> n then (Inl (Revision_conflict, Some loaded), s)
          else if e_session (f loaded) \<noteq> f_session s then (Inl mismatch, s)
          else case validate_envelope dp (envelope_json (stamp n (f loaded))) (f_session s) of
            Inl e \<Rightarrow> (Inl e, s)
          | Inr e \<Rightarrow>
            (let (io, s) = next_io s in
             case io_write io of
               Write_failed \<Rightarrow> (Inl (Storage_failure, None), s)
             | Write_ok \<Rightarrow> (Inr e, s\<lparr>f_side := Some (Parsed (envelope_json e)), f_expected := True\<rparr>)
             | Write_unsynced \<Rightarrow>
                (case file_load dp (s\<lparr>f_side := Some (Parsed (envelope_json e)), f_expected := True\<rparr>) of
                   (Inl _, s) \<Rightarrow> (Inl (Indeterminate, None), s)
                 | (Inr obs, s) \<Rightarrow> (Inl (Indeterminate, Some obs), s)))))"

text \<open>What a load returns when the read itself works.\<close>

definition file_content :: "(jstring \<Rightarrow> bool) \<Rightarrow> file_store \<Rightarrow> envelope option" where
  "file_content dp s =
     (case f_side s of
        None \<Rightarrow> if f_expected s then None else Some (empty_envelope (f_session s))
      | Some t \<Rightarrow> (case parse_sidecar dp (f_session s) t of Inl _ \<Rightarrow> None | Inr e \<Rightarrow> Some e))"

section \<open>Facts\<close>

lemma next_io_simps [simp]:
  "f_session (snd (next_io s)) = f_session s" "f_side (snd (next_io s)) = f_side s"
  "f_expected (snd (next_io s)) = f_expected s" "f_lock (snd (next_io s)) = f_lock s"
  by (simp_all add: next_io_def)

lemma file_content_cong:
  "f_session s' = f_session s \<Longrightarrow> f_side s' = f_side s \<Longrightarrow>
   (f_side s = None \<Longrightarrow> f_expected s' = f_expected s) \<Longrightarrow> file_content dp s' = file_content dp s"
  by (cases "f_side s") (simp_all add: file_content_def)

lemma file_content_wf: "file_content dp s = Some e \<Longrightarrow> wf_envelope dp (f_session s) e"
  by (auto simp: file_content_def dest: parse_sidecar_wf split: option.splits if_splits sum.splits)

lemma file_load_frame:
  assumes "file_load dp s = (r, s')"
  shows "f_session s' = f_session s \<and> f_side s' = f_side s \<and> f_lock s' = f_lock s \<and> f_held s' = f_held s \<and>
    (f_side s = None \<longrightarrow> f_expected s' = f_expected s)"
  using assms by (auto simp: file_load_def next_io_def Let_def split: if_splits option.splits sum.splits)

lemma file_load_content: "file_load dp s = (r, s') \<Longrightarrow> file_content dp s' = file_content dp s"
  using file_load_frame [of dp s r s'] by (intro file_content_cong) auto

lemma file_load_ok: "file_load dp s = (Inr e, s') \<Longrightarrow> file_content dp s = Some e"
  by (auto simp: file_load_def file_content_def next_io_def Let_def split: if_splits option.splits sum.splits)

lemma file_load_error: "file_load dp s = (Inl e, s') \<Longrightarrow> \<not> installed (Inl e)"
  by (auto simp: file_load_def next_io_def Let_def malformed_def mismatch_def installed_Inl
      dest: parse_sidecar_error split: if_splits option.splits sum.splits)

lemma create_lock_frame:
  "create_lock io s = (r, s') \<Longrightarrow>
   f_session s' = f_session s \<and> f_side s' = f_side s \<and> f_expected s' = f_expected s \<and> f_owner s' = f_owner s \<and>
   (\<forall>e. r = Inl e \<longrightarrow> \<not> installed (Inl e))"
  by (auto simp: create_lock_def split: if_splits)

lemma file_acquire_lock_frame:
  "file_acquire_lock s = (r, s') \<Longrightarrow>
   f_session s' = f_session s \<and> f_side s' = f_side s \<and> f_expected s' = f_expected s \<and> f_owner s' = f_owner s \<and>
   (\<forall>e. r = Inl e \<longrightarrow> \<not> installed (Inl e))"
  by (auto simp: file_acquire_lock_def next_io_def Let_def dest: create_lock_frame
      split: if_splits option.splits)

lemma file_content_written:
  assumes "validate_envelope dp v (f_session s) = Inr e"
  shows "file_content dp (s\<lparr>f_side := Some (Parsed (envelope_json e)), f_expected := True\<rparr>) = Some e"
  using validate_envelope_wf [OF assms] by (simp add: file_content_def)

lemma file_commit_cases:
  assumes "file_commit dp s n f = (r, s')"
  shows "f_session s' = f_session s \<and>
    (\<not> installed r \<and> file_content dp s' = file_content dp s \<or>
     (\<exists>c e. file_content dp s = Some c \<and> revision c = n \<and> file_content dp s' = Some e \<and>
       validate_envelope dp (envelope_json (stamp n (f c))) (f_session s) = Inr e \<and>
       (r = Inr e \<or> (\<exists>obs. r = Inl (Indeterminate, obs)))))"
proof -
  obtain lk s1 where lk: "file_acquire_lock s = (lk, s1)" by fastforce
  note lkf = file_acquire_lock_frame [OF lk]
  have c1: "file_content dp s1 = file_content dp s" using lkf by (intro file_content_cong) auto
  obtain ld s2 where ld: "file_load dp s1 = (ld, s2)" by fastforce
  note ldf = file_load_frame [OF ld]
  have c2: "file_content dp s2 = file_content dp s" using file_load_content [OF ld] c1 by simp
  have s2: "f_session s2 = f_session s" using lkf ldf by simp
  define s3 where "s3 = snd (next_io s2)"
  have c3: "file_content dp s3 = file_content dp s" "f_session s3 = f_session s"
    using c2 s2 file_content_cong [of s3 s2 dp] by (auto simp: s3_def)
  show ?thesis
  proof (cases lk)
    case (Inl e)
    with assms lk lkf c1 show ?thesis by (auto simp: file_commit_def)
  next
    case lkok: (Inr u)
    show ?thesis
    proof (cases ld)
      case (Inl e)
      with assms lk lkok ld c2 s2 show ?thesis by (auto simp: file_commit_def dest: file_load_error)
    next
      case ldok: (Inr c)
      have cc: "file_content dp s = Some c" using file_load_ok [of dp s1 c s2] ld ldok c1 by simp
      show ?thesis
      proof (cases "revision c = n \<and> e_session (f c) = f_session s2")
        case False
        with assms lk lkok ld ldok c2 s2 show ?thesis
          by (auto simp: file_commit_def mismatch_def split: if_splits)
      next
        case ok: True
        show ?thesis
        proof (cases "validate_envelope dp (envelope_json (stamp n (f c))) (f_session s2)")
          case (Inl e)
          then have "\<not> installed (Inl e)"
            by (auto simp: installed_Inl malformed_def mismatch_def dest: validate_envelope_error)
          with assms lk lkok ld ldok ok Inl c2 s2 show ?thesis by (auto simp: file_commit_def)
        next
          case (Inr e)
          define w where "w = s3\<lparr>f_side := Some (Parsed (envelope_json e)), f_expected := True\<rparr>"
          have w: "file_content dp w = Some e" "f_session w = f_session s"
            using file_content_written [of dp _ s3 e] Inr s2 c3 by (auto simp: w_def)
          have io: "next_io s2 = (f_io s2 (f_tick s2), s3)" by (simp add: s3_def next_io_def)
          obtain ob s4 where l4: "file_load dp w = (ob, s4)" by fastforce
          have s4: "file_content dp s4 = Some e" "f_session s4 = f_session s"
            using file_load_content [OF l4] file_load_frame [OF l4] w by auto
          have run: "file_commit dp s n f =
            (case io_write (f_io s2 (f_tick s2)) of
               Write_failed \<Rightarrow> (Inl (Storage_failure, None), s3)
             | Write_ok \<Rightarrow> (Inr e, w)
             | Write_unsynced \<Rightarrow> (case (ob, s4) of (Inl _, s) \<Rightarrow> (Inl (Indeterminate, None), s)
                                   | (Inr obs, s) \<Rightarrow> (Inl (Indeterminate, Some obs), s)))"
            using lk lkok ld ldok ok Inr io l4 by (auto simp: file_commit_def w_def split: write_outcome.splits)
          show ?thesis
            using assms run Inr cc ok c3 w s2 s4
            by (auto split: write_outcome.splits sum.splits)
        qed
      qed
    qed
  qed
qed

interpretation fstore: goal_store dp f_session "file_load dp" "file_commit dp" "file_content dp"
proof unfold_locales
  show "f_session s' = f_session s" if "file_load dp s = (r, s')" for s r s'
    using file_load_frame [OF that] by simp
  show "f_session s' = f_session s" if "file_commit dp s n f = (r, s')" for s n f r s'
    using file_commit_cases [OF that] by blast
  show "wf_envelope dp (f_session s) e" if "file_content dp s = Some e" for s e
    using that by (rule file_content_wf)
  show "file_content dp s' = file_content dp s" if "file_load dp s = (r, s')" for s r s'
    using that by (rule file_load_content)
  show "file_content dp s = Some e" if "file_load dp s = (Inr e, s')" for s e s'
    using that by (rule file_load_ok)
  show "file_content dp s' = Some e \<and> (\<exists>c. file_content dp s = Some c \<and> revision c = n \<and>
      validate_envelope dp (envelope_json (stamp n (f c))) (f_session s) = Inr e)"
    if "file_commit dp s n f = (Inr e, s')" for s n f e s'
    using file_commit_cases [OF that] by auto
  show "file_content dp s' = file_content dp s"
    if "file_commit dp s n f = (Inl (code, obs), s')" "code \<noteq> Indeterminate" for s n f code obs s'
    using file_commit_cases [OF that(1)] that(2) by auto
  show "\<exists>c e. file_content dp s = Some c \<and> revision c = n \<and> file_content dp s' = Some e \<and>
      validate_envelope dp (envelope_json (stamp n (f c))) (f_session s) = Inr e"
    if "file_commit dp s n f = (Inl (Indeterminate, obs), s')" for s n f obs s'
    using file_commit_cases [OF that] by auto
qed

section \<open>Interleaved lock acquisition\<close>

text \<open>
  \<open>acquireLock\<close> reads the lock file, may unlink it, and then creates it exclusively; another
  process can run between these file operations. Processes are numbered; \<open>dead q\<close> says that the
  owner \<open>q\<close> recorded in a lock file is positively absent on this host. One rule per file
  operation and outcome; \<open>releaseLock\<close> stops holding, reads the file and unlinks it by its path
  when it was its own.
\<close>

datatype lock_pc = P_idle | P_stale_seen | P_creating | P_held | P_own_seen

record lock_sys =
  ls_file :: "nat option"
  ls_pc :: "nat \<Rightarrow> lock_pc"

definition set_pc :: "nat \<Rightarrow> lock_pc \<Rightarrow> lock_sys \<Rightarrow> lock_sys" where
  "set_pc p c s = s\<lparr>ls_pc := (ls_pc s)(p := c)\<rparr>"

inductive lock_step :: "(nat \<Rightarrow> bool) \<Rightarrow> lock_sys \<Rightarrow> lock_sys \<Rightarrow> bool" for dead where
  read_absent: "ls_pc s p = P_idle \<Longrightarrow> ls_file s = None \<Longrightarrow> \<not> dead p \<Longrightarrow>
     lock_step dead s (set_pc p P_creating s)"
| read_stale: "ls_pc s p = P_idle \<Longrightarrow> ls_file s = Some q \<Longrightarrow> q \<noteq> p \<Longrightarrow> dead q \<Longrightarrow> \<not> dead p \<Longrightarrow>
     lock_step dead s (set_pc p P_stale_seen s)"
| unlink_stale: "ls_pc s p = P_stale_seen \<Longrightarrow> ls_file s = Some q \<Longrightarrow>
     lock_step dead s (set_pc p P_creating (s\<lparr>ls_file := None\<rparr>))"
| unlink_missing: "ls_pc s p = P_stale_seen \<Longrightarrow> ls_file s = None \<Longrightarrow>
     lock_step dead s (set_pc p P_idle s)"
| create: "ls_pc s p = P_creating \<Longrightarrow> ls_file s = None \<Longrightarrow>
     lock_step dead s (set_pc p P_held (s\<lparr>ls_file := Some p\<rparr>))"
| create_exists: "ls_pc s p = P_creating \<Longrightarrow> ls_file s = Some q \<Longrightarrow>
     lock_step dead s (set_pc p P_idle s)"
| release: "ls_pc s p = P_held \<Longrightarrow> ls_file s = Some p \<Longrightarrow>
     lock_step dead s (set_pc p P_own_seen s)"
| unlink_own: "ls_pc s p = P_own_seen \<Longrightarrow>
     lock_step dead s (set_pc p P_idle (s\<lparr>ls_file := None\<rparr>))"
| release_foreign: "ls_pc s p = P_held \<Longrightarrow> ls_file s \<noteq> Some p \<Longrightarrow>
     lock_step dead s (set_pc p P_idle s)"

inductive lock_reachable :: "(nat \<Rightarrow> bool) \<Rightarrow> nat option \<Rightarrow> lock_sys \<Rightarrow> bool" for dead l0 where
  start: "lock_reachable dead l0 \<lparr>ls_file = l0, ls_pc = (\<lambda>_. P_idle)\<rparr>"
| step: "lock_reachable dead l0 s \<Longrightarrow> lock_step dead s t \<Longrightarrow> lock_reachable dead l0 t"

inductive_cases lock_stepE: "lock_step dead s t"

lemma set_pc_simps [simp]:
  "ls_pc (set_pc p c s) q = (if q = p then c else ls_pc s q)" "ls_file (set_pc p c s) = ls_file s"
  by (simp_all add: set_pc_def)

text \<open>
  The invariant of a run that starts without a lock left by a dead process: nobody ever sees a
  stale lock, and whoever holds the lock is named in the file.
\<close>

definition lock_inv :: "(nat \<Rightarrow> bool) \<Rightarrow> lock_sys \<Rightarrow> bool" where
  "lock_inv dead s \<longleftrightarrow>
     (\<forall>p. ls_pc s p \<noteq> P_stale_seen) \<and> (\<forall>p. ls_pc s p = P_held \<or> ls_pc s p = P_own_seen \<longrightarrow> ls_file s = Some p) \<and>
     (\<forall>q. ls_file s = Some q \<longrightarrow> \<not> dead q) \<and> (\<forall>p. ls_pc s p \<noteq> P_idle \<longrightarrow> \<not> dead p)"

lemma lock_inv_excludes: "lock_inv dead s \<Longrightarrow> ls_pc s p = P_held \<Longrightarrow> ls_pc s q = P_held \<Longrightarrow> p = q"
  unfolding lock_inv_def by (metis option.inject)

lemma lock_step_inv: "lock_step dead s t \<Longrightarrow> lock_inv dead s \<Longrightarrow> lock_inv dead t"
proof (induction rule: lock_step.induct)
  case (unlink_own s p)
  have "ls_pc s q \<noteq> P_held \<and> ls_pc s q \<noteq> P_own_seen" if "q \<noteq> p" for q
    using unlink_own that unfolding lock_inv_def by (metis option.inject)
  with unlink_own show ?case unfolding lock_inv_def by clarsimp
next
  case (release s p)
  have "ls_pc s q \<noteq> P_held \<and> ls_pc s q \<noteq> P_own_seen" if "q \<noteq> p" for q
    using release that unfolding lock_inv_def by (metis option.inject)
  with release show ?case unfolding lock_inv_def by auto
next
  case (release_foreign s p)
  then show ?case unfolding lock_inv_def by auto
qed (unfold lock_inv_def, clarsimp+)

lemma lock_reachable_inv:
  assumes "lock_reachable dead l0 s" and "\<And>q. l0 = Some q \<Longrightarrow> \<not> dead q"
  shows "lock_inv dead s"
  using assms(1)
proof (induction rule: lock_reachable.induct)
  case start
  with assms(2) show ?case by (simp add: lock_inv_def)
next
  case (step s t)
  then show ?case by (blast intro: lock_step_inv)
qed

section \<open>Properties\<close>

text \<open>
  What a session does with its store, one operation after the other, and the commits of it that
  installed an envelope: the revision each was made for, its change and the content it left.
\<close>

datatype file_op = Op_commit int "envelope \<Rightarrow> envelope" | Op_load | Op_lock | Op_unlock

type_synonym commit_log = "(int \<times> (envelope \<Rightarrow> envelope) \<times> envelope option) list"

definition file_do :: "(jstring \<Rightarrow> bool) \<Rightarrow> file_op \<Rightarrow> file_store \<Rightarrow> commit_log \<times> file_store" where
  "file_do dp x s =
     (case x of
        Op_commit n f \<Rightarrow> (case file_commit dp s n f of (r, s') \<Rightarrow> (if installed r then [(n, f, file_content dp s')] else [], s'))
      | Op_load \<Rightarrow> ([], snd (file_load dp s))
      | Op_lock \<Rightarrow> ([], snd (file_acquire_lock s))
      | Op_unlock \<Rightarrow> ([], file_release_lock s))"

fun file_history :: "(jstring \<Rightarrow> bool) \<Rightarrow> file_op list \<Rightarrow> file_store \<Rightarrow> commit_log \<times> file_store" where
  "file_history dp [] s = ([], s)"
| "file_history dp (x # xs) s =
     (case file_do dp x s of (l, s1) \<Rightarrow> case file_history dp xs s1 of (m, s2) \<Rightarrow> (l @ m, s2))"

text \<open>
  The abstract store: one envelope, replaced by the validated change of itself under the next
  revision.
\<close>

fun linear_history :: "(jstring \<Rightarrow> bool) \<Rightarrow> jstring \<Rightarrow> envelope \<Rightarrow> commit_log \<Rightarrow> envelope option \<Rightarrow> bool" where
  "linear_history dp sid c [] final = (final = Some c)"
| "linear_history dp sid c ((n, f, after) # l) final =
     (\<exists>e. after = Some e \<and> revision c = n \<and> revision e = n + 1 \<and>
       validate_envelope dp (envelope_json (stamp n (f c))) sid = Inr e \<and> linear_history dp sid e l final)"

lemma linear_revisions:
  "linear_history dp sid c l final \<Longrightarrow> map fst l = map (\<lambda>k. revision c + int k) [0..<length l]"
proof (induction l arbitrary: c)
  case (Cons x l)
  obtain n f after where x: "x = (n, f, after)" by (cases x)
  with Cons.prems obtain e where e: "revision c = n" "revision e = n + 1" "linear_history dp sid e l final" by auto
  have "map (\<lambda>k. revision c + int k) [0..<Suc (length l)] = n # map (\<lambda>k. revision e + int k) [0..<length l]"
    unfolding upt_conv_Cons [OF zero_less_Suc] by (simp add: e map_Suc_upt [symmetric] del: upt_Suc)
  then show ?case using Cons.IH [OF e(3)] by (simp add: x del: upt_Suc)
qed simp

lemma file_release_frame: "f_session (file_release_lock s) = f_session s \<and> file_content dp (file_release_lock s) = file_content dp s"
  by (auto simp: file_release_lock_def next_io_def Let_def file_content_def split: option.splits)

lemma file_do_linear:
  assumes "file_content dp s = Some c" and "file_do dp x s = (l, s')"
  shows "f_session s' = f_session s \<and> linear_history dp (f_session s) c l (file_content dp s') \<and> length l \<le> 1"
proof (cases x)
  case (Op_commit n f)
  obtain r t where r: "file_commit dp s n f = (r, t)" by fastforce
  show ?thesis
    using assms fstore.session_commit [OF r] fstore.commit_installed [OF r] fstore.commit_not_installed [OF r]
    by (cases "installed r") (auto simp: file_do_def Op_commit r)
next
  case Op_load
  then show ?thesis using assms file_load_frame [of dp s "fst (file_load dp s)" s'] file_load_content [of dp s "fst (file_load dp s)" s']
    by (cases "file_load dp s") (auto simp: file_do_def)
next
  case Op_lock
  obtain r t where r: "file_acquire_lock s = (r, t)" by fastforce
  then have "file_content dp t = file_content dp s" using file_acquire_lock_frame [OF r] by (intro file_content_cong) auto
  then show ?thesis using assms file_acquire_lock_frame [OF r] by (auto simp: file_do_def Op_lock r)
next
  case Op_unlock
  then show ?thesis using assms file_release_frame by (auto simp: file_do_def)
qed

text \<open>
  C1. The file store is a linear history. Whatever a session does (commits against any revisions,
  loads, taking and giving back the lock) and whatever I/O faults occur, the commits that install
  are for the stored revision, the next, and so on, each once and in order; each leaves the
  validated change of what the one before left, under the next revision; and a commit that is
  refused or fails, like every other operation, leaves the content as it was.
\<close>

theorem file_history_linear:
  assumes "file_content dp s = Some c" and "file_history dp xs s = (made, s')"
  shows "map fst made = map (\<lambda>k. revision c + int k) [0..<length made] \<and>
    linear_history dp (f_session s) c made (file_content dp s')"
proof -
  have "linear_history dp (f_session s) c made (file_content dp s')"
    using assms
  proof (induction xs arbitrary: s c made)
    case (Cons x xs)
    obtain l s1 where l: "file_do dp x s = (l, s1)" by fastforce
    obtain m s2 where m: "file_history dp xs s1 = (m, s2)" by fastforce
    have made: "made = l @ m" "s' = s2" using Cons.prems(2) l m by auto
    note one = file_do_linear [OF Cons.prems(1) l]
    have m1: "linear_history dp (f_session s1) d m (file_content dp s2)" if "file_content dp s1 = Some d" for d
      using Cons.IH [OF that m [folded made(2)]] made(2) by simp
    show ?case
    proof (cases l)
      case Nil
      then show ?thesis using one m1 made by auto
    next
      case (Cons y l')
      then have "l = [y]" using one by simp
      then show ?thesis using one m1 made by (cases y) auto
    qed
  qed simp
  then show ?thesis using linear_revisions by blast
qed

text \<open>
  The revision counts the installed commits: after any sequence of commits under any I/O
  faults the stored envelope is still valid for the session and its revision has grown by exactly
  the number of commits that installed (successfully or with unknown durability).
\<close>

theorem file_commits_counted:
  assumes "file_content dp s = Some c" and "run_commits (file_commit dp) cs s = (rs, s')"
  shows "\<exists>c'. file_content dp s' = Some c' \<and> wf_envelope dp (f_session s') c' \<and>
    revision c' = revision c + int (length (filter installed rs))"
  using fstore.run_commits_revision [OF assms] file_content_wf by blast

definition good_io :: io_env where
  "good_io = \<lparr>io_read_ok = True, io_lock_read_ok = True, io_unlink_ok = True, io_create_ok = True,
     io_alive = (\<lambda>_. None), io_write = Write_ok\<rparr>"

definition fresh_file :: "jstring \<Rightarrow> file_store" where
  "fresh_file sid = \<lparr>f_pid = 7, f_host = js ''h'', f_owner = js ''o'', f_session = sid, f_held = False,
     f_expected = False, f_side = None, f_lock = No_lock, f_io = (\<lambda>_. good_io), f_tick = 0\<rparr>"

lemma fresh_file_content: "file_content dp (fresh_file sid) = Some (empty_envelope sid)"
  by (simp add: file_content_def fresh_file_def)

lemma wf_stamp_empty: "wf_envelope dp sid (stamp 0 (empty_envelope sid))"
  by (simp add: wf_envelope_def stamp_def empty_envelope_def max_safe_def)

lemma fresh_file_commit: "installed (fst (file_commit dp (fresh_file sid) 0 id))"
proof -
  have "revision (empty_envelope sid) = 0" "e_session (empty_envelope sid) = sid"
    by (simp_all add: empty_envelope_def)
  with validate_envelope_json [OF wf_stamp_empty] show ?thesis
    by (simp add: file_commit_def file_acquire_lock_def next_io_def read_lock_file_def create_lock_def
        good_io_def fresh_file_def file_load_def)
qed

text \<open>
  A healthy file store: every I/O step succeeds, the lock is free or our own, and the sidecar holds
  a well-formed envelope.
\<close>

definition healthy :: "(jstring \<Rightarrow> bool) \<Rightarrow> file_store \<Rightarrow> envelope \<Rightarrow> bool" where
  "healthy dp s e \<longleftrightarrow>
     (\<forall>k. f_io s k = good_io) \<and> (f_lock s = No_lock \<or> f_lock s = Locked_by (my_lock s)) \<and>
     f_side s = Some (Parsed (envelope_json e)) \<and> wf_envelope dp (f_session s) e"

lemma healthy_content: "healthy dp s e \<Longrightarrow> file_content dp s = Some e"
  by (simp add: healthy_def file_content_def)

lemma healthy_load:
  assumes "healthy dp s e"
  shows "\<exists>s'. file_load dp s = (Inr e, s') \<and> healthy dp s' e \<and> f_session s' = f_session s"
  using assms by (auto simp: healthy_def file_load_def next_io_def good_io_def my_lock_def)

lemma healthy_lock:
  assumes "healthy dp s e"
  shows "\<exists>s'. file_acquire_lock s = (Inr (), s') \<and> healthy dp s' e \<and> f_session s' = f_session s"
  using assms by (auto simp: healthy_def file_acquire_lock_def next_io_def good_io_def my_lock_def
      read_lock_file_def create_lock_def own_lock_def)

lemma healthy_commit_installs:
  assumes h: "healthy dp s e" and wf: "wf_envelope dp (f_session s) (stamp (revision e) (f e))"
  shows "\<exists>s'. file_commit dp s (revision e) f = (Inr (stamp (revision e) (f e)), s') \<and>
    healthy dp s' (stamp (revision e) (f e)) \<and> f_session s' = f_session s"
proof -
  obtain s1 where l: "file_acquire_lock s = (Inr (), s1)" "healthy dp s1 e" "f_session s1 = f_session s"
    using healthy_lock [OF h] by blast
  obtain s2 where o: "file_load dp s1 = (Inr e, s2)" "healthy dp s2 e" "f_session s2 = f_session s"
    using healthy_load [OF l(2)] l(3) by auto
  have "e_session (f e) = f_session s" using wf by (simp add: wf_envelope_def)
  with l o validate_envelope_json [OF wf] wf show ?thesis
    by (auto simp: file_commit_def next_io_def healthy_def good_io_def my_lock_def)
qed

text \<open>
  A healthy store makes progress: a commit at the stored revision whose mutation keeps the
  envelope well formed succeeds, returns the stamped envelope, and leaves the store healthy with
  exactly that envelope in it.
\<close>

theorem healthy_commit_succeeds:
  assumes h: "healthy dp s e" and wf: "wf_envelope dp (f_session s) (stamp (revision e) (f e))"
  shows "\<exists>s'. file_commit dp s (revision e) f = (Inr (stamp (revision e) (f e)), s') \<and>
    healthy dp s' (stamp (revision e) (f e)) \<and> f_session s' = f_session s"
  using assms by (rule healthy_commit_installs)

definition sample_file :: file_store where
  "sample_file = (fresh_file (js ''s1''))\<lparr>f_side := Some (Parsed (envelope_json sample_envelope))\<rparr>"

lemma healthy_sample: "healthy (\<lambda>_. True) sample_file sample_envelope"
  using wf_sample_envelope by (simp add: healthy_def sample_file_def fresh_file_def)

theorem healthy_commit_succeeds_witness:
  "\<exists>s'. file_commit (\<lambda>_. True) sample_file 5 id = (Inr (stamp 5 sample_envelope), s')"
proof -
  have r: "revision sample_envelope = 5" "f_session sample_file = js ''s1''"
    by (simp_all add: sample_envelope_def sample_file_def fresh_file_def)
  have "wf_envelope (\<lambda>_. True) (f_session sample_file) (stamp (revision sample_envelope) (id sample_envelope))"
    using wf_envelope_stamp [OF wf_sample_envelope, of 5] by (simp add: r max_safe_def)
  from healthy_commit_succeeds [where f = id, OF healthy_sample this] r show ?thesis by auto
qed

theorem file_history_linear_witness:
  "\<exists>made s'. file_history (\<lambda>_. True) [Op_commit 0 id, Op_load, Op_commit 0 id] (fresh_file (js ''s1'')) = (made, s') \<and>
     map fst made = map int [0..<length made] \<and> made \<noteq> []"
proof -
  let ?s = "fresh_file (js ''s1'')" and ?dp = "\<lambda>_. True"
  obtain made s' where h: "file_history ?dp [Op_commit 0 id, Op_load, Op_commit 0 id] ?s = (made, s')" by fastforce
  have "made \<noteq> []" using h fresh_file_commit [of ?dp "js ''s1''"] by (auto simp: file_do_def split: prod.splits if_splits)
  then show ?thesis using file_history_linear [OF fresh_file_content h] h by (auto simp: empty_envelope_def)
qed

theorem file_commits_counted_witness:
  "\<exists>c' rs s'. run_commits (file_commit (\<lambda>_. True)) [(0, id), (0, id)] (fresh_file (js ''s1'')) = (rs, s') \<and>
     file_content (\<lambda>_. True) s' = Some c' \<and> revision c' = int (length (filter installed rs))"
proof -
  obtain rs s' where run: "run_commits (file_commit (\<lambda>_. True)) [(0, id), (0, id)] (fresh_file (js ''s1'')) = (rs, s')"
    by fastforce
  from file_commits_counted [OF fresh_file_content run] run show ?thesis
    by (auto simp: empty_envelope_def)
qed

text \<open>
  C28. The lock excludes: when no lock file was left behind by a dead process, no interleaving of
  the file operations of any number of processes lets two of them hold the writer lock.
\<close>

theorem lock_mutual_exclusion:
  assumes "lock_reachable dead l0 s" and "\<And>q. l0 = Some q \<Longrightarrow> \<not> dead q"
    and "ls_pc s p = P_held" and "ls_pc s q = P_held"
  shows "p = q"
  using lock_reachable_inv [OF assms(1,2)] assms(3,4) by (rule lock_inv_excludes)

definition held_by_one :: lock_sys where
  "held_by_one = set_pc 1 P_held ((set_pc 1 P_creating \<lparr>ls_file = None, ls_pc = (\<lambda>_. P_idle)\<rparr>)\<lparr>ls_file := Some 1\<rparr>)"

lemma lock_reachable_hold: "lock_reachable (\<lambda>_. False) None held_by_one"
proof -
  let ?s0 = "\<lparr>ls_file = None, ls_pc = (\<lambda>_. P_idle)\<rparr>"
  have "lock_reachable (\<lambda>_. False) None (set_pc 1 P_creating ?s0)"
    by (rule lock_reachable.step [OF lock_reachable.start]) (rule lock_step.read_absent, simp_all)
  then show ?thesis unfolding held_by_one_def
    by (rule lock_reachable.step) (rule lock_step.create, simp_all)
qed

theorem lock_mutual_exclusion_witness:
  "ls_pc held_by_one 1 = P_held \<and> ls_pc held_by_one 2 \<noteq> P_held"
proof -
  have h: "ls_pc held_by_one 1 = P_held" by (simp add: held_by_one_def)
  have "q = 1" if "ls_pc held_by_one q = P_held" for q
    by (rule lock_mutual_exclusion [OF lock_reachable_hold _ that h]) simp
  from this [of 2] h show ?thesis by auto
qed

text \<open>
  The stale-lock recovery is not atomic: with the lock file of a dead process in place, two
  live processes can both end up holding the lock, because each may unlink whatever file is there
  after having seen the stale one.
\<close>

theorem stale_lock_race:
  "\<exists>s. lock_reachable (\<lambda>q. q = 0) (Some 0) s \<and> ls_pc s 1 = P_held \<and> ls_pc s 2 = P_held"
proof -
  let ?dead = "\<lambda>q::nat. q = 0"
  let ?s0 = "\<lparr>ls_file = Some 0, ls_pc = (\<lambda>_. P_idle)\<rparr>"
  have "lock_reachable ?dead (Some 0) (set_pc 1 P_stale_seen ?s0)" (is "lock_reachable _ _ ?s1")
    by (rule lock_reachable.step [OF lock_reachable.start]) (rule lock_step.read_stale [where q = 0], simp_all)
  then have "lock_reachable ?dead (Some 0) (set_pc 2 P_stale_seen ?s1)" (is "lock_reachable _ _ ?s2")
    by (rule lock_reachable.step) (rule lock_step.read_stale [where q = 0], simp_all)
  then have "lock_reachable ?dead (Some 0) (set_pc 1 P_creating (?s2\<lparr>ls_file := None\<rparr>))" (is "lock_reachable _ _ ?s3")
    by (rule lock_reachable.step) (rule lock_step.unlink_stale [where q = 0], simp_all)
  then have "lock_reachable ?dead (Some 0) (set_pc 1 P_held (?s3\<lparr>ls_file := Some 1\<rparr>))" (is "lock_reachable _ _ ?s4")
    by (rule lock_reachable.step) (rule lock_step.create, simp_all)
  then have "lock_reachable ?dead (Some 0) (set_pc 2 P_creating (?s4\<lparr>ls_file := None\<rparr>))" (is "lock_reachable _ _ ?s5")
    by (rule lock_reachable.step) (rule lock_step.unlink_stale [where q = 1], simp_all)
  then have "lock_reachable ?dead (Some 0) (set_pc 2 P_held (?s5\<lparr>ls_file := Some 2\<rparr>))"
    by (rule lock_reachable.step) (rule lock_step.create, simp_all)
  then show ?thesis by (intro exI conjI) (assumption, simp_all)
qed

end
