(* ===== verification/ControllerSafety.thy ===== *)
theory ControllerSafety
  imports GoalController FileStore
begin

text \<open>
  What the goal controller guarantees over the production store: the facts proved in
  \<open>GoalController\<close> for any store that keeps the contract, at the file store of \<open>FileStore\<close>, whatever
  the operating system answers. \<open>file_ops\<close> are the operations the controller is constructed with.
\<close>

definition file_ops :: "(jstring \<Rightarrow> bool) \<Rightarrow> file_store store_ops" where
  "file_ops dp = store_ops_of f_session (file_load dp) (file_commit dp)"

interpretation fctl: goal_client dp f_session "file_load dp" "file_commit dp" "file_content dp"
  by (rule goal_client.intro) (rule fstore.goal_store_axioms)

section \<open>Admission\<close>

text \<open>
  Autonomous work is admitted exactly when admission is enabled, no recovery is pending, the
  loaded envelope has an active goal with budget left and no outstanding dispatch, and the session
  is idle with no user input queued.
\<close>

theorem can_admit_exactly:
  "fst (can_admit (check_admission view e c)) \<longleftrightarrow>
     \<not> c_disabled c \<and> \<not> c_recovery c \<and> v_idle view \<and> \<not> v_pending view \<and>
     (\<exists>env g. e = Some env \<and> goal env = Some g \<and> gstatus g = Active \<and> dispatch env = None \<and>
        (token_budget g = None \<or> (\<exists>b. token_budget g = Some b \<and> tokens_used g < b)))"
  by (cases e; cases "Option.bind e goal")
     (auto simp: can_admit_def check_admission_def is_active_record_def budget_permits_def split: option.splits)

text \<open>
  C2. One dispatch per revision: a successful admission has stored an admitted dispatch of this
  session for this goal under the freshly drawn id, at the next revision; another admission from
  the envelope the first one used is refused, by whichever controller and clock it is made, and
  leaves the stored dispatch alone.
\<close>

theorem admission_is_exclusive:
  assumes "admit_dispatch (file_ops dp) env e view c = (Inr e1, c1)"
    and "file_content dp (c_store c2) = file_content dp (c_store c1)"
    and "admit_dispatch (file_ops dp) env2 e view2 c2 = (r, c3)"
  shows "file_content dp (c_store c1) = Some e1 \<and> revision e1 = revision e + 1 \<and>
    (\<exists>g d. goal e = Some g \<and> gstatus g = Active \<and> dispatch e1 = Some d \<and> d_phase d = Admitted \<and>
      dispatch_id d = ce_id env (c_ids c) \<and> d_session d = v_session view \<and> d_goal d = gid g) \<and>
    (\<exists>er. r = Inl er) \<and> file_content dp (c_store c3) = Some e1"
proof -
  from fctl.admit_dispatch_admits [OF assms(1) [unfolded file_ops_def]]
  have one: "file_content dp (c_store c1) = Some e1 \<and> revision e1 = revision e + 1 \<and>
    (\<exists>g d. goal e = Some g \<and> gstatus g = Active \<and> dispatch e1 = Some d \<and> d_phase d = Admitted \<and>
      dispatch_id d = ce_id env (c_ids c) \<and> d_session d = v_session view \<and> d_goal d = gid g)"
    by blast
  with fctl.admit_dispatch_stale [OF _ _ assms(3) [unfolded file_ops_def], of e1] assms(2) show ?thesis
    by simp
qed

text \<open>
  C4. A continuation is delivered only on authority: whatever the store holds, either nothing is
  put in the outbox, or exactly one instruction is, and then the stored envelope has the revision
  the caller saw and an active goal, nothing invalidated the admission since, no user input is
  queued, and the dispatch named is the admitted one of this session and goal.
\<close>

theorem delivery_is_authorised:
  "case deliver_continuation (file_ops dp) env e view gen c of
     (Inl _, c') \<Rightarrow> c_outbox c' = c_outbox c
   | (Inr did, c') \<Rightarrow> \<exists>auth ag g d. file_content dp (c_store c) = Some auth \<and> revision auth = revision e \<and>
       goal auth = Some ag \<and> gstatus ag = Active \<and> gen = c_generation c \<and> \<not> v_pending view \<and>
       goal e = Some g \<and> dispatch e = Some d \<and> did = dispatch_id d \<and> d_session d = v_session view \<and>
       d_goal d = gid g \<and>
       c_outbox c' = c_outbox c @ [Instruction (Continuation g (revision e) (Suc (c_executions c)))
         \<lparr>dt_session = v_session view, dt_goal = gid g, dt_revision = revision e, dt_dispatch = Some did\<rparr>]"
proof -
  obtain r c' where r: "deliver_continuation (file_ops dp) env e view gen c = (r, c')" by fastforce
  from fctl.deliver_continuation_cases [OF this [unfolded file_ops_def]] r show ?thesis
    by (auto split: sum.splits)
qed

text \<open>
  C36. A terminal transition (complete, blocked, budget or usage limited) cancels what was about
  to be delivered: the stored goal is no longer active, its dispatch is gone, and a delivery whose
  admission was checked before the transition is refused without sending anything.
\<close>

theorem terminal_transition_cancels_delivery:
  assumes "apply_terminal_transition (file_ops dp) env e kind c = (Inr e1, c1)"
    and "deliver_continuation (file_ops dp) env e2 view (c_generation c) c1 = (r, c2)"
  shows "file_content dp (c_store c1) = Some e1 \<and> dispatch e1 = None \<and>
    (\<exists>g. goal e1 = Some g \<and> gstatus g \<noteq> Active) \<and> (\<exists>er. r = Inl er) \<and> c_outbox c2 = c_outbox c"
  using fctl.apply_terminal_stores [OF assms(1) [unfolded file_ops_def]]
    fctl.deliver_continuation_cases [OF assms(2) [unfolded file_ops_def]]
  by (auto split: sum.splits)

section \<open>Accounting\<close>

text \<open>
  C3. Accounting stores exactly what the entries since the baseline cost: the stored goal keeps its
  identity and budget, its tokens grow by the first chargeable report of every entry not charged
  before, an active goal that reaches its budget becomes \<open>budget_limited\<close> (and only then), and
  accounting again over the same entries charges nothing.
\<close>

theorem accounting_charges_once:
  assumes "file_content dp (c_store c) = Some e" and "goal e = Some g"
    and "account (file_ops dp) env e view fin c = (Inr r, c1)"
    and "account (file_ops dp) env (ar_envelope r) view fin2 c1 = (Inr r2, c2)"
  shows "file_content dp (c_store c1) = Some (ar_envelope r) \<and>
    (\<exists>g1. goal (ar_envelope r) = Some g1 \<and> gid g1 = gid g \<and> token_budget g1 = token_budget g \<and>
      tokens_used g1 = tokens_used g + entries_charge
        (slice_from (case baseline_count e of None \<Rightarrow> 0 | Some b \<Rightarrow> b) (v_entries view)) (set (charged_ids e)) \<and>
      gstatus g1 = (if gstatus g = Active \<and> (\<exists>b. token_budget g = Some b \<and> b \<le> tokens_used g1)
                    then Budget_limited else gstatus g)) \<and>
    map_option tokens_used (goal (ar_envelope r2)) = map_option tokens_used (goal (ar_envelope r)) \<and>
    charged_ids (ar_envelope r2) = charged_ids (ar_envelope r)"
proof -
  note acc = assms(3) [unfolded file_ops_def] and again = assms(4) [unfolded file_ops_def]
  show ?thesis
    using fctl.account_settles [OF assms(1,2) acc] fctl.account_again [OF assms(1,2) acc again] by blast
qed

text \<open>
  A failed accounting stops autonomous work: admission is disabled and recovery is required, so
  that nothing can be admitted whatever is loaded next, and unless the store itself does not know
  whether the write is durable, or the failure came after the commit, nothing was stored.
\<close>

theorem failed_accounting_stops_work:
  assumes "account (file_ops dp) env e view fin c = (Inl er, c1)"
  shows "\<not> fst (can_admit (check_admission view2 e2 c1)) \<and> c_outbox c1 = c_outbox c \<and>
    (er = Transcript_failed \<or> er = Accounting_failed Indeterminate \<or>
     (\<exists>code. er = Accounting_failed code) \<and> file_content dp (c_store c1) = file_content dp (c_store c))"
proof -
  note bad = assms [unfolded file_ops_def]
  have "er = Transcript_failed \<or> (\<exists>code. er = Accounting_failed code)"
    using bad by (auto simp: account_def Let_def split: option.splits prod.splits sum.splits if_splits bool.splits)
  with fctl.account_fails [OF bad] show ?thesis
    by (auto simp: can_admit_def check_admission_def)
qed

section \<open>Recovery\<close>

text \<open>
  After a restart nothing runs on a doubtful state: when the store cannot be loaded, or what it
  holds has an outstanding dispatch, no session view whatsoever is admitted until recovery is
  marked complete; loading changes neither the stored envelope nor the outbox.
\<close>

theorem doubtful_state_is_not_admitted:
  assumes "load_state (file_ops dp) c = ((x, er), c1)"
    and "er \<noteq> None \<or> (\<exists>e. x = Some e \<and> dispatch e \<noteq> None)"
  shows "\<not> fst (can_admit (check_admission view y c1)) \<and>
    file_content dp (c_store c1) = file_content dp (c_store c) \<and> c_outbox c1 = c_outbox c"
proof -
  note ld = assms(1) [unfolded file_ops_def]
  have "c_recovery c1 \<or> c_disabled c1"
    using fctl.load_state_unusable [OF ld] fctl.load_state_dispatch ld assms(2) by blast
  with fctl.load_state_frame [OF ld] show ?thesis by (auto simp: can_admit_def check_admission_def)
qed

text \<open>
  The empty-response guard: in any run of settled outcomes of a fresh controller, the verdict
  after the k-th is \<open>blocked\<close> exactly when it is preceded by at least two, and it and the two before
  it are all empty; and the streak counts the empty outcomes at the end.
\<close>

theorem empty_response_guard:
  "case settle_outcomes outs (new_controller st) of (bs, c) \<Rightarrow>
     c_streak c = empty_tail outs \<and> length bs = length outs \<and>
     bs = map (\<lambda>k. 3 \<le> empty_tail (take (Suc k) outs)) [0..<length outs]"
proof -
  obtain bs c where r: "settle_outcomes outs (new_controller st) = (bs, c)" by fastforce
  from settle_outcomes_streak [OF _ r] r show ?thesis by (simp add: new_controller_def)
qed

section \<open>Progress\<close>

lemma ctl_commit_file:
  assumes "healthy dp (c_store c) e" and "wf_envelope dp (f_session (c_store c)) (stamp (revision e) (f e))"
  shows "\<exists>st. ctl_commit (file_ops dp) (revision e) f c = (Inr (stamp (revision e) (f e)), c\<lparr>c_store := st\<rparr>) \<and>
    healthy dp st (stamp (revision e) (f e)) \<and> f_session st = f_session (c_store c)"
proof -
  obtain st where "file_commit dp (c_store c) (revision e) f = (Inr (stamp (revision e) (f e)), st)"
    "healthy dp st (stamp (revision e) (f e))" "f_session st = f_session (c_store c)"
    using healthy_commit_installs [where f = f, OF assms] by blast
  then show ?thesis by (auto simp: ctl_commit_def file_ops_def)
qed

lemma ctl_load_file:
  assumes "healthy dp (c_store c) e"
  shows "\<exists>st. ctl_load (file_ops dp) c = (Inr e, c\<lparr>c_store := st\<rparr>)"
  using healthy_load [OF assms] by (auto simp: ctl_load_def file_ops_def)

lemma admit_then_deliver:
  assumes h: "healthy dp (c_store c) e" and g: "goal e = Some g" "gstatus g = Active" "dispatch e = None"
    and rev: "revision e < max_safe" and view: "v_session view = f_session (c_store c)" "\<not> v_pending view"
    and ports: "ce_id env (c_ids c) \<noteq> []" "v_session view \<noteq> []" "dp (ce_iso env (c_isos c))" "ce_send env (c_sends c)"
  shows "\<exists>e1 c1 c2. admit_dispatch (file_ops dp) env e view c = (Inr e1, c1) \<and>
    deliver_continuation (file_ops dp) env e1 view (c_generation c) c1 = (Inr (ce_id env (c_ids c)), c2) \<and>
    map_option dispatch_id (dispatch e1) = Some (ce_id env (c_ids c)) \<and>
    c_outbox c2 = c_outbox c @ [Instruction (Continuation g (revision e + 1) (Suc (c_executions c)))
      \<lparr>dt_session = v_session view, dt_goal = gid g, dt_revision = revision e + 1,
       dt_dispatch = Some (ce_id env (c_ids c))\<rparr>]"
proof -
  define d where "d = \<lparr>dispatch_id = ce_id env (c_ids c), d_session = v_session view, d_goal = gid g,
    d_revision = revision e, d_phase = Admitted, admitted_at = ce_iso env (c_isos c)\<rparr>"
  define f :: "envelope \<Rightarrow> envelope" where "f = (\<lambda>cur. cur\<lparr>dispatch := Some d\<rparr>)"
  define c0 where "c0 = c\<lparr>c_ids := Suc (c_ids c), c_isos := Suc (c_isos c)\<rparr>"
  define e1 where "e1 = stamp (revision e) (f e)"
  have wf0: "wf_envelope dp (f_session (c_store c)) e" using h by (simp add: healthy_def)
  have wf: "wf_envelope dp (f_session (c_store c)) e1"
    unfolding e1_def using wf0 rev
    by (intro wf_envelope_stamp)
       (use g ports view in \<open>auto simp: f_def d_def wf_envelope_def wf_dispatch_def wf_goal_def\<close>)
  obtain st where k: "ctl_commit (file_ops dp) (revision e) f c0 = (Inr e1, c0\<lparr>c_store := st\<rparr>)"
    "healthy dp st e1" using ctl_commit_file [of dp c0 e f] h wf by (auto simp: c0_def e1_def)
  define c1 where "c1 = c0\<lparr>c_store := st, c_committed := True\<rparr>"
  have a: "admit_dispatch (file_ops dp) env e view c = (Inr e1, c1)"
    using g k(1) by (simp add: admit_dispatch_def is_active_record_def make_dispatch_id_def now_iso_def
        f_def d_def c0_def c1_def)
  obtain st2 where l: "ctl_load (file_ops dp) c1 = (Inr e1, c1\<lparr>c_store := st2\<rparr>)"
    using ctl_load_file [of dp c1 e1] k(2) by (auto simp: c1_def)
  have e1: "goal e1 = Some g" "dispatch e1 = Some d" "revision e1 = revision e + 1"
    using g by (simp_all add: e1_def f_def)
  with a l g view ports(4) show ?thesis
    by (simp add: deliver_continuation_def send_def d_def c1_def c0_def Let_def)
qed

text \<open>
  C37. Admitted work is delivered, under these conditions: the store is healthy (no I/O fault, no
  foreign lock, a valid sidecar) and holds an active goal of this session with no dispatch
  outstanding, at a revision below the largest safe integer; the view is of this session and has no
  user input queued; the session and the dispatch id drawn are not empty, the clock gives a date,
  and the send port does not throw. Then admission succeeds, and the delivery that follows it puts
  exactly the continuation of that goal in the outbox, under the id of the stored dispatch.
\<close>

theorem admitted_work_is_delivered:
  assumes h: "healthy dp (c_store c) e" and g: "goal e = Some g" "gstatus g = Active" "dispatch e = None"
    and rev: "revision e < max_safe" and view: "v_session view = f_session (c_store c)" "\<not> v_pending view"
    and ports: "ce_id env (c_ids c) \<noteq> []" "v_session view \<noteq> []" "dp (ce_iso env (c_isos c))" "ce_send env (c_sends c)"
  shows "\<exists>e1 c1 c2. admit_dispatch (file_ops dp) env e view c = (Inr e1, c1) \<and>
    deliver_continuation (file_ops dp) env e1 view (c_generation c) c1 = (Inr (ce_id env (c_ids c)), c2) \<and>
    map_option dispatch_id (dispatch e1) = Some (ce_id env (c_ids c)) \<and>
    c_outbox c2 = c_outbox c @ [Instruction (Continuation g (revision e + 1) (Suc (c_executions c)))
      \<lparr>dt_session = v_session view, dt_goal = gid g, dt_revision = revision e + 1,
       dt_dispatch = Some (ce_id env (c_ids c))\<rparr>]"
  using assms by (rule admit_then_deliver)

section \<open>Witnesses\<close>

definition ready_envelope :: envelope where
  "ready_envelope = sample_envelope\<lparr>dispatch := None\<rparr>"

definition ready_ctl :: "file_store ctl" where
  "ready_ctl = new_controller (sample_file\<lparr>f_side := Some (Parsed (envelope_json ready_envelope))\<rparr>)"

definition sample_ports :: ctl_env where
  "sample_ports = \<lparr>ce_iso = (\<lambda>_. js ''t1''), ce_ms = of_nat, ce_id = (\<lambda>_. js ''d9''), ce_send = (\<lambda>_. True)\<rparr>"

definition sample_usage :: usage_like where
  "sample_usage = \<lparr>u_input = JNum (Fin 4), u_output = JNum (Fin 5), u_cacheRead = JUndef,
     u_cacheWrite = JUndef, u_reasoning = JUndef, u_totalTokens = JUndef\<rparr>"

definition sample_view :: session_view where
  "sample_view = \<lparr>v_session = js ''s1'',
     v_entries = [\<lparr>en_id = js ''m1'', en_type = js ''message'',
       en_message = Some \<lparr>em_role = js ''assistant'', em_usage = Some sample_usage\<rparr>\<rparr>],
     v_idle = True, v_pending = False\<rparr>"

abbreviation (input) any_date :: "jstring \<Rightarrow> bool" where
  "any_date \<equiv> \<lambda>_. True"

lemma ready_simps [simp]:
  "revision ready_envelope = 5" "goal ready_envelope = Some sample_goal" "dispatch ready_envelope = None"
  "charged_ids ready_envelope = []" "baseline_count ready_envelope = None" "e_remainder ready_envelope = 0"
  "c_ids ready_ctl = 0" "c_isos ready_ctl = 0" "c_sends ready_ctl = 0" "c_generation ready_ctl = 0"
  "c_running ready_ctl = None" "f_session (c_store ready_ctl) = js ''s1''"
  "c_outbox ready_ctl = []" "c_executions ready_ctl = 0"
  by (simp_all add: ready_envelope_def sample_envelope_def empty_envelope_def ready_ctl_def new_controller_def
      sample_file_def fresh_file_def)

lemma js_nonempty [simp]: "js s = [] \<longleftrightarrow> s = []"
  by (simp add: js_def)

lemma healthy_ready: "healthy any_date (c_store ready_ctl) ready_envelope"
proof -
  have "wf_envelope any_date (js ''s1'') ready_envelope"
    using wf_sample_envelope by (simp add: wf_envelope_def ready_envelope_def)
  then show ?thesis by (simp add: healthy_def ready_ctl_def new_controller_def sample_file_def fresh_file_def)
qed

theorem admitted_work_is_delivered_witness:
  "\<exists>e1 c1 c2. admit_dispatch (file_ops any_date) sample_ports ready_envelope sample_view ready_ctl = (Inr e1, c1) \<and>
     deliver_continuation (file_ops any_date) sample_ports e1 sample_view 0 c1 = (Inr (js ''d9''), c2) \<and>
     length (c_outbox c2) = 1"
  using admitted_work_is_delivered [OF healthy_ready, of sample_goal sample_view sample_ports]
  by (auto simp: sample_goal_def sample_view_def sample_ports_def max_safe_def)

lemma admit_ready:
  "\<exists>e1 c1. admit_dispatch (file_ops any_date) sample_ports ready_envelope sample_view ready_ctl = (Inr e1, c1)"
  using admit_then_deliver [OF healthy_ready, of sample_goal sample_view sample_ports]
  by (auto simp: sample_goal_def sample_view_def sample_ports_def max_safe_def)

theorem admission_is_exclusive_witness:
  "\<exists>e1 c1. admit_dispatch (file_ops any_date) sample_ports ready_envelope sample_view ready_ctl = (Inr e1, c1) \<and>
     revision e1 = 6 \<and>
     (\<exists>er. fst (admit_dispatch (file_ops any_date) sample_ports ready_envelope sample_view c1) = Inl er)"
proof -
  obtain e1 c1 where a: "admit_dispatch (file_ops any_date) sample_ports ready_envelope sample_view ready_ctl = (Inr e1, c1)"
    using admit_ready by blast
  obtain r c3 where b: "admit_dispatch (file_ops any_date) sample_ports ready_envelope sample_view c1 = (r, c3)"
    by fastforce
  from admission_is_exclusive [OF a refl b] a b show ?thesis by auto
qed

lemma terminal_ready:
  "\<exists>e1 c1. apply_terminal_transition (file_ops any_date) sample_ports ready_envelope K_complete ready_ctl = (Inr e1, c1)"
proof -
  let ?g = "sample_goal\<lparr>gstatus := Complete, updated_at := js ''t1''\<rparr>"
  define f :: "envelope \<Rightarrow> envelope" where "f = (\<lambda>cur. cur\<lparr>goal := Some ?g, dispatch := None\<rparr>)"
  have "wf_envelope any_date (js ''s1'') (f ready_envelope)"
    using wf_sample_envelope by (simp add: f_def ready_envelope_def wf_envelope_def wf_goal_def sample_envelope_def)
  then have "wf_envelope any_date (js ''s1'') (stamp 5 (f ready_envelope))"
    by (rule wf_envelope_stamp) (simp_all add: max_safe_def)
  then obtain st where "ctl_commit (file_ops any_date) 5 f (ready_ctl\<lparr>c_isos := 1\<rparr>) =
      (Inr (stamp 5 (f ready_envelope)), ready_ctl\<lparr>c_isos := 1, c_store := st\<rparr>)"
    using ctl_commit_file [of any_date "ready_ctl\<lparr>c_isos := 1\<rparr>" ready_envelope f] healthy_ready by auto
  then show ?thesis
    by (auto simp: apply_terminal_transition_def terminal_goal_def sample_ports_def f_def)
qed

theorem terminal_transition_cancels_delivery_witness:
  "\<exists>e1 c1. apply_terminal_transition (file_ops any_date) sample_ports ready_envelope K_complete ready_ctl = (Inr e1, c1) \<and>
     (\<exists>er. fst (deliver_continuation (file_ops any_date) sample_ports e1 sample_view 0 c1) = Inl er)"
proof -
  obtain e1 c1 where a: "apply_terminal_transition (file_ops any_date) sample_ports ready_envelope K_complete ready_ctl = (Inr e1, c1)"
    using terminal_ready by blast
  obtain r c2 where b: "deliver_continuation (file_ops any_date) sample_ports e1 sample_view (c_generation ready_ctl) c1 = (r, c2)"
    by fastforce
  from terminal_transition_cancels_delivery [OF a b] a b show ?thesis by auto
qed

lemma sample_tokens: "normalize_tokens sample_usage = Some 9"
  by (simp add: normalize_tokens_def sample_usage_def to_nonneg_number_def trunc_rat_def max_safe_def is_int_rat_def)

lemma account_healthy:
  assumes h: "healthy dp (c_store c) e" and g: "goal e = Some g" and run: "c_running c = None"
    and send: "\<And>k. ce_send env k"
    and en: "account_entries (slice_from base (v_entries view)) (tokens_used g) False (charged_ids e) = (t, u, ch)"
    and base: "base = (case baseline_count e of None \<Rightarrow> 0 | Some b \<Rightarrow> b)"
    and nx: "nx = g\<lparr>tokens_used := t, time_used := time_used g, updated_at := ce_iso env (c_isos c)\<rparr>"
    and sg: "settled_goal env nx (c\<lparr>c_isos := Suc (c_isos c)\<rparr>) = (fg, c3)"
    and wf: "wf_envelope dp (f_session (c_store c)) (account_mutation fg ch base (e_remainder e) True e)"
    and rev: "revision e < max_safe" "0 \<le> revision e"
  defines "e1 \<equiv> stamp (revision e) (account_mutation fg ch base (e_remainder e) True e)"
  shows "\<exists>c1. account (file_ops dp) env e view True c =
      (Inr \<lparr>ar_envelope = e1, ar_budget_hit = budget_hit nx, ar_unknown = u\<rparr>, c1) \<and>
     healthy dp (c_store c1) e1 \<and> f_session (c_store c1) = f_session (c_store c) \<and> c_running c1 = None"
proof -
  have st: "c_store c3 = c_store c" using settled_goal_frame [OF sg] by simp
  have "wf_envelope dp (f_session (c_store c3)) e1"
    using wf_envelope_stamp [OF wf] rev by (simp add: e1_def st)
  then obtain s1 where "ctl_commit (file_ops dp) (revision e) (account_mutation fg ch base (e_remainder e) True) c3 =
      (Inr e1, c3\<lparr>c_store := s1\<rparr>)" "healthy dp s1 e1" "f_session s1 = f_session (c_store c)"
    using ctl_commit_file [of dp c3 e "account_mutation fg ch base (e_remainder e) True"] h st by (auto simp: e1_def)
  with g run send en sg show ?thesis
    by (simp add: account_def account_span_def now_iso_def send_def Let_def base nx)
qed

definition settled_sample :: goal_record where
  "settled_sample = sample_goal\<lparr>tokens_used := 12, gstatus := Budget_limited, updated_at := js ''t1''\<rparr>"

definition settled_envelope :: envelope where
  "settled_envelope = stamp 5 (account_mutation settled_sample [js ''m1''] 0 0 True ready_envelope)"

lemma settled_envelope_simps [simp]:
  "goal settled_envelope = Some settled_sample" "revision settled_envelope = 6"
  "charged_ids settled_envelope = [js ''m1'']" "baseline_count settled_envelope = Some 0"
  "e_remainder settled_envelope = 0" "dispatch settled_envelope = None"
  by (simp_all add: settled_envelope_def account_mutation_def)

lemma wf_ready: "wf_envelope any_date (js ''s1'') ready_envelope"
  using healthy_ready by (simp add: healthy_def)

lemma wf_settled_sample: "wf_goal any_date settled_sample"
  using wf_sample_goal by (simp add: wf_goal_def settled_sample_def max_safe_def)

lemma wf_ready_mutation:
  "wf_envelope any_date (js ''s1'') (account_mutation settled_sample [js ''m1''] 0 0 True ready_envelope)"
  using wf_ready wf_settled_sample by (simp add: wf_envelope_def account_mutation_def max_safe_def)

lemma account_ready:
  "\<exists>c1. account (file_ops any_date) sample_ports ready_envelope sample_view True ready_ctl =
     (Inr \<lparr>ar_envelope = settled_envelope, ar_budget_hit = True, ar_unknown = False\<rparr>, c1) \<and>
     healthy any_date (c_store c1) settled_envelope \<and>
     f_session (c_store c1) = js ''s1'' \<and> c_running c1 = None"
proof -
  let ?nx = "sample_goal\<lparr>tokens_used := 12, time_used := time_used sample_goal, updated_at := ce_iso sample_ports 0\<rparr>"
  have en: "account_entries (slice_from 0 (v_entries sample_view)) (tokens_used sample_goal) False (charged_ids ready_envelope)
      = (12, False, [js ''m1''])"
    using sample_tokens by (simp add: slice_from_def sample_view_def sample_goal_def set_add_def)
  have bh: "budget_hit ?nx" by (simp add: budget_hit_def sample_goal_def)
  have sg: "settled_goal sample_ports ?nx (ready_ctl\<lparr>c_isos := Suc (c_isos ready_ctl)\<rparr>) =
      (settled_sample, ready_ctl\<lparr>c_isos := 2\<rparr>)"
    using bh by (simp add: settled_goal_def now_iso_def settled_sample_def sample_ports_def)
  show ?thesis
    using account_healthy [OF healthy_ready, of sample_goal sample_ports 0 sample_view 12 False "[js ''m1'']" ?nx
        settled_sample] en bh sg wf_ready_mutation
    by (simp add: sample_ports_def settled_envelope_def max_safe_def)
qed

theorem accounting_charges_once_witness:
  "\<exists>r c1 r2 c2. account (file_ops any_date) sample_ports ready_envelope sample_view True ready_ctl = (Inr r, c1) \<and>
     account (file_ops any_date) sample_ports (ar_envelope r) sample_view True c1 = (Inr r2, c2) \<and>
     map_option tokens_used (goal (ar_envelope r)) = Some 12 \<and>
     map_option tokens_used (goal (ar_envelope r2)) = Some 12"
proof -
  obtain c1 where a: "account (file_ops any_date) sample_ports ready_envelope sample_view True ready_ctl =
     (Inr \<lparr>ar_envelope = settled_envelope, ar_budget_hit = True, ar_unknown = False\<rparr>, c1)"
    "healthy any_date (c_store c1) settled_envelope" "f_session (c_store c1) = js ''s1''" "c_running c1 = None"
    using account_ready by blast
  let ?nx = "settled_sample\<lparr>tokens_used := 12, time_used := time_used settled_sample,
    updated_at := ce_iso sample_ports (c_isos c1)\<rparr>"
  have nx: "?nx = settled_sample" by (simp add: settled_sample_def sample_ports_def)
  have en: "account_entries (slice_from 0 (v_entries sample_view)) (tokens_used settled_sample) False (charged_ids settled_envelope)
      = (12, False, [js ''m1''])"
    by (simp add: slice_from_def sample_view_def settled_sample_def)
  have "\<not> budget_hit settled_sample" by (simp add: budget_hit_def settled_sample_def)
  then have sg: "settled_goal sample_ports ?nx (c1\<lparr>c_isos := Suc (c_isos c1)\<rparr>) = (settled_sample, c1\<lparr>c_isos := Suc (c_isos c1)\<rparr>)"
    unfolding nx by (simp add: settled_goal_def)
  have wf: "wf_envelope any_date (js ''s1'') (account_mutation settled_sample [js ''m1''] 0 0 True settled_envelope)"
    using a(2,3) wf_settled_sample by (auto simp: healthy_def wf_envelope_def account_mutation_def max_safe_def)
  obtain r2 c2 where b: "account (file_ops any_date) sample_ports settled_envelope sample_view True c1 = (Inr r2, c2)"
    using account_healthy [OF a(2) _ a(4) _ en _ refl sg] wf a(3) by (auto simp: sample_ports_def max_safe_def)
  from accounting_charges_once [OF healthy_content [OF healthy_ready] _ a(1)] a(1) b show ?thesis
    by (auto simp: settled_sample_def)
qed

theorem failed_accounting_stops_work_witness:
  "\<exists>er c1. account (file_ops any_date) (sample_ports\<lparr>ce_send := (\<lambda>_. False)\<rparr>) ready_envelope sample_view True
      (ready_ctl\<lparr>c_store := (c_store ready_ctl)\<lparr>f_side := None\<rparr>\<rparr>) = (Inl er, c1) \<and>
     \<not> fst (can_admit (check_admission sample_view (Some ready_envelope) c1))"
proof -
  let ?c = "ready_ctl\<lparr>c_store := (c_store ready_ctl)\<lparr>f_side := None\<rparr>\<rparr>"
  let ?env = "sample_ports\<lparr>ce_send := (\<lambda>_. False)\<rparr>"
  obtain r c1 where a: "account (file_ops any_date) ?env ready_envelope sample_view True ?c = (r, c1)" by fastforce
  have "file_content any_date (c_store ?c) = Some (empty_envelope (js ''s1''))"
    by (simp add: file_content_def ready_ctl_def new_controller_def sample_file_def fresh_file_def)
  moreover obtain er where "r = Inl er"
    using a by (auto simp: account_def account_span_def Let_def send_def now_iso_def split: prod.splits sum.splits)
  ultimately show ?thesis using a failed_accounting_stops_work by blast
qed

lemma load_ready_dispatch:
  "\<exists>c1. load_state (file_ops any_date) (new_controller sample_file) = ((Some sample_envelope, None), c1)"
proof -
  obtain st where "ctl_load (file_ops any_date) (new_controller sample_file) =
      (Inr sample_envelope, (new_controller sample_file)\<lparr>c_store := st\<rparr>)" "f_session st = js ''s1''"
    using healthy_load [OF healthy_sample]
    by (auto simp: ctl_load_def file_ops_def new_controller_def sample_file_def fresh_file_def)
  then show ?thesis
    by (simp add: load_state_def file_ops_def sample_envelope_def sample_dispatch_def)
qed

theorem doubtful_state_is_not_admitted_witness:
  "\<exists>c1. load_state (file_ops any_date) (new_controller sample_file) = ((Some sample_envelope, None), c1) \<and>
     \<not> fst (can_admit (check_admission sample_view (Some ready_envelope) c1))"
proof -
  obtain c1 where a: "load_state (file_ops any_date) (new_controller sample_file) = ((Some sample_envelope, None), c1)"
    using load_ready_dispatch by blast
  have "dispatch sample_envelope \<noteq> None" by (simp add: sample_envelope_def)
  with doubtful_state_is_not_admitted [OF a] a show ?thesis by auto
qed

end
