(* ===== verification/GoalTools.thy ===== *)
theory GoalTools
  imports ControllerSafety
begin

text \<open>
  The model-issued tools of the codex-goals extension (\<open>ponygirls-codex-goals/src/tools.ts\<close>):
  \<open>create_goal\<close>, \<open>get_goal\<close> and \<open>update_goal\<close> over a goal store.

  A handler returns its outcome and the store it leaves. The English of an outcome's \<open>content\<close> is
  the constructor that names its sentence, with the values the sentence shows;
  \<open>structuredContent\<close> is the JSON object. \<open>now\<close> is the one clock reading a handler takes, \<open>new_id\<close>
  the id \<open>makeGoalId\<close> returns, and \<open>err_text\<close> and \<open>store_err_text\<close> the messages of the errors.
\<close>

section \<open>Outcomes\<close>

datatype tool_text =
  Create_rejected goal_error | Create_failed store_error_code bool | Goal_created goal_record
| No_current_goal | Goal_shown goal_record | Update_bad_status | Update_no_goal
| Update_rejected goal_error | Update_failed store_error_code bool | Goal_updated goal_record bool goal_status

record tool_outcome =
  to_state :: "goal_record option"
  to_revision :: int
  to_remaining :: "int option"
  to_content :: tool_text
  to_structured :: js_value
  to_error :: bool

definition remaining_tokens :: "goal_record option \<Rightarrow> int option" where
  "remaining_tokens r =
     (case r of None \<Rightarrow> None
      | Some g \<Rightarrow> (case token_budget g of None \<Rightarrow> None | Some b \<Rightarrow> Some (max 0 (b - tokens_used g))))"

definition state_payload :: "goal_record option \<Rightarrow> int \<Rightarrow> (jstring \<times> js_value) list" where
  "state_payload r rv =
     (case r of
        None \<Rightarrow> [(js ''status'', JStr (js ''none'')), (js ''revision'', int_json rv)]
      | Some g \<Rightarrow>
        [(js ''id'', JStr (gid g)), (js ''objective'', JStr (objective g)), (js ''status'', JStr (status_name (gstatus g))),
         (js ''tokenBudget'', opt_json int_json (token_budget g)), (js ''tokensUsed'', int_json (tokens_used g)),
         (js ''timeUsedSeconds'', JNum (Fin (time_used g))), (js ''remainingTokens'', opt_json int_json (remaining_tokens r)),
         (js ''revision'', int_json rv), (js ''createdAt'', JStr (created_at g)), (js ''updatedAt'', JStr (updated_at g))])"

text \<open>The two shapes of an outcome: the state as it is with an error, and a new state.\<close>

definition failed_outcome :: "goal_record option \<Rightarrow> int \<Rightarrow> tool_text \<Rightarrow> jstring \<Rightarrow> tool_outcome" where
  "failed_outcome g rv txt msg = \<lparr>to_state = g, to_revision = rv, to_remaining = remaining_tokens g, to_content = txt,
     to_structured = JObj (state_payload g rv @ [(js ''error'', JStr msg)]), to_error = True\<rparr>"

definition state_outcome :: "goal_record option \<Rightarrow> int \<Rightarrow> tool_text \<Rightarrow> tool_outcome" where
  "state_outcome g rv txt = \<lparr>to_state = g, to_revision = rv, to_remaining = remaining_tokens g, to_content = txt,
     to_structured = JObj (state_payload g rv), to_error = False\<rparr>"

record error_texts =
  err_text :: "goal_error \<Rightarrow> jstring"
  store_err_text :: "store_error_code \<Rightarrow> jstring"

section \<open>Handlers\<close>

definition args_object :: "js_value \<Rightarrow> js_value" where
  "args_object args = nullish args (JObj [])"

definition create_mutation :: "goal_record \<Rightarrow> int \<Rightarrow> envelope \<Rightarrow> envelope" where
  "create_mutation g baseline cur =
     cur\<lparr>goal := Some g, cleared := False, cleared_at := None, charged_ids := [], baseline_count := Some baseline,
         e_remainder := 0, dispatch := None\<rparr>"

definition handle_create_goal ::
  "(jstring \<Rightarrow> bool) \<Rightarrow> error_texts \<Rightarrow> 's store_ops \<Rightarrow> 's \<Rightarrow> envelope \<Rightarrow> js_value \<Rightarrow> jstring \<Rightarrow> jstring \<Rightarrow> int \<Rightarrow>
     tool_outcome \<times> 's" where
  "handle_create_goal dp txt ops st e args now new_id baseline =
     (let params = args_object args;
          refuse = (\<lambda>er. (failed_outcome (goal e) (revision e) (Create_rejected er) (err_text txt er), st))
      in case validate_objective (field params (js ''objective'')) of
        Inl er \<Rightarrow> refuse er
      | Inr obj \<Rightarrow>
       (case validate_token_budget (nullish (field params (js ''token_budget'')) JNull) of
          Inl er \<Rightarrow> refuse er
        | Inr budget \<Rightarrow>
         (case model_create dp (goal e) \<lparr>in_objective = JStr obj, in_budget = opt_json int_json budget\<rparr> now new_id of
            Inl er \<Rightarrow> refuse er
          | Inr created \<Rightarrow>
           (case op_commit ops st (revision e) (create_mutation created baseline) of
              (Inl (code, _), st) \<Rightarrow>
                (failed_outcome (goal e) (revision e) (Create_failed code (code = Indeterminate)) (store_err_text txt code), st)
            | (Inr e', st) \<Rightarrow> (state_outcome (goal e') (revision e') (Goal_created (the (goal e'))), st)))))"

definition handle_get_goal :: "envelope \<Rightarrow> tool_outcome" where
  "handle_get_goal e =
     (case goal e of
        None \<Rightarrow> state_outcome None (revision e) No_current_goal
      | Some g \<Rightarrow> state_outcome (Some g) (revision e) (Goal_shown g))"

text \<open>The status the model asks for; any other value of the argument is refused.\<close>

definition requested_status :: "js_value \<Rightarrow> goal_status option" where
  "requested_status v =
     (if v = JStr (js ''complete'') then Some Complete
      else if v = JStr (js ''blocked'') then Some Blocked
      else if v = JStr (js ''paused'') then Some Paused
      else None)"

definition update_mutation :: "goal_record \<Rightarrow> envelope \<Rightarrow> envelope" where
  "update_mutation g cur = cur\<lparr>goal := Some g, dispatch := None\<rparr>"

definition handle_update_goal ::
  "error_texts \<Rightarrow> 's store_ops \<Rightarrow> 's \<Rightarrow> envelope \<Rightarrow> js_value \<Rightarrow> jstring \<Rightarrow> tool_outcome \<times> 's" where
  "handle_update_goal txt ops st e args now =
     (let params = args_object args in
      case requested_status (field params (js ''status'')) of
        None \<Rightarrow> (failed_outcome (goal e) (revision e) Update_bad_status (js ''invalid status''), st)
      | Some wanted \<Rightarrow>
       (case goal e of
          None \<Rightarrow> (failed_outcome None (revision e) Update_no_goal (js ''no goal''), st)
        | Some g \<Rightarrow>
         (case (if wanted = Complete then complete_from_budget_limited (Some g) now
                else if wanted = Blocked then block_record (Some g) now
                else pause_record (Some g) now Model) of
            Inl er \<Rightarrow> (failed_outcome (Some g) (revision e) (Update_rejected er) (err_text txt er), st)
          | Inr nxt \<Rightarrow>
           (case op_commit ops st (revision e) (update_mutation nxt) of
              (Inl (code, _), st) \<Rightarrow>
                (failed_outcome (Some g) (revision e) (Update_failed code (code = Indeterminate)) (store_err_text txt code), st)
            | (Inr e', st) \<Rightarrow>
                (state_outcome (goal e') (revision e')
                   (Goal_updated (the (goal e')) (token_budget (the (goal e')) \<noteq> None \<and> wanted = Complete) wanted), st)))))"

definition validate_goal_id :: "js_value \<Rightarrow> bool" where
  "validate_goal_id v = (case v of JStr s \<Rightarrow> length s > 0 | _ \<Rightarrow> False)"

section \<open>Facts\<close>

lemma model_create_result:
  assumes "model_create dp ex inp now new_id = Inr g"
  shows "(\<forall>old. ex = Some old \<longrightarrow> gstatus old = Complete) \<and> gid g = new_id \<and> gstatus g = Active \<and>
    tokens_used g = 0 \<and> time_used g = 0 \<and> validate_objective (in_objective inp) = Inr (objective g) \<and>
    validate_token_budget (nullish (in_budget inp) JNull) = Inr (token_budget g)"
  using assms
  by (auto simp: model_create_def create_record_def is_unfinished_def split: option.splits if_splits sum.splits)

lemma budget_json_roundtrip:
  "validate_token_budget v = Inr b \<Longrightarrow> validate_token_budget (nullish (opt_json int_json b) JNull) = Inr b"
  by (auto simp: validate_token_budget_def nullish_def int_json_def is_int_rat_def
      split: if_splits js_value.splits js_num.splits)

lemma objective_json_roundtrip:
  "validate_objective v = Inr t \<Longrightarrow> validate_objective (JStr t) = Inr t \<and> trim t = t"
  by (auto simp: validate_objective_def Let_def split: js_value.splits if_splits)

text \<open>A commit of the file store, by what the file then holds.\<close>

lemma file_ops_commit_cases:
  assumes "op_commit (file_ops dp) st n f = (r, st')"
  obtains (ok) e cur where "r = Inr e" "file_content dp st' = Some e" "file_content dp st = Some cur"
      "goal e = map_option trim_goal (goal (f cur))" "dispatch e = dispatch (f cur)"
      "charged_ids e = charged_ids (f cur)" "cleared e = cleared (f cur)" "revision e = n + 1"
  | (refused) code obs where "r = Inl (code, obs)" "code \<noteq> Indeterminate" "file_content dp st' = file_content dp st"
  | (indeterminate) obs where "r = Inl (Indeterminate, obs)"
proof (cases r)
  case (Inl er)
  obtain code obs where er: "er = (code, obs)" by fastforce
  show thesis
  proof (cases "code = Indeterminate")
    case True
    with Inl er indeterminate show thesis by simp
  next
    case False
    with Inl er assms fstore.commit_refused refused show thesis by (simp add: file_ops_def)
  qed
next
  case (Inr e)
  with assms have "file_commit dp st n f = (Inr e, st')" by (simp add: file_ops_def)
  from fstore.commit_ok [OF this] obtain cur where c: "file_content dp st' = Some e"
    "file_content dp st = Some cur"
    "validate_envelope dp (envelope_json (stamp n (f cur))) (f_session st) = Inr e" by blast
  with written_facts [OF c(3)] validate_written [OF c(3)] Inr ok show thesis by simp
qed

section \<open>Properties\<close>

text \<open>
  The model can create a goal only when there is no unfinished one, and then the sidecar holds a
  fresh active goal with no usage, no dispatch and nothing charged, under the new id; every refusal
  reports the state as it was and, unless the store does not know whether its write is durable,
  leaves the sidecar as it was.
\<close>

theorem create_goal_tool_effect:
  "case handle_create_goal dp txt (file_ops dp) st e args now new_id baseline of (out, st') \<Rightarrow>
     if to_error out then
       to_state out = goal e \<and> to_revision out = revision e \<and>
       (to_content out = Create_failed Indeterminate True \<or> file_content dp st' = file_content dp st)
     else \<exists>e' g. file_content dp st' = Some e' \<and> goal e' = Some g \<and> to_state out = Some g \<and>
       to_revision out = revision e + 1 \<and> revision e' = revision e + 1 \<and> gid g = new_id \<and> gstatus g = Active \<and>
       tokens_used g = 0 \<and> dispatch e' = None \<and> charged_ids e' = [] \<and> \<not> cleared e' \<and>
       validate_objective (field (args_object args) (js ''objective'')) = Inr (objective g) \<and>
       validate_token_budget (nullish (field (args_object args) (js ''token_budget'')) JNull) = Inr (token_budget g) \<and>
       (goal e = None \<or> (\<exists>old. goal e = Some old \<and> gstatus old = Complete))"
proof (cases "validate_objective (field (args_object args) (js ''objective''))")
  case (Inl er)
  then show ?thesis by (simp add: handle_create_goal_def failed_outcome_def)
next
  case obj: (Inr t)
  show ?thesis
  proof (cases "validate_token_budget (nullish (field (args_object args) (js ''token_budget'')) JNull)")
    case (Inl er)
    with obj show ?thesis by (simp add: handle_create_goal_def failed_outcome_def)
  next
    case budget: (Inr b)
    show ?thesis
    proof (cases "model_create dp (goal e) \<lparr>in_objective = JStr t, in_budget = opt_json int_json b\<rparr> now new_id")
      case (Inl er)
      with obj budget show ?thesis by (simp add: handle_create_goal_def failed_outcome_def)
    next
      case mc: (Inr g)
      note res = model_create_result [OF mc]
      have t: "objective g = t" "trim t = t" "token_budget g = b"
        using res objective_json_roundtrip [OF obj] budget_json_roundtrip [OF budget] by auto
      obtain r st' where k: "op_commit (file_ops dp) st (revision e) (create_mutation g baseline) = (r, st')" by fastforce
      then show ?thesis
      proof (cases rule: file_ops_commit_cases)
        case (ok e' cur)
        with obj budget mc k res t show ?thesis
          by (cases "goal e") (auto simp: handle_create_goal_def state_outcome_def create_mutation_def)
      qed (use obj budget mc k in \<open>auto simp: handle_create_goal_def failed_outcome_def\<close>)
    qed
  qed
qed

text \<open>
  The model can end or pause its goal and nothing else: a successful update stores the same goal
  (id, budget, usage, objective but for surrounding white space) with status complete, blocked or
  paused and no dispatch; completing needs an active or budget-limited goal, the others an active
  one; every refusal leaves the sidecar as it was unless the store does not know.
\<close>

theorem update_goal_tool_effect:
  "case handle_update_goal txt (file_ops dp) st e args now of (out, st') \<Rightarrow>
     if to_error out then
       to_state out = goal e \<and> to_revision out = revision e \<and>
       (to_content out = Update_failed Indeterminate True \<or> file_content dp st' = file_content dp st)
     else \<exists>g e' g'. goal e = Some g \<and> file_content dp st' = Some e' \<and> goal e' = Some g' \<and> to_state out = Some g' \<and>
       revision e' = revision e + 1 \<and> dispatch e' = None \<and> gid g' = gid g \<and> objective g' = trim (objective g) \<and>
       token_budget g' = token_budget g \<and> tokens_used g' = tokens_used g \<and> time_used g' = time_used g \<and>
       requested_status (field (args_object args) (js ''status'')) = Some (gstatus g') \<and>
       (gstatus g = Active \<or> gstatus g = Budget_limited \<and> gstatus g' = Complete)"
proof (cases "requested_status (field (args_object args) (js ''status''))")
  case None
  then show ?thesis by (simp add: handle_update_goal_def failed_outcome_def)
next
  case wanted: (Some w)
  have w: "w = Complete \<or> w = Blocked \<or> w = Paused"
    using wanted by (auto simp: requested_status_def split: if_splits)
  show ?thesis
  proof (cases "goal e")
    case None
    with wanted show ?thesis by (simp add: handle_update_goal_def failed_outcome_def)
  next
    case g: (Some g)
    define tr where "tr = (if w = Complete then complete_from_budget_limited (Some g) now
                else if w = Blocked then block_record (Some g) now else pause_record (Some g) now Model)"
    show ?thesis
    proof (cases tr)
      case (Inl er)
      with wanted g show ?thesis by (simp add: handle_update_goal_def failed_outcome_def tr_def)
    next
      case nxt: (Inr n)
      then have n: "gid n = gid g \<and> objective n = objective g \<and> token_budget n = token_budget g \<and>
          tokens_used n = tokens_used g \<and> time_used n = time_used g \<and> gstatus n = w \<and>
          (gstatus g = Active \<or> gstatus g = Budget_limited \<and> w = Complete)"
        using w by (auto simp: tr_def complete_from_budget_limited_def block_record_def pause_record_def split: if_splits)
      obtain r st' where k: "op_commit (file_ops dp) st (revision e) (update_mutation n) = (r, st')" by fastforce
      then show ?thesis
      proof (cases rule: file_ops_commit_cases)
        case (ok e' cur)
        with wanted g nxt n k show ?thesis
          by (simp add: handle_update_goal_def state_outcome_def update_mutation_def tr_def)
      qed (use wanted g nxt k in \<open>auto simp: handle_update_goal_def failed_outcome_def tr_def\<close>)
    qed
  qed
qed

end
