(* ===== verification/Numbers.thy ===== *)
theory Numbers
  imports Prelude
begin

text \<open>
  The conversion \<open>Number(text)\<close> of a string to a double: the decimal, exponent, hexadecimal,
  octal and binary forms, rounded to nearest, ties to even.
\<close>

section \<open>Conversion\<close>

fun log2_floor :: "nat \<Rightarrow> nat" where
  "log2_floor n = (if n < 2 then 0 else Suc (log2_floor (n div 2)))"

declare log2_floor.simps [simp del]

definition log2_ceil :: "nat \<Rightarrow> nat" where
  "log2_ceil n = (if n \<le> 1 then 0 else Suc (log2_floor (n - 1)))"

text \<open>The \<open>e\<close> with \<open>2 ^ e \<le> q < 2 ^ (e + 1)\<close>, for a positive \<open>q\<close>.\<close>

definition binary_exponent :: "rat \<Rightarrow> int" where
  "binary_exponent q = (if 1 \<le> q then int (log2_floor (nat \<lfloor>q\<rfloor>)) else - int (log2_ceil (nat \<lceil>1 / q\<rceil>)))"

definition pow2 :: "int \<Rightarrow> rat" where
  "pow2 e = (if 0 \<le> e then 2 ^ nat e else 1 / 2 ^ nat (- e))"

definition round_half_even :: "rat \<Rightarrow> int" where
  "round_half_even q =
     (let f = \<lfloor>q\<rfloor>; d = q - of_int f in
      if d < 1 / 2 then f else if d > 1 / 2 then f + 1 else if even f then f else f + 1)"

definition round_positive :: "rat \<Rightarrow> js_num" where
  "round_positive q =
     (let e = max (binary_exponent q - 52) (-1074); v = of_int (round_half_even (q / pow2 e)) * pow2 e in
      if v \<ge> 2 ^ 1024 then PosInf else Fin v)"

definition is_digit :: "nat \<Rightarrow> bool" where
  "is_digit c \<longleftrightarrow> 48 \<le> c \<and> c \<le> 57"

definition scale10 :: "rat \<Rightarrow> int \<Rightarrow> rat" where
  "scale10 m e = (if 0 \<le> e then m * 10 ^ nat e else m / 10 ^ nat (- e))"

text \<open>The exponent part; \<open>None\<close> when the rest is not one.\<close>

definition exponent_of :: "jstring \<Rightarrow> int option" where
  "exponent_of s =
     (case s of
        [] \<Rightarrow> Some 0
      | c # t \<Rightarrow>
        if c \<noteq> 101 \<and> c \<noteq> 69 then None
        else let neg = (t \<noteq> [] \<and> hd t = 45); ds = (if t \<noteq> [] \<and> (hd t = 45 \<or> hd t = 43) then tl t else t) in
             if ds = [] \<or> \<not> list_all is_digit ds then None
             else Some (if neg then - int (digits_value ds) else int (digits_value ds)))"

definition unsigned_decimal :: "jstring \<Rightarrow> rat option" where
  "unsigned_decimal s =
     (let ip = takeWhile is_digit s; r1 = dropWhile is_digit s;
          fp = (if r1 \<noteq> [] \<and> hd r1 = 46 then takeWhile is_digit (tl r1) else []);
          r2 = (if r1 \<noteq> [] \<and> hd r1 = 46 then dropWhile is_digit (tl r1) else r1)
      in if ip = [] \<and> fp = [] then None
         else map_option (\<lambda>e. scale10 (of_nat (digits_value (ip @ fp))) (e - int (length fp))) (exponent_of r2))"

definition digit_in :: "nat \<Rightarrow> nat \<Rightarrow> nat option" where
  "digit_in radix c =
     (let d = (if 48 \<le> c \<and> c \<le> 57 then c - 48 else if 97 \<le> c \<and> c \<le> 102 then c - 87
               else if 65 \<le> c \<and> c \<le> 70 then c - 55 else 99)
      in if d < radix then Some d else None)"

fun radix_value :: "nat \<Rightarrow> nat \<Rightarrow> jstring \<Rightarrow> nat option" where
  "radix_value radix acc [] = Some acc"
| "radix_value radix acc (c # cs) =
     (case digit_in radix c of None \<Rightarrow> None | Some d \<Rightarrow> radix_value radix (radix * acc + d) cs)"

definition round_nonneg :: "rat \<Rightarrow> js_num" where
  "round_nonneg q = (if q = 0 then Fin 0 else round_positive q)"

definition negate :: "js_num \<Rightarrow> js_num" where
  "negate x = (case x of Fin q \<Rightarrow> Fin (- q) | PosInf \<Rightarrow> NegInf | NegInf \<Rightarrow> PosInf | NaN \<Rightarrow> NaN)"

definition unsigned_number :: "jstring \<Rightarrow> js_num" where
  "unsigned_number s =
     (if s = js ''Infinity'' then PosInf
      else case unsigned_decimal s of None \<Rightarrow> NaN | Some q \<Rightarrow> round_nonneg q)"

definition radix_of :: "jstring \<Rightarrow> nat option" where
  "radix_of s =
     (case s of
        z # x # ds \<Rightarrow>
          if z \<noteq> 48 \<or> ds = [] then None
          else if x = 120 \<or> x = 88 then Some 16 else if x = 111 \<or> x = 79 then Some 8
          else if x = 98 \<or> x = 66 then Some 2 else None
      | _ \<Rightarrow> None)"

definition number_of_text :: "jstring \<Rightarrow> js_num" where
  "number_of_text text =
     (let s = trim text in
      if s = [] then Fin 0
      else case radix_of s of
        Some radix \<Rightarrow> (case radix_value radix 0 (drop 2 s) of None \<Rightarrow> NaN | Some n \<Rightarrow> round_nonneg (of_nat n))
      | None \<Rightarrow>
        if hd s = 45 then negate (unsigned_number (tl s))
        else if hd s = 43 then unsigned_number (tl s)
        else unsigned_number s)"

section \<open>Facts\<close>

lemma log2_floor_le: "n < 2 ^ Suc k \<Longrightarrow> log2_floor n \<le> k"
proof (induction n arbitrary: k rule: log2_floor.induct)
  case (1 n)
  show ?case
  proof (cases "n < 2")
    case True
    then show ?thesis by (simp add: log2_floor.simps)
  next
    case False
    with "1.prems" obtain j where k: "k = Suc j" by (cases k) auto
    have "n div 2 < 2 ^ Suc j" using "1.prems" by (simp add: k less_mult_imp_div_less)
    from "1.IH" [OF False this] False k show ?thesis by (subst log2_floor.simps) simp
  qed
qed

lemma round_half_even_of_int [simp]: "round_half_even (of_int i) = i"
  by (simp add: round_half_even_def)

lemma round_positive_of_nat:
  assumes "0 < n" and "n < 2 ^ 53"
  shows "round_positive (of_nat n) = Fin (of_nat n)"
proof -
  have "nat \<lfloor>of_nat n :: rat\<rfloor> = n" by simp
  then have "binary_exponent (of_nat n) = int (log2_floor n)" using assms(1) by (simp add: binary_exponent_def)
  moreover have "log2_floor n \<le> 52" using assms(2) by (intro log2_floor_le) simp
  ultimately obtain k where e: "max (binary_exponent (of_nat n) - 52) (-1074) = - int k"
    by (metis diff_le_0_iff_le max.bounded_iff nonpos_int_cases of_nat_le_iff of_nat_numeral neg_numeral_le_zero)
  have p: "pow2 (- int k) = 1 / 2 ^ k" by (cases "k = 0") (simp_all add: pow2_def)
  have "of_nat n / pow2 (- int k) = of_int (int n * 2 ^ k)" by (simp add: p)
  then have "of_int (round_half_even (of_nat n / pow2 (- int k))) * pow2 (- int k) = (of_nat n :: rat)"
    by (simp only: round_half_even_of_int) (simp add: p)
  moreover have "(of_nat n :: rat) < 2 ^ 1024"
  proof -
    have "n < 2 ^ 1024" using assms(2) power_increasing [of 53 1024 "2::nat"] by linarith
    then have "(of_nat n :: rat) < of_nat (2 ^ 1024)" by (simp only: of_nat_less_iff)
    then show ?thesis by simp
  qed
  ultimately show ?thesis by (simp add: round_positive_def e Let_def)
qed

lemma digits_of_digits: "list_all is_digit (digits_of n) \<and> digits_of n \<noteq> []"
proof (induction n rule: digits_of.induct)
  case (1 n)
  then show ?case by (subst (1 2) digits_of.simps) (auto simp: is_digit_def list_all_iff)
qed

lemma digit_not_space: "is_digit c \<Longrightarrow> \<not> is_js_space c"
  by (auto simp: is_digit_def is_js_space_def)

definition word :: "jstring \<Rightarrow> bool" where
  "word w \<longleftrightarrow> w \<noteq> [] \<and> list_all (\<lambda>c. \<not> is_js_space c) w"

lemma word_ends: "word w \<Longrightarrow> \<not> is_js_space (hd w) \<and> \<not> is_js_space (last w)"
  by (auto simp: word_def list_all_iff)

lemma word_digits: "word (digits_of n)"
  using digits_of_digits [of n] digit_not_space by (auto simp: word_def list_all_iff)

lemma word_trim: "word w \<Longrightarrow> trim w = w"
  by (rule trim_fixed) (auto simp: word_def list_all_iff)

lemma unsigned_number_digits:
  assumes "n < 2 ^ 53"
  shows "unsigned_number (digits_of n) = Fin (of_nat n)"
proof -
  let ?d = "digits_of n"
  have d: "list_all is_digit ?d" "?d \<noteq> []" using digits_of_digits [of n] by auto
  have tw: "takeWhile is_digit ?d = ?d" "dropWhile is_digit ?d = []"
    using d by (auto simp: list_all_iff takeWhile_eq_all_conv)
  have "unsigned_decimal ?d = Some (of_nat n)"
    using d by (simp only: unsigned_decimal_def tw Let_def) (simp add: exponent_of_def scale10_def)
  moreover have "?d \<noteq> js ''Infinity''" using d by (auto simp: js_def is_digit_def)
  ultimately show ?thesis
    using round_positive_of_nat [of n] assms by (simp add: unsigned_number_def round_nonneg_def)
qed

lemma number_of_digits:
  assumes "n < 2 ^ 53"
  shows "number_of_text (digits_of n) = Fin (of_nat n)"
proof -
  let ?d = "digits_of n"
  obtain a b where ab: "?d = a # b" using digits_of_digits [of n] by (cases ?d) auto
  then have dig: "is_digit a" "list_all is_digit b" using digits_of_digits [of n] by auto
  have r: "radix_of ?d = None"
    using dig by (cases b) (auto simp: ab radix_of_def is_digit_def)
  moreover have "hd ?d \<noteq> 45" "hd ?d \<noteq> 43" using dig by (auto simp: ab is_digit_def)
  ultimately show ?thesis
    using ab word_trim [OF word_digits, of n] unsigned_number_digits [OF assms] by (simp add: number_of_text_def Let_def)
qed

definition int_text :: "int \<Rightarrow> jstring" where
  "int_text i = (if i < 0 then 45 # digits_of (nat (- i)) else digits_of (nat i))"

lemma number_of_int_text:
  assumes "\<bar>i\<bar> \<le> max_safe"
  shows "number_of_text (int_text i) = Fin (of_int i)"
proof (cases "i < 0")
  case True
  let ?d = "digits_of (nat (- i))"
  have "word (45 # ?d)" using word_digits [of "nat (- i)"] by (simp add: word_def is_js_space_def)
  moreover have "radix_of (45 # ?d) = None" by (cases ?d) (auto simp: radix_of_def)
  moreover have "unsigned_number ?d = Fin (of_nat (nat (- i)))"
    using assms by (intro unsigned_number_digits) (simp add: max_safe_def)
  ultimately show ?thesis using True by (simp add: int_text_def number_of_text_def word_trim Let_def negate_def)
next
  case False
  then have "number_of_text (digits_of (nat i)) = Fin (of_nat (nat i))"
    using assms by (intro number_of_digits) (simp add: max_safe_def)
  with False show ?thesis by (simp add: int_text_def)
qed

text \<open>No leading zero.\<close>

lemma digits_of_leading: "hd (digits_of n) = 48 \<Longrightarrow> tl (digits_of n) = []"
proof (induction n rule: digits_of.induct)
  case (1 n)
  show ?case
  proof (cases "n < 10")
    case False
    have ne: "digits_of (n div 10) \<noteq> []" using digits_of_digits by auto
    have e: "digits_of n = digits_of (n div 10) @ [48 + n mod 10]" using False by (subst digits_of.simps) simp
    then have h: "hd (digits_of (n div 10)) = 48" using "1.prems" ne by simp
    then have "tl (digits_of (n div 10)) = []" using "1.IH" False by simp
    then have "digits_of (n div 10) = [48]" using ne h by (cases "digits_of (n div 10)") auto
    then have "n div 10 = 0" using digits_value_of [of "n div 10"] by (simp add: digits_value_def)
    with False show ?thesis by simp
  qed (simp add: digits_of.simps)
qed

end
