(* ===== verification/Commands.thy ===== *)
theory Commands
  imports Numbers
begin

text \<open>
  The \<open>/goal\<close> command parser (\<open>ponygirls-codex-goals/src/commands.ts\<close>).
\<close>

section \<open>Tokens\<close>

text \<open>\<open>s.split(/\s+/)\<close>: a run of white space is one separator.\<close>

fun split_ws :: "jstring \<Rightarrow> jstring list" where
  "split_ws [] = [[]]"
| "split_ws (c # cs) =
     (if is_js_space c then (if cs \<noteq> [] \<and> is_js_space (hd cs) then split_ws cs else [] # split_ws cs)
      else (case split_ws cs of [] \<Rightarrow> [[c]] | w # ws \<Rightarrow> (c # w) # ws))"

definition parse_budget_token :: "jstring \<Rightarrow> int option" where
  "parse_budget_token text =
     (case number_of_text text of
        Fin q \<Rightarrow> if \<not> is_safe_integer (Fin q) \<or> q \<le> 0 then None else Some \<lfloor>q\<rfloor>
      | _ \<Rightarrow> None)"

definition budget_at :: "nat \<Rightarrow> jstring list \<Rightarrow> int option" where
  "budget_at i tokens = (if i < length tokens then parse_budget_token (tokens ! i) else None)"

section \<open>The parser\<close>

datatype resume_budget = No_change | New_budget int

datatype goal_command =
  Show | Create jstring "int option" | Edit "jstring option" | Pause | Resume resume_budget | Clear

datatype parse_error =
  Invalid_budget_usage | Resume_usage | Missing_delimiter | Empty_objective | Pause_usage
| Resume_budget_usage | Clear_usage | Reserved_word jstring jstring

definition RESERVED :: "jstring list" where
  "RESERVED = map js [''edit'', ''pause'', ''resume'', ''clear'']"

definition parse_tokens_form :: "jstring list \<Rightarrow> parse_error + goal_command" where
  "parse_tokens_form tokens =
     (case budget_at 1 tokens of
        None \<Rightarrow> Inl Invalid_budget_usage
      | Some budget \<Rightarrow>
        if 2 < length tokens \<and> tokens ! 2 = js ''resume'' then
          (if length tokens > 3 then Inl Resume_usage else Inr (Resume (New_budget budget)))
        else if \<not> (2 < length tokens \<and> tokens ! 2 = js ''--'') then Inl Missing_delimiter
        else let obj = trim (join_on 32 (drop 3 tokens)) in
             if obj = [] then Inl Empty_objective else Inr (Create obj (Some budget)))"

definition parse_edit :: "jstring \<Rightarrow> parse_error + goal_command" where
  "parse_edit raw =
     (let rest = trim (drop 4 raw) in
      if rest = [] then Inr (Edit None)
      else let obj = (if starts_with rest (js ''-- '') then trim (drop 3 rest)
                      else if starts_with rest (js ''--'') then trim (drop 2 rest) else rest)
           in if obj = [] then Inl Empty_objective else Inr (Edit (Some obj)))"

definition parse_resume :: "jstring list \<Rightarrow> parse_error + goal_command" where
  "parse_resume tokens =
     (if length tokens = 1 then Inr (Resume No_change)
      else if tokens ! 1 = js ''--tokens'' then
        (case budget_at 2 tokens of
           None \<Rightarrow> Inl Resume_budget_usage
         | Some budget \<Rightarrow> if length tokens \<noteq> 3 then Inl Resume_budget_usage else Inr (Resume (New_budget budget)))
      else Inl Resume_usage)"

definition parse_goal_command :: "jstring \<Rightarrow> parse_error + goal_command" where
  "parse_goal_command args =
     (let raw = trim args in
      if raw = [] then Inr Show
      else let tokens = split_ws raw; first = tokens ! 0 in
        if first = js ''--tokens'' then parse_tokens_form tokens
        else if first = js ''edit'' then parse_edit raw
        else if first = js ''pause'' then (if length tokens \<noteq> 1 then Inl Pause_usage else Inr Pause)
        else if first = js ''resume'' then parse_resume tokens
        else if first = js ''clear'' then (if length tokens \<noteq> 1 then Inl Clear_usage else Inr Clear)
        else if first = js ''--'' then
          (let obj = trim (join_on 32 (drop 1 tokens)) in
           if obj = [] then Inl Empty_objective else Inr (Create obj None))
        else if first \<in> set RESERVED then Inl (Reserved_word first raw)
        else Inr (Create raw None))"

section \<open>Facts\<close>

lemma parse_budget_digits:
  assumes "0 < n" and "n \<le> max_safe"
  shows "parse_budget_token (digits_of (nat n)) = Some n"
proof -
  have "number_of_text (digits_of (nat n)) = Fin (of_nat (nat n))"
    using assms by (intro number_of_digits) (simp_all add: max_safe_def nat_less_iff)
  also have "\<dots> = Fin (of_int n)" using assms by simp
  finally show ?thesis using assms by (simp add: parse_budget_token_def abs_of_int_le_iff)
qed

lemma parse_budget_token_bounds: "parse_budget_token t = Some n \<Longrightarrow> 0 < n \<and> n \<le> max_safe"
  by (auto simp: parse_budget_token_def is_int_rat_def abs_of_int_le_iff split: js_num.splits if_splits)

lemma split_ws_word: "word w \<Longrightarrow> split_ws w = [w]"
proof (induction w)
  case (Cons c w)
  then show ?case by (cases "w = []") (auto simp: word_def)
qed (simp add: word_def)

lemma split_ws_step:
  "word w \<Longrightarrow> r \<noteq> [] \<Longrightarrow> \<not> is_js_space (hd r) \<Longrightarrow> split_ws (w @ 32 # r) = w # split_ws r"
proof (induction w)
  case (Cons c w)
  have sp: "is_js_space 32" by (simp add: is_js_space_def)
  show ?case
  proof (cases "w = []")
    case True
    with Cons.prems sp show ?thesis by (simp add: word_def)
  next
    case False
    with Cons show ?thesis by (simp add: word_def)
  qed
qed (simp add: word_def)

lemma hd_join_words: "word w \<Longrightarrow> join_on 32 (w # ws) \<noteq> [] \<and> hd (join_on 32 (w # ws)) = hd w"
  by (cases ws) (auto simp: word_def)

lemma split_ws_join:
  "ws \<noteq> [] \<Longrightarrow> list_all word ws \<Longrightarrow> split_ws (join_on 32 ws) = ws"
proof (induction ws rule: induct_list012)
  case (3 w v ws)
  have "\<not> is_js_space (hd (join_on 32 (v # ws)))" "join_on 32 (v # ws) \<noteq> []"
    using 3(4) hd_join_words [of v ws] word_ends [of v] by auto
  with split_ws_step [of w "join_on 32 (v # ws)"] 3 show ?case by simp
qed (auto simp: split_ws_word)

lemma last_join_words: "ws \<noteq> [] \<Longrightarrow> list_all word ws \<Longrightarrow> join_on 32 ws \<noteq> [] \<and> last (join_on 32 ws) = last (last ws)"
  by (induction ws rule: induct_list012) (auto simp: word_def)

lemma trim_join_words: "list_all word ws \<Longrightarrow> trim (join_on 32 ws) = join_on 32 ws"
proof (rule trim_fixed)
  assume w: "list_all word ws"
  show "join_on 32 ws = [] \<or> \<not> is_js_space (hd (join_on 32 ws)) \<and> \<not> is_js_space (last (join_on 32 ws))"
  proof (cases ws)
    case (Cons v vs)
    have "word v" "word (last ws)" using w Cons by (auto simp: list_all_iff)
    with last_join_words [of ws] hd_join_words [of v vs] w Cons show ?thesis
      by (auto simp: word_def list_all_iff)
  qed simp
qed

section \<open>Properties\<close>

text \<open>The canonical spelling of a command, and the commands that have one.\<close>

fun print_command :: "goal_command \<Rightarrow> jstring" where
  "print_command Show = []"
| "print_command (Create obj None) = js ''-- '' @ obj"
| "print_command (Create obj (Some n)) = js ''--tokens '' @ digits_of (nat n) @ js '' -- '' @ obj"
| "print_command (Edit None) = js ''edit''"
| "print_command (Edit (Some obj)) = js ''edit -- '' @ obj"
| "print_command Pause = js ''pause''"
| "print_command (Resume No_change) = js ''resume''"
| "print_command (Resume (New_budget n)) = js ''resume --tokens '' @ digits_of (nat n)"
| "print_command Clear = js ''clear''"

text \<open>An objective of words separated by single blanks.\<close>

definition worded :: "jstring \<Rightarrow> bool" where
  "worded obj \<longleftrightarrow> obj \<noteq> [] \<and> list_all word (split_ws obj) \<and> join_on 32 (split_ws obj) = obj"

definition budget_ok :: "int \<Rightarrow> bool" where
  "budget_ok n \<longleftrightarrow> 0 < n \<and> n \<le> max_safe"

fun command_ok :: "goal_command \<Rightarrow> bool" where
  "command_ok (Create obj None) = worded obj"
| "command_ok (Create obj (Some n)) = (worded obj \<and> budget_ok n)"
| "command_ok (Edit (Some obj)) = (obj \<noteq> [] \<and> trim obj = obj)"
| "command_ok (Resume (New_budget n)) = budget_ok n"
| "command_ok _ = True"

lemma js_words [simp]: "word (js ''--'')" "word (js ''--tokens'')" "word (js ''resume'')" "word (js ''pause'')"
  "word (js ''clear'')" "word (js ''edit'')"
  by (simp_all add: word_def js_def is_js_space_def)

lemma worded_iff: "worded obj \<longleftrightarrow> (\<exists>ws. ws \<noteq> [] \<and> list_all word ws \<and> obj = join_on 32 ws)"
proof
  assume w: "worded obj"
  then have "split_ws obj \<noteq> []" by (cases obj) (auto simp: worded_def split: list.splits if_splits)
  with w show "\<exists>ws. ws \<noteq> [] \<and> list_all word ws \<and> obj = join_on 32 ws" by (metis worded_def)
next
  assume "\<exists>ws. ws \<noteq> [] \<and> list_all word ws \<and> obj = join_on 32 ws"
  then show "worded obj" using last_join_words split_ws_join by (auto simp: worded_def)
qed

text \<open>Parsing a text made of words joined by single blanks.\<close>

lemma parse_words:
  assumes "ws \<noteq> []" and "list_all word ws"
  shows "trim (join_on 32 ws) = join_on 32 ws" "join_on 32 ws \<noteq> []" "split_ws (join_on 32 ws) = ws"
  using assms trim_join_words last_join_words split_ws_join by auto

lemma parse_create:
  assumes "worded obj"
  shows "parse_goal_command (js ''-- '' @ obj) = Inr (Create obj None)"
proof -
  obtain ws where ws: "ws \<noteq> []" "list_all word ws" "obj = join_on 32 ws" using assms by (auto simp: worded_iff)
  have e: "js ''-- '' @ obj = join_on 32 (js ''--'' # ws)"
    using ws by (cases ws) (auto simp: js_def)
  have "list_all word (js ''--'' # ws)" using ws by simp
  note pw = parse_words [OF _ this]
  have "trim obj = obj" "obj \<noteq> []" using parse_words ws by auto
  then show ?thesis
    unfolding e using pw ws by (simp add: parse_goal_command_def Let_def)
qed

lemma parse_create_budget:
  assumes "worded obj" and "budget_ok n"
  shows "parse_goal_command (js ''--tokens '' @ digits_of (nat n) @ js '' -- '' @ obj) = Inr (Create obj (Some n))"
proof -
  obtain ws where ws: "ws \<noteq> []" "list_all word ws" "obj = join_on 32 ws" using assms by (auto simp: worded_iff)
  let ?ws = "js ''--tokens'' # digits_of (nat n) # js ''--'' # ws"
  have e: "js ''--tokens '' @ digits_of (nat n) @ js '' -- '' @ obj = join_on 32 ?ws"
    using ws by (cases ws) (auto simp: js_def)
  have "list_all word ?ws" using ws word_digits by simp
  note pw = parse_words [OF _ this]
  have "trim obj = obj" "obj \<noteq> []" using parse_words ws by auto
  moreover have "parse_budget_token (digits_of (nat n)) = Some n"
    using assms(2) by (intro parse_budget_digits) (simp_all add: budget_ok_def)
  ultimately show ?thesis
    unfolding e using pw ws by (simp add: parse_goal_command_def parse_tokens_form_def budget_at_def Let_def)
qed

lemma parse_resume_budget:
  assumes "budget_ok n"
  shows "parse_goal_command (js ''resume --tokens '' @ digits_of (nat n)) = Inr (Resume (New_budget n))"
proof -
  let ?ws = "[js ''resume'', js ''--tokens'', digits_of (nat n)]"
  have e: "js ''resume --tokens '' @ digits_of (nat n) = join_on 32 ?ws" by (simp add: js_def)
  have "list_all word ?ws" using word_digits by simp
  note pw = parse_words [OF _ this]
  moreover have "parse_budget_token (digits_of (nat n)) = Some n"
    using assms by (intro parse_budget_digits) (simp_all add: budget_ok_def)
  ultimately show ?thesis
    unfolding e by (simp add: parse_goal_command_def parse_resume_def budget_at_def Let_def)
qed

lemma parse_word:
  assumes "word w"
  shows "trim w = w" "w \<noteq> []" "split_ws w = [w]"
  using assms word_trim split_ws_word by (auto simp: word_def)

lemma split_ws_first: "word w \<Longrightarrow> \<exists>ws. split_ws (w @ 32 # r) = w # ws"
proof (induction w)
  case (Cons c w)
  have sp: "is_js_space 32" by (simp add: is_js_space_def)
  show ?case
  proof (cases "w = []")
    case True
    have "\<exists>ws. split_ws (32 # r) = [] # ws"
    proof (induction r)
      case (Cons x r)
      with sp show ?case by (cases "is_js_space x") (auto split: if_splits)
    qed (use sp in simp)
    then obtain ws where "split_ws (32 # r) = [] # ws" by blast
    with True Cons.prems show ?thesis by (simp add: word_def del: split_ws.simps) (simp add: word_def)
  next
    case False
    with Cons show ?thesis by (auto simp: word_def)
  qed
qed (simp add: word_def)

lemma parse_edit_objective:
  assumes "obj \<noteq> []" and "trim obj = obj"
  shows "parse_goal_command (js ''edit -- '' @ obj) = Inr (Edit (Some obj))"
proof -
  let ?t = "js ''edit -- '' @ obj"
  have l: "\<not> is_js_space (last obj)" using assms trim_last [of obj] by simp
  have "trim ?t = ?t"
    using assms l by (intro trim_fixed) (auto simp: js_def is_js_space_def)
  moreover have "?t = js ''edit'' @ 32 # (js ''-- '' @ obj)" by (simp add: js_def)
  then obtain ws where "split_ws ?t = js ''edit'' # ws"
    using split_ws_first [of "js ''edit''" "js ''-- '' @ obj"] by auto
  moreover have "drop 4 ?t = 32 # (js ''-- '' @ obj)" by (simp add: js_def)
  moreover have "trim (32 # (js ''-- '' @ obj)) = js ''-- '' @ obj"
  proof -
    have "trim (32 # s) = trim s" for s by (simp add: trim_def is_js_space_def)
    moreover have "trim (js ''-- '' @ obj) = js ''-- '' @ obj"
      using assms l by (intro trim_fixed) (auto simp: js_def is_js_space_def)
    ultimately show ?thesis by simp
  qed
  moreover have "drop 3 (js ''-- '' @ obj) = obj" "js ''-- '' @ obj \<noteq> []" "?t \<noteq> []" by (simp_all add: js_def)
  ultimately show ?thesis
    using assms by (simp add: parse_goal_command_def parse_edit_def Let_def)
qed

lemma parse_simple:
  "parse_goal_command [] = Inr Show" "parse_goal_command (js ''edit'') = Inr (Edit None)"
  "parse_goal_command (js ''pause'') = Inr Pause" "parse_goal_command (js ''resume'') = Inr (Resume No_change)"
  "parse_goal_command (js ''clear'') = Inr Clear"
proof -
  have "trim [] = []" by (simp add: trim_def)
  moreover have "drop 4 (js ''edit'') = []" by (simp add: js_def)
  ultimately show "parse_goal_command [] = Inr Show" "parse_goal_command (js ''edit'') = Inr (Edit None)"
    "parse_goal_command (js ''pause'') = Inr Pause" "parse_goal_command (js ''resume'') = Inr (Resume No_change)"
    "parse_goal_command (js ''clear'') = Inr Clear"
    using parse_word [of "js ''edit''"] parse_word [of "js ''pause''"] parse_word [of "js ''resume''"]
      parse_word [of "js ''clear''"]
    by (simp_all add: parse_goal_command_def parse_edit_def parse_resume_def Let_def)
qed

text \<open>
  Every command can be typed: the canonical spelling of a command parses back to it, for every
  budget up to the largest safe integer, every objective of words (reserved words included) after
  \<open>--\<close>, and every trimmed text as an edited objective.
\<close>

theorem command_roundtrip:
  assumes "command_ok c"
  shows "parse_goal_command (print_command c) = Inr c"
  using assms parse_create parse_create_budget parse_edit_objective parse_resume_budget parse_simple
  by (cases c rule: print_command.cases) simp_all

theorem command_roundtrip_witness:
  "parse_goal_command (js ''-- pause it'') = Inr (Create (js ''pause it'') None)"
proof -
  have "worded (js ''pause it'')" by (simp add: worded_def word_def js_def is_js_space_def)
  with command_roundtrip [of "Create (js ''pause it'') None"] show ?thesis by (simp flip: js_append)
qed

text \<open>
  What the parser accepts is usable: a create or edit command has a nonempty trimmed objective,
  a budget is a positive safe integer, and the message for a reserved word is never given, since
  every reserved word has a form of its own.
\<close>

theorem parsed_command_valid:
  "case parse_goal_command args of
     Inr (Create obj b) \<Rightarrow> obj \<noteq> [] \<and> trim obj = obj \<and> (b = None \<or> (\<exists>n. b = Some n \<and> budget_ok n))
   | Inr (Edit (Some obj)) \<Rightarrow> obj \<noteq> [] \<and> trim obj = obj
   | Inr (Resume (New_budget n)) \<Rightarrow> budget_ok n
   | Inl (Reserved_word _ _) \<Rightarrow> False
   | _ \<Rightarrow> True"
proof -
  have b: "budget_ok n" if "budget_at i ts = Some n" for i ts n
    using that parse_budget_token_bounds by (auto simp: budget_at_def budget_ok_def split: if_splits)
  have "case parse_tokens_form ts of
     Inr (Create obj x) \<Rightarrow> obj \<noteq> [] \<and> trim obj = obj \<and> (x = None \<or> (\<exists>n. x = Some n \<and> budget_ok n))
   | Inr (Edit (Some obj)) \<Rightarrow> obj \<noteq> [] \<and> trim obj = obj | Inr (Resume (New_budget n)) \<Rightarrow> budget_ok n
   | Inl (Reserved_word _ _) \<Rightarrow> False | _ \<Rightarrow> True" for ts
    using b by (auto simp: parse_tokens_form_def Let_def split: option.splits)
  moreover have "case parse_edit raw of
     Inr (Create obj x) \<Rightarrow> obj \<noteq> [] \<and> trim obj = obj \<and> (x = None \<or> (\<exists>n. x = Some n \<and> budget_ok n))
   | Inr (Edit (Some obj)) \<Rightarrow> obj \<noteq> [] \<and> trim obj = obj | Inr (Resume (New_budget n)) \<Rightarrow> budget_ok n
   | Inl (Reserved_word _ _) \<Rightarrow> False | _ \<Rightarrow> True" for raw
    by (auto simp: parse_edit_def Let_def)
  moreover have "case parse_resume ts of
     Inr (Create obj x) \<Rightarrow> obj \<noteq> [] \<and> trim obj = obj \<and> (x = None \<or> (\<exists>n. x = Some n \<and> budget_ok n))
   | Inr (Edit (Some obj)) \<Rightarrow> obj \<noteq> [] \<and> trim obj = obj | Inr (Resume (New_budget n)) \<Rightarrow> budget_ok n
   | Inl (Reserved_word _ _) \<Rightarrow> False | _ \<Rightarrow> True" for ts
    using b by (auto simp: parse_resume_def Let_def split: option.splits)
  ultimately show ?thesis
    unfolding parse_goal_command_def Let_def RESERVED_def by (auto simp only: if_splits split: if_splits) (auto)
qed

end
