(* ===== verification/Paths.thy ===== *)
theory Paths
  imports Prelude
begin

text \<open>
  \<open>PathRegistry\<close> of \<open>ponygirls-subagents/src/scheduler.ts\<close>: the canonical task paths of the agent
  tree and the slug a task name becomes. \<open>lower\<close> is \<open>String.prototype.toLowerCase\<close>; nothing is
  assumed of it, the facts hold for any function in its place.
\<close>

section \<open>The slug of a task name\<close>

definition is_slug_char :: "nat \<Rightarrow> bool" where
  "is_slug_char c \<longleftrightarrow> (97 \<le> c \<and> c \<le> 122) \<or> (48 \<le> c \<and> c \<le> 57)"

text \<open>\<open>replace(/[^a-z0-9]+/g, "-")\<close>: every maximal run of other characters is one dash (45).\<close>

fun dash_runs :: "bool \<Rightarrow> jstring \<Rightarrow> jstring" where
  "dash_runs in_run [] = []"
| "dash_runs in_run (c # cs) =
     (if is_slug_char c then c # dash_runs False cs
      else if in_run then dash_runs True cs else 45 # dash_runs True cs)"

text \<open>\<open>replace(/^-+|-+$/g, "")\<close>.\<close>

definition strip_dashes :: "jstring \<Rightarrow> jstring" where
  "strip_dashes s = rev (dropWhile (\<lambda>c. c = 45) (rev (dropWhile (\<lambda>c. c = 45) s)))"

definition slug :: "(jstring \<Rightarrow> jstring) \<Rightarrow> jstring \<Rightarrow> jstring" where
  "slug lower task_name =
     (let s = take 48 (strip_dashes (dash_runs False (lower (trim task_name)))) in
      if s = [] then js ''agent'' else s)"

definition child_path :: "(jstring \<Rightarrow> jstring) \<Rightarrow> jstring \<Rightarrow> jstring \<Rightarrow> jstring" where
  "child_path lower parent task_name = parent @ js ''/'' @ slug lower task_name"

lemma set_dash_runs: "c \<in> set (dash_runs b s) \<Longrightarrow> is_slug_char c \<or> c = 45"
  by (induction b s rule: dash_runs.induct) (auto split: if_splits)

lemma set_strip_dashes: "set (strip_dashes s) \<subseteq> set s"
  unfolding strip_dashes_def by (metis set_dropWhileD set_rev subsetI)

lemma hd_strip_dashes: "strip_dashes s \<noteq> [] \<Longrightarrow> hd (strip_dashes s) \<noteq> 45"
proof -
  assume ne: "strip_dashes s \<noteq> []"
  then have "hd (strip_dashes s) = hd (dropWhile (\<lambda>c. c = 45) s)"
    unfolding strip_dashes_def by (rule rev_dropWhile_rev_hd)
  moreover have "dropWhile (\<lambda>c. c = 45) s \<noteq> []"
    using ne unfolding strip_dashes_def by (metis dropWhile.simps(1) rev.simps(1))
  ultimately show ?thesis using hd_dropWhile [of "\<lambda>c. c = 45" s] by simp
qed

lemma slug_chars: "c \<in> set (slug lower t) \<Longrightarrow> is_slug_char c \<or> c = 45"
proof -
  assume c: "c \<in> set (slug lower t)"
  let ?s = "take 48 (strip_dashes (dash_runs False (lower (trim t))))"
  have "\<forall>x \<in> set (js ''agent''). is_slug_char x" by (simp add: js_def is_slug_char_def)
  moreover have "\<forall>x \<in> set ?s. is_slug_char x \<or> x = 45"
  proof
    fix x assume "x \<in> set ?s"
    then have "x \<in> set (strip_dashes (dash_runs False (lower (trim t))))" by (rule in_set_takeD)
    then have "x \<in> set (dash_runs False (lower (trim t)))" by (rule set_mp [OF set_strip_dashes])
    then show "is_slug_char x \<or> x = 45" by (rule set_dash_runs)
  qed
  moreover have "c \<in> set (js ''agent'') \<or> c \<in> set ?s"
    using c unfolding slug_def Let_def by (cases "?s = []") simp_all
  ultimately show ?thesis by blast
qed

lemma no_slash_in_slug: "47 \<notin> set (slug lower t)"
  using slug_chars [of 47] by (auto simp: is_slug_char_def)

lemma slug_shape:
  "slug lower t \<noteq> [] \<and> length (slug lower t) \<le> 48 \<and> hd (slug lower t) \<noteq> 45"
proof -
  have "hd (js ''agent'') \<noteq> 45" "length (js ''agent'') \<le> 48" by (simp_all add: js_def)
  then show ?thesis
    using hd_strip_dashes [of "dash_runs False (lower (trim t))"]
    by (auto simp: slug_def Let_def hd_take)
qed

lemma split_at_last_slash:
  assumes "p @ 47 # a = q @ 47 # b" and "47 \<notin> set a" and "47 \<notin> set b"
  shows "p = q \<and> a = (b :: jstring)"
proof -
  have "takeWhile (\<lambda>c. c \<noteq> 47) (rev (p @ 47 # a)) = rev a"
    using assms(2) by (simp add: takeWhile_append)
  moreover have "takeWhile (\<lambda>c. c \<noteq> 47) (rev (q @ 47 # b)) = rev b"
    using assms(3) by (simp add: takeWhile_append)
  ultimately have "a = b" using assms(1) by simp
  with assms(1) show ?thesis by simp
qed

section \<open>The registry\<close>

record path_registry =
  taken :: "jstring list"
  tombstones :: "jstring list"

definition new_registry :: path_registry where
  "new_registry = \<lparr>taken = [js ''/root''], tombstones = []\<rparr>"

text \<open>\<open>False\<close> is the result with code \<open>CONFLICT\<close>.\<close>

definition reserve_path :: "jstring \<Rightarrow> path_registry \<Rightarrow> bool \<times> path_registry" where
  "reserve_path p r =
     (if p \<in> set (taken r) \<or> p \<in> set (tombstones r) then (False, r)
      else (True, r\<lparr>taken := set_add p (taken r)\<rparr>))"

definition retire_path :: "jstring \<Rightarrow> path_registry \<Rightarrow> path_registry" where
  "retire_path p r = r\<lparr>taken := set_delete p (taken r), tombstones := set_add p (tombstones r)\<rparr>"

definition release_path :: "jstring \<Rightarrow> path_registry \<Rightarrow> path_registry" where
  "release_path p r = r\<lparr>taken := set_delete p (taken r)\<rparr>"

definition is_taken :: "jstring \<Rightarrow> path_registry \<Rightarrow> bool" where
  "is_taken p r \<longleftrightarrow> p \<in> set (taken r) \<or> p \<in> set (tombstones r)"

datatype path_op = Reserve_path jstring | Retire_path jstring | Release_path jstring

fun path_step :: "path_op \<Rightarrow> path_registry \<Rightarrow> bool \<times> path_registry" where
  "path_step (Reserve_path p) r = reserve_path p r"
| "path_step (Retire_path p) r = (True, retire_path p r)"
| "path_step (Release_path p) r = (True, release_path p r)"

fun run_paths :: "path_op list \<Rightarrow> path_registry \<Rightarrow> bool list \<times> path_registry" where
  "run_paths [] r = ([], r)"
| "run_paths (op # ops) r =
     (case path_step op r of (b, r1) \<Rightarrow> case run_paths ops r1 of (bs, r2) \<Rightarrow> (b # bs, r2))"

lemma path_step_taken:
  "path_step op r = (b, r') \<Longrightarrow>
     (p \<in> set (tombstones r) \<longrightarrow> p \<in> set (tombstones r')) \<and>
     (is_taken p r \<longrightarrow> op \<noteq> Release_path p \<longrightarrow> is_taken p r') \<and>
     (op = Reserve_path p \<longrightarrow> b = (\<not> is_taken p r)) \<and> (op = Reserve_path p \<longrightarrow> is_taken p r')"
  by (cases op) (auto simp: reserve_path_def retire_path_def release_path_def is_taken_def split: if_splits)

lemma run_paths_tombstone:
  "run_paths ops r = (bs, r') \<Longrightarrow> p \<in> set (tombstones r) \<Longrightarrow> p \<in> set (tombstones r')"
proof (induction ops arbitrary: r bs)
  case (Cons op ops)
  obtain b r1 where s: "path_step op r = (b, r1)" by fastforce
  obtain bs1 where "run_paths ops r1 = (bs1, r')" using Cons.prems(1) s by (auto split: prod.splits)
  with Cons.IH path_step_taken [OF s, of p] Cons.prems(2) show ?case by blast
qed simp

lemma run_paths_taken:
  "run_paths ops r = (bs, r') \<Longrightarrow> is_taken p r \<Longrightarrow> Release_path p \<notin> set ops \<Longrightarrow> is_taken p r'"
proof (induction ops arbitrary: r bs)
  case (Cons op ops)
  obtain b r1 where s: "path_step op r = (b, r1)" by fastforce
  obtain bs1 where "run_paths ops r1 = (bs1, r')" using Cons.prems(1) s by (auto split: prod.splits)
  with Cons.IH path_step_taken [OF s, of p] Cons.prems(2,3) show ?case by (metis list.set_intros)
qed simp

section \<open>Properties\<close>

text \<open>
  A child's path is its parent's path and one more segment: for every task name the segment is
  one to 48 characters of \<open>a-z\<close>, \<open>0-9\<close> and dash that do not start with a dash, so that two agents
  with the same path have the same parent path and the same segment.
\<close>

theorem child_path_segment:
  "\<exists>s. child_path lower parent t = parent @ js ''/'' @ s \<and> s \<noteq> [] \<and> length s \<le> 48 \<and> hd s \<noteq> 45 \<and>
     list_all (\<lambda>c. is_slug_char c \<or> c = 45) s \<and>
     (child_path lower parent t = child_path lower parent2 t2) = (parent = parent2 \<and> s = slug lower t2)"
proof -
  have "js ''/'' = [47]" by (simp add: js_def)
  then have "(child_path lower parent t = child_path lower parent2 t2) = (parent = parent2 \<and> slug lower t = slug lower t2)"
    using split_at_last_slash [of parent "slug lower t" parent2 "slug lower t2"] no_slash_in_slug
    by (auto simp: child_path_def)
  moreover have "list_all (\<lambda>c. is_slug_char c \<or> c = 45) (slug lower t)"
    using slug_chars by (auto simp: list_all_iff)
  ultimately show ?thesis
    using slug_shape [of lower t] by (intro exI [of _ "slug lower t"]) (auto simp: child_path_def)
qed

text \<open>
  A retired path is never used again: whatever reservations, retirements and releases follow
  the retirement of a path, reserving it fails; and between two successful reservations of a path
  there is a release of it.
\<close>

theorem retired_path_not_reused:
  "(case run_paths ops (retire_path p r) of (_, r1) \<Rightarrow> \<not> fst (reserve_path p r1)) \<and>
   (case reserve_path p r of (_, r1) \<Rightarrow> case run_paths ops r1 of (_, r2) \<Rightarrow>
      Release_path p \<in> set ops \<or> \<not> fst (reserve_path p r2))"
proof
  obtain bs r1 where run: "run_paths ops (retire_path p r) = (bs, r1)" by fastforce
  have "p \<in> set (tombstones (retire_path p r))" by (simp add: retire_path_def)
  from run_paths_tombstone [OF run this] run
  show "case run_paths ops (retire_path p r) of (_, r1) \<Rightarrow> \<not> fst (reserve_path p r1)"
    by (simp add: reserve_path_def)
  obtain b r2 where res: "reserve_path p r = (b, r2)" by fastforce
  obtain bs2 r3 where run2: "run_paths ops r2 = (bs2, r3)" by fastforce
  have "is_taken p r2" using res path_step_taken [of "Reserve_path p" r b r2 p] by simp
  with run_paths_taken [OF run2] res run2
  show "case reserve_path p r of (_, r1) \<Rightarrow> case run_paths ops r1 of (_, r2) \<Rightarrow>
      Release_path p \<in> set ops \<or> \<not> fst (reserve_path p r2)"
    by (auto simp: reserve_path_def is_taken_def)
qed

theorem retired_path_not_reused_witness:
  "\<not> fst (reserve_path (js ''/root/a'')
     (snd (run_paths [Release_path (js ''/root/a''), Reserve_path (js ''/root/a'')]
        (retire_path (js ''/root/a'') new_registry))))"
  using retired_path_not_reused [of "js ''/root/a''" "[Release_path (js ''/root/a''), Reserve_path (js ''/root/a'')]"
      new_registry]
  by (auto split: prod.splits)

end
