(* ===== verification/Scheduler.thy ===== *)
theory Scheduler
  imports Prelude
begin

text \<open>
  \<open>AdmissionScheduler\<close> and \<open>PathRegistry\<close> of \<open>ponygirls-subagents/src/scheduler.ts\<close>: runnable and
  resident leases, the fair admission queue, agent creation reservations, and the registry of task
  paths.

  The promise a queued acquisition returns is a number; \<open>s_settled\<close> is the order in which promises
  were resolved, and with what (a second resolution of a promise does nothing). A \<open>Set\<close> is its
  list of elements and a \<open>Map\<close> its list of entries, both in insertion order. A thrown error is
  \<open>Inl\<close> and leaves the state as it was.
\<close>

section \<open>State\<close>

record sched_limits =
  max_runnable :: int
  max_resident :: int
  max_open :: int

definition DEFAULT_LIMITS :: sched_limits where
  "DEFAULT_LIMITS = \<lparr>max_runnable = 4, max_resident = 8, max_open = 32\<rparr>"

record lease_ticket =
  lease_id :: jstring
  lt_owner :: jstring
  lt_runnable :: bool

record waiter =
  w_promise :: nat
  w_owner :: jstring
  w_runnable :: bool

record sched =
  s_limits :: sched_limits
  runnable_held :: int
  resident_held :: int
  agents_created :: int
  open_agents :: "jstring list"
  reservations :: "(nat \<times> int) list"
  next_reservation :: nat
  leases :: "(jstring \<times> lease_ticket) list"
  s_queue :: "waiter list"
  next_lease :: nat
  s_promises :: nat
  s_settled :: "(nat \<times> lease_ticket option) list"

definition new_sched :: "sched_limits \<Rightarrow> sched" where
  "new_sched limits = \<lparr>s_limits = limits, runnable_held = 0, resident_held = 0, agents_created = 0,
     open_agents = [], reservations = [], next_reservation = 1, leases = [], s_queue = [],
     next_lease = 1, s_promises = 0, s_settled = []\<rparr>"

datatype sched_error = Invalid_count | Creation_conflict | Open_exhausted int int int

section \<open>Leases\<close>

definition lease_name :: "nat \<Rightarrow> jstring" where
  "lease_name n = js ''lease-'' @ digits_of n"

text \<open>A fresh ticket, entered into the lease table. The counters are the caller's.\<close>

definition new_lease :: "jstring \<Rightarrow> bool \<Rightarrow> sched \<Rightarrow> lease_ticket \<times> sched" where
  "new_lease owner runnable s =
     (let t = \<lparr>lease_id = lease_name (next_lease s), lt_owner = owner, lt_runnable = runnable\<rparr> in
      (t, s\<lparr>next_lease := Suc (next_lease s), leases := map_put (lease_id t) t (leases s)\<rparr>))"

definition resolve :: "nat \<Rightarrow> lease_ticket option \<Rightarrow> sched \<Rightarrow> sched" where
  "resolve p v s = (if p \<in> fst ` set (s_settled s) then s else s\<lparr>s_settled := s_settled s @ [(p, v)]\<rparr>)"

definition try_acquire_runnable :: "jstring \<Rightarrow> sched \<Rightarrow> lease_ticket option \<times> sched" where
  "try_acquire_runnable owner s =
     (if length (s_queue s) > 0 \<or> runnable_held s \<ge> max_runnable (s_limits s) then (None, s)
      else case new_lease owner True s of (t, s) \<Rightarrow> (Some t, s\<lparr>runnable_held := runnable_held s + 1\<rparr>))"

definition has_runnable_capacity :: "sched \<Rightarrow> bool" where
  "has_runnable_capacity s \<longleftrightarrow> length (s_queue s) = 0 \<and> runnable_held s < max_runnable (s_limits s)"

definition acquire_runnable_queued :: "jstring \<Rightarrow> sched \<Rightarrow> nat \<times> sched" where
  "acquire_runnable_queued owner s0 =
     (case try_acquire_runnable owner s0 of (immediate, s1) \<Rightarrow>
      let p = s_promises s1; s = s1\<lparr>s_promises := Suc p\<rparr> in
      case immediate of
        Some t \<Rightarrow> (p, resolve p (Some t) s)
      | None \<Rightarrow> (p, s\<lparr>s_queue := s_queue s @ [\<lparr>w_promise = p, w_owner = owner, w_runnable = True\<rparr>]\<rparr>))"

text \<open>The \<open>cancel\<close> closure of a queued acquisition; that of an immediate one does nothing.\<close>

definition cancel_queued :: "nat \<Rightarrow> sched \<Rightarrow> sched" where
  "cancel_queued p s = resolve p None (s\<lparr>s_queue := filter (\<lambda>w. w_promise w \<noteq> p) (s_queue s)\<rparr>)"

function pump_queue :: "sched \<Rightarrow> sched" where
  "pump_queue s =
     (case s_queue s of
        [] \<Rightarrow> s
      | w # ws \<Rightarrow>
        if runnable_held s < max_runnable (s_limits s) then
          (case new_lease (w_owner w) True (s\<lparr>s_queue := ws\<rparr>) of (t, s1) \<Rightarrow>
           pump_queue (resolve (w_promise w) (Some t) (s1\<lparr>runnable_held := runnable_held s1 + 1\<rparr>)))
        else s)"
  by pat_completeness auto

termination
  by (relation "measure (\<lambda>s. length (s_queue s))") (auto simp: new_lease_def resolve_def Let_def)

declare pump_queue.simps [simp del]

definition release_lease :: "lease_ticket \<Rightarrow> sched \<Rightarrow> sched" where
  "release_lease ticket s0 =
     (case map_of (leases s0) (lease_id ticket) of
        None \<Rightarrow> s0
      | Some held \<Rightarrow>
        let s = s0\<lparr>leases := map_del (lease_id ticket) (leases s0)\<rparr> in
        pump_queue (if lt_runnable held then s\<lparr>runnable_held := max 0 (runnable_held s - 1)\<rparr>
                    else s\<lparr>resident_held := max 0 (resident_held s - 1)\<rparr>))"

definition try_acquire_resident :: "jstring \<Rightarrow> sched \<Rightarrow> lease_ticket option \<times> sched" where
  "try_acquire_resident owner s =
     (if resident_held s \<ge> max_resident (s_limits s) then (None, s)
      else case new_lease owner False s of (t, s) \<Rightarrow> (Some t, s\<lparr>resident_held := resident_held s + 1\<rparr>))"

section \<open>Agent creation\<close>

definition reserved_agent_count :: "sched \<Rightarrow> int" where
  "reserved_agent_count s = sum_list (map snd (reservations s))"

definition reserve_agent_creation :: "js_num \<Rightarrow> sched \<Rightarrow> (sched_error + nat) \<times> sched" where
  "reserve_agent_creation count s =
     (case count of
        Fin q \<Rightarrow>
          if \<not> is_safe_integer (Fin q) \<or> q \<le> 0 then (Inl Invalid_count, s)
          else
            let n = \<lfloor>q\<rfloor>; reserved = reserved_agent_count s in
            if int (length (open_agents s)) + reserved + n > max_open (s_limits s) then
              (Inl (Open_exhausted (int (length (open_agents s))) reserved n), s)
            else
              let r = next_reservation s in
              (Inr r, s\<lparr>next_reservation := Suc r, reservations := map_put r n (reservations s)\<rparr>)
      | _ \<Rightarrow> (Inl Invalid_count, s))"

definition commit_agent_creation :: "nat \<Rightarrow> jstring \<Rightarrow> sched \<Rightarrow> (sched_error + unit) \<times> sched" where
  "commit_agent_creation r agent s0 =
     (case map_of (reservations s0) r of
        None \<Rightarrow> (Inl Creation_conflict, s0)
      | Some remaining \<Rightarrow>
        if remaining = 0 \<or> agent \<in> set (open_agents s0) then (Inl Creation_conflict, s0)
        else
          let s = (if remaining = 1 then s0\<lparr>reservations := map_del r (reservations s0)\<rparr>
                   else s0\<lparr>reservations := map_put r (remaining - 1) (reservations s0)\<rparr>)
          in (Inr (), s\<lparr>open_agents := set_add agent (open_agents s), agents_created := agents_created s + 1\<rparr>))"

definition cancel_agent_creation :: "nat \<Rightarrow> sched \<Rightarrow> sched" where
  "cancel_agent_creation r s = s\<lparr>reservations := map_del r (reservations s)\<rparr>"

definition is_agent_open :: "jstring \<Rightarrow> sched \<Rightarrow> bool" where
  "is_agent_open agent s \<longleftrightarrow> agent \<in> set (open_agents s)"

definition release_agent :: "jstring \<Rightarrow> sched \<Rightarrow> sched" where
  "release_agent agent s = s\<lparr>open_agents := set_delete agent (open_agents s)\<rparr>"

definition set_limits :: "int option \<Rightarrow> int option \<Rightarrow> int option \<Rightarrow> sched \<Rightarrow> sched" where
  "set_limits runnable resident opened s =
     (let keep = (\<lambda>old new. case new of None \<Rightarrow> old | Some v \<Rightarrow> v) in
      s\<lparr>s_limits := \<lparr>max_runnable = keep (max_runnable (s_limits s)) runnable,
                     max_resident = keep (max_resident (s_limits s)) resident,
                     max_open = keep (max_open (s_limits s)) opened\<rparr>\<rparr>)"

record capacity_snapshot =
  cs_runnable :: int
  cs_resident :: int
  cs_queued :: int
  cs_created :: int
  cs_open :: int
  cs_reserved :: int
  cs_limits :: sched_limits

definition snapshot :: "sched \<Rightarrow> capacity_snapshot" where
  "snapshot s = \<lparr>cs_runnable = runnable_held s, cs_resident = resident_held s, cs_queued = int (length (s_queue s)),
     cs_created = agents_created s, cs_open = int (length (open_agents s)), cs_reserved = reserved_agent_count s,
     cs_limits = s_limits s\<rparr>"

definition restore_snapshot :: "int \<Rightarrow> jstring list \<Rightarrow> sched \<Rightarrow> sched" where
  "restore_snapshot created ids s =
     s\<lparr>agents_created := created, open_agents := foldl (\<lambda>xs x. set_add x xs) [] ids, reservations := []\<rparr>"

section \<open>Runs\<close>

text \<open>One call of an operation; \<open>cancel\<close> exists only for a promise that was returned.\<close>

datatype sched_op =
  Try_acquire jstring | Acquire_queued jstring | Cancel_wait nat | Release_lease lease_ticket
| Acquire_resident jstring | Reserve_agents js_num | Commit_agent nat jstring | Cancel_reservation nat
| Release_agent jstring | Set_limits "int option" "int option" "int option" | Restore_snapshot int "jstring list"

fun sched_step :: "sched_op \<Rightarrow> sched \<Rightarrow> sched" where
  "sched_step (Try_acquire owner) s = snd (try_acquire_runnable owner s)"
| "sched_step (Acquire_queued owner) s = snd (acquire_runnable_queued owner s)"
| "sched_step (Cancel_wait p) s = (if p < s_promises s then cancel_queued p s else s)"
| "sched_step (Release_lease t) s = release_lease t s"
| "sched_step (Acquire_resident owner) s = snd (try_acquire_resident owner s)"
| "sched_step (Reserve_agents n) s = snd (reserve_agent_creation n s)"
| "sched_step (Commit_agent r a) s = snd (commit_agent_creation r a s)"
| "sched_step (Cancel_reservation r) s = cancel_agent_creation r s"
| "sched_step (Release_agent a) s = release_agent a s"
| "sched_step (Set_limits runnable resident opened) s = set_limits runnable resident opened s"
| "sched_step (Restore_snapshot created ids) s = restore_snapshot created ids s"

text \<open>
  Two operations are not bound by the limits in force: \<open>setLimits\<close> replaces them, and
  \<open>restoreSnapshot\<close> replaces the open agents by those of a journal. \<open>op_within b\<close> says that such a
  call stays within the bounds \<open>b\<close>.
\<close>

fun keeps_limits :: "sched_op \<Rightarrow> bool" where
  "keeps_limits (Set_limits runnable resident opened) = False"
| "keeps_limits (Restore_snapshot created ids) = False"
| "keeps_limits _ = True"

fun sets_runnable :: "sched_op \<Rightarrow> bool" where
  "sets_runnable (Set_limits runnable resident opened) = (runnable \<noteq> None)"
| "sets_runnable _ = False"

fun op_within :: "sched_limits \<Rightarrow> sched_op \<Rightarrow> bool" where
  "op_within b (Set_limits runnable resident opened) =
     ((case runnable of None \<Rightarrow> True | Some n \<Rightarrow> n \<le> max_runnable b) \<and>
      (case resident of None \<Rightarrow> True | Some n \<Rightarrow> n \<le> max_resident b) \<and>
      (case opened of None \<Rightarrow> True | Some n \<Rightarrow> n \<le> max_open b))"
| "op_within b (Restore_snapshot created ids) = (int (card (set ids)) \<le> max_open b)"
| "op_within b _ = True"

definition limits_within :: "sched_limits \<Rightarrow> sched_limits \<Rightarrow> bool" where
  "limits_within l b \<longleftrightarrow> max_runnable l \<le> max_runnable b \<and> max_resident l \<le> max_resident b \<and> max_open l \<le> max_open b"

definition run_sched :: "sched_op list \<Rightarrow> sched \<Rightarrow> sched" where
  "run_sched ops s = fold sched_step ops s"

section \<open>Invariants\<close>

text \<open>
  The invariants are stated for bounds \<open>b\<close> on the limits in force, which are those limits while
  nobody changes them; \<open>wc\<close> says that the invariant includes work conservation.
\<close>

definition lease_inv :: "sched_limits \<Rightarrow> sched \<Rightarrow> bool" where
  "lease_inv b s \<longleftrightarrow>
     distinct (map fst (leases s)) \<and>
     (\<forall>kt \<in> set (leases s). lease_id (snd kt) = fst kt \<and> fst kt \<in> lease_name ` {..< next_lease s}) \<and>
     runnable_held s = int (length (filter (\<lambda>kt. lt_runnable (snd kt)) (leases s))) \<and>
     resident_held s = int (length (filter (\<lambda>kt. \<not> lt_runnable (snd kt)) (leases s))) \<and>
     runnable_held s \<le> max_runnable b \<and> resident_held s \<le> max_resident b \<and>
     max_runnable (s_limits s) \<le> max_runnable b \<and> max_resident (s_limits s) \<le> max_resident b"

text \<open>No waiter is queued while a lease is free.\<close>

definition work_conserving :: "sched \<Rightarrow> bool" where
  "work_conserving s \<longleftrightarrow> s_queue s = [] \<or> max_runnable (s_limits s) \<le> runnable_held s"

text \<open>The promises that were granted a lease, in the order they were.\<close>

definition granted :: "sched \<Rightarrow> nat list" where
  "granted s = map fst (filter (\<lambda>pv. snd pv \<noteq> None) (s_settled s))"

definition queue_inv :: "sched \<Rightarrow> bool" where
  "queue_inv s \<longleftrightarrow>
     sorted_wrt (<) (granted s @ map w_promise (s_queue s)) \<and>
     distinct (map fst (s_settled s) @ map w_promise (s_queue s)) \<and>
     set (map fst (s_settled s) @ map w_promise (s_queue s)) = {..< s_promises s}"

definition agent_inv :: "sched_limits \<Rightarrow> sched \<Rightarrow> bool" where
  "agent_inv b s \<longleftrightarrow>
     distinct (open_agents s) \<and> distinct (map fst (reservations s)) \<and>
     (\<forall>(r, n) \<in> set (reservations s). 0 < n \<and> r < next_reservation s) \<and>
     int (length (open_agents s)) + reserved_agent_count s \<le> max_open b \<and> max_open (s_limits s) \<le> max_open b"

definition limits_ok :: "sched_limits \<Rightarrow> bool" where
  "limits_ok l \<longleftrightarrow> 0 \<le> max_runnable l \<and> 0 \<le> max_resident l \<and> 0 \<le> max_open l"

lemma lease_name_eq_iff [simp]: "lease_name m = lease_name n \<longleftrightarrow> m = n"
  by (simp add: lease_name_def)

lemma new_lease_simps:
  assumes "new_lease owner b s = (t, s')"
  shows "t = \<lparr>lease_id = lease_name (next_lease s), lt_owner = owner, lt_runnable = b\<rparr>"
    "s' = s\<lparr>next_lease := Suc (next_lease s), leases := map_put (lease_name (next_lease s)) t (leases s)\<rparr>"
  using assms by (auto simp: new_lease_def Let_def)

lemma lease_inv_fresh: "lease_inv b s \<Longrightarrow> lease_name (next_lease s) \<notin> fst ` set (leases s)"
  by (force simp: lease_inv_def)

lemma lease_inv_grant:
  assumes inv: "lease_inv b s" and new: "new_lease owner True s = (t, s')"
    and room: "runnable_held s < max_runnable (s_limits s)"
  shows "lease_inv b (s'\<lparr>runnable_held := runnable_held s' + 1\<rparr>)"
  using assms lease_inv_fresh [OF inv]
  by (auto simp: lease_inv_def new_lease_simps [OF new] map_put_fresh lessThan_Suc)

lemma lease_inv_resident:
  assumes inv: "lease_inv b s" and new: "new_lease owner False s = (t, s')"
    and room: "resident_held s < max_resident (s_limits s)"
  shows "lease_inv b (s'\<lparr>resident_held := resident_held s' + 1\<rparr>)"
  using assms lease_inv_fresh [OF inv]
  by (auto simp: lease_inv_def new_lease_simps [OF new] map_put_fresh lessThan_Suc)

lemma pump_queue_cong:
  "s_queue s = [] \<Longrightarrow> pump_queue s = s"
  "\<not> runnable_held s < max_runnable (s_limits s) \<Longrightarrow> pump_queue s = s"
  by (subst pump_queue.simps, simp split: list.splits)+

lemma pump_queue_grant:
  assumes "s_queue s = w # ws" and "runnable_held s < max_runnable (s_limits s)"
    and "new_lease (w_owner w) True (s\<lparr>s_queue := ws\<rparr>) = (t, s1)"
  shows "pump_queue s = pump_queue (resolve (w_promise w) (Some t) (s1\<lparr>runnable_held := runnable_held s1 + 1\<rparr>))"
  using assms by (subst pump_queue.simps) simp

lemma resolve_frame [simp]:
  "leases (resolve p v s) = leases s" "runnable_held (resolve p v s) = runnable_held s"
  "resident_held (resolve p v s) = resident_held s" "s_limits (resolve p v s) = s_limits s"
  "next_lease (resolve p v s) = next_lease s" "s_queue (resolve p v s) = s_queue s"
  "open_agents (resolve p v s) = open_agents s" "reservations (resolve p v s) = reservations s"
  "next_reservation (resolve p v s) = next_reservation s" "s_promises (resolve p v s) = s_promises s"
  by (simp_all add: resolve_def)

lemma lease_inv_frame [simp]:
  "lease_inv b (resolve p v s) = lease_inv b s" "lease_inv b (s\<lparr>s_queue := q\<rparr>) = lease_inv b s"
  "lease_inv b (s\<lparr>s_promises := n\<rparr>) = lease_inv b s"
  by (simp_all add: lease_inv_def)

lemma agent_inv_frame [simp]:
  "agent_inv b (resolve p v s) = agent_inv b s" "agent_inv b (s\<lparr>s_queue := q\<rparr>) = agent_inv b s"
  "agent_inv b (s\<lparr>runnable_held := n\<rparr>) = agent_inv b s" "agent_inv b (s\<lparr>resident_held := n\<rparr>) = agent_inv b s"
  "agent_inv b (s\<lparr>leases := x\<rparr>) = agent_inv b s" "agent_inv b (s\<lparr>s_promises := m\<rparr>) = agent_inv b s"
  "agent_inv b (s\<lparr>next_lease := m\<rparr>) = agent_inv b s"
  by (simp_all add: agent_inv_def reserved_agent_count_def)

lemma granted_resolve_new:
  "p \<notin> fst ` set (s_settled s) \<Longrightarrow>
   granted (resolve p (Some t) s) = granted s @ [p] \<and> granted (resolve p None s) = granted s"
  by (simp add: granted_def resolve_def)

lemma queue_inv_frame:
  "s_settled s' = s_settled s \<Longrightarrow> s_queue s' = s_queue s \<Longrightarrow> s_promises s' = s_promises s \<Longrightarrow>
   queue_inv s' = queue_inv s"
  by (simp add: queue_inv_def granted_def)

lemma granted_subset: "set (granted s) \<subseteq> fst ` set (s_settled s)"
  by (auto simp: granted_def)

lemma queue_inv_below:
  assumes "queue_inv s"
  shows "\<forall>x \<in> fst ` set (s_settled s) \<union> w_promise ` set (s_queue s) \<union> set (granted s). x < s_promises s"
proof -
  have "fst ` set (s_settled s) \<union> w_promise ` set (s_queue s) = {..< s_promises s}"
    using assms by (simp add: queue_inv_def)
  with granted_subset [of s] show ?thesis by blast
qed

lemma queue_inv_hand_over:
  assumes "queue_inv s" and "s_queue s = w # ws" and "s_queue s1 = ws" and "s_settled s1 = s_settled s"
    and "s_promises s1 = s_promises s"
  shows "queue_inv (resolve (w_promise w) (Some t) s1)"
proof -
  have "w_promise w \<notin> fst ` set (s_settled s1)" using assms(1,2,4) by (auto simp: queue_inv_def)
  then have "granted (resolve (w_promise w) (Some t) s1) = granted s @ [w_promise w]"
    "s_settled (resolve (w_promise w) (Some t) s1) = s_settled s @ [(w_promise w, Some t)]"
    using assms(4) by (auto simp: granted_def resolve_def)
  with assms show ?thesis by (auto simp: queue_inv_def)
qed

lemma queue_inv_enqueue:
  assumes inv: "queue_inv s" and w: "w_promise w = s_promises s"
  shows "queue_inv (s\<lparr>s_promises := Suc (s_promises s), s_queue := s_queue s @ [w]\<rparr>)" (is "queue_inv ?s")
proof -
  have g: "granted ?s = granted s" by (simp add: granted_def)
  show ?thesis
    using inv queue_inv_below [OF inv] unfolding queue_inv_def g
    by (auto simp: w sorted_wrt_append lessThan_Suc)
qed

lemma queue_inv_immediate:
  assumes inv: "queue_inv s" and q: "s_queue s = []"
  shows "queue_inv (resolve (s_promises s) (Some t) (s\<lparr>s_promises := Suc (s_promises s)\<rparr>))" (is "queue_inv ?s")
proof -
  have "s_promises s \<notin> fst ` set (s_settled s)" using queue_inv_below [OF inv] by blast
  then have "s_settled ?s = s_settled s @ [(s_promises s, Some t)]" "granted ?s = granted s @ [s_promises s]"
    by (simp_all add: resolve_def granted_def)
  then show ?thesis
    using inv q queue_inv_below [OF inv] unfolding queue_inv_def
    by (simp add: sorted_wrt_append lessThan_Suc)
qed

lemma pump_queue_inv:
  assumes "lease_inv b s" and "queue_inv s" and "agent_inv b s"
  shows "lease_inv b (pump_queue s) \<and> queue_inv (pump_queue s) \<and> agent_inv b (pump_queue s) \<and>
    work_conserving (pump_queue s) \<and> s_limits (pump_queue s) = s_limits s"
  using assms
proof (induction s rule: pump_queue.induct)
  case (1 s)
  show ?case
  proof (cases "s_queue s = [] \<or> \<not> runnable_held s < max_runnable (s_limits s)")
    case True
    with 1 show ?thesis by (auto simp: pump_queue_cong work_conserving_def)
  next
    case False
    then obtain w ws where q: "s_queue s = w # ws" and room: "runnable_held s < max_runnable (s_limits s)"
      by (cases "s_queue s") auto
    obtain t s1 where new: "new_lease (w_owner w) True (s\<lparr>s_queue := ws\<rparr>) = (t, s1)" by fastforce
    note s1 = new_lease_simps(2) [OF new]
    let ?s2 = "resolve (w_promise w) (Some t) (s1\<lparr>runnable_held := runnable_held s1 + 1\<rparr>)"
    have "lease_inv b ?s2"
      using lease_inv_grant [OF _ new] "1.prems"(1) room by simp
    moreover have "queue_inv ?s2"
      by (rule queue_inv_hand_over [OF "1.prems"(2) q]) (simp_all add: s1)
    moreover have "agent_inv b ?s2" using "1.prems"(3) by (simp add: s1)
    moreover have "s_limits ?s2 = s_limits s" by (simp add: s1)
    ultimately show ?thesis using "1.IH" [OF q room new [symmetric]] pump_queue_grant [OF q room new] by simp
  qed
qed

lemma release_lease_frees:
  assumes inv: "lease_inv b s" and held: "map_of (leases s) (lease_id t) = Some h"
  shows "lease_inv b (if lt_runnable h then s\<lparr>leases := map_del (lease_id t) (leases s), runnable_held := max 0 (runnable_held s - 1)\<rparr>
     else s\<lparr>leases := map_del (lease_id t) (leases s), resident_held := max 0 (resident_held s - 1)\<rparr>)"
proof -
  have d: "distinct (map fst (leases s))" using inv by (simp add: lease_inv_def)
  note counts = length_filter_map_del [OF d held, of "\<lambda>kt. lt_runnable (snd kt)"]
    length_filter_map_del [OF d held, of "\<lambda>kt. \<not> lt_runnable (snd kt)"]
  show ?thesis
    using inv counts by (auto simp: lease_inv_def)
qed

definition sched_inv :: "sched_limits \<Rightarrow> bool \<Rightarrow> sched \<Rightarrow> bool" where
  "sched_inv b wc s \<longleftrightarrow> lease_inv b s \<and> queue_inv s \<and> agent_inv b s \<and> (wc \<longrightarrow> work_conserving s)"

lemma sched_inv_new: "limits_ok l \<Longrightarrow> limits_within l b \<Longrightarrow> sched_inv b wc (new_sched l)"
  by (auto simp: sched_inv_def lease_inv_def queue_inv_def agent_inv_def work_conserving_def new_sched_def
      limits_ok_def limits_within_def reserved_agent_count_def granted_def)

lemma try_acquire_runnable_inv:
  assumes "sched_inv b wc s" and "try_acquire_runnable owner s = (r, s')"
  shows "sched_inv b wc s' \<and> s_limits s' = s_limits s \<and> s_queue s' = s_queue s \<and> s_settled s' = s_settled s \<and>
    s_promises s' = s_promises s \<and> (r \<noteq> None \<longrightarrow> s_queue s = []) \<and>
    (r = None \<longrightarrow> (wc \<longrightarrow> max_runnable (s_limits s) \<le> runnable_held s) \<and> s' = s)"
proof (cases "length (s_queue s) > 0 \<or> runnable_held s \<ge> max_runnable (s_limits s)")
  case True
  with assms show ?thesis by (auto simp: try_acquire_runnable_def sched_inv_def work_conserving_def)
next
  case False
  obtain t s1 where new: "new_lease owner True s = (t, s1)" by fastforce
  note s1 = new_lease_simps(2) [OF new]
  have s': "r = Some t" "s' = s1\<lparr>runnable_held := runnable_held s1 + 1\<rparr>"
    using False assms(2) new by (auto simp: try_acquire_runnable_def)
  have "lease_inv b s'" unfolding s' using lease_inv_grant [OF _ new] assms(1) False by (simp add: sched_inv_def)
  moreover have "queue_inv s'" using assms(1) queue_inv_frame [of s' s] by (simp add: sched_inv_def s' s1)
  ultimately show ?thesis using assms(1) False by (simp add: sched_inv_def s' s1 work_conserving_def)
qed

lemma acquire_runnable_queued_inv:
  assumes "sched_inv b wc s" and "acquire_runnable_queued owner s = (p, s')"
  shows "sched_inv b wc s' \<and> s_limits s' = s_limits s \<and> p = s_promises s \<and>
    (max_runnable (s_limits s) \<le> runnable_held s \<longrightarrow> p \<in> w_promise ` set (s_queue s'))"
proof -
  obtain r s1 where tried: "try_acquire_runnable owner s = (r, s1)" by fastforce
  note t = try_acquire_runnable_inv [OF assms(1) tried]
  show ?thesis
  proof (cases r)
    case None
    define w where "w = \<lparr>w_promise = s_promises s1, w_owner = owner, w_runnable = True\<rparr>"
    have s': "s' = s1\<lparr>s_promises := Suc (s_promises s1), s_queue := s_queue s1 @ [w]\<rparr>" "p = s_promises s1"
      using None assms(2) tried by (auto simp: acquire_runnable_queued_def Let_def w_def)
    have "queue_inv s'"
      unfolding s' using t by (intro queue_inv_enqueue) (simp_all add: sched_inv_def w_def)
    with t None assms(1) show ?thesis by (simp add: sched_inv_def s' work_conserving_def w_def)
  next
    case (Some tk)
    have s': "s' = resolve (s_promises s1) (Some tk) (s1\<lparr>s_promises := Suc (s_promises s1)\<rparr>)" "p = s_promises s1"
      using Some assms(2) tried by (auto simp: acquire_runnable_queued_def Let_def)
    have q: "s_queue s1 = []" using t Some by simp
    have "queue_inv s'" unfolding s' using t q by (intro queue_inv_immediate) (simp_all add: sched_inv_def)
    moreover have "runnable_held s < max_runnable (s_limits s)"
      using Some tried by (auto simp: try_acquire_runnable_def split: if_splits)
    ultimately show ?thesis using t q by (simp add: sched_inv_def s' work_conserving_def)
  qed
qed

lemma cancel_queued_inv:
  assumes "sched_inv b wc s" and p: "p < s_promises s"
  shows "sched_inv b wc (cancel_queued p s) \<and> s_limits (cancel_queued p s) = s_limits s"
proof (cases "p \<in> fst ` set (s_settled s)")
  case True
  then have "filter (\<lambda>w. w_promise w \<noteq> p) (s_queue s) = s_queue s"
    using assms by (intro filter_True) (auto simp: sched_inv_def queue_inv_def)
  with True assms show ?thesis by (simp add: cancel_queued_def resolve_def)
next
  case False
  let ?q = "filter (\<lambda>w. w_promise w \<noteq> p) (s_queue s)"
  have q: "queue_inv s" using assms by (simp add: sched_inv_def)
  have q': "map w_promise ?q = filter (\<lambda>x. x \<noteq> p) (map w_promise (s_queue s))" by (simp add: filter_map o_def)
  have c: "cancel_queued p s = s\<lparr>s_queue := ?q, s_settled := s_settled s @ [(p, None)]\<rparr>"
    using False by (simp add: cancel_queued_def resolve_def)
  have g: "granted (cancel_queued p s) = granted s" by (simp add: c granted_def)
  have "queue_inv (cancel_queued p s)"
    unfolding queue_inv_def g using q False p
    by (auto simp: c queue_inv_def sorted_wrt_append sorted_wrt_filter sorted_wrt_map distinct_map inj_on_def)
  moreover have "wc \<longrightarrow> work_conserving (cancel_queued p s)"
    using assms by (auto simp: sched_inv_def work_conserving_def c)
  ultimately show ?thesis using assms by (simp add: sched_inv_def c lease_inv_def agent_inv_def reserved_agent_count_def)
qed

lemma release_lease_inv:
  assumes "sched_inv b wc s"
  shows "sched_inv b wc (release_lease t s) \<and> s_limits (release_lease t s) = s_limits s"
proof (cases "map_of (leases s) (lease_id t)")
  case None
  with assms show ?thesis by (simp add: release_lease_def)
next
  case (Some h)
  define s1 where "s1 = (if lt_runnable h
    then s\<lparr>leases := map_del (lease_id t) (leases s), runnable_held := max 0 (runnable_held s - 1)\<rparr>
    else s\<lparr>leases := map_del (lease_id t) (leases s), resident_held := max 0 (resident_held s - 1)\<rparr>)"
  have "lease_inv b s1" using release_lease_frees [OF _ Some] assms by (simp add: sched_inv_def s1_def)
  moreover have "queue_inv s1" using assms queue_inv_frame [of s1 s] by (simp add: sched_inv_def s1_def)
  moreover have "agent_inv b s1" using assms by (simp add: sched_inv_def s1_def)
  moreover have "release_lease t s = pump_queue s1" using Some by (simp add: release_lease_def s1_def)
  moreover have "s_limits s1 = s_limits s" by (simp add: s1_def)
  ultimately show ?thesis using pump_queue_inv [of b s1] by (simp add: sched_inv_def)
qed

lemma try_acquire_resident_inv:
  assumes "sched_inv b wc s"
  shows "sched_inv b wc (snd (try_acquire_resident owner s)) \<and> s_limits (snd (try_acquire_resident owner s)) = s_limits s"
proof -
  obtain t s1 where new: "new_lease owner False s = (t, s1)" by fastforce
  note s1 = new_lease_simps(2) [OF new]
  let ?s2 = "s1\<lparr>resident_held := resident_held s1 + 1\<rparr>"
  have "lease_inv b ?s2" if "\<not> resident_held s \<ge> max_resident (s_limits s)"
    using lease_inv_resident [OF _ new] assms that by (simp add: sched_inv_def)
  moreover have "queue_inv ?s2" using assms queue_inv_frame [of ?s2 s] by (simp add: sched_inv_def s1)
  moreover have "agent_inv b ?s2" "wc \<longrightarrow> work_conserving ?s2" using assms by (simp_all add: sched_inv_def s1 work_conserving_def)
  ultimately show ?thesis using assms new by (auto simp: try_acquire_resident_def sched_inv_def s1)
qed

lemma sched_inv_agents:
  assumes "sched_inv b wc s" and "leases s' = leases s" "runnable_held s' = runnable_held s" "resident_held s' = resident_held s"
    "s_limits s' = s_limits s" "s_queue s' = s_queue s" "s_settled s' = s_settled s" "s_promises s' = s_promises s"
    "next_lease s' = next_lease s" "agent_inv b s'"
  shows "sched_inv b wc s' \<and> s_limits s' = s_limits s"
proof -
  have "lease_inv b s'" using assms by (simp add: sched_inv_def lease_inv_def)
  with assms queue_inv_frame [of s' s] show ?thesis by (simp add: sched_inv_def work_conserving_def)
qed

lemma reserve_agent_creation_cases:
  assumes "reserve_agent_creation n s = (r, s')"
  shows "(\<exists>e. r = Inl e \<and> s' = s) \<or>
    (\<exists>m > 0. n = Fin (of_int m) \<and> m \<le> max_safe \<and> r = Inr (next_reservation s) \<and>
      int (length (open_agents s)) + reserved_agent_count s + m \<le> max_open (s_limits s) \<and>
      s' = s\<lparr>next_reservation := Suc (next_reservation s), reservations := map_put (next_reservation s) m (reservations s)\<rparr>)"
proof (cases n)
  case (Fin q)
  show ?thesis
  proof (cases "is_safe_integer (Fin q) \<and> 0 < q")
    case True
    then have q: "q = of_int \<lfloor>q\<rfloor>" by (simp add: is_int_rat_def)
    then obtain m where m: "q = of_int m" by blast
    with True have "0 < m" "m \<le> max_safe" by (auto simp: abs_of_int_le_iff)
    with True assms m Fin show ?thesis
      by (auto simp: reserve_agent_creation_def Let_def split: if_splits)
  next
    case False
    with assms Fin show ?thesis by (auto simp: reserve_agent_creation_def split: if_splits)
  qed
qed (use assms in \<open>auto simp: reserve_agent_creation_def\<close>)

lemma commit_agent_creation_cases:
  assumes "commit_agent_creation r a s = (x, s')"
  shows "(\<exists>e. x = Inl e \<and> s' = s) \<or>
    (\<exists>n. map_of (reservations s) r = Some n \<and> n \<noteq> 0 \<and> a \<notin> set (open_agents s) \<and> x = Inr () \<and>
      s' = s\<lparr>reservations := (if n = 1 then map_del r (reservations s) else map_put r (n - 1) (reservations s)),
             open_agents := open_agents s @ [a], agents_created := agents_created s + 1\<rparr>)"
  using assms by (auto simp: commit_agent_creation_def Let_def set_add_def split: option.splits if_splits)

lemma reserve_agent_creation_inv:
  assumes "sched_inv b wc s"
  shows "sched_inv b wc (snd (reserve_agent_creation n s)) \<and> s_limits (snd (reserve_agent_creation n s)) = s_limits s"
proof -
  obtain r s' where r: "reserve_agent_creation n s = (r, s')" by fastforce
  have a: "agent_inv b s" using assms by (simp add: sched_inv_def)
  then have fresh: "next_reservation s \<notin> fst ` set (reservations s)" by (force simp: agent_inv_def)
  from reserve_agent_creation_cases [OF r] show ?thesis
  proof (elim disjE exE conjE)
    fix m assume m: "0 < m" "int (length (open_agents s)) + reserved_agent_count s + m \<le> max_open (s_limits s)"
      "s' = s\<lparr>next_reservation := Suc (next_reservation s), reservations := map_put (next_reservation s) m (reservations s)\<rparr>"
    have "agent_inv b s'"
      using a fresh m by (auto simp: agent_inv_def m map_put_fresh reserved_agent_count_def)
    with sched_inv_agents [OF assms, of s'] m r show ?thesis by simp
  qed (use r assms in simp)
qed

lemma commit_agent_creation_inv:
  assumes "sched_inv b wc s"
  shows "sched_inv b wc (snd (commit_agent_creation k a s)) \<and> s_limits (snd (commit_agent_creation k a s)) = s_limits s"
proof -
  obtain r s' where r: "commit_agent_creation k a s = (r, s')" by fastforce
  have ai: "agent_inv b s" using assms by (simp add: sched_inv_def)
  then have d: "distinct (map fst (reservations s))" by (simp add: agent_inv_def)
  from commit_agent_creation_cases [OF r] show ?thesis
  proof (elim disjE exE conjE)
    fix n assume n: "map_of (reservations s) k = Some n" "n \<noteq> 0" "a \<notin> set (open_agents s)"
      "s' = s\<lparr>reservations := (if n = 1 then map_del k (reservations s) else map_put k (n - 1) (reservations s)),
             open_agents := open_agents s @ [a], agents_created := agents_created s + 1\<rparr>"
    have pos: "0 < n" "k < next_reservation s" using ai map_of_SomeD [OF n(1)] by (auto simp: agent_inv_def)
    have "reserved_agent_count s' = reserved_agent_count s - 1"
      using sum_map_del [OF d n(1)] sum_map_put [OF d n(1), of "n - 1"] by (auto simp: reserved_agent_count_def n(4))
    moreover have "\<forall>(r, m) \<in> set (reservations s'). 0 < m \<and> r < next_reservation s'"
      using ai n pos by (auto simp: agent_inv_def split: if_splits dest!: set_map_put)
    ultimately have "agent_inv b s'"
      using ai n d by (auto simp: agent_inv_def)
    with sched_inv_agents [OF assms, of s'] n r show ?thesis by simp
  qed (use r assms in simp)
qed

lemma release_agent_inv:
  assumes "sched_inv b wc s"
  shows "sched_inv b wc (release_agent a s) \<and> s_limits (release_agent a s) = s_limits s"
proof -
  have "agent_inv b (release_agent a s)"
    using assms length_set_delete_le [of a "open_agents s"]
    by (auto simp: sched_inv_def agent_inv_def release_agent_def reserved_agent_count_def)
  with sched_inv_agents [OF assms] show ?thesis by (simp add: release_agent_def)
qed

lemma cancel_agent_creation_inv:
  assumes "sched_inv b wc s"
  shows "sched_inv b wc (cancel_agent_creation r s) \<and> s_limits (cancel_agent_creation r s) = s_limits s"
proof -
  have ai: "agent_inv b s" using assms by (simp add: sched_inv_def)
  have "reserved_agent_count (cancel_agent_creation r s) \<le> reserved_agent_count s"
  proof (cases "map_of (reservations s) r")
    case None
    then have "map_del r (reservations s) = reservations s"
      unfolding map_del_def by (intro filter_True) (auto simp: map_of_eq_None_iff)
    then show ?thesis by (simp add: cancel_agent_creation_def)
  next
    case (Some n)
    with ai have "0 < n" by (auto simp: agent_inv_def dest: map_of_SomeD)
    with sum_map_del [OF _ Some] ai show ?thesis
      by (simp add: cancel_agent_creation_def reserved_agent_count_def agent_inv_def)
  qed
  with ai have "agent_inv b (cancel_agent_creation r s)" by (auto simp: agent_inv_def cancel_agent_creation_def)
  with sched_inv_agents [OF assms] show ?thesis by (simp add: cancel_agent_creation_def)
qed

lemma set_limits_inv:
  assumes "sched_inv b wc s" and "op_within b (Set_limits r w a)" and "wc \<Longrightarrow> r = None"
  shows "sched_inv b wc (set_limits r w a s)"
  using assms queue_inv_frame [of "set_limits r w a s" s]
  by (auto simp: sched_inv_def set_limits_def Let_def lease_inv_def agent_inv_def reserved_agent_count_def
      work_conserving_def split: option.splits)

lemma restored_ids: "distinct xs \<Longrightarrow> distinct (foldl (\<lambda>xs x. set_add x xs) xs ids) \<and> set (foldl (\<lambda>xs x. set_add x xs) xs ids) = set xs \<union> set ids"
  by (induction ids arbitrary: xs) (auto simp: set_add_def)

lemma restore_snapshot_inv:
  assumes "sched_inv b wc s" and "op_within b (Restore_snapshot created ids)"
  shows "sched_inv b wc (restore_snapshot created ids s)"
proof -
  let ?o = "foldl (\<lambda>xs x. set_add x xs) [] ids"
  have "distinct ?o" "length ?o = card (set ids)" using restored_ids [of "[]" ids] by (auto simp: distinct_card [symmetric])
  then have "agent_inv b (restore_snapshot created ids s)"
    using assms by (simp add: sched_inv_def agent_inv_def restore_snapshot_def reserved_agent_count_def)
  with sched_inv_agents [OF assms(1), of "restore_snapshot created ids s"] show ?thesis by (simp add: restore_snapshot_def)
qed

lemma sched_step_inv:
  assumes "sched_inv b wc s" and "op_within b op" and "wc \<Longrightarrow> \<not> sets_runnable op"
  shows "sched_inv b wc (sched_step op s) \<and> (keeps_limits op \<longrightarrow> s_limits (sched_step op s) = s_limits s)"
proof (cases op)
  case (Try_acquire owner)
  with try_acquire_runnable_inv [OF assms(1)] show ?thesis by (cases "try_acquire_runnable owner s") auto
next
  case (Acquire_queued owner)
  with acquire_runnable_queued_inv [OF assms(1)] show ?thesis by (cases "acquire_runnable_queued owner s") auto
qed (use assms in \<open>simp_all add: cancel_queued_inv release_lease_inv try_acquire_resident_inv
      reserve_agent_creation_inv commit_agent_creation_inv cancel_agent_creation_inv release_agent_inv
      set_limits_inv restore_snapshot_inv\<close>)

lemma run_sched_inv:
  assumes "sched_inv b wc s" and "list_all (op_within b) ops" and "wc \<Longrightarrow> list_all (\<lambda>op. \<not> sets_runnable op) ops"
  shows "sched_inv b wc (run_sched ops s)"
  using assms sched_step_inv by (induction ops arbitrary: s) (auto simp: run_sched_def)

lemma run_sched_limits:
  assumes "sched_inv b wc s" and "list_all keeps_limits ops"
  shows "s_limits (run_sched ops s) = s_limits s"
proof -
  have "op_within b op \<and> \<not> sets_runnable op" if "keeps_limits op" for op using that by (cases op) auto
  then show ?thesis using assms sched_step_inv
    by (induction ops arbitrary: s) (auto simp: run_sched_def)
qed

lemma kept_within: "list_all keeps_limits ops \<Longrightarrow> list_all (op_within b) ops \<and> list_all (\<lambda>op. \<not> sets_runnable op) ops"
proof -
  have "op_within b op \<and> \<not> sets_runnable op" if "keeps_limits op" for op using that by (cases op) auto
  then show "list_all keeps_limits ops \<Longrightarrow> ?thesis" by (auto simp: list_all_iff)
qed

lemma op_within_mono: "op_within b op \<Longrightarrow> limits_within b c \<Longrightarrow> op_within c op"
  by (cases op) (auto simp: limits_within_def split: option.splits)

lemma bounds_exist: "\<exists>b. limits_within l b \<and> list_all (op_within b) ops"
proof (induction ops)
  case Nil
  show ?case by (intro exI [of _ l]) (simp add: limits_within_def)
next
  case (Cons op ops)
  then obtain b where b: "limits_within l b" "list_all (op_within b) ops" by blast
  let ?n = "\<lambda>x. case x of None \<Rightarrow> 0 | Some n \<Rightarrow> n"
  define c where "c = (case op of
      Set_limits r w a \<Rightarrow> \<lparr>max_runnable = max (max_runnable b) (?n r), max_resident = max (max_resident b) (?n w), max_open = max (max_open b) (?n a)\<rparr>
    | Restore_snapshot created ids \<Rightarrow> b\<lparr>max_open := max (max_open b) (int (card (set ids)))\<rparr>
    | _ \<Rightarrow> b)"
  have "limits_within b c" by (cases op) (auto simp: c_def limits_within_def)
  moreover have "op_within c op" by (cases op) (auto simp: c_def split: option.splits)
  ultimately show ?case
    using b by (intro exI [of _ c]) (auto simp: list_all_iff limits_within_def intro: op_within_mono)
qed

lemma run_sched_some_inv: "limits_ok l \<Longrightarrow> \<exists>b. sched_inv b False (run_sched ops (new_sched l))"
proof -
  assume l: "limits_ok l"
  obtain b where b: "limits_within l b" "list_all (op_within b) ops" using bounds_exist by blast
  have "sched_inv b False (run_sched ops (new_sched l))" by (rule run_sched_inv [OF sched_inv_new [OF l b(1)] b(2)]) simp
  then show ?thesis ..
qed

lemma run_sched_kept_inv:
  assumes "limits_ok l" and "list_all keeps_limits ops"
  shows "sched_inv (s_limits (run_sched ops (new_sched l))) wc (run_sched ops (new_sched l))"
proof -
  have n: "sched_inv l wc (new_sched l)" for wc by (rule sched_inv_new [OF assms(1)]) (simp add: limits_within_def)
  have "s_limits (run_sched ops (new_sched l)) = l" using run_sched_limits [OF n assms(2)] by (simp add: new_sched_def)
  then show ?thesis using run_sched_inv [OF n, of ops wc] kept_within [OF assms(2)] by simp
qed

section \<open>Properties of admission\<close>

text \<open>The leases and agents of a state, within bounds; nobody waits while a lease is free.\<close>

definition leases_counted :: "sched \<Rightarrow> bool" where
  "leases_counted s \<longleftrightarrow>
     runnable_held s = int (length (filter (\<lambda>kt. lt_runnable (snd kt)) (leases s))) \<and>
     resident_held s = int (length (filter (\<lambda>kt. \<not> lt_runnable (snd kt)) (leases s)))"

definition agents_in_use :: "sched \<Rightarrow> int" where
  "agents_in_use s = int (length (open_agents s)) + reserved_agent_count s"

definition use_within :: "sched_limits \<Rightarrow> sched \<Rightarrow> bool" where
  "use_within b s \<longleftrightarrow> runnable_held s \<le> max_runnable b \<and> resident_held s \<le> max_resident b \<and> agents_in_use s \<le> max_open b"

lemma inv_use: "sched_inv b wc s \<Longrightarrow> leases_counted s \<and> use_within b s"
  by (simp add: sched_inv_def lease_inv_def agent_inv_def leases_counted_def use_within_def agents_in_use_def)

lemma inv_tighten:
  assumes "sched_inv b wc s" and "use_within c s" and "limits_within (s_limits s) c"
  shows "sched_inv c wc s"
  using assms by (auto simp: sched_inv_def lease_inv_def agent_inv_def use_within_def agents_in_use_def limits_within_def)

text \<open>
  C26. Capacity is respected, whatever operations are called on a new scheduler, limits changed and
  snapshots restored among them. The counters are the lease table's. Leases and open and reserved
  agents stay within any bounds that the initial limits, the limits set and the restored agents are
  within. No operation but those two raises a use above the limit in force: it grants only below it.
  As long as the limit of runnable leases is not set, a waiter is queued only while every runnable
  lease is held; and without the two operations all uses stay within the initial limits.
\<close>

theorem capacity_respected:
  assumes "limits_ok l"
  shows "let s = run_sched ops (new_sched l) in
     leases_counted s \<and>
     (\<forall>b. limits_within l b \<and> list_all (op_within b) ops \<longrightarrow> use_within b s) \<and>
     (\<forall>op. keeps_limits op \<longrightarrow> use_within
        \<lparr>max_runnable = max (runnable_held s) (max_runnable (s_limits s)),
         max_resident = max (resident_held s) (max_resident (s_limits s)),
         max_open = max (agents_in_use s) (max_open (s_limits s))\<rparr> (sched_step op s)) \<and>
     (list_all (\<lambda>op. \<not> sets_runnable op) ops \<longrightarrow> s_queue s = [] \<or> max_runnable (s_limits s) \<le> runnable_held s) \<and>
     (list_all keeps_limits ops \<longrightarrow> s_limits s = l \<and> use_within l s \<and> (s_queue s = [] \<or> runnable_held s = max_runnable l))"
proof -
  define s where "s = run_sched ops (new_sched l)"
  obtain b where b: "limits_within l b" "list_all (op_within b) ops" using bounds_exist by blast
  have inv: "sched_inv c wc s" if "limits_within l c" "list_all (op_within c) ops" "wc \<Longrightarrow> list_all (\<lambda>op. \<not> sets_runnable op) ops" for c wc
    unfolding s_def by (rule run_sched_inv [OF sched_inv_new [OF assms that(1)] that(2,3)])
  have step: "use_within c (sched_step op s)"
    if "keeps_limits op" and c: "c = \<lparr>max_runnable = max (runnable_held s) (max_runnable (s_limits s)),
         max_resident = max (resident_held s) (max_resident (s_limits s)), max_open = max (agents_in_use s) (max_open (s_limits s))\<rparr>" for op c
  proof -
    have "sched_inv c False s"
      by (rule inv_tighten [OF inv [OF b]]) (simp_all add: c use_within_def limits_within_def)
    then show ?thesis using sched_step_inv [of c False s op] kept_within [of "[op]" c] that(1) inv_use [of c False "sched_step op s"]
      by simp
  qed
  have "s_queue s = [] \<or> max_runnable (s_limits s) \<le> runnable_held s" if "list_all (\<lambda>op. \<not> sets_runnable op) ops"
    using inv [OF b, of True] that by (simp add: sched_inv_def work_conserving_def)
  moreover have "s_limits s = l \<and> use_within l s" if "list_all keeps_limits ops"
    using run_sched_limits [OF sched_inv_new [OF assms b(1)] that] inv [of l False] kept_within [OF that] inv_use
    by (auto simp: s_def new_sched_def limits_within_def)
  ultimately show ?thesis
    using inv_use inv [OF b] inv [where wc = False] step kept_within
    unfolding s_def [symmetric] Let_def by (fastforce simp: use_within_def)
qed

theorem capacity_respected_witness:
  "let s = run_sched [Restore_snapshot 5 [js ''x'', js ''y''], Acquire_queued (js ''a''), Acquire_queued (js ''b''),
         Set_limits (Some 2) None None, Reserve_agents (Fin 2)]
       (new_sched \<lparr>max_runnable = 1, max_resident = 1, max_open = 1\<rparr>) in
     leases_counted s \<and> use_within \<lparr>max_runnable = 2, max_resident = 1, max_open = 2\<rparr> s"
  using capacity_respected [of "\<lparr>max_runnable = 1, max_resident = 1, max_open = 1\<rparr>"
      "[Restore_snapshot 5 [js ''x'', js ''y''], Acquire_queued (js ''a''), Acquire_queued (js ''b''),
         Set_limits (Some 2) None None, Reserve_agents (Fin 2)]"]
  by (simp add: limits_ok_def limits_within_def Let_def js_def)

text \<open>
  C27. Admission is first come, first served: after any sequence of operations, the queued
  acquisitions that got a lease got it in the order they were made, those still waiting were made
  after every one of them and wait in that order, and every acquisition ever made is in exactly one
  of three states: granted, cancelled or waiting.
\<close>

theorem admission_is_fifo:
  assumes "limits_ok l"
  shows "let s = run_sched ops (new_sched l) in
     sorted_wrt (<) (granted s @ map w_promise (s_queue s)) \<and>
     distinct (map fst (s_settled s) @ map w_promise (s_queue s)) \<and>
     set (map fst (s_settled s) @ map w_promise (s_queue s)) = {..< s_promises s}"
  using run_sched_some_inv [OF assms, of ops]
  by (auto simp: Let_def sched_inv_def queue_inv_def)

theorem admission_is_fifo_witness:
  "let s = run_sched [Acquire_queued (js ''a''), Acquire_queued (js ''b'')]
       (new_sched \<lparr>max_runnable = 1, max_resident = 1, max_open = 2\<rparr>) in
     set (map fst (s_settled s) @ map w_promise (s_queue s)) = {..< s_promises s}"
  using admission_is_fifo [of "\<lparr>max_runnable = 1, max_resident = 1, max_open = 2\<rparr>"
      "[Acquire_queued (js ''a''), Acquire_queued (js ''b'')]"]
  by (simp add: limits_ok_def Let_def)

lemma saturated_handover:
  assumes inv: "sched_inv (s_limits s) True s" and q: "s_queue s = w # ws"
    and held: "map_of (leases s) (lease_id t) = Some h" and h: "lt_runnable h"
  shows "runnable_held (release_lease t s) = runnable_held s \<and> s_queue (release_lease t s) = ws \<and>
    s_settled (release_lease t s) = s_settled s @ [(w_promise w, Some
      \<lparr>lease_id = lease_name (next_lease s), lt_owner = w_owner w, lt_runnable = True\<rparr>)]"
proof -
  have r: "runnable_held s = max_runnable (s_limits s)"
    using inv q by (auto simp: sched_inv_def work_conserving_def lease_inv_def)
  have d: "distinct (map fst (leases s))" using inv by (simp add: sched_inv_def lease_inv_def)
  have "runnable_held s = int (length (filter (\<lambda>kt. lt_runnable (snd kt)) (leases s)))"
    using inv by (simp add: sched_inv_def lease_inv_def)
  then have pos: "0 < runnable_held s"
    using length_filter_map_del [OF d held, of "\<lambda>kt. lt_runnable (snd kt)"] h by simp
  define s1 where "s1 = s\<lparr>leases := map_del (lease_id t) (leases s), runnable_held := runnable_held s - 1\<rparr>"
  have rel: "release_lease t s = pump_queue s1" using held h pos by (simp add: release_lease_def s1_def)
  obtain tk s2 where new: "new_lease (w_owner w) True (s1\<lparr>s_queue := ws\<rparr>) = (tk, s2)" by fastforce
  define s3 where "s3 = resolve (w_promise w) (Some tk) (s2\<lparr>runnable_held := runnable_held s2 + 1\<rparr>)"
  have "pump_queue s1 = pump_queue s3"
    unfolding s3_def using pump_queue_grant [of s1 w ws tk s2] q r new by (simp add: s1_def)
  moreover have "\<not> runnable_held s3 < max_runnable (s_limits s3)"
    using r by (simp add: s3_def new_lease_simps(2) [OF new] s1_def)
  ultimately have "release_lease t s = s3" using rel by (simp add: pump_queue_cong)
  moreover have "w_promise w \<notin> fst ` set (s_settled s)"
    using inv q by (auto simp: sched_inv_def queue_inv_def)
  ultimately show ?thesis
    by (simp add: s3_def new_lease_simps [OF new] s1_def resolve_def)
qed

text \<open>
  A freed lease goes to the longest waiting request: when a held runnable lease is released
  while requests wait, exactly the first of them is granted a fresh lease for its owner, the
  others keep their places, and the number of runnable leases does not change.
\<close>

theorem release_serves_first_waiter:
  assumes "limits_ok l" and "s = run_sched ops (new_sched l)" and "s_queue s = w # ws" and "list_all keeps_limits ops"
    and "map_of (leases s) (lease_id t) = Some h" and "lt_runnable h"
  shows "runnable_held (release_lease t s) = runnable_held s \<and> s_queue (release_lease t s) = ws \<and>
    s_settled (release_lease t s) = s_settled s @ [(w_promise w, Some
      \<lparr>lease_id = lease_name (next_lease s), lt_owner = w_owner w, lt_runnable = True\<rparr>)]"
  using saturated_handover [OF _ assms(3,5,6)] run_sched_kept_inv [OF assms(1,4)] assms(2) by simp

theorem release_serves_first_waiter_witness:
  "\<exists>t w. let s = run_sched [Acquire_queued (js ''a''), Acquire_queued (js ''b'')]
       (new_sched \<lparr>max_runnable = 1, max_resident = 1, max_open = 2\<rparr>) in
     s_queue s = [w] \<and> w_owner w = js ''b'' \<and> map_of (leases s) (lease_id t) = Some t \<and>
     s_queue (release_lease t s) = [] \<and> runnable_held (release_lease t s) = runnable_held s"
proof -
  let ?l = "\<lparr>max_runnable = 1, max_resident = 1, max_open = 2\<rparr>"
  let ?ops = "[Acquire_queued (js ''a''), Acquire_queued (js ''b'')]"
  define s where "s = run_sched ?ops (new_sched ?l)"
  define t where "t = \<lparr>lease_id = lease_name 1, lt_owner = js ''a'', lt_runnable = True\<rparr>"
  have s: "s_queue s = [\<lparr>w_promise = 1, w_owner = js ''b'', w_runnable = True\<rparr>]" "leases s = [(lease_name 1, t)]"
    by (simp_all add: s_def t_def run_sched_def new_sched_def acquire_runnable_queued_def try_acquire_runnable_def
        new_lease_def resolve_def Let_def)
  have "limits_ok ?l" by (simp add: limits_ok_def)
  from release_serves_first_waiter [OF this s_def s(1) _, of t t] s show ?thesis
    by (intro exI [of _ t] exI [of _ "\<lparr>w_promise = 1, w_owner = js ''b'', w_runnable = True\<rparr>"]) (simp add: s_def [symmetric] t_def)
qed

section \<open>Reservations\<close>

definition commit_all :: "nat \<Rightarrow> jstring list \<Rightarrow> sched \<Rightarrow> bool \<times> sched" where
  "commit_all r agents s =
     foldl (\<lambda>(ok, s) a. case commit_agent_creation r a s of (x, s') \<Rightarrow> (ok \<and> is_ok x, s')) (True, s) agents"

lemma foldl_failed:
  "\<not> fst (foldl (\<lambda>(ok, s) a. case commit_agent_creation r a s of (x, s') \<Rightarrow> (ok \<and> is_ok x, s')) (False, s) agents)"
  by (induction agents arbitrary: s) (auto split: prod.splits)

lemma commit_all_ok:
  "commit_agent_creation r a s = (Inr u, s') \<Longrightarrow> commit_all r (a # agents) s = commit_all r agents s'"
  by (simp add: commit_all_def)

lemma commit_all_fail:
  "commit_agent_creation r a s = (Inl e, s') \<Longrightarrow> \<not> fst (commit_all r (a # agents) s)"
  using foldl_failed by (simp add: commit_all_def)

lemma commit_all_iff:
  assumes "distinct agents" and "set agents \<inter> set (open_agents s) = {}"
    and "map_of (reservations s) r = Some n" and "0 < n"
  shows "fst (commit_all r agents s) \<longleftrightarrow> int (length agents) \<le> n"
  using assms
proof (induction agents arbitrary: s n)
  case Nil
  then show ?case by (simp add: commit_all_def)
next
  case (Cons a agents)
  obtain x s1 where c: "commit_agent_creation r a s = (x, s1)" by fastforce
  from commit_agent_creation_cases [OF c] Cons.prems have x: "x = Inr ()" and
    s1: "s1 = s\<lparr>reservations := (if n = 1 then map_del r (reservations s) else map_put r (n - 1) (reservations s)),
             open_agents := open_agents s @ [a], agents_created := agents_created s + 1\<rparr>"
    using c by (auto simp: commit_agent_creation_def Let_def)
  have step: "fst (commit_all r (a # agents) s) = fst (commit_all r agents s1)"
    using commit_all_ok c x by simp
  show ?case
  proof (cases "n = 1")
    case True
    show ?thesis
    proof (cases agents)
      case Nil
      with step True show ?thesis by (simp add: commit_all_def)
    next
      case (Cons b bs)
      have "commit_agent_creation r b s1 = (Inl Creation_conflict, s1)"
        by (simp add: commit_agent_creation_def s1 True)
      then have "\<not> fst (commit_all r agents s1)" using Cons commit_all_fail by simp
      with step True Cons show ?thesis by simp
    qed
  next
    case False
    with Cons.prems have "fst (commit_all r agents s1) \<longleftrightarrow> int (length agents) \<le> n - 1"
      by (intro Cons.IH) (auto simp: s1)
    with step show ?thesis by auto
  qed
qed

text \<open>
  A reservation covers exactly what it reserved: after a successful reservation of \<open>n\<close> agents,
  creating distinct agents that are not open yet under it succeeds for every one of them exactly
  when there are at most \<open>n\<close> of them, whatever the limits are.
\<close>

theorem reservation_covers_panel:
  assumes "limits_ok l" and "s = run_sched ops (new_sched l)"
    and "reserve_agent_creation (Fin (of_int n)) s = (Inr r, s1)"
    and "distinct agents" and "set agents \<inter> set (open_agents s) = {}"
  shows "fst (commit_all r agents s1) \<longleftrightarrow> int (length agents) \<le> n"
proof -
  obtain b where b: "sched_inv b False (run_sched ops (new_sched l))" using run_sched_some_inv [OF assms(1)] by blast
  have "agent_inv b s"
    using b assms(2) by (simp add: sched_inv_def)
  then have "next_reservation s \<notin> fst ` set (reservations s)" by (force simp: agent_inv_def)
  with reserve_agent_creation_cases [OF assms(3)] assms(4,5) show ?thesis
    by (intro commit_all_iff) auto
qed

theorem reservation_covers_panel_witness:
  "\<exists>r s1. reserve_agent_creation (Fin 2) (new_sched DEFAULT_LIMITS) = (Inr r, s1) \<and>
     fst (commit_all r [js ''x'', js ''y''] s1) \<and> \<not> fst (commit_all r [js ''x'', js ''y'', js ''z''] s1)"
proof -
  obtain r s1 where r: "reserve_agent_creation (Fin (of_int 2)) (new_sched DEFAULT_LIMITS) = (Inr r, s1)"
    by (simp add: reserve_agent_creation_def new_sched_def DEFAULT_LIMITS_def reserved_agent_count_def max_safe_def Let_def)
  have l: "limits_ok DEFAULT_LIMITS" by (simp add: limits_ok_def DEFAULT_LIMITS_def)
  have s: "new_sched DEFAULT_LIMITS = run_sched [] (new_sched DEFAULT_LIMITS)" by (simp add: run_sched_def)
  have o: "open_agents (new_sched DEFAULT_LIMITS) = []" by (simp add: new_sched_def)
  show ?thesis
    using reservation_covers_panel [OF l s r, of "[js ''x'', js ''y'']"]
      reservation_covers_panel [OF l s r, of "[js ''x'', js ''y'', js ''z'']"] r o
    by auto
qed

end
