(* ===== verification/Policy.thy ===== *)
theory Policy
  imports Scheduler
begin

text \<open>
  Root authority and grant intersection of \<open>ponygirls-subagents/src/policy.ts\<close>, with the grant types
  of \<open>types.ts\<close>: what the root policy allows, how a grant set is derived at every edge of the agent
  tree, and the checks of tools, workspaces and limits against it.

  A denial is the constructor that names its message; \<open>code_of_denial\<close> gives its error code.
\<close>

section \<open>Types\<close>

datatype agent_profile = Reader | Writer

datatype isolation = Iso_none | Iso_worktree | Iso_sandbox

definition ISOLATION_LEVELS :: "isolation list" where
  "ISOLATION_LEVELS = [Iso_none, Iso_worktree, Iso_sandbox]"

fun index_in :: "'a \<Rightarrow> 'a list \<Rightarrow> int" where
  "index_in x [] = -1"
| "index_in x (y # ys) = (if x = y then 0 else (let i = index_in x ys in if i < 0 then -1 else i + 1))"

record repo_grant =
  rg_repo :: jstring
  rg_read :: bool
  rg_write :: bool

record grant_set =
  gr_tools :: "jstring list"
  gr_external :: "jstring list"
  gr_repos :: "repo_grant list"
  gr_shell :: bool
  gr_network :: bool
  gr_nesting :: bool
  gr_max_depth :: int
  gr_isolation :: isolation

record registered_repo =
  rr_repo :: jstring
  rr_checkout :: jstring
  rr_read_roots :: "jstring list"
  rr_allow_writers :: bool

record model_ref =
  mr_provider :: jstring
  mr_id :: jstring

record supervisor_policy =
  p_revision :: int
  p_max_depth :: int
  p_nesting :: bool
  p_repos :: "registered_repo list"
  p_allowed_models :: "model_ref list option"
  p_gate_bypass :: bool
  p_gate_ceiling :: "int option"
  p_tool_network :: bool
  p_allowed_tools :: "jstring list"
  p_worktree_root :: "jstring option"
  p_workspace_roots :: "jstring list"
  p_owner_checkout :: bool

record grant_request =
  rq_profile :: agent_profile
  rq_isolation :: isolation
  rq_repo :: "jstring option"
  rq_shell :: bool
  rq_network :: bool
  rq_model :: "model_ref option"
  rq_depth :: int

definition default_supervisor_policy :: supervisor_policy where
  "default_supervisor_policy = \<lparr>p_revision = 1, p_max_depth = 1, p_nesting = False, p_repos = [],
     p_allowed_models = Some [], p_gate_bypass = False, p_gate_ceiling = Some 3, p_tool_network = False,
     p_allowed_tools = [], p_worktree_root = None, p_workspace_roots = [], p_owner_checkout = False\<rparr>"

section \<open>Tool names\<close>

definition READER_TOOLS :: "jstring list" where
  "READER_TOOLS = map js [''read'', ''grep'', ''find'', ''ls'']"

definition WRITER_TOOLS :: "jstring list" where
  "WRITER_TOOLS = map js [''read'', ''grep'', ''find'', ''ls'', ''write'', ''edit'', ''bash'']"

definition KNOWN_PROXY_TOOLS :: "jstring list" where
  "KNOWN_PROXY_TOOLS = map js [''read'', ''grep'', ''find'', ''ls'', ''write'', ''edit'', ''bash'']"

definition PINNED_BUILTINS_EXTRA :: "jstring list" where
  "PINNED_BUILTINS_EXTRA = map js [''powershell'']"

definition RESERVED_CHILD_TOOLS :: "jstring list" where
  "RESERVED_CHILD_TOOLS = map js [''send_message'', ''wait_agent'', ''list_agents'', ''read_agent'',
     ''spawn_agent'', ''interrupt_agent'', ''close_agent'', ''submit_gate_decision'', ''manage_gate'']"

definition is_reserved_tool_name :: "jstring \<Rightarrow> bool" where
  "is_reserved_tool_name name \<longleftrightarrow>
     name \<in> set KNOWN_PROXY_TOOLS \<or> name \<in> set PINNED_BUILTINS_EXTRA \<or> name \<in> set RESERVED_CHILD_TOOLS"

section \<open>Validation of the policy file\<close>

datatype policy_invalid =
  Tools_not_array | Bad_tool nat | Bad_worktree_root
| Bad_limit string int js_value | Runnable_over_resident int int | Resident_over_open int int

fun allowed_entries :: "nat \<Rightarrow> js_value list \<Rightarrow> policy_invalid + jstring list" where
  "allowed_entries i [] = Inr []"
| "allowed_entries i (v # vs) =
     (case v of
        JStr s \<Rightarrow> if length s = 0 then Inl (Bad_tool i)
                   else and_then (allowed_entries (Suc i) vs) (\<lambda>ss. Inr (s # ss))
      | _ \<Rightarrow> Inl (Bad_tool i))"

definition validate_allowed_tools :: "js_value \<Rightarrow> policy_invalid + jstring list" where
  "validate_allowed_tools raw = (case raw of JArr vs \<Rightarrow> allowed_entries 0 vs | _ \<Rightarrow> Inl Tools_not_array)"

definition validate_worktree_root :: "js_value \<Rightarrow> policy_invalid + jstring option" where
  "validate_worktree_root raw =
     (if raw = JUndef \<or> raw = JNull then Inr None
      else case raw of
        JStr s \<Rightarrow> if length s = 0 \<or> \<not> starts_with s (js ''/'') \<or> 0 \<in> set s then Inl Bad_worktree_root
                   else Inr (Some s)
      | _ \<Rightarrow> Inl Bad_worktree_root)"

definition SCHEDULER_LIMIT_MAXIMA :: sched_limits where
  "SCHEDULER_LIMIT_MAXIMA = \<lparr>max_runnable = 64, max_resident = 128, max_open = 1024\<rparr>"

text \<open>One iteration of the loop over the three keys: the value in force for this key.\<close>

definition limit_value :: "string \<Rightarrow> int \<Rightarrow> int \<Rightarrow> js_value \<Rightarrow> policy_invalid + int" where
  "limit_value key dflt maximum v =
     (case v of
        JUndef \<Rightarrow> Inr dflt
      | JNum (Fin q) \<Rightarrow>
          if \<not> is_integer (Fin q) \<or> q < 1 \<or> q > of_int maximum then Inl (Bad_limit key maximum v) else Inr \<lfloor>q\<rfloor>
      | _ \<Rightarrow> Inl (Bad_limit key maximum v))"

definition validate_scheduler_limits :: "js_value \<Rightarrow> js_value \<Rightarrow> js_value \<Rightarrow> policy_invalid + sched_limits" where
  "validate_scheduler_limits runnable resident opened =
     and_then (limit_value ''maxRunnable'' (max_runnable DEFAULT_LIMITS) (max_runnable SCHEDULER_LIMIT_MAXIMA) runnable) (\<lambda>r.
     and_then (limit_value ''maxResidentWorkers'' (max_resident DEFAULT_LIMITS) (max_resident SCHEDULER_LIMIT_MAXIMA) resident) (\<lambda>w.
     and_then (limit_value ''maxOpenAgents'' (max_open DEFAULT_LIMITS) (max_open SCHEDULER_LIMIT_MAXIMA) opened) (\<lambda>a.
       if r > w then Inl (Runnable_over_resident r w)
       else if w > a then Inl (Resident_over_open w a)
       else Inr \<lparr>max_runnable = r, max_resident = w, max_open = a\<rparr>)))"

section \<open>Allowlist patterns\<close>

text \<open>
  The regular expressions \<open>compileAllowedPattern\<close> builds are a start anchor, literal characters and
  \<open>.*\<close>, and an end anchor: \<open>pattern.split("*")\<close> with every chunk escaped, joined with \<open>.*\<close>. A dot
  matches every code unit but the line terminators.
\<close>

datatype regex_atom = Lit nat | Dot_star

fun join_dot_star :: "jstring list \<Rightarrow> regex_atom list" where
  "join_dot_star [] = []"
| "join_dot_star [p] = map Lit p"
| "join_dot_star (p # q # ps) = map Lit p @ Dot_star # join_dot_star (q # ps)"

definition compile_allowed_pattern :: "jstring \<Rightarrow> regex_atom list" where
  "compile_allowed_pattern pattern = join_dot_star (split_on 42 pattern)"

definition is_line_terminator :: "nat \<Rightarrow> bool" where
  "is_line_terminator c \<longleftrightarrow> c = 10 \<or> c = 13 \<or> c = 8232 \<or> c = 8233"

text \<open>\<open>RegExp.prototype.test\<close> for these expressions: backtracking over the length of each \<open>.*\<close>.\<close>

fun regex_test :: "regex_atom list \<Rightarrow> jstring \<Rightarrow> bool" where
  "regex_test [] s = (s = [])"
| "regex_test (Lit c # as) s = (case s of [] \<Rightarrow> False | x # xs \<Rightarrow> x = c \<and> regex_test as xs)"
| "regex_test (Dot_star # as) [] = regex_test as []"
| "regex_test (Dot_star # as) (x # xs) =
     (regex_test as (x # xs) \<or> \<not> is_line_terminator x \<and> regex_test (Dot_star # as) xs)"

definition matches_allowed_tool :: "jstring \<Rightarrow> jstring list \<Rightarrow> bool" where
  "matches_allowed_tool name patterns = list_ex (\<lambda>p. regex_test (compile_allowed_pattern p) name) patterns"

definition resolve_allowed_concrete :: "jstring list \<Rightarrow> jstring list \<Rightarrow> jstring list" where
  "resolve_allowed_concrete available patterns =
     (if length patterns = 0 then []
      else filter (\<lambda>n. \<not> is_reserved_tool_name n \<and> matches_allowed_tool n patterns) available)"

section \<open>Grants\<close>

datatype policy_denial =
  Depth_exceeded int int | Nesting_disabled | Owner_lacks_tool jstring | Owner_lacks_shell | Owner_lacks_network
| Owner_depth_exceeded | Owner_not_delegating | Less_isolated isolation isolation | Reader_with_shell
| Network_denied | Repo_outside_sandbox | Unknown_repo jstring | Repo_denies_writers jstring
| Owner_lacks_repo jstring | Owner_not_writer | Writer_needs_repo | Model_not_allowed model_ref
| Workspace_outside jstring | Unknown_tool jstring | Tool_not_granted jstring | Tool_never_delegable jstring

datatype denial_code = POLICY_DENIED | INVALID

fun code_of_denial :: "policy_denial \<Rightarrow> denial_code" where
  "code_of_denial Repo_outside_sandbox = INVALID"
| "code_of_denial _ = POLICY_DENIED"

definition root_grants :: "supervisor_policy \<Rightarrow> jstring list \<Rightarrow> grant_set" where
  "root_grants policy external = \<lparr>gr_tools = KNOWN_PROXY_TOOLS,
     gr_external = filter (\<lambda>t. \<not> is_reserved_tool_name t) external,
     gr_repos = map (\<lambda>r. \<lparr>rg_repo = rr_repo r, rg_read = True, rg_write = rr_allow_writers r\<rparr>) (p_repos policy),
     gr_shell = True, gr_network = p_tool_network policy, gr_nesting = p_nesting policy,
     gr_max_depth = p_max_depth policy, gr_isolation = Iso_none\<rparr>"

definition profile_tools :: "agent_profile \<Rightarrow> jstring list" where
  "profile_tools p = (case p of Reader \<Rightarrow> READER_TOOLS | Writer \<Rightarrow> WRITER_TOOLS)"

text \<open>The checks against the owner, in the order of the code.\<close>

definition owner_permits :: "grant_set option \<Rightarrow> grant_request \<Rightarrow> policy_denial + unit" where
  "owner_permits owner rq =
     (case owner of
        None \<Rightarrow> Inr ()
      | Some ow \<Rightarrow>
        (case List.find (\<lambda>t. t \<notin> set (gr_tools ow)) (profile_tools (rq_profile rq)) of
           Some t \<Rightarrow> Inl (Owner_lacks_tool t)
         | None \<Rightarrow>
           if rq_shell rq \<and> \<not> gr_shell ow then Inl Owner_lacks_shell
           else if rq_network rq \<and> \<not> gr_network ow then Inl Owner_lacks_network
           else if rq_depth rq > gr_max_depth ow then Inl Owner_depth_exceeded
           else if rq_depth rq > 1 \<and> \<not> gr_nesting ow then Inl Owner_not_delegating
           else if index_in (rq_isolation rq) ISOLATION_LEVELS < index_in (gr_isolation ow) ISOLATION_LEVELS
           then Inl (Less_isolated (gr_isolation ow) (rq_isolation rq))
           else Inr ()))"

definition grant_repos ::
  "supervisor_policy \<Rightarrow> grant_set option \<Rightarrow> grant_request \<Rightarrow> policy_denial + repo_grant list" where
  "grant_repos policy owner rq =
     (if rq_isolation rq \<noteq> Iso_sandbox then
        (if rq_repo rq \<noteq> None then Inl Repo_outside_sandbox
         else Inr (map (\<lambda>r. r\<lparr>rg_write := rg_write r \<and> rq_profile rq = Writer\<rparr>)
                (gr_repos (case owner of None \<Rightarrow> root_grants policy [] | Some ow \<Rightarrow> ow))))
      else case rq_repo rq of
        Some repo \<Rightarrow>
          (case List.find (\<lambda>r. rr_repo r = repo) (p_repos policy) of
             None \<Rightarrow> Inl (Unknown_repo repo)
           | Some reg \<Rightarrow>
             if rq_profile rq = Writer \<and> \<not> rr_allow_writers reg then Inl (Repo_denies_writers repo)
             else
               let owner_repo = (case owner of None \<Rightarrow> None
                                  | Some ow \<Rightarrow> List.find (\<lambda>r. rg_repo r = repo) (gr_repos ow)) in
               if owner \<noteq> None \<and> owner_repo = None then Inl (Owner_lacks_repo repo)
               else if (case owner_repo of Some o' \<Rightarrow> rq_profile rq = Writer \<and> \<not> rg_write o' | None \<Rightarrow> False)
               then Inl Owner_not_writer
               else Inr [\<lparr>rg_repo = rr_repo reg, rg_read = True, rg_write = (rq_profile rq = Writer)\<rparr>])
      | None \<Rightarrow> if rq_profile rq = Writer then Inl Writer_needs_repo else Inr [])"

definition grant_external :: "grant_set option \<Rightarrow> grant_request \<Rightarrow> jstring list \<Rightarrow> jstring list" where
  "grant_external owner rq root_external =
     (if rq_isolation rq \<noteq> Iso_sandbox then
        let root_concrete = filter (\<lambda>t. \<not> is_reserved_tool_name t) root_external;
            owner_external = (case owner of None \<Rightarrow> root_concrete | Some ow \<Rightarrow> gr_external ow)
        in filter (\<lambda>t. t \<in> set root_concrete \<and> \<not> is_reserved_tool_name t) owner_external
      else [])"

definition intersect_grants ::
  "supervisor_policy \<Rightarrow> grant_set option \<Rightarrow> grant_request \<Rightarrow> jstring list \<Rightarrow> policy_denial + grant_set" where
  "intersect_grants policy owner rq root_external =
     (if rq_depth rq > p_max_depth policy then Inl (Depth_exceeded (rq_depth rq) (p_max_depth policy))
      else if rq_depth rq > 1 \<and> \<not> p_nesting policy then Inl Nesting_disabled
      else and_then (owner_permits owner rq) (\<lambda>_.
        if rq_profile rq = Reader \<and> rq_shell rq then Inl Reader_with_shell
        else if rq_network rq \<and> \<not> p_tool_network policy then Inl Network_denied
        else and_then (grant_repos policy owner rq) (\<lambda>repos.
          if (case (rq_model rq, p_allowed_models policy) of
                (Some m, Some allowed) \<Rightarrow> \<not> list_ex (\<lambda>a. mr_provider a = mr_provider m \<and> mr_id a = mr_id m) allowed
              | _ \<Rightarrow> False)
          then Inl (Model_not_allowed (the (rq_model rq)))
          else Inr \<lparr>gr_tools = profile_tools (rq_profile rq), gr_external = grant_external owner rq root_external,
             gr_repos = repos, gr_shell = (rq_profile rq = Writer \<and> rq_shell rq),
             gr_network = (rq_network rq \<and> p_tool_network policy), gr_nesting = p_nesting policy,
             gr_max_depth = min (p_max_depth policy) (case owner of None \<Rightarrow> p_max_depth policy | Some ow \<Rightarrow> gr_max_depth ow),
             gr_isolation = rq_isolation rq\<rparr>)))"

section \<open>Authorization\<close>

definition ends_with_slash :: "jstring \<Rightarrow> bool" where
  "ends_with_slash s \<longleftrightarrow> s \<noteq> [] \<and> last s = 47"

definition path_within :: "jstring \<Rightarrow> jstring \<Rightarrow> bool" where
  "path_within path rt \<longleftrightarrow>
     path = rt \<or> starts_with path (if ends_with_slash rt then rt else rt @ js ''/'')"

definition authorize_workspace :: "jstring list \<Rightarrow> jstring \<Rightarrow> policy_denial + unit" where
  "authorize_workspace roots workspace =
     (if list_ex (\<lambda>rt. path_within workspace rt) roots then Inr () else Inl (Workspace_outside workspace))"

definition authorize_tool :: "grant_set \<Rightarrow> jstring \<Rightarrow> policy_denial + unit" where
  "authorize_tool g tool =
     (if tool \<notin> set KNOWN_PROXY_TOOLS then Inl (Unknown_tool tool)
      else if tool \<notin> set (gr_tools g) then Inl (Tool_not_granted tool) else Inr ())"

definition authorize_external_tool :: "grant_set \<Rightarrow> jstring \<Rightarrow> policy_denial + unit" where
  "authorize_external_tool g tool =
     (if is_reserved_tool_name tool then Inl (Tool_never_delegable tool)
      else if tool \<notin> set (gr_external g) then Inl (Tool_not_granted tool) else Inr ())"

section \<open>Facts\<close>

lemma regex_test_lits: "regex_test (map Lit p @ as) s \<longleftrightarrow> (\<exists>r. s = p @ r \<and> regex_test as r)"
  by (induction p arbitrary: s) (auto split: list.splits)

lemma regex_test_dot_star:
  "regex_test (Dot_star # as) s \<longleftrightarrow>
     (\<exists>w r. s = w @ r \<and> list_all (\<lambda>c. \<not> is_line_terminator c) w \<and> regex_test as r)"
proof (induction s)
  case (Cons x xs)
  show ?case (is "?l = ?r")
  proof
    assume ?l
    then consider "regex_test as (x # xs)" | "\<not> is_line_terminator x" "regex_test (Dot_star # as) xs" by auto
    then show ?r
    proof cases
      case 1
      then show ?thesis by (intro exI [of _ "[]"] exI [of _ "x # xs"]) simp
    next
      case 2
      with Cons obtain w r where "xs = w @ r" "list_all (\<lambda>c. \<not> is_line_terminator c) w" "regex_test as r" by blast
      with 2 show ?thesis by (intro exI [of _ "x # w"] exI [of _ r]) simp
    qed
  next
    assume ?r
    then obtain w r where w: "x # xs = w @ r" "list_all (\<lambda>c. \<not> is_line_terminator c) w" "regex_test as r" by blast
    with Cons show ?l by (cases w) auto
  qed
qed simp

text \<open>The chunks of a pattern with one string between any two neighbours.\<close>

fun fill_chunks :: "jstring list \<Rightarrow> jstring list \<Rightarrow> jstring option" where
  "fill_chunks [p] [] = Some p"
| "fill_chunks (p # q # ps) (w # ws) = map_option (\<lambda>t. p @ w @ t) (fill_chunks (q # ps) ws)"
| "fill_chunks _ _ = None"

lemma regex_test_chunks:
  "ps \<noteq> [] \<Longrightarrow> regex_test (join_dot_star ps) s \<longleftrightarrow>
     (\<exists>ws. fill_chunks ps ws = Some s \<and> list_all (list_all (\<lambda>c. \<not> is_line_terminator c)) ws)"
proof (induction ps arbitrary: s rule: join_dot_star.induct)
  case (2 p)
  have "fill_chunks [p] ws = Some s \<longleftrightarrow> ws = [] \<and> p = s" for ws by (cases ws) auto
  then show ?case using regex_test_lits [of p "[]" s] by auto
next
  case (3 p q ps)
  have "regex_test (join_dot_star (p # q # ps)) s \<longleftrightarrow>
      (\<exists>w r. s = p @ w @ r \<and> list_all (\<lambda>c. \<not> is_line_terminator c) w \<and> regex_test (join_dot_star (q # ps)) r)"
    by (simp add: regex_test_lits regex_test_dot_star) blast
  also have "\<dots> \<longleftrightarrow> (\<exists>w ws r. s = p @ w @ r \<and> list_all (\<lambda>c. \<not> is_line_terminator c) w \<and>
      fill_chunks (q # ps) ws = Some r \<and> list_all (list_all (\<lambda>c. \<not> is_line_terminator c)) ws)"
    using "3.IH" by auto
  also have "\<dots> \<longleftrightarrow> (\<exists>w ws. fill_chunks (p # q # ps) (w # ws) = Some s \<and>
      list_all (list_all (\<lambda>c. \<not> is_line_terminator c)) (w # ws))"
    by auto
  also have "\<dots> \<longleftrightarrow> (\<exists>ws. fill_chunks (p # q # ps) ws = Some s \<and>
      list_all (list_all (\<lambda>c. \<not> is_line_terminator c)) ws)"
    by (metis fill_chunks.simps(3) list.exhaust option.distinct(1) fill_chunks.simps(4) fill_chunks.simps(5))
  finally show ?case .
qed simp

lemma index_in_isolation [simp]:
  "index_in Iso_none ISOLATION_LEVELS = 0" "index_in Iso_worktree ISOLATION_LEVELS = 1"
  "index_in Iso_sandbox ISOLATION_LEVELS = 2"
  by (simp_all add: ISOLATION_LEVELS_def Let_def)

definition less_isolated :: "isolation \<Rightarrow> isolation \<Rightarrow> bool" where
  "less_isolated a b \<longleftrightarrow> index_in a ISOLATION_LEVELS < index_in b ISOLATION_LEVELS"

text \<open>A repository grant no larger than one of a list of grants.\<close>

definition repo_within :: "repo_grant list \<Rightarrow> repo_grant \<Rightarrow> bool" where
  "repo_within owned r \<longleftrightarrow> list_ex (\<lambda>w. rg_repo w = rg_repo r \<and> (rg_write w \<or> \<not> rg_write r)) owned"

lemma owner_permitsD:
  assumes "owner_permits (Some ow) rq = Inr u"
  shows "set (profile_tools (rq_profile rq)) \<subseteq> set (gr_tools ow)" "rq_shell rq \<Longrightarrow> gr_shell ow"
    "rq_network rq \<Longrightarrow> gr_network ow" "rq_depth rq \<le> gr_max_depth ow" "1 < rq_depth rq \<Longrightarrow> gr_nesting ow"
    "\<not> less_isolated (rq_isolation rq) (gr_isolation ow)"
  using assms
  by (auto simp: owner_permits_def less_isolated_def find_None_iff split: option.splits if_splits)

lemma intersect_grantsD:
  assumes "intersect_grants policy owner rq ext = Inr g"
  shows "rq_depth rq \<le> p_max_depth policy" "1 < rq_depth rq \<Longrightarrow> p_nesting policy"
    "owner_permits owner rq = Inr ()" "rq_network rq \<Longrightarrow> p_tool_network policy"
    "rq_shell rq \<Longrightarrow> rq_profile rq = Writer"
    "grant_repos policy owner rq = Inr (gr_repos g)" "gr_tools g = profile_tools (rq_profile rq)"
    "gr_external g = grant_external owner rq ext" "gr_shell g = rq_shell rq" "gr_network g = rq_network rq"
    "gr_nesting g = p_nesting policy" "gr_isolation g = rq_isolation rq"
    "gr_max_depth g = min (p_max_depth policy) (case owner of None \<Rightarrow> p_max_depth policy | Some ow \<Rightarrow> gr_max_depth ow)"
proof -
  obtain repos where g: "\<not> rq_depth rq > p_max_depth policy" "\<not> (rq_depth rq > 1 \<and> \<not> p_nesting policy)"
    "owner_permits owner rq = Inr ()" "\<not> (rq_profile rq = Reader \<and> rq_shell rq)"
    "\<not> (rq_network rq \<and> \<not> p_tool_network policy)" "grant_repos policy owner rq = Inr repos"
    "g = \<lparr>gr_tools = profile_tools (rq_profile rq), gr_external = grant_external owner rq ext,
             gr_repos = repos, gr_shell = (rq_profile rq = Writer \<and> rq_shell rq),
             gr_network = (rq_network rq \<and> p_tool_network policy), gr_nesting = p_nesting policy,
             gr_max_depth = min (p_max_depth policy) (case owner of None \<Rightarrow> p_max_depth policy | Some ow \<Rightarrow> gr_max_depth ow),
             gr_isolation = rq_isolation rq\<rparr>"
    using assms unfolding intersect_grants_def by (auto simp: and_then_Inr_iff split: if_splits)
  have w: "rq_profile rq = Writer \<or> rq_profile rq = Reader" by (cases "rq_profile rq") auto
  show "rq_depth rq \<le> p_max_depth policy" "1 < rq_depth rq \<Longrightarrow> p_nesting policy"
    "owner_permits owner rq = Inr ()" "rq_network rq \<Longrightarrow> p_tool_network policy"
    "rq_shell rq \<Longrightarrow> rq_profile rq = Writer"
    "grant_repos policy owner rq = Inr (gr_repos g)" "gr_tools g = profile_tools (rq_profile rq)"
    "gr_external g = grant_external owner rq ext" "gr_shell g = rq_shell rq" "gr_network g = rq_network rq"
    "gr_nesting g = p_nesting policy" "gr_isolation g = rq_isolation rq"
    "gr_max_depth g = min (p_max_depth policy) (case owner of None \<Rightarrow> p_max_depth policy | Some ow \<Rightarrow> gr_max_depth ow)"
    using g w by auto
qed

lemma grant_repos_within:
  assumes "grant_repos policy (Some ow) rq = Inr repos"
  shows "list_all (repo_within (gr_repos ow)) repos"
proof (cases "rq_isolation rq = Iso_sandbox")
  case False
  with assms have "repos = map (\<lambda>r. r\<lparr>rg_write := rg_write r \<and> rq_profile rq = Writer\<rparr>) (gr_repos ow)"
    by (auto simp: grant_repos_def split: if_splits)
  then show ?thesis by (auto simp: list_all_iff repo_within_def list_ex_iff)
next
  case True
  show ?thesis
  proof (cases "rq_repo rq")
    case None
    with True assms show ?thesis by (auto simp: grant_repos_def split: if_splits)
  next
    case (Some repo)
    obtain reg o' where f: "List.find (\<lambda>r. rr_repo r = repo) (p_repos policy) = Some reg"
      "List.find (\<lambda>r. rg_repo r = repo) (gr_repos ow) = Some o'" "rq_profile rq = Writer \<Longrightarrow> rg_write o'"
      "repos = [\<lparr>rg_repo = rr_repo reg, rg_read = True, rg_write = (rq_profile rq = Writer)\<rparr>]"
      using True Some assms by (auto simp: grant_repos_def Let_def split: if_splits option.splits)
    then have "rr_repo reg = repo" "rg_repo o' = repo" "o' \<in> set (gr_repos ow)"
      by (auto simp: find_Some_iff)
    with f show ?thesis by (auto simp: repo_within_def list_ex_iff intro: bexI [of _ o'])
  qed
qed

definition repos_registered :: "supervisor_policy \<Rightarrow> repo_grant list \<Rightarrow> bool" where
  "repos_registered policy rs \<longleftrightarrow>
     list_all (\<lambda>r. list_ex (\<lambda>reg. rr_repo reg = rg_repo r \<and> (rr_allow_writers reg \<or> \<not> rg_write r)) (p_repos policy)) rs"

text \<open>
  What a grant set derived while the governing session offers the tools \<open>available\<close> may hold under
  a policy, wherever it is in the tree.
\<close>

definition within_policy :: "supervisor_policy \<Rightarrow> jstring list \<Rightarrow> grant_set \<Rightarrow> bool" where
  "within_policy policy available g \<longleftrightarrow>
     set (gr_tools g) \<subseteq> set KNOWN_PROXY_TOOLS \<and>
     set (gr_external g) \<subseteq> set (resolve_allowed_concrete available (p_allowed_tools policy)) \<and>
     repos_registered policy (gr_repos g) \<and>
     (p_tool_network policy \<or> \<not> gr_network g) \<and> gr_nesting g = p_nesting policy \<and>
     gr_max_depth g \<le> p_max_depth policy \<and> (gr_isolation g \<noteq> Iso_sandbox \<or> gr_external g = []) \<and>
     (js ''bash'' \<in> set (gr_tools g) \<or> \<not> gr_shell g)"

text \<open>
  The grant sets of the agent tree under one policy: the root's, and what any edge derives. At each
  edge the supervisor resolves the allowlist anew against the tools the governing session offers
  then (\<open>governingExternalConcrete\<close>); \<open>delegated policy available g\<close> says that \<open>g\<close> was derived
  when it offered \<open>available\<close>. A reload (\<open>reloadAgent\<close>) derives the grants of an agent again and
  keeps of the external tools those it held before.
\<close>

inductive delegated :: "supervisor_policy \<Rightarrow> jstring list \<Rightarrow> grant_set \<Rightarrow> bool" for policy where
  root: "delegated policy available (root_grants policy (resolve_allowed_concrete available (p_allowed_tools policy)))"
| governor_child: "intersect_grants policy None rq (resolve_allowed_concrete available (p_allowed_tools policy)) = Inr g \<Longrightarrow>
    delegated policy available g"
| child: "delegated policy before ow \<Longrightarrow>
    intersect_grants policy (Some ow) rq (resolve_allowed_concrete available (p_allowed_tools policy)) = Inr g \<Longrightarrow>
    delegated policy available g"
| reload: "delegated policy before ow \<Longrightarrow> delegated policy earlier old \<Longrightarrow>
    intersect_grants policy (Some ow) rq (resolve_allowed_concrete available (p_allowed_tools policy)) = Inr g \<Longrightarrow>
    delegated policy available (g\<lparr>gr_external := filter (\<lambda>t. t \<in> set (gr_external old)) (gr_external g)\<rparr>)"

lemma within_root: "within_policy policy available (root_grants policy (resolve_allowed_concrete available (p_allowed_tools policy)))"
  by (auto simp: within_policy_def repos_registered_def root_grants_def list_all_iff list_ex_iff KNOWN_PROXY_TOOLS_def)

lemma within_narrowed: "within_policy policy available g \<Longrightarrow> within_policy policy available (g\<lparr>gr_external := filter P (gr_external g)\<rparr>)"
  by (auto simp: within_policy_def)

lemma repo_within_policy:
  assumes "repos_registered policy owned" and "list_all (repo_within owned) rs"
  shows "repos_registered policy rs"
  using assms by (fastforce simp: list_all_iff list_ex_iff repo_within_def repos_registered_def)

lemma root_repos_registered: "repos_registered policy (gr_repos (root_grants policy ext))"
  by (auto simp: repos_registered_def root_grants_def list_all_iff list_ex_iff)

lemma grant_repos_registered:
  assumes "grant_repos policy None rq = Inr repos"
  shows "repos_registered policy repos"
proof (cases "rq_isolation rq = Iso_sandbox")
  case False
  with assms have "repos = map (\<lambda>r. r\<lparr>rg_write := rg_write r \<and> rq_profile rq = Writer\<rparr>) (gr_repos (root_grants policy []))"
    by (auto simp: grant_repos_def split: if_splits)
  then show ?thesis by (auto simp: repos_registered_def root_grants_def list_all_iff list_ex_iff)
next
  case True
  show ?thesis
  proof (cases "rq_repo rq")
    case None
    with True assms show ?thesis by (auto simp: grant_repos_def repos_registered_def split: if_splits)
  next
    case (Some repo)
    obtain reg where f: "List.find (\<lambda>r. rr_repo r = repo) (p_repos policy) = Some reg"
      "rq_profile rq = Writer \<Longrightarrow> rr_allow_writers reg"
      "repos = [\<lparr>rg_repo = rr_repo reg, rg_read = True, rg_write = (rq_profile rq = Writer)\<rparr>]"
      using True Some assms by (auto simp: grant_repos_def Let_def split: if_splits option.splits)
    then have "reg \<in> set (p_repos policy)" by (auto simp: find_Some_iff)
    with f show ?thesis by (auto simp: repos_registered_def list_ex_iff)
  qed
qed

lemma profile_tools_known: "set (profile_tools p) \<subseteq> set KNOWN_PROXY_TOOLS"
  by (auto simp: profile_tools_def READER_TOOLS_def WRITER_TOOLS_def KNOWN_PROXY_TOOLS_def split: agent_profile.splits)

lemma bash_of_writer: "js ''bash'' \<in> set (profile_tools Writer)"
  by (simp add: profile_tools_def WRITER_TOOLS_def)

lemma within_intersect:
  assumes g: "intersect_grants policy owner rq (resolve_allowed_concrete available (p_allowed_tools policy)) = Inr g"
    and ow: "\<And>x. owner = Some x \<Longrightarrow> within_policy policy before x"
  shows "within_policy policy available g"
proof -
  note d = intersect_grantsD [OF g]
  have "repos_registered policy (gr_repos g)"
  proof (cases owner)
    case (Some x)
    have "repos_registered policy (gr_repos x)" using ow [OF Some] by (simp add: within_policy_def)
    moreover have "list_all (repo_within (gr_repos x)) (gr_repos g)"
      using d(6) Some by (intro grant_repos_within) simp
    ultimately show ?thesis by (rule repo_within_policy)
  next
    case None
    with d(6) grant_repos_registered show ?thesis by simp
  qed
  moreover have "set (gr_external g) \<subseteq> set (resolve_allowed_concrete available (p_allowed_tools policy))" "gr_isolation g \<noteq> Iso_sandbox \<or> gr_external g = []"
    by (auto simp: d grant_external_def split: if_splits)
  moreover have "js ''bash'' \<in> set (gr_tools g) \<or> \<not> gr_shell g"
    using d bash_of_writer by auto
  ultimately show ?thesis
    using d profile_tools_known by (auto simp: within_policy_def)
qed

lemma path_within_segments_lemma:
  assumes "\<not> ends_with_slash rt"
  shows "path_within path rt \<longleftrightarrow> (\<exists>rest. split_on 47 path = split_on 47 rt @ rest)"
proof
  have js47: "js ''/'' = [47]" by (simp add: js_def)
  assume "path_within path rt"
  then consider "path = rt" | b where "path = rt @ 47 # b"
    using assms by (auto simp: path_within_def starts_with_iff js47)
  then show "\<exists>rest. split_on 47 path = split_on 47 rt @ rest"
    by cases (auto simp: split_on_append)
next
  have js47: "js ''/'' = [47]" by (simp add: js_def)
  assume "\<exists>rest. split_on 47 path = split_on 47 rt @ rest"
  then obtain rest where r: "split_on 47 path = split_on 47 rt @ rest" by blast
  have "path = join_on 47 (split_on 47 rt @ rest)" using r join_split [of 47 path] by simp
  then have "path = rt \<or> (\<exists>b. path = rt @ 47 # b)"
    by (cases "rest = []") (auto simp: join_on_append)
  then show "path_within path rt"
    using assms by (auto simp: path_within_def starts_with_iff js47)
qed

lemma limit_value_iff:
  "limit_value key dflt maximum v = Inr n \<longleftrightarrow>
     v = JUndef \<and> n = dflt \<or> v = JNum (Fin (of_int n)) \<and> 1 \<le> n \<and> n \<le> maximum"
proof (cases "\<exists>q. v = JNum (Fin q)")
  case False
  then show ?thesis by (auto simp: limit_value_def split: js_value.splits js_num.splits)
next
  case True
  then obtain q where v: "v = JNum (Fin q)" by blast
  show ?thesis
  proof
    assume "limit_value key dflt maximum v = Inr n"
    then have q: "is_int_rat q" "\<not> q < 1" "\<not> q > of_int maximum" "n = \<lfloor>q\<rfloor>"
      by (auto simp: limit_value_def v split: if_splits)
    from q(1,4) have "q = of_int n" unfolding is_int_rat_def by simp
    with q(2,3) show "v = JUndef \<and> n = dflt \<or> v = JNum (Fin (of_int n)) \<and> 1 \<le> n \<and> n \<le> maximum"
      by (simp add: v)
  next
    assume "v = JUndef \<and> n = dflt \<or> v = JNum (Fin (of_int n)) \<and> 1 \<le> n \<and> n \<le> maximum"
    then have "q = of_int n" "1 \<le> n" "n \<le> maximum" by (auto simp: v)
    then show "limit_value key dflt maximum v = Inr n" by (simp add: limit_value_def v)
  qed
qed

lemma validate_limits_iff:
  "validate_scheduler_limits a b c = Inr l \<longleftrightarrow>
     limit_value ''maxRunnable'' (max_runnable DEFAULT_LIMITS) (max_runnable SCHEDULER_LIMIT_MAXIMA) a = Inr (max_runnable l) \<and>
     limit_value ''maxResidentWorkers'' (max_resident DEFAULT_LIMITS) (max_resident SCHEDULER_LIMIT_MAXIMA) b = Inr (max_resident l) \<and>
     limit_value ''maxOpenAgents'' (max_open DEFAULT_LIMITS) (max_open SCHEDULER_LIMIT_MAXIMA) c = Inr (max_open l) \<and>
     max_runnable l \<le> max_resident l \<and> max_resident l \<le> max_open l"
  by (cases "limit_value ''maxRunnable'' (max_runnable DEFAULT_LIMITS) (max_runnable SCHEDULER_LIMIT_MAXIMA) a";
      cases "limit_value ''maxResidentWorkers'' (max_resident DEFAULT_LIMITS) (max_resident SCHEDULER_LIMIT_MAXIMA) b";
      cases "limit_value ''maxOpenAgents'' (max_open DEFAULT_LIMITS) (max_open SCHEDULER_LIMIT_MAXIMA) c"; cases l)
    (auto simp: validate_scheduler_limits_def)

section \<open>Properties\<close>

text \<open>
  C24. Delegation never widens authority: whatever the policy, the request and the external tools
  offered, a grant set derived from an owner's has no tool, external tool, repository, repository
  write, shell or network authority and no depth that the owner lacks, runs no less isolated than
  the owner, and below the first level is derived only by an owner that may delegate.
\<close>

theorem delegation_never_widens:
  assumes "intersect_grants policy (Some ow) rq ext = Inr g"
  shows "set (gr_tools g) \<subseteq> set (gr_tools ow) \<and> set (gr_external g) \<subseteq> set (gr_external ow) \<and>
    list_all (repo_within (gr_repos ow)) (gr_repos g) \<and> (gr_shell g \<longrightarrow> gr_shell ow) \<and>
    (gr_network g \<longrightarrow> gr_network ow) \<and> gr_max_depth g \<le> gr_max_depth ow \<and> rq_depth rq \<le> gr_max_depth ow \<and>
    \<not> less_isolated (gr_isolation g) (gr_isolation ow) \<and> (1 < rq_depth rq \<longrightarrow> gr_nesting ow)"
  using intersect_grantsD [OF assms] owner_permitsD [of ow rq "()"] grant_repos_within [of policy ow rq]
  by (auto simp: grant_external_def)

definition sample_policy :: supervisor_policy where
  "sample_policy = default_supervisor_policy\<lparr>p_max_depth := 2, p_nesting := True, p_allowed_tools := [js ''mc*''],
     p_repos := [\<lparr>rr_repo = js ''r'', rr_checkout = js ''/r'', rr_read_roots = [], rr_allow_writers = True\<rparr>]\<rparr>"

definition sample_request :: grant_request where
  "sample_request = \<lparr>rq_profile = Writer, rq_isolation = Iso_worktree, rq_repo = None, rq_shell = True,
     rq_network = False, rq_model = None, rq_depth = 2\<rparr>"

lemma sample_reserved: "\<not> is_reserved_tool_name (js ''mcp'')"
  by code_simp

lemma sample_intersect:
  "\<exists>g. intersect_grants sample_policy (Some (root_grants sample_policy [js ''mcp''])) sample_request [js ''mcp''] = Inr g"
proof -
  have "List.find (\<lambda>t. t \<notin> set KNOWN_PROXY_TOOLS) (profile_tools Writer) = None"
    using profile_tools_known by (auto simp: find_None_iff)
  then show ?thesis
    by (simp add: intersect_grants_def owner_permits_def grant_repos_def sample_request_def sample_policy_def
        root_grants_def default_supervisor_policy_def)
qed

theorem delegation_never_widens_witness:
  "\<exists>g. intersect_grants sample_policy (Some (root_grants sample_policy [js ''mcp''])) sample_request [js ''mcp''] = Inr g \<and>
     set (gr_external g) \<subseteq> {js ''mcp''} \<and> gr_max_depth g \<le> 2"
proof -
  obtain g where g: "intersect_grants sample_policy (Some (root_grants sample_policy [js ''mcp''])) sample_request [js ''mcp''] = Inr g"
    using sample_intersect by blast
  have "set (gr_external (root_grants sample_policy [js ''mcp''])) \<subseteq> {js ''mcp''}"
    "gr_max_depth (root_grants sample_policy [js ''mcp'']) = 2"
    by (auto simp: root_grants_def sample_policy_def split: if_splits)
  with delegation_never_widens [OF g] g show ?thesis by auto
qed

text \<open>
  C25. Authority in the whole tree is bounded by the policy: every grant set derived along any chain
  of edges from the root holds only known proxy tools; of external tools only unreserved ones that
  the allowlist of the policy names and the governing session offers when the set is derived, and
  none in a sandbox; only registered repositories, with writes only where writers are allowed;
  network only when the policy has it; no more depth than the policy; shell only with the shell tool.
\<close>

theorem tree_authority_bounded:
  assumes "delegated policy available g"
  shows "within_policy policy available g"
  using assms
proof (induction rule: delegated.induct)
  case (root available)
  show ?case by (rule within_root)
next
  case (governor_child rq available g)
  then show ?case by (rule within_intersect) simp
next
  case (child before ow rq available g)
  from child.hyps(2) show ?case by (rule within_intersect) (use child.IH in simp)
next
  case (reload before ow earlier old rq available g)
  from reload.hyps(3) have "within_policy policy available g" by (rule within_intersect) (use reload.IH in simp)
  then show ?case by (rule within_narrowed)
qed

theorem tree_authority_bounded_witness:
  "\<exists>g. delegated sample_policy [js ''mcp'', js ''other''] g \<and> within_policy sample_policy [js ''mcp'', js ''other''] g \<and>
     gr_external g = [js ''mcp'']"
proof -
  have r: "resolve_allowed_concrete [js ''mcp'', js ''other''] (p_allowed_tools sample_policy) = [js ''mcp'']"
    by code_simp
  obtain g where g: "intersect_grants sample_policy (Some (root_grants sample_policy [js ''mcp''])) sample_request [js ''mcp''] = Inr g"
    using sample_intersect by blast
  have "delegated sample_policy [js ''mcp'', js ''other''] g"
    using delegated.child [OF delegated.root [of sample_policy "[js ''mcp'', js ''other'']"]] g by (simp add: r)
  moreover have "gr_external g = [js ''mcp'']"
    using intersect_grantsD [OF g] by (simp add: grant_external_def root_grants_def sample_request_def sample_reserved)
  ultimately show ?thesis using tree_authority_bounded by blast
qed

text \<open>
  An allowlist pattern is a full-name glob: a concrete name is resolved exactly when it is
  available, is not reserved, and is the chunks of some pattern between its stars with any strings
  without line terminators in the places of the stars.
\<close>

theorem allowlist_is_glob:
  "name \<in> set (resolve_allowed_concrete available patterns) \<longleftrightarrow>
     name \<in> set available \<and> \<not> is_reserved_tool_name name \<and>
     (\<exists>p ws. p \<in> set patterns \<and> fill_chunks (split_on 42 p) ws = Some name \<and>
        list_all (list_all (\<lambda>c. \<not> is_line_terminator c)) ws)"
  by (auto simp: resolve_allowed_concrete_def matches_allowed_tool_def list_ex_iff compile_allowed_pattern_def
      regex_test_chunks)

text \<open>
  A workspace is accepted exactly when the segments of an allowed root are an initial part of its
  own segments, so that a sibling whose name merely starts like a root is outside it (roots written
  without a trailing slash).
\<close>

theorem workspace_inside_roots:
  assumes "list_all (\<lambda>r. \<not> ends_with_slash r) roots"
  shows "authorize_workspace roots w = Inr () \<longleftrightarrow>
    (\<exists>r rest. r \<in> set roots \<and> split_on 47 w = split_on 47 r @ rest)"
proof -
  have "authorize_workspace roots w = Inr () \<longleftrightarrow> (\<exists>r. r \<in> set roots \<and> path_within w r)"
    by (auto simp: authorize_workspace_def list_ex_iff)
  with assms path_within_segments_lemma show ?thesis by (simp add: list_all_iff) blast
qed

theorem workspace_inside_roots_witness:
  "authorize_workspace [js ''/w''] (js ''/w/a'') = Inr () \<and> authorize_workspace [js ''/w''] (js ''/wx'') \<noteq> Inr ()"
proof -
  have l: "list_all (\<lambda>r. \<not> ends_with_slash r) [js ''/w'']" by (simp add: ends_with_slash_def js_def)
  have "split_on 47 (js ''/w/a'') = split_on 47 (js ''/w'') @ [js ''a'']"
    "\<nexists>rest. split_on 47 (js ''/wx'') = split_on 47 (js ''/w'') @ rest"
    by (simp_all add: js_def)
  with workspace_inside_roots [OF l] show ?thesis by auto
qed

text \<open>
  The scheduler limits of a policy file are accepted exactly when each is absent (its default
  holds) or an integer from 1 to its maximum, and they are ordered so that each can bind; what is
  accepted is what the scheduler's own invariants need.
\<close>

theorem scheduler_limits_validated:
  "validate_scheduler_limits a b c = Inr l \<longleftrightarrow>
     (a = JUndef \<and> max_runnable l = 4 \<or> a = JNum (Fin (of_int (max_runnable l))) \<and> 1 \<le> max_runnable l \<and> max_runnable l \<le> 64) \<and>
     (b = JUndef \<and> max_resident l = 8 \<or> b = JNum (Fin (of_int (max_resident l))) \<and> 1 \<le> max_resident l \<and> max_resident l \<le> 128) \<and>
     (c = JUndef \<and> max_open l = 32 \<or> c = JNum (Fin (of_int (max_open l))) \<and> 1 \<le> max_open l \<and> max_open l \<le> 1024) \<and>
     max_runnable l \<le> max_resident l \<and> max_resident l \<le> max_open l \<and> limits_ok l"
  using validate_limits_iff [of a b c l]
  by (auto simp: limit_value_iff DEFAULT_LIMITS_def SCHEDULER_LIMIT_MAXIMA_def limits_ok_def)

end
