(* ===== verification/Json.thy ===== *)
theory Json
  imports Numbers
begin

text \<open>
  JSON texts and UTF-8: \<open>JSON.stringify\<close> (\<open>json_text\<close>), \<open>JSON.parse\<close> (\<open>json_parse\<close>),
  \<open>Buffer.from(s, "utf8")\<close> (\<open>utf8_encode\<close>) and \<open>toString("utf8")\<close> (\<open>utf8_decode\<close>), with
  the round trips the stores rely on. An object keeps its properties in the order of the text
  (integer-like keys are not moved to the front).
\<close>

section \<open>JSON.stringify\<close>

definition hex_digit :: "nat \<Rightarrow> nat" where
  "hex_digit d = (if d < 10 then 48 + d else 87 + d)"

definition unicode_escape :: "nat \<Rightarrow> jstring" where
  "unicode_escape c = [92, 117] @ map hex_digit [c div 4096 mod 16, c div 256 mod 16, c div 16 mod 16, c mod 16]"

definition is_high :: "nat \<Rightarrow> bool" where
  "is_high c \<longleftrightarrow> 55296 \<le> c \<and> c \<le> 56319"

definition is_low :: "nat \<Rightarrow> bool" where
  "is_low c \<longleftrightarrow> 56320 \<le> c \<and> c \<le> 57343"

text \<open>The inside of a JSON string: control characters and lone surrogates are escaped.\<close>

definition json_char :: "nat \<Rightarrow> jstring" where
  "json_char c =
     (if c = 34 \<or> c = 92 then [92, c]
      else if c = 8 then [92, 98] else if c = 9 then [92, 116] else if c = 10 then [92, 110]
      else if c = 12 then [92, 102] else if c = 13 then [92, 114]
      else if c < 32 then unicode_escape c else [c])"

fun json_chars :: "jstring \<Rightarrow> jstring" where
  "json_chars [] = []"
| "json_chars [c] = (if is_high c \<or> is_low c then unicode_escape c else json_char c)"
| "json_chars (c # d # cs) =
     (if is_high c \<and> is_low d then c # d # json_chars cs
      else if is_high c \<or> is_low c then unicode_escape c @ json_chars (d # cs)
      else json_char c @ json_chars (d # cs))"

definition json_string :: "jstring \<Rightarrow> jstring" where
  "json_string s = [34] @ json_chars s @ [34]"

definition comma_separated :: "jstring list \<Rightarrow> jstring" where
  "comma_separated xs = join_on 44 xs"

text \<open>An undefined property is left out of an object and is \<open>null\<close> in an array.\<close>

fun json_text :: "(js_num \<Rightarrow> jstring) \<Rightarrow> js_value \<Rightarrow> jstring" where
  "json_text nt JUndef = js ''null''"
| "json_text nt JNull = js ''null''"
| "json_text nt (JBool b) = (if b then js ''true'' else js ''false'')"
| "json_text nt (JNum x) = (case x of Fin q \<Rightarrow> nt x | _ \<Rightarrow> js ''null'')"
| "json_text nt (JStr s) = json_string s"
| "json_text nt (JArr vs) = [91] @ comma_separated (map (json_text nt) vs) @ [93]"
| "json_text nt (JObj kvs) = [123] @ comma_separated
     (map (\<lambda>(k, v). json_string k @ [58] @ json_text nt v) (filter (\<lambda>(k, v). v \<noteq> JUndef) kvs)) @ [125]"

section \<open>UTF-8\<close>

text \<open>\<open>Buffer.byteLength(s, "utf8")\<close>; a lone surrogate becomes the three bytes of U+FFFD.\<close>

fun utf8_length :: "jstring \<Rightarrow> nat" where
  "utf8_length [] = 0"
| "utf8_length [c] = (if c < 128 then 1 else if c < 2048 then 2 else 3)"
| "utf8_length (c # d # cs) =
     (if is_high c \<and> is_low d then 4 + utf8_length cs
      else (if c < 128 then 1 else if c < 2048 then 2 else 3) + utf8_length (d # cs))"

definition three_bytes :: "nat \<Rightarrow> nat list" where
  "three_bytes c = [224 + c div 4096, 128 + c div 64 mod 64, 128 + c mod 64]"

definition unit_bytes :: "nat \<Rightarrow> nat list" where
  "unit_bytes c =
     (if c < 128 then [c] else if c < 2048 then [192 + c div 64, 128 + c mod 64]
      else if is_high c \<or> is_low c then [239, 191, 189] else three_bytes c)"

definition pair_bytes :: "nat \<Rightarrow> nat \<Rightarrow> nat list" where
  "pair_bytes c d = (let p = 65536 + (c - 55296) * 1024 + (d - 56320) in
     [240 + p div 262144, 128 + p div 4096 mod 64, 128 + p div 64 mod 64, 128 + p mod 64])"

fun utf8_encode :: "jstring \<Rightarrow> nat list" where
  "utf8_encode [] = []"
| "utf8_encode [c] = unit_bytes c"
| "utf8_encode (c # d # cs) =
     (if is_high c \<and> is_low d then pair_bytes c d @ utf8_encode cs else unit_bytes c @ utf8_encode (d # cs))"

text \<open>
  Decoding. \<open>bytes_left\<close> is the number of continuation bytes a lead byte asks for, with the range
  of the first of them; a sequence that breaks off becomes one U+FFFD.
\<close>

definition lead_byte :: "nat \<Rightarrow> (nat \<times> nat \<times> nat) option" where
  "lead_byte b =
     (if 194 \<le> b \<and> b \<le> 223 then Some (1, 128, 191)
      else if b = 224 then Some (2, 160, 191) else if b = 237 then Some (2, 128, 159)
      else if 225 \<le> b \<and> b \<le> 239 then Some (2, 128, 191)
      else if b = 240 then Some (3, 144, 191) else if b = 244 then Some (3, 128, 143)
      else if 241 \<le> b \<and> b \<le> 243 then Some (3, 128, 191) else None)"

definition lead_bits :: "nat \<Rightarrow> nat \<Rightarrow> nat" where
  "lead_bits n b = (if n = 1 then b - 192 else if n = 2 then b - 224 else b - 240)"

definition point_units :: "nat \<Rightarrow> jstring" where
  "point_units p = (if p < 65536 then [p] else [55296 + (p - 65536) div 1024, 56320 + (p - 65536) mod 1024])"

text \<open>The state is what is missing of a sequence: its bytes, the range of the next, and the bits so far.\<close>

fun utf8_step :: "(nat \<times> nat \<times> nat \<times> nat) option \<Rightarrow> nat list \<Rightarrow> jstring" where
  "utf8_step None [] = []"
| "utf8_step (Some _) [] = [65533]"
| "utf8_step None (b # bs) =
     (if b < 128 then b # utf8_step None bs
      else case lead_byte b of None \<Rightarrow> 65533 # utf8_step None bs
        | Some (n, lo, hi) \<Rightarrow> utf8_step (Some (n, lo, hi, lead_bits n b)) bs)"
| "utf8_step (Some (n, lo, hi, p)) (b # bs) =
     (if lo \<le> b \<and> b \<le> hi
      then if n = 1 then point_units (64 * p + (b - 128)) @ utf8_step None bs
           else utf8_step (Some (n - 1, 128, 191, 64 * p + (b - 128))) bs
      else 65533 # (if b < 128 then b # utf8_step None bs
        else case lead_byte b of None \<Rightarrow> 65533 # utf8_step None bs
          | Some (n, lo, hi) \<Rightarrow> utf8_step (Some (n, lo, hi, lead_bits n b)) bs))"

definition utf8_decode :: "nat list \<Rightarrow> jstring" where
  "utf8_decode bs = utf8_step None bs"

text \<open>A string of code units in which every surrogate is in a pair.\<close>

fun well_paired :: "jstring \<Rightarrow> bool" where
  "well_paired [] = True"
| "well_paired [c] = (c < 65536 \<and> \<not> is_high c \<and> \<not> is_low c)"
| "well_paired (c # d # cs) =
     (if is_high c \<and> is_low d then well_paired cs else c < 65536 \<and> \<not> is_high c \<and> \<not> is_low c \<and> well_paired (d # cs))"

lemma length_unit_bytes: "length (unit_bytes c) = (if c < 128 then 1 else if c < 2048 then 2 else 3)"
  by (simp add: unit_bytes_def three_bytes_def is_high_def is_low_def)

lemma length_utf8_encode: "length (utf8_encode s) = utf8_length s"
  by (induction s rule: utf8_encode.induct) (simp_all add: length_unit_bytes pair_bytes_def Let_def)

lemma two_sextets: "4096 * (c div 4096) + 64 * (c div 64 mod 64) + c mod 64 = (c::nat)"
proof -
  have "c div 4096 = c div 64 div 64" by (simp flip: div_mult2_eq)
  then show ?thesis using mult_div_mod_eq [of 64 c] mult_div_mod_eq [of 64 "c div 64"] by linarith
qed

lemma three_sextets: "262144 * (c div 262144) + 4096 * (c div 4096 mod 64) + 64 * (c div 64 mod 64) + c mod 64 = (c::nat)"
proof -
  have "c div 262144 = c div 4096 div 64" by (simp flip: div_mult2_eq)
  then show ?thesis using two_sextets [of c] mult_div_mod_eq [of 64 "c div 4096"] by linarith
qed

lemma step_two_bytes:
  assumes "2 \<le> x" "x < 32" "y < 64"
  shows "utf8_step None ([192 + x, 128 + y] @ bs) = (64 * x + y) # utf8_step None bs"
  using assms by (simp add: lead_byte_def lead_bits_def point_units_def)

lemma lead_byte_two:
  "x \<le> 15 \<Longrightarrow> lead_byte (224 + x) = Some (2, if x = 0 then 160 else 128, if x = 13 then 159 else 191)"
  by (auto simp: lead_byte_def)

lemma step_three_bytes:
  assumes "x \<le> 15" "y < 64" "z < 64" "x = 0 \<Longrightarrow> 32 \<le> y" "x = 13 \<Longrightarrow> y \<le> 31"
  shows "utf8_step None ([224 + x, 128 + y, 128 + z] @ bs) = (4096 * x + 64 * y + z) # utf8_step None bs"
proof -
  have "4096 * x + 64 * y + z < 65536" using assms(1-3) by linarith
  with assms show ?thesis
    by (simp add: lead_byte_two lead_bits_def point_units_def)
qed

lemma lead_byte_three:
  "x \<le> 4 \<Longrightarrow> lead_byte (240 + x) = Some (3, if x = 0 then 144 else 128, if x = 4 then 143 else 191)"
  by (auto simp: lead_byte_def)

lemma step_four_bytes:
  assumes "x \<le> 4" "y < 64" "z < 64" "w < 64" "x = 0 \<Longrightarrow> 16 \<le> y" "x = 4 \<Longrightarrow> y \<le> 15"
  shows "utf8_step None ([240 + x, 128 + y, 128 + z, 128 + w] @ bs) =
    point_units (262144 * x + 4096 * y + 64 * z + w) @ utf8_step None bs"
  using assms by (simp add: lead_byte_three lead_bits_def)

lemma step_unit:
  assumes "c < 65536" "\<not> is_high c" "\<not> is_low c"
  shows "utf8_step None (unit_bytes c @ bs) = c # utf8_step None bs"
proof -
  have c: "c < 55296 \<or> 57343 < c" using assms by (auto simp: is_high_def is_low_def)
  consider "c < 128" | "128 \<le> c" "c < 2048" | "2048 \<le> c" by linarith
  then show ?thesis
  proof cases
    case 2
    then have "2 \<le> c div 64" "c div 64 < 32" by linarith+
    from step_two_bytes [OF this, of "c mod 64" bs] 2 show ?thesis by (simp add: unit_bytes_def)
  next
    case 3
    define x y z where "x = c div 4096" and "y = c div 64 mod 64" and "z = c mod 64"
    have e: "4096 * x + 64 * y + z = c"
      unfolding x_def y_def z_def by (rule two_sextets)
    have b: "x \<le> 15" "y < 64" "z < 64" using assms(1) by (auto simp: x_def y_def z_def)
    have lo: "32 \<le> y" if "x = 0" using e b(3) 3 that by linarith
    have hi: "y \<le> 31" if "x = 13" using e b(2,3) c that by linarith
    from step_three_bytes [OF b lo hi, of bs] 3 assms(2-) show ?thesis
      by (simp add: unit_bytes_def three_bytes_def e flip: x_def y_def z_def)
  qed (simp add: unit_bytes_def)
qed

lemma step_pair:
  assumes "is_high c" "is_low d"
  shows "utf8_step None (pair_bytes c d @ bs) = c # d # utf8_step None bs"
proof -
  define p where "p = 65536 + (c - 55296) * 1024 + (d - 56320)"
  define x y z w where "x = p div 262144" and "y = p div 4096 mod 64" and "z = p div 64 mod 64" and "w = p mod 64"
  have p: "65536 \<le> p" "p < 1114112" using assms by (auto simp: p_def is_high_def is_low_def)
  have e: "262144 * x + 4096 * y + 64 * z + w = p"
    unfolding x_def y_def z_def w_def by (rule three_sextets)
  have b: "x \<le> 4" "y < 64" "z < 64" "w < 64" using p by (auto simp: x_def y_def z_def w_def)
  have lo: "16 \<le> y" if "x = 0" using e b(3,4) p(1) that by linarith
  have hi: "y \<le> 15" if "x = 4" using e p(2) that by linarith
  from step_four_bytes [OF b lo hi, of bs]
  have "utf8_step None (pair_bytes c d @ bs) = point_units p @ utf8_step None bs"
    by (simp add: pair_bytes_def Let_def e flip: p_def x_def y_def z_def w_def)
  moreover have "point_units p = [c, d]"
  proof -
    obtain a b where cd: "c = 55296 + a" "d = 56320 + b" "a < 1024" "b < 1024"
      using assms by (auto simp: is_high_def is_low_def le_iff_add)
    then have "p = 65536 + (a * 1024 + b)" by (simp add: p_def)
    with cd show ?thesis by (simp add: point_units_def)
  qed
  ultimately show ?thesis by simp
qed

lemma utf8_roundtrip: "well_paired s \<Longrightarrow> utf8_decode (utf8_encode s) = s"
proof (induction s rule: well_paired.induct)
  case (2 c)
  then show ?case using step_unit [of c "[]"] by (simp add: utf8_decode_def)
next
  case (3 c d cs)
  then show ?case by (auto simp: utf8_decode_def step_unit step_pair)
qed (simp add: utf8_decode_def)

section \<open>JSON.parse\<close>

definition json_space :: "nat \<Rightarrow> bool" where
  "json_space c \<longleftrightarrow> c = 32 \<or> c = 9 \<or> c = 10 \<or> c = 13"

abbreviation skip_space :: "jstring \<Rightarrow> jstring" where
  "skip_space s \<equiv> dropWhile json_space s"

definition hex_value :: "jstring \<Rightarrow> nat option" where
  "hex_value ds = radix_value 16 0 ds"

definition escaped_char :: "nat \<Rightarrow> nat option" where
  "escaped_char e =
     (if e = 34 \<or> e = 92 \<or> e = 47 then Some e else if e = 98 then Some 8 else if e = 102 then Some 12
      else if e = 110 then Some 10 else if e = 114 then Some 13 else if e = 116 then Some 9 else None)"

text \<open>What follows an opening quote: the string and the rest after the closing quote.\<close>

fun string_tail :: "jstring \<Rightarrow> (jstring \<times> jstring) option" where
  "string_tail [] = None"
| "string_tail (c # t) =
     (if c = 34 then Some ([], t)
      else if c \<noteq> 92 then if c < 32 then None else map_option (apfst (Cons c)) (string_tail t)
      else case t of [] \<Rightarrow> None
        | e # u \<Rightarrow>
          if e = 117
          then (if length u < 4 then None
                else case hex_value (take 4 u) of None \<Rightarrow> None
                  | Some x \<Rightarrow> map_option (apfst (Cons x)) (string_tail (drop 4 u)))
          else case escaped_char e of None \<Rightarrow> None
            | Some x \<Rightarrow> map_option (apfst (Cons x)) (string_tail u))"

text \<open>Numbers: the longest run of their characters must have the form of one.\<close>

definition number_char :: "nat \<Rightarrow> bool" where
  "number_char c \<longleftrightarrow> is_digit c \<or> c = 43 \<or> c = 45 \<or> c = 46 \<or> c = 69 \<or> c = 101"

definition json_number :: "jstring \<Rightarrow> bool" where
  "json_number s =
     (let u = (if s \<noteq> [] \<and> hd s = 45 then tl s else s); ip = takeWhile is_digit u; r = dropWhile is_digit u
      in ip \<noteq> [] \<and> (hd ip = 48 \<longrightarrow> tl ip = []) \<and>
        (if r \<noteq> [] \<and> hd r = 46
         then takeWhile is_digit (tl r) \<noteq> [] \<and> exponent_of (dropWhile is_digit (tl r)) \<noteq> None
         else exponent_of r \<noteq> None))"

definition json_literal :: "jstring \<Rightarrow> js_value \<Rightarrow> jstring \<Rightarrow> (js_value \<times> jstring) option" where
  "json_literal w v s = (if starts_with s w then Some (v, drop (length w) s) else None)"

text \<open>
  A value, the rest of an array after its opening bracket or a comma, and the rest of an object.
  The comparisons of lengths always hold: a value takes at least one character.
\<close>

function (sequential) json_value :: "jstring \<Rightarrow> (js_value \<times> jstring) option"
  and json_elements :: "js_value list \<Rightarrow> jstring \<Rightarrow> (js_value \<times> jstring) option"
  and json_members :: "(jstring \<times> js_value) list \<Rightarrow> jstring \<Rightarrow> (js_value \<times> jstring) option" where
  "json_value s =
     (case skip_space s of [] \<Rightarrow> None
      | c # t \<Rightarrow>
        if c = 34 then map_option (apfst JStr) (string_tail t)
        else if c = 91
        then (if skip_space t \<noteq> [] \<and> hd (skip_space t) = 93 then Some (JArr [], tl (skip_space t))
              else if length t < length s then json_elements [] t else None)
        else if c = 123
        then (if skip_space t \<noteq> [] \<and> hd (skip_space t) = 125 then Some (JObj [], tl (skip_space t))
              else if length t < length s then json_members [] t else None)
        else if c = 116 then json_literal (js ''rue'') (JBool True) t
        else if c = 102 then json_literal (js ''alse'') (JBool False) t
        else if c = 110 then json_literal (js ''ull'') JNull t
        else let n = takeWhile number_char (c # t) in
          if json_number n then Some (JNum (number_of_text n), dropWhile number_char (c # t)) else None)"
| "json_elements acc t =
     (case json_value t of None \<Rightarrow> None
      | Some (v, r) \<Rightarrow>
        case skip_space r of [] \<Rightarrow> None
        | c # u \<Rightarrow>
          if c = 93 then Some (JArr (acc @ [v]), u)
          else if c = 44 \<and> length u < length t then json_elements (acc @ [v]) u else None)"
| "json_members acc t =
     (case skip_space t of [] \<Rightarrow> None
      | q # k \<Rightarrow>
        if q \<noteq> 34 then None
        else case string_tail k of None \<Rightarrow> None
          | Some (key, r) \<Rightarrow>
            case skip_space r of [] \<Rightarrow> None
            | d # u \<Rightarrow>
              if d = 58 \<and> length u < length t
              then case json_value u of None \<Rightarrow> None
                | Some (v, r2) \<Rightarrow>
                  case skip_space r2 of [] \<Rightarrow> None
                  | e # w \<Rightarrow>
                    if e = 125 then Some (JObj (map_put key v acc), w)
                    else if e = 44 \<and> length w < length t then json_members (map_put key v acc) w else None
              else None)"
  by pat_completeness auto
termination
  by (relation "measure (\<lambda>x. case x of Inl s \<Rightarrow> 2 * length s
        | Inr (Inl (acc, t)) \<Rightarrow> 2 * length t + 1 | Inr (Inr (acc, t)) \<Rightarrow> 2 * length t + 1)") auto

declare json_value.simps [simp del] json_elements.simps [simp del] json_members.simps [simp del]

definition json_parse :: "jstring \<Rightarrow> js_value option" where
  "json_parse s = (case json_value s of None \<Rightarrow> None | Some (v, r) \<Rightarrow> if skip_space r = [] then Some v else None)"

section \<open>Stringify then parse\<close>

lemma hex_digit_value: "d < 16 \<Longrightarrow> digit_in 16 (hex_digit d) = Some d"
  by (auto simp: digit_in_def hex_digit_def)

lemma four_nibbles:
  assumes "c < (65536::nat)"
  shows "16 * (16 * (16 * (c div 4096 mod 16) + c div 256 mod 16) + c div 16 mod 16) + c mod 16 = c"
proof -
  have sum: "16 * (16 * (16 * d + m2) + m1) + m0 = c"
    if "16 * b + m0 = c" "16 * a + m1 = b" "16 * d + m2 = a" for a b d m0 m1 m2 :: nat
    using that by simp
  have "c div 256 = c div 16 div 16" "c div 4096 = c div 256 div 16" by (simp_all flip: div_mult2_eq)
  moreover have "c div 4096 mod 16 = c div 4096" using assms by (intro mod_less) (simp add: less_mult_imp_div_less)
  ultimately show ?thesis
    by (intro sum) (simp_all only: mult_div_mod_eq)
qed

lemma four_hex_digits:
  "c < 65536 \<Longrightarrow> hex_value (map hex_digit [c div 4096 mod 16, c div 256 mod 16, c div 16 mod 16, c mod 16]) = Some c"
  using four_nibbles [of c] unfolding hex_value_def
  by (simp only: list.map radix_value.simps hex_digit_value mod_less_divisor zero_less_numeral option.case mult_0_right add_0_left)

lemma string_tail_escape:
  assumes "c < 65536"
  shows "string_tail (unicode_escape c @ u) = map_option (apfst (Cons c)) (string_tail u)"
  using four_hex_digits [OF assms] by (simp add: unicode_escape_def)

lemma string_tail_char: "string_tail (json_char c @ u) = map_option (apfst (Cons c)) (string_tail u)"
  by (auto simp: json_char_def escaped_char_def string_tail_escape)

lemma high_char: "is_high c \<Longrightarrow> c \<noteq> 34 \<and> c \<noteq> 92 \<and> \<not> c < 32 \<and> c < 65536" 
  and low_char: "is_low c \<Longrightarrow> c \<noteq> 34 \<and> c \<noteq> 92 \<and> \<not> c < 32 \<and> c < 65536"
  by (auto simp: is_high_def is_low_def)

lemma string_tail_chars: "string_tail (json_chars s @ 34 # u) = Some (s, u)"
proof (induction s rule: json_chars.induct)
  case (2 c)
  then show ?case using high_char [of c] low_char [of c]
    by (simp add: string_tail_escape string_tail_char)
next
  case (3 c d cs)
  then show ?case using high_char [of c] low_char [of c] low_char [of d]
    by (simp add: string_tail_escape string_tail_char)
qed simp

text \<open>
  A value that survives: strings of 16-bit units, no \<open>undefined\<close>, no infinity, distinct keys,
  and the text of every number is one that reads back as that number (what \<open>Number.prototype.toString\<close> promises).
\<close>

definition number_reads_back :: "(js_num \<Rightarrow> jstring) \<Rightarrow> js_num \<Rightarrow> bool" where
  "number_reads_back nt x \<longleftrightarrow>
     is_finite x \<and> json_number (nt x) \<and> list_all number_char (nt x) \<and> number_of_text (nt x) = x"

definition units16 :: "jstring \<Rightarrow> bool" where
  "units16 s \<longleftrightarrow> list_all (\<lambda>c. c < 65536) s"

fun json_plain :: "(js_num \<Rightarrow> jstring) \<Rightarrow> js_value \<Rightarrow> bool" where
  "json_plain nt JUndef = False"
| "json_plain nt (JNum x) = number_reads_back nt x"
| "json_plain nt (JArr vs) = list_all (json_plain nt) vs"
| "json_plain nt (JObj kvs) = (distinct (map fst kvs) \<and> list_all (\<lambda>(k, v). units16 k \<and> json_plain nt v) kvs)"
| "json_plain nt (JStr s) = units16 s"
| "json_plain nt _ = True"

definition ends_value :: "jstring \<Rightarrow> bool" where
  "ends_value r \<longleftrightarrow> r = [] \<or> \<not> number_char (hd r)"

lemma ends_value_simps [simp]: "ends_value []" "ends_value (44 # r)" "ends_value (93 # r)" "ends_value (125 # r)"
  by (simp_all add: ends_value_def number_char_def is_digit_def)

lemma number_not_space: "number_char c \<Longrightarrow> \<not> json_space c"
  by (auto simp: number_char_def json_space_def is_digit_def)

lemma json_number_ne: "json_number s \<Longrightarrow> s \<noteq> []"
  by (auto simp: json_number_def)

lemma json_value_number:
  assumes "number_reads_back nt x" and "ends_value r"
  shows "json_value (nt x @ r) = Some (JNum x, r)"
proof -
  obtain c t where n: "nt x = c # t"
    using assms(1) json_number_ne by (cases "nt x") (auto simp: number_reads_back_def)
  have all: "list_all number_char (c # t)" and g: "json_number (c # t)" "number_of_text (c # t) = x"
    using assms(1) by (simp_all add: number_reads_back_def n)
  then have "takeWhile number_char (c # t @ r) = c # t" "dropWhile number_char (c # t @ r) = r"
    using assms(2) by (auto simp: takeWhile_append dropWhile_append list_all_iff ends_value_def
        takeWhile_eq_Nil_iff dropWhile_eq_Nil_conv neq_Nil_conv split: if_splits)
       (cases r; auto)+
  moreover have "c \<noteq> 34 \<and> c \<noteq> 91 \<and> c \<noteq> 123 \<and> c \<noteq> 116 \<and> c \<noteq> 102 \<and> c \<noteq> 110"
    using all by (auto simp: number_char_def is_digit_def)
  moreover have "skip_space (nt x @ r) = c # t @ r"
    using all number_not_space [of c] by (simp add: n)
  ultimately show ?thesis
    using g by (subst json_value.simps) (simp add: Let_def del: takeWhile.simps dropWhile.simps)
qed

lemma json_value_string: "json_value (json_string s @ r) = Some (JStr s, r)"
  by (subst json_value.simps) (simp add: json_string_def json_space_def string_tail_chars)

lemma json_text_start:
  assumes "json_plain nt v"
  obtains c t where "json_text nt v = c # t" "\<not> json_space c" "c \<noteq> 93" "c \<noteq> 125"
proof (cases v)
  case (JNum x)
  then obtain c t where "nt x = c # t" using assms json_number_ne by (cases "nt x") (auto simp: number_reads_back_def)
  moreover from this have "number_char c" using assms JNum by (simp add: number_reads_back_def)
  ultimately show ?thesis
    using that [of c t] assms JNum by (cases x) (auto simp: number_char_def json_space_def is_digit_def number_reads_back_def)
next
  case (JBool b)
  then show ?thesis using that by (cases b) (auto simp: js_def json_space_def)
qed (use assms that in \<open>auto simp: js_def json_space_def json_string_def\<close>)

lemma json_elements_text:
  assumes "vs \<noteq> []" and "\<And>v r. v \<in> set vs \<Longrightarrow> ends_value r \<Longrightarrow> json_value (json_text nt v @ r) = Some (v, r)"
  shows "json_elements acc (join_on 44 (map (json_text nt) vs) @ 93 # r) = Some (JArr (acc @ vs), r)"
  using assms
proof (induction vs arbitrary: acc rule: list_nonempty_induct)
  case (single v)
  then show ?case by (subst json_elements.simps) (simp add: json_space_def)
next
  case (cons v vs)
  let ?u = "join_on 44 (map (json_text nt) vs) @ 93 # r"
  have j: "join_on 44 (map (json_text nt) (v # vs)) @ 93 # r = json_text nt v @ 44 # ?u"
    using cons.hyps by (cases vs) auto
  have "json_value (json_text nt v @ 44 # ?u) = Some (v, 44 # ?u)" using cons.prems by simp
  moreover have "json_elements (acc @ [v]) ?u = Some (JArr (acc @ v # vs), r)"
    using cons.IH [of "acc @ [v]"] cons.prems by simp
  ultimately show ?case
    unfolding j by (subst json_elements.simps) (simp add: json_space_def)
qed

abbreviation member_text :: "(js_num \<Rightarrow> jstring) \<Rightarrow> jstring \<times> js_value \<Rightarrow> jstring" where
  "member_text nt kv \<equiv> json_string (fst kv) @ [58] @ json_text nt (snd kv)"

lemma json_members_text:
  assumes "kvs \<noteq> []" and "\<And>k v r. (k, v) \<in> set kvs \<Longrightarrow> ends_value r \<Longrightarrow> json_value (json_text nt v @ r) = Some (v, r)"
    and "distinct (map fst (acc @ kvs))"
  shows "json_members acc (join_on 44 (map (member_text nt) kvs) @ 125 # r) = Some (JObj (acc @ kvs), r)"
  using assms
proof (induction kvs arbitrary: acc rule: list_nonempty_induct)
  case (single kv)
  then show ?case
    by (cases kv; subst json_members.simps)
      (simp add: json_space_def json_string_def string_tail_chars map_put_fresh)
next
  case (cons kv kvs)
  obtain k v where kv: "kv = (k, v)" by force
  let ?u = "join_on 44 (map (member_text nt) kvs) @ 125 # r"
  have j: "join_on 44 (map (member_text nt) (kv # kvs)) @ 125 # r = member_text nt kv @ 44 # ?u"
    using cons.hyps by (cases kvs) auto
  have "json_value (json_text nt v @ 44 # ?u) = Some (v, 44 # ?u)" using cons.prems(1) [of k v] by (simp add: kv)
  moreover have "json_members (acc @ [(k, v)]) ?u = Some (JObj (acc @ (k, v) # kvs), r)"
  proof -
    have "json_members (acc @ [(k, v)]) ?u = Some (JObj ((acc @ [(k, v)]) @ kvs), r)"
      by (rule cons.IH) (use cons.prems in \<open>auto simp: kv\<close>)
    then show ?thesis by simp
  qed
  moreover have "map_put k v acc = acc @ [(k, v)]" using cons.prems(2) by (simp add: kv map_put_fresh)
  ultimately show ?case
    unfolding j by (subst json_members.simps) (simp add: json_space_def json_string_def string_tail_chars kv)
qed

lemma json_value_text: "json_plain nt v \<Longrightarrow> ends_value r \<Longrightarrow> json_value (json_text nt v @ r) = Some (v, r)"
proof (induction v arbitrary: r)
  case (JNum x)
  then show ?case by (cases x) (auto simp: json_value_number number_reads_back_def)
next
  case (JStr s)
  then show ?case by (simp add: json_value_string)
next
  case (JArr vs)
  show ?case
  proof (cases "vs = []")
    case False
    let ?t = "join_on 44 (map (json_text nt) vs) @ 93 # r"
    have "json_plain nt (hd vs)" using JArr.prems False by (simp add: list_all_iff)
    then obtain c t where "json_text nt (hd vs) = c # t" "\<not> json_space c" "c \<noteq> 93" using json_text_start by metis
    then have "skip_space ?t \<noteq> [] \<and> hd (skip_space ?t) \<noteq> 93"
      using False by (cases vs; cases "tl vs") auto
    moreover have "json_elements [] ?t = Some (JArr vs, r)"
      using json_elements_text [of vs nt "[]" r] JArr False by (auto simp: list_all_iff)
    ultimately show ?thesis
      by (subst json_value.simps) (simp add: comma_separated_def json_space_def)
  qed (subst json_value.simps, simp add: comma_separated_def json_space_def)
next
  case (JObj kvs)
  have kvs: "filter (\<lambda>(k, v). v \<noteq> JUndef) kvs = kvs"
    using JObj.prems(1) by (force simp: filter_id_conv list_all_iff)
  show ?case
  proof (cases "kvs = []")
    case False
    let ?t = "join_on 44 (map (member_text nt) kvs) @ 125 # r"
    have "skip_space ?t \<noteq> [] \<and> hd (skip_space ?t) \<noteq> 125"
      using False by (cases kvs; cases "tl kvs") (auto simp: json_string_def json_space_def)
    moreover have "json_members [] ?t = Some (JObj kvs, r)"
    proof -
      have "json_value (json_text nt v @ u) = Some (v, u)" if "(k, v) \<in> set kvs" "ends_value u" for k v u
        using JObj that by (force simp: list_all_iff)
      then show ?thesis using json_members_text [of kvs nt "[]" r] JObj.prems False by simp
    qed
    moreover have "json_text nt (JObj kvs) @ r = 123 # ?t"
      by (simp only: json_text.simps kvs comma_separated_def) (simp add: case_prod_unfold)
    ultimately show ?thesis
      by (subst json_value.simps) (simp add: json_space_def del: json_text.simps)
  qed (subst json_value.simps, simp add: comma_separated_def json_space_def)
qed (subst json_value.simps, simp add: json_space_def js_def json_literal_def)+

theorem json_roundtrip: "json_plain nt v \<Longrightarrow> json_parse (json_text nt v) = Some v"
  using json_value_text [of nt v "[]"] by (simp add: json_parse_def)

text \<open>A text is made of printable characters, every surrogate of it in a pair.\<close>

definition clean :: "jstring \<Rightarrow> bool" where
  "clean s \<longleftrightarrow> list_all (\<lambda>c. 32 \<le> c) s \<and> well_paired s"

lemma well_paired_append: "well_paired a \<Longrightarrow> well_paired b \<Longrightarrow> well_paired (a @ b)"
proof (induction a rule: well_paired.induct)
  case (2 c)
  then show ?case by (cases b) auto
qed auto

lemma clean_append: "clean a \<Longrightarrow> clean b \<Longrightarrow> clean (a @ b)"
  by (simp add: clean_def well_paired_append)

lemma clean_nil [simp]: "clean []"
  by (simp add: clean_def)

lemma clean_ascii: "list_all (\<lambda>c. 32 \<le> c \<and> c < 128) s \<Longrightarrow> clean s"
proof (induction s)
  case (Cons c s)
  then have "clean s" and "clean [c]" by (auto simp: clean_def is_high_def is_low_def)
  then show ?case using clean_append [of "[c]" s] by simp
qed simp

lemma clean_join: "list_all clean ss \<Longrightarrow> c < 128 \<Longrightarrow> 32 \<le> c \<Longrightarrow> clean (join_on c ss)"
proof (induction c ss rule: join_on.induct)
  case (3 c p q ps)
  have "clean [c]" using 3 by (intro clean_ascii) simp
  with 3 have "clean ([c] @ join_on c (q # ps))" by (intro clean_append) auto
  with 3 show ?case using clean_append [of p "[c] @ join_on c (q # ps)"] by simp
qed simp_all

lemma hex_digit_range: "32 \<le> hex_digit d \<and> (d < 16 \<longrightarrow> hex_digit d < 128)"
  by (simp add: hex_digit_def)

lemma clean_escape: "clean (unicode_escape c)"
  by (intro clean_ascii) (simp add: unicode_escape_def hex_digit_range)

lemma clean_json_char: "c < 65536 \<Longrightarrow> \<not> is_high c \<Longrightarrow> \<not> is_low c \<Longrightarrow> clean (json_char c)"
  by (simp add: json_char_def clean_escape) (auto simp: clean_def is_high_def is_low_def)

lemma clean_json_chars: "units16 s \<Longrightarrow> clean (json_chars s)"
proof (induction s rule: json_chars.induct)
  case (3 c d cs)
  have "clean [c, d]" if "is_high c" "is_low d" using that by (auto simp: clean_def is_high_def is_low_def)
  then show ?case
    using 3 clean_append [of "[c, d]" "json_chars cs"] clean_append [of _ "json_chars (d # cs)"]
    by (auto simp: units16_def clean_escape clean_json_char)
qed (auto simp: units16_def clean_escape clean_json_char)

lemma clean_json_string: "units16 s \<Longrightarrow> clean (json_string s)"
  unfolding json_string_def by (intro clean_append clean_json_chars clean_ascii) simp_all

lemma json_text_clean: "json_plain nt v \<Longrightarrow> clean (json_text nt v)"
proof (induction v)
  case (JNum x)
  then have "list_all number_char (nt x)" by (simp add: number_reads_back_def)
  then have "clean (nt x)" by (intro clean_ascii) (auto simp: list_all_iff number_char_def is_digit_def)
  with JNum show ?case by (cases x) (simp_all add: number_reads_back_def)
next
  case (JObj kvs)
  have "list_all clean (map (\<lambda>(k, v). json_string k @ [58] @ json_text nt v) (filter (\<lambda>(k, v). v \<noteq> JUndef) kvs))"
  proof -
    have "clean (json_string k @ [58] @ json_text nt v)" if "(k, v) \<in> set kvs" for k v
    proof (intro clean_append clean_json_string)
      show "units16 k" "clean (json_text nt v)" using JObj that by (auto simp: list_all_iff)
    qed (rule clean_ascii, simp)
    then show ?thesis by (auto simp: list_all_iff)
  qed
  then show ?case by (simp only: json_text.simps comma_separated_def) (intro clean_append clean_join clean_ascii; simp)
next
  case (JArr vs)
  then have "list_all clean (map (json_text nt) vs)" by (simp add: list_all_iff)
  then show ?case by (simp only: json_text.simps comma_separated_def) (intro clean_append clean_join clean_ascii; simp)
qed (auto simp: clean_json_string js_def intro: clean_ascii)

text \<open>A safe integer, written as JavaScript writes it, reads back.\<close>

lemma json_number_int: "json_number (int_text i)"
proof -
  have d: "takeWhile is_digit (digits_of n) = digits_of n" "dropWhile is_digit (digits_of n) = []" "digits_of n \<noteq> []"
      "hd (digits_of n) \<noteq> 45" for n
    using digits_of_digits [of n] by (auto simp: list_all_iff takeWhile_eq_all_conv neq_Nil_conv is_digit_def)
  show ?thesis
    by (cases "i < 0") (auto simp: json_number_def int_text_def Let_def d exponent_of_def simp del: dropWhile_eq_Nil_conv takeWhile_eq_Nil_iff dest: digits_of_leading)
qed

lemma number_reads_back_int:
  assumes "\<bar>i\<bar> \<le> max_safe" and "nt (Fin (of_int i)) = int_text i"
  shows "number_reads_back nt (Fin (of_int i))"
proof -
  let ?d = "digits_of (nat \<bar>i\<bar>)"
  have d: "list_all is_digit ?d" "?d \<noteq> []" using digits_of_digits by auto
  have n: "list_all number_char (int_text i)"
    using d by (cases "i < 0") (auto simp: int_text_def list_all_iff number_char_def)
  have v: "number_of_text (int_text i) = Fin (of_int i)"
    using assms(1) by (rule number_of_int_text)
  show ?thesis
    using n v json_number_int [of i] by (simp add: number_reads_back_def assms(2))
qed

section \<open>What a value becomes\<close>

text \<open>
  \<open>JSON.parse(JSON.stringify(v))\<close>: undefined properties are gone, \<open>undefined\<close> in an array and
  the numbers that are not finite are \<open>null\<close>. A value that can be written at all has distinct
  keys, strings of 16-bit units and numbers whose texts read back.
\<close>

fun json_norm :: "js_value \<Rightarrow> js_value" where
  "json_norm JUndef = JNull"
| "json_norm (JNum x) = (if is_finite x then JNum x else JNull)"
| "json_norm (JArr vs) = JArr (map json_norm vs)"
| "json_norm (JObj kvs) = JObj (map (\<lambda>(k, v). (k, json_norm v)) (filter (\<lambda>(k, v). v \<noteq> JUndef) kvs))"
| "json_norm v = v"

fun json_writable :: "(js_num \<Rightarrow> jstring) \<Rightarrow> js_value \<Rightarrow> bool" where
  "json_writable nt (JNum x) = (is_finite x \<longrightarrow> number_reads_back nt x)"
| "json_writable nt (JArr vs) = list_all (json_writable nt) vs"
| "json_writable nt (JObj kvs) = (distinct (map fst kvs) \<and> list_all (\<lambda>(k, v). units16 k \<and> json_writable nt v) kvs)"
| "json_writable nt (JStr s) = units16 s"
| "json_writable nt _ = True"

lemma json_norm_defined [simp]: "json_norm v \<noteq> JUndef"
  by (cases v) auto

lemma json_norm_norm [simp]: "json_norm (json_norm v) = json_norm v"
proof (induction v)
  case (JObj kvs)
  then show ?case by (force simp: filter_map comp_def case_prod_unfold)
qed auto

lemma json_text_norm: "json_text nt (json_norm v) = json_text nt v"
proof (induction v)
  case (JNum x)
  then show ?case by (cases x) auto
next
  case (JArr vs)
  then have "map (json_text nt) (map json_norm vs) = map (json_text nt) vs" by simp
  then show ?case by (simp only: json_norm.simps json_text.simps)
next
  case (JObj kvs)
  then have "json_text nt (json_norm v) = json_text nt v" if "(k, v) \<in> set kvs" for k v using that by force
  then have m: "map (\<lambda>(k, v). json_string k @ [58] @ json_text nt v) (map (\<lambda>(k, v). (k, json_norm v)) (filter (\<lambda>(k, v). v \<noteq> JUndef) kvs))
      = map (\<lambda>(k, v). json_string k @ [58] @ json_text nt v) (filter (\<lambda>(k, v). v \<noteq> JUndef) kvs)"
    by auto
  have "filter (\<lambda>(k, v). v \<noteq> JUndef) (map (\<lambda>(k, v). (k, json_norm v)) kvs') = map (\<lambda>(k, v). (k, json_norm v)) kvs'"
    for kvs' :: "(jstring \<times> js_value) list"
    by (simp add: filter_map comp_def case_prod_unfold)
  then show ?case by (simp only: json_norm.simps json_text.simps m)
qed auto

lemma json_plain_norm: "json_writable nt v \<Longrightarrow> json_plain nt (json_norm v)"
proof (induction v)
  case (JObj kvs)
  have "distinct (map fst (filter (\<lambda>(k, v). v \<noteq> JUndef) kvs))" using JObj.prems by (simp add: distinct_map_filter)
  moreover have "units16 k \<and> json_plain nt (json_norm v)" if "(k, v) \<in> set kvs" for k v
    using JObj that by (force simp: list_all_iff)
  ultimately show ?case by (force simp: list_all_iff comp_def case_prod_unfold)
qed (auto simp: list_all_iff)

lemma json_norm_plain: "json_plain nt v \<Longrightarrow> json_norm v = v"
proof (induction v)
  case (JArr vs)
  then show ?case by (auto simp: list_all_iff intro: map_idI)
next
  case (JObj kvs)
  have "json_norm v = v \<and> v \<noteq> JUndef" if "(k, v) \<in> set kvs" for k v
    using JObj that by (force simp: list_all_iff)
  then have "filter (\<lambda>(k, v). v \<noteq> JUndef) kvs = kvs" "map (\<lambda>(k, v). (k, json_norm v)) kvs = kvs"
    by (force simp: filter_id_conv intro!: map_idI)+
  then show ?case by simp
qed (auto simp: number_reads_back_def)

theorem json_parse_text: "json_writable nt v \<Longrightarrow> json_parse (json_text nt v) = Some (json_norm v)"
  using json_roundtrip [OF json_plain_norm] by (simp add: json_text_norm)

lemma json_text_ok: "json_writable nt v \<Longrightarrow> clean (json_text nt v)"
  using json_text_clean [OF json_plain_norm] by (simp add: json_text_norm)

end
