(* ===== verification/GateSpec.thy ===== *)
theory GateSpec
  imports Policy Json "HOL-Library.Word"
begin

text \<open>
  Gate specifications and verdicts of \<open>ponygirls-subagents/src/gate.ts\<close>: normalising a gate or review
  configuration against the root policy, the rubric revision hashed from it, and the validation of
  a reviewer's verdict against the candidate it was given.

  Arguments come from tool calls and have static types the code still checks, so they are \<open>js_value\<close>s
  here. \<open>num_text\<close> is the decimal text of a number in \<open>JSON.stringify\<close> (a model reference may carry
  extra properties); nothing is assumed of it.
\<close>

unbundle bit_operations_syntax

section \<open>The rubric hash\<close>

text \<open>\<open>h ^= charCode; h = Math.imul(h, 16777619)\<close> on 32-bit integers.\<close>

definition hash_step :: "32 word \<Rightarrow> nat \<Rightarrow> 32 word" where
  "hash_step h c = (h XOR of_nat c) * 16777619"

definition hash_word :: "jstring \<Rightarrow> 32 word" where
  "hash_word s = foldl hash_step 2166136261 s"

fun hex_digits :: "nat \<Rightarrow> nat \<Rightarrow> jstring" where
  "hex_digits 0 n = []"
| "hex_digits (Suc k) n = hex_digits k (n div 16) @ [hex_digit (n mod 16)]"

text \<open>\<open>(h >>> 0).toString(16).padStart(8, "0")\<close>: eight digits, as the value is below \<open>2 ^ 32\<close>.\<close>

definition hash_string :: "jstring \<Rightarrow> jstring" where
  "hash_string s = hex_digits 8 (unat (hash_word s))"

section \<open>Specifications\<close>

datatype gate_mode = Gate_mode | Review_mode

definition DEFAULT_GATE_MAX_ROUNDS :: int where
  "DEFAULT_GATE_MAX_ROUNDS = 3"

definition BASH_DEFAULT_TIMEOUT_MS :: int where
  "BASH_DEFAULT_TIMEOUT_MS = 120000"

definition BASH_MAX_TIMEOUT_MS :: int where
  "BASH_MAX_TIMEOUT_MS = 600000"

definition MAX_COMMAND_BYTES :: nat where
  "MAX_COMMAND_BYTES = 32 * 1024"

record gate_check =
  ck_id :: jstring
  ck_command :: jstring
  ck_timeout :: int

text \<open>A reviewer; \<open>rv_model\<close> is the copied model object, with its provider and id.\<close>

record reviewer_spec =
  rv_model :: js_value
  rv_thinking :: jstring
  rv_prompt :: jstring

record gate_spec =
  gs_mode :: gate_mode
  gs_reviewers :: "reviewer_spec list"
  gs_max_rounds :: "int option"
  gs_checks :: "gate_check list"
  gs_outputs :: "jstring list"
  gs_rubric :: jstring

datatype spec_error =
  Not_an_object | Review_with_gate_fields | Model_and_reviewers | Reviewers_empty | Reviewer_model
| Reviewer_thinking | Reviewer_prompt | Reviewer_not_allowed jstring jstring | Unlimited_forbidden
| Rounds_not_positive | Rounds_over_ceiling int | Check_ids | Check_command jstring | Check_too_long jstring
| Check_timeout jstring | Bad_outputs | Spec_type_error

definition falsy :: "js_value \<Rightarrow> bool" where
  "falsy v \<longleftrightarrow> v = JUndef \<or> v = JNull \<or> v = JBool False \<or> v = JNum (Fin 0) \<or> v = JNum NaN \<or> v = JStr []"

definition model_allowed :: "supervisor_policy \<Rightarrow> jstring \<Rightarrow> jstring \<Rightarrow> bool" where
  "model_allowed policy provider mid =
     (case p_allowed_models policy of None \<Rightarrow> True
      | Some ms \<Rightarrow> list_ex (\<lambda>m. mr_provider m = provider \<and> mr_id m = mid) ms)"

definition nonblank :: "js_value \<Rightarrow> jstring option" where
  "nonblank v = (case v of JStr s \<Rightarrow> if trim s = [] then None else Some s | _ \<Rightarrow> None)"

definition normalize_reviewer :: "supervisor_policy \<Rightarrow> js_value \<Rightarrow> js_value \<Rightarrow> spec_error + reviewer_spec" where
  "normalize_reviewer policy inp slot =
     (if falsy slot then Inl Reviewer_model
      else let model = field slot (js ''model'') in
      if falsy model then Inl Reviewer_model
      else case (field model (js ''provider''), field model (js ''id'')) of
        (JStr provider, JStr mid) \<Rightarrow>
          if provider = [] \<or> mid = [] then Inl Reviewer_model
          else (case nonblank (nullish (field slot (js ''thinkingLevel'')) (field inp (js ''thinkingLevel''))) of
              None \<Rightarrow> Inl Reviewer_thinking
            | Some thinking \<Rightarrow>
             (case nonblank (nullish (field slot (js ''prompt'')) (field inp (js ''prompt''))) of
                None \<Rightarrow> Inl Reviewer_prompt
              | Some prompt \<Rightarrow>
                if \<not> model_allowed policy provider mid then Inl (Reviewer_not_allowed provider mid)
                else Inr \<lparr>rv_model = model, rv_thinking = thinking, rv_prompt = prompt\<rparr>))
      | _ \<Rightarrow> Inl Reviewer_model)"

fun normalize_reviewers :: "supervisor_policy \<Rightarrow> js_value \<Rightarrow> js_value list \<Rightarrow> spec_error + reviewer_spec list" where
  "normalize_reviewers policy inp [] = Inr []"
| "normalize_reviewers policy inp (slot # slots) =
     and_then (normalize_reviewer policy inp slot) (\<lambda>r.
     and_then (normalize_reviewers policy inp slots) (\<lambda>rs. Inr (r # rs)))"

definition normalize_rounds :: "supervisor_policy \<Rightarrow> gate_mode \<Rightarrow> js_value \<Rightarrow> spec_error + int option" where
  "normalize_rounds policy mode v =
     and_then
       (if v = JNull then (if p_gate_ceiling policy \<noteq> None then Inl Unlimited_forbidden else Inr None)
        else if v = JUndef then Inr (Some (if mode = Review_mode then 1 else DEFAULT_GATE_MAX_ROUNDS))
        else case v of
          JNum (Fin q) \<Rightarrow> if \<not> is_int_rat q \<or> q \<le> 0 then Inl Rounds_not_positive else Inr (Some \<lfloor>q\<rfloor>)
        | _ \<Rightarrow> Inl Rounds_not_positive)
       (\<lambda>rounds. case (rounds, p_gate_ceiling policy) of
          (Some n, Some m) \<Rightarrow> if n > m then Inl (Rounds_over_ceiling m) else Inr rounds
        | _ \<Rightarrow> Inr rounds)"

definition normalize_check :: "jstring list \<Rightarrow> js_value \<Rightarrow> spec_error + gate_check" where
  "normalize_check seen c =
     (if c = JUndef \<or> c = JNull then Inl Spec_type_error
      else case field c (js ''id'') of
        JStr i \<Rightarrow>
          if i = [] \<or> i \<in> set seen then Inl Check_ids
          else (case field c (js ''command'') of
            JStr cmd \<Rightarrow>
              if cmd = [] then Inl (Check_command i)
              else if utf8_length cmd > MAX_COMMAND_BYTES then Inl (Check_too_long i)
              else (case field c (js ''timeoutMs'') of
                  JUndef \<Rightarrow> Inr \<lparr>ck_id = i, ck_command = cmd, ck_timeout = BASH_DEFAULT_TIMEOUT_MS\<rparr>
                | JNum (Fin q) \<Rightarrow>
                    if \<not> is_int_rat q \<or> q < 1 \<or> q > of_int BASH_MAX_TIMEOUT_MS then Inl (Check_timeout i)
                    else Inr \<lparr>ck_id = i, ck_command = cmd, ck_timeout = \<lfloor>q\<rfloor>\<rparr>
                | _ \<Rightarrow> Inl (Check_timeout i))
          | _ \<Rightarrow> Inl (Check_command i))
      | _ \<Rightarrow> Inl Check_ids)"

fun normalize_checks :: "jstring list \<Rightarrow> js_value list \<Rightarrow> spec_error + gate_check list" where
  "normalize_checks seen [] = Inr []"
| "normalize_checks seen (c # cs) =
     and_then (normalize_check seen c) (\<lambda>k.
     and_then (normalize_checks (set_add (ck_id k) seen) cs) (\<lambda>ks. Inr (k # ks)))"

text \<open>A value the code iterates: an array, or a string, which yields its characters.\<close>

definition iterated :: "js_value \<Rightarrow> js_value list option" where
  "iterated v = (case v of JArr vs \<Rightarrow> Some vs | JStr s \<Rightarrow> Some (map (\<lambda>c. JStr [c]) s) | _ \<Rightarrow> None)"

definition output_paths :: "js_value \<Rightarrow> spec_error + jstring list" where
  "output_paths v =
     (case v of
        JArr vs \<Rightarrow> (case str_list vs of
            None \<Rightarrow> Inl Bad_outputs
          | Some ps \<Rightarrow> if list_all (\<lambda>p. p \<noteq> []) ps then Inr ps else Inl Bad_outputs)
      | _ \<Rightarrow> Inl Spec_type_error)"

definition reviewer_value :: "reviewer_spec \<Rightarrow> js_value" where
  "reviewer_value r = JObj [(js ''model'', rv_model r), (js ''thinkingLevel'', JStr (rv_thinking r)), (js ''prompt'', JStr (rv_prompt r))]"

definition mode_name :: "gate_mode \<Rightarrow> jstring" where
  "mode_name m = (case m of Gate_mode \<Rightarrow> js ''gate'' | Review_mode \<Rightarrow> js ''review'')"

definition rubric_of :: "(js_num \<Rightarrow> jstring) \<Rightarrow> gate_mode \<Rightarrow> reviewer_spec list \<Rightarrow> jstring" where
  "rubric_of nt mode reviewers =
     js ''rubric-'' @ hash_string (json_text nt
       (JObj [(js ''mode'', JStr (mode_name mode)), (js ''reviewers'', JArr (map reviewer_value reviewers))]))"

definition normalize_gate_spec ::
  "(js_num \<Rightarrow> jstring) \<Rightarrow> js_value \<Rightarrow> supervisor_policy \<Rightarrow> gate_mode \<Rightarrow> spec_error + gate_spec" where
  "normalize_gate_spec nt inp policy mode =
     (if \<not> is_object inp then Inl Not_an_object
      else if mode = Review_mode \<and> (field inp (js ''maxRounds'') \<noteq> JUndef \<or> field inp (js ''checks'') \<noteq> JUndef
                \<or> field inp (js ''promisedOutputs'') \<noteq> JUndef) then Inl Review_with_gate_fields
      else if field inp (js ''model'') \<noteq> JUndef \<and> field inp (js ''reviewers'') \<noteq> JUndef then Inl Model_and_reviewers
      else
        let slots = (if field inp (js ''reviewers'') = JUndef
                     then JArr [JObj [(js ''model'', field inp (js ''model'')), (js ''thinkingLevel'', field inp (js ''thinkingLevel'')),
                                      (js ''prompt'', field inp (js ''prompt''))]]
                     else field inp (js ''reviewers''))
        in case slots of
          JArr ss \<Rightarrow>
            if length ss = 0 then Inl Reviewers_empty
            else and_then (normalize_reviewers policy inp ss) (\<lambda>reviewers.
                 and_then (normalize_rounds policy mode (field inp (js ''maxRounds''))) (\<lambda>rounds.
                 case iterated (nullish (field inp (js ''checks'')) (JArr [])) of
                   None \<Rightarrow> Inl Spec_type_error
                 | Some cs \<Rightarrow>
                   and_then (normalize_checks [] cs) (\<lambda>checks.
                   and_then (output_paths (nullish (field inp (js ''promisedOutputs'')) (JArr []))) (\<lambda>outputs.
                   Inr \<lparr>gs_mode = mode, gs_reviewers = reviewers, gs_max_rounds = rounds, gs_checks = checks,
                        gs_outputs = outputs, gs_rubric = rubric_of nt mode reviewers\<rparr>))))
        | _ \<Rightarrow> Inl Reviewers_empty)"

section \<open>Facts on specifications\<close>

definition reviewer_wf :: "supervisor_policy \<Rightarrow> reviewer_spec \<Rightarrow> bool" where
  "reviewer_wf policy r \<longleftrightarrow>
     (\<exists>provider mid. field (rv_model r) (js ''provider'') = JStr provider \<and> field (rv_model r) (js ''id'') = JStr mid \<and>
        provider \<noteq> [] \<and> mid \<noteq> [] \<and> model_allowed policy provider mid) \<and>
     trim (rv_thinking r) \<noteq> [] \<and> trim (rv_prompt r) \<noteq> []"

definition check_wf :: "gate_check \<Rightarrow> bool" where
  "check_wf c \<longleftrightarrow> ck_id c \<noteq> [] \<and> ck_command c \<noteq> [] \<and> utf8_length (ck_command c) \<le> MAX_COMMAND_BYTES \<and>
     1 \<le> ck_timeout c \<and> ck_timeout c \<le> BASH_MAX_TIMEOUT_MS"

definition rounds_wf :: "supervisor_policy \<Rightarrow> int option \<Rightarrow> bool" where
  "rounds_wf policy rounds \<longleftrightarrow>
     (case rounds of None \<Rightarrow> p_gate_ceiling policy = None
      | Some n \<Rightarrow> 0 < n \<and> (case p_gate_ceiling policy of None \<Rightarrow> True | Some m \<Rightarrow> n \<le> m))"

definition spec_wf :: "(js_num \<Rightarrow> jstring) \<Rightarrow> supervisor_policy \<Rightarrow> gate_spec \<Rightarrow> bool" where
  "spec_wf nt policy s \<longleftrightarrow>
     gs_reviewers s \<noteq> [] \<and> list_all (reviewer_wf policy) (gs_reviewers s) \<and> rounds_wf policy (gs_max_rounds s) \<and>
     distinct (map ck_id (gs_checks s)) \<and> list_all check_wf (gs_checks s) \<and> list_all (\<lambda>p. p \<noteq> []) (gs_outputs s) \<and>
     gs_rubric s = rubric_of nt (gs_mode s) (gs_reviewers s)"

lemma field_not_falsy: "field v k = JStr s \<Longrightarrow> \<not> falsy v"
  by (cases v) (auto simp: falsy_def)

lemma normalize_reviewer_wf: "normalize_reviewer policy inp slot = Inr r \<Longrightarrow> reviewer_wf policy r"
  by (auto simp: normalize_reviewer_def Let_def reviewer_wf_def nonblank_def
      split: if_splits js_value.splits option.splits)

lemma normalize_reviewers_wf:
  "normalize_reviewers policy inp slots = Inr rs \<Longrightarrow> list_all (reviewer_wf policy) rs \<and> length rs = length slots"
  by (induction slots arbitrary: rs) (auto simp: and_then_Inr_iff dest: normalize_reviewer_wf)

lemma normalize_reviewer_value:
  assumes "reviewer_wf policy r"
  shows "normalize_reviewer policy inp (reviewer_value r) = Inr r"
proof -
  from assms obtain a b where m: "field (rv_model r) (js ''provider'') = JStr a" "field (rv_model r) (js ''id'') = JStr b"
    "a \<noteq> []" "b \<noteq> []" "model_allowed policy a b" "trim (rv_thinking r) \<noteq> []" "trim (rv_prompt r) \<noteq> []"
    by (auto simp: reviewer_wf_def)
  have "\<not> falsy (rv_model r)" using m(1) by (rule field_not_falsy)
  moreover have "\<not> falsy (reviewer_value r)" by (simp add: reviewer_value_def falsy_def)
  moreover have "field (reviewer_value r) (js ''model'') = rv_model r"
    "field (reviewer_value r) (js ''thinkingLevel'') = JStr (rv_thinking r)"
    "field (reviewer_value r) (js ''prompt'') = JStr (rv_prompt r)"
    by (simp_all add: reviewer_value_def)
  ultimately show ?thesis
    using m by (simp add: normalize_reviewer_def Let_def nullish_def nonblank_def)
qed

lemma normalize_reviewers_value:
  "list_all (reviewer_wf policy) rs \<Longrightarrow> normalize_reviewers policy inp (map reviewer_value rs) = Inr rs"
  by (induction rs) (auto simp: normalize_reviewer_value)

lemma is_int_ratE:
  assumes "is_int_rat q"
  obtains n where "q = of_int n"
  using assms unfolding is_int_rat_def by blast

lemma normalize_rounds_wf: "normalize_rounds policy mode v = Inr rounds \<Longrightarrow> rounds_wf policy rounds"
  by (auto simp: normalize_rounds_def and_then_Inr_iff rounds_wf_def DEFAULT_GATE_MAX_ROUNDS_def
      elim!: is_int_ratE split: if_splits js_value.splits js_num.splits option.splits)

lemma normalize_rounds_value:
  "rounds_wf policy rounds \<Longrightarrow> normalize_rounds policy mode (opt_json (\<lambda>n. JNum (Fin (of_int n))) rounds) = Inr rounds"
  by (auto simp: normalize_rounds_def rounds_wf_def split: option.splits)

lemma normalize_check_wf:
  "normalize_check seen c = Inr k \<Longrightarrow> check_wf k \<and> ck_id k \<notin> set seen"
  by (auto simp: normalize_check_def check_wf_def is_int_rat_def BASH_DEFAULT_TIMEOUT_MS_def BASH_MAX_TIMEOUT_MS_def
      split: if_splits js_value.splits js_num.splits)

lemma normalize_checks_wf:
  "normalize_checks seen cs = Inr ks \<Longrightarrow>
   list_all check_wf ks \<and> distinct (map ck_id ks) \<and> set (map ck_id ks) \<inter> set seen = {}"
proof (induction seen cs arbitrary: ks rule: normalize_checks.induct)
  case (2 seen c cs)
  obtain k ks' where k: "normalize_check seen c = Inr k" "normalize_checks (set_add (ck_id k) seen) cs = Inr ks'" "ks = k # ks'"
    using 2(2) by (auto simp: and_then_Inr_iff)
  from "2.IH" [OF k(2)] normalize_check_wf [OF k(1)] k(3) show ?case by auto
qed simp

definition check_value :: "gate_check \<Rightarrow> js_value" where
  "check_value c = JObj [(js ''id'', JStr (ck_id c)), (js ''command'', JStr (ck_command c)), (js ''timeoutMs'', JNum (Fin (of_int (ck_timeout c))))]"

lemma normalize_check_value:
  "check_wf c \<Longrightarrow> ck_id c \<notin> set seen \<Longrightarrow> normalize_check seen (check_value c) = Inr c"
  by (simp add: normalize_check_def check_value_def check_wf_def)

lemma normalize_checks_value:
  "list_all check_wf ks \<Longrightarrow> distinct (map ck_id ks) \<Longrightarrow> set (map ck_id ks) \<inter> set seen = {} \<Longrightarrow>
   normalize_checks seen (map check_value ks) = Inr ks"
  by (induction ks arbitrary: seen) (auto simp: normalize_check_value)

text \<open>A normalised specification as the value the retry path normalises again.\<close>

definition spec_value :: "gate_spec \<Rightarrow> js_value" where
  "spec_value s = JObj
     [(js ''mode'', JStr (mode_name (gs_mode s))), (js ''reviewers'', JArr (map reviewer_value (gs_reviewers s))),
      (js ''maxRounds'', opt_json (\<lambda>n. JNum (Fin (of_int n))) (gs_max_rounds s)), (js ''checks'', JArr (map check_value (gs_checks s))),
      (js ''promisedOutputs'', JArr (map JStr (gs_outputs s))), (js ''rubricRevision'', JStr (gs_rubric s))]"

lemma output_paths_wf: "output_paths v = Inr ps \<Longrightarrow> list_all (\<lambda>p. p \<noteq> []) ps"
  by (auto simp: output_paths_def split: js_value.splits option.splits if_splits)

lemma normalize_gate_spec_wf:
  assumes "normalize_gate_spec nt inp policy mode = Inr s"
  shows "spec_wf nt policy s \<and> gs_mode s = mode"
proof -
  define slots where "slots = (if field inp (js ''reviewers'') = JUndef
                     then JArr [JObj [(js ''model'', field inp (js ''model'')), (js ''thinkingLevel'', field inp (js ''thinkingLevel'')),
                                      (js ''prompt'', field inp (js ''prompt''))]]
                     else field inp (js ''reviewers''))"
  obtain ss where ss: "slots = JArr ss" "ss \<noteq> []"
    using assms by (auto simp: normalize_gate_spec_def slots_def [symmetric] Let_def split: if_splits js_value.splits)
  obtain rs rounds cs ks ps where n: "normalize_reviewers policy inp ss = Inr rs"
    "normalize_rounds policy mode (field inp (js ''maxRounds'')) = Inr rounds"
    "normalize_checks [] cs = Inr ks" "output_paths (nullish (field inp (js ''promisedOutputs'')) (JArr [])) = Inr ps"
    "s = \<lparr>gs_mode = mode, gs_reviewers = rs, gs_max_rounds = rounds, gs_checks = ks, gs_outputs = ps,
          gs_rubric = rubric_of nt mode rs\<rparr>"
    using assms ss
    by (auto simp: normalize_gate_spec_def slots_def [symmetric] Let_def and_then_Inr_iff split: if_splits option.splits)
  show ?thesis
    using normalize_reviewers_wf [OF n(1)] normalize_rounds_wf [OF n(2)] normalize_checks_wf [OF n(3)]
      output_paths_wf [OF n(4)] ss(2)
    by (auto simp: spec_wf_def n(5))
qed

lemma normalize_spec_value:
  assumes "spec_wf nt policy s" and "gs_mode s = Gate_mode"
  shows "normalize_gate_spec nt (spec_value s) policy Gate_mode = Inr s"
proof -
  have f: "field (spec_value s) (js ''model'') = JUndef"
    "field (spec_value s) (js ''reviewers'') = JArr (map reviewer_value (gs_reviewers s))"
    "field (spec_value s) (js ''maxRounds'') = opt_json (\<lambda>n. JNum (Fin (of_int n))) (gs_max_rounds s)"
    "field (spec_value s) (js ''checks'') = JArr (map check_value (gs_checks s))"
    "field (spec_value s) (js ''promisedOutputs'') = JArr (map JStr (gs_outputs s))" "is_object (spec_value s)"
    by (simp_all add: spec_value_def)
  have "output_paths (JArr (map JStr (gs_outputs s))) = Inr (gs_outputs s)"
    using assms(1) by (simp add: output_paths_def spec_wf_def)
  then show ?thesis
    using assms normalize_checks_value [of "gs_checks s" "[]"]
    by (simp add: normalize_gate_spec_def f nullish_def iterated_def spec_wf_def normalize_reviewers_value
        normalize_rounds_value Let_def)
qed

section \<open>Facts on the hash\<close>

lemma hash_prime_inverse: "(16777619 :: 32 word) * 899433627 = 1"
  by simp

lemma hash_prime_cancel: "x * 16777619 = y * 16777619 \<longleftrightarrow> x = (y :: 32 word)"
proof
  assume "x * 16777619 = y * 16777619"
  then have "x * 16777619 * 899433627 = y * 16777619 * 899433627" by (simp only:)
  then show "x = y" by (simp only: mult.assoc hash_prime_inverse mult_1_right)
qed (simp only:)

lemma hash_step_cancel: "hash_step h c = hash_step h' c' \<longleftrightarrow> h XOR of_nat c = h' XOR of_nat c'"
  unfolding hash_step_def by (rule hash_prime_cancel)

lemma xor_right_cancel: "a XOR x = b XOR x \<longleftrightarrow> a = (b :: 32 word)"
proof
  assume "a XOR x = b XOR x"
  then have "(a XOR x) XOR x = (b XOR x) XOR x" by (simp only:)
  then show "a = b" by (simp only: xor.assoc xor_self_eq xor.right_neutral)
qed (simp only:)

lemma foldl_hash_cancel: "foldl hash_step h s = foldl hash_step h' s \<longleftrightarrow> h = h'"
proof (induction s arbitrary: h h')
  case (Cons c s)
  show ?case by (simp add: Cons hash_step_cancel xor_right_cancel)
qed simp

lemma hash_word_change:
  assumes "c \<noteq> d" and "c < 2 ^ 32" and "d < 2 ^ 32"
  shows "hash_word (a @ c # b) \<noteq> hash_word (a @ d # b)"
proof
  assume "hash_word (a @ c # b) = hash_word (a @ d # b)"
  then have "foldl hash_step 2166136261 a XOR of_nat c = foldl hash_step 2166136261 a XOR (of_nat d :: 32 word)"
    by (simp add: hash_word_def foldl_hash_cancel hash_step_cancel)
  then have "(of_nat c :: 32 word) = of_nat d" by (metis xor.commute xor_right_cancel)
  then have "unat (of_nat c :: 32 word) = unat (of_nat d :: 32 word)" by simp
  with assms show False by (simp add: unat_of_nat take_bit_eq_mod)
qed

lemma hex_digit_eq: "m < 16 \<Longrightarrow> n < 16 \<Longrightarrow> hex_digit m = hex_digit n \<longleftrightarrow> m = n"
  by (auto simp: hex_digit_def split: if_splits)

lemma hex_digits_eq: "hex_digits k m = hex_digits k n \<Longrightarrow> m < 16 ^ k \<Longrightarrow> n < 16 ^ k \<Longrightarrow> m = n"
proof (induction k arbitrary: m n)
  case (Suc k)
  have "m div 16 = n div 16" using Suc by (intro Suc.IH) (simp_all add: less_mult_imp_div_less mult.commute)
  moreover have "m mod 16 = n mod 16" using Suc.prems(1) hex_digit_eq [of "m mod 16" "n mod 16"] by simp
  ultimately show ?case by (metis div_mult_mod_eq)
qed simp

lemma length_hex_digits [simp]: "length (hex_digits k n) = k"
  by (induction k arbitrary: n) auto

section \<open>Properties\<close>

text \<open>
  C38. An accepted gate specification obeys the root policy: it has a reviewer, every reviewer's model
  is allowed and its level and prompt are not blank, its rounds are positive and within the policy's
  ceiling (unlimited only when there is none), its checks have distinct ids, nonempty commands of
  bounded size and bounded timeouts, and its rubric is the hash of its mode and reviewers.
\<close>

theorem gate_spec_obeys_policy:
  assumes "normalize_gate_spec nt inp policy mode = Inr s"
  shows "gs_mode s = mode \<and> spec_wf nt policy s"
  using normalize_gate_spec_wf [OF assms] by simp

text \<open>
  Normalising is idempotent for gates: a specification accepted once is accepted again as it is
  under the same policy, so that a retry under the prior run's own specification reviews under
  exactly the same rubric.
\<close>

theorem gate_spec_idempotent:
  assumes "normalize_gate_spec nt inp policy Gate_mode = Inr s"
  shows "normalize_gate_spec nt (spec_value s) policy Gate_mode = Inr s"
  using normalize_gate_spec_wf [OF assms] by (intro normalize_spec_value) simp_all

definition sample_spec_input :: js_value where
  "sample_spec_input = JObj
     [(js ''model'', JObj [(js ''provider'', JStr (js ''p'')), (js ''id'', JStr (js ''m''))]),
      (js ''thinkingLevel'', JStr (js ''high'')), (js ''prompt'', JStr (js ''check it'')),
      (js ''maxRounds'', JNum (Fin 2))]"

definition open_policy :: supervisor_policy where
  "open_policy = default_supervisor_policy\<lparr>p_allowed_models := None\<rparr>"

lemma sample_spec_ok: "\<exists>s. normalize_gate_spec nt sample_spec_input open_policy Gate_mode = Inr s \<and> gs_max_rounds s = Some 2"
proof -
  have t: "trim (js ''high'') = js ''high''" "trim (js ''check it'') = js ''check it''"
    by (rule trim_fixed, simp add: js_def is_js_space_def)+
  show ?thesis
    by (simp add: normalize_gate_spec_def sample_spec_input_def open_policy_def normalize_reviewer_def falsy_def
        nullish_def nonblank_def t model_allowed_def default_supervisor_policy_def normalize_rounds_def
        iterated_def output_paths_def Let_def)
qed

theorem gate_spec_obeys_policy_witness:
  "\<exists>s. normalize_gate_spec (\<lambda>_. [48]) sample_spec_input open_policy Gate_mode = Inr s \<and> spec_wf (\<lambda>_. [48]) open_policy s"
proof -
  obtain s where s: "normalize_gate_spec (\<lambda>_. [48]) sample_spec_input open_policy Gate_mode = Inr s" using sample_spec_ok by blast
  with gate_spec_obeys_policy [OF s] show ?thesis by auto
qed

theorem gate_spec_idempotent_witness:
  "\<exists>s. normalize_gate_spec (\<lambda>_. [48]) sample_spec_input open_policy Gate_mode = Inr s \<and>
     normalize_gate_spec (\<lambda>_. [48]) (spec_value s) open_policy Gate_mode = Inr s"
proof -
  obtain s where s: "normalize_gate_spec (\<lambda>_. [48]) sample_spec_input open_policy Gate_mode = Inr s" using sample_spec_ok by blast
  with gate_spec_idempotent [OF s] show ?thesis by auto
qed

text \<open>
  The rubric hash notices any single changed character: two texts that differ in exactly one
  code unit have different hashes, each of eight hexadecimal digits.
\<close>

theorem hash_notices_one_change:
  assumes "c < 65536" and "d < 65536"
  shows "hash_string (a @ c # b) = hash_string (a @ d # b) \<longleftrightarrow> c = d"
proof -
  have "unat (w :: 32 word) < 16 ^ 8" for w using unsigned_less [of w] by simp
  then have "hash_string x = hash_string y \<longleftrightarrow> hash_word x = hash_word y" for x y
    unfolding hash_string_def by (metis hex_digits_eq word_unat_eq_iff)
  with hash_word_change [of c d a b] assms show ?thesis by auto
qed

theorem hash_notices_one_change_witness:
  "hash_string (js ''abc'') \<noteq> hash_string (js ''abd'')"
  using hash_notices_one_change [of 99 100 "js ''ab''" "[]"] by (simp add: js_def)

end
