(* ===== verification/GateDecision.thy ===== *)
theory GateDecision
  imports Prelude
begin

text \<open>
  A reviewer's verdict (\<open>validateGateDecision\<close> and \<open>evidenceResolves\<close> of
  \<open>ponygirls-subagents/src/gate.ts\<close>): what a submitted value must be to count as a verdict on the
  candidate under review. A finding is decoded to the fields the program reads.
\<close>

section \<open>Types\<close>

record gate_finding =
  fi_id :: jstring
  fi_target :: jstring
  fi_problem :: jstring
  fi_change :: jstring
  fi_refs :: "jstring list"

datatype gate_decision =
  Approve jstring "gate_finding list"
| Revise jstring "gate_finding list" "gate_finding list"
| Blocked jstring jstring "jstring list"

text \<open>The errors, all of code \<open>GATE_PROTOCOL_ERROR\<close>.\<close>

datatype decision_error =
  Decision_not_object | Unknown_key jstring | Bad_schema_version | Other_candidate | Bad_decision
| Not_array string | Entry_not_object string | Finding_field string | Finding_ids | Refs_not_array
| Ref_empty | Ref_unresolved jstring | Approve_with_blockers | Revise_without_blocker
| Blocked_reason | Blocked_prerequisites | Prerequisite_empty

section \<open>Validation\<close>

text \<open>\<open>ref.slice(candidateId.length + 1)\<close> of a reference into the candidate.\<close>

definition evidence_resolves :: "jstring \<Rightarrow> jstring \<Rightarrow> jstring list \<Rightarrow> jstring list \<Rightarrow> bool" where
  "evidence_resolves ref cand paths checks =
     (if ref = cand @ js '':answer'' then True
      else if starts_with ref (cand @ js '':'') then drop (length cand + 1) ref \<in> set paths
      else before_char 58 ref \<in> set checks)"

definition nonempty_str :: "js_value \<Rightarrow> jstring option" where
  "nonempty_str v = (case v of JStr s \<Rightarrow> if length s = 0 then None else Some s | _ \<Rightarrow> None)"

fun check_refs :: "jstring \<Rightarrow> jstring list \<Rightarrow> jstring list \<Rightarrow> js_value list \<Rightarrow> decision_error + jstring list" where
  "check_refs cand paths checks [] = Inr []"
| "check_refs cand paths checks (v # vs) =
     (case nonempty_str v of
        None \<Rightarrow> Inl Ref_empty
      | Some r \<Rightarrow>
        if \<not> evidence_resolves r cand paths checks then Inl (Ref_unresolved r)
        else and_then (check_refs cand paths checks vs) (\<lambda>rs. Inr (r # rs)))"

definition finding_field :: "string \<Rightarrow> js_value \<Rightarrow> decision_error + jstring" where
  "finding_field name v =
     (case nonempty_str (field v (js name)) of None \<Rightarrow> Inl (Finding_field name) | Some s \<Rightarrow> Inr s)"

fun check_entries ::
  "jstring \<Rightarrow> jstring list \<Rightarrow> jstring list \<Rightarrow> string \<Rightarrow> jstring list \<Rightarrow> js_value list \<Rightarrow> decision_error + gate_finding list" where
  "check_entries cand paths checks what ids [] = Inr []"
| "check_entries cand paths checks what ids (f # fs) =
     (if \<not> is_object f then Inl (Entry_not_object what)
      else and_then (finding_field ''id'' f) (\<lambda>i.
        and_then (finding_field ''target'' f) (\<lambda>t.
        and_then (finding_field ''problem'' f) (\<lambda>p.
        and_then (finding_field ''requiredChange'' f) (\<lambda>c.
          if i \<in> set ids then Inl Finding_ids
          else case field f (js ''evidenceRefs'') of
            JArr rs \<Rightarrow>
              and_then (check_refs cand paths checks rs) (\<lambda>refs.
              and_then (check_entries cand paths checks what (set_add i ids) fs) (\<lambda>rest.
                Inr (\<lparr>fi_id = i, fi_target = t, fi_problem = p, fi_change = c, fi_refs = refs\<rparr> # rest)))
          | _ \<Rightarrow> Inl Refs_not_array)))))"

definition check_findings ::
  "jstring \<Rightarrow> jstring list \<Rightarrow> jstring list \<Rightarrow> js_value \<Rightarrow> string \<Rightarrow> decision_error + gate_finding list" where
  "check_findings cand paths checks v what =
     (case v of JArr fs \<Rightarrow> check_entries cand paths checks what [] fs | _ \<Rightarrow> Inl (Not_array what))"

fun check_prerequisites :: "js_value list \<Rightarrow> decision_error + jstring list" where
  "check_prerequisites [] = Inr []"
| "check_prerequisites (v # vs) =
     (case nonempty_str v of
        None \<Rightarrow> Inl Prerequisite_empty
      | Some p \<Rightarrow> and_then (check_prerequisites vs) (\<lambda>ps. Inr (p # ps)))"

definition ALLOWED_KEYS :: "jstring list" where
  "ALLOWED_KEYS = map js [''schemaVersion'', ''candidateId'', ''decision'', ''advisories'', ''blockers'', ''reason'', ''missingPrerequisites'']"

definition validate_gate_decision ::
  "js_value \<Rightarrow> jstring \<Rightarrow> jstring list \<Rightarrow> jstring list \<Rightarrow> decision_error + gate_decision" where
  "validate_gate_decision d cand paths checks =
     (if \<not> is_object d then Inl Decision_not_object
      else case List.find (\<lambda>k. k \<notin> set ALLOWED_KEYS) (object_keys d) of
        Some k \<Rightarrow> Inl (Unknown_key k)
      | None \<Rightarrow>
        if field d (js ''schemaVersion'') \<noteq> JNum (Fin 1) then Inl Bad_schema_version
        else if field d (js ''candidateId'') \<noteq> JStr cand then Inl Other_candidate
        else if field d (js ''decision'') = JStr (js ''approve'') then
          (if field d (js ''blockers'') \<noteq> JUndef then Inl Approve_with_blockers
           else and_then (check_findings cand paths checks (nullish (field d (js ''advisories'')) (JArr [])) ''advisories'')
                  (\<lambda>as. Inr (Approve cand as)))
        else if field d (js ''decision'') = JStr (js ''revise'') then
          and_then (check_findings cand paths checks (nullish (field d (js ''blockers'')) (JArr [])) ''blockers'') (\<lambda>bs.
            if length bs = 0 then Inl Revise_without_blocker
            else and_then (check_findings cand paths checks (nullish (field d (js ''advisories'')) (JArr [])) ''advisories'')
                   (\<lambda>as. Inr (Revise cand bs as)))
        else if field d (js ''decision'') = JStr (js ''blocked'') then
          (case nonempty_str (field d (js ''reason'')) of
             None \<Rightarrow> Inl Blocked_reason
           | Some reason \<Rightarrow>
             (case field d (js ''missingPrerequisites'') of
                JArr ps \<Rightarrow> if length ps = 0 then Inl Blocked_prerequisites
                            else and_then (check_prerequisites ps) (\<lambda>ss. Inr (Blocked cand reason ss))
              | _ \<Rightarrow> Inl Blocked_prerequisites))
        else Inl Bad_decision)"

section \<open>Well-formed verdicts and their JSON\<close>

definition finding_wf :: "jstring \<Rightarrow> jstring list \<Rightarrow> jstring list \<Rightarrow> gate_finding \<Rightarrow> bool" where
  "finding_wf cand paths checks f \<longleftrightarrow>
     fi_id f \<noteq> [] \<and> fi_target f \<noteq> [] \<and> fi_problem f \<noteq> [] \<and> fi_change f \<noteq> [] \<and>
     list_all (\<lambda>r. r \<noteq> [] \<and> evidence_resolves r cand paths checks) (fi_refs f)"

definition findings_wf :: "jstring \<Rightarrow> jstring list \<Rightarrow> jstring list \<Rightarrow> gate_finding list \<Rightarrow> bool" where
  "findings_wf cand paths checks fs \<longleftrightarrow> distinct (map fi_id fs) \<and> list_all (finding_wf cand paths checks) fs"

fun decision_wf :: "jstring \<Rightarrow> jstring list \<Rightarrow> jstring list \<Rightarrow> gate_decision \<Rightarrow> bool" where
  "decision_wf cand paths checks (Approve c as) = (c = cand \<and> findings_wf cand paths checks as)"
| "decision_wf cand paths checks (Revise c bs as) =
     (c = cand \<and> bs \<noteq> [] \<and> findings_wf cand paths checks bs \<and> findings_wf cand paths checks as)"
| "decision_wf cand paths checks (Blocked c reason ps) =
     (c = cand \<and> reason \<noteq> [] \<and> ps \<noteq> [] \<and> list_all (\<lambda>p. p \<noteq> []) ps)"

text \<open>
  That a submitted value says a verdict: an object with only the keys of a verdict, of this schema
  version, on the candidate, with the fields of its decision. Absent findings are none.
\<close>

definition says_finding :: "js_value \<Rightarrow> gate_finding \<Rightarrow> bool" where
  "says_finding v f \<longleftrightarrow>
     is_object v \<and> field v (js ''id'') = JStr (fi_id f) \<and> field v (js ''target'') = JStr (fi_target f) \<and>
     field v (js ''problem'') = JStr (fi_problem f) \<and> field v (js ''requiredChange'') = JStr (fi_change f) \<and>
     field v (js ''evidenceRefs'') = JArr (map JStr (fi_refs f))"

definition says_findings :: "js_value \<Rightarrow> gate_finding list \<Rightarrow> bool" where
  "says_findings v fs \<longleftrightarrow> v \<in> {JUndef, JNull} \<and> fs = [] \<or> (\<exists>vs. v = JArr vs \<and> list_all2 says_finding vs fs)"

definition says_verdict :: "js_value \<Rightarrow> jstring \<Rightarrow> gate_decision \<Rightarrow> bool" where
  "says_verdict raw cand w \<longleftrightarrow>
     is_object raw \<and> set (object_keys raw) \<subseteq> set ALLOWED_KEYS \<and>
     field raw (js ''schemaVersion'') = JNum (Fin 1) \<and> field raw (js ''candidateId'') = JStr cand \<and>
     (case w of
        Approve c as \<Rightarrow> field raw (js ''decision'') = JStr (js ''approve'') \<and> field raw (js ''blockers'') = JUndef \<and>
          says_findings (field raw (js ''advisories'')) as
      | Revise c bs as \<Rightarrow> field raw (js ''decision'') = JStr (js ''revise'') \<and>
          says_findings (field raw (js ''blockers'')) bs \<and> says_findings (field raw (js ''advisories'')) as
      | Blocked c reason ps \<Rightarrow> field raw (js ''decision'') = JStr (js ''blocked'') \<and>
          field raw (js ''reason'') = JStr reason \<and> field raw (js ''missingPrerequisites'') = JArr (map JStr ps))"

definition finding_json :: "gate_finding \<Rightarrow> js_value" where
  "finding_json f = JObj [(js ''id'', JStr (fi_id f)), (js ''target'', JStr (fi_target f)), (js ''problem'', JStr (fi_problem f)),
     (js ''requiredChange'', JStr (fi_change f)), (js ''evidenceRefs'', JArr (map JStr (fi_refs f)))]"

definition decision_head :: "jstring \<Rightarrow> string \<Rightarrow> (jstring \<times> js_value) list" where
  "decision_head c kind = [(js ''schemaVersion'', JNum (Fin 1)), (js ''candidateId'', JStr c), (js ''decision'', JStr (js kind))]"

fun decision_json :: "gate_decision \<Rightarrow> js_value" where
  "decision_json (Approve c as) = JObj (decision_head c ''approve'' @ [(js ''advisories'', JArr (map finding_json as))])"
| "decision_json (Revise c bs as) = JObj (decision_head c ''revise'' @
     [(js ''blockers'', JArr (map finding_json bs)), (js ''advisories'', JArr (map finding_json as))])"
| "decision_json (Blocked c reason ps) = JObj (decision_head c ''blocked'' @
     [(js ''reason'', JStr reason), (js ''missingPrerequisites'', JArr (map JStr ps))])"

section \<open>Facts\<close>

lemma nonempty_str_simps [simp]:
  "nonempty_str (JStr s) = (if s = [] then None else Some s)" "nonempty_str JUndef = None" "nonempty_str JNull = None"
  "nonempty_str (JBool x) = None" "nonempty_str (JNum n) = None" "nonempty_str (JArr vs) = None"
  "nonempty_str (JObj kvs) = None"
  by (simp_all add: nonempty_str_def)

lemma nonempty_str_SomeD: "nonempty_str v = Some s \<Longrightarrow> v = JStr s \<and> s \<noteq> []"
  by (cases v) (auto split: if_splits)

lemma check_refs_iff:
  "check_refs cand paths checks vs = Inr rs \<longleftrightarrow>
     vs = map JStr rs \<and> list_all (\<lambda>r. r \<noteq> [] \<and> evidence_resolves r cand paths checks) rs"
proof (induction vs arbitrary: rs)
  case (Cons v vs)
  then show ?case by (cases v; cases rs) (auto simp: and_then_Inr_iff)
qed auto

lemma finding_field_iff: "finding_field name v = Inr s \<longleftrightarrow> field v (js name) = JStr s \<and> s \<noteq> []"
  by (cases "field v (js name)") (auto simp: finding_field_def)

lemma check_entries_Cons:
  "check_entries cand paths checks what ids (f # fs) = Inr gs \<longleftrightarrow>
     is_object f \<and> (\<exists>g rest. gs = g # rest \<and> field f (js ''id'') = JStr (fi_id g) \<and> field f (js ''target'') = JStr (fi_target g) \<and>
       field f (js ''problem'') = JStr (fi_problem g) \<and> field f (js ''requiredChange'') = JStr (fi_change g) \<and>
       field f (js ''evidenceRefs'') = JArr (map JStr (fi_refs g)) \<and> finding_wf cand paths checks g \<and> fi_id g \<notin> set ids \<and>
       check_entries cand paths checks what (set_add (fi_id g) ids) fs = Inr rest)" (is "?l \<longleftrightarrow> ?r")
proof
  assume ?l
  then obtain i t p c rs refs rest where s: "is_object f" "field f (js ''id'') = JStr i" "field f (js ''target'') = JStr t"
    "field f (js ''problem'') = JStr p" "field f (js ''requiredChange'') = JStr c" "i \<noteq> []" "t \<noteq> []" "p \<noteq> []" "c \<noteq> []"
    "field f (js ''evidenceRefs'') = JArr rs" "i \<notin> set ids" "check_refs cand paths checks rs = Inr refs"
    "check_entries cand paths checks what (set_add i ids) fs = Inr rest"
    "gs = \<lparr>fi_id = i, fi_target = t, fi_problem = p, fi_change = c, fi_refs = refs\<rparr> # rest"
    by (cases "field f (js ''evidenceRefs'')") (auto simp: and_then_Inr_iff finding_field_iff split: if_splits)
  then show ?r by (auto simp: check_refs_iff finding_wf_def)
next
  assume ?r
  then obtain g rest where s: "is_object f" "gs = g # rest" "field f (js ''id'') = JStr (fi_id g)"
    "field f (js ''target'') = JStr (fi_target g)" "field f (js ''problem'') = JStr (fi_problem g)"
    "field f (js ''requiredChange'') = JStr (fi_change g)" "field f (js ''evidenceRefs'') = JArr (map JStr (fi_refs g))"
    "finding_wf cand paths checks g" "fi_id g \<notin> set ids"
    "check_entries cand paths checks what (set_add (fi_id g) ids) fs = Inr rest" by blast
  have "finding_field ''id'' f = Inr (fi_id g)" "finding_field ''target'' f = Inr (fi_target g)"
    "finding_field ''problem'' f = Inr (fi_problem g)" "finding_field ''requiredChange'' f = Inr (fi_change g)"
    "check_refs cand paths checks (map JStr (fi_refs g)) = Inr (fi_refs g)"
    using s by (simp_all add: finding_field_iff finding_wf_def check_refs_iff)
  with s show ?l by simp
qed

lemma check_entries_wf:
  "check_entries cand paths checks what ids fs = Inr gs \<Longrightarrow>
   findings_wf cand paths checks gs \<and> set (map fi_id gs) \<inter> set ids = {}"
proof (induction fs arbitrary: ids gs)
  case (Cons f fs)
  from Cons.prems obtain g rest where g: "gs = g # rest" "finding_wf cand paths checks g" "fi_id g \<notin> set ids"
    "check_entries cand paths checks what (set_add (fi_id g) ids) fs = Inr rest"
    unfolding check_entries_Cons by blast
  with Cons.IH [OF g(4)] show ?case by (auto simp: findings_wf_def)
qed (simp add: findings_wf_def)

lemma field_finding_json [simp]:
  "field (finding_json f) (js ''id'') = JStr (fi_id f)" "field (finding_json f) (js ''target'') = JStr (fi_target f)"
  "field (finding_json f) (js ''problem'') = JStr (fi_problem f)"
  "field (finding_json f) (js ''requiredChange'') = JStr (fi_change f)"
  "field (finding_json f) (js ''evidenceRefs'') = JArr (map JStr (fi_refs f))" "is_object (finding_json f)"
  by (simp_all add: finding_json_def)

lemma check_entries_json:
  "findings_wf cand paths checks fs \<Longrightarrow> set (map fi_id fs) \<inter> set ids = {} \<Longrightarrow>
   check_entries cand paths checks what ids (map finding_json fs) = Inr fs"
proof (induction fs arbitrary: ids)
  case (Cons f fs)
  then have "check_entries cand paths checks what (set_add (fi_id f) ids) (map finding_json fs) = Inr fs"
    by (intro Cons.IH) (auto simp: findings_wf_def)
  with Cons.prems show ?case unfolding list.map check_entries_Cons by (simp add: findings_wf_def)
qed simp

lemma check_findings_json:
  "findings_wf cand paths checks fs \<Longrightarrow>
   check_findings cand paths checks (nullish (JArr (map finding_json fs)) d) what = Inr fs"
  by (simp add: check_findings_def nullish_def check_entries_json)

lemma check_findings_wf: "check_findings cand paths checks v what = Inr fs \<Longrightarrow> findings_wf cand paths checks fs"
  by (auto simp: check_findings_def split: js_value.splits dest: check_entries_wf)

lemma check_prerequisites_iff:
  "check_prerequisites vs = Inr ps \<longleftrightarrow> vs = map JStr ps \<and> list_all (\<lambda>p. p \<noteq> []) ps"
proof (induction vs arbitrary: ps)
  case (Cons v vs)
  then show ?case by (cases v; cases ps) (auto simp: and_then_Inr_iff)
qed auto

lemma validate_gate_decision_wf:
  assumes "validate_gate_decision d cand paths checks = Inr v"
  shows "decision_wf cand paths checks v"
  using assms unfolding validate_gate_decision_def
  by (auto simp: and_then_Inr_iff check_prerequisites_iff dest: check_findings_wf nonempty_str_SomeD
      split: if_splits option.splits js_value.splits)

lemma validate_gate_decision_json:
  assumes "decision_wf cand paths checks v"
  shows "validate_gate_decision (decision_json v) cand paths checks = Inr v"
proof (cases v)
  case (Approve c as)
  with assms check_findings_json [of cand paths checks as] show ?thesis
    by (simp add: validate_gate_decision_def decision_head_def ALLOWED_KEYS_def)
next
  case (Revise c bs as)
  with assms check_findings_json [of cand paths checks as] check_findings_json [of cand paths checks bs] show ?thesis
    by (simp add: validate_gate_decision_def decision_head_def ALLOWED_KEYS_def)
next
  case (Blocked c reason ps)
  with assms check_prerequisites_iff [of "map JStr ps" ps] show ?thesis
    by (simp add: validate_gate_decision_def decision_head_def ALLOWED_KEYS_def)
qed

text \<open>What is accepted, read off the submitted value.\<close>

lemma check_entries_iff:
  "check_entries cand paths checks what ids fs = Inr gs \<longleftrightarrow>
     list_all2 says_finding fs gs \<and> findings_wf cand paths checks gs \<and> set (map fi_id gs) \<inter> set ids = {}"
proof (induction fs arbitrary: ids gs)
  case Nil
  show ?case by (auto simp: findings_wf_def)
next
  case (Cons f fs)
  show ?case
  proof (cases gs)
    case Nil
    then show ?thesis unfolding check_entries_Cons by simp
  next
    case (Cons g rest)
    show ?thesis unfolding check_entries_Cons Cons.IH
      by (auto simp: Cons says_finding_def [of f g] findings_wf_def)
  qed
qed

lemma check_findings_iff:
  "check_findings cand paths checks (nullish v (JArr [])) what = Inr fs \<longleftrightarrow>
     says_findings v fs \<and> findings_wf cand paths checks fs"
  by (cases v) (auto simp: check_findings_def nullish_def says_findings_def check_entries_iff findings_wf_def)

lemma decision_names_differ:
  "js ''approve'' \<noteq> js ''revise''" "js ''approve'' \<noteq> js ''blocked''" "js ''revise'' \<noteq> js ''blocked''"
  by simp_all

lemma validate_gate_decision_iff:
  "validate_gate_decision raw cand paths checks = Inr w \<longleftrightarrow> says_verdict raw cand w \<and> decision_wf cand paths checks w"
proof (cases "is_object raw \<and> set (object_keys raw) \<subseteq> set ALLOWED_KEYS \<and>
     field raw (js ''schemaVersion'') = JNum (Fin 1) \<and> field raw (js ''candidateId'') = JStr cand")
  case False
  then have "validate_gate_decision raw cand paths checks \<noteq> Inr w"
    by (auto simp: validate_gate_decision_def find_None_iff split: option.splits)
  then show ?thesis using False by (auto simp: says_verdict_def)
next
  case True
  then have keys: "List.find (\<lambda>k. k \<notin> set ALLOWED_KEYS) (object_keys raw) = None" by (auto simp: find_None_iff)
  consider (a) "field raw (js ''decision'') = JStr (js ''approve'')" | (r) "field raw (js ''decision'') = JStr (js ''revise'')"
    | (b) "field raw (js ''decision'') = JStr (js ''blocked'')"
    | (x) "field raw (js ''decision'') \<notin> {JStr (js ''approve''), JStr (js ''revise''), JStr (js ''blocked'')}" by auto
  then show ?thesis
  proof cases
    case a
    then show ?thesis using True keys
      by (cases w) (auto simp: validate_gate_decision_def says_verdict_def and_then_Inr_iff check_findings_iff)
  next
    case r
    then show ?thesis using True keys
      by (cases w) (auto simp: validate_gate_decision_def says_verdict_def and_then_Inr_iff check_findings_iff)
  next
    case b
    then show ?thesis using True keys
      by (cases w; cases "field raw (js ''reason'')"; cases "field raw (js ''missingPrerequisites'')")
        (auto simp: validate_gate_decision_def says_verdict_def and_then_Inr_iff check_prerequisites_iff)
  next
    case x
    then show ?thesis using True keys
      by (cases w) (auto simp: validate_gate_decision_def says_verdict_def)
  qed
qed

section \<open>Properties\<close>

text \<open>
  C35. A verdict counts only for the candidate it was given and only on evidence in its view. A
  submitted value is accepted as a verdict exactly when it is an object with no other keys than
  those of a verdict, has the schema version, names the assigned candidate and says that verdict
  (an approval without blockers, a revision with at least one, a block with a reason and
  prerequisites), and the findings have distinct ids and full texts and only evidence references
  that resolve. And every well-formed verdict, written as JSON, is read back unchanged.
\<close>

theorem verdict_codec:
  "(validate_gate_decision raw cand paths checks = Inr w \<longleftrightarrow> says_verdict raw cand w \<and> decision_wf cand paths checks w) \<and>
   (validate_gate_decision (decision_json v) cand paths checks = Inr v \<longleftrightarrow> decision_wf cand paths checks v)"
  using validate_gate_decision_json validate_gate_decision_wf validate_gate_decision_iff
  by blast

text \<open>
  Evidence references cannot leave the candidate: a reference resolves exactly when it is the
  candidate's answer, one of the manifest paths under the candidate's prefix, or, without that
  prefix, names a check before its first colon, whatever else it spells.
\<close>

theorem evidence_in_candidate_view:
  "evidence_resolves ref cand paths checks \<longleftrightarrow>
     ref = cand @ js '':answer'' \<or> (\<exists>p. p \<in> set paths \<and> ref = cand @ js '':'' @ p) \<or>
     \<not> starts_with ref (cand @ js '':'') \<and> before_char 58 ref \<in> set checks"
proof (cases "starts_with ref (cand @ js '':'')")
  case True
  then obtain r where r: "ref = cand @ js '':'' @ r" by (auto simp: starts_with_iff)
  have "drop (length cand + 1) ref = r" by (simp add: r js_def)
  with True r show ?thesis by (auto simp: evidence_resolves_def)
next
  case False
  have "starts_with (cand @ js '':answer'') (cand @ js '':'')"
    by (simp add: starts_with_iff js_def)
  with False show ?thesis by (auto simp: evidence_resolves_def starts_with_iff)
qed

end
