(* ===== verification/Effect.thy ===== *)
theory Effect
  imports Prelude
begin

text \<open>
  Stateful code that may throw: an effect takes the state and returns an error or a value
  together with the state it leaves (what was changed before a throw stays changed). The
  combinators are sequencing, \<open>try\<close>/\<open>catch\<close> and reading and writing the state.
  \<open>post m Q c\<close> says that \<open>Q\<close> holds of the result and the final state of \<open>m\<close> started in
  \<open>c\<close>; the collection \<open>post_simps\<close> computes it through the combinators.
\<close>

named_theorems post_simps \<open>postconditions of the effect combinators\<close>

type_synonym ('c, 'e, 'a) eff = "'c \<Rightarrow> ('e + 'a) \<times> 'c"

definition eret :: "'a \<Rightarrow> ('c, 'e, 'a) eff" where
  "eret x c = (Inr x, c)"

definition ethrow :: "'e \<Rightarrow> ('c, 'e, 'a) eff" where
  "ethrow e c = (Inl e, c)"

definition ebind :: "('c, 'e, 'a) eff \<Rightarrow> ('a \<Rightarrow> ('c, 'e, 'b) eff) \<Rightarrow> ('c, 'e, 'b) eff" where
  "ebind m f c = (case m c of (Inl e, d) \<Rightarrow> (Inl e, d) | (Inr x, d) \<Rightarrow> f x d)"

definition ethen :: "('c, 'e, 'a) eff \<Rightarrow> ('c, 'e, 'b) eff \<Rightarrow> ('c, 'e, 'b) eff" where
  "ethen m n = ebind m (\<lambda>_. n)"

definition ecatch :: "('c, 'e, 'a) eff \<Rightarrow> ('e \<Rightarrow> ('c, 'e, 'a) eff) \<Rightarrow> ('c, 'e, 'a) eff" where
  "ecatch m h c = (case m c of (Inl e, d) \<Rightarrow> h e d | (Inr x, d) \<Rightarrow> (Inr x, d))"

definition eget :: "('c, 'e, 'c) eff" where
  "eget c = (Inr c, c)"

definition emod :: "('c \<Rightarrow> 'c) \<Rightarrow> ('c, 'e, unit) eff" where
  "emod f c = (Inr (), f c)"

text \<open>One after the other, for each element.\<close>

fun eeach :: "('x \<Rightarrow> ('c, 'e, unit) eff) \<Rightarrow> 'x list \<Rightarrow> ('c, 'e, unit) eff" where
  "eeach f [] = eret ()"
| "eeach f (x # xs) = ethen (f x) (eeach f xs)"

section \<open>Postconditions\<close>

definition post :: "('c, 'e, 'a) eff \<Rightarrow> ('e + 'a \<Rightarrow> 'c \<Rightarrow> bool) \<Rightarrow> 'c \<Rightarrow> bool" where
  "post m Q c = (case m c of (r, d) \<Rightarrow> Q r d)"

lemma post_eret [post_simps]: "post (eret x) Q c \<longleftrightarrow> Q (Inr x) c"
  by (simp add: post_def eret_def)

lemma post_ethrow [post_simps]: "post (ethrow e) Q c \<longleftrightarrow> Q (Inl e) c"
  by (simp add: post_def ethrow_def)

lemma post_eget [post_simps]: "post eget Q c \<longleftrightarrow> Q (Inr c) c"
  by (simp add: post_def eget_def)

lemma post_emod [post_simps]: "post (emod f) Q c \<longleftrightarrow> Q (Inr ()) (f c)"
  by (simp add: post_def emod_def)

lemma post_ebind [post_simps]:
  "post (ebind m f) Q c \<longleftrightarrow> post m (\<lambda>r d. case r of Inl e \<Rightarrow> Q (Inl e) d | Inr x \<Rightarrow> post (f x) Q d) c"
  by (auto simp: post_def ebind_def split: prod.splits sum.splits)

lemma post_ethen [post_simps]:
  "post (ethen m n) Q c \<longleftrightarrow> post m (\<lambda>r d. case r of Inl e \<Rightarrow> Q (Inl e) d | Inr x \<Rightarrow> post n Q d) c"
  by (simp add: ethen_def post_ebind)

lemma post_ecatch [post_simps]:
  "post (ecatch m h) Q c \<longleftrightarrow> post m (\<lambda>r d. case r of Inl e \<Rightarrow> post (h e) Q d | Inr x \<Rightarrow> Q (Inr x) d) c"
  by (auto simp: post_def ecatch_def split: prod.splits sum.splits)

lemma post_if [post_simps]: "post (if b then m else n) Q c \<longleftrightarrow> (if b then post m Q c else post n Q c)"
  by simp

lemma post_mono: "post m P c \<Longrightarrow> (\<And>r d. P r d \<Longrightarrow> Q r d) \<Longrightarrow> post m Q c"
  by (auto simp: post_def split: prod.splits)

lemma post_result: "post m Q c \<longleftrightarrow> Q (fst (m c)) (snd (m c))"
  by (simp add: post_def split_beta)

lemma post_conj: "post m P c \<Longrightarrow> post m Q c \<Longrightarrow> post m (\<lambda>r d. P r d \<and> Q r d) c"
  by (simp add: post_result)

text \<open>An effect keeps a property of states when it holds after it whenever it held before it.\<close>

definition keeps :: "('c \<Rightarrow> bool) \<Rightarrow> ('c, 'e, 'a) eff \<Rightarrow> bool" where
  "keeps I m \<longleftrightarrow> (\<forall>c. I c \<longrightarrow> I (snd (m c)))"

lemma keepsI: "(\<And>c. I c \<Longrightarrow> post m (\<lambda>_. I) c) \<Longrightarrow> keeps I m"
  by (simp add: keeps_def post_result)

lemma keeps_post: "keeps I m \<Longrightarrow> I c \<Longrightarrow> post m (\<lambda>_. I) c"
  by (simp add: keeps_def post_result)

lemma keepsD: "keeps I m \<Longrightarrow> I c \<Longrightarrow> I (snd (m c))"
  by (simp add: keeps_def)

lemma keeps_eret [intro]: "keeps I (eret x)"
  by (simp add: keeps_def eret_def)

lemma keeps_ethrow [intro]: "keeps I (ethrow e)"
  by (simp add: keeps_def ethrow_def)

lemma keeps_eget [intro]: "keeps I eget"
  by (simp add: keeps_def eget_def)

lemma keeps_emod: "(\<And>c. I c \<Longrightarrow> I (f c)) \<Longrightarrow> keeps I (emod f)"
  by (simp add: keeps_def emod_def)

lemma keeps_ebind: "keeps I m \<Longrightarrow> (\<And>x. keeps I (f x)) \<Longrightarrow> keeps I (ebind m f)"
  by (auto simp: keeps_def ebind_def split_beta split: sum.splits)

lemma keeps_ethen: "keeps I m \<Longrightarrow> keeps I n \<Longrightarrow> keeps I (ethen m n)"
  by (simp add: ethen_def keeps_ebind)

lemma keeps_ecatch: "keeps I m \<Longrightarrow> (\<And>e. keeps I (h e)) \<Longrightarrow> keeps I (ecatch m h)"
  by (auto simp: keeps_def ecatch_def split_beta split: sum.splits)

lemma keeps_if: "keeps I m \<Longrightarrow> keeps I n \<Longrightarrow> keeps I (if b then m else n)"
  by simp

lemma keeps_eeach: "(\<And>x. keeps I (f x)) \<Longrightarrow> keeps I (eeach f xs)"
  by (induction xs) (auto intro: keeps_ethen)

lemmas keeps_intros = keeps_eret keeps_ethrow keeps_eget keeps_ebind keeps_ethen keeps_ecatch keeps_if keeps_eeach

end
