(* ===== verification/GatePanel.thy ===== *)
theory GatePanel
  imports GateSpec GateDecision Effect
begin

text \<open>
  The validation gate of one task run (\<open>GateController\<close> of
  \<open>ponygirls-subagents/src/gate.ts\<close>): freezing a candidate, running its checks, collecting one
  verdict from every member of the reviewer panel, and applying the panel's decision.

  The state is a \<open>cell\<close>: the task record, the continuations of its unfinished promises, the next
  panel number (the identity of a \<open>PanelReview\<close> object), and the calls made to the supervisor
  (\<open>GateHost\<close> and the journal), in order. The supervisor is a parameter: \<open>ce_host n\<close> is its
  answer to the call number \<open>n\<close>, which may be an error. A call whose promise the gate awaits
  (\<open>runCheck\<close>, and \<open>cancelReviewer\<close> after a verdict) is recorded when it is made, and its outcome
  arrives later with the continuation, in any order. Of a thrown error the code and the message
  are kept.
\<close>

section \<open>Records\<close>

type_synonym agent_id = jstring
type_synonym run_id = jstring

text \<open>A file of a manifest: path, kind, mode and hash.\<close>

record manifest_file =
  mf_path :: jstring
  mf_kind :: jstring
  mf_mode :: jstring
  mf_hash :: jstring

record fingerprint =
  fp_base :: "jstring option"
  fp_text_only :: bool
  fp_text_hash :: "jstring option"
  fp_files :: "manifest_file list"

record candidate =
  cd_id :: jstring
  cd_run :: run_id
  cd_generation :: int
  cd_base :: "jstring option"
  cd_rubric :: jstring
  cd_result_ref :: jstring
  cd_fingerprint :: fingerprint
  cd_created :: jstring

datatype gate_outcome =
  Out_succeeded | Out_interrupted | Out_passed | Out_limit | Out_blocked | Out_error
| Out_superseded | Out_bypassed | Out_other jstring

text \<open>\<open>Out_other\<close>: a task outcome of the supervisor, which \<open>cancelTask\<close> casts to the type.\<close>

record gate_feedback =
  fb_round :: nat
  fb_index :: nat
  fb_reviewer :: agent_id
  fb_review :: jstring
  fb_candidate :: jstring
  fb_verdict :: "gate_decision option"
  fb_error :: "jstring option"

datatype member_status = Member_running | Member_interrupted | Member_decided | Member_failed

record panel_member =
  pm_reviewer :: agent_id
  pm_index :: nat
  pm_status :: member_status
  pm_used :: bool
  pm_settled :: bool

datatype review_status = Review_running | Review_interrupted | Review_decided

record panel =
  pn_serial :: nat
  pn_application :: nat
  pn_review :: jstring
  pn_status :: review_status
  pn_candidate :: jstring
  pn_used :: bool
  pn_members :: "panel_member list"

text \<open>The result of one check: its id, exit code (\<open>null\<close> when it did not run) and output.\<close>

record check_result =
  cr_id :: jstring
  cr_exit :: "int option"
  cr_output :: jstring

record check_evidence =
  ev_round :: nat
  ev_result :: check_result

record gate_task =
  gt_agent :: agent_id
  gt_run :: run_id
  gt_text :: jstring
  gt_spec :: gate_spec
  gt_rounds :: nat
  gt_reviewer :: "agent_id option"
  gt_reviewers :: "agent_id list"
  gt_candidate :: "candidate option"
  gt_review :: "panel option"
  gt_feedback :: "gate_feedback list"
  gt_findings :: "gate_finding list"
  gt_response :: jstring
  gt_reserved :: bool
  gt_repair :: "jstring option"
  gt_terminal :: "gate_outcome option"
  gt_linked :: "run_id option"
  gt_evidence :: "check_evidence list"
  gt_history :: "jstring list"
  gt_warning :: "jstring option"

section \<open>Supervisor calls, continuations and cells\<close>

datatype journal_entry =
  J_registered agent_id run_id gate_spec jstring "run_id option" "agent_id list"
| J_candidate agent_id run_id candidate jstring
| J_round_admitted agent_id run_id nat jstring "jstring option" "run_id option"
| J_evidence agent_id run_id nat "check_result list"
| J_feedback agent_id run_id gate_feedback
| J_repair agent_id run_id jstring jstring nat jstring
| J_limits agent_id run_id "int option" jstring

datatype task_phase = Phase_review_queued | Phase_reviewing

datatype host_request =
  Append journal_entry
| Fingerprint_workspace agent_id "jstring list"
| Now_iso
| Set_phase agent_id run_id task_phase
| Run_check agent_id run_id gate_check
| Start_reviewer agent_id run_id jstring jstring jstring
| Start_repair agent_id run_id jstring
| Cancel_reviewer agent_id
| Settle_task agent_id run_id gate_outcome jstring
| Workspace_matches agent_id candidate
| Feedback_recorded
| Quiescent agent_id
| Random_uuid
| Create_reviewer_panel agent_id run_id gate_spec
| Begin_linked_run agent_id run_id

record host_answer =
  an_error :: "jstring option"
  an_flag :: bool
  an_fingerprint :: fingerprint
  an_text :: jstring
  an_agents :: "agent_id list"

text \<open>
  The continuations: after a check of a new candidate; after the release of a reviewer; after a
  check repeated for an approval; after all of these (an error message, or none); and the two
  \<open>catch\<close> handlers of these promises.
\<close>

datatype continuation =
  Check_done "gate_check list" "check_result list"
| Member_released nat nat
| Recheck_done nat nat "gate_check list"
| Verified nat nat "jstring option"
| Application_failed nat nat jstring
| Cleanup_failed jstring

record cell =
  ce_task :: gate_task
  ce_pending :: "continuation list"
  ce_serial :: nat
  ce_log :: "host_request list"
  ce_host :: "nat \<Rightarrow> host_answer"
  ce_sha256 :: "jstring \<Rightarrow> jstring"

type_synonym gate_err = "jstring \<times> jstring"
type_synonym 'a gate_eff = "(cell, gate_err, 'a) eff"

definition gate_err :: "string \<Rightarrow> jstring \<Rightarrow> gate_err" where
  "gate_err code message = (js code, message)"

text \<open>A call that returns or throws, a call whose outcome is not used here, and a new continuation.\<close>

definition host_call :: "host_request \<Rightarrow> host_answer gate_eff" where
  "host_call k c =
     (let a = ce_host c (length (ce_log c)); d = c\<lparr>ce_log := ce_log c @ [k]\<rparr> in
      case an_error a of Some m \<Rightarrow> (Inl (js ''HOST'', m), d) | None \<Rightarrow> (Inr a, d))"

definition note_call :: "host_request \<Rightarrow> unit gate_eff" where
  "note_call k = emod (\<lambda>c. c\<lparr>ce_log := ce_log c @ [k]\<rparr>)"

definition await :: "continuation \<Rightarrow> unit gate_eff" where
  "await k = emod (\<lambda>c. c\<lparr>ce_pending := ce_pending c @ [k]\<rparr>)"

definition upd_task :: "(gate_task \<Rightarrow> gate_task) \<Rightarrow> unit gate_eff" where
  "upd_task f = emod (\<lambda>c. c\<lparr>ce_task := f (ce_task c)\<rparr>)"

definition with_task :: "(gate_task \<Rightarrow> 'a gate_eff) \<Rightarrow> 'a gate_eff" where
  "with_task f = ebind eget (\<lambda>c. f (ce_task c))"

definition do_call :: "host_request \<Rightarrow> unit gate_eff" where
  "do_call k = ebind (host_call k) (\<lambda>_. eret ())"

definition upd_review :: "(panel \<Rightarrow> panel) \<Rightarrow> gate_task \<Rightarrow> gate_task" where
  "upd_review f t = t\<lparr>gt_review := map_option f (gt_review t)\<rparr>"

definition upd_member :: "nat \<Rightarrow> (panel_member \<Rightarrow> panel_member) \<Rightarrow> panel \<Rightarrow> panel" where
  "upd_member i f p = (if i < length (pn_members p) then p\<lparr>pn_members := (pn_members p)[i := f (pn_members p ! i)]\<rparr> else p)"

section \<open>Texts\<close>

definition nat_text :: "nat \<Rightarrow> jstring" where
  "nat_text n = digits_of n"

definition exit_text :: "int option \<Rightarrow> jstring" where
  "exit_text e = (case e of None \<Rightarrow> js ''null'' | Some i \<Rightarrow> int_text i)"

definition join_lines :: "jstring list \<Rightarrow> jstring" where
  "join_lines ls = join_on 10 ls"

definition manifest_value :: "manifest_file \<Rightarrow> js_value" where
  "manifest_value f = JObj [(js ''path'', JStr (mf_path f)), (js ''kind'', JStr (mf_kind f)), (js ''mode'', JStr (mf_mode f)),
     (js ''hash'', JStr (mf_hash f))]"

definition fingerprint_summary :: "(jstring \<Rightarrow> jstring) \<Rightarrow> fingerprint \<Rightarrow> jstring" where
  "fingerprint_summary sha256 f =
     (if fp_text_only f then js ''text:'' @ (case fp_text_hash f of None \<Rightarrow> js ''null'' | Some h \<Rightarrow> h)
      else nat_text (length (fp_files f)) @ js '' files @'' @ (case fp_base f of None \<Rightarrow> js ''none'' | Some b \<Rightarrow> take 12 b) @
           js '' #'' @ take 16 (sha256 (json_text (\<lambda>_. []) (JArr (map manifest_value (fp_files f))))))"

fun decision_message :: "decision_error \<Rightarrow> jstring" where
  "decision_message Decision_not_object = js ''decision must be an object''"
| "decision_message (Unknown_key k) = js ''unknown decision key '' @ k"
| "decision_message Bad_schema_version = js ''decision.schemaVersion must be 1''"
| "decision_message Other_candidate = js ''decision names a different candidate''"
| "decision_message Bad_decision = js ''decision must be approve/revise/blocked''"
| "decision_message (Not_array what) = js what @ js '' must be an array''"
| "decision_message (Entry_not_object what) = js what @ js '' entries must be objects''"
| "decision_message (Finding_field name) = js ''finding.'' @ js name @ js '' must be nonempty''"
| "decision_message Finding_ids = js ''finding ids must be unique''"
| "decision_message Refs_not_array = js ''finding.evidenceRefs must be an array''"
| "decision_message Ref_empty = js ''evidenceRefs must be nonempty strings''"
| "decision_message (Ref_unresolved r) = js ''evidence ref '' @ r @ js '' does not resolve to the candidate view''"
| "decision_message Approve_with_blockers = js ''approve must not carry blockers''"
| "decision_message Revise_without_blocker = js ''revise requires at least one blocker''"
| "decision_message Blocked_reason = js ''blocked requires a nonempty reason''"
| "decision_message Blocked_prerequisites = js ''blocked requires missingPrerequisites''"
| "decision_message Prerequisite_empty = js ''missingPrerequisites must be nonempty strings''"

definition review_name :: "nat \<Rightarrow> jstring" where
  "review_name n = js ''review-'' @ nat_text n"

definition repair_name :: "jstring \<Rightarrow> jstring" where
  "repair_name review = js ''repair:'' @ review"

definition quoted :: "jstring \<Rightarrow> jstring" where
  "quoted s = [34] @ s @ [34]"

definition last_n :: "nat \<Rightarrow> 'a list \<Rightarrow> 'a list" where
  "last_n n xs = drop (length xs - n) xs"

text \<open>\<open>buildReviewPrompt\<close>, as its lines; a task under review has a candidate.\<close>

definition review_prompt_lines ::
  "(jstring \<Rightarrow> jstring) \<Rightarrow> gate_task \<Rightarrow> candidate \<Rightarrow> check_result list \<Rightarrow> bool \<Rightarrow> nat \<Rightarrow> jstring list" where
  "review_prompt_lines sha256 t cand evidence failures i =
     [js ''You are reviewer '' @ nat_text (i + 1) @ js '' for task '' @ gt_run t @ js ''.'',
      if gs_mode (gt_spec t) = Review_mode
      then js ''This is a one-shot advisory review. Your verdict is returned to the caller; it cannot gate or trigger repairs.''
      else js ''This is a validation gate; all reviewers must approve the same candidate.'',
      [], js ''Rubric (frozen revision '' @ gs_rubric (gt_spec t) @ js ''):'', rv_prompt (gs_reviewers (gt_spec t) ! i),
      [], js ''Original task:'', gt_text t,
      [], js ''Candidate '' @ cd_id cand @ js '' (base '' @ (case cd_base cand of None \<Rightarrow> js ''text-only'' | Some b \<Rightarrow> b) @
        js '', fingerprint '' @ fingerprint_summary sha256 (cd_fingerprint cand) @ js ''):'', gt_response t, []] @
     (if length evidence > 0
      then [js ''Trusted check evidence (controller-executed; model assertions are not evidence):''] @
           map (\<lambda>e. js ''- '' @ cr_id e @ js '': exit='' @ exit_text (cr_exit e) @ [10] @ cr_output e) evidence @ [[]]
      else []) @
     (if length (gt_findings t) > 0
      then [js ''Previous findings and the main agent's bounded response:''] @
           map (\<lambda>f. js ''- '' @ fi_id f @ js '' '' @ fi_target f @ js '': '' @ fi_problem f @ js '' => '' @ fi_change f)
             (last_n 10 (gt_findings t)) @ [[]]
      else []) @
     (if failures
      then [js ''Required checks failed or are missing. A syntactically valid approve contradicting this evidence is invalid. Use '' @
            quoted (js ''blocked'') @ js '' when a prerequisite is unavailable, otherwise '' @ quoted (js ''revise'') @ js ''.'', []]
      else []) @
     (let files = take 20 (map (\<lambda>f. cd_id cand @ js '':'' @ mf_path f) (fp_files (cd_fingerprint cand))) in
      [js ''Return your verdict ONLY through submit_gate_decision with schemaVersion 1, candidateId '' @ quoted (cd_id cand) @
         js '', and one of: approve (advisories only); revise (at least one blocker); blocked (reason + missingPrerequisites). Advisory improvements alone must not force another round.'',
       js ''Every finding's evidenceRefs entries must be exactly one of: '' @ quoted (cd_id cand @ js '':answer'') @
         js '' (the recorded answer text)'' @
         (if length files > 0 then js '', a changed file such as '' @ concat (case map quoted files of [] \<Rightarrow> [] | q # qs \<Rightarrow> q # map (\<lambda>r. js '', '' @ r) qs) else []) @
         (case gs_checks (gt_spec t) of [] \<Rightarrow> [] | c # cs \<Rightarrow> js '', or a check output such as '' @ quoted (ck_id c @ js '':output'')) @ js ''.''])"

definition build_review_prompt ::
  "(jstring \<Rightarrow> jstring) \<Rightarrow> gate_task \<Rightarrow> candidate \<Rightarrow> check_result list \<Rightarrow> bool \<Rightarrow> nat \<Rightarrow> jstring" where
  "build_review_prompt sha256 t cand evidence failures i =
     join_lines (review_prompt_lines sha256 t cand evidence failures i)"

definition REPAIR_PREFIX :: jstring where
  "REPAIR_PREFIX = js ''Reviewer requires changes to candidate''"

definition repair_criticism :: "candidate \<Rightarrow> nat \<Rightarrow> gate_finding list \<Rightarrow> gate_finding list \<Rightarrow> jstring" where
  "repair_criticism cand n blockers advisories =
     join_lines
       ((REPAIR_PREFIX @ js '' '' @ cd_id cand @ js '' (round '' @ nat_text n @ js ''):'') #
        map (\<lambda>b. js ''- ['' @ fi_id b @ js ''] '' @ fi_target b @ js '': '' @ fi_problem b @ js '' Required: '' @ fi_change b @
               js '' (evidence: '' @ concat (case fi_refs b of [] \<Rightarrow> [] | r # rs \<Rightarrow> r # map (\<lambda>x. js '', '' @ x) rs) @ js '')'') blockers @
        (if length advisories > 0
         then js ''Advisories (do not block):'' #
              map (\<lambda>a. js ''- ['' @ fi_id a @ js ''] '' @ fi_target a @ js '': '' @ fi_problem a) advisories
         else []))"

section \<open>Termination\<close>

definition terminate :: "gate_outcome \<Rightarrow> jstring \<Rightarrow> unit gate_eff" where
  "terminate outcome detail = with_task (\<lambda>t.
     if gt_terminal t \<noteq> None then eret ()
     else ethen (upd_task (\<lambda>t. t\<lparr>gt_terminal := Some outcome, gt_review := None\<rparr>))
         (ethen (eeach (\<lambda>r. note_call (Cancel_reviewer r)) (gt_reviewers t))
           (do_call (Settle_task (gt_agent t) (gt_run t) outcome detail))))"

definition terminate_quietly :: "gate_outcome \<Rightarrow> jstring \<Rightarrow> unit gate_eff" where
  "terminate_quietly outcome detail = ecatch (terminate outcome detail) (\<lambda>_. eret ())"

text \<open>\<open>cancelTask\<close>: the supervisor settled the run itself.\<close>

definition cancel_task :: "gate_outcome \<Rightarrow> unit gate_eff" where
  "cancel_task outcome = with_task (\<lambda>t.
     if gt_terminal t \<noteq> None then eret ()
     else ethen (upd_task (\<lambda>t. t\<lparr>gt_terminal := Some outcome, gt_review := None\<rparr>))
           (eeach (\<lambda>r. note_call (Cancel_reviewer r)) (gt_reviewers t)))"

section \<open>The decision of a panel\<close>

definition ordered_feedback :: "gate_task \<Rightarrow> nat option \<Rightarrow> gate_feedback list" where
  "ordered_feedback t rnd =
     sort_key fb_round (sort_key fb_index
       (filter (\<lambda>f. case rnd of None \<Rightarrow> True | Some n \<Rightarrow> fb_round f = n) (gt_feedback t)))"

definition attribute :: "nat \<Rightarrow> nat \<Rightarrow> gate_finding \<Rightarrow> gate_finding" where
  "attribute n i f = (if n = 1 then f else f\<lparr>fi_id := js ''reviewer-'' @ nat_text (i + 1) @ js ''/'' @ fi_id f\<rparr>)"

fun blockers_of :: "gate_decision option \<Rightarrow> gate_finding list" where
  "blockers_of (Some (Revise c bs as)) = bs"
| "blockers_of _ = []"

fun advisories_of :: "gate_decision option \<Rightarrow> gate_finding list" where
  "advisories_of (Some (Revise c bs as)) = as"
| "advisories_of (Some (Approve c as)) = as"
| "advisories_of _ = []"

fun blocked_reasons :: "nat \<Rightarrow> gate_decision option \<Rightarrow> jstring list" where
  "blocked_reasons i (Some (Blocked c reason ps)) = [js ''reviewer '' @ nat_text (i + 1) @ js '': '' @ reason]"
| "blocked_reasons i _ = []"

fun prerequisites_of :: "gate_decision option \<Rightarrow> jstring list" where
  "prerequisites_of (Some (Blocked c reason ps)) = ps"
| "prerequisites_of _ = []"

definition panel_decision :: "jstring \<Rightarrow> gate_feedback list \<Rightarrow> gate_decision" where
  "panel_decision cand fs =
     (let n = length fs;
          blockers = concat (map (\<lambda>f. map (attribute n (fb_index f)) (blockers_of (fb_verdict f))) fs);
          advisories = concat (map (\<lambda>f. map (attribute n (fb_index f)) (advisories_of (fb_verdict f))) fs);
          reasons = concat (map (\<lambda>f. blocked_reasons (fb_index f) (fb_verdict f)) fs)
      in if length reasons > 0 then Blocked cand (join_lines reasons) (concat (map (\<lambda>f. prerequisites_of (fb_verdict f)) fs))
         else if length blockers > 0 then Revise cand blockers advisories
         else Approve cand advisories)"

section \<open>Applying a decision\<close>

definition applying :: "gate_task \<Rightarrow> nat \<Rightarrow> nat \<Rightarrow> bool" where
  "applying t serial app \<longleftrightarrow> gt_terminal t = None \<and>
     (case gt_review t of None \<Rightarrow> False
      | Some p \<Rightarrow> pn_serial p = serial \<and> pn_status p = Review_decided \<and> pn_application p = app)"

text \<open>\<open>verifyRequiredEvidence\<close>, from the next check on.\<close>

definition recheck_next :: "nat \<Rightarrow> nat \<Rightarrow> gate_check list \<Rightarrow> unit gate_eff" where
  "recheck_next serial app todo = (case todo of
     [] \<Rightarrow> await (Verified serial app None)
   | c # cs \<Rightarrow> with_task (\<lambda>t.
       if \<not> applying t serial app then await (Verified serial app (Some (js ''review interrupted during approval recheck'')))
       else ethen (note_call (Run_check (gt_agent t) (gt_run t) c)) (await (Recheck_done serial app (c # cs)))))"

definition apply_revise :: "gate_finding list \<Rightarrow> gate_finding list \<Rightarrow> candidate \<Rightarrow> panel \<Rightarrow> unit gate_eff" where
  "apply_revise blockers advisories cand p =
     ethen (upd_task (\<lambda>t. t\<lparr>gt_findings := blockers @ advisories\<rparr>)) (with_task (\<lambda>t.
       if (case gs_max_rounds (gt_spec t) of None \<Rightarrow> False | Some m \<Rightarrow> m \<le> int (gt_rounds t))
       then terminate Out_limit (js ''valid revise at round '' @ nat_text (gt_rounds t) @ js ''; no repair dispatched'')
       else let command = repair_name (pn_review p) in
         if gt_repair t = Some command then eret ()
         else ethen (upd_task (\<lambda>t. t\<lparr>gt_repair := Some command, gt_reserved := True\<rparr>))
               (let criticism = repair_criticism cand (gt_rounds t) blockers advisories in
                ethen (do_call (Append (J_repair (gt_agent t) (gt_run t) (pn_review p) command (length blockers) (take 8000 criticism))))
                  (do_call (Start_repair (gt_agent t) (gt_run t) criticism)))))"

definition apply_decision :: "nat \<Rightarrow> nat \<Rightarrow> gate_decision \<Rightarrow> unit gate_eff" where
  "apply_decision serial app d = with_task (\<lambda>t.
     if \<not> applying t serial app then eret ()
     else case (gt_candidate t, gt_review t) of
       (Some cand, Some p) \<Rightarrow>
         (case d of
            Approve _ _ \<Rightarrow>
              ebind (host_call (Workspace_matches (gt_agent t) cand)) (\<lambda>a.
                if \<not> an_flag a then terminate Out_superseded (js ''workspace changed during review; verdict not retargeted'')
                else recheck_next serial app (gs_checks (gt_spec t)))
          | Blocked _ reason _ \<Rightarrow> terminate Out_blocked reason
          | Revise _ blockers advisories \<Rightarrow> apply_revise blockers advisories cand p)
     | _ \<Rightarrow> eret ())"

text \<open>The rest of \<open>applyDecision\<close> once the evidence of an approval is verified.\<close>

definition verified :: "nat \<Rightarrow> nat \<Rightarrow> jstring option \<Rightarrow> unit gate_eff" where
  "verified serial app problem = ecatch
     (with_task (\<lambda>t.
        if \<not> applying t serial app then eret ()
        else case problem of
          Some m \<Rightarrow> terminate Out_error (js ''GATE_INVALID_APPROVAL: '' @ m)
        | None \<Rightarrow> terminate Out_passed (js ''approved candidate '' @ (case gt_candidate t of None \<Rightarrow> [] | Some cand \<Rightarrow> cd_id cand))))
     (\<lambda>e. await (Application_failed serial app (snd e)))"

definition application_failed :: "nat \<Rightarrow> nat \<Rightarrow> jstring \<Rightarrow> unit gate_eff" where
  "application_failed serial app m = with_task (\<lambda>t.
     if applying t serial app then terminate_quietly Out_error (js ''decision application failed: '' @ m) else eret ())"

section \<open>The panel barrier\<close>

definition failure_lines :: "gate_feedback list \<Rightarrow> jstring" where
  "failure_lines fs = join_lines (map (\<lambda>f. js ''reviewer '' @ nat_text (fb_index f + 1) @ js '': '' @
     (case fb_error f of None \<Rightarrow> js ''null'' | Some e \<Rightarrow> e)) fs)"

text \<open>\<open>finishPanel\<close> once the panel \<open>p\<close> of the task \<open>t\<close> is marked decided.\<close>

definition conclude_panel :: "gate_task \<Rightarrow> panel \<Rightarrow> unit gate_eff" where
  "conclude_panel t p =
     (let fs = ordered_feedback t (Some (gt_rounds t)) in
      if length fs \<noteq> length (pn_members p)
      then ethrow (gate_err ''GATE_PROTOCOL_ERROR'' (js ''panel completed without exactly one report per reviewer''))
      else if gs_mode (gt_spec t) = Review_mode
      then terminate Out_succeeded (js ''review-only: '' @ nat_text (length fs) @ js '' reviews returned; no acceptance verdict or automatic repairs'')
      else let errors = filter (\<lambda>f. fb_error f \<noteq> None) fs in
      if length errors > 0 then terminate Out_error (failure_lines errors)
      else let app = pn_application p + 1 in
        ethen (upd_task (upd_review (\<lambda>p. p\<lparr>pn_application := app\<rparr>)))
          (ecatch (apply_decision (pn_serial p) app (panel_decision (pn_candidate p) fs))
             (\<lambda>e. await (Application_failed (pn_serial p) app (snd e)))))"

definition finish_panel :: "nat \<Rightarrow> unit gate_eff" where
  "finish_panel serial = with_task (\<lambda>t. case gt_review t of None \<Rightarrow> eret () | Some p \<Rightarrow>
     if gt_terminal t \<noteq> None \<or> pn_serial p \<noteq> serial \<or> pn_status p \<noteq> Review_running \<or> pn_used p
          \<or> \<not> list_all pm_settled (pn_members p) then eret ()
     else ethen (upd_task (upd_review (\<lambda>p. p\<lparr>pn_used := True, pn_status := Review_decided\<rparr>))) (conclude_panel t p))"

definition report_member :: "gate_decision option \<Rightarrow> panel_member \<Rightarrow> panel_member" where
  "report_member verdict m = m\<lparr>pm_used := (verdict \<noteq> None),
     pm_status := (if verdict \<noteq> None then Member_decided else Member_failed)\<rparr>"

text \<open>\<open>recordFeedback\<close> for the member \<open>i\<close> of the panel under review.\<close>

definition record_feedback :: "nat \<Rightarrow> gate_decision option \<Rightarrow> jstring option \<Rightarrow> unit gate_eff" where
  "record_feedback i verdict error = with_task (\<lambda>t. case gt_review t of None \<Rightarrow> eret () | Some p \<Rightarrow>
     let m = pn_members p ! i;
         fb = \<lparr>fb_round = gt_rounds t, fb_index = pm_index m, fb_reviewer = pm_reviewer m, fb_review = pn_review p,
               fb_candidate = pn_candidate p, fb_verdict = verdict, fb_error = error\<rparr>
     in ethen (do_call (Append (J_feedback (gt_agent t) (gt_run t) fb)))
       (ethen (upd_task (\<lambda>t. upd_review (upd_member i (report_member verdict)) (t\<lparr>gt_feedback := gt_feedback t @ [fb]\<rparr>)))
       (ethen (do_call Feedback_recorded)
       (ethen (note_call (Cancel_reviewer (pm_reviewer m)))
         (await (Member_released (pn_serial p) i))))))"

text \<open>The continuation of the release: \<open>then\<close> and the start of \<open>catch\<close>.\<close>

definition member_released :: "nat \<Rightarrow> nat \<Rightarrow> unit gate_eff" where
  "member_released serial i = with_task (\<lambda>t. case gt_review t of None \<Rightarrow> eret () | Some p \<Rightarrow>
     if pn_serial p \<noteq> serial \<or> gt_terminal t \<noteq> None then eret ()
     else ethen (upd_task (upd_review (upd_member i (\<lambda>m. m\<lparr>pm_settled := True\<rparr>))))
           (ecatch (finish_panel serial) (\<lambda>e. await (Cleanup_failed (snd e)))))"

definition cleanup_failed :: "jstring \<Rightarrow> unit gate_eff" where
  "cleanup_failed m = terminate_quietly Out_error (js ''review cleanup failed: '' @ m)"

definition find_index :: "('a \<Rightarrow> bool) \<Rightarrow> 'a list \<Rightarrow> nat option" where
  "find_index P xs = (let i = length (takeWhile (\<lambda>x. \<not> P x) xs) in if i < length xs then Some i else None)"

definition member_of :: "gate_task \<Rightarrow> agent_id \<Rightarrow> (nat \<times> panel_member) option" where
  "member_of t r = (case gt_review t of None \<Rightarrow> None
     | Some p \<Rightarrow> map_option (\<lambda>i. (i, pn_members p ! i)) (find_index (\<lambda>m. pm_reviewer m = r) (pn_members p)))"

text \<open>\<open>executionFailed\<close> and \<open>submitDecision\<close> on the task the reviewer is linked to.\<close>

definition execution_failed :: "agent_id \<Rightarrow> jstring \<Rightarrow> unit gate_eff" where
  "execution_failed r diagnostics = with_task (\<lambda>t. case member_of t r of None \<Rightarrow> eret () | Some (i, m) \<Rightarrow>
     if gt_terminal t \<noteq> None \<or> pm_status m \<noteq> Member_running \<or> pm_used m then eret ()
     else record_feedback i None (Some (js ''reviewer execution failed: '' @ take 1000 diagnostics)))"

definition submit_decision :: "agent_id \<Rightarrow> js_value \<Rightarrow> (gate_err + unit) gate_eff" where
  "submit_decision r raw = with_task (\<lambda>t.
     case (gt_terminal t, gt_candidate t, member_of t r) of
       (None, Some cand, Some (i, m)) \<Rightarrow>
         if pm_status m \<noteq> Member_running \<or> pm_used m \<or> pm_settled m
         then eret (Inl (gate_err ''DUPLICATE_REQUEST'' (js ''one decision submission per review execution'')))
         else (case validate_gate_decision raw (cd_id cand) (map mf_path (fp_files (cd_fingerprint cand)))
                      (map ck_id (gs_checks (gt_spec t))) of
            Inr d \<Rightarrow> ethen (record_feedback i (Some d) None) (eret (Inr ()))
          | Inl e \<Rightarrow> ethen (record_feedback i None (Some (decision_message e)))
              (eret (Inl (gate_err ''GATE_PROTOCOL_ERROR'' (decision_message e)))))
     | _ \<Rightarrow> eret (Inl (gate_err ''STALE_GENERATION'' (js ''no active review for this reviewer''))))"

definition reviewer_review_name :: "gate_task \<Rightarrow> panel \<Rightarrow> panel_member \<Rightarrow> jstring" where
  "reviewer_review_name t p m = (if length (gt_reviewers t) = 1 then pn_review p
     else pn_review p @ js ''/reviewer-'' @ nat_text (pm_index m + 1))"

text \<open>\<open>startMembers\<close>, over the positions of the members still to look at.\<close>

fun start_loop :: "nat \<Rightarrow> agent_id list \<Rightarrow> check_result list \<Rightarrow> nat list \<Rightarrow> unit gate_eff" where
  "start_loop serial rs evidence [] = finish_panel serial"
| "start_loop serial rs evidence (i # is) = ebind eget (\<lambda>c. let t = ce_task c in
     case (gt_review t, gt_candidate t) of
       (Some p, Some cand) \<Rightarrow>
         if gt_terminal t \<noteq> None \<or> pn_serial p \<noteq> serial \<or> pn_status p \<noteq> Review_running then eret ()
         else let m = pn_members p ! i in
           if pm_settled m \<or> pm_reviewer m \<notin> set rs then start_loop serial rs evidence is
           else ethen (ecatch
                  (do_call (Start_reviewer (pm_reviewer m) (gt_run t) (reviewer_review_name t p m) (pn_candidate p)
                    (build_review_prompt (ce_sha256 c) t cand evidence (list_ex (\<lambda>e. cr_exit e \<noteq> Some 0) evidence) (pm_index m))))
                  (\<lambda>e. execution_failed (pm_reviewer m) (snd e)))
                (start_loop serial rs evidence is)
     | _ \<Rightarrow> eret ())"

definition start_members :: "agent_id list \<Rightarrow> check_result list \<Rightarrow> unit gate_eff" where
  "start_members rs evidence = with_task (\<lambda>t. case gt_review t of None \<Rightarrow> eret ()
     | Some p \<Rightarrow> start_loop (pn_serial p) rs evidence [0..<length (pn_members p)])"

definition fresh_panel :: "nat \<Rightarrow> gate_task \<Rightarrow> candidate \<Rightarrow> panel" where
  "fresh_panel serial t cand =
     \<lparr>pn_serial = serial, pn_application = 0, pn_review = review_name (gt_rounds t), pn_status = Review_running,
      pn_candidate = cd_id cand, pn_used = False,
      pn_members = map (\<lambda>(i, r). \<lparr>pm_reviewer = r, pm_index = i, pm_status = Member_running, pm_used = False, pm_settled = False\<rparr>)
        (enumerate 0 (gt_reviewers t))\<rparr>"

definition new_review :: "panel gate_eff" where
  "new_review = ebind eget (\<lambda>c. let t = ce_task c in
     case gt_candidate t of
       Some cand \<Rightarrow>
         if length (gt_reviewers t) \<noteq> length (gs_reviewers (gt_spec t))
         then ethrow (gate_err ''INVALID'' (js ''candidate and complete reviewer panel required''))
         else ethen (emod (\<lambda>c. c\<lparr>ce_serial := ce_serial c + 1\<rparr>)) (eret (fresh_panel (ce_serial c) t cand))
     | None \<Rightarrow> ethrow (gate_err ''INVALID'' (js ''candidate and complete reviewer panel required'')))"

section \<open>Candidates and their checks\<close>

definition CHECK_EVIDENCE_HISTORY_MAX :: nat where
  "CHECK_EVIDENCE_HISTORY_MAX = 30"

definition retain_evidence :: "nat \<Rightarrow> check_evidence list \<Rightarrow> check_evidence list" where
  "retain_evidence n es = last_n (max CHECK_EVIDENCE_HISTORY_MAX n) es"

definition cut_output :: "nat \<Rightarrow> check_result \<Rightarrow> check_result" where
  "cut_output n r = r\<lparr>cr_output := take n (cr_output r)\<rparr>"

text \<open>\<open>runChecksAndReview\<close> after its last check.\<close>

definition finish_checks :: "check_result list \<Rightarrow> unit gate_eff" where
  "finish_checks evidence = with_task (\<lambda>t.
     ethen (do_call (Append (J_evidence (gt_agent t) (gt_run t) (gt_rounds t) (map (cut_output 2000) evidence))))
     (ethen (upd_task (\<lambda>t. t\<lparr>gt_evidence := retain_evidence (length evidence)
               (gt_evidence t @ map (\<lambda>r. \<lparr>ev_round = gt_rounds t, ev_result = cut_output 2000 r\<rparr>) evidence)\<rparr>))
     (with_task (\<lambda>t.
        if gt_terminal t \<noteq> None then eret ()
        else ebind new_review (\<lambda>p.
          ethen (upd_task (\<lambda>t. t\<lparr>gt_review := Some p\<rparr>))
         (ethen (do_call (Set_phase (gt_agent t) (gt_run t) Phase_reviewing))
           (start_members (gt_reviewers t) evidence)))))))"

definition admission_failed :: "gate_err \<Rightarrow> unit gate_eff" where
  "admission_failed e = terminate_quietly Out_error (js ''reviewer admission failed: '' @ snd e)"

definition check_next :: "gate_check list \<Rightarrow> check_result list \<Rightarrow> unit gate_eff" where
  "check_next todo evidence = ecatch (case todo of
     [] \<Rightarrow> finish_checks evidence
   | c # cs \<Rightarrow> with_task (\<lambda>t.
       if gt_terminal t \<noteq> None then eret ()
       else ethen (note_call (Run_check (gt_agent t) (gt_run t) c)) (await (Check_done (c # cs) evidence)))) admission_failed"

definition run_checks_and_review :: "unit gate_eff" where
  "run_checks_and_review = with_task (\<lambda>t. if gt_terminal t \<noteq> None then eret () else check_next (gs_checks (gt_spec t)) [])"

text \<open>The outcome of a check: an error message, or the exit code and the output.\<close>

type_synonym check_reply = "jstring + (int option \<times> jstring)"

definition check_done :: "gate_check list \<Rightarrow> check_result list \<Rightarrow> check_reply \<Rightarrow> unit gate_eff" where
  "check_done todo evidence reply = (case todo of [] \<Rightarrow> eret () | c # cs \<Rightarrow>
     check_next cs (evidence @ [case reply of
       Inr (code, output) \<Rightarrow> \<lparr>cr_id = ck_id c, cr_exit = code, cr_output = take 4000 output\<rparr>
     | Inl m \<Rightarrow> \<lparr>cr_id = ck_id c, cr_exit = None, cr_output = js ''check failed to run: '' @ m\<rparr>]))"

definition recheck_done :: "nat \<Rightarrow> nat \<Rightarrow> gate_check list \<Rightarrow> check_reply \<Rightarrow> unit gate_eff" where
  "recheck_done serial app todo reply = (case todo of [] \<Rightarrow> eret () | c # cs \<Rightarrow>
     (case reply of
        Inl m \<Rightarrow> await (Verified serial app (Some (js ''required check '' @ ck_id c @ js '' unavailable: '' @ m)))
      | Inr (code, output) \<Rightarrow>
          if code \<noteq> Some 0
          then await (Verified serial app (Some (js ''required check '' @ ck_id c @ js '' failed (exit '' @ exit_text code @ js '')'')))
          else recheck_next serial app cs))"

text \<open>\<open>candidateSettled\<close> once the candidate is built: it is recorded and its round admitted.\<close>

definition set_candidate :: "candidate \<Rightarrow> jstring \<Rightarrow> gate_task \<Rightarrow> gate_task" where
  "set_candidate cand text t = t\<lparr>gt_candidate := Some cand, gt_response := take 4000 text, gt_reserved := False\<rparr>"

definition set_round :: "jstring \<Rightarrow> gate_task \<Rightarrow> gate_task" where
  "set_round summary t = t\<lparr>gt_history := gt_history t @ [summary],
     gt_warning := (if gt_history t \<noteq> [] \<and> last (gt_history t) = summary
       then Some (js ''round '' @ nat_text (gt_rounds t + 1) @ js '': candidate unchanged since previous round; no implicit stop applied'')
       else gt_warning t), gt_rounds := gt_rounds t + 1\<rparr>"

definition admit_round :: "gate_task \<Rightarrow> bool gate_eff" where
  "admit_round t = (case gs_max_rounds (gt_spec t) of
     Some m \<Rightarrow>
       if m < int (gt_rounds t)
       then ethen (terminate Out_limit (js ''round '' @ nat_text (gt_rounds t) @ js '' exceeds maxRounds '' @ int_text m)) (eret False)
       else ethen (do_call (Set_phase (gt_agent t) (gt_run t) Phase_review_queued)) (eret True)
   | None \<Rightarrow> ethen (do_call (Set_phase (gt_agent t) (gt_run t) Phase_review_queued)) (eret True))"

definition record_candidate :: "candidate \<Rightarrow> jstring \<Rightarrow> jstring \<Rightarrow> bool gate_eff" where
  "record_candidate cand summary text = with_task (\<lambda>t.
     ethen (upd_task (set_candidate cand text))
    (ethen (do_call (Append (J_candidate (gt_agent t) (gt_run t) cand (take 8000 text))))
    (ethen (upd_task (set_round summary))
    (ethen (do_call (Append (J_round_admitted (gt_agent t) (gt_run t) (gt_rounds t + 1) (cd_id cand) (Some summary) None)))
      (with_task admit_round)))))"

definition freeze_candidate :: "int \<Rightarrow> jstring \<Rightarrow> bool gate_eff" where
  "freeze_candidate generation text = with_task (\<lambda>t.
     ebind (host_call (Fingerprint_workspace (gt_agent t) (gs_outputs (gt_spec t)))) (\<lambda>a.
     ebind (host_call Now_iso) (\<lambda>now. ebind eget (\<lambda>c.
       record_candidate
         \<lparr>cd_id = js ''candidate-'' @ nat_text (gt_rounds t + 1), cd_run = gt_run t, cd_generation = generation,
          cd_base = fp_base (an_fingerprint a), cd_rubric = gs_rubric (gt_spec t),
          cd_result_ref = js ''task:'' @ gt_run t @ js '':gen:'' @ int_text generation,
          cd_fingerprint = an_fingerprint a, cd_created = an_text now\<rparr>
         (fingerprint_summary (ce_sha256 c) (an_fingerprint a)) text))))"

definition candidate_settled :: "agent_id \<Rightarrow> int \<Rightarrow> jstring \<Rightarrow> unit gate_eff" where
  "candidate_settled agent generation text = with_task (\<lambda>t.
     if gt_terminal t \<noteq> None \<or> gt_agent t \<noteq> agent then eret ()
     else ebind (ecatch (freeze_candidate generation text) (\<lambda>e.
            ethen (terminate Out_error (js ''candidate recording failed: '' @ snd e)) (eret False)))
          (\<lambda>go. if go then run_checks_and_review else eret ()))"

section \<open>Interruption, recovery and controls\<close>

text \<open>\<open>interruptForAgent\<close> on one task.\<close>

definition interrupted_panel :: "nat \<Rightarrow> panel \<Rightarrow> panel" where
  "interrupted_panel i p = (upd_member i (\<lambda>m. m\<lparr>pm_status := Member_interrupted\<rparr>) p)\<lparr>pn_status := Review_interrupted\<rparr>"

definition interrupt_for_agent :: "agent_id \<Rightarrow> bool \<Rightarrow> unit gate_eff" where
  "interrupt_for_agent agent main_active = with_task (\<lambda>t.
     if gt_terminal t \<noteq> None then eret ()
     else if agent \<in> set (gt_reviewers t) then
       ethen (case member_of t agent of
           Some (i, m) \<Rightarrow> if pm_status m = Member_running
             then upd_task (upd_review (interrupted_panel i))
             else eret ()
         | None \<Rightarrow> eret ()) (note_call (Cancel_reviewer agent))
     else if gt_agent t \<noteq> agent then eret ()
     else if \<not> main_active then terminate Out_interrupted (js ''gated task interrupted during review/repair'')
     else eeach (\<lambda>r. note_call (Cancel_reviewer r)) (gt_reviewers t))"

definition recovered_member :: "panel_member \<Rightarrow> panel_member" where
  "recovered_member m =
     m\<lparr>pm_status := (if pm_status m = Member_running then Member_interrupted else pm_status m),
       pm_settled := (pm_settled m \<or> pm_status m = Member_decided \<or> pm_status m = Member_failed)\<rparr>"

definition recovered_panel :: "panel \<Rightarrow> panel" where
  "recovered_panel p = p\<lparr>pn_application := pn_application p + 1, pn_status := Review_interrupted, pn_used := False,
     pn_members := map recovered_member (pn_members p)\<rparr>"

definition mark_interrupted_for_recovery :: "unit gate_eff" where
  "mark_interrupted_for_recovery = with_task (\<lambda>t.
     case (gt_terminal t, gt_review t) of
       (None, Some p) \<Rightarrow>
         if gt_repair t = Some (repair_name (pn_review p)) then eret ()
         else upd_task (upd_review recovered_panel)
     | _ \<Rightarrow> eret ())"

definition resumed_member :: "panel_member \<Rightarrow> panel_member" where
  "resumed_member m = m\<lparr>pm_status := (if pm_status m = Member_interrupted then Member_running else pm_status m)\<rparr>"

definition resumed_panel :: "panel \<Rightarrow> panel" where
  "resumed_panel p = p\<lparr>pn_status := Review_running, pn_used := False, pn_members := map resumed_member (pn_members p)\<rparr>"

definition resume_review :: "jstring \<Rightarrow> unit gate_eff" where
  "resume_review review = with_task (\<lambda>t.
     if gt_terminal t \<noteq> None then ethrow (gate_err ''NOT_FOUND'' (js ''no nonterminal gated task '' @ gt_run t))
     else case gt_review t of
       None \<Rightarrow> ethrow (gate_err ''NOT_FOUND'' (js ''no interrupted review '' @ review @ js '' to resume''))
     | Some p \<Rightarrow>
       if pn_review p \<noteq> review \<or> pn_status p \<noteq> Review_interrupted \<or> gt_repair t = Some (repair_name review)
       then ethrow (gate_err ''NOT_FOUND'' (js ''no interrupted review '' @ review @ js '' to resume''))
       else ebind (case gt_candidate t of None \<Rightarrow> eret False
                   | Some cand \<Rightarrow> ebind (host_call (Workspace_matches (gt_agent t) cand)) (\<lambda>a. eret (an_flag a))) (\<lambda>ok.
         if \<not> ok then ethrow (gate_err ''CONFLICT'' (js ''recorded candidate no longer matches; cannot resume''))
         else ethen (upd_task (upd_review resumed_panel))
             (ethen (do_call (Set_phase (gt_agent t) (gt_run t) Phase_reviewing))
               (start_members (map pm_reviewer (filter (\<lambda>m. pm_status m = Member_interrupted) (pn_members p)))
                 (map ev_result (filter (\<lambda>e. ev_round e = gt_rounds t) (gt_evidence t)))))))"

text \<open>\<open>setLimits\<close> with an integer or \<open>null\<close> (the tool's schema admits nothing else), under the policy's ceiling.\<close>

definition set_gate_limits :: "int option \<Rightarrow> int option \<Rightarrow> jstring \<Rightarrow> unit gate_eff" where
  "set_gate_limits ceil limit command = with_task (\<lambda>t.
     if gt_terminal t \<noteq> None then ethrow (gate_err ''NOT_FOUND'' (js ''no nonterminal gated task '' @ gt_run t))
     else case limit of
       None \<Rightarrow> if ceil \<noteq> None then ethrow (gate_err ''POLICY_DENIED'' (js ''root policy forbids unlimited rounds''))
               else ethen (upd_task (\<lambda>t. t\<lparr>gt_spec := (gt_spec t)\<lparr>gs_max_rounds := None\<rparr>\<rparr>))
                     (do_call (Append (J_limits (gt_agent t) (gt_run t) None command)))
     | Some m \<Rightarrow>
       if m \<le> 0 then ethrow (gate_err ''INVALID'' (js ''maxRounds must be a positive integer or null''))
       else if (case ceil of None \<Rightarrow> False | Some k \<Rightarrow> k < m)
       then ethrow (gate_err ''POLICY_DENIED'' (js ''maxRounds exceeds root ceiling '' @ (case ceil of None \<Rightarrow> [] | Some k \<Rightarrow> int_text k)))
       else if m < int (gt_rounds t)
       then ethrow (gate_err ''INVALID'' (js ''cannot cap below admitted rounds ('' @ nat_text (gt_rounds t) @ js '')''))
       else if gt_reserved t \<and> m < int (gt_rounds t) + 1
       then ethrow (gate_err ''RESERVED_ROUND_CONFLICT'' (js ''repair for round '' @ nat_text (gt_rounds t + 1) @
              js '' already reserved; new cap '' @ int_text m @ js '' excludes it''))
       else if (case gt_review t of Some p \<Rightarrow> pn_status p = Review_running \<and> m < int (gt_rounds t) | None \<Rightarrow> False)
       then ethrow (gate_err ''RESERVED_ROUND_CONFLICT'' (js ''cannot decrease below the admitted round mid-evaluation''))
       else ethen (upd_task (\<lambda>t. t\<lparr>gt_spec := (gt_spec t)\<lparr>gs_max_rounds := Some m\<rparr>\<rparr>))
             (do_call (Append (J_limits (gt_agent t) (gt_run t) (Some m) command))))"

definition link_task :: "agent_id \<Rightarrow> gate_task \<Rightarrow> gate_task" where
  "link_task r t = t\<lparr>gt_reviewer := (case gt_reviewer t of None \<Rightarrow> Some r | Some x \<Rightarrow> Some x), gt_reviewers := set_add r (gt_reviewers t)\<rparr>"

definition restored_member :: "gate_task \<Rightarrow> panel_member \<Rightarrow> panel_member" where
  "restored_member t m =
     (case List.find (\<lambda>f. fb_round f = gt_rounds t \<and> fb_reviewer f = pm_reviewer m) (gt_feedback t) of
        None \<Rightarrow> m\<lparr>pm_status := Member_interrupted, pm_used := False, pm_settled := False\<rparr>
      | Some f \<Rightarrow> m\<lparr>pm_status := (if fb_verdict f \<noteq> None then Member_decided else Member_failed),
                    pm_used := (fb_verdict f \<noteq> None), pm_settled := True\<rparr>)"

definition restore_review :: "unit gate_eff" where
  "restore_review = with_task (\<lambda>t.
     if gt_terminal t \<noteq> None \<or> gt_candidate t = None \<or> gt_rounds t = 0
        \<or> gt_repair t = Some (repair_name (review_name (gt_rounds t))) then eret ()
     else ebind new_review (\<lambda>p. upd_task (\<lambda>t. t\<lparr>gt_review :=
            Some (p\<lparr>pn_status := Review_interrupted, pn_members := map (restored_member t) (pn_members p)\<rparr>)\<rparr>)))"

section \<open>The life of a gated task\<close>

text \<open>The continuation \<open>n\<close> runs, with the outcome of what it awaited.\<close>

definition run_continuation :: "continuation \<Rightarrow> check_reply \<Rightarrow> unit gate_eff" where
  "run_continuation k reply = (case k of
     Check_done todo evidence \<Rightarrow> check_done todo evidence reply
   | Member_released serial i \<Rightarrow> (case reply of Inl m \<Rightarrow> cleanup_failed m | Inr _ \<Rightarrow> member_released serial i)
   | Recheck_done serial app todo \<Rightarrow> recheck_done serial app todo reply
   | Verified serial app problem \<Rightarrow> verified serial app problem
   | Application_failed serial app m \<Rightarrow> application_failed serial app m
   | Cleanup_failed m \<Rightarrow> cleanup_failed m)"

definition drop_nth :: "nat \<Rightarrow> 'a list \<Rightarrow> 'a list" where
  "drop_nth n xs = take n xs @ drop (Suc n) xs"

definition continue_with :: "nat \<Rightarrow> check_reply \<Rightarrow> unit gate_eff" where
  "continue_with n reply = ebind eget (\<lambda>c.
     if n < length (ce_pending c)
     then ethen (emod (\<lambda>c. c\<lparr>ce_pending := drop_nth n (ce_pending c)\<rparr>)) (run_continuation (ce_pending c ! n) reply)
     else eret ())"

datatype gate_event =
  Ev_candidate agent_id int jstring
| Ev_submit agent_id js_value
| Ev_failed agent_id jstring
| Ev_continue nat check_reply
| Ev_cancel gate_outcome
| Ev_interrupt agent_id bool
| Ev_recover
| Ev_resume jstring
| Ev_limits "int option" "int option" jstring
| Ev_restore
| Ev_reserve

definition gate_exec :: "gate_event \<Rightarrow> unit gate_eff" where
  "gate_exec e = (case e of
     Ev_candidate agent generation text \<Rightarrow> candidate_settled agent generation text
   | Ev_submit r raw \<Rightarrow> ebind (submit_decision r raw) (\<lambda>_. eret ())
   | Ev_failed r diagnostics \<Rightarrow> execution_failed r diagnostics
   | Ev_continue n reply \<Rightarrow> continue_with n reply
   | Ev_cancel outcome \<Rightarrow> cancel_task outcome
   | Ev_interrupt agent active \<Rightarrow> interrupt_for_agent agent active
   | Ev_recover \<Rightarrow> mark_interrupted_for_recovery
   | Ev_resume review \<Rightarrow> resume_review review
   | Ev_limits ceil limit command \<Rightarrow> set_gate_limits ceil limit command
   | Ev_restore \<Rightarrow> restore_review
   | Ev_reserve \<Rightarrow> upd_task (\<lambda>t. t\<lparr>gt_reserved := True\<rparr>))"

text \<open>
  What the supervisor keeps to: a gated run has a settled generation only as its first one or as a
  dispatched repair; it cancels a task with a failure outcome; it restores a review, and a repair
  reservation that the journal shows was not dispatched, when it has just imported the task.
\<close>

definition within_rounds :: "gate_task \<Rightarrow> nat \<Rightarrow> bool" where
  "within_rounds t n \<longleftrightarrow> (case gs_max_rounds (gt_spec t) of None \<Rightarrow> True | Some m \<Rightarrow> int n \<le> m)"

definition gate_enabled :: "gate_event \<Rightarrow> cell \<Rightarrow> bool" where
  "gate_enabled e c = (let t = ce_task c in case e of
     Ev_candidate agent generation text \<Rightarrow> gt_terminal t \<noteq> None \<or> gt_reserved t \<or> gt_rounds t = 0
   | Ev_cancel outcome \<Rightarrow> outcome \<noteq> Out_passed
   | Ev_restore \<Rightarrow> gt_review t = None \<and> ce_pending c = []
   | Ev_reserve \<Rightarrow> gt_review t = None \<and> ce_pending c = [] \<and> gt_repair t = Some (repair_name (review_name (gt_rounds t)))
                  \<and> 0 < gt_rounds t \<and> within_rounds t (gt_rounds t + 1)
   | _ \<Rightarrow> True)"

text \<open>\<open>register\<close>, \<open>retryReview\<close> and \<open>importTask\<close>, on the cell they create.\<close>

definition new_task :: "agent_id \<Rightarrow> run_id \<Rightarrow> gate_spec \<Rightarrow> jstring \<Rightarrow> agent_id list \<Rightarrow> gate_task" where
  "new_task agent run spec text rs =
     \<lparr>gt_agent = agent, gt_run = run, gt_text = text, gt_spec = spec, gt_rounds = 0,
      gt_reviewer = (case rs of [] \<Rightarrow> None | r # _ \<Rightarrow> Some r), gt_reviewers = rs, gt_candidate = None, gt_review = None,
      gt_feedback = [], gt_findings = [], gt_response = [], gt_reserved = False, gt_repair = None, gt_terminal = None,
      gt_linked = None, gt_evidence = [], gt_history = [], gt_warning = None\<rparr>"

definition new_cell :: "gate_task \<Rightarrow> (nat \<Rightarrow> host_answer) \<Rightarrow> (jstring \<Rightarrow> jstring) \<Rightarrow> cell" where
  "new_cell t h sha = \<lparr>ce_task = t, ce_pending = [], ce_serial = 0, ce_log = [], ce_host = h, ce_sha256 = sha\<rparr>"

text \<open>The end of \<open>retryReview\<close>: the verified candidate is reviewed again, without main work.\<close>

definition retry_task :: "run_id \<Rightarrow> gate_spec \<Rightarrow> agent_id list \<Rightarrow> gate_task \<Rightarrow> gate_task" where
  "retry_task run spec rs prior =
     (new_task (gt_agent prior) run spec (gt_text prior) rs)\<lparr>gt_response := gt_response prior, gt_linked := Some (gt_run prior)\<rparr>"

definition start_retry :: "gate_task \<Rightarrow> candidate \<Rightarrow> unit gate_eff" where
  "start_retry prior cand =
     ethen (upd_task (\<lambda>t. t\<lparr>gt_candidate := Some (cand\<lparr>cd_run := gt_run t\<rparr>), gt_findings := gt_findings prior, gt_rounds := 1\<rparr>))
       (with_task (\<lambda>t.
     ethen (do_call (Append (J_round_admitted (gt_agent t) (gt_run t) 1 (cd_id cand) None (Some (gt_run prior)))))
    (ethen (do_call (Append (J_candidate (gt_agent t) (gt_run t) (cand\<lparr>cd_run := gt_run t\<rparr>) (take 8000 (gt_response prior)))))
    (ethen (do_call (Set_phase (gt_agent t) (gt_run t) Phase_review_queued)) run_checks_and_review))))"

text \<open>The reports of one member in the current round, and the state a journal may be restored to.\<close>

definition reports :: "gate_task \<Rightarrow> nat \<Rightarrow> gate_feedback list" where
  "reports t i = filter (\<lambda>f. fb_round f = gt_rounds t \<and> fb_index f = i) (gt_feedback t)"

fun decision_candidate :: "gate_decision \<Rightarrow> jstring" where
  "decision_candidate (Approve c _) = c"
| "decision_candidate (Revise c _ _) = c"
| "decision_candidate (Blocked c _ _) = c"

fun has_blockers :: "gate_decision \<Rightarrow> bool" where
  "has_blockers (Revise _ bs _) = (bs \<noteq> [])"
| "has_blockers _ = True"

definition report_ok :: "jstring \<Rightarrow> gate_feedback \<Rightarrow> bool" where
  "report_ok cand f = (case fb_verdict f of
     None \<Rightarrow> fb_error f \<noteq> None
   | Some d \<Rightarrow> fb_error f = None \<and> decision_candidate d = cand \<and> has_blockers d)"

fun sole_approval :: "jstring \<Rightarrow> gate_feedback list \<Rightarrow> bool" where
  "sole_approval cand [f] = (case fb_verdict f of Some (Approve c _) \<Rightarrow> c = cand | _ \<Rightarrow> False)"
| "sole_approval cand _ = False"

definition unanimous :: "gate_task \<Rightarrow> bool" where
  "unanimous t \<longleftrightarrow> gs_mode (gt_spec t) = Gate_mode \<and>
     (case gt_candidate t of None \<Rightarrow> False
      | Some cand \<Rightarrow> list_all (\<lambda>i. sole_approval (cd_id cand) (reports t i)) [0..<length (gs_reviewers (gt_spec t))])"

definition restorable :: "gate_task \<Rightarrow> bool" where
  "restorable t \<longleftrightarrow> (case gt_candidate t of None \<Rightarrow> True
     | Some cand \<Rightarrow> list_all (\<lambda>i. length (reports t i) \<le> 1 \<and> list_all (report_ok (cd_id cand)) (reports t i) \<and>
          reports t i = filter (\<lambda>f. fb_round f = gt_rounds t \<and> fb_reviewer f = gt_reviewers t ! i) (gt_feedback t))
        [0..<length (gt_reviewers t)])"

definition importable :: "gate_task \<Rightarrow> bool" where
  "importable t \<longleftrightarrow> gt_review t = None \<and> \<not> gt_reserved t \<and>
     (gt_terminal t = Some Out_passed \<longrightarrow> unanimous t) \<and>
     (gt_terminal t = None \<longrightarrow>
       (case gs_max_rounds (gt_spec t) of None \<Rightarrow> True | Some m \<Rightarrow> 0 < m) \<and> within_rounds t (gt_rounds t) \<and>
       list_all (\<lambda>f. fb_round f \<le> gt_rounds t) (gt_feedback t) \<and> (gt_rounds t = 0 \<longrightarrow> gt_feedback t = []) \<and>
       (case gt_repair t of None \<Rightarrow> True | Some r \<Rightarrow> list_ex (\<lambda>k. r = repair_name (review_name k)) [0..<gt_rounds t + 1]) \<and>
       restorable t)"

inductive gate_reach :: "cell \<Rightarrow> bool" where
  registered: "rounds_wf policy (gs_max_rounds spec) \<Longrightarrow> gate_reach (new_cell (new_task agent run spec text rs) h sha)"
| retried: "rounds_wf policy (gs_max_rounds spec) \<Longrightarrow>
    gate_reach (snd (start_retry prior cand (new_cell (retry_task run spec rs prior) h sha)))"
| imported: "importable t \<Longrightarrow> gate_reach (new_cell t h sha)"
| step: "gate_reach c \<Longrightarrow> gate_enabled e c \<Longrightarrow> gate_reach (snd (gate_exec e c))"

end
