(* ===== verification/GateInvariant.thy ===== *)
theory GateInvariant
  imports GatePanel
begin

text \<open>
  The invariant of a gated task, over every interleaving of verdicts, failed executions, released
  reviewers, finished checks, interruptions, recoveries and controls, with any answers of the
  supervisor.
\<close>

section \<open>The invariant\<close>

fun repair_of :: "host_request \<Rightarrow> jstring list" where
  "repair_of (Append (J_repair _ _ review _ _ _)) = [review]"
| "repair_of _ = []"

definition repairs :: "host_request list \<Rightarrow> jstring list" where
  "repairs ks = concat (map repair_of ks)"

lemma repairs_simps [simp]: "repairs [] = []" "repairs (xs @ ys) = repairs xs @ repairs ys" "repairs (k # ks) = repair_of k @ repairs ks"
  by (simp_all add: repairs_def)

definition reported :: "panel_member \<Rightarrow> bool" where
  "reported m \<longleftrightarrow> pm_status m = Member_decided \<or> pm_status m = Member_failed"

definition member_ok :: "gate_task \<Rightarrow> jstring \<Rightarrow> panel_member \<Rightarrow> bool" where
  "member_ok t cand m \<longleftrightarrow>
     (if reported m then \<exists>f. reports t (pm_index m) = [f] \<and> report_ok cand f else reports t (pm_index m) = [] \<and> \<not> pm_settled m)"

definition live :: "gate_task \<Rightarrow> panel \<Rightarrow> bool" where
  "live t p \<longleftrightarrow> gt_repair t \<noteq> Some (repair_name (pn_review p))"

definition panel_ok :: "gate_task \<Rightarrow> panel \<Rightarrow> bool" where
  "panel_ok t p \<longleftrightarrow> map pm_index (pn_members p) = [0..<length (gs_reviewers (gt_spec t))] \<and>
     pn_review p = review_name (gt_rounds t) \<and> (\<exists>cand. gt_candidate t = Some cand \<and> pn_candidate p = cd_id cand) \<and>
     (\<forall>m\<in>set (pn_members p). member_ok t (pn_candidate p) m)"

definition panel_done :: "gate_task \<Rightarrow> panel \<Rightarrow> bool" where
  "panel_done t p \<longleftrightarrow> pn_status p = Review_decided \<and> (\<forall>m\<in>set (pn_members p). reported m) \<and>
     (\<exists>k\<le>gt_rounds t. pn_review p = review_name k)"

definition review_ok :: "gate_task \<Rightarrow> nat \<Rightarrow> bool" where
  "review_ok t sn \<longleftrightarrow> (case gt_review t of None \<Rightarrow> True | Some p \<Rightarrow>
     pn_serial p < sn \<and> (if live t p then panel_ok t p else panel_done t p) \<and>
     (pn_status p = Review_decided \<longrightarrow> (\<forall>m\<in>set (pn_members p). pm_settled m)))"

text \<open>A pending approval is at most the current application of its panel, and then it is unanimous.\<close>

definition approval_ok :: "gate_task \<Rightarrow> nat \<Rightarrow> nat \<Rightarrow> nat \<Rightarrow> bool" where
  "approval_ok t sn s a \<longleftrightarrow> s < sn \<and> (case gt_review t of None \<Rightarrow> True | Some p \<Rightarrow>
     pn_serial p = s \<longrightarrow> a \<le> pn_application p \<and>
       (a = pn_application p \<longrightarrow> pn_status p = Review_decided \<and> live t p \<and> unanimous t))"

fun continuation_ok :: "gate_task \<Rightarrow> nat \<Rightarrow> continuation \<Rightarrow> bool" where
  "continuation_ok t sn (Recheck_done s a _) = approval_ok t sn s a"
| "continuation_ok t sn (Verified s a _) = approval_ok t sn s a"
| "continuation_ok t sn (Member_released s i) = (s < sn \<and> (case gt_review t of None \<Rightarrow> True | Some p \<Rightarrow>
     pn_serial p = s \<longrightarrow> i < length (pn_members p) \<and> reported (pn_members p ! i)))"
| "continuation_ok t sn (Check_done todo _) = (todo \<noteq> [])"
| "continuation_ok t sn _ = True"

fun is_check :: "continuation \<Rightarrow> bool" where
  "is_check (Check_done _ _) = True"
| "is_check _ = False"

definition checks_pending :: "continuation list \<Rightarrow> nat" where
  "checks_pending ks = length (filter is_check ks)"

text \<open>What a task whose candidate is being checked has: no review of this round, and no report.\<close>

definition unreviewed :: "gate_task \<Rightarrow> bool" where
  "unreviewed t \<longleftrightarrow> \<not> gt_reserved t \<and> 0 < gt_rounds t \<and> (\<forall>f\<in>set (gt_feedback t). fb_round f < gt_rounds t) \<and>
     gt_repair t \<noteq> Some (repair_name (review_name (gt_rounds t))) \<and>
     (case gt_review t of None \<Rightarrow> True | Some p \<Rightarrow> \<not> live t p)"

definition rounds_ok :: "gate_task \<Rightarrow> bool" where
  "rounds_ok t \<longleftrightarrow> (case gs_max_rounds (gt_spec t) of None \<Rightarrow> True | Some m \<Rightarrow> 0 < m) \<and>
     within_rounds t (gt_rounds t) \<and> (gt_reserved t \<longrightarrow> within_rounds t (gt_rounds t + 1)) \<and>
     (\<forall>f\<in>set (gt_feedback t). fb_round f \<le> gt_rounds t) \<and>
     (gt_rounds t = 0 \<longrightarrow> gt_review t = None \<and> gt_feedback t = []) \<and>
     (\<forall>r. gt_repair t = Some r \<longrightarrow> (\<exists>k\<le>gt_rounds t. r = repair_name (review_name k)))"

definition repairs_ok :: "gate_task \<Rightarrow> jstring list \<Rightarrow> bool" where
  "repairs_ok t rs \<longleftrightarrow> (\<forall>r\<in>set rs. \<exists>k. 0 < k \<and> k \<le> gt_rounds t \<and> r = review_name k \<and>
     (k = gt_rounds t \<longrightarrow> gt_reserved t \<and> gt_repair t = Some (repair_name r)))"

text \<open>No review has two repairs, and a bounded gate has fewer repairs than rounds.\<close>

definition log_ok :: "gate_spec \<Rightarrow> jstring list \<Rightarrow> bool" where
  "log_ok s rs \<longleftrightarrow> distinct rs \<and> (case gs_max_rounds s of None \<Rightarrow> True | Some m \<Rightarrow> rs = [] \<or> int (length rs) < m)"

definition busy_ok :: "gate_task \<Rightarrow> nat \<Rightarrow> bool" where
  "busy_ok t n \<longleftrightarrow> n \<le> 1 \<and> (n = 1 \<longrightarrow> unreviewed t) \<and> (n = 0 \<longrightarrow> gt_review t = None \<longrightarrow> restorable t) \<and>
     (gt_reserved t \<longrightarrow> 0 < gt_rounds t \<and> gt_repair t = Some (repair_name (review_name (gt_rounds t))))"

text \<open>The part that holds between the checks of a candidate too.\<close>

definition core_ok :: "gate_task \<Rightarrow> continuation list \<Rightarrow> nat \<Rightarrow> jstring list \<Rightarrow> bool" where
  "core_ok t ks sn rs \<longleftrightarrow> rounds_ok t \<and> review_ok t sn \<and> list_all (continuation_ok t sn) ks \<and> repairs_ok t rs"

definition task_inv :: "gate_task \<Rightarrow> continuation list \<Rightarrow> nat \<Rightarrow> jstring list \<Rightarrow> bool" where
  "task_inv t ks sn rs \<longleftrightarrow> log_ok (gt_spec t) rs \<and> (gt_terminal t = Some Out_passed \<longrightarrow> unanimous t) \<and>
     (gt_terminal t = None \<longrightarrow> core_ok t ks sn rs \<and> busy_ok t (checks_pending ks))"

definition gate_inv :: "cell \<Rightarrow> bool" where
  "gate_inv c \<longleftrightarrow> task_inv (ce_task c) (ce_pending c) (ce_serial c) (repairs (ce_log c))"

section \<open>Names\<close>

lemma review_name_eq [simp]: "review_name m = review_name n \<longleftrightarrow> m = n"
  by (simp add: review_name_def nat_text_def)

lemma repair_name_eq [simp]: "repair_name a = repair_name b \<longleftrightarrow> a = b"
  by (simp add: repair_name_def)

lemma repairs_bound:
  assumes "repairs_ok t rs" and "rounds_ok t" and "distinct rs"
  shows "log_ok (gt_spec t) rs"
proof -
  define n where "n = (if gt_reserved t then gt_rounds t else gt_rounds t - 1)"
  have sub: "set rs \<subseteq> review_name ` {1..n}"
    using assms(1) by (fastforce simp: repairs_ok_def n_def le_less)
  have "length rs = card (set rs)" using assms(3) by (simp add: distinct_card)
  also have "\<dots> \<le> card (review_name ` {1..n})" using sub by (intro card_mono) auto
  also have "\<dots> \<le> n" using card_image_le [of "{1..n}" review_name] by simp
  finally have len: "length rs \<le> n" .
  have "rs = [] \<or> int (length rs) < m" if m: "gs_max_rounds (gt_spec t) = Some m" for m
  proof (cases "n = 0")
    case False
    then have "int n + 1 \<le> m" using assms(2) m by (auto simp: n_def rounds_ok_def within_rounds_def)
    with len show ?thesis by linarith
  qed (use len in simp)
  with assms(3) show ?thesis by (simp add: log_ok_def split: option.split)
qed

section \<open>What the parts depend on\<close>

lemma reports_simps [simp]:
  "reports (t\<lparr>gt_terminal := a\<rparr>) = reports t" "reports (t\<lparr>gt_review := b\<rparr>) = reports t"
  "reports (t\<lparr>gt_spec := c\<rparr>) = reports t" "reports (t\<lparr>gt_findings := d\<rparr>) = reports t"
  "reports (t\<lparr>gt_repair := e\<rparr>) = reports t" "reports (t\<lparr>gt_reserved := f\<rparr>) = reports t"
  "reports (t\<lparr>gt_evidence := g\<rparr>) = reports t" "reports (t\<lparr>gt_candidate := h\<rparr>) = reports t"
  by (simp_all add: reports_def fun_eq_iff)

lemma unanimous_simps [simp]:
  "unanimous (t\<lparr>gt_terminal := a\<rparr>) = unanimous t" "unanimous (t\<lparr>gt_review := b\<rparr>) = unanimous t"
  "unanimous (t\<lparr>gt_findings := d\<rparr>) = unanimous t" "unanimous (t\<lparr>gt_repair := e\<rparr>) = unanimous t"
  "unanimous (t\<lparr>gt_reserved := f\<rparr>) = unanimous t" "unanimous (t\<lparr>gt_evidence := g\<rparr>) = unanimous t"
  "unanimous (t\<lparr>gt_spec := (gt_spec t)\<lparr>gs_max_rounds := m\<rparr>\<rparr>) = unanimous t"
  by (simp_all add: unanimous_def split: option.split)

lemma restorable_simps [simp]:
  "restorable (t\<lparr>gt_terminal := a\<rparr>) = restorable t" "restorable (t\<lparr>gt_review := b\<rparr>) = restorable t"
  "restorable (t\<lparr>gt_findings := d\<rparr>) = restorable t" "restorable (t\<lparr>gt_repair := e\<rparr>) = restorable t"
  "restorable (t\<lparr>gt_reserved := f\<rparr>) = restorable t" "restorable (t\<lparr>gt_evidence := g\<rparr>) = restorable t"
  "restorable (t\<lparr>gt_spec := h\<rparr>) = restorable t"
  by (simp_all add: restorable_def split: option.split)

section \<open>Calls\<close>

lemma post_host_call [post_simps]:
  "post (host_call k) Q c \<longleftrightarrow>
     (let a = ce_host c (length (ce_log c)); d = c\<lparr>ce_log := ce_log c @ [k]\<rparr> in
      case an_error a of Some m \<Rightarrow> Q (Inl (js ''HOST'', m)) d | None \<Rightarrow> Q (Inr a) d)"
  by (simp add: post_def host_call_def Let_def split: option.splits)

lemma post_note_call [post_simps]: "post (note_call k) Q c \<longleftrightarrow> Q (Inr ()) (c\<lparr>ce_log := ce_log c @ [k]\<rparr>)"
  by (simp add: note_call_def post_simps)

lemma post_await [post_simps]: "post (await k) Q c \<longleftrightarrow> Q (Inr ()) (c\<lparr>ce_pending := ce_pending c @ [k]\<rparr>)"
  by (simp add: await_def post_simps)

lemma post_upd_task [post_simps]: "post (upd_task f) Q c \<longleftrightarrow> Q (Inr ()) (c\<lparr>ce_task := f (ce_task c)\<rparr>)"
  by (simp add: upd_task_def post_simps)

lemma post_with_task [post_simps]: "post (with_task f) Q c \<longleftrightarrow> post (f (ce_task c)) Q c"
  by (simp add: with_task_def post_simps)

text \<open>A call that is not a repair order leaves what the invariant looks at alone.\<close>

definition same_view :: "cell \<Rightarrow> cell \<Rightarrow> bool" where
  "same_view c d \<longleftrightarrow> ce_task d = ce_task c \<and> ce_pending d = ce_pending c \<and> ce_serial d = ce_serial c \<and>
     repairs (ce_log d) = repairs (ce_log c)"

lemma same_view_refl [simp]: "same_view c c"
  by (simp add: same_view_def)

lemma same_view_trans: "same_view b c \<Longrightarrow> same_view c d \<Longrightarrow> same_view b d"
  by (simp add: same_view_def)

lemma same_view_inv: "same_view c d \<Longrightarrow> gate_inv d = gate_inv c"
  by (simp add: same_view_def gate_inv_def)

lemma post_do_call:
  assumes "repair_of k = []" and "\<And>r d. same_view c d \<Longrightarrow> Q r d"
  shows "post (do_call k) Q c"
  using assms by (simp add: do_call_def post_simps Let_def same_view_def split: option.splits)

lemma post_do_call_then:
  assumes "repair_of k = []" and "\<And>e d. same_view c d \<Longrightarrow> Q (Inl e) d" and "\<And>d. same_view c d \<Longrightarrow> post m Q d"
  shows "post (ethen (do_call k) m) Q c"
  unfolding post_ethen by (rule post_do_call) (use assms in \<open>auto split: sum.split\<close>)

lemma post_cancel_all:
  assumes "\<And>d. same_view c d \<Longrightarrow> Q (Inr ()) d"
  shows "post (eeach (\<lambda>r. note_call (Cancel_reviewer r)) rs) Q c"
  using assms
proof (induction rs arbitrary: c)
  case Nil
  then show ?case by (simp add: post_simps)
next
  case (Cons r rs)
  show ?case
    by (simp add: post_simps, rule Cons.IH, rule Cons.prems) (auto simp: same_view_def)
qed

section \<open>Termination\<close>

lemma task_inv_terminal:
  "log_ok (gt_spec t) rs \<Longrightarrow> gt_terminal t = Some outcome \<Longrightarrow> (outcome = Out_passed \<Longrightarrow> unanimous t) \<Longrightarrow> task_inv t ks sn rs"
  by (simp add: task_inv_def)


lemma post_terminate:
  assumes "log_ok (gt_spec (ce_task c)) (repairs (ce_log c))" and "gt_terminal (ce_task c) \<noteq> None \<Longrightarrow> gate_inv c"
    and "outcome = Out_passed \<Longrightarrow> unanimous (ce_task c)"
    and "\<And>r d. gate_inv d \<Longrightarrow> gt_terminal (ce_task d) \<noteq> None \<Longrightarrow> Q r d"
  shows "post (terminate outcome detail) Q c"
proof -
  define c1 where "c1 = c\<lparr>ce_task := (ce_task c)\<lparr>gt_terminal := Some outcome, gt_review := None\<rparr>\<rparr>"
  have Q: "Q r e" if "same_view c1 d" "same_view d e" for r d e
    by (intro assms(4)) (use same_view_trans [OF that] assms(1,3) in \<open>auto simp: c1_def gate_inv_def same_view_def task_inv_def\<close>)
  have "post (ethen (upd_task (\<lambda>t. t\<lparr>gt_terminal := Some outcome, gt_review := None\<rparr>))
         (ethen (eeach (\<lambda>r. note_call (Cancel_reviewer r)) rs) (do_call (Settle_task agent run outcome detail)))) Q c" for rs agent run
    by (simp add: post_simps) (auto simp flip: c1_def intro!: post_cancel_all post_do_call Q)
  with assms(2,4) show ?thesis
    unfolding terminate_def post_with_task by (auto simp: post_eret)
qed

lemma gate_inv_distinct: "gate_inv c \<Longrightarrow> log_ok (gt_spec (ce_task c)) (repairs (ce_log c))"
  by (simp add: gate_inv_def task_inv_def)

lemma terminate_keeps:
  assumes "outcome \<noteq> Out_passed" shows "keeps gate_inv (terminate outcome detail)"
  using assms by (auto intro!: keepsI post_terminate dest: gate_inv_distinct)

lemma terminate_quietly_keeps:
  assumes "outcome \<noteq> Out_passed" shows "keeps gate_inv (terminate_quietly outcome detail)"
  unfolding terminate_quietly_def using assms by (intro keeps_ecatch terminate_keeps) auto

section \<open>Steps inside the invariant\<close>

text \<open>The invariant looks at nine fields of the task.\<close>

definition task_key :: "gate_task \<Rightarrow> _" where
  "task_key t = (gt_spec t, gt_rounds t, gt_reviewers t, gt_candidate t, gt_review t, gt_feedback t, gt_reserved t,
     gt_repair t, gt_terminal t)"

lemma task_key_reports: "task_key t = task_key u \<Longrightarrow> reports t = reports u"
  by (simp add: task_key_def reports_def fun_eq_iff)

lemma task_key_parts:
  assumes "task_key t = task_key u"
  shows "unanimous t = unanimous u" "restorable t = restorable u" "live t = live u" "panel_ok t = panel_ok u"
    "panel_done t = panel_done u" "rounds_ok t = rounds_ok u" "repairs_ok t = repairs_ok u" "unreviewed t = unreviewed u"
proof -
  note r = task_key_reports [OF assms]
  show l: "live t = live u" using assms by (simp add: task_key_def live_def fun_eq_iff)
  show "unanimous t = unanimous u" "restorable t = restorable u" "panel_ok t = panel_ok u" "panel_done t = panel_done u"
    "rounds_ok t = rounds_ok u" "repairs_ok t = repairs_ok u" "unreviewed t = unreviewed u"
    using assms r l
    by (simp_all add: task_key_def unanimous_def restorable_def panel_ok_def panel_done_def member_ok_def rounds_ok_def
        within_rounds_def repairs_ok_def unreviewed_def fun_eq_iff split: option.split)
qed

lemma task_key_inv:
  assumes "task_key t = task_key u"
  shows "task_inv t ks sn rs = task_inv u ks sn rs" "core_ok t ks sn rs = core_ok u ks sn rs"
proof -
  have a: "approval_ok t = approval_ok u" and v: "review_ok t = review_ok u"
    using assms by (simp_all add: approval_ok_def review_ok_def task_key_parts [OF assms] task_key_def fun_eq_iff
        split: option.split)
  have "continuation_ok t n k = continuation_ok u n k" for n k
    using a assms by (cases k) (simp_all add: task_key_def)
  then have c: "continuation_ok t = continuation_ok u" by (simp add: fun_eq_iff)
  show core: "core_ok t ks sn rs = core_ok u ks sn rs"
    using v c by (simp add: core_ok_def task_key_parts [OF assms])
  show "task_inv t ks sn rs = task_inv u ks sn rs"
    using core assms by (simp add: task_inv_def busy_ok_def task_key_parts [OF assms] task_key_def)
qed

lemma checks_pending_simps [simp]:
  "checks_pending [] = 0" "checks_pending (ks @ ls) = checks_pending ks + checks_pending ls"
  "checks_pending (k # ks) = (if is_check k then 1 else 0) + checks_pending ks"
  by (simp_all add: checks_pending_def)

lemma gate_inv_await:
  assumes "gate_inv c" and "\<not> is_check k" and "gt_terminal (ce_task c) = None \<Longrightarrow> continuation_ok (ce_task c) (ce_serial c) k"
  shows "gate_inv (c\<lparr>ce_pending := ce_pending c @ [k]\<rparr>)"
  using assms by (simp add: gate_inv_def task_inv_def core_ok_def)

lemma gate_inv_log: "gate_inv c \<Longrightarrow> repair_of k = [] \<Longrightarrow> gate_inv (c\<lparr>ce_log := ce_log c @ [k]\<rparr>)"
  by (simp add: gate_inv_def)

lemma await_keeps: "\<not> is_check k \<Longrightarrow> (\<And>t n. continuation_ok t n k) \<Longrightarrow> keeps gate_inv (await k)"
  by (auto intro!: keepsI gate_inv_await simp: post_await)

lemma do_call_keeps: "repair_of k = [] \<Longrightarrow> keeps gate_inv (do_call k)"
  by (intro keepsI post_do_call) (auto simp: same_view_inv)

lemma note_call_keeps: "repair_of k = [] \<Longrightarrow> keeps gate_inv (note_call k)"
  by (auto intro!: keepsI gate_inv_log simp: post_note_call)

lemma cancel_all_keeps: "keeps gate_inv (eeach (\<lambda>r. note_call (Cancel_reviewer r)) rs)"
  by (intro keeps_eeach note_call_keeps) simp

lemma with_task_keeps: "(\<And>t. keeps gate_inv (f t)) \<Longrightarrow> keeps gate_inv (with_task f)"
  unfolding with_task_def by (intro keeps_ebind keeps_eget)

lemma with_task_post: "(\<And>c. gate_inv c \<Longrightarrow> post (f (ce_task c)) (\<lambda>_. gate_inv) c) \<Longrightarrow> keeps gate_inv (with_task f)"
  by (intro keepsI) (simp add: post_with_task)

section \<open>Decisions\<close>

lemma recheck_next_inv:
  assumes "gate_inv c" and "gt_terminal (ce_task c) = None \<Longrightarrow> approval_ok (ce_task c) (ce_serial c) s a"
  shows "post (recheck_next s a todo) (\<lambda>_. gate_inv) c"
proof (cases todo)
  case Nil
  with assms show ?thesis by (simp add: recheck_next_def post_simps gate_inv_await)
next
  case (Cons k ks)
  have "gate_inv (c\<lparr>ce_log := l\<rparr>)" if "repairs l = repairs (ce_log c)" for l
    using assms(1) that by (simp add: gate_inv_def)
  from gate_inv_await [OF this] gate_inv_await [OF assms(1)] Cons assms(2) show ?thesis
    by (simp add: recheck_next_def post_simps)
qed

lemma applyingD: "applying t s a \<Longrightarrow> \<exists>p. gt_review t = Some p \<and> pn_serial p = s \<and> pn_status p = Review_decided \<and>
    pn_application p = a \<and> gt_terminal t = None"
  by (auto simp: applying_def split: option.splits)

lemma verified_keeps:
  assumes c: "gate_inv c" and a: "gt_terminal (ce_task c) = None \<Longrightarrow> approval_ok (ce_task c) (ce_serial c) s a"
  shows "post (verified s a problem) (\<lambda>_. gate_inv) c"
proof -
  have u: "unanimous (ce_task c)" if "applying (ce_task c) s a"
    using a applyingD [OF that] by (auto simp: approval_ok_def)
  have t: "post (ecatch (terminate outcome detail) (\<lambda>e. await (Application_failed s a (snd e)))) (\<lambda>_. gate_inv) c"
    if "outcome = Out_passed \<Longrightarrow> unanimous (ce_task c)" for outcome detail
    unfolding post_ecatch using c that
    by (intro post_terminate) (auto simp: post_simps gate_inv_await gate_inv_distinct split: sum.splits)
  show ?thesis
    using c t [OF u] t [of Out_error] unfolding verified_def
    by (auto simp: post_ecatch post_with_task post_eret split: option.splits if_splits)
qed

lemma application_failed_keeps: "keeps gate_inv (application_failed s a m)"
  unfolding application_failed_def by (intro with_task_keeps keeps_if terminate_quietly_keeps keeps_eret) simp

lemma cleanup_failed_keeps: "keeps gate_inv (cleanup_failed m)"
  unfolding cleanup_failed_def by (intro terminate_quietly_keeps) simp

section \<open>A panel whose members have all reported\<close>

lemma reportsD: "f \<in> set (reports t i) \<Longrightarrow> f \<in> set (gt_feedback t) \<and> fb_round f = gt_rounds t \<and> fb_index f = i"
  by (auto simp: reports_def)

lemma ordered_feedback_set [simp]:
  "f \<in> set (ordered_feedback t (Some n)) \<longleftrightarrow> f \<in> set (gt_feedback t) \<and> fb_round f = n"
  by (auto simp: ordered_feedback_def)

lemma panel_decision_approve:
  assumes "panel_decision cand fs = Approve c as" and "f \<in> set fs" and "fb_verdict f = Some d" and "has_blockers d"
  shows "\<exists>c' as'. d = Approve c' as'"
proof (cases d)
  case (Revise c' bs as')
  with assms show ?thesis by (auto simp: panel_decision_def Let_def split: if_splits)
next
  case (Blocked c' r ps)
  with assms show ?thesis by (auto simp: panel_decision_def Let_def split: if_splits)
qed simp

lemma panel_member_at:
  assumes "panel_ok t p" and "i < length (gs_reviewers (gt_spec t))"
  shows "i < length (pn_members p)" "pm_index (pn_members p ! i) = i" "pn_members p ! i \<in> set (pn_members p)"
proof -
  have m: "map pm_index (pn_members p) = [0..<length (gs_reviewers (gt_spec t))]"
    using assms(1) by (simp add: panel_ok_def)
  then have "length (pn_members p) = length (gs_reviewers (gt_spec t))" by (metis length_map length_upt diff_zero)
  with assms(2) show i: "i < length (pn_members p)" by simp
  have "map pm_index (pn_members p) ! i = i" using m assms(2) by simp
  with i show "pm_index (pn_members p ! i) = i" "pn_members p ! i \<in> set (pn_members p)" by auto
qed

lemma panel_unanimous:
  assumes p: "panel_ok t p" and r: "\<forall>m\<in>set (pn_members p). reported m" and m: "gs_mode (gt_spec t) = Gate_mode"
    and e: "filter (\<lambda>f. fb_error f \<noteq> None) (ordered_feedback t (Some (gt_rounds t))) = []"
    and d: "panel_decision cand (ordered_feedback t (Some (gt_rounds t))) = Approve c as"
  shows "unanimous t"
proof -
  obtain k where k: "gt_candidate t = Some k" "pn_candidate p = cd_id k" using p by (auto simp: panel_ok_def)
  have "sole_approval (cd_id k) (reports t i)" if i: "i < length (gs_reviewers (gt_spec t))" for i
  proof -
    note mi = panel_member_at [OF p i]
    have "member_ok t (cd_id k) (pn_members p ! i)" using p mi(3) k(2) by (simp add: panel_ok_def)
    with r mi obtain f where f: "reports t i = [f]" "report_ok (cd_id k) f" by (auto simp: member_ok_def)
    then have fs: "f \<in> set (ordered_feedback t (Some (gt_rounds t)))" using reportsD [of f t i] by simp
    with e have "fb_error f = None" by (auto simp: filter_empty_conv)
    with f(2) obtain v where v: "fb_verdict f = Some v" "decision_candidate v = cd_id k" "has_blockers v"
      by (auto simp: report_ok_def split: option.splits)
    from panel_decision_approve [OF d fs v(1,3)] v f(1) show ?thesis by auto
  qed
  with m k(1) show ?thesis by (simp add: unanimous_def list_all_iff)
qed

section \<open>Applying a decision\<close>

text \<open>The state in which a fresh application of a decided live panel starts.\<close>

definition decided_now :: "cell \<Rightarrow> panel \<Rightarrow> bool" where
  "decided_now c p \<longleftrightarrow> gate_inv c \<and> gt_terminal (ce_task c) = None \<and> gt_review (ce_task c) = Some p \<and>
     pn_status p = Review_decided \<and> live (ce_task c) p \<and>
     (\<forall>k\<in>set (ce_pending c). \<forall>a todo problem. k = Recheck_done (pn_serial p) a todo \<or> k = Verified (pn_serial p) a problem
        \<longrightarrow> a < pn_application p)"

lemma live_panel_facts:
  assumes "task_inv t ks sn rs" and "gt_terminal t = None" and "gt_review t = Some p" and "live t p"
  shows "panel_ok t p" "pn_serial p < sn" "checks_pending ks = 0" "\<not> gt_reserved t" "gt_rounds t \<noteq> 0"
    "pn_review p = review_name (gt_rounds t)" "pn_review p \<notin> set rs"
    "pn_status p = Review_decided \<Longrightarrow> m \<in> set (pn_members p) \<Longrightarrow> reported m \<and> pm_settled m"
proof -
  have core: "core_ok t ks sn rs" "busy_ok t (checks_pending ks)" using assms by (auto simp: task_inv_def)
  then have v: "review_ok t sn" by (simp add: core_ok_def)
  with assms show p: "panel_ok t p" "pn_serial p < sn" by (auto simp: review_ok_def)
  then show n: "pn_review p = review_name (gt_rounds t)" by (simp add: panel_ok_def)
  show "checks_pending ks = 0" using core(2) assms(3,4) by (auto simp: busy_ok_def unreviewed_def le_Suc_eq)
  show "\<not> gt_reserved t" using core(2) assms(4) n by (auto simp: busy_ok_def live_def)
  show "gt_rounds t \<noteq> 0" using core(1) assms(3) by (auto simp: core_ok_def rounds_ok_def)
  show "pn_review p \<notin> set rs" using core(1) assms(4) n by (auto simp: core_ok_def repairs_ok_def live_def)
  show "reported m \<and> pm_settled m" if "pn_status p = Review_decided" "m \<in> set (pn_members p)"
    using that v p assms(3,4) by (auto simp: review_ok_def panel_ok_def member_ok_def split: if_splits)
qed

lemma continuation_ok_repair:
  assumes "gt_review t = Some p"
    and "\<forall>a todo problem. k = Recheck_done (pn_serial p) a todo \<or> k = Verified (pn_serial p) a problem \<longrightarrow> a < pn_application p"
  shows "continuation_ok (t\<lparr>gt_repair := x, gt_reserved := y\<rparr>) sn k = continuation_ok t sn k"
  using assms by (cases k) (auto simp: approval_ok_def)

lemma repair_inv:
  assumes d: "decided_now c p" and w: "within_rounds (ce_task c) (gt_rounds (ce_task c) + 1)"
  shows "gate_inv (c\<lparr>ce_task := (ce_task c)\<lparr>gt_repair := Some (repair_name (pn_review p)), gt_reserved := True\<rparr>\<rparr>)" (is ?A)
    and "gate_inv (c\<lparr>ce_task := (ce_task c)\<lparr>gt_repair := Some (repair_name (pn_review p)), gt_reserved := True\<rparr>,
           ce_log := ce_log c @ [Append (J_repair a b (pn_review p) e f g)]\<rparr>)" (is ?B)
proof -
  define t where "t = ce_task c"
  define u where "u = t\<lparr>gt_repair := Some (repair_name (pn_review p)), gt_reserved := True\<rparr>"
  have inv: "task_inv t (ce_pending c) (ce_serial c) (repairs (ce_log c))" and p: "gt_terminal t = None" "gt_review t = Some p"
      "pn_status p = Review_decided" "live t p"
    using d by (auto simp: decided_now_def gate_inv_def t_def)
  note f = live_panel_facts [OF inv p(1,2,4)]
  have core: "core_ok t (ce_pending c) (ce_serial c) (repairs (ce_log c))" using inv p(1) by (simp add: task_inv_def)
  have ks: "list_all (continuation_ok u (ce_serial c)) (ce_pending c)"
    using core d continuation_ok_repair [OF p(2)] by (auto simp: core_ok_def list_all_iff decided_now_def u_def)
  have r: "rounds_ok u" using core w f(5) by (auto simp: core_ok_def rounds_ok_def within_rounds_def u_def t_def f(6))
  have "panel_done u p" using p(3) f(6,8) by (auto simp: panel_done_def u_def)
  then have v: "review_ok u (ce_serial c)"
    using p(2,3) f(2,8) by (auto simp: review_ok_def live_def u_def)
  have rs: "repairs_ok u (repairs (ce_log c))" "repairs_ok u (repairs (ce_log c) @ [pn_review p])"
    using core f(5,6,7) by (auto simp: core_ok_def repairs_ok_def u_def)
  have b: "busy_ok u 0" using f(5,6) p(2) by (simp add: busy_ok_def u_def)
  have ut: "gt_terminal u = None" using p(1) by (simp add: u_def)
  have ds: "distinct (repairs (ce_log c))" using inv by (simp add: task_inv_def log_ok_def)
  with f(7) have "distinct (repairs (ce_log c) @ [pn_review p])" by simp
  note lo = repairs_bound [OF rs(1) r ds] repairs_bound [OF rs(2) r this]
  from ks r v rs b ut f(3) lo have "task_inv u (ce_pending c) (ce_serial c) (repairs (ce_log c))"
    "task_inv u (ce_pending c) (ce_serial c) (repairs (ce_log c) @ [pn_review p])"
    by (simp_all add: task_inv_def core_ok_def)
  then show ?A ?B by (auto simp: gate_inv_def u_def t_def)
qed

lemma decided_now_key:
  assumes "decided_now c p" and "task_key (f (ce_task c)) = task_key (ce_task c)"
  shows "decided_now (c\<lparr>ce_task := f (ce_task c)\<rparr>) p"
  using assms task_key_inv [OF assms(2)] task_key_parts [OF assms(2)]
  by (simp add: decided_now_def gate_inv_def) (simp add: task_key_def)

lemma apply_revise_keeps:
  assumes d: "decided_now c p"
  shows "post (apply_revise bs as cand p) (\<lambda>_. gate_inv) c"
proof -
  define c1 where "c1 = c\<lparr>ce_task := (ce_task c)\<lparr>gt_findings := bs @ as\<rparr>\<rparr>"
  have d1: "decided_now c1 p"
    unfolding c1_def by (rule decided_now_key [OF d]) (simp add: task_key_def)
  then have g1: "gate_inv c1" and l1: "gt_repair (ce_task c1) \<noteq> Some (repair_name (pn_review p))"
    by (simp_all add: decided_now_def live_def)
  define t where "t = ce_task c1"
  define over where "over = (case gs_max_rounds (gt_spec t) of None \<Rightarrow> False | Some m \<Rightarrow> m \<le> int (gt_rounds t))"
  have w: "within_rounds t (gt_rounds t + 1)" if "\<not> over"
    using that by (auto simp: over_def within_rounds_def split: option.splits)
  have rep: "post (ethen (upd_task (\<lambda>t. t\<lparr>gt_repair := Some (repair_name (pn_review p)), gt_reserved := True\<rparr>))
      (ethen (do_call (Append (J_repair (gt_agent t) (gt_run t) (pn_review p) (repair_name (pn_review p)) n tx)))
        (do_call (Start_repair (gt_agent t) (gt_run t) crit)))) (\<lambda>_. gate_inv) c1" if "\<not> over" for n tx crit
    using repair_inv(2) [OF d1 w [OF that, unfolded t_def]]
    by (auto simp: post_simps do_call_def [of "Append x" for x] Let_def t_def intro!: keeps_post [OF do_call_keeps] split: option.splits)
  have lim: "post (terminate Out_limit x) (\<lambda>_. gate_inv) c1" for x
    using keeps_post [OF terminate_keeps g1] by simp
  show ?thesis
    unfolding apply_revise_def post_ethen post_upd_task sum.case c1_def [symmetric] post_with_task t_def [symmetric] over_def [symmetric]
    using l1 lim rep by (auto simp: Let_def t_def)
qed

lemma decided_now_approval:
  assumes "decided_now c p" and "unanimous (ce_task c)"
  shows "approval_ok (ce_task c) (ce_serial c) (pn_serial p) (pn_application p)"
  using assms live_panel_facts(2) [of "ce_task c" _ _ _ p]
  by (auto simp: approval_ok_def decided_now_def gate_inv_def)

lemma apply_decision_keeps:
  assumes d: "decided_now c p" and u: "\<And>k as. dec = Approve k as \<Longrightarrow> unanimous (ce_task c)"
  shows "post (apply_decision (pn_serial p) (pn_application p) dec) (\<lambda>_. gate_inv) c"
proof -
  have g: "gate_inv c" and p: "gt_review (ce_task c) = Some p" using d by (auto simp: decided_now_def)
  have t: "post (terminate outcome detail) (\<lambda>_. gate_inv) c'" if "outcome \<noteq> Out_passed" "gate_inv c'" for outcome detail c'
    using keeps_post [OF terminate_keeps] that by blast
  have r: "post (recheck_next (pn_serial p) (pn_application p) todo) (\<lambda>_. gate_inv) (c\<lparr>ce_log := ce_log c @ [Workspace_matches x y]\<rparr>)"
    if "unanimous (ce_task c)" for todo x y
    by (rule recheck_next_inv) (use g decided_now_approval [OF d that] in \<open>simp_all add: gate_inv_log\<close>)
  have ap: "post (ebind (host_call (Workspace_matches x y)) (\<lambda>a. if \<not> an_flag a
      then terminate Out_superseded z else recheck_next (pn_serial p) (pn_application p) todo)) (\<lambda>_. gate_inv) c"
    if "unanimous (ce_task c)" for x y z todo
    using r [OF that] t [OF _ gate_inv_log [OF g]] g
    by (auto simp: post_ebind post_host_call Let_def gate_inv_log split: option.splits)
  show ?thesis
    unfolding apply_decision_def post_with_task
    using g t [OF _ g] ap u apply_revise_keeps [OF d] p
    by (auto simp: post_eret split: option.splits gate_decision.splits)
qed

section \<open>The barrier\<close>

lemma decided_now_finish:
  assumes g: "gate_inv c" and p: "gt_terminal (ce_task c) = None" "gt_review (ce_task c) = Some p" "pn_status p \<noteq> Review_decided"
    and s: "\<forall>m\<in>set (pn_members p). pm_settled m" and a: "a \<ge> pn_application p"
  defines "q \<equiv> p\<lparr>pn_used := True, pn_status := Review_decided, pn_application := a\<rparr>"
  shows "decided_now (c\<lparr>ce_task := (ce_task c)\<lparr>gt_review := Some q\<rparr>\<rparr>) q" "panel_ok (ce_task c) p"
    "\<forall>m\<in>set (pn_members p). reported m"
proof -
  define t where "t = ce_task c"
  define u where "u = t\<lparr>gt_review := Some q\<rparr>"
  have inv: "task_inv t (ce_pending c) (ce_serial c) (repairs (ce_log c))" using g by (simp add: gate_inv_def t_def)
  have core: "core_ok t (ce_pending c) (ce_serial c) (repairs (ce_log c))" "busy_ok t (checks_pending (ce_pending c))"
    using inv p(1) by (auto simp: task_inv_def t_def)
  have v: "review_ok t (ce_serial c)" using core(1) by (simp add: core_ok_def)
  with p have l: "live t p" by (auto simp: review_ok_def panel_done_def t_def split: if_splits)
  note f = live_panel_facts [OF inv p(1,2) [folded t_def] l]
  show po: "panel_ok (ce_task c) p" using f(1) by (simp add: t_def)
  show rep: "\<forall>m\<in>set (pn_members p). reported m"
    using po s by (auto simp: panel_ok_def member_ok_def split: if_splits)
  have lq: "live u q" using l by (simp add: live_def u_def q_def)
  have pq: "panel_ok u q" using f(1) by (simp add: panel_ok_def u_def q_def member_ok_def)
  have lt: "b < pn_application p" if "k \<in> set (ce_pending c)" "k = Recheck_done (pn_serial p) b td \<or> k = Verified (pn_serial p) b pr" for k b td pr
    using that core(1) p by (auto simp: core_ok_def list_all_iff approval_ok_def t_def le_less split: option.splits)
  have ks: "list_all (continuation_ok u (ce_serial c)) (ce_pending c)"
    unfolding list_all_iff
  proof
    fix k assume k: "k \<in> set (ce_pending c)"
    with core(1) have "continuation_ok t (ce_serial c) k" by (simp add: core_ok_def list_all_iff)
    with lt [OF k] a p(2) show "continuation_ok u (ce_serial c) k"
      by (cases k) (fastforce simp: approval_ok_def u_def q_def t_def)+
  qed
  have "rounds_ok u" using core(1) f(5) by (simp add: core_ok_def rounds_ok_def within_rounds_def u_def)
  moreover have "review_ok u (ce_serial c)" using lq pq f(2) s by (simp add: review_ok_def u_def q_def)
  moreover have "repairs_ok u (repairs (ce_log c))" using core(1) by (simp add: core_ok_def repairs_ok_def u_def)
  moreover have "busy_ok u (checks_pending (ce_pending c))" using core(2) f(3) by (simp add: busy_ok_def u_def)
  moreover have "gt_terminal u = None" "log_ok (gt_spec u) (repairs (ce_log c))" using p(1) inv by (simp_all add: u_def t_def task_inv_def)
  ultimately have "task_inv u (ce_pending c) (ce_serial c) (repairs (ce_log c))"
    using ks by (simp add: task_inv_def core_ok_def)
  then show "decided_now (c\<lparr>ce_task := (ce_task c)\<lparr>gt_review := Some q\<rparr>\<rparr>) q"
    using lq lt a p(1) by (auto simp: decided_now_def gate_inv_def u_def t_def q_def dest: lt)
qed

lemma conclude_panel_keeps:
  assumes g: "gate_inv c" and fin: "gt_terminal (ce_task c) = None" "gt_review (ce_task c) = Some p"
    "pn_status p = Review_running" "\<forall>m\<in>set (pn_members p). pm_settled m"
  shows "post (conclude_panel (ce_task c) p) (\<lambda>_. gate_inv)
     (c\<lparr>ce_task := (ce_task c)\<lparr>gt_review := Some (p\<lparr>pn_used := True, pn_status := Review_decided\<rparr>)\<rparr>\<rparr>)"
proof -
  define t where "t = ce_task c"
  define q where "q = p\<lparr>pn_used := True, pn_status := Review_decided, pn_application := pn_application p + 1\<rparr>"
  define c2 where "c2 = c\<lparr>ce_task := t\<lparr>gt_review := Some q\<rparr>\<rparr>"
  have nd: "pn_status p \<noteq> Review_decided" using fin(3) by simp
  note dn = decided_now_finish [OF g fin(1,2) nd fin(4)]
  have d1: "gate_inv (c\<lparr>ce_task := t\<lparr>gt_review := Some (p\<lparr>pn_used := True, pn_status := Review_decided\<rparr>)\<rparr>\<rparr>)"
    using dn(1) [of "pn_application p"] by (simp add: decided_now_def t_def)
  then have tm: "post (terminate outcome detail) (\<lambda>_. gate_inv)
      (c\<lparr>ce_task := t\<lparr>gt_review := Some (p\<lparr>pn_used := True, pn_status := Review_decided\<rparr>)\<rparr>\<rparr>)" if "outcome \<noteq> Out_passed" for outcome detail
    using keeps_post [OF terminate_keeps] that by blast
  have d2: "decided_now c2 q" using dn(1) [of "pn_application p + 1"] by (simp add: c2_def q_def t_def)
  have ad: "post (ecatch (apply_decision (pn_serial q) (pn_application q) dec) (\<lambda>e. await (Application_failed (pn_serial q) (pn_application q) (snd e))))
      (\<lambda>_. gate_inv) c2" if "\<And>k as. dec = Approve k as \<Longrightarrow> unanimous t" for dec
    using apply_decision_keeps [OF d2, of dec] that
    unfolding post_ecatch by (auto elim!: post_mono simp: post_await gate_inv_await c2_def split: sum.splits)
  have un: "unanimous t" if "gs_mode (gt_spec t) \<noteq> Review_mode"
    "filter (\<lambda>f. fb_error f \<noteq> None) (ordered_feedback t (Some (gt_rounds t))) = []"
    "panel_decision k (ordered_feedback t (Some (gt_rounds t))) = Approve x y" for k x y
    using that panel_unanimous [OF dn(2,3) [OF order_refl] _ that(2,3) [unfolded t_def]]
    by (cases "gs_mode (gt_spec t)") (auto simp: t_def)
  show ?thesis
    using d1 tm ad un fin(2)
    by (auto simp: conclude_panel_def post_simps upd_review_def Let_def t_def [symmetric] c2_def q_def)
qed

lemma finish_panel_keeps: "keeps gate_inv (finish_panel serial)"
  unfolding finish_panel_def
  by (rule with_task_post)
    (auto simp: post_eret post_ethen post_upd_task upd_review_def list_all_iff conclude_panel_keeps split: option.split)

section \<open>Reports\<close>

text \<open>A panel with a member that has not reported is live, not decided, and no other work is under way.\<close>

lemma active_panel:
  assumes "task_inv t ks sn rs" and "gt_terminal t = None" and "gt_review t = Some p"
    and "m \<in> set (pn_members p)" and "\<not> reported m"
  shows "live t p" "pn_status p \<noteq> Review_decided"
proof -
  have v: "review_ok t sn" using assms(1,2) by (simp add: task_inv_def core_ok_def)
  then show l: "live t p" using assms(3-5) by (auto simp: review_ok_def panel_done_def split: if_splits)
  show "pn_status p \<noteq> Review_decided" using live_panel_facts(8) [OF assms(1-3) l] assms(4,5) by blast
qed

text \<open>A change of the members and the status of a live panel that keeps every position and report.\<close>

lemma panel_change:
  assumes inv: "task_inv t ks sn rs" and p: "gt_terminal t = None" "gt_review t = Some p" "live t p"
    and q: "pn_serial q = pn_serial p" "pn_review q = pn_review p" "pn_candidate q = pn_candidate p"
      "pn_application p \<le> pn_application q" "pn_status q \<noteq> Review_decided"
      "pn_application q = pn_application p \<Longrightarrow> pn_status p \<noteq> Review_decided"
    and m: "map pm_index (pn_members q) = map pm_index (pn_members p)"
      "\<And>i. i < length (pn_members p) \<Longrightarrow> reported (pn_members p ! i) \<Longrightarrow> reported (pn_members q ! i)"
    and u: "task_key u = task_key (t\<lparr>gt_review := Some q, gt_feedback := gt_feedback t @ fs\<rparr>)"
      "\<forall>f\<in>set fs. fb_round f = gt_rounds t" "\<forall>x\<in>set (pn_members q). member_ok u (pn_candidate q) x"
  shows "task_inv u ks sn rs"
proof -
  note f = live_panel_facts [OF inv p]
  have core: "core_ok t ks sn rs" "busy_ok t (checks_pending ks)" "log_ok (gt_spec t) rs" using inv p(1) by (auto simp: task_inv_def)
  note k = u(1) [unfolded task_key_def, simplified]
  have len: "length (pn_members q) = length (pn_members p)" using m(1) by (metis length_map)
  have lq: "live u q" using p(3) q(2) k by (simp add: live_def)
  have pq: "panel_ok u q" using f(1) u(3) k q(2,3) m(1) by (auto simp: panel_ok_def)
  have ks: "list_all (continuation_ok u sn) ks"
    unfolding list_all_iff
  proof
    fix x assume "x \<in> set ks"
    with core(1) have "continuation_ok t sn x" by (simp add: core_ok_def list_all_iff)
    with p(2) q(1,4,6) k m(2) len show "continuation_ok u sn x"
      by (cases x) (auto simp: approval_ok_def)
  qed
  moreover have "rounds_ok u" using core(1) f(5) k u(2) by (auto simp: core_ok_def rounds_ok_def within_rounds_def)
  moreover have "review_ok u sn" using lq pq f(2) q(1,5) k by (simp add: review_ok_def)
  moreover have "repairs_ok u rs" using core(1) k by (simp add: core_ok_def repairs_ok_def)
  moreover have "busy_ok u (checks_pending ks)" using core(2) f(3) k by (simp add: busy_ok_def)
  ultimately show ?thesis using core(3) p(1) k by (simp add: task_inv_def core_ok_def)
qed

lemma upd_member_simps [simp]:
  "pn_serial (upd_member i f p) = pn_serial p" "pn_review (upd_member i f p) = pn_review p"
  "pn_candidate (upd_member i f p) = pn_candidate p" "pn_application (upd_member i f p) = pn_application p"
  "pn_status (upd_member i f p) = pn_status p" "length (pn_members (upd_member i f p)) = length (pn_members p)"
  by (simp_all add: upd_member_def)

lemma upd_member_at: "i < length (pn_members p) \<Longrightarrow> pn_members (upd_member i f p) = (pn_members p)[i := f (pn_members p ! i)]"
  by (simp add: upd_member_def)

lemma reports_add:
  "reports (t\<lparr>gt_feedback := gt_feedback t @ [f]\<rparr>) i = reports t i @ (if fb_round f = gt_rounds t \<and> fb_index f = i then [f] else [])"
  by (simp add: reports_def)

lemma map_update_same: "f (g (xs ! i)) = f (xs ! i) \<Longrightarrow> map f (xs[i := g (xs ! i)]) = map f xs"
  by (metis list_update_beyond list_update_id map_update not_less nth_map)

lemma report_recorded:
  assumes inv: "task_inv t ks sn rs" and p: "gt_terminal t = None" "gt_review t = Some p"
    and i: "i < length (pn_members p)" "\<not> reported (pn_members p ! i)"
    and fb: "fb_round fb = gt_rounds t" "fb_index fb = pm_index (pn_members p ! i)" "report_ok (pn_candidate p) fb"
    and g: "\<And>m. pm_index (g m) = pm_index m" "\<And>m. reported (g m)"
  shows "task_inv (upd_review (upd_member i g) (t\<lparr>gt_feedback := gt_feedback t @ [fb]\<rparr>)) ks sn rs"
proof -
  have mi: "pn_members p ! i \<in> set (pn_members p)" using i(1) by simp
  note a = active_panel [OF inv p mi i(2)]
  note f = live_panel_facts [OF inv p a(1)]
  define q where "q = upd_member i g p"
  define u where "u = upd_review (upd_member i g) (t\<lparr>gt_feedback := gt_feedback t @ [fb]\<rparr>)"
  have u: "u = t\<lparr>gt_review := Some q, gt_feedback := gt_feedback t @ [fb]\<rparr>" using p(2) by (simp add: u_def upd_review_def q_def)
  have qm: "pn_members q = (pn_members p)[i := g (pn_members p ! i)]" using i(1) by (simp add: q_def upd_member_at)
  have idx: "map pm_index (pn_members p) = [0..<length (gs_reviewers (gt_spec t))]" using f(1) by (simp add: panel_ok_def)
  then have lp: "length (pn_members p) = length (gs_reviewers (gt_spec t))" by (metis length_map length_upt diff_zero)
  have pos: "pm_index (pn_members p ! j) = j" if "j < length (pn_members p)" for j
    using panel_member_at(2) [OF f(1)] that lp by simp
  have ri: "reports u j = reports t j @ (if j = i then [fb] else [])" for j
    using reports_add [of t fb j] fb(1,2) pos [OF i(1)] by (auto simp: u reports_def)
  have mok: "member_ok u (pn_candidate p) (pn_members q ! j)" if j: "j < length (pn_members p)" for j
  proof -
    have "pn_members p ! j \<in> set (pn_members p)" using j by simp
    with f(1) have old: "member_ok t (pn_candidate p) (pn_members p ! j)" unfolding panel_ok_def by blast
    show ?thesis
    proof (cases "j = i")
      case True
      with old i qm fb(3) ri pos [OF i(1)] show ?thesis by (simp add: member_ok_def g)
    next
      case False
      with old qm ri pos [OF j] show ?thesis by (auto simp: member_ok_def split: if_splits)
    qed
  qed
  have qlen: "length (pn_members q) = length (pn_members p)" by (simp add: q_def)
  have "task_inv u ks sn rs"
  proof (rule panel_change [OF inv p a(1), where q = q and fs = "[fb]"])
    show "map pm_index (pn_members q) = map pm_index (pn_members p)" unfolding qm by (rule map_update_same) (rule g)
    show "reported (pn_members q ! j)" if "j < length (pn_members p)" "reported (pn_members p ! j)" for j
      using that qm g by (cases "j = i") auto
    show "\<forall>x\<in>set (pn_members q). member_ok u (pn_candidate q) x"
      using mok qlen by (auto simp: in_set_conv_nth q_def)
  qed (use a(2) fb(1) in \<open>auto simp: q_def u\<close>)
  then show ?thesis by (simp add: u_def)
qed

lemma record_feedback_keeps:
  assumes g: "gate_inv c" and p: "gt_terminal (ce_task c) = None" "gt_review (ce_task c) = Some p"
    and i: "i < length (pn_members p)" "\<not> reported (pn_members p ! i)"
    and r: "case verdict of None \<Rightarrow> error \<noteq> None | Some d \<Rightarrow> error = None \<and> decision_candidate d = pn_candidate p \<and> has_blockers d"
  shows "post (record_feedback i verdict error) (\<lambda>_. gate_inv) c"
proof -
  define fb where "fb = \<lparr>fb_round = gt_rounds (ce_task c), fb_index = pm_index (pn_members p ! i), fb_reviewer = pm_reviewer (pn_members p ! i),
    fb_review = pn_review p, fb_candidate = pn_candidate p, fb_verdict = verdict, fb_error = error\<rparr>"
  define g where "g = report_member verdict"
  define upd where "upd = (\<lambda>t. upd_review (upd_member i g) (t\<lparr>gt_feedback := gt_feedback t @ [fb]\<rparr>))"
  have fb: "fb_round fb = gt_rounds (ce_task c)" "fb_index fb = pm_index (pn_members p ! i)" "report_ok (pn_candidate p) fb"
    using r by (auto simp: fb_def report_ok_def split: option.splits)
  have gm: "pm_index (g m) = pm_index m" "reported (g m)" for m by (simp_all add: g_def reported_def report_member_def)
  have rec: "gate_inv d \<and> gt_review (ce_task d) = Some (upd_member i g p) \<and> pn_serial p < ce_serial d"
    if "same_view (c\<lparr>ce_task := upd (ce_task c)\<rparr>) d" for d
  proof -
    have inv: "task_inv (ce_task c) (ce_pending c) (ce_serial c) (repairs (ce_log c))" using assms(1) by (simp add: gate_inv_def)
    have "task_inv (upd (ce_task c)) (ce_pending c) (ce_serial c) (repairs (ce_log c))"
      unfolding upd_def by (rule report_recorded [OF inv p i fb gm])
    moreover have "pn_serial p < ce_serial c" using inv p by (simp add: task_inv_def core_ok_def review_ok_def)
    ultimately show ?thesis using that p(2) by (simp add: same_view_def gate_inv_def upd_def upd_review_def)
  qed
  have released: "gate_inv (d\<lparr>ce_log := ce_log d @ [Cancel_reviewer z], ce_pending := ce_pending d @ [Member_released (pn_serial p) i]\<rparr>)"
    if "same_view (c\<lparr>ce_task := upd (ce_task c)\<rparr>) d" for d z
  proof -
    note x = rec [OF that]
    have "gate_inv (d\<lparr>ce_log := ce_log d @ [Cancel_reviewer z]\<rparr>)" using x by (simp add: gate_inv_log)
    then show ?thesis
      using gate_inv_await [of "d\<lparr>ce_log := ce_log d @ [Cancel_reviewer z]\<rparr>" "Member_released (pn_serial p) i"] x i(1) gm(2)
      by (simp add: upd_member_at)
  qed
  have tail: "post (ethen (do_call Feedback_recorded) (ethen (note_call (Cancel_reviewer z)) (await (Member_released (pn_serial p) i))))
      (\<lambda>_. gate_inv) (d\<lparr>ce_task := upd (ce_task d)\<rparr>)" if "same_view c d" for d z
  proof -
    have s: "same_view (c\<lparr>ce_task := upd (ce_task c)\<rparr>) (d\<lparr>ce_task := upd (ce_task d)\<rparr>)" using that by (simp add: same_view_def)
    show ?thesis
      unfolding post_ethen
    proof (rule post_do_call)
      fix res e assume "same_view (d\<lparr>ce_task := upd (ce_task d)\<rparr>) e"
      with s have se: "same_view (c\<lparr>ce_task := upd (ce_task c)\<rparr>) e" by (rule same_view_trans)
      show "case res of Inl x \<Rightarrow> gate_inv e | Inr x \<Rightarrow> post (note_call (Cancel_reviewer z))
          (\<lambda>r d. case r of Inl e \<Rightarrow> gate_inv d | Inr x \<Rightarrow> post (await (Member_released (pn_serial p) i)) (\<lambda>_. gate_inv) d) e"
        using rec [OF se] released [OF se] by (auto simp: post_simps split: sum.split)
    qed simp
  qed
  have "post (do_call (Append (J_feedback x y fb))) (\<lambda>r d. case r of Inl e \<Rightarrow> gate_inv d
      | Inr _ \<Rightarrow> post (ethen (upd_task upd) (ethen (do_call Feedback_recorded) (ethen (note_call (Cancel_reviewer z))
          (await (Member_released (pn_serial p) i))))) (\<lambda>_. gate_inv) d) c" for x y z
    by (rule post_do_call) (use tail assms(1) in \<open>auto simp: same_view_inv post_ethen post_upd_task split: sum.split\<close>)
  then show ?thesis
    unfolding record_feedback_def post_with_task p(2)
    by (simp add: Let_def fb_def [symmetric] g_def [symmetric] upd_def [symmetric] post_ethen)
qed

lemma find_indexD: "find_index P xs = Some i \<Longrightarrow> i < length xs \<and> P (xs ! i)"
  by (auto simp: find_index_def Let_def split: if_splits dest: nth_length_takeWhile)

lemma member_ofD:
  "member_of t r = Some (i, m) \<Longrightarrow> \<exists>p. gt_review t = Some p \<and> i < length (pn_members p) \<and> m = pn_members p ! i \<and> pm_reviewer m = r"
  by (auto simp: member_of_def split: option.splits dest: find_indexD)

lemma gate_inv_candidate:
  assumes "gate_inv c" and "gt_terminal (ce_task c) = None" and "gt_review (ce_task c) = Some p"
    and "m \<in> set (pn_members p)" and "\<not> reported m" and "gt_candidate (ce_task c) = Some cand"
  shows "pn_candidate p = cd_id cand"
proof -
  have inv: "task_inv (ce_task c) (ce_pending c) (ce_serial c) (repairs (ce_log c))" using assms(1) by (simp add: gate_inv_def)
  from live_panel_facts(1) [OF inv assms(2,3) active_panel(1) [OF inv assms(2-5)]] assms(6) show ?thesis
    by (auto simp: panel_ok_def)
qed

lemma execution_failed_keeps: "keeps gate_inv (execution_failed r diagnostics)"
  unfolding execution_failed_def
proof (rule with_task_post)
  fix c assume g: "gate_inv c"
  show "post (case member_of (ce_task c) r of None \<Rightarrow> eret () | Some (i, m) \<Rightarrow>
     if gt_terminal (ce_task c) \<noteq> None \<or> pm_status m \<noteq> Member_running \<or> pm_used m then eret ()
     else record_feedback i None (Some (js ''reviewer execution failed: '' @ take 1000 diagnostics))) (\<lambda>_. gate_inv) c"
    using g by (auto simp: post_eret reported_def split: option.split dest!: member_ofD intro!: record_feedback_keeps)
qed

lemma validated_candidate:
  "validate_gate_decision raw cand paths checks = Inr d \<Longrightarrow> decision_candidate d = cand \<and> has_blockers d"
  by (drule validate_gate_decision_wf) (cases d, auto)

lemma submit_decision_keeps: "keeps gate_inv (submit_decision r raw)"
  unfolding submit_decision_def
proof (rule with_task_post)
  fix c assume g: "gate_inv c"
  have rec: "post (ethen (record_feedback i verdict error) (eret x)) (\<lambda>_. gate_inv) c"
    if op: "gt_terminal (ce_task c) = None" and cand: "gt_candidate (ce_task c) = Some cand"
      and mem: "member_of (ce_task c) r = Some (i, m)" and run: "pm_status m = Member_running"
      and ok: "case verdict of None \<Rightarrow> error \<noteq> None | Some d \<Rightarrow> error = None \<and> decision_candidate d = cd_id cand \<and> has_blockers d"
    for i m cand verdict error x
  proof -
    obtain p where p: "gt_review (ce_task c) = Some p" "i < length (pn_members p)" "m = pn_members p ! i"
      using member_ofD [OF mem] by blast
    have nr: "\<not> reported (pn_members p ! i)" using run p(3) by (simp add: reported_def)
    have "pn_candidate p = cd_id cand"
      using gate_inv_candidate [OF g op p(1) _ nr cand] p(2) by simp
    with ok have "post (record_feedback i verdict error) (\<lambda>_. gate_inv) c"
      by (intro record_feedback_keeps [OF g op p(1,2) nr]) (auto split: option.splits)
    then show ?thesis unfolding post_ethen by (rule post_mono) (auto simp: post_eret split: sum.split)
  qed
  show "post (case (gt_terminal (ce_task c), gt_candidate (ce_task c), member_of (ce_task c) r) of
       (None, Some cand, Some (i, m)) \<Rightarrow>
         if pm_status m \<noteq> Member_running \<or> pm_used m \<or> pm_settled m
         then eret (Inl (gate_err ''DUPLICATE_REQUEST'' (js ''one decision submission per review execution'')))
         else (case validate_gate_decision raw (cd_id cand) (map mf_path (fp_files (cd_fingerprint cand)))
                      (map ck_id (gs_checks (gt_spec (ce_task c)))) of
            Inr d \<Rightarrow> ethen (record_feedback i (Some d) None) (eret (Inr ()))
          | Inl e \<Rightarrow> ethen (record_feedback i None (Some (decision_message e)))
              (eret (Inl (gate_err ''GATE_PROTOCOL_ERROR'' (decision_message e)))))
     | _ \<Rightarrow> eret (Inl (gate_err ''STALE_GENERATION'' (js ''no active review for this reviewer'')))) (\<lambda>_. gate_inv) c"
    using g by (auto simp: post_eret split: option.split sum.split intro!: rec dest!: validated_candidate)
qed

section \<open>Starting reviewers and releasing them\<close>

lemma start_loop_keeps: "keeps gate_inv (start_loop serial rs evidence is)"
proof (induction "is")
  case Nil
  then show ?case by (simp add: finish_panel_keeps)
next
  case (Cons i "is")
  have s: "keeps gate_inv (ethen (ecatch (do_call (Start_reviewer a b d e f)) (\<lambda>x. execution_failed a (snd x))) (start_loop serial rs evidence is))"
    for a b d e f by (intro keeps_ethen keeps_ecatch do_call_keeps execution_failed_keeps Cons.IH) simp
  show ?case unfolding start_loop.simps
    by (intro keeps_ebind keeps_eget) (auto simp: Let_def Cons.IH s split: option.split)
qed

lemma start_members_keeps: "keeps gate_inv (start_members rs evidence)"
  unfolding start_members_def
  by (intro with_task_keeps) (auto simp: start_loop_keeps split: option.split)

lemma settle_inv:
  assumes g: "gate_inv c" and p: "gt_terminal (ce_task c) = None" "gt_review (ce_task c) = Some p"
    and i: "i < length (pn_members p)" "reported (pn_members p ! i)"
  shows "gate_inv (c\<lparr>ce_task := upd_review (upd_member i (\<lambda>m. m\<lparr>pm_settled := True\<rparr>)) (ce_task c)\<rparr>)"
proof (cases "pm_settled (pn_members p ! i)")
  case True
  then have "(pn_members p ! i)\<lparr>pm_settled := True\<rparr> = pn_members p ! i" by (cases "pn_members p ! i") simp
  then have "upd_member i (\<lambda>m. m\<lparr>pm_settled := True\<rparr>) p = p" by (cases p) (simp add: upd_member_def)
  then have "upd_review (upd_member i (\<lambda>m. m\<lparr>pm_settled := True\<rparr>)) (ce_task c) = ce_task c"
    using p(2) by (cases "ce_task c") (simp add: upd_review_def)
  with g show ?thesis by simp
next
  case False
  define t where "t = ce_task c"
  define f where "f = (\<lambda>m::panel_member. m\<lparr>pm_settled := True\<rparr>)"
  define q where "q = upd_member i f p"
  have inv: "task_inv t (ce_pending c) (ce_serial c) (repairs (ce_log c))" using g by (simp add: gate_inv_def t_def)
  then have v: "review_ok t (ce_serial c)" using p(1) by (simp add: task_inv_def core_ok_def t_def)
  have nd: "pn_status p \<noteq> Review_decided"
    using v p(2) i(1) False by (auto simp: review_ok_def t_def)
  with v p(2) have l: "live t p" by (auto simp: review_ok_def panel_done_def t_def split: if_splits)
  have qm: "pn_members q = (pn_members p)[i := f (pn_members p ! i)]" using i(1) by (simp add: q_def upd_member_at)
  have po: "panel_ok t p" using live_panel_facts(1) [OF inv p [folded t_def] l] .
  have "task_inv (t\<lparr>gt_review := Some q\<rparr>) (ce_pending c) (ce_serial c) (repairs (ce_log c))"
  proof (rule panel_change [OF inv p [folded t_def] l, where q = q and fs = "[]"])
    show "map pm_index (pn_members q) = map pm_index (pn_members p)" unfolding qm by (rule map_update_same) (simp add: f_def)
    show "reported (pn_members q ! j)" if "j < length (pn_members p)" "reported (pn_members p ! j)" for j
      using that qm by (cases "j = i") (auto simp: f_def reported_def)
    show "\<forall>x\<in>set (pn_members q). member_ok (t\<lparr>gt_review := Some q\<rparr>) (pn_candidate q) x"
    proof
      fix x assume "x \<in> set (pn_members q)"
      then have "x \<in> set (pn_members p) \<or> x = f (pn_members p ! i)"
        unfolding qm using set_update_subset_insert by (metis insert_iff subsetD)
      moreover have "member_ok t (pn_candidate p) y" if "y \<in> set (pn_members p)" for y
        using po that by (simp add: panel_ok_def)
      ultimately show "member_ok (t\<lparr>gt_review := Some q\<rparr>) (pn_candidate q) x"
        using i by (auto simp: member_ok_def f_def reported_def q_def)
    qed
  qed (use nd in \<open>auto simp: q_def task_key_def\<close>)
  moreover have "upd_review (upd_member i f) (ce_task c) = t\<lparr>gt_review := Some q\<rparr>"
    using p(2) by (simp add: upd_review_def q_def t_def)
  ultimately show ?thesis by (simp add: gate_inv_def f_def)
qed

lemma member_released_post:
  assumes g: "gate_inv c" and k: "gt_terminal (ce_task c) = None \<Longrightarrow> continuation_ok (ce_task c) (ce_serial c) (Member_released s i)"
  shows "post (member_released s i) (\<lambda>_. gate_inv) c"
proof -
  have f: "post (ecatch (finish_panel s) (\<lambda>e. await (Cleanup_failed (snd e)))) (\<lambda>_. gate_inv) d" if "gate_inv d" for d
    using that by (intro keeps_post [OF keeps_ecatch]) (auto intro: finish_panel_keeps await_keeps)
  show ?thesis
    unfolding member_released_def post_with_task
    using g k f [OF settle_inv [OF g]] by (auto simp: post_eret post_ethen post_upd_task split: option.split)
qed

section \<open>Checks of a candidate\<close>

text \<open>The state between the checks of a candidate, and the one in which a task may be terminated.\<close>

definition in_checks :: "cell \<Rightarrow> bool" where
  "in_checks c \<longleftrightarrow> log_ok (gt_spec (ce_task c)) (repairs (ce_log c)) \<and> (gt_terminal (ce_task c) = Some Out_passed \<longrightarrow> unanimous (ce_task c)) \<and>
     (gt_terminal (ce_task c) = None \<longrightarrow>
        core_ok (ce_task c) (ce_pending c) (ce_serial c) (repairs (ce_log c)) \<and> checks_pending (ce_pending c) = 0 \<and>
        unreviewed (ce_task c))"

definition closable :: "cell \<Rightarrow> bool" where
  "closable c \<longleftrightarrow> log_ok (gt_spec (ce_task c)) (repairs (ce_log c)) \<and> (gt_terminal (ce_task c) \<noteq> None \<longrightarrow> gate_inv c)"

lemma closable_if: "gate_inv c \<Longrightarrow> closable c" "in_checks c \<Longrightarrow> closable c"
  by (auto simp: closable_def in_checks_def gate_inv_def task_inv_def)

lemma checking_terminal: "in_checks c \<Longrightarrow> gt_terminal (ce_task c) \<noteq> None \<Longrightarrow> gate_inv c"
  by (auto simp: in_checks_def gate_inv_def task_inv_def)

lemma terminate_closable: "closable c \<Longrightarrow> outcome \<noteq> Out_passed \<Longrightarrow> post (terminate outcome detail) (\<lambda>_. gate_inv) c"
  by (intro post_terminate) (auto simp: closable_def)

lemma admission_failed_closable: "closable c \<Longrightarrow> post (admission_failed e) (\<lambda>_. gate_inv) c"
  unfolding admission_failed_def terminate_quietly_def post_ecatch
  by (rule post_mono, rule terminate_closable) (auto simp: post_eret split: sum.split)

lemma same_view_checking: "same_view c d \<Longrightarrow> in_checks d = in_checks c"
  by (simp add: same_view_def in_checks_def)

lemma checking_key:
  assumes "task_key (f (ce_task c)) = task_key (ce_task c)" and "in_checks c"
  shows "in_checks (c\<lparr>ce_task := f (ce_task c)\<rparr>)"
  using assms(2) task_key_inv [OF assms(1)] task_key_parts [OF assms(1)] assms(1)
  by (simp add: in_checks_def) (simp add: task_key_def)

lemma fresh_panel_members:
  "map pm_index (pn_members (fresh_panel n t cand)) = [0..<length (gt_reviewers t)]"
  "m \<in> set (pn_members (fresh_panel n t cand)) \<Longrightarrow> \<not> reported m \<and> \<not> pm_settled m"
proof -
  have "map pm_index (pn_members (fresh_panel n t cand)) = map fst (enumerate 0 (gt_reviewers t))"
    by (simp add: fresh_panel_def comp_def split_beta)
  then show "map pm_index (pn_members (fresh_panel n t cand)) = [0..<length (gt_reviewers t)]"
    by (simp add: map_fst_enumerate)
qed (auto simp: fresh_panel_def reported_def)

lemma fresh_panel_inv:
  assumes c: "in_checks c" and t: "gt_terminal (ce_task c) = None" and cand: "gt_candidate (ce_task c) = Some cand"
    and len: "length (gt_reviewers (ce_task c)) = length (gs_reviewers (gt_spec (ce_task c)))"
  shows "gate_inv (c\<lparr>ce_serial := ce_serial c + 1, ce_task := (ce_task c)\<lparr>gt_review := Some (fresh_panel (ce_serial c) (ce_task c) cand)\<rparr>\<rparr>)"
proof -
  define t where "t = ce_task c"
  define p where "p = fresh_panel (ce_serial c) t cand"
  define u where "u = t\<lparr>gt_review := Some p\<rparr>"
  have core: "core_ok t (ce_pending c) (ce_serial c) (repairs (ce_log c))" and k: "checks_pending (ce_pending c) = 0"
    and un: "unreviewed t" and d: "log_ok (gt_spec (ce_task c)) (repairs (ce_log c))"
    using c t by (auto simp: in_checks_def t_def)
  have none: "reports u i = []" for i
    using un by (auto simp: unreviewed_def reports_def u_def filter_empty_conv)
  have "panel_ok u p"
    using cand len none fresh_panel_members(1) [of "ce_serial c" t cand, folded p_def]
      fresh_panel_members(2) [of _ "ce_serial c" t cand, folded p_def]
    by (auto simp: panel_ok_def member_ok_def u_def t_def) (simp_all add: p_def fresh_panel_def t_def)
  moreover have "live u p" using un by (simp add: live_def unreviewed_def p_def fresh_panel_def u_def)
  ultimately have "review_ok u (ce_serial c + 1)" by (simp add: review_ok_def u_def p_def fresh_panel_def)
  moreover have "list_all (continuation_ok u (ce_serial c + 1)) (ce_pending c)"
    unfolding list_all_iff
  proof
    fix x assume "x \<in> set (ce_pending c)"
    with core have "continuation_ok t (ce_serial c) x" by (simp add: core_ok_def list_all_iff)
    then show "continuation_ok u (ce_serial c + 1) x"
      by (cases x) (auto simp: approval_ok_def u_def p_def fresh_panel_def)
  qed
  moreover have "rounds_ok u" using core un by (auto simp: core_ok_def rounds_ok_def within_rounds_def u_def unreviewed_def)
  moreover have "repairs_ok u (repairs (ce_log c))" using core by (simp add: core_ok_def repairs_ok_def u_def)
  moreover have "busy_ok u 0" using un by (simp add: busy_ok_def u_def unreviewed_def)
  ultimately have "task_inv u (ce_pending c) (ce_serial c + 1) (repairs (ce_log c))"
    using d k t by (simp add: task_inv_def core_ok_def u_def t_def)
  then show ?thesis by (simp add: gate_inv_def u_def p_def t_def)
qed

lemma start_review_post:
  assumes c: "in_checks c" and t: "gt_terminal (ce_task c) = None"
  shows "post (ebind new_review (\<lambda>p. ethen (upd_task (\<lambda>t. t\<lparr>gt_review := Some p\<rparr>))
      (ethen (do_call (Set_phase a b ph)) (start_members rs evidence)))) (\<lambda>r d. gate_inv d \<or> \<not> is_ok r \<and> in_checks d) c"
proof -
  have s: "post (ethen (do_call (Set_phase a b ph)) (start_members rs evidence)) (\<lambda>r d. gate_inv d \<or> \<not> is_ok r \<and> in_checks d) d"
    if "gate_inv d" for d
    by (rule post_mono [OF keeps_post [OF keeps_ethen [OF do_call_keeps start_members_keeps] that]]) auto
  show ?thesis
    using c fresh_panel_inv [OF c t]
    by (auto simp: new_review_def post_ebind post_eget Let_def post_ethrow post_ethen post_emod post_eret post_upd_task
        intro!: s [unfolded post_ethen] split: option.split)
qed

lemma finish_checks_post:
  assumes "in_checks c"
  shows "post (finish_checks evidence) (\<lambda>r d. gate_inv d \<or> \<not> is_ok r \<and> in_checks d) c"
proof -
  define upd :: "gate_task \<Rightarrow> gate_task" where "upd = (\<lambda>t. t\<lparr>gt_evidence := retain_evidence (length evidence)
     (gt_evidence t @ map (\<lambda>r. \<lparr>ev_round = gt_rounds t, ev_result = cut_output 2000 r\<rparr>) evidence)\<rparr>)"
  have key: "in_checks (d\<lparr>ce_task := upd (ce_task d)\<rparr>)" if "in_checks d" for d
    using checking_key [OF _ that, of upd] by (simp add: upd_def task_key_def)
  have rest: "post (with_task (\<lambda>t. if gt_terminal t \<noteq> None then eret () else ebind new_review (\<lambda>p.
          ethen (upd_task (\<lambda>t. t\<lparr>gt_review := Some p\<rparr>))
         (ethen (do_call (Set_phase (gt_agent t) (gt_run t) Phase_reviewing)) (start_members (gt_reviewers t) evidence)))))
      (\<lambda>r d. gate_inv d \<or> \<not> is_ok r \<and> in_checks d) d" if "in_checks d" for d
    using start_review_post [OF that] checking_terminal [OF that] by (simp add: post_with_task post_eret)
  show ?thesis
    unfolding finish_checks_def post_with_task upd_def [symmetric]
  proof (rule post_do_call_then)
    fix d assume "same_view c d"
    with assms have d: "in_checks d" by (simp add: same_view_checking)
    with rest [OF key [OF d]] show "post (ethen (upd_task upd)
        (with_task (\<lambda>t. if gt_terminal t \<noteq> None then eret () else ebind new_review (\<lambda>p.
          ethen (upd_task (\<lambda>t. t\<lparr>gt_review := Some p\<rparr>))
         (ethen (do_call (Set_phase (gt_agent t) (gt_run t) Phase_reviewing)) (start_members (gt_reviewers t) evidence))))))
      (\<lambda>r d. gate_inv d \<or> \<not> is_ok r \<and> in_checks d) d"
      by (simp add: post_ethen post_upd_task)
  qed (use assms in \<open>simp_all add: same_view_checking\<close>)
qed

lemma check_next_post:
  assumes "in_checks c" shows "post (check_next todo evidence) (\<lambda>_. gate_inv) c"
proof -
  have close: "post (ecatch m admission_failed) (\<lambda>_. gate_inv) c"
    if "post m (\<lambda>r d. gate_inv d \<or> \<not> is_ok r \<and> in_checks d) c" for m
    unfolding post_ecatch using that
    by (rule post_mono) (auto intro: admission_failed_closable closable_if split: sum.split)
  have wait: "gate_inv (c\<lparr>ce_log := ce_log c @ [Run_check x y z], ce_pending := ce_pending c @ [Check_done (a # b) ev]\<rparr>)"
    if "gt_terminal (ce_task c) = None" for x y z a b ev
    using assms that by (simp add: in_checks_def gate_inv_def task_inv_def core_ok_def busy_ok_def unreviewed_def)
  show ?thesis
    unfolding check_next_def
    using assms wait checking_terminal [OF assms]
    by (intro close) (auto simp: finish_checks_post post_with_task post_eret post_ethen post_note_call post_await split: list.split)
qed

lemma run_checks_post: "in_checks c \<Longrightarrow> post run_checks_and_review (\<lambda>_. gate_inv) c"
  unfolding run_checks_and_review_def by (auto simp: post_with_task post_eret check_next_post checking_terminal)

section \<open>A settled candidate\<close>

text \<open>The task with its next round admitted.\<close>

definition next_round :: "gate_task \<Rightarrow> gate_task \<Rightarrow> bool" where
  "next_round t u \<longleftrightarrow> gt_spec u = gt_spec t \<and> gt_reviewers u = gt_reviewers t \<and> gt_review u = gt_review t \<and>
     gt_feedback u = gt_feedback t \<and> gt_repair u = gt_repair t \<and> gt_terminal u = gt_terminal t \<and> \<not> gt_reserved u \<and>
     gt_rounds u = gt_rounds t + 1"

lemma next_round_checking:
  assumes inv: "task_inv t ks sn rs" and t: "gt_terminal t = None" "gt_reserved t \<or> gt_rounds t = 0"
    and u: "next_round t u" and w: "within_rounds u (gt_rounds u)"
  shows "core_ok u ks sn rs" "checks_pending ks = 0" "unreviewed u"
proof -
  have core: "core_ok t ks sn rs" "busy_ok t (checks_pending ks)" using inv t(1) by (auto simp: task_inv_def)
  have le: "\<And>f. f \<in> set (gt_feedback t) \<Longrightarrow> fb_round f \<le> gt_rounds t"
    and rep: "\<And>r. gt_repair t = Some r \<Longrightarrow> \<exists>k\<le>gt_rounds t. r = repair_name (review_name k)"
    and m0: "\<And>m. gs_max_rounds (gt_spec t) = Some m \<Longrightarrow> 0 < m"
    using core(1) by (auto simp: core_ok_def rounds_ok_def)
  have dead: "\<not> live t p" if p: "gt_review t = Some p" for p
  proof
    assume l: "live t p"
    from live_panel_facts(4,5) [OF inv t(1) p l] t(2) show False by simp
  qed
  have lu: "live u p = live t p" for p using u by (simp add: live_def next_round_def)
  show k: "checks_pending ks = 0" using core(2) t(2) by (auto simp: busy_ok_def unreviewed_def le_Suc_eq)
  show un: "unreviewed u"
    using u le dead rep lu by (fastforce simp: unreviewed_def next_round_def le_imp_less_Suc split: option.split)
  have "rounds_ok u"
    using u w m0 le rep by (fastforce simp: rounds_ok_def next_round_def split: option.splits)
  moreover have "review_ok u sn"
    using core(1) u dead lu by (fastforce simp: core_ok_def review_ok_def next_round_def panel_done_def split: option.splits)
  moreover have "list_all (continuation_ok u sn) ks"
    unfolding list_all_iff
  proof
    fix x assume "x \<in> set ks"
    with core(1) have "continuation_ok t sn x" by (simp add: core_ok_def list_all_iff)
    with dead u show "continuation_ok u sn x"
      by (cases x) (auto simp: approval_ok_def next_round_def split: option.splits)
  qed
  moreover have "repairs_ok u rs"
    using core(1) u by (fastforce simp: core_ok_def repairs_ok_def next_round_def)
  ultimately show "core_ok u ks sn rs" by (simp add: core_ok_def)
qed

text \<open>What the recording of a candidate leaves, whether it throws, ends the task or goes on.\<close>

definition recorded :: "gate_err + bool \<Rightarrow> cell \<Rightarrow> bool" where
  "recorded r d \<longleftrightarrow> closable d \<and> (r = Inr True \<longrightarrow> in_checks d) \<and> (r = Inr False \<longrightarrow> gate_inv d)"

lemma admit_round_post:
  assumes "closable d" and "within_rounds (ce_task d) (gt_rounds (ce_task d)) \<Longrightarrow> in_checks d"
  shows "post (admit_round (ce_task d)) recorded d"
proof -
  have phase: "post (ethen (do_call (Set_phase x y z)) (eret True)) recorded d" if "in_checks d" for x y z
    by (rule post_do_call_then) (use that same_view_checking in \<open>auto simp: post_eret recorded_def intro: closable_if\<close>)
  have limit: "post (ethen (terminate Out_limit x) (eret False)) recorded d" for x
    unfolding post_ethen
    by (rule post_mono, rule terminate_closable) (use assms(1) in \<open>auto simp: post_eret recorded_def closable_if split: sum.split\<close>)
  show ?thesis
    using assms(2) by (auto simp: admit_round_def within_rounds_def intro!: phase limit split: option.split)
qed

lemma record_candidate_post:
  assumes g: "gate_inv c" and t: "gt_terminal (ce_task c) = None" "gt_reserved (ce_task c) \<or> gt_rounds (ce_task c) = 0"
  shows "post (record_candidate cand summary text) recorded c"
proof -
  define t where "t = ce_task c"
  define u1 where "u1 = set_candidate cand text t"
  define u where "u = set_round summary u1"
  have inv: "task_inv t (ce_pending c) (ce_serial c) (repairs (ce_log c))" using g by (simp add: gate_inv_def t_def)
  have d: "log_ok (gt_spec (ce_task c)) (repairs (ce_log c))" using g by (rule gate_inv_distinct)
  have nr: "next_round t u" by (simp add: next_round_def u_def u1_def set_candidate_def set_round_def)
  have ut: "gt_terminal u1 = None" "gt_terminal u = None" using t(1) by (simp_all add: u_def u1_def t_def set_candidate_def set_round_def)
  have us: "gt_spec u1 = gt_spec (ce_task c)" "gt_spec u = gt_spec (ce_task c)"
    by (simp_all add: u_def u1_def t_def set_candidate_def set_round_def)
  have err: "recorded (Inl x) e" if "same_view (c\<lparr>ce_task := v\<rparr>) e" "gt_terminal v = None" "gt_spec v = gt_spec (ce_task c)" for x e v
    using that d by (simp add: recorded_def closable_def same_view_def)
  have last: "post (with_task admit_round) recorded e" if "same_view (c\<lparr>ce_task := u\<rparr>) e" for e
    unfolding post_with_task
  proof (rule admit_round_post)
    show "closable e" using that ut(2) us(2) d by (simp add: closable_def same_view_def)
    show "in_checks e" if "within_rounds (ce_task e) (gt_rounds (ce_task e))"
      using next_round_checking [OF inv t [folded t_def] nr] that ut(2) us(2) d \<open>same_view _ e\<close>
      by (simp add: in_checks_def same_view_def)
  qed
  have second: "post (ethen (upd_task (set_round summary)) (ethen (do_call (Append (J_round_admitted a b n i s p))) (with_task admit_round))) recorded e"
    if "same_view (c\<lparr>ce_task := u1\<rparr>) e" for e a b n i s p
  proof -
    have e: "same_view (c\<lparr>ce_task := u\<rparr>) (e\<lparr>ce_task := set_round summary (ce_task e)\<rparr>)"
      using that by (simp add: same_view_def u_def)
    have "post (ethen (do_call (Append (J_round_admitted a b n i s p))) (with_task admit_round)) recorded (e\<lparr>ce_task := set_round summary (ce_task e)\<rparr>)"
      by (rule post_do_call_then) (use err [OF same_view_trans [OF e] ut(2) us(2)] last [OF same_view_trans [OF e]] in simp_all)
    then show ?thesis by (simp add: post_ethen [of "upd_task f" for f] post_upd_task)
  qed
  have "post (ethen (do_call (Append (J_candidate a b cand x))) (ethen (upd_task (set_round summary))
      (ethen (do_call (Append (J_round_admitted a b n i s p))) (with_task admit_round)))) recorded (c\<lparr>ce_task := u1\<rparr>)" for a b x n i s p
    by (rule post_do_call_then) (use ut(1) us(1) err second in \<open>auto\<close>)
  then show ?thesis
    unfolding record_candidate_def post_with_task post_ethen [of "upd_task (set_candidate cand text)"] post_upd_task sum.case
    by (simp add: u1_def t_def)
qed

lemma freeze_candidate_post:
  assumes g: "gate_inv c" and t: "gt_terminal (ce_task c) = None" "gt_reserved (ce_task c) \<or> gt_rounds (ce_task c) = 0"
  shows "post (freeze_candidate generation text) recorded c"
proof -
  have "recorded (Inl x) (c\<lparr>ce_log := l\<rparr>)" if "repairs l = repairs (ce_log c)" for x l
    using that t(1) gate_inv_distinct [OF g] by (simp add: recorded_def closable_def)
  moreover have "post (record_candidate cand summary text) recorded (c\<lparr>ce_log := l\<rparr>)" if "repairs l = repairs (ce_log c)" for cand summary l
    by (rule record_candidate_post) (use g t that in \<open>simp_all add: gate_inv_def\<close>)
  ultimately show ?thesis
    by (simp add: freeze_candidate_def post_with_task post_ebind post_host_call post_eget Let_def split: option.split)
qed

lemma candidate_settled_post:
  assumes g: "gate_inv c" and e: "gate_enabled (Ev_candidate agent generation text) c"
  shows "post (candidate_settled agent generation text) (\<lambda>_. gate_inv) c"
proof -
  have fr: "post (ebind (ecatch (freeze_candidate generation text) (\<lambda>e. ethen (terminate Out_error (msg e)) (eret False)))
      (\<lambda>go. if go then run_checks_and_review else eret ())) (\<lambda>_. gate_inv) c"
    if "gt_terminal (ce_task c) = None" for msg
  proof -
    have fail: "post (terminate Out_error x) Q d" if "closable d" "\<And>r e. gate_inv e \<Longrightarrow> Q r e" for x Q d
      by (rule post_mono, rule terminate_closable [OF that(1)]) (use that(2) in auto)
    have "post (freeze_candidate generation text) recorded c"
      by (rule freeze_candidate_post [OF g that]) (use e that in \<open>simp add: gate_enabled_def Let_def\<close>)
    then show ?thesis
      unfolding post_ebind post_ecatch
      by (rule post_mono)
        (auto simp: recorded_def post_ethen post_eret run_checks_post intro!: fail split: sum.split)
  qed
  show ?thesis
    using g fr by (simp add: candidate_settled_def post_with_task post_eret)
qed

section \<open>Interruption, recovery and controls\<close>

text \<open>A change of a live panel that only interrupts or resumes members that have not reported.\<close>

lemma panel_change_inv:
  assumes g: "gate_inv c" and p: "gt_terminal (ce_task c) = None" "gt_review (ce_task c) = Some p" "live (ce_task c) p"
    and q: "pn_serial q = pn_serial p" "pn_review q = pn_review p" "pn_candidate q = pn_candidate p"
      "pn_application p \<le> pn_application q" "pn_status q \<noteq> Review_decided"
      "pn_application q = pn_application p \<Longrightarrow> pn_status p \<noteq> Review_decided"
    and m: "length (pn_members q) = length (pn_members p)"
      "\<And>i. i < length (pn_members p) \<Longrightarrow> pm_index (pn_members q ! i) = pm_index (pn_members p ! i) \<and>
         reported (pn_members q ! i) = reported (pn_members p ! i) \<and>
         (\<not> reported (pn_members p ! i) \<longrightarrow> pm_settled (pn_members q ! i) = pm_settled (pn_members p ! i))"
  shows "gate_inv (c\<lparr>ce_task := (ce_task c)\<lparr>gt_review := Some q\<rparr>\<rparr>)"
proof -
  have inv: "task_inv (ce_task c) (ce_pending c) (ce_serial c) (repairs (ce_log c))" using g by (simp add: gate_inv_def)
  have po: "panel_ok (ce_task c) p" by (rule live_panel_facts(1) [OF inv p])
  define u where "u = (ce_task c)\<lparr>gt_review := Some q\<rparr>"
  have "task_inv u (ce_pending c) (ce_serial c) (repairs (ce_log c))"
  proof (rule panel_change [OF inv p q, where fs = "[]"])
    show "map pm_index (pn_members q) = map pm_index (pn_members p)" using m by (simp add: list_eq_iff_nth_eq)
    show "\<forall>x\<in>set (pn_members q). member_ok u (pn_candidate q) x"
    proof
      fix x assume "x \<in> set (pn_members q)"
      then obtain i where i: "i < length (pn_members p)" "x = pn_members q ! i" using m(1) by (auto simp: in_set_conv_nth)
      then have "member_ok (ce_task c) (pn_candidate p) (pn_members p ! i)" using po by (simp add: panel_ok_def)
      with m(2) [OF i(1)] i(2) q(3) show "member_ok u (pn_candidate q) x" by (auto simp: member_ok_def u_def split: if_splits)
    qed
  qed (use m in \<open>auto simp: u_def task_key_def\<close>)
  then show ?thesis by (simp add: gate_inv_def u_def)
qed

lemma upd_review_inv:
  assumes "gate_inv (c\<lparr>ce_task := (ce_task c)\<lparr>gt_review := Some (f p)\<rparr>\<rparr>)" and "gt_review (ce_task c) = Some p"
  shows "gate_inv (c\<lparr>ce_task := upd_review f (ce_task c)\<rparr>)"
  using assms by (simp add: upd_review_def)

lemma interrupted_inv:
  assumes g: "gate_inv c" and op: "gt_terminal (ce_task c) = None" and mem: "member_of (ce_task c) agent = Some (i, m)"
    and run: "pm_status m = Member_running"
  shows "gate_inv (c\<lparr>ce_task := upd_review (interrupted_panel i) (ce_task c)\<rparr>)"
proof -
  obtain p where p: "gt_review (ce_task c) = Some p" "i < length (pn_members p)" "m = pn_members p ! i"
    using member_ofD [OF mem] by blast
  have inv: "task_inv (ce_task c) (ce_pending c) (ce_serial c) (repairs (ce_log c))" using g by (simp add: gate_inv_def)
  have mi: "m \<in> set (pn_members p)" "\<not> reported m" using p run by (auto simp: reported_def)
  note a = active_panel [OF inv op p(1) mi]
  show ?thesis
    by (rule upd_review_inv [OF _ p(1)], rule panel_change_inv [OF g op p(1) a(1)])
      (use a(2) p mi in \<open>auto simp: interrupted_panel_def upd_member_at nth_list_update reported_def\<close>)
qed

lemma interrupt_keeps: "keeps gate_inv (interrupt_for_agent agent active)"
proof (rule keepsI)
  fix c assume g: "gate_inv c"
  have "gate_inv (c\<lparr>ce_task := upd_review (interrupted_panel i) (ce_task c), ce_log := ce_log c @ [Cancel_reviewer r]\<rparr>)"
    if "gt_terminal (ce_task c) = None" "member_of (ce_task c) agent = Some (i, m)" "pm_status m = Member_running" for i m r
    using gate_inv_log [OF interrupted_inv [OF g that], of "Cancel_reviewer r"] by simp
  then show "post (interrupt_for_agent agent active) (\<lambda>_. gate_inv) c"
    using g keeps_post [OF terminate_keeps g] keeps_post [OF cancel_all_keeps g]
    by (auto simp: interrupt_for_agent_def post_with_task post_eret post_ethen post_upd_task post_note_call gate_inv_log
        split: option.split)
qed

lemma mark_keeps: "keeps gate_inv mark_interrupted_for_recovery"
proof (rule keepsI)
  fix c assume g: "gate_inv c"
  have "gate_inv (c\<lparr>ce_task := upd_review recovered_panel (ce_task c)\<rparr>)"
    if "gt_terminal (ce_task c) = None" "gt_review (ce_task c) = Some p" "gt_repair (ce_task c) \<noteq> Some (repair_name (pn_review p))" for p
    by (rule upd_review_inv [OF _ that(2)], rule panel_change_inv [OF g that(1,2)])
      (use that(3) in \<open>auto simp: live_def recovered_panel_def recovered_member_def reported_def\<close>)
  with g show "post mark_interrupted_for_recovery (\<lambda>_. gate_inv) c"
    by (auto simp: mark_interrupted_for_recovery_def post_with_task post_eret post_upd_task split: option.split)
qed

lemma resumed_inv:
  assumes "gate_inv d" "gt_terminal (ce_task d) = None" "gt_review (ce_task d) = Some p" "pn_status p = Review_interrupted"
    "gt_repair (ce_task d) \<noteq> Some (repair_name (pn_review p))"
  shows "gate_inv (d\<lparr>ce_task := upd_review resumed_panel (ce_task d)\<rparr>)"
  by (rule upd_review_inv [OF _ assms(3)], rule panel_change_inv [OF assms(1-3)])
    (use assms(4,5) in \<open>auto simp: live_def resumed_panel_def resumed_member_def reported_def\<close>)

lemma resume_review_keeps: "keeps gate_inv (resume_review review)"
proof (rule keepsI)
  fix c assume g: "gate_inv c"
  have tail: "post (ethen (do_call (Set_phase x y z)) (start_members rs es)) (\<lambda>_. gate_inv) d" if "gate_inv d" for x y z rs es d
    by (rule keeps_post [OF keeps_ethen [OF do_call_keeps start_members_keeps] that]) simp
  have go: "gate_inv (c\<lparr>ce_log := ce_log c @ [Workspace_matches x y], ce_task := upd_review resumed_panel (ce_task c)\<rparr>)"
    if "gt_terminal (ce_task c) = None" "gt_review (ce_task c) = Some p" "pn_status p = Review_interrupted"
      "gt_repair (ce_task c) \<noteq> Some (repair_name (pn_review p))" for x y p
    using resumed_inv [of "c\<lparr>ce_log := ce_log c @ [Workspace_matches x y]\<rparr>"] gate_inv_log [OF g] that by simp
  show "post (resume_review review) (\<lambda>_. gate_inv) c"
    unfolding resume_review_def
    using g go
    by (auto simp: post_with_task post_ethrow post_ebind post_eret post_host_call Let_def gate_inv_log post_ethen [of "upd_task f" for f] post_upd_task
        intro!: tail split: option.split)
qed

lemma limits_inv:
  assumes g: "gate_inv c" and op: "gt_terminal (ce_task c) = None" and l: "\<And>k. m = Some k \<Longrightarrow> 0 < k \<and> int (gt_rounds (ce_task c)) \<le> k \<and>
     (gt_reserved (ce_task c) \<longrightarrow> int (gt_rounds (ce_task c)) + 1 \<le> k)"
  shows "gate_inv (c\<lparr>ce_task := (ce_task c)\<lparr>gt_spec := (gt_spec (ce_task c))\<lparr>gs_max_rounds := m\<rparr>\<rparr>\<rparr>)"
proof -
  define t where "t = ce_task c"
  define u where "u = t\<lparr>gt_spec := (gt_spec t)\<lparr>gs_max_rounds := m\<rparr>\<rparr>"
  have lv: "live u = live t" by (simp add: live_def u_def fun_eq_iff)
  have pk: "panel_ok u = panel_ok t" by (simp add: panel_ok_def member_ok_def u_def fun_eq_iff)
  have pd: "panel_done u = panel_done t" by (simp add: panel_done_def u_def fun_eq_iff)
  have un: "unanimous u = unanimous t" by (simp add: u_def)
  have v: "review_ok u n = review_ok t n" for n
    unfolding review_ok_def lv pk pd by (simp add: u_def)
  have "approval_ok u n a b = approval_ok t n a b" for n a b
    unfolding approval_ok_def lv un by (simp add: u_def)
  then have "continuation_ok u n x = continuation_ok t n x" for n x
    by (cases x) (simp_all add: u_def)
  then have k: "continuation_ok u n = continuation_ok t n" for n by (simp add: fun_eq_iff)
  have r: "rounds_ok u" if "rounds_ok t"
    using that l by (auto simp: rounds_ok_def within_rounds_def u_def t_def split: option.split)
  have rp: "repairs_ok u rs = repairs_ok t rs" for rs by (simp add: repairs_ok_def u_def)
  have b: "busy_ok u n = busy_ok t n" for n
    unfolding busy_ok_def unreviewed_def lv by (simp add: u_def)
  have "core_ok u ks n rs" if "core_ok t ks n rs" for ks n rs
    using that v k r rp by (simp add: core_ok_def)
  moreover have "log_ok (gt_spec u) rs" if "core_ok t ks n rs" "distinct rs" for ks n rs
    by (rule repairs_bound [OF _ _ that(2)]) (use that(1) r rp in \<open>simp_all add: core_ok_def\<close>)
  moreover have "gt_terminal u = None" "gt_terminal t = None" using op by (simp_all add: u_def t_def)
  ultimately have "task_inv u ks n rs" if "task_inv t ks n rs" for ks n rs
    using that b unfolding task_inv_def log_ok_def [of "gt_spec t"] by auto
  with g show ?thesis by (simp add: gate_inv_def u_def t_def)
qed

lemma set_gate_limits_keeps: "keeps gate_inv (set_gate_limits ceil limit command)"
proof (rule keepsI)
  fix c assume g: "gate_inv c"
  have tail: "post (do_call (Append (J_limits x y z w))) (\<lambda>_. gate_inv) d" if "gate_inv d" for x y z w d
    by (rule keeps_post [OF do_call_keeps that]) simp
  show "post (set_gate_limits ceil limit command) (\<lambda>_. gate_inv) c"
    unfolding set_gate_limits_def
    using g by (auto simp: post_with_task post_ethrow post_ethen post_upd_task intro!: tail limits_inv split: option.split)
qed

lemma find_filter: "List.find P xs = (case filter P xs of [] \<Rightarrow> None | x # _ \<Rightarrow> Some x)"
  by (induction xs) auto

lemma restorable_member:
  assumes r: "restorable t" and cand: "gt_candidate t = Some cand" and i: "i < length (gt_reviewers t)"
    and m: "pm_reviewer m = gt_reviewers t ! i" "pm_index m = i"
  shows "member_ok t (cd_id cand) (restored_member t m) \<and> pm_index (restored_member t m) = i"
proof -
  define fs where "fs = reports t i"
  have fs: "length fs \<le> 1" "list_all (report_ok (cd_id cand)) fs"
    and eq: "fs = filter (\<lambda>f. fb_round f = gt_rounds t \<and> fb_reviewer f = pm_reviewer m) (gt_feedback t)"
  proof -
    have "\<forall>i\<in>set [0..<length (gt_reviewers t)]. length (reports t i) \<le> 1 \<and> list_all (report_ok (cd_id cand)) (reports t i) \<and>
        reports t i = filter (\<lambda>f. fb_round f = gt_rounds t \<and> fb_reviewer f = gt_reviewers t ! i) (gt_feedback t)"
      using r cand by (simp only: restorable_def option.case list_all_iff)
    moreover have "i \<in> set [0..<length (gt_reviewers t)]" using i by simp
    ultimately have "length (reports t i) \<le> 1 \<and> list_all (report_ok (cd_id cand)) (reports t i) \<and>
        reports t i = filter (\<lambda>f. fb_round f = gt_rounds t \<and> fb_reviewer f = gt_reviewers t ! i) (gt_feedback t)" by (rule bspec)
    then show "length fs \<le> 1" "list_all (report_ok (cd_id cand)) fs"
      "fs = filter (\<lambda>f. fb_round f = gt_rounds t \<and> fb_reviewer f = pm_reviewer m) (gt_feedback t)"
      unfolding fs_def m(1) by blast+
  qed
  show ?thesis
  proof (cases fs)
    case Nil
    with eq [symmetric] m(2) show ?thesis
      by (simp add: restored_member_def find_filter member_ok_def reported_def flip: fs_def)
  next
    case (Cons f gs)
    with fs have f: "fs = [f]" "report_ok (cd_id cand) f" by auto
    with eq [symmetric] m(2) show ?thesis
      by (auto simp: restored_member_def find_filter member_ok_def reported_def simp flip: fs_def)
  qed
qed

lemma restore_post:
  assumes g: "gate_inv c" and e: "gt_review (ce_task c) = None" "ce_pending c = []"
  shows "post restore_review (\<lambda>_. gate_inv) c"
proof -
  define t where "t = ce_task c"
  have "gate_inv (c\<lparr>ce_serial := ce_serial c + 1, ce_task := t\<lparr>gt_review := Some
      ((fresh_panel (ce_serial c) t cand)\<lparr>pn_status := Review_interrupted,
        pn_members := map (restored_member t) (pn_members (fresh_panel (ce_serial c) t cand))\<rparr>)\<rparr>\<rparr>)"
    if op: "gt_terminal t = None" and cand: "gt_candidate t = Some cand" and r0: "gt_rounds t \<noteq> 0"
      and rp: "gt_repair t \<noteq> Some (repair_name (review_name (gt_rounds t)))"
      and len: "length (gt_reviewers t) = length (gs_reviewers (gt_spec t))" for cand
  proof -
    define p where "p = fresh_panel (ce_serial c) t cand"
    define q where "q = p\<lparr>pn_status := Review_interrupted, pn_members := map (restored_member t) (pn_members p)\<rparr>"
    define u where "u = t\<lparr>gt_review := Some q\<rparr>"
    have core: "rounds_ok t" "repairs_ok t (repairs (ce_log c))" "restorable t" "\<not> gt_reserved t" "log_ok (gt_spec t) (repairs (ce_log c))"
      using g e op rp by (auto simp: gate_inv_def task_inv_def core_ok_def busy_ok_def t_def)
    have len_p: "length (pn_members p) = length (gt_reviewers t)" by (simp add: p_def fresh_panel_def)
    have at: "pm_reviewer (pn_members p ! i) = gt_reviewers t ! i" "pm_index (pn_members p ! i) = i" if "i < length (gt_reviewers t)" for i
      using that by (simp_all add: p_def fresh_panel_def nth_enumerate_eq)
    have rm: "member_ok t (cd_id cand) (pn_members q ! i)" "pm_index (pn_members q ! i) = i" if "i < length (gt_reviewers t)" for i
      using restorable_member [OF core(3) cand that at [OF that]] that len_p by (simp_all add: q_def)
    have len_q: "length (pn_members q) = length (gt_reviewers t)" using len_p by (simp add: q_def)
    have "map pm_index (pn_members q) = [0..<length (gs_reviewers (gt_spec u))]"
      by (rule nth_equalityI) (use rm(2) len len_q in \<open>simp_all add: u_def\<close>)
    moreover have "member_ok u k m = member_ok t k m" for k m by (simp add: member_ok_def u_def)
    then have "\<forall>m\<in>set (pn_members q). member_ok u (cd_id cand) m"
      using rm(1) len_q by (auto simp: in_set_conv_nth)
    ultimately have "panel_ok u q"
      using cand by (simp add: panel_ok_def u_def q_def p_def fresh_panel_def)
    moreover have "live u q" using rp by (simp add: live_def u_def q_def p_def fresh_panel_def)
    ultimately have "review_ok u (ce_serial c + 1)" by (simp add: review_ok_def u_def q_def p_def fresh_panel_def)
    moreover have "rounds_ok u" using core(1) r0 by (simp add: rounds_ok_def within_rounds_def u_def)
    moreover have "repairs_ok u (repairs (ce_log c))" using core(2) by (simp add: repairs_ok_def u_def)
    moreover have "busy_ok u 0" using core(4) by (simp add: busy_ok_def u_def)
    ultimately have "task_inv u [] (ce_serial c + 1) (repairs (ce_log c))"
      using core(5) op by (simp add: task_inv_def core_ok_def u_def)
    then show ?thesis using e(2) by (simp add: gate_inv_def u_def q_def p_def)
  qed
  with g show ?thesis
    by (auto simp: restore_review_def new_review_def post_with_task post_eret post_ebind post_eget post_ethrow Let_def
        post_ethen post_emod post_upd_task t_def split: option.split)
qed

section \<open>Every step keeps the invariant\<close>

lemma recheck_done_post:
  assumes "gate_inv c" and "gt_terminal (ce_task c) = None \<Longrightarrow> approval_ok (ce_task c) (ce_serial c) s a"
  shows "post (recheck_done s a todo reply) (\<lambda>_. gate_inv) c"
  unfolding recheck_done_def
  using assms recheck_next_inv [OF assms]
  by (auto simp: post_eret post_await gate_inv_await split: list.split sum.split)

lemma drop_nth_facts:
  assumes "n < length ks"
  shows "set (drop_nth n ks) \<subseteq> set ks" "checks_pending (drop_nth n ks) + (if is_check (ks ! n) then 1 else 0) = checks_pending ks"
proof -
  show "set (drop_nth n ks) \<subseteq> set ks" unfolding drop_nth_def by (auto dest: in_set_takeD in_set_dropD)
  have "ks = take n ks @ ks ! n # drop (Suc n) ks" using assms by (simp add: id_take_nth_drop)
  then have "checks_pending ks = checks_pending (take n ks @ [ks ! n] @ drop (Suc n) ks)" by simp
  then show "checks_pending (drop_nth n ks) + (if is_check (ks ! n) then 1 else 0) = checks_pending ks"
    by (simp add: drop_nth_def del: append_take_drop_id)
qed

lemma continue_post:
  assumes g: "gate_inv c" and n: "n < length (ce_pending c)"
  shows "post (run_continuation (ce_pending c ! n) reply) (\<lambda>_. gate_inv) (c\<lparr>ce_pending := drop_nth n (ce_pending c)\<rparr>)"
proof -
  define k where "k = ce_pending c ! n"
  define d where "d = c\<lparr>ce_pending := drop_nth n (ce_pending c)\<rparr>"
  note f = drop_nth_facts [OF n, folded k_def]
  have km: "k \<in> set (ce_pending c)" using n by (simp add: k_def)
  have k: "continuation_ok (ce_task d) (ce_serial d) k" if "gt_terminal (ce_task d) = None"
    using g that km by (auto simp: gate_inv_def task_inv_def core_ok_def list_all_iff d_def)
  have core: "core_ok (ce_task d) (ce_pending d) (ce_serial d) (repairs (ce_log d))" if "gt_terminal (ce_task d) = None"
    using g that f(1) by (auto simp: gate_inv_def task_inv_def core_ok_def list_all_iff d_def)
  have gd: "gate_inv d" if "\<not> is_check k"
    using g that f(2) core by (auto simp: gate_inv_def task_inv_def d_def)
  have cd: "in_checks d" if "is_check k"
  proof -
    have "checks_pending (ce_pending c) = 1 \<and> unreviewed (ce_task c)" if "gt_terminal (ce_task c) = None"
      using g that f(2) \<open>is_check k\<close> by (auto simp: gate_inv_def task_inv_def busy_ok_def)
    with g core f(2) that show ?thesis by (auto simp: in_checks_def gate_inv_def task_inv_def d_def)
  qed
  have "post (run_continuation k reply) (\<lambda>_. gate_inv) d"
  proof (cases k)
    case (Check_done todo evidence)
    then have c': "in_checks d" using cd by simp
    show ?thesis
    proof (cases todo)
      case Nil
      with k Check_done have "gt_terminal (ce_task d) \<noteq> None" by auto
      from checking_terminal [OF c' this] Nil Check_done show ?thesis
        by (simp add: run_continuation_def check_done_def post_eret)
    next
      case (Cons x xs)
      with Check_done check_next_post [OF c'] show ?thesis by (simp add: run_continuation_def check_done_def)
    qed
  next
    case (Member_released s i)
    with gd k show ?thesis
      by (auto simp: run_continuation_def intro!: member_released_post keeps_post [OF cleanup_failed_keeps] split: sum.split)
  next
    case (Recheck_done s a todo)
    with gd k show ?thesis by (auto simp: run_continuation_def intro!: recheck_done_post)
  next
    case (Verified s a problem)
    with gd k show ?thesis by (auto simp: run_continuation_def intro!: verified_keeps)
  next
    case (Application_failed s a m)
    with gd show ?thesis by (auto simp: run_continuation_def intro!: keeps_post [OF application_failed_keeps])
  next
    case (Cleanup_failed m)
    with gd show ?thesis by (auto simp: run_continuation_def intro!: keeps_post [OF cleanup_failed_keeps])
  qed
  then show ?thesis by (simp add: k_def d_def)
qed

end
