(* ===== verification/GateSafety.thy ===== *)
theory GateSafety
  imports GateInvariant
begin

text \<open>
  What the gate guarantees: every reachable state of a gated task satisfies the invariant, a pass
  is unanimous, the repair loop is bounded, and a terminal task stays as it is. The decision of a
  panel is compared with the verdicts it is made of.
\<close>

section \<open>Reachable states\<close>

lemma new_task_inv:
  assumes "rounds_wf policy (gs_max_rounds spec)"
  shows "gate_inv (new_cell (new_task agent run spec text rs) h sha)"
  using assms
  by (auto simp: gate_inv_def new_cell_def new_task_def task_inv_def core_ok_def rounds_ok_def within_rounds_def rounds_wf_def
      review_ok_def repairs_ok_def busy_ok_def restorable_def log_ok_def split: option.splits)

lemma importable_inv:
  assumes "importable t"
  shows "gate_inv (new_cell t h sha)"
proof -
  have "\<exists>k\<le>gt_rounds t. r = repair_name (review_name k)" if "gt_repair t = Some r" "gt_terminal t = None" for r
    using assms that by (fastforce simp: importable_def list_ex_iff)
  with assms show ?thesis
    by (auto simp: gate_inv_def new_cell_def importable_def task_inv_def core_ok_def rounds_ok_def list_all_iff
        review_ok_def repairs_ok_def busy_ok_def log_ok_def split: option.splits)
qed

lemma start_retry_inv:
  assumes "rounds_wf policy (gs_max_rounds spec)"
  shows "post (start_retry prior cand) (\<lambda>_. gate_inv) (new_cell (retry_task run spec rs prior) h sha)"
proof -
  define c where "c = new_cell (retry_task run spec rs prior) h sha"
  define f :: "gate_task \<Rightarrow> gate_task" where "f = (\<lambda>t. t\<lparr>gt_candidate := Some (cand\<lparr>cd_run := gt_run t\<rparr>), gt_findings := gt_findings prior, gt_rounds := 1\<rparr>)"
  define d where "d = c\<lparr>ce_task := f (ce_task c)\<rparr>"
  have w: "within_rounds (ce_task d) 1" "\<And>m. gs_max_rounds spec = Some m \<Longrightarrow> 0 < m"
    using assms by (auto simp: d_def c_def f_def new_cell_def retry_task_def new_task_def within_rounds_def rounds_wf_def split: option.splits)
  then have g: "gate_inv e" "in_checks e" if "same_view d e" for e
    using that
    by (auto simp: same_view_def gate_inv_def in_checks_def d_def c_def f_def new_cell_def retry_task_def new_task_def task_inv_def
        core_ok_def rounds_ok_def within_rounds_def review_ok_def repairs_ok_def busy_ok_def restorable_def reports_def log_ok_def
        unreviewed_def list_all_iff split: option.splits)
  have p3: "post (ethen (do_call (Set_phase x y z)) run_checks_and_review) (\<lambda>_. gate_inv) e" if "same_view d e" for x y z e
    by (rule post_do_call_then) (use g same_view_trans [OF that] run_checks_post in \<open>auto\<close>)
  have p2: "post (ethen (do_call (Append (J_candidate a b k l))) (ethen (do_call (Set_phase x y z)) run_checks_and_review)) (\<lambda>_. gate_inv) e"
    if "same_view d e" for a b k l x y z e
    by (rule post_do_call_then) (use g p3 same_view_trans [OF that] in \<open>auto\<close>)
  have p1: "post (ethen (do_call (Append (J_round_admitted a' b' n i s p))) (ethen (do_call (Append (J_candidate a b k l)))
      (ethen (do_call (Set_phase x y z)) run_checks_and_review))) (\<lambda>_. gate_inv) d" for a' b' n i s p a b k l x y z
    by (rule post_do_call_then) (use g p2 in \<open>auto\<close>)
  show ?thesis
    unfolding start_retry_def post_ethen [of "upd_task f" for f] post_upd_task sum.case post_with_task c_def [symmetric] f_def [symmetric] d_def [symmetric]
    by (rule p1)
qed

lemma gate_exec_keeps:
  assumes g: "gate_inv c" and e: "gate_enabled e c"
  shows "gate_inv (snd (gate_exec e c))"
proof -
  have "post (gate_exec e) (\<lambda>_. gate_inv) c"
  proof (cases e)
    case (Ev_candidate agent generation answer)
    with candidate_settled_post [OF g] e show ?thesis by (simp add: gate_exec_def)
  next
    case (Ev_submit r raw)
    then show ?thesis
      by (simp add: gate_exec_def) (auto intro: keeps_post [OF keeps_ebind] submit_decision_keeps g)
  next
    case (Ev_continue n reply)
    with g show ?thesis
      by (auto simp: gate_exec_def continue_with_def post_ebind post_eget post_eret post_ethen post_emod intro: continue_post)
  next
    case (Ev_cancel outcome)
    have "gate_inv (c\<lparr>ce_task := (ce_task c)\<lparr>gt_terminal := Some outcome, gt_review := None\<rparr>\<rparr>)"
      using g e Ev_cancel by (simp add: gate_inv_def task_inv_def gate_enabled_def)
    then have "post (eeach (\<lambda>r. note_call (Cancel_reviewer r)) rs) (\<lambda>_. gate_inv)
        (c\<lparr>ce_task := (ce_task c)\<lparr>gt_terminal := Some outcome, gt_review := None\<rparr>\<rparr>)" for rs
      by (rule keeps_post [OF cancel_all_keeps])
    with g Ev_cancel show ?thesis
      by (simp add: gate_exec_def cancel_task_def post_with_task post_eret post_ethen post_upd_task)
  next
    case Ev_restore
    with restore_post [OF g] e show ?thesis by (simp add: gate_exec_def gate_enabled_def Let_def)
  next
    case Ev_reserve
    with g e show ?thesis
      by (auto simp: gate_exec_def post_upd_task gate_enabled_def Let_def gate_inv_def task_inv_def core_ok_def rounds_ok_def
          within_rounds_def review_ok_def repairs_ok_def busy_ok_def)
  qed (use g in \<open>auto simp: gate_exec_def intro: keeps_post [OF execution_failed_keeps] keeps_post [OF interrupt_keeps]
      keeps_post [OF mark_keeps] keeps_post [OF resume_review_keeps] keeps_post [OF set_gate_limits_keeps]\<close>)
  then show ?thesis by (simp add: post_result)
qed

lemma gate_reach_inv: "gate_reach c \<Longrightarrow> gate_inv c"
proof (induction rule: gate_reach.induct)
  case (retried policy spec prior cand run rs h sha)
  with start_retry_inv [OF retried, of prior cand run rs h sha] show ?case by (simp add: post_result)
qed (auto intro: new_task_inv importable_inv gate_exec_keeps)

section \<open>A run of one gate\<close>

fun gate_run :: "gate_event list \<Rightarrow> cell \<Rightarrow> cell" where
  "gate_run [] c = c"
| "gate_run (e # es) c = gate_run es (snd (gate_exec e c))"

fun run_enabled :: "gate_event list \<Rightarrow> cell \<Rightarrow> bool" where
  "run_enabled [] c = True"
| "run_enabled (e # es) c = (gate_enabled e c \<and> run_enabled es (snd (gate_exec e c)))"

lemma gate_run_reach: "gate_reach c \<Longrightarrow> run_enabled es c \<Longrightarrow> gate_reach (gate_run es c)"
  by (induction es c rule: gate_run.induct) (auto intro: gate_reach.step)

definition sample_fingerprint :: fingerprint where
  "sample_fingerprint = \<lparr>fp_base = None, fp_text_only = True, fp_text_hash = Some [1], fp_files = []\<rparr>"

definition willing :: "nat \<Rightarrow> host_answer" where
  "willing n = \<lparr>an_error = None, an_flag = True, an_fingerprint = sample_fingerprint, an_text = [], an_agents = []\<rparr>"

definition sample_gate_spec :: gate_spec where
  "sample_gate_spec = \<lparr>gs_mode = Gate_mode, gs_reviewers = [\<lparr>rv_model = JNull, rv_thinking = [104], rv_prompt = [112]\<rparr>],
     gs_max_rounds = Some 2, gs_checks = [], gs_outputs = [], gs_rubric = [114]\<rparr>"

definition sample_cell :: cell where
  "sample_cell = new_cell (new_task [109] [116] sample_gate_spec [119] [[1]]) willing (\<lambda>s. s)"

definition sample_blocker :: gate_finding where
  "sample_blocker = \<lparr>fi_id = [98], fi_target = [102], fi_problem = [112], fi_change = [99], fi_refs = []\<rparr>"

definition first_candidate :: jstring where
  "first_candidate = js ''candidate-'' @ nat_text 1"

definition second_candidate :: jstring where
  "second_candidate = js ''candidate-'' @ nat_text 2"

text \<open>A round that ends in a repair, and one that passes.\<close>

definition repair_round :: "gate_event list" where
  "repair_round = [Ev_candidate [109] 1 [111], Ev_submit [1] (decision_json (Revise first_candidate [sample_blocker] [])), Ev_continue 0 (Inr (None, []))]"

definition pass_round :: "gate_event list" where
  "pass_round = [Ev_candidate [109] 2 [111], Ev_submit [1] (decision_json (Approve second_candidate [])),
     Ev_continue 0 (Inr (None, [])), Ev_continue 0 (Inr (None, []))]"

lemmas effect_defs = eret_def ethrow_def ebind_def ethen_def ecatch_def eget_def emod_def host_call_def note_call_def await_def
  upd_task_def with_task_def do_call_def

lemmas gate_defs = gate_exec_def candidate_settled_def freeze_candidate_def record_candidate_def admit_round_def set_candidate_def set_round_def
  run_checks_and_review_def check_next_def finish_checks_def new_review_def fresh_panel_def start_members_def submit_decision_def
  member_of_def find_index_def record_feedback_def report_member_def continue_with_def run_continuation_def member_released_def
  finish_panel_def conclude_panel_def apply_decision_def applying_def apply_revise_def recheck_next_def verified_def terminate_def
  upd_review_def upd_member_def drop_nth_def retain_evidence_def last_n_def CHECK_EVIDENCE_HISTORY_MAX_def
  ordered_feedback_def panel_decision_def attribute_def

lemmas sample_defs = sample_cell_def new_cell_def new_task_def sample_gate_spec_def willing_def sample_fingerprint_def

lemma sample_verdicts:
  "validate_gate_decision (decision_json (Revise first_candidate [sample_blocker] [])) first_candidate [] [] = Inr (Revise first_candidate [sample_blocker] [])"
  "validate_gate_decision (decision_json (Approve second_candidate [])) second_candidate [] [] = Inr (Approve second_candidate [])"
  by (rule validate_gate_decision_json, simp add: findings_wf_def finding_wf_def sample_blocker_def)+

lemma sample_run:
  "run_enabled (repair_round @ pass_round) sample_cell"
  "gt_terminal (ce_task (gate_run repair_round sample_cell)) = None"
  "gs_max_rounds (gt_spec (ce_task (gate_run repair_round sample_cell))) = Some 2"
  "gt_terminal (ce_task (gate_run (repair_round @ pass_round) sample_cell)) = Some Out_passed"
  using sample_verdicts unfolding first_candidate_def second_candidate_def
  by (simp_all add: repair_round_def pass_round_def effect_defs gate_defs sample_defs first_candidate_def second_candidate_def
      gate_enabled_def Let_def numeral_2_eq_2)

lemma sample_reach:
  "gate_reach sample_cell" "gate_reach (gate_run repair_round sample_cell)" "gate_reach (gate_run (repair_round @ pass_round) sample_cell)"
proof -
  show c: "gate_reach sample_cell"
    unfolding sample_cell_def
    by (rule gate_reach.registered [of default_supervisor_policy])
      (simp add: rounds_wf_def sample_gate_spec_def default_supervisor_policy_def)
  have split: "run_enabled (es @ fs) c \<Longrightarrow> run_enabled es c" for es fs c
    by (induction es c rule: run_enabled.induct) auto
  show "gate_reach (gate_run repair_round sample_cell)" "gate_reach (gate_run (repair_round @ pass_round) sample_cell)"
    using sample_run(1) by (auto intro!: gate_run_reach c dest: split)
qed

section \<open>What a pass, a round and a repair mean\<close>

text \<open>
  C16. A gate passes only unanimously: when a reachable gated task has the outcome "passed", it is
  an acceptance gate (not a one-shot review), and every member of its reviewer panel has exactly one
  report on the last round, an approval of the recorded candidate.
\<close>

theorem pass_is_unanimous:
  assumes "gate_reach c" and "gt_terminal (ce_task c) = Some Out_passed"
  shows "\<exists>cand. gt_candidate (ce_task c) = Some cand \<and> gs_mode (gt_spec (ce_task c)) = Gate_mode \<and>
    (\<forall>i<length (gs_reviewers (gt_spec (ce_task c))). \<exists>f advisories.
       filter (\<lambda>f. fb_round f = gt_rounds (ce_task c) \<and> fb_index f = i) (gt_feedback (ce_task c)) = [f] \<and>
       fb_verdict f = Some (Approve (cd_id cand) advisories))"
proof -
  have sole: "\<exists>f as. fs = [f] \<and> fb_verdict f = Some (Approve k as)" if "sole_approval k fs" for k fs
    using that by (cases "(k, fs)" rule: sole_approval.cases) (auto split: option.splits gate_decision.splits)
  have "unanimous (ce_task c)" using gate_reach_inv [OF assms(1)] assms(2) by (simp add: gate_inv_def task_inv_def)
  then show ?thesis
    by (force simp: unanimous_def list_all_iff reports_def dest: sole split: option.splits)
qed

theorem pass_is_unanimous_witness:
  "\<exists>cand. gt_candidate (ce_task (gate_run (repair_round @ pass_round) sample_cell)) = Some cand \<and>
     gs_mode (gt_spec (ce_task (gate_run (repair_round @ pass_round) sample_cell))) = Gate_mode"
  using pass_is_unanimous [OF sample_reach(3) sample_run(4)] by blast

text \<open>
  C23. Rounds stay within the limit: a reachable gated task that is not terminal and whose limit is
  \<open>m\<close> rounds has admitted at most \<open>m\<close>, and while a repair is reserved there is room for one more,
  whatever limits were set on the way.
\<close>

theorem rounds_within_limit:
  assumes "gate_reach c" and "gt_terminal (ce_task c) = None" and "gs_max_rounds (gt_spec (ce_task c)) = Some m"
  shows "int (gt_rounds (ce_task c)) \<le> m \<and> (gt_reserved (ce_task c) \<longrightarrow> int (gt_rounds (ce_task c)) + 1 \<le> m)"
  using gate_reach_inv [OF assms(1)] assms(2,3)
  by (auto simp: gate_inv_def task_inv_def core_ok_def rounds_ok_def within_rounds_def)

theorem rounds_within_limit_witness:
  "int (gt_rounds (ce_task (gate_run repair_round sample_cell))) \<le> 2"
  using rounds_within_limit [OF sample_reach(2) sample_run(2,3)] by simp

text \<open>
  C17. The repair loop terminates: of the repairs a gate ever orders, no two are for the same review,
  and a gate limited to \<open>m\<close> rounds orders fewer than \<open>m\<close>, even when reviews are interrupted,
  resumed and concluded again.
\<close>

theorem repair_loop_bounded:
  assumes "gate_reach c"
  shows "distinct (repairs (ce_log c)) \<and>
    (\<forall>m. gs_max_rounds (gt_spec (ce_task c)) = Some m \<longrightarrow> repairs (ce_log c) = [] \<or> int (length (repairs (ce_log c))) < m)"
  using gate_reach_inv [OF assms] by (auto simp: gate_inv_def task_inv_def log_ok_def)

theorem repair_loop_bounded_witness:
  "repairs (ce_log (gate_run repair_round sample_cell)) = [] \<or> int (length (repairs (ce_log (gate_run repair_round sample_cell)))) < 2"
  using repair_loop_bounded [OF sample_reach(2)] sample_run(3) by simp

section \<open>A terminal task\<close>

fun is_evidence :: "host_request \<Rightarrow> bool" where
  "is_evidence (Append (J_evidence _ _ _ _)) = True"
| "is_evidence _ = False"

definition frozen :: "cell \<Rightarrow> cell \<Rightarrow> bool" where
  "frozen c d \<longleftrightarrow> gt_terminal (ce_task d) = gt_terminal (ce_task c) \<and> gt_candidate (ce_task d) = gt_candidate (ce_task c) \<and>
     gt_rounds (ce_task d) = gt_rounds (ce_task c) \<and> gt_feedback (ce_task d) = gt_feedback (ce_task c) \<and>
     (\<exists>ks. ce_log d = ce_log c @ ks \<and> list_all is_evidence ks)"

lemma frozen_refl [simp]: "frozen c c"
  by (simp add: frozen_def)

lemma frozen_pending [simp]: "frozen c (c\<lparr>ce_pending := ks\<rparr>)"
  by (simp add: frozen_def)

lemma check_next_frozen:
  assumes "gt_terminal (ce_task d) = Some x" and "frozen c d"
  shows "post (check_next todo evidence) (\<lambda>_. frozen c) d"
proof -
  have "list_all is_evidence (ks @ [Append (J_evidence a b r e)])" if "list_all is_evidence ks" for ks a b r e
    using that by simp
  with assms show ?thesis
    by (auto simp: check_next_def finish_checks_def admission_failed_def terminate_quietly_def terminate_def post_simps do_call_def
        Let_def frozen_def split: list.split option.split)
qed

lemma continuation_frozen:
  assumes "gt_terminal (ce_task d) = Some x" and "frozen c d"
  shows "post (run_continuation k reply) (\<lambda>_. frozen c) d"
proof -
  have "frozen c (d\<lparr>ce_pending := ks\<rparr>)" for ks using assms(2) by (simp add: frozen_def)
  with assms check_next_frozen [OF assms] show ?thesis
    by (cases k) (auto simp: run_continuation_def check_done_def recheck_done_def recheck_next_def verified_def application_failed_def
        cleanup_failed_def member_released_def applying_def terminate_quietly_def terminate_def post_simps
        split: list.split sum.split option.split)
qed

text \<open>
  C18. A terminal gate is final: whatever happens to a task that has an outcome, its outcome, its
  candidate, its rounds and its reports stay as they are, and nothing is asked of the supervisor any
  more, no check, reviewer, repair or settlement; at most the evidence of checks that were already
  running is journaled.
\<close>

theorem terminal_is_final:
  assumes "gt_terminal (ce_task c) \<noteq> None"
  shows "frozen c (snd (gate_exec e c))"
proof -
  obtain x where x: "gt_terminal (ce_task c) = Some x" using assms by auto
  have "post (gate_exec e) (\<lambda>_. frozen c) c"
  proof (cases e)
    case (Ev_continue n reply)
    with continuation_frozen [of "c\<lparr>ce_pending := ks\<rparr>" x c for ks] x show ?thesis
      by (simp add: gate_exec_def continue_with_def post_simps)
  next
    case (Ev_limits ceil limit command)
    with x show ?thesis by (simp add: gate_exec_def set_gate_limits_def post_simps)
  next
    case (Ev_submit r raw)
    with x show ?thesis by (simp add: gate_exec_def submit_decision_def post_simps)
  qed (use x in \<open>auto simp: gate_exec_def candidate_settled_def execution_failed_def cancel_task_def interrupt_for_agent_def
      mark_interrupted_for_recovery_def resume_review_def restore_review_def frozen_def post_simps split: option.split\<close>)
  then show ?thesis by (simp add: post_result)
qed

theorem terminal_is_final_witness:
  "frozen (gate_run (repair_round @ pass_round) sample_cell)
     (snd (gate_exec (Ev_submit [1] (decision_json (Approve second_candidate []))) (gate_run (repair_round @ pass_round) sample_cell)))"
  by (rule terminal_is_final) (simp add: sample_run(4))

section \<open>The decision of a panel and its verdicts\<close>

lemma digits_of_range: "c \<in> set (digits_of n) \<Longrightarrow> 48 \<le> c \<and> c \<le> 57"
proof (induction n rule: digits_of.induct)
  case (1 n)
  from "1.prems" show ?case
    by (subst (asm) digits_of.simps) (auto split: if_splits dest: "1.IH")
qed

lemma attribute_inj:
  assumes "fi_id (attribute n i f) = fi_id (attribute n j g)" and "n \<noteq> 1"
  shows "i = j \<and> fi_id f = fi_id g"
proof -
  have "nat_text (Suc i) @ js ''/'' @ fi_id f = nat_text (Suc j) @ js ''/'' @ fi_id g"
    using assms by (simp add: attribute_def)
  then have e: "nat_text (Suc i) @ 47 # fi_id f = nat_text (Suc j) @ 47 # fi_id g" by (simp add: js_def)
  have t: "takeWhile (\<lambda>c. c \<noteq> 47) (nat_text k @ 47 # x) = nat_text k" for k x
    by (subst takeWhile_append2) (auto simp: nat_text_def dest: digits_of_range)
  from arg_cong [OF e, of "takeWhile (\<lambda>c. c \<noteq> 47)"] have "nat_text (Suc i) = nat_text (Suc j)" unfolding t .
  then have "i = j" by (simp add: nat_text_def)
  with e show ?thesis by simp
qed

lemma attribute_wf: "finding_wf cand paths checks f \<Longrightarrow> finding_wf cand paths checks (attribute n i f)"
  by (auto simp: finding_wf_def attribute_def)

lemma distinct_attributed:
  assumes "distinct (map fb_index fs)" and "\<And>f. f \<in> set fs \<Longrightarrow> distinct (map fi_id (g f))" and "n = length fs"
  shows "distinct (map fi_id (concat (map (\<lambda>f. map (attribute n (fb_index f)) (g f)) fs)))"
proof (cases "n = 1")
  case True
  with assms obtain f where "fs = [f]" by (cases fs) auto
  with True assms(2) [of f] show ?thesis by (simp add: attribute_def comp_def)
next
  case False
  have "distinct (map fi_id (concat (map (\<lambda>f. map (attribute n (fb_index f)) (g f)) hs)))"
    if "distinct (map fb_index hs)" "set hs \<subseteq> set fs" for hs
    using that
  proof (induction hs)
    case (Cons h hs)
    have "distinct (map (\<lambda>x. fi_id (attribute n (fb_index h) x)) (g h))"
      using assms(2) [of h] Cons.prems(2) False by (auto simp: distinct_map inj_on_def dest!: attribute_inj)
    moreover have "set (map fi_id (map (attribute n (fb_index h)) (g h))) \<inter>
        set (map fi_id (concat (map (\<lambda>f. map (attribute n (fb_index f)) (g f)) hs))) = {}"
      using Cons.prems(1) False by (auto dest!: attribute_inj)
    ultimately show ?case using Cons by (auto simp: comp_def)
  qed simp
  with assms(1) show ?thesis by blast
qed

lemma attributed_wf:
  assumes "distinct (map fb_index fs)" and "\<And>f. f \<in> set fs \<Longrightarrow> findings_wf cand paths checks (g f)"
  shows "findings_wf cand paths checks (concat (map (\<lambda>f. map (attribute (length fs) (fb_index f)) (g f)) fs))"
  using distinct_attributed [OF assms(1), of g "length fs"] assms(2)
  by (fastforce simp: findings_wf_def list_all_iff intro: attribute_wf)

definition is_kind :: "gate_decision option \<Rightarrow> nat \<Rightarrow> bool" where
  "is_kind v k = (case v of Some (Approve _ _) \<Rightarrow> k = 0 | Some (Revise _ _ _) \<Rightarrow> k = 1 | Some (Blocked _ _ _) \<Rightarrow> k = 2 | None \<Rightarrow> False)"

lemma verdict_parts:
  assumes "fb_verdict f = Some d" and "decision_wf cand paths checks d"
  shows "blockers_of (fb_verdict f) \<noteq> [] \<longleftrightarrow> is_kind (fb_verdict f) 1"
    "blocked_reasons i (fb_verdict f) \<noteq> [] \<longleftrightarrow> is_kind (fb_verdict f) 2"
    "findings_wf cand paths checks (blockers_of (fb_verdict f))" "findings_wf cand paths checks (advisories_of (fb_verdict f))"
    "list_all (\<lambda>p. p \<noteq> []) (prerequisites_of (fb_verdict f))" "is_kind (fb_verdict f) 2 \<Longrightarrow> prerequisites_of (fb_verdict f) \<noteq> []"
    "x \<in> set (blocked_reasons i (fb_verdict f)) \<Longrightarrow> x \<noteq> []"
  using assms by (cases d; auto simp: is_kind_def findings_wf_def)+

lemma join_on_ne: "ps \<noteq> [] \<Longrightarrow> (\<And>p. p \<in> set ps \<Longrightarrow> p \<noteq> []) \<Longrightarrow> join_on c ps \<noteq> []"
  by (induction c ps rule: join_on.induct) auto

lemma panel_decision_facts:
  assumes "distinct (map fb_index fs)"
    and "\<And>f. f \<in> set fs \<Longrightarrow> \<exists>d. fb_verdict f = Some d \<and> decision_wf cand paths checks d"
  shows "decision_wf cand paths checks (panel_decision cand fs)"
    and "is_kind (Some (panel_decision cand fs)) 2 \<longleftrightarrow> (\<exists>f\<in>set fs. is_kind (fb_verdict f) 2)"
    and "is_kind (Some (panel_decision cand fs)) 1 \<longleftrightarrow>
      (\<exists>f\<in>set fs. is_kind (fb_verdict f) 1) \<and> \<not> (\<exists>f\<in>set fs. is_kind (fb_verdict f) 2)"
    and "is_kind (Some (panel_decision cand fs)) 0 \<longleftrightarrow> (\<forall>f\<in>set fs. is_kind (fb_verdict f) 0)"
proof -
  define blockers where "blockers = concat (map (\<lambda>f. map (attribute (length fs) (fb_index f)) (blockers_of (fb_verdict f))) fs)"
  define advisories where "advisories = concat (map (\<lambda>f. map (attribute (length fs) (fb_index f)) (advisories_of (fb_verdict f))) fs)"
  define reasons where "reasons = concat (map (\<lambda>f. blocked_reasons (fb_index f) (fb_verdict f)) fs)"
  define pre where "pre = concat (map (\<lambda>f. prerequisites_of (fb_verdict f)) fs)"
  have pd: "panel_decision cand fs = (if reasons \<noteq> [] then Blocked cand (join_lines reasons) pre
      else if blockers \<noteq> [] then Revise cand blockers advisories else Approve cand advisories)"
    by (simp add: panel_decision_def Let_def blockers_def advisories_def reasons_def pre_def)
  note vp = verdict_parts [of _ _ cand paths checks]
  have b: "blockers \<noteq> [] \<longleftrightarrow> (\<exists>f\<in>set fs. is_kind (fb_verdict f) 1)"
    using vp(1) assms(2) by (fastforce simp: blockers_def)
  have r: "reasons \<noteq> [] \<longleftrightarrow> (\<exists>f\<in>set fs. is_kind (fb_verdict f) 2)"
    using vp(2) assms(2) by (fastforce simp: reasons_def)
  have parts: "findings_wf cand paths checks (blockers_of (fb_verdict f))" "findings_wf cand paths checks (advisories_of (fb_verdict f))"
    if "f \<in> set fs" for f using assms(2) [OF that] vp(3,4) by blast+
  have wf: "findings_wf cand paths checks blockers" "findings_wf cand paths checks advisories"
    unfolding blockers_def advisories_def using parts
    by (auto intro!: attributed_wf [OF assms(1), of cand paths checks "\<lambda>f. blockers_of (fb_verdict f)"]
        attributed_wf [OF assms(1), of cand paths checks "\<lambda>f. advisories_of (fb_verdict f)"])
  have pn: "list_all (\<lambda>p. p \<noteq> []) pre" using vp(5) assms(2) by (fastforce simp: pre_def list_all_iff)
  have pne: "pre \<noteq> []" if "reasons \<noteq> []" using that r vp(6) assms(2) by (fastforce simp: pre_def)
  have rne: "x \<noteq> []" if x: "x \<in> set reasons" for x
  proof -
    from x obtain f where f: "f \<in> set fs" "x \<in> set (blocked_reasons (fb_index f) (fb_verdict f))" by (auto simp: reasons_def)
    then obtain d where "fb_verdict f = Some d" "decision_wf cand paths checks d" using assms(2) by blast
    from vp(7) [OF this f(2)] show ?thesis .
  qed
  have rn: "join_lines reasons \<noteq> []" if "reasons \<noteq> []"
    unfolding join_lines_def by (rule join_on_ne [OF that rne])
  show "decision_wf cand paths checks (panel_decision cand fs)"
    using pd wf pn pne rn by simp
  show "is_kind (Some (panel_decision cand fs)) 2 \<longleftrightarrow> (\<exists>f\<in>set fs. is_kind (fb_verdict f) 2)"
    using pd r by (simp add: is_kind_def)
  show "is_kind (Some (panel_decision cand fs)) 1 \<longleftrightarrow>
      (\<exists>f\<in>set fs. is_kind (fb_verdict f) 1) \<and> \<not> (\<exists>f\<in>set fs. is_kind (fb_verdict f) 2)"
    using pd r b by (auto simp: is_kind_def)
  have "is_kind (fb_verdict f) 0 \<longleftrightarrow> \<not> is_kind (fb_verdict f) 1 \<and> \<not> is_kind (fb_verdict f) 2" if f: "f \<in> set fs" for f
  proof -
    obtain d where "fb_verdict f = Some d" using assms(2) [OF f] by blast
    then show ?thesis by (cases d) (simp_all add: is_kind_def)
  qed
  then show "is_kind (Some (panel_decision cand fs)) 0 \<longleftrightarrow> (\<forall>f\<in>set fs. is_kind (fb_verdict f) 0)"
    using pd r b by (auto simp: is_kind_def [of "Some x" for x])
qed

text \<open>
  C19. The decision of a panel follows from its verdicts: it is "blocked" exactly when some member is
  blocked, "revise" exactly when none is blocked and some member wants a revision, and "approve"
  exactly when all approve; and it is itself a well-formed verdict on the candidate, its finding ids
  distinct although different members may have used the same ids.
\<close>

theorem panel_decision_sound:
  assumes "distinct (map fb_index fs)"
    and "\<And>f. f \<in> set fs \<Longrightarrow> \<exists>d. fb_verdict f = Some d \<and> decision_wf cand paths checks d"
  shows "decision_wf cand paths checks (panel_decision cand fs) \<and>
    (is_kind (Some (panel_decision cand fs)) 2 \<longleftrightarrow> (\<exists>f\<in>set fs. is_kind (fb_verdict f) 2)) \<and>
    (is_kind (Some (panel_decision cand fs)) 1 \<longleftrightarrow>
      (\<exists>f\<in>set fs. is_kind (fb_verdict f) 1) \<and> \<not> (\<exists>f\<in>set fs. is_kind (fb_verdict f) 2)) \<and>
    (is_kind (Some (panel_decision cand fs)) 0 \<longleftrightarrow> (\<forall>f\<in>set fs. is_kind (fb_verdict f) 0))"
  using panel_decision_facts [OF assms] by blast

definition sample_reports :: "gate_feedback list" where
  "sample_reports = map (\<lambda>i. \<lparr>fb_round = 1, fb_index = i, fb_reviewer = [i], fb_review = [], fb_candidate = [99],
     fb_verdict = Some (Revise [99] [sample_blocker] []), fb_error = None\<rparr>) [0, 1]"

theorem panel_decision_sound_witness:
  "decision_wf [99] [] [] (panel_decision [99] sample_reports) \<and> is_kind (Some (panel_decision [99] sample_reports)) 1"
proof -
  have w: "distinct (map fb_index sample_reports)"
    "\<And>f. f \<in> set sample_reports \<Longrightarrow> \<exists>d. fb_verdict f = Some d \<and> decision_wf [99] [] [] d"
    by (auto simp: sample_reports_def findings_wf_def finding_wf_def sample_blocker_def)
  have "is_kind (fb_verdict f) 1 \<and> \<not> is_kind (fb_verdict f) 2" if "f \<in> set sample_reports" for f
    using that by (auto simp: sample_reports_def is_kind_def)
  then show ?thesis
    using panel_decision_sound [OF w] by (auto simp: sample_reports_def)
qed

end
