(* ===== verification/GateTasks.thy ===== *)
theory GateTasks
  imports GateSafety
begin

text \<open>
  The gate of all tasks (\<open>GateController\<close> of \<open>ponygirls-subagents/src/gate.ts\<close>): its maps from
  runs to tasks, from reviewers to the run they review and to the agent that owns them, and the
  command ids it has seen. Every task keeps its own cell (\<open>GatePanel\<close>) with its own calls, so the
  order of calls is kept per task; the calls of the controller itself (registration, retry,
  bypass) are in the controller's own log. \<open>gk_cell_host\<close> gives each run's cell the answers of
  the supervisor. The main result is a refinement: what a controller does to one of its tasks is a
  sequence of steps of that task alone, so everything proved of one gated task holds of all.
\<close>

section \<open>State\<close>

record gate_ctl =
  gk_tasks :: "(run_id \<times> cell) list"
  gk_reviewers :: "agent_id list"
  gk_current :: "(agent_id \<times> run_id) list"
  gk_owners :: "(agent_id \<times> agent_id) list"
  gk_commands :: "(jstring \<times> (jstring \<times> run_id)) list"
  gk_log :: "host_request list"
  gk_host :: "nat \<Rightarrow> host_answer"
  gk_cell_host :: "run_id \<Rightarrow> nat \<Rightarrow> host_answer"
  gk_sha256 :: "jstring \<Rightarrow> jstring"

type_synonym 'a ctl_eff = "(gate_ctl, gate_err, 'a) eff"

definition new_gate_ctl :: "(nat \<Rightarrow> host_answer) \<Rightarrow> (run_id \<Rightarrow> nat \<Rightarrow> host_answer) \<Rightarrow> (jstring \<Rightarrow> jstring) \<Rightarrow> gate_ctl" where
  "new_gate_ctl h ch sha =
     \<lparr>gk_tasks = [], gk_reviewers = [], gk_current = [], gk_owners = [], gk_commands = [], gk_log = [],
      gk_host = h, gk_cell_host = ch, gk_sha256 = sha\<rparr>"

definition gate_cell :: "gate_ctl \<Rightarrow> run_id \<Rightarrow> cell option" where
  "gate_cell k run = map_of (gk_tasks k) run"

text \<open>\<open>inspect\<close>: the task of a run.\<close>

definition gate_inspect :: "gate_ctl \<Rightarrow> run_id \<Rightarrow> gate_task option" where
  "gate_inspect k run = map_option ce_task (gate_cell k run)"

definition put_cell :: "run_id \<Rightarrow> cell \<Rightarrow> gate_ctl \<Rightarrow> gate_ctl" where
  "put_cell run c k = k\<lparr>gk_tasks := map_put run c (gk_tasks k)\<rparr>"

text \<open>An operation on the task of a run; \<open>none\<close> is the result when there is no such task.\<close>

definition on_task :: "'a ctl_eff \<Rightarrow> run_id \<Rightarrow> 'a gate_eff \<Rightarrow> 'a ctl_eff" where
  "on_task none run m k =
     (case gate_cell k run of
        None \<Rightarrow> none k
      | Some c \<Rightarrow> (case m c of (r, d) \<Rightarrow> (r, put_cell run d k)))"

definition ctl_call :: "host_request \<Rightarrow> host_answer ctl_eff" where
  "ctl_call q k =
     (let a = gk_host k (length (gk_log k)); l = k\<lparr>gk_log := gk_log k @ [q]\<rparr> in
      case an_error a of Some m \<Rightarrow> (Inl (js ''HOST'', m), l) | None \<Rightarrow> (Inr a, l))"

definition ctl_do :: "host_request \<Rightarrow> unit ctl_eff" where
  "ctl_do q = ebind (ctl_call q) (\<lambda>_. eret ())"

section \<open>Reviewer identities\<close>

definition is_reviewer :: "gate_ctl \<Rightarrow> agent_id \<Rightarrow> bool" where
  "is_reviewer k a \<longleftrightarrow> a \<in> set (gk_reviewers k)"

definition managed_task_for :: "gate_ctl \<Rightarrow> agent_id \<Rightarrow> run_id option" where
  "managed_task_for k a =
     (case map_of (gk_current k) a of
        Some run \<Rightarrow> if run \<noteq> [] then Some run
          else map_option (\<lambda>(run, c). gt_run (ce_task c))
            (List.find (\<lambda>(run, c). gt_agent (ce_task c) = a \<and> gt_terminal (ce_task c) = None) (gk_tasks k))
      | None \<Rightarrow> map_option (\<lambda>(run, c). gt_run (ce_task c))
            (List.find (\<lambda>(run, c). gt_agent (ce_task c) = a \<and> gt_terminal (ce_task c) = None) (gk_tasks k)))"

definition reviewers_of :: "gate_ctl \<Rightarrow> agent_id \<Rightarrow> agent_id list" where
  "reviewers_of k a =
     foldl (\<lambda>out (run, c). if gt_agent (ce_task c) = a then foldl (\<lambda>acc r. set_add r acc) out (gt_reviewers (ce_task c)) else out)
       (foldl (\<lambda>out (r, ow). if ow = a then set_add r out else out) [] (gk_owners k)) (gk_tasks k)"

datatype review_state = Undecided_review | Decided_review | No_review

definition inspect_for :: "gate_ctl \<Rightarrow> agent_id \<Rightarrow> review_state" where
  "inspect_for k r =
     (case map_of (gk_current k) r of
        None \<Rightarrow> No_review
      | Some run \<Rightarrow>
        if run = [] then No_review
        else (case gate_inspect k run of
          None \<Rightarrow> No_review
        | Some t \<Rightarrow>
          if gt_terminal t \<noteq> None then No_review
          else case member_of t r of
            None \<Rightarrow> No_review
          | Some (i, m) \<Rightarrow> if pm_used m then Decided_review
                           else if pm_status m = Member_running then Undecided_review else No_review))"

definition link_reviewer :: "agent_id \<Rightarrow> run_id \<Rightarrow> agent_id option \<Rightarrow> gate_ctl \<Rightarrow> gate_ctl" where
  "link_reviewer r run owner k0 =
     (let k = k0\<lparr>gk_reviewers := set_add r (gk_reviewers k0),
                  gk_owners := (case owner of None \<Rightarrow> gk_owners k0 | Some a \<Rightarrow> map_put r a (gk_owners k0))\<rparr>
      in case gate_cell k run of
        None \<Rightarrow> k\<lparr>gk_current := map_put r run (gk_current k)\<rparr>
      | Some c \<Rightarrow>
        let k = put_cell run (c\<lparr>ce_task := link_task r (ce_task c)\<rparr>) k in
        if gt_terminal (ce_task c) = None \<or> map_of (gk_current k) r = None
        then k\<lparr>gk_current := map_put r run (gk_current k)\<rparr> else k)"

definition link_all :: "agent_id list \<Rightarrow> run_id \<Rightarrow> agent_id option \<Rightarrow> gate_ctl \<Rightarrow> gate_ctl" where
  "link_all rs run owner k = foldl (\<lambda>k r. link_reviewer r run owner k) k rs"

section \<open>Registration and import\<close>

definition register_task :: "agent_id \<Rightarrow> run_id \<Rightarrow> gate_spec \<Rightarrow> jstring \<Rightarrow> agent_id list \<Rightarrow> unit ctl_eff" where
  "register_task agent run spec text rs = ebind eget (\<lambda>k.
     if gate_cell k run \<noteq> None then ethrow (gate_err ''CONFLICT'' (js ''gate already registered for '' @ run))
     else if length rs \<noteq> length (gs_reviewers spec)
     then ethrow (gate_err ''INVALID'' (js ''reviewer identities do not match the panel''))
     else ethen (ctl_do (Append (J_registered agent run spec (take 65536 text) None rs)))
            (emod (\<lambda>k. link_all rs run (Some agent)
              (put_cell run (new_cell (new_task agent run spec text rs) (gk_cell_host k run) (gk_sha256 k)) k))))"

text \<open>\<open>importTask\<close> takes everything but the review and the reservation from the journal.\<close>

definition import_task :: "gate_task \<Rightarrow> gate_ctl \<Rightarrow> gate_ctl" where
  "import_task restored k =
     (let run = gt_run restored; t = restored\<lparr>gt_review := None, gt_reserved := False\<rparr> in
      if gate_cell k run \<noteq> None then k
      else link_all (gt_reviewers restored) run (Some (gt_agent restored))
             (put_cell run (new_cell t (gk_cell_host k run) (gk_sha256 k)) k))"

section \<open>Events of the tasks\<close>

definition ctl_candidate :: "agent_id \<Rightarrow> run_id \<Rightarrow> int \<Rightarrow> jstring \<Rightarrow> unit ctl_eff" where
  "ctl_candidate agent run generation text = on_task (eret ()) run (candidate_settled agent generation text)"

definition ctl_submit :: "agent_id \<Rightarrow> js_value \<Rightarrow> (gate_err + unit) ctl_eff" where
  "ctl_submit r raw = ebind eget (\<lambda>k.
     let none = eret (Inl (gate_err ''STALE_GENERATION'' (js ''no active review for this reviewer'')))
     in case map_of (gk_current k) r of
       None \<Rightarrow> none
     | Some run \<Rightarrow> if run = [] then none else on_task none run (submit_decision r raw))"

definition ctl_failed :: "agent_id \<Rightarrow> jstring \<Rightarrow> unit ctl_eff" where
  "ctl_failed r diagnostics = ebind eget (\<lambda>k. case map_of (gk_current k) r of
       None \<Rightarrow> eret ()
     | Some run \<Rightarrow> if run = [] then eret () else on_task (eret ()) run (execution_failed r diagnostics))"

definition ctl_cancel :: "run_id \<Rightarrow> gate_outcome \<Rightarrow> unit ctl_eff" where
  "ctl_cancel run outcome = on_task (eret ()) run (cancel_task outcome)"

text \<open>The loops over all tasks, in the order of their registration.\<close>

definition ctl_interrupt :: "agent_id \<Rightarrow> bool \<Rightarrow> unit ctl_eff" where
  "ctl_interrupt agent main_active = ebind eget (\<lambda>k.
     eeach (\<lambda>run. on_task (eret ()) run (interrupt_for_agent agent main_active)) (map fst (gk_tasks k)))"

definition ctl_recover :: "unit ctl_eff" where
  "ctl_recover = ebind eget (\<lambda>k. eeach (\<lambda>run. on_task (eret ()) run mark_interrupted_for_recovery) (map fst (gk_tasks k)))"

section \<open>Commands of the governor\<close>

definition dedup_command :: "jstring \<Rightarrow> jstring \<Rightarrow> run_id \<Rightarrow> unit ctl_eff" where
  "dedup_command cid action run = ebind eget (\<lambda>k.
     case map_of (gk_commands k) cid of
       Some prior \<Rightarrow>
         if prior = (action, run) then ethrow (gate_err ''DUPLICATE_REQUEST'' (js ''command '' @ cid @ js '' already applied''))
         else ethrow (gate_err ''DUPLICATE_REQUEST'' (js ''conflicting reuse of command '' @ cid))
     | None \<Rightarrow> emod (\<lambda>k. k\<lparr>gk_commands := map_put cid (action, run) (gk_commands k)\<rparr>))"

definition no_live_task :: "run_id \<Rightarrow> 'a ctl_eff" where
  "no_live_task run = ethrow (gate_err ''NOT_FOUND'' (js ''no nonterminal gated task '' @ run))"

definition ctl_resume_review :: "run_id \<Rightarrow> jstring \<Rightarrow> jstring \<Rightarrow> unit ctl_eff" where
  "ctl_resume_review run review cid =
     ethen (dedup_command cid (js ''resume_review'') run) (on_task (no_live_task run) run (resume_review review))"

definition ctl_set_limits :: "supervisor_policy \<Rightarrow> run_id \<Rightarrow> int option \<Rightarrow> jstring \<Rightarrow> unit ctl_eff" where
  "ctl_set_limits policy run limit cid =
     ethen (dedup_command cid (js ''set_limits'') run)
       (on_task (no_live_task run) run (set_gate_limits (p_gate_ceiling policy) limit cid))"

text \<open>\<open>randomUUID\<close> is the supervisor's answer too; \<open>prior_candidate\<close> is the common guard of retry and bypass.\<close>

definition random_uuid :: "jstring ctl_eff" where
  "random_uuid = ebind (ctl_call Random_uuid) (\<lambda>a. eret (an_text a))"

definition prior_candidate :: "run_id \<Rightarrow> jstring \<Rightarrow> jstring \<Rightarrow> jstring \<Rightarrow> (gate_task \<times> candidate) ctl_eff" where
  "prior_candidate run cand missing mismatch = ebind eget (\<lambda>k.
     case gate_inspect k run of
       None \<Rightarrow> ethrow (gate_err ''NOT_FOUND'' (js ''no terminal run '' @ run))
     | Some prior \<Rightarrow>
       if gt_terminal prior = None then ethrow (gate_err ''NOT_FOUND'' (js ''no terminal run '' @ run))
       else case gt_candidate prior of
         None \<Rightarrow> ethrow (gate_err ''NOT_FOUND'' missing)
       | Some c \<Rightarrow>
         if cd_id c \<noteq> cand then ethrow (gate_err ''NOT_FOUND'' missing)
         else ebind (ctl_call (Quiescent (gt_agent prior))) (\<lambda>q.
           if \<not> an_flag q then ethrow (gate_err ''CONFLICT'' (js ''actor/workspace not quiescent''))
           else ebind (ctl_call (Workspace_matches (gt_agent prior) c)) (\<lambda>w.
             if \<not> an_flag w then ethrow (gate_err ''CONFLICT'' mismatch) else eret (prior, c))))"

text \<open>The errors of \<open>normalizeGateSpec\<close> as they are thrown; a \<open>TypeError\<close> of the engine has no code.\<close>

fun spec_failure :: "spec_error \<Rightarrow> gate_err" where
  "spec_failure Not_an_object = gate_err ''INVALID'' (js ''review configuration must be an object'')"
| "spec_failure Review_with_gate_fields = gate_err ''INVALID'' (js ''review does not accept gate rounds, checks, or promised outputs'')"
| "spec_failure Model_and_reviewers = gate_err ''INVALID'' (js ''pass model or reviewers, not both'')"
| "spec_failure Reviewers_empty = gate_err ''INVALID'' (js ''reviewers must be a nonempty array'')"
| "spec_failure Reviewer_model = gate_err ''INVALID'' (js ''reviewer.model must carry nonempty provider/id'')"
| "spec_failure Reviewer_thinking = gate_err ''INVALID'' (js ''reviewer.thinkingLevel required (per reviewer or shared)'')"
| "spec_failure Reviewer_prompt = gate_err ''INVALID'' (js ''reviewer.prompt required (per reviewer or shared)'')"
| "spec_failure (Reviewer_not_allowed provider mid) =
     gate_err ''POLICY_DENIED'' (js ''reviewer model '' @ provider @ js ''/'' @ mid @ js '' not in root allowlist'')"
| "spec_failure Unlimited_forbidden = gate_err ''POLICY_DENIED'' (js ''root policy forbids unlimited agreement rounds'')"
| "spec_failure Rounds_not_positive = gate_err ''INVALID'' (js ''gate.maxRounds must be a positive integer or null'')"
| "spec_failure (Rounds_over_ceiling m) = gate_err ''POLICY_DENIED'' (js ''gate.maxRounds exceeds root ceiling '' @ int_text m)"
| "spec_failure Check_ids = gate_err ''INVALID'' (js ''gate checks need unique ids'')"
| "spec_failure (Check_command i) = gate_err ''INVALID'' (js ''gate check '' @ i @ js '' needs a command'')"
| "spec_failure (Check_too_long i) =
     gate_err ''PAYLOAD_TOO_LARGE'' (js ''gate check '' @ i @ js '' command exceeds '' @ nat_text MAX_COMMAND_BYTES @ js '' bytes'')"
| "spec_failure (Check_timeout i) =
     gate_err ''INVALID'' (js ''gate check '' @ i @ js '' timeoutMs must be an integer in 1..'' @ int_text BASH_MAX_TIMEOUT_MS)"
| "spec_failure Bad_outputs = gate_err ''INVALID'' (js ''gate promisedOutputs must be nonempty paths'')"
| "spec_failure Spec_type_error = gate_err ''TypeError'' []"

definition validate_gate_spec ::
  "(js_num \<Rightarrow> jstring) \<Rightarrow> js_value \<Rightarrow> supervisor_policy \<Rightarrow> gate_mode \<Rightarrow> gate_spec ctl_eff" where
  "validate_gate_spec nt inp policy mode =
     (case normalize_gate_spec nt inp policy mode of Inl e \<Rightarrow> ethrow (spec_failure e) | Inr s \<Rightarrow> eret s)"

definition same_reviewers :: "(js_num \<Rightarrow> jstring) \<Rightarrow> gate_spec \<Rightarrow> gate_spec \<Rightarrow> bool" where
  "same_reviewers nt a b \<longleftrightarrow>
     json_text nt (JArr (map reviewer_value (gs_reviewers a))) = json_text nt (JArr (map reviewer_value (gs_reviewers b)))"

text \<open>
  The panel of a retry: the prior one when the reviewers are the same; otherwise the supervisor
  creates one, and links each identity it has created (\<open>createManagedReviewer\<close>), also when it then
  fails.
\<close>

definition retry_panel ::
  "(js_num \<Rightarrow> jstring) \<Rightarrow> gate_task \<Rightarrow> run_id \<Rightarrow> gate_spec \<Rightarrow> agent_id list ctl_eff" where
  "retry_panel nt prior run spec =
     (if same_reviewers nt spec (gt_spec prior) then eret (gt_reviewers prior)
      else ebind eget (\<lambda>k.
        let made = an_agents (gk_host k (length (gk_log k))) in
        ebind (ecatch (ctl_call (Create_reviewer_panel (gt_agent prior) run spec))
               (\<lambda>e. ethen (emod (link_all made run (Some (gt_agent prior)))) (ethrow e))) (\<lambda>a.
        ethen (emod (link_all made run (Some (gt_agent prior)))) (eret made))))"

text \<open>The rest of \<open>retryReview\<close> once everything is checked: the new run, its panel, its review.\<close>

definition begin_retry ::
  "(js_num \<Rightarrow> jstring) \<Rightarrow> run_id \<Rightarrow> gate_task \<Rightarrow> candidate \<Rightarrow> gate_spec \<Rightarrow> run_id ctl_eff" where
  "begin_retry nt prior_run prior c spec =
     ebind random_uuid (\<lambda>run. ebind (retry_panel nt prior run spec) (\<lambda>rs.
      ethen (ctl_do (Append (J_registered (gt_agent prior) run spec (take 65536 (gt_text prior)) (Some prior_run) rs)))
     (ethen (emod (\<lambda>k. link_all rs run (Some (gt_agent prior))
         (put_cell run (new_cell (retry_task run spec rs prior) (gk_cell_host k run) (gk_sha256 k)) k)))
     (ethen (ctl_do (Begin_linked_run (gt_agent prior) run))
     (ethen (on_task (eret ()) run (start_retry prior c)) (eret run))))))"

definition retry_review ::
  "(js_num \<Rightarrow> jstring) \<Rightarrow> supervisor_policy \<Rightarrow> run_id \<Rightarrow> jstring \<Rightarrow> js_value option \<Rightarrow> jstring \<Rightarrow> run_id ctl_eff" where
  "retry_review nt policy prior_run cand given cid =
     ethen (dedup_command cid (js ''retry_review'') prior_run)
     (ebind (prior_candidate prior_run cand (js ''candidate '' @ cand @ js '' not recorded for '' @ prior_run)
              (js ''candidate no longer matches current workspace; submit current work as a new task'')) (\<lambda>(prior, c).
      ebind (validate_gate_spec nt (case given of Some v \<Rightarrow> v | None \<Rightarrow> spec_value (gt_spec prior)) policy Gate_mode)
        (begin_retry nt prior_run prior c)))"

definition bypass_lines :: "jstring \<Rightarrow> check_evidence list \<Rightarrow> jstring list" where
  "bypass_lines reason evidence =
     (js ''bypass: '' @ reason) #
     map (\<lambda>e. js ''unperformed/failed check '' @ cr_id (ev_result e) @ js '' (round '' @ nat_text (ev_round e) @ js '', exit '' @
            exit_text (cr_exit (ev_result e)) @ js ''): '' @ take 300 (cr_output (ev_result e)))
       (last_n 5 (filter (\<lambda>e. cr_exit (ev_result e) \<noteq> Some 0) evidence))"

definition bypass_detail :: "jstring \<Rightarrow> check_evidence list \<Rightarrow> jstring" where
  "bypass_detail reason evidence = take 2000 (join_lines (bypass_lines reason evidence))"

definition bypassed_task :: "run_id \<Rightarrow> run_id \<Rightarrow> gate_task \<Rightarrow> gate_task" where
  "bypassed_task run prior_run prior =
     (new_task (gt_agent prior) run (gt_spec prior) (gt_text prior) [])
       \<lparr>gt_rounds := gt_rounds prior, gt_candidate := gt_candidate prior, gt_response := gt_response prior,
        gt_terminal := Some Out_bypassed, gt_linked := Some prior_run, gt_evidence := gt_evidence prior,
        gt_history := gt_history prior, gt_warning := gt_warning prior\<rparr>"

definition begin_bypass :: "run_id \<Rightarrow> jstring \<Rightarrow> gate_task \<Rightarrow> run_id ctl_eff" where
  "begin_bypass prior_run reason prior = ebind random_uuid (\<lambda>run.
      ethen (ctl_do (Append (J_registered (gt_agent prior) run (gt_spec prior) (take 65536 (gt_text prior)) (Some prior_run) [])))
     (ethen (emod (\<lambda>k. put_cell run (new_cell (bypassed_task run prior_run prior) (gk_cell_host k run) (gk_sha256 k)) k))
     (ethen (ctl_do (Begin_linked_run (gt_agent prior) run))
     (ethen (ctl_do (Settle_task (gt_agent prior) run Out_bypassed (bypass_detail reason (gt_evidence prior))))
        (eret run)))))"

definition bypass ::
  "supervisor_policy \<Rightarrow> run_id \<Rightarrow> jstring \<Rightarrow> jstring \<Rightarrow> jstring \<Rightarrow> run_id ctl_eff" where
  "bypass policy prior_run cand reason cid =
     ethen (dedup_command cid (js ''bypass'') prior_run)
     (if \<not> p_gate_bypass policy then ethrow (gate_err ''FORBIDDEN'' (js ''root policy forbids gate bypass''))
      else if reason = [] then ethrow (gate_err ''INVALID'' (js ''bypass requires a reason''))
      else ebind (prior_candidate prior_run cand (js ''candidate '' @ cand @ js '' not recorded'')
              (js ''candidate no longer matches the current workspace; reconcile and submit current work as a new task''))
            (\<lambda>(prior, c). begin_bypass prior_run reason prior))"

section \<open>The whole controller\<close>

datatype ctl_event =
  K_link agent_id run_id "agent_id option"
| K_register agent_id run_id gate_spec jstring "agent_id list"
| K_import gate_task
| K_task run_id gate_event
| K_candidate agent_id run_id int jstring
| K_submit agent_id js_value
| K_failed agent_id jstring
| K_cancel run_id gate_outcome
| K_interrupt agent_id bool
| K_recover
| K_resume run_id jstring jstring
| K_limits run_id "int option" jstring
| K_retry run_id jstring "js_value option" jstring
| K_bypass run_id jstring jstring jstring

definition ctl_exec :: "(js_num \<Rightarrow> jstring) \<Rightarrow> supervisor_policy \<Rightarrow> ctl_event \<Rightarrow> unit ctl_eff" where
  "ctl_exec nt policy e = (case e of
     K_link r run owner \<Rightarrow> emod (link_reviewer r run owner)
   | K_register agent run spec text rs \<Rightarrow> register_task agent run spec text rs
   | K_import t \<Rightarrow> emod (import_task t)
   | K_task run ev \<Rightarrow> on_task (eret ()) run (gate_exec ev)
   | K_candidate agent run generation text \<Rightarrow> ctl_candidate agent run generation text
   | K_submit r raw \<Rightarrow> ebind (ctl_submit r raw) (\<lambda>_. eret ())
   | K_failed r diagnostics \<Rightarrow> ctl_failed r diagnostics
   | K_cancel run outcome \<Rightarrow> ctl_cancel run outcome
   | K_interrupt agent active \<Rightarrow> ctl_interrupt agent active
   | K_recover \<Rightarrow> ctl_recover
   | K_resume run review cid \<Rightarrow> ctl_resume_review run review cid
   | K_limits run limit cid \<Rightarrow> ctl_set_limits policy run limit cid
   | K_retry run cand given cid \<Rightarrow> ebind (retry_review nt policy run cand given cid) (\<lambda>_. eret ())
   | K_bypass run cand reason cid \<Rightarrow> ebind (bypass policy run cand reason cid) (\<lambda>_. eret ()))"

text \<open>
  What the supervisor keeps to, besides the conditions on each task: it links a reviewer to a run
  that is not registered yet, or to one just imported from a journal without reviewer ids, or again
  to a task that has it already (the reattachment after \<open>restoreReview\<close> does that); it
  registers specifications that were accepted; what it imports is \<open>importable\<close>; a random UUID,
  drawn by retry and bypass after two other calls, names no run yet.
\<close>

definition event_on :: "gate_ctl \<Rightarrow> run_id \<Rightarrow> gate_event \<Rightarrow> bool" where
  "event_on k run ev = (case gate_cell k run of None \<Rightarrow> True | Some c \<Rightarrow> gate_enabled ev c)"

definition next_uuid :: "gate_ctl \<Rightarrow> run_id" where
  "next_uuid k = an_text (gk_host k (length (gk_log k) + 2))"

fun from_supervisor :: "gate_event \<Rightarrow> bool" where
  "from_supervisor (Ev_continue _ _) = True"
| "from_supervisor Ev_restore = True"
| "from_supervisor Ev_reserve = True"
| "from_supervisor _ = False"

definition ctl_enabled :: "supervisor_policy \<Rightarrow> ctl_event \<Rightarrow> gate_ctl \<Rightarrow> bool" where
  "ctl_enabled policy e k = (case e of
     K_link r run owner \<Rightarrow> (case gate_cell k run of None \<Rightarrow> True
       | Some c \<Rightarrow> link_task r (ce_task c) = ce_task c \<or>
           (ce_pending c = [] \<and> ce_serial c = 0 \<and> ce_log c = [] \<and> importable (link_task r (ce_task c))))
   | K_register agent run spec text rs \<Rightarrow> rounds_wf policy (gs_max_rounds spec)
   | K_import t \<Rightarrow> importable (t\<lparr>gt_review := None, gt_reserved := False\<rparr>)
   | K_task run ev \<Rightarrow> from_supervisor ev \<and> event_on k run ev
   | K_candidate agent run generation text \<Rightarrow> event_on k run (Ev_candidate agent generation text)
   | K_cancel run outcome \<Rightarrow> event_on k run (Ev_cancel outcome)
   | K_retry run cand given cid \<Rightarrow> gate_cell k (next_uuid k) = None
   | K_bypass run cand reason cid \<Rightarrow> gate_cell k (next_uuid k) = None
   | _ \<Rightarrow> True)"

inductive gate_ctl_reach :: "(js_num \<Rightarrow> jstring) \<Rightarrow> gate_ctl \<Rightarrow> bool" for nt where
  start: "gate_ctl_reach nt (new_gate_ctl h ch sha)"
| step: "gate_ctl_reach nt k \<Longrightarrow> ctl_enabled policy e k \<Longrightarrow> gate_ctl_reach nt (snd (ctl_exec nt policy e k))"

end
