(* ===== verification/GateControl.thy ===== *)
theory GateControl
  imports GateTasks
begin

text \<open>
  What the gate's controller guarantees over all tasks: it refines the product of its tasks
  (\<open>refined\<close>, kept by every event), a command id takes effect once, reviewer identities stay
  protected (\<open>grows\<close>), and a retry or a bypass adds one run and leaves the others alone.
\<close>

section \<open>What a task keeps for life\<close>

definition task_id :: "gate_task \<Rightarrow> _" where
  "task_id t = (gt_agent t, gt_run t, gt_reviewers t, gt_text t, gt_linked t)"

definition ident :: "_ \<Rightarrow> cell \<Rightarrow> bool" where
  "ident x c \<longleftrightarrow> task_id (ce_task c) = x"

named_theorems ident_intros \<open>operations keep the identity of their task\<close>

lemma ident_calls [ident_intros]:
  "keeps (ident x) (host_call k)" "keeps (ident x) (note_call k)" "keeps (ident x) (await j)" "keeps (ident x) (do_call k)"
  "keeps (ident x) (emod (\<lambda>c. c\<lparr>ce_serial := f c\<rparr>))" "keeps (ident x) (emod (\<lambda>c. c\<lparr>ce_pending := g c\<rparr>))"
  by (auto simp: keeps_def host_call_def note_call_def await_def do_call_def ident_def emod_def ebind_def eret_def Let_def
      split: option.splits)

lemma ident_upd [ident_intros]: "(\<And>t. task_id (f t) = task_id t) \<Longrightarrow> keeps (ident x) (upd_task f)"
  by (simp add: keeps_def upd_task_def emod_def ident_def)

lemma ident_with [ident_intros]: "(\<And>t. keeps (ident x) (f t)) \<Longrightarrow> keeps (ident x) (with_task f)"
  by (simp add: with_task_def keeps_ebind keeps_eget)

lemmas [ident_intros] = keeps_intros

lemma task_id_simps [simp]:
  "task_id (t\<lparr>gt_terminal := a\<rparr>) = task_id t" "task_id (t\<lparr>gt_review := b\<rparr>) = task_id t"
  "task_id (t\<lparr>gt_spec := c\<rparr>) = task_id t" "task_id (t\<lparr>gt_findings := d\<rparr>) = task_id t"
  "task_id (t\<lparr>gt_repair := e\<rparr>) = task_id t" "task_id (t\<lparr>gt_reserved := f\<rparr>) = task_id t"
  "task_id (t\<lparr>gt_evidence := g\<rparr>) = task_id t" "task_id (t\<lparr>gt_candidate := h\<rparr>) = task_id t"
  "task_id (t\<lparr>gt_feedback := i\<rparr>) = task_id t" "task_id (t\<lparr>gt_rounds := j\<rparr>) = task_id t"
  "task_id (upd_review k t) = task_id t" "task_id (set_candidate l m t) = task_id t" "task_id (set_round n t) = task_id t"
  by (simp_all add: task_id_def upd_review_def set_candidate_def set_round_def)

lemma terminate_ident [ident_intros]:
  "keeps (ident x) (terminate a b)" "keeps (ident x) (terminate_quietly a b)" "keeps (ident x) (cancel_task a)"
  unfolding terminate_def terminate_quietly_def cancel_task_def by (intro ident_intros; simp)+

lemma apply_ident [ident_intros]:
  "keeps (ident x) (recheck_next serial app todo)" "keeps (ident x) (apply_revise bs as cand p)"
  "keeps (ident x) (verified serial app problem)" "keeps (ident x) (application_failed serial app m)"
  unfolding recheck_next_def apply_revise_def verified_def application_failed_def
  by (auto intro!: ident_intros simp: Let_def split: list.split option.split)

lemma decision_ident [ident_intros]: "keeps (ident x) (apply_decision serial app d)"
  unfolding apply_decision_def
  by (auto intro!: ident_intros simp: Let_def split: list.split option.split gate_decision.split)

lemma panel_ident [ident_intros]:
  "keeps (ident x) (conclude_panel t p)" "keeps (ident x) (finish_panel serial)"
  unfolding conclude_panel_def finish_panel_def
  by (auto intro!: ident_intros simp: Let_def conclude_panel_def split: list.split option.split)

lemma feedback_ident [ident_intros]:
  "keeps (ident x) (record_feedback i verdict error)" "keeps (ident x) (member_released serial i)"
  "keeps (ident x) (cleanup_failed m)"
  unfolding record_feedback_def member_released_def cleanup_failed_def
  by (auto intro!: ident_intros simp: Let_def split: option.split)

lemma submit_ident [ident_intros]:
  "keeps (ident x) (execution_failed r diagnostics)" "keeps (ident x) (submit_decision r raw)"
  unfolding execution_failed_def submit_decision_def
  by (auto intro!: ident_intros split: option.split sum.split)

lemma start_loop_ident: "keeps (ident x) (start_loop serial rs evidence is)"
  by (induction "is") (auto intro!: ident_intros simp: Let_def split: option.split)

lemma review_ident [ident_intros]:
  "keeps (ident x) (start_members rs evidence)" "keeps (ident x) new_review"
  unfolding start_members_def new_review_def
  by (auto intro!: ident_intros start_loop_ident simp: Let_def split: option.split)

lemma checks_ident [ident_intros]:
  "keeps (ident x) (finish_checks evidence)" "keeps (ident x) (admission_failed e)"
  unfolding finish_checks_def admission_failed_def
  by (auto intro!: ident_intros split: option.split)

lemma check_next_ident [ident_intros]:
  "keeps (ident x) (check_next todo evidence)" "keeps (ident x) run_checks_and_review"
  unfolding run_checks_and_review_def check_next_def
  by (auto intro!: ident_intros split: list.split)

lemma continuation_ident [ident_intros]: "keeps (ident x) (run_continuation k reply)"
  unfolding run_continuation_def check_done_def recheck_done_def
  by (auto intro!: ident_intros split: continuation.split list.split sum.split)

lemma candidate_ident [ident_intros]: "keeps (ident x) (candidate_settled agent generation answer)"
  unfolding candidate_settled_def freeze_candidate_def record_candidate_def admit_round_def
  by (auto intro!: ident_intros split: option.split)

lemma control_ident [ident_intros]:
  "keeps (ident x) (interrupt_for_agent agent active)" "keeps (ident x) mark_interrupted_for_recovery"
  "keeps (ident x) (resume_review review)" "keeps (ident x) (set_gate_limits ceil limit command)"
  "keeps (ident x) restore_review" "keeps (ident x) (continue_with n reply)"
  unfolding interrupt_for_agent_def mark_interrupted_for_recovery_def resume_review_def set_gate_limits_def restore_review_def
    continue_with_def
  by (auto intro!: ident_intros split: option.split)

lemma gate_exec_ident: "keeps (ident x) (gate_exec e)"
  unfolding gate_exec_def by (auto intro!: ident_intros split: gate_event.split)

lemma start_retry_ident: "keeps (ident x) (start_retry prior cand)"
  unfolding start_retry_def by (intro ident_intros; simp)

section \<open>Cells of a controller\<close>

definition link_tasks :: "agent_id list \<Rightarrow> gate_task \<Rightarrow> gate_task" where
  "link_tasks rs t = foldl (\<lambda>t r. link_task r t) t rs"

lemma gate_cell_put [simp]: "gate_cell (put_cell run c k) x = (if x = run then Some c else gate_cell k x)"
  by (simp add: gate_cell_def put_cell_def)

lemma gate_cell_simps [simp]:
  "gate_cell (k\<lparr>gk_reviewers := a\<rparr>) x = gate_cell k x" "gate_cell (k\<lparr>gk_current := b\<rparr>) x = gate_cell k x"
  "gate_cell (k\<lparr>gk_owners := d\<rparr>) x = gate_cell k x" "gate_cell (k\<lparr>gk_commands := e\<rparr>) x = gate_cell k x"
  "gate_cell (k\<lparr>gk_log := f\<rparr>) x = gate_cell k x"
  by (simp_all add: gate_cell_def)

lemma cell_link_reviewer [simp]:
  "gate_cell (link_reviewer r run owner k) x =
     (if x = run then map_option (\<lambda>c. c\<lparr>ce_task := link_task r (ce_task c)\<rparr>) (gate_cell k run) else gate_cell k x)"
  by (auto simp: link_reviewer_def Let_def split: option.split)

lemma cell_link_all [simp]:
  "gate_cell (link_all rs run owner k) x =
     (if x = run then map_option (\<lambda>c. c\<lparr>ce_task := link_tasks rs (ce_task c)\<rparr>) (gate_cell k run) else gate_cell k x)"
  unfolding link_all_def
  by (induction rs arbitrary: k) (auto simp: link_tasks_def option.map_ident option.map_comp comp_def)

lemma link_task_id: "r \<in> set (gt_reviewers t) \<Longrightarrow> gt_reviewer t \<noteq> None \<Longrightarrow> link_task r t = t"
  by (auto simp: link_task_def set_add_def split: option.split)

lemma link_tasks_id: "set rs \<subseteq> set (gt_reviewers t) \<Longrightarrow> gt_reviewer t \<noteq> None \<or> rs = [] \<Longrightarrow> link_tasks rs t = t"
  unfolding link_tasks_def by (induction rs) (auto simp: link_task_id)

lemma link_tasks_panel: "set rs \<subseteq> set (gt_reviewers t) \<Longrightarrow> \<exists>r. link_tasks rs t = t\<lparr>gt_reviewer := r\<rparr>"
proof (induction rs arbitrary: t)
  case Nil
  show ?case by (rule exI [of _ "gt_reviewer t"]) (simp add: link_tasks_def)
next
  case (Cons a rs)
  define u where "u = link_task a t"
  have u: "u = t\<lparr>gt_reviewer := gt_reviewer u\<rparr>" using Cons.prems by (simp add: u_def link_task_def set_add_def)
  then have "set rs \<subseteq> set (gt_reviewers u)" using Cons.prems by (metis gate_task.select_convs(7) gate_task.surjective gate_task.update_convs(6) list.set_intros(2) subset_code(1))
  from Cons.IH [OF this] obtain r where "link_tasks rs u = u\<lparr>gt_reviewer := r\<rparr>" by blast
  with u show ?case by (metis (no_types, lifting) u_def foldl_Cons gate_task.surjective gate_task.update_convs(6) link_tasks_def)
qed

text \<open>The calls of the controller change no cell.\<close>

lemma post_ctl_call [post_simps]:
  "post (ctl_call q) Q k \<longleftrightarrow>
     (let a = gk_host k (length (gk_log k)); l = k\<lparr>gk_log := gk_log k @ [q]\<rparr> in
      case an_error a of Some m \<Rightarrow> Q (Inl (js ''HOST'', m)) l | None \<Rightarrow> Q (Inr a) l)"
  by (simp add: post_def ctl_call_def Let_def split: option.splits)

lemma post_on_task [post_simps]:
  "post (on_task none run m) Q k \<longleftrightarrow>
     (case gate_cell k run of None \<Rightarrow> post none Q k
      | Some c \<Rightarrow> post m (\<lambda>r d. Q r (put_cell run d k)) c)"
  by (simp add: post_def on_task_def split: option.split prod.splits)

lemma cell_on_task:
  assumes "snd (none k) = k"
  shows "gate_cell (snd (on_task none run m k)) x = (if x = run then map_option (\<lambda>c. snd (m c)) (gate_cell k run) else gate_cell k x)"
  using assms by (auto simp: on_task_def split: option.split prod.splits)

section \<open>Refinement\<close>

text \<open>Every task of the controller is a reachable task of its own run, and its panel is protected.\<close>

definition cell_ok :: "run_id \<Rightarrow> cell \<Rightarrow> bool" where
  "cell_ok run c \<longleftrightarrow> gate_reach c \<and> gt_run (ce_task c) = run"

definition refined :: "gate_ctl \<Rightarrow> bool" where
  "refined k \<longleftrightarrow> (\<forall>run c. gate_cell k run = Some c \<longrightarrow> cell_ok run c)"

lemma refinedD: "refined k \<Longrightarrow> gate_cell k run = Some c \<Longrightarrow> gate_reach c" "refined k \<Longrightarrow> gate_cell k run = Some c \<Longrightarrow> gt_run (ce_task c) = run"
  by (auto simp: refined_def cell_ok_def)

lemma refined_put [intro]: "refined k \<Longrightarrow> cell_ok run c \<Longrightarrow> refined (put_cell run c k)"
  by (simp add: refined_def)

lemma refined_simps [simp]:
  "refined (k\<lparr>gk_reviewers := a\<rparr>) = refined k" "refined (k\<lparr>gk_current := b\<rparr>) = refined k"
  "refined (k\<lparr>gk_owners := d\<rparr>) = refined k" "refined (k\<lparr>gk_commands := e\<rparr>) = refined k"
  "refined (k\<lparr>gk_log := f\<rparr>) = refined k"
  by (simp_all add: refined_def)

lemma cell_ok_step:
  assumes "cell_ok run c" and "gate_enabled e c"
  shows "cell_ok run (snd (gate_exec e c))"
  using assms gate_reach.step keepsD [OF gate_exec_ident [of "task_id (ce_task c)" e], of c]
  by (auto simp: cell_ok_def ident_def task_id_def)

lemma keeps_on_task:
  assumes "keeps refined none" and "\<And>c. cell_ok run c \<Longrightarrow> cell_ok run (snd (m c))"
  shows "keeps refined (on_task none run m)"
proof (rule keepsI)
  fix k assume k: "refined k"
  show "post (on_task none run m) (\<lambda>_. refined) k"
  proof (cases "gate_cell k run")
    case None
    with keeps_post [OF assms(1) k] show ?thesis by (simp add: post_on_task)
  next
    case (Some c)
    with k have "refined (put_cell run (snd (m c)) k)" by (intro refined_put assms(2)) (simp_all add: refined_def)
    with Some show ?thesis unfolding post_on_task by (simp add: post_result)
  qed
qed

lemma ctl_call_keeps [intro]: "keeps refined (ctl_call q)" "keeps refined (ctl_do q)" "keeps refined random_uuid"
  by (auto simp: keeps_def ctl_call_def ctl_do_def random_uuid_def ebind_def eret_def Let_def split: option.split prod.splits sum.splits)

lemma dedup_keeps [intro]: "keeps refined (dedup_command cid action run)"
  unfolding dedup_command_def by (auto intro!: keeps_intros keeps_emod split: option.split)

lemmas exec_simps = gate_exec_def ebind_def eret_def split_beta

lemma event_ok:
  "cell_ok run c \<Longrightarrow> cell_ok run (snd (submit_decision r raw c))"
  "cell_ok run c \<Longrightarrow> cell_ok run (snd (execution_failed r diagnostics c))"
  "cell_ok run c \<Longrightarrow> cell_ok run (snd (interrupt_for_agent agent active c))"
  "cell_ok run c \<Longrightarrow> cell_ok run (snd (mark_interrupted_for_recovery c))"
  "cell_ok run c \<Longrightarrow> cell_ok run (snd (resume_review review c))"
  "cell_ok run c \<Longrightarrow> cell_ok run (snd (set_gate_limits ceil limit cid c))"
  using cell_ok_step [of run c "Ev_submit r raw"] cell_ok_step [of run c "Ev_failed r diagnostics"]
    cell_ok_step [of run c "Ev_interrupt agent active"] cell_ok_step [of run c Ev_recover]
    cell_ok_step [of run c "Ev_resume review"] cell_ok_step [of run c "Ev_limits ceil limit cid"]
  by (auto simp: gate_exec_def ebind_def eret_def gate_enabled_def Let_def split_beta split: sum.splits)

lemma new_task_linked: "link_tasks rs (new_task agent run spec text rs) = new_task agent run spec text rs"
  by (rule link_tasks_id) (auto simp: new_task_def split: list.split)

lemma retry_task_linked: "link_tasks rs (retry_task run spec rs prior) = retry_task run spec rs prior"
  by (rule link_tasks_id) (auto simp: retry_task_def new_task_def split: list.split)

lemma refined_link_all:
  assumes "refined k" and "\<And>c. gate_cell k run = Some c \<Longrightarrow> cell_ok run (c\<lparr>ce_task := link_tasks rs (ce_task c)\<rparr>)"
  shows "refined (link_all rs run owner k)"
  using assms by (auto simp: refined_def)

lemma register_keeps:
  assumes "rounds_wf policy (gs_max_rounds spec)"
  shows "keeps refined (register_task agent run spec text rs)"
proof -
  have c: "cell_ok run (new_cell (new_task agent run spec text rs) h sha)" for h sha
    using gate_reach.registered [OF assms] by (simp add: cell_ok_def new_cell_def new_task_def)
  have "new_cell t h sha\<lparr>ce_task := u\<rparr> = new_cell u h sha" for t u h sha by (simp add: new_cell_def)
  with c have "refined (link_all rs run (Some agent) (put_cell run (new_cell (new_task agent run spec text rs) h sha) k))"
    if "refined k" for k h sha
    using that by (intro refined_link_all) (auto simp: new_cell_def new_task_linked)
  then show ?thesis
    unfolding register_task_def by (auto intro!: keeps_intros keeps_emod split: option.split)
qed

lemma importable_reviewer [simp]: "importable (t\<lparr>gt_reviewer := r\<rparr>) = importable t"
proof -
  have "reports (t\<lparr>gt_reviewer := r\<rparr>) = reports t" by (simp add: reports_def fun_eq_iff)
  then show ?thesis by (simp add: importable_def restorable_def unanimous_def within_rounds_def split: option.split)
qed

lemma import_keeps:
  assumes "refined k" and "importable (t\<lparr>gt_review := None, gt_reserved := False\<rparr>)"
  shows "refined (import_task t k)"
proof -
  define u where "u = t\<lparr>gt_review := None, gt_reserved := False\<rparr>"
  have run: "gt_run u = gt_run t" and rs: "gt_reviewers u = gt_reviewers t" by (simp_all add: u_def)
  have "cell_ok (gt_run t) (new_cell v h sha)" if "v = u\<lparr>gt_reviewer := r\<rparr>" for v r h sha
    using that assms(2) run by (auto simp: cell_ok_def new_cell_def u_def intro: gate_reach.imported [unfolded new_cell_def])
  moreover have "\<exists>r. link_tasks (gt_reviewers t) u = u\<lparr>gt_reviewer := r\<rparr>" using link_tasks_panel [of "gt_reviewers t" u] rs by simp
  moreover have "u = u\<lparr>gt_reviewer := gt_reviewer u\<rparr>" by simp
  ultimately have "cell_ok (gt_run t) (new_cell u h sha)" "cell_ok (gt_run t) (new_cell (link_tasks (gt_reviewers t) u) h sha)" for h sha
    by metis+
  then have "refined (link_all (gt_reviewers t) (gt_run t) ow (put_cell (gt_run t) (new_cell u h sha) k))" for h sha ow
    using assms(1) by (intro refined_link_all) (auto simp: new_cell_def)
  with assms(1) show ?thesis by (auto simp: import_task_def Let_def u_def)
qed

lemma link_keeps:
  assumes "refined k" and "ctl_enabled policy (K_link r run owner) k"
  shows "refined (link_reviewer r run owner k)"
proof -
  have "cell_ok run (c\<lparr>ce_task := link_task r (ce_task c)\<rparr>)" if c: "gate_cell k run = Some c" for c
  proof (cases "link_task r (ce_task c) = ce_task c")
    case True
    then have "c\<lparr>ce_task := link_task r (ce_task c)\<rparr> = c" by simp
    with assms(1) c show ?thesis by (auto simp: refined_def)
  next
    case False
    have "c\<lparr>ce_task := link_task r (ce_task c)\<rparr> = new_cell (link_task r (ce_task c)) (ce_host c) (ce_sha256 c)"
      using assms(2) c False by (simp add: ctl_enabled_def new_cell_def)
    moreover have "importable (link_task r (ce_task c))" using assms(2) c False by (simp add: ctl_enabled_def)
    moreover have "gt_run (ce_task c) = run" using assms(1) c by (rule refinedD(2))
    moreover have "gt_run (ce_task (new_cell (link_task r t) h sha)) = gt_run t" for t h sha
      by (simp add: new_cell_def link_task_def)
    ultimately show ?thesis using gate_reach.imported by (simp add: cell_ok_def)
  qed
  with assms(1) show ?thesis by (auto simp: refined_def)
qed

lemma retry_importable: "rounds_wf policy (gs_max_rounds spec) \<Longrightarrow> importable (retry_task run spec rs prior)"
  by (auto simp: importable_def retry_task_def new_task_def rounds_wf_def within_rounds_def restorable_def split: option.split)

lemma prior_keeps [intro]: "keeps refined (prior_candidate run cand missing mismatch)"
  unfolding prior_candidate_def by (auto intro!: keeps_intros split: option.split)

lemma validate_keeps [intro]: "keeps refined (validate_gate_spec nt inp policy mode)"
  unfolding validate_gate_spec_def by (auto intro!: keeps_intros split: sum.split)

lemma validated:
  "post (validate_gate_spec nt inp policy mode) (\<lambda>r k'. k' = k \<and> (\<forall>s. r = Inr s \<longrightarrow> rounds_wf policy (gs_max_rounds s))) k"
  using normalize_gate_spec_wf [of nt inp policy mode]
  by (auto simp: validate_gate_spec_def post_simps spec_wf_def split: sum.split)

definition moved :: "gate_ctl \<Rightarrow> nat \<Rightarrow> gate_ctl \<Rightarrow> bool" where
  "moved k n k' \<longleftrightarrow> gk_tasks k' = gk_tasks k \<and> gk_host k' = gk_host k \<and> gk_cell_host k' = gk_cell_host k \<and>
     gk_sha256 k' = gk_sha256 k \<and> length (gk_log k') = length (gk_log k) + n"

lemma moved_refl [simp]: "moved k 0 k"
  by (simp add: moved_def)

lemma moved_cell: "moved k n k' \<Longrightarrow> gate_cell k' x = gate_cell k x"
  by (simp add: moved_def gate_cell_def)

lemma post_ctl_do: "(\<And>r k'. moved k 1 k' \<Longrightarrow> Q r k') \<Longrightarrow> post (ctl_do q) Q k"
  by (auto simp: ctl_do_def post_simps Let_def moved_def split: option.split)

lemma dedup_post:
  "post (dedup_command cid action run) (\<lambda>r k'. moved k 0 k' \<and>
     (is_ok r \<longrightarrow> map_of (gk_commands k) cid = None \<and> k' = k\<lparr>gk_commands := map_put cid (action, run) (gk_commands k)\<rparr>) \<and>
     (\<not> is_ok r \<longrightarrow> k' = k \<and> map_of (gk_commands k) cid \<noteq> None)) k"
  by (auto simp: dedup_command_def post_simps moved_def split: option.split)

lemma prior_post:
  "post (prior_candidate run cand missing mismatch) (\<lambda>r k'. (\<exists>n. moved k n k') \<and>
     (\<forall>p. r = Inr p \<longrightarrow> moved k 2 k' \<and> gate_inspect k run = Some (fst p) \<and> gt_terminal (fst p) \<noteq> None \<and>
        gt_candidate (fst p) = Some (snd p) \<and> cd_id (snd p) = cand)) k"
  by (auto simp: prior_candidate_def post_simps Let_def moved_def split: option.split)

text \<open>What a successful or failed registration of a new run leaves of the others.\<close>

definition others :: "gate_ctl \<Rightarrow> run_id \<Rightarrow> gate_ctl \<Rightarrow> bool" where
  "others k run k' \<longleftrightarrow> (\<forall>x. x \<noteq> run \<longrightarrow> gate_cell k' x = gate_cell k x)"

lemma panel_post:
  "post (retry_panel nt prior run spec) (\<lambda>r k'. others k run k' \<and> (gate_cell k run = None \<longrightarrow> gate_cell k' run = None) \<and>
     (same_reviewers nt spec (gt_spec prior) \<longrightarrow> r = Inr (gt_reviewers prior))) k"
  by (auto simp: retry_panel_def post_simps Let_def others_def split: option.split)

definition retried_from :: "gate_task \<Rightarrow> candidate \<Rightarrow> run_id \<Rightarrow> gate_spec \<Rightarrow> agent_id list \<Rightarrow> cell \<Rightarrow> bool" where
  "retried_from prior c run spec rs d \<longleftrightarrow>
     (\<exists>h sha. d = snd (start_retry prior c (new_cell (retry_task run spec rs prior) h sha)))"

definition fresh_retry :: "gate_task \<Rightarrow> run_id \<Rightarrow> gate_spec \<Rightarrow> agent_id list \<Rightarrow> cell \<Rightarrow> bool" where
  "fresh_retry prior run spec rs d \<longleftrightarrow> (\<exists>h sha. d = new_cell (retry_task run spec rs prior) h sha)"

lemma start_post:
  assumes f: "gate_cell k run = None"
  shows "post (ethen (ctl_do q)
     (ethen (emod (\<lambda>k. link_all rs run ow (put_cell run (new_cell (retry_task run spec rs prior) (gk_cell_host k run) (gk_sha256 k)) k)))
     (ethen (ctl_do q') (ethen (on_task (eret ()) run (start_retry prior c)) (eret run)))))
    (\<lambda>r k'. others k run k' \<and>
      (case gate_cell k' run of None \<Rightarrow> \<not> is_ok r
       | Some d \<Rightarrow> retried_from prior c run spec rs d \<or> \<not> is_ok r \<and> fresh_retry prior run spec rs d) \<and> (\<forall>x. r = Inr x \<longrightarrow> x = run)) k"
    (is "post ?m ?Q k")
proof -
  define g where "g = (\<lambda>k. link_all rs run ow (put_cell run (new_cell (retry_task run spec rs prior) (gk_cell_host k run) (gk_sha256 k)) k))"
  have cell: "gate_cell (g k1) run = Some (new_cell (retry_task run spec rs prior) (gk_cell_host k1 run) (gk_sha256 k1))" for k1
    by (simp add: g_def new_cell_def retry_task_linked)
  have oth: "others k run k2" if "moved k n k1" "moved (g k1) m k2" for k1 k2 n m
    using that by (simp add: others_def moved_cell g_def)
  have last: "post (ethen (on_task (eret ()) run (start_retry prior c)) (eret run)) ?Q k2"
    if "moved k n k1" "moved (g k1) m k2" for k1 k2 n m
  proof -
    define c0 where "c0 = new_cell (retry_task run spec rs prior) (gk_cell_host k1 run) (gk_sha256 k1)"
    have "gate_cell k2 run = Some c0" using cell [of k1] moved_cell [OF that(2), of run] by (simp add: c0_def)
    moreover have "retried_from prior c run spec rs (snd (start_retry prior c c0))" by (auto simp: retried_from_def c0_def)
    moreover have "others k run (put_cell run d k2)" for d using oth [OF that] by (simp add: others_def)
    ultimately show ?thesis by (simp add: post_ethen post_on_task post_result [of "start_retry prior c"] post_eret split: sum.split)
  qed
  have mid: "post (ethen (ctl_do q') (ethen (on_task (eret ()) run (start_retry prior c)) (eret run))) ?Q (g k1)" if "moved k n k1" for k1 n
    unfolding post_ethen [of "ctl_do q'"]
  proof (rule post_ctl_do)
    fix r and k2 :: gate_ctl assume m: "moved (g k1) 1 k2"
    have "gate_cell k2 run = Some (new_cell (retry_task run spec rs prior) (gk_cell_host k1 run) (gk_sha256 k1))"
      using cell [of k1] moved_cell [OF m] by simp
    then show "case r of Inl e \<Rightarrow> ?Q (Inl e) k2 | Inr x \<Rightarrow> post (ethen (on_task (eret ()) run (start_retry prior c)) (eret run)) ?Q k2"
      using last [OF that m] oth [OF that m] by (auto simp: fresh_retry_def split: sum.split)
  qed
  show ?thesis
    unfolding post_ethen [of "ctl_do q"] g_def [symmetric]
  proof (rule post_ctl_do)
    fix r and k1 :: gate_ctl assume m: "moved k 1 k1"
    have "?Q (Inl e) k1" for e using f m by (simp add: others_def moved_cell)
    then show "case r of Inl e \<Rightarrow> ?Q (Inl e) k1
      | Inr x \<Rightarrow> post (ethen (emod g) (ethen (ctl_do q') (ethen (on_task (eret ()) run (start_retry prior c)) (eret run)))) ?Q k1"
      using mid [OF m] by (simp add: post_ethen [of "emod g"] post_emod split: sum.split)
  qed
qed

text \<open>The run that a retry or a bypass adds, and nothing else.\<close>

definition retry_result :: "gate_ctl \<Rightarrow> run_id \<Rightarrow> jstring \<Rightarrow> gate_err + run_id \<Rightarrow> gate_ctl \<Rightarrow> bool" where
  "retry_result k prior_run cand r k' \<longleftrightarrow> others k (next_uuid k) k' \<and>
     (case gate_cell k' (next_uuid k) of None \<Rightarrow> \<not> is_ok r
      | Some d \<Rightarrow> \<exists>prior c spec rs policy. gate_inspect k prior_run = Some prior \<and> gt_terminal prior \<noteq> None \<and>
          gt_candidate prior = Some c \<and> cd_id c = cand \<and> rounds_wf policy (gs_max_rounds spec) \<and>
          (retried_from prior c (next_uuid k) spec rs d \<or> \<not> is_ok r \<and> fresh_retry prior (next_uuid k) spec rs d)) \<and>
     (\<forall>x. r = Inr x \<longrightarrow> x = next_uuid k)"

lemma retry_result_failed: "gate_cell k (next_uuid k) = None \<Longrightarrow> others k (next_uuid k) k' \<Longrightarrow> gate_cell k' (next_uuid k) = None \<Longrightarrow>
    retry_result k prior_run cand (Inl e) k'"
  by (simp add: retry_result_def)

lemma begin_retry_post:
  assumes f: "gate_cell k (next_uuid k) = None" and len: "length (gk_log k2) = length (gk_log k) + 2" "gk_host k2 = gk_host k"
    and cells: "\<And>x. gate_cell k2 x = gate_cell k x" and w: "rounds_wf policy (gs_max_rounds spec)"
    and p: "gate_inspect k prior_run = Some prior" "gt_terminal prior \<noteq> None" "gt_candidate prior = Some c" "cd_id c = cand"
  shows "post (begin_retry nt prior_run prior c spec) (retry_result k prior_run cand) k2"
proof -
  let ?u = "next_uuid k"
  define k3 where "k3 = k2\<lparr>gk_log := gk_log k2 @ [Random_uuid]\<rparr>"
  have c3: "gate_cell k3 x = gate_cell k x" for x by (simp add: k3_def cells)
  have fail: "retry_result k prior_run cand (Inl e) k'" if "\<And>x. gate_cell k' x = gate_cell k x" for e k'
    using f that by (intro retry_result_failed) (simp_all add: others_def)
  have "retry_result k prior_run cand r' k'" if "others k4 ?u k'" "others k3 ?u k4" "\<And>x. r' = Inr x \<longrightarrow> x = ?u"
    "case gate_cell k' ?u of None \<Rightarrow> \<not> is_ok r' | Some d \<Rightarrow> retried_from prior c ?u spec rs d \<or> \<not> is_ok r' \<and> fresh_retry prior ?u spec rs d"
    for r' k4 k' rs
    using that c3 p w unfolding retry_result_def others_def by (auto split: option.splits)
  then have "post (ebind (retry_panel nt prior ?u spec) (\<lambda>rs.
      ethen (ctl_do (Append (J_registered (gt_agent prior) ?u spec (take 65536 (gt_text prior)) (Some prior_run) rs)))
     (ethen (emod (\<lambda>k. link_all rs ?u (Some (gt_agent prior))
         (put_cell ?u (new_cell (retry_task ?u spec rs prior) (gk_cell_host k ?u) (gk_sha256 k)) k)))
     (ethen (ctl_do (Begin_linked_run (gt_agent prior) ?u))
     (ethen (on_task (eret ()) ?u (start_retry prior c)) (eret ?u)))))) (retry_result k prior_run cand) k3"
    using f c3
    by (subst post_ebind, intro post_mono [OF panel_post])
      (auto simp: others_def split: sum.split intro!: post_mono [OF start_post] retry_result_failed)
  then show ?thesis
    unfolding begin_retry_def post_ebind [of random_uuid] random_uuid_def
    using fail cells len by (simp add: post_ebind post_ctl_call post_eret Let_def k3_def next_uuid_def split: option.split)
qed

lemma retry_post:
  assumes f: "gate_cell k (next_uuid k) = None"
  shows "post (retry_review nt policy prior_run cand given cid) (retry_result k prior_run cand) k"
proof -
  have fail: "retry_result k prior_run cand (Inl e) k'" if "moved k n k'" for e k' n
    using f that by (intro retry_result_failed) (simp_all add: others_def moved_cell)
  have spec: "post (ebind (validate_gate_spec nt inp policy Gate_mode) (begin_retry nt prior_run prior c)) (retry_result k prior_run cand) k2"
    if m: "moved k 2 k2" and p: "gate_inspect k prior_run = Some prior" "gt_terminal prior \<noteq> None" "gt_candidate prior = Some c" "cd_id c = cand"
    for prior c inp k2
    unfolding post_ebind
    by (rule post_mono [OF validated]) (use fail [OF m] begin_retry_post [OF f _ _ _ _ p] m in \<open>auto simp: moved_def gate_cell_def split: sum.split\<close>)
  have "post (ebind (prior_candidate prior_run cand a b) (\<lambda>(prior, c).
      ebind (validate_gate_spec nt (inp prior) policy Gate_mode) (begin_retry nt prior_run prior c))) (retry_result k prior_run cand) k1"
    if m: "moved k 0 k1" for a b inp k1
    unfolding post_ebind [of "prior_candidate prior_run cand a b"]
  proof (rule post_mono [OF prior_post], elim conjE exE)
    fix r :: "gate_err + gate_task \<times> candidate" and k2 n assume n: "moved k1 n k2"
      and r: "\<forall>p. r = Inr p \<longrightarrow> moved k1 2 k2 \<and> gate_inspect k1 prior_run = Some (fst p) \<and> gt_terminal (fst p) \<noteq> None \<and>
        gt_candidate (fst p) = Some (snd p) \<and> cd_id (snd p) = cand"
    have i: "gate_inspect k1 prior_run = gate_inspect k prior_run" using m by (simp add: gate_inspect_def moved_cell)
    have n2: "moved k n k2" using m n by (simp add: moved_def)
    have s: "post (ebind (validate_gate_spec nt (inp prior) policy Gate_mode) (begin_retry nt prior_run prior c)) (retry_result k prior_run cand) k2"
      if "r = Inr (prior, c)" for prior c
      using r i m that by (intro spec) (auto simp: moved_def)
    show "case r of Inl e \<Rightarrow> retry_result k prior_run cand (Inl e) k2 | Inr x \<Rightarrow> post (case x of (prior, c) \<Rightarrow>
      ebind (validate_gate_spec nt (inp prior) policy Gate_mode) (begin_retry nt prior_run prior c)) (retry_result k prior_run cand) k2"
      using fail [OF n2] s by (auto split: sum.split)
  qed
  then show ?thesis
    unfolding retry_review_def post_ethen [of "dedup_command cid a b" for a b]
    by (intro post_mono [OF dedup_post]) (auto simp: fail fail [OF moved_refl] split: sum.split)
qed

definition bypass_result :: "supervisor_policy \<Rightarrow> gate_ctl \<Rightarrow> run_id \<Rightarrow> jstring \<Rightarrow> gate_err + run_id \<Rightarrow> gate_ctl \<Rightarrow> bool" where
  "bypass_result policy k prior_run cand r k' \<longleftrightarrow> others k (next_uuid k) k' \<and>
     (case gate_cell k' (next_uuid k) of None \<Rightarrow> \<not> is_ok r
      | Some d \<Rightarrow> \<exists>prior c h sha. p_gate_bypass policy \<and> gate_inspect k prior_run = Some prior \<and> gt_terminal prior \<noteq> None \<and>
          gt_candidate prior = Some c \<and> cd_id c = cand \<and> d = new_cell (bypassed_task (next_uuid k) prior_run prior) h sha) \<and>
     (\<forall>x. r = Inr x \<longrightarrow> x = next_uuid k)"

lemma begin_bypass_post:
  assumes f: "gate_cell k (next_uuid k) = None" and len: "length (gk_log k2) = length (gk_log k) + 2" "gk_host k2 = gk_host k"
    and cells: "\<And>x. gate_cell k2 x = gate_cell k x" and b: "p_gate_bypass policy"
    and p: "gate_inspect k prior_run = Some prior" "gt_terminal prior \<noteq> None" "gt_candidate prior = Some c" "cd_id c = cand"
  shows "post (begin_bypass prior_run reason prior) (bypass_result policy k prior_run cand) k2"
  using f len cells b p
  by (auto simp: begin_bypass_def random_uuid_def ctl_do_def post_simps Let_def next_uuid_def bypass_result_def others_def
      split: option.split)

lemma bypass_post:
  assumes f: "gate_cell k (next_uuid k) = None"
  shows "post (bypass policy prior_run cand reason cid) (bypass_result policy k prior_run cand) k"
proof -
  have fail: "bypass_result policy k prior_run cand (Inl e) k'" if "moved k n k'" for e k' n
    using f that by (simp add: bypass_result_def others_def moved_cell)
  have "post (ebind (prior_candidate prior_run cand a b) (\<lambda>(prior, c). begin_bypass prior_run reason prior))
      (bypass_result policy k prior_run cand) k1" if m: "moved k 0 k1" and pol: "p_gate_bypass policy" for a b k1
    unfolding post_ebind [of "prior_candidate prior_run cand a b"]
  proof (rule post_mono [OF prior_post], elim conjE exE)
    fix r :: "gate_err + gate_task \<times> candidate" and k2 n assume n: "moved k1 n k2"
      and r: "\<forall>p. r = Inr p \<longrightarrow> moved k1 2 k2 \<and> gate_inspect k1 prior_run = Some (fst p) \<and> gt_terminal (fst p) \<noteq> None \<and>
        gt_candidate (fst p) = Some (snd p) \<and> cd_id (snd p) = cand"
    have n2: "moved k n k2" using m n by (simp add: moved_def)
    have i: "gate_inspect k1 prior_run = gate_inspect k prior_run" using m by (simp add: gate_inspect_def moved_cell)
    have "post (begin_bypass prior_run reason prior) (bypass_result policy k prior_run cand) k2" if "r = Inr (prior, c)" for prior c
      using r i m that pol
      by (intro begin_bypass_post [OF f, where c = c]) (auto simp: moved_def gate_cell_def)
    then show "case r of Inl e \<Rightarrow> bypass_result policy k prior_run cand (Inl e) k2
      | Inr x \<Rightarrow> post (case x of (prior, c) \<Rightarrow> begin_bypass prior_run reason prior) (bypass_result policy k prior_run cand) k2"
      using fail [OF n2] by (auto split: sum.split)
  qed
  then show ?thesis
    unfolding bypass_def post_ethen [of "dedup_command cid a b" for a b]
    by (intro post_mono [OF dedup_post]) (auto simp: fail fail [OF moved_refl] post_ethrow split: sum.split)
qed

section \<open>All events\<close>

lemma retry_cells_ok:
  assumes "rounds_wf policy (gs_max_rounds spec)"
  shows "retried_from prior c run spec rs d \<Longrightarrow> cell_ok run d" and "fresh_retry prior run spec rs d \<Longrightarrow> cell_ok run d"
proof -
  have run: "gt_run (retry_task run spec rs prior) = run" by (simp add: retry_task_def new_task_def)
  show "cell_ok run d" if r: "retried_from prior c run spec rs d"
  proof -
    obtain h sha where d: "d = snd (start_retry prior c (new_cell (retry_task run spec rs prior) h sha))"
      using r by (auto simp: retried_from_def)
    have "ident (task_id (retry_task run spec rs prior)) d"
      unfolding d by (rule keepsD [OF start_retry_ident]) (simp add: ident_def new_cell_def)
    then have "gt_run (ce_task d) = run" using run by (simp add: ident_def task_id_def)
    with d gate_reach.retried [OF assms] show ?thesis by (simp add: cell_ok_def)
  qed
  show "cell_ok run d" if "fresh_retry prior run spec rs d"
    using that run gate_reach.imported [OF retry_importable [OF assms]] by (auto simp: fresh_retry_def cell_ok_def new_cell_def)
qed

lemma bypassed_importable: "importable (bypassed_task run prior_run prior)"
  by (simp add: importable_def bypassed_task_def new_task_def)

lemma bypassed_ok: "cell_ok run (new_cell (bypassed_task run prior_run prior) h sha)"
  using gate_reach.imported [OF bypassed_importable] by (simp add: cell_ok_def) (simp add: new_cell_def bypassed_task_def new_task_def)

lemma refined_others: "refined k \<Longrightarrow> others k run k' \<Longrightarrow> (\<And>d. gate_cell k' run = Some d \<Longrightarrow> cell_ok run d) \<Longrightarrow> refined k'"
  unfolding refined_def others_def by metis

lemma each_keeps:
  assumes "\<And>c run. cell_ok run c \<Longrightarrow> cell_ok run (snd (m c))"
  shows "keeps refined (ebind eget (\<lambda>k. eeach (\<lambda>run. on_task (eret ()) run m) (f k)))"
  using assms by (intro keeps_intros keeps_on_task) auto

lemma on_task_refined:
  assumes "refined k" and "\<And>c. gate_cell k run = Some c \<Longrightarrow> cell_ok run (snd (m c))"
  shows "refined (snd (on_task (eret ()) run m k))"
  using assms by (auto simp: refined_def cell_on_task eret_def)

lemma ctl_exec_keeps:
  assumes r: "refined k" and e: "ctl_enabled policy e k"
  shows "refined (snd (ctl_exec nt policy e k))"
proof (cases e)
  case (K_retry run cand given cid)
  with retry_post [of k nt policy run cand given cid] e
  have "retry_result k run cand (fst (retry_review nt policy run cand given cid k)) (snd (retry_review nt policy run cand given cid k))"
    by (simp add: ctl_enabled_def post_result)
  then have "refined (snd (retry_review nt policy run cand given cid k))"
    by (intro refined_others [OF r]) (auto simp: retry_result_def dest: retry_cells_ok)
  with K_retry show ?thesis by (simp add: ctl_exec_def ebind_def eret_def split_beta split: sum.split)
next
  case (K_bypass run cand reason cid)
  with bypass_post [of k policy run cand reason cid] e
  have "bypass_result policy k run cand (fst (bypass policy run cand reason cid k)) (snd (bypass policy run cand reason cid k))"
    by (simp add: ctl_enabled_def post_result)
  then have "refined (snd (bypass policy run cand reason cid k))"
    by (intro refined_others [OF r])
      (auto simp: bypass_result_def intro: bypassed_ok)
  with K_bypass show ?thesis by (simp add: ctl_exec_def ebind_def eret_def split_beta split: sum.split)
next
  case (K_link x run ow)
  with link_keeps [OF r, of policy x run ow] e show ?thesis by (simp add: ctl_exec_def emod_def)
next
  case (K_register agent run spec body rs)
  with e keepsD [OF register_keeps r] show ?thesis by (simp add: ctl_exec_def ctl_enabled_def)
next
  case (K_import t)
  with import_keeps [OF r] e show ?thesis by (simp add: ctl_exec_def ctl_enabled_def emod_def)
next
  case (K_task run ev)
  have "cell_ok run (snd (gate_exec ev c))" if "gate_cell k run = Some c" for c
    using that r e K_task by (intro cell_ok_step) (simp_all add: refined_def ctl_enabled_def event_on_def)
  with K_task show ?thesis by (simp add: ctl_exec_def on_task_refined [OF r])
next
  case (K_candidate agent run generation body)
  have "cell_ok run (snd (candidate_settled agent generation body c))" if "gate_cell k run = Some c" for c
    using that r e K_candidate cell_ok_step [of run c "Ev_candidate agent generation body"]
    by (simp add: refined_def ctl_enabled_def event_on_def gate_exec_def)
  with K_candidate show ?thesis by (simp add: ctl_exec_def ctl_candidate_def on_task_refined [OF r])
next
  case (K_cancel run outcome)
  have "cell_ok run (snd (cancel_task outcome c))" if "gate_cell k run = Some c" for c
    using that r e K_cancel cell_ok_step [of run c "Ev_cancel outcome"]
    by (simp add: refined_def ctl_enabled_def event_on_def gate_exec_def)
  with K_cancel show ?thesis by (simp add: ctl_exec_def ctl_cancel_def on_task_refined [OF r])
next
  case (K_submit x raw)
  have "keeps refined (ebind (ctl_submit x raw) (\<lambda>_. eret ()))"
    unfolding ctl_submit_def by (auto intro!: keeps_intros keeps_on_task event_ok simp: Let_def split: option.split)
  from keepsD [OF this r] K_submit show ?thesis by (simp add: ctl_exec_def)
next
  case (K_failed x diagnostics)
  have "keeps refined (ctl_failed x diagnostics)"
    unfolding ctl_failed_def by (auto intro!: keeps_intros keeps_on_task event_ok split: option.split)
  from keepsD [OF this r] K_failed show ?thesis by (simp add: ctl_exec_def)
next
  case (K_interrupt agent active)
  have "keeps refined (ctl_interrupt agent active)" unfolding ctl_interrupt_def by (intro each_keeps event_ok)
  from keepsD [OF this r] K_interrupt show ?thesis by (simp add: ctl_exec_def)
next
  case K_recover
  have "keeps refined ctl_recover" unfolding ctl_recover_def by (intro each_keeps event_ok)
  from keepsD [OF this r] K_recover show ?thesis by (simp add: ctl_exec_def)
next
  case (K_resume run review cid)
  have "keeps refined (ctl_resume_review run review cid)"
    unfolding ctl_resume_review_def no_live_task_def by (intro keeps_intros keeps_on_task dedup_keeps event_ok)
  from keepsD [OF this r] K_resume show ?thesis by (simp add: ctl_exec_def)
next
  case (K_limits run limit cid)
  have "keeps refined (ctl_set_limits policy run limit cid)"
    unfolding ctl_set_limits_def no_live_task_def by (intro keeps_intros keeps_on_task dedup_keeps event_ok)
  from keepsD [OF this r] K_limits show ?thesis by (simp add: ctl_exec_def)
qed

lemma gate_ctl_refined: "gate_ctl_reach nt k \<Longrightarrow> refined k"
  by (induction rule: gate_ctl_reach.induct)
    (simp_all add: ctl_exec_keeps, simp add: refined_def new_gate_ctl_def gate_cell_def)

section \<open>What only grows\<close>

text \<open>
  No operation forgets a command id or a reviewer identity, and the panel of a task is the one it
  had or consists of identities linked by the operation.
\<close>

definition linked_ids :: "gate_ctl \<Rightarrow> agent_id set" where
  "linked_ids k = set (gk_reviewers k) \<inter> dom (map_of (gk_current k))"

definition panel_of :: "gate_ctl \<Rightarrow> run_id \<Rightarrow> agent_id list option" where
  "panel_of k run = map_option (\<lambda>c. gt_reviewers (ce_task c)) (gate_cell k run)"

definition grows :: "gate_ctl \<Rightarrow> gate_ctl \<Rightarrow> bool" where
  "grows k k' \<longleftrightarrow> map_of (gk_commands k) \<subseteq>\<^sub>m map_of (gk_commands k') \<and> set (gk_reviewers k) \<subseteq> set (gk_reviewers k') \<and>
     linked_ids k \<subseteq> linked_ids k' \<and>
     (\<forall>run rs. panel_of k' run = Some rs \<longrightarrow> panel_of k run = Some rs \<or> set rs \<subseteq> linked_ids k' \<or>
        (\<exists>old. panel_of k run = Some old \<and> set rs \<subseteq> set old \<union> linked_ids k'))"

lemma grows_refl [simp]: "grows k k"
  by (simp add: grows_def)

lemma grows_trans:
  assumes "grows a b" and "grows b c"
  shows "grows a c"
proof -
  have ids: "linked_ids b \<subseteq> linked_ids c" using assms(2) by (simp add: grows_def)
  have "panel_of a run = Some rs \<or> set rs \<subseteq> linked_ids c \<or> (\<exists>old. panel_of a run = Some old \<and> set rs \<subseteq> set old \<union> linked_ids c)"
    if c: "panel_of c run = Some rs" for run rs
  proof -
    from assms(2) c consider "panel_of b run = Some rs" | "set rs \<subseteq> linked_ids c"
      | mid where "panel_of b run = Some mid" "set rs \<subseteq> set mid \<union> linked_ids c"
      unfolding grows_def by blast
    then show ?thesis
    proof cases
      case 1
      with assms(1) ids show ?thesis unfolding grows_def by blast
    next
      case 3
      with assms(1) have "panel_of a run = Some mid \<or> set mid \<subseteq> linked_ids b \<or>
        (\<exists>old. panel_of a run = Some old \<and> set mid \<subseteq> set old \<union> linked_ids b)" by (simp add: grows_def)
      with 3 ids show ?thesis by blast
    qed blast
  qed
  with assms show ?thesis unfolding grows_def by (blast intro: map_le_trans)
qed

lemma grows_step: "grows k0 k \<Longrightarrow> grows k k' \<Longrightarrow> grows k0 k'"
  by (rule grows_trans)

lemma keeps_growsI: "(\<And>k. grows k (snd (m k))) \<Longrightarrow> keeps (grows k0) m"
  unfolding keeps_def by (blast intro: grows_trans)

lemma link_simps [simp]:
  "gk_commands (link_reviewer r run ow k) = gk_commands k"
  "gk_reviewers (link_reviewer r run ow k) = set_add r (gk_reviewers k)"
  "linked_ids (link_reviewer r run ow k) = insert r (linked_ids k)"
  by (auto simp: link_reviewer_def linked_ids_def Let_def put_cell_def split: option.split)

lemma link_all_simps [simp]:
  "gk_commands (link_all rs run ow k) = gk_commands k"
  "set (gk_reviewers (link_all rs run ow k)) = set rs \<union> set (gk_reviewers k)"
  "linked_ids (link_all rs run ow k) = set rs \<union> linked_ids k"
  unfolding link_all_def by (induction rs arbitrary: k) auto

lemma link_tasks_reviewers: "set (gt_reviewers (link_tasks rs t)) = set rs \<union> set (gt_reviewers t)"
  unfolding link_tasks_def by (induction rs arbitrary: t) (auto simp: link_task_def)

lemma put_simps [simp]:
  "gk_commands (put_cell run c k) = gk_commands k" "gk_reviewers (put_cell run c k) = gk_reviewers k"
  "linked_ids (put_cell run c k) = linked_ids k"
  by (simp_all add: put_cell_def linked_ids_def)

lemma grows_link_all: "grows k (link_all rs run ow k)"
  by (auto simp: grows_def panel_of_def link_tasks_reviewers)

lemma grows_link: "grows k (link_reviewer r run ow k)"
  using grows_link_all [of k "[r]" run ow] by (simp add: link_all_def)

lemma grows_new: "set (gt_reviewers (ce_task c)) \<subseteq> set rs \<Longrightarrow> grows k (link_all rs run ow (put_cell run c k))"
  by (auto simp: grows_def panel_of_def link_tasks_reviewers)

lemma grows_same: "gk_tasks k' = gk_tasks k \<Longrightarrow> gk_reviewers k' = gk_reviewers k \<Longrightarrow> gk_current k' = gk_current k \<Longrightarrow>
    map_of (gk_commands k) \<subseteq>\<^sub>m map_of (gk_commands k') \<Longrightarrow> grows k k'"
  by (simp add: grows_def linked_ids_def panel_of_def gate_cell_def)

named_theorems grows_intros \<open>operations only add\<close>

lemmas [grows_intros] = keeps_intros

lemma grows_emod [grows_intros]: "(\<And>k. grows k (f k)) \<Longrightarrow> keeps (grows k0) (emod f)"
  by (rule keeps_growsI) (simp add: emod_def)

lemma grows_calls [grows_intros]: "keeps (grows k0) (ctl_call q)" "keeps (grows k0) (ctl_do q)" "keeps (grows k0) random_uuid"
  unfolding ctl_do_def random_uuid_def
  by (intro keeps_intros keeps_growsI; auto simp: ctl_call_def Let_def intro: grows_same split: option.split)+

lemma grows_dedup [grows_intros]: "keeps (grows k0) (dedup_command cid action run)"
  by (rule keeps_growsI)
    (auto simp: dedup_command_def ebind_def eget_def ethrow_def emod_def map_le_def intro!: grows_same split: option.split)

lemma grows_on_task [grows_intros]:
  assumes "keeps (grows k0) none" and "\<And>x. keeps (ident x) m"
  shows "keeps (grows k0) (on_task none run m)"
proof (rule keepsI)
  fix k assume k: "grows k0 k"
  show "post (on_task none run m) (\<lambda>_. grows k0) k"
  proof (cases "gate_cell k run")
    case None
    with keeps_post [OF assms(1) k] show ?thesis by (simp add: post_on_task)
  next
    case (Some c)
    have "task_id (ce_task (snd (m c))) = task_id (ce_task c)"
      using keepsD [OF assms(2) [of "task_id (ce_task c)"], of c] by (simp add: ident_def)
    then have "grows k (put_cell run (snd (m c)) k)" using Some by (auto simp: grows_def panel_of_def task_id_def)
    with k Some show ?thesis unfolding post_on_task by (auto simp: post_result intro: grows_trans)
  qed
qed

lemma grows_prior [grows_intros]: "keeps (grows k0) (prior_candidate run cand missing mismatch)"
  unfolding prior_candidate_def by (auto intro!: grows_intros split: option.split)

lemma grows_begin [grows_intros]:
  "keeps (grows k0) (begin_retry nt run prior c spec)" "keeps (grows k0) (begin_bypass run reason prior)"
  unfolding begin_retry_def begin_bypass_def retry_panel_def
  by (auto intro!: grows_intros grows_link_all grows_new start_retry_ident simp: new_cell_def retry_task_def new_task_def Let_def)
    (auto simp: grows_def panel_of_def bypassed_task_def new_task_def)

lemma grows_commands [grows_intros]:
  "keeps (grows k0) (retry_review nt policy run cand given cid)" "keeps (grows k0) (bypass policy run cand reason cid)"
  unfolding retry_review_def bypass_def validate_gate_spec_def
  by (auto intro!: grows_intros split: sum.split prod.split)

lemma grows_register [grows_intros]: "keeps (grows k0) (register_task agent run spec body rs)"
  unfolding register_task_def by (auto intro!: grows_intros grows_new simp: new_cell_def new_task_def split: option.split)

lemma grows_import: "grows k (import_task t k)"
  by (auto simp: import_task_def Let_def new_cell_def intro!: grows_new)

lemma ctl_exec_grows: "keeps (grows k0) (ctl_exec nt policy e)"
  by (cases e)
    (auto simp: ctl_exec_def ctl_candidate_def ctl_submit_def ctl_failed_def ctl_cancel_def ctl_interrupt_def ctl_recover_def
      ctl_resume_review_def ctl_set_limits_def no_live_task_def Let_def
      intro!: grows_intros ident_intros grows_link grows_import gate_exec_ident split: option.split)

section \<open>Runs of the controller\<close>

fun ctl_run :: "(js_num \<Rightarrow> jstring) \<Rightarrow> supervisor_policy \<Rightarrow> ctl_event list \<Rightarrow> gate_ctl \<Rightarrow> gate_ctl" where
  "ctl_run nt policy [] k = k"
| "ctl_run nt policy (e # es) k = ctl_run nt policy es (snd (ctl_exec nt policy e k))"

fun command_of :: "ctl_event \<Rightarrow> jstring option" where
  "command_of (K_resume run review cid) = Some cid"
| "command_of (K_limits run limit cid) = Some cid"
| "command_of (K_retry run cand given cid) = Some cid"
| "command_of (K_bypass run cand reason cid) = Some cid"
| "command_of _ = None"

lemma ctl_run_grows: "grows k (ctl_run nt policy es k)"
proof (induction es arbitrary: k)
  case (Cons e es)
  have "grows k (snd (ctl_exec nt policy e k))" by (rule keepsD [OF ctl_exec_grows]) simp
  with Cons.IH [of "snd (ctl_exec nt policy e k)"] show ?case by (auto intro: grows_trans)
qed simp

lemma after_dedup:
  assumes "\<And>k1. keeps (grows k1) m"
  shows "map_of (gk_commands (snd (ethen (dedup_command cid a run) m k))) cid \<noteq> None"
proof -
  have "post (ethen (dedup_command cid a run) m) (\<lambda>_ k'. map_of (gk_commands k') cid \<noteq> None) k"
    unfolding post_ethen
  proof (rule post_mono [OF dedup_post])
    fix r and k1 :: gate_ctl
    assume d: "moved k 0 k1 \<and>
     (is_ok r \<longrightarrow> map_of (gk_commands k) cid = None \<and> k1 = k\<lparr>gk_commands := map_put cid (a, run) (gk_commands k)\<rparr>) \<and>
     (\<not> is_ok r \<longrightarrow> k1 = k \<and> map_of (gk_commands k) cid \<noteq> None)"
    then have "map_of (gk_commands k1) cid \<noteq> None" by (cases "is_ok r") auto
    moreover from this have "map_of (gk_commands k2) cid \<noteq> None" if "grows k1 k2" for k2
      using that by (auto simp: grows_def map_le_def dom_def)
    ultimately show "case r of Inl e \<Rightarrow> map_of (gk_commands k1) cid \<noteq> None
        | Inr x \<Rightarrow> post m (\<lambda>_ k'. map_of (gk_commands k') cid \<noteq> None) k1"
      using keeps_post [OF assms, of k1 k1] by (auto split: sum.split intro: post_mono)
  qed
  then show ?thesis by (simp add: post_result)
qed

lemma command_recorded:
  assumes "command_of e = Some cid"
  shows "map_of (gk_commands (snd (ctl_exec nt policy e k))) cid \<noteq> None"
proof -
  have snd: "snd (ebind m (\<lambda>_. eret ()) k) = snd (m k)" for m :: "run_id ctl_eff"
    by (simp add: ebind_def eret_def split_beta split: sum.split)
  with assms show ?thesis
    by (cases e)
      (auto simp: ctl_exec_def ctl_resume_review_def ctl_set_limits_def retry_review_def bypass_def validate_gate_spec_def no_live_task_def
        intro!: after_dedup [simplified] grows_intros ident_intros split: sum.split)
qed

lemma command_refused:
  assumes "command_of e = Some cid" and "map_of (gk_commands k) cid \<noteq> None"
  shows "\<exists>m. ctl_exec nt policy e k = (Inl (js ''DUPLICATE_REQUEST'', m), k)"
  using assms
  by (cases e)
    (auto simp: ctl_exec_def ctl_resume_review_def ctl_set_limits_def retry_review_def bypass_def ethen_def ebind_def dedup_command_def
      eget_def ethrow_def gate_err_def)

lemma foldl_set_add: "set (foldl (\<lambda>acc r. set_add r acc) out rs) = set out \<union> set rs"
  by (induction rs arbitrary: out) auto

lemma reviewers_of_iff:
  "r \<in> set (reviewers_of k a) \<longleftrightarrow> (r, a) \<in> set (gk_owners k) \<or>
     (\<exists>run c. (run, c) \<in> set (gk_tasks k) \<and> gt_agent (ce_task c) = a \<and> r \<in> set (gt_reviewers (ce_task c)))"
proof -
  have "r \<in> set (foldl (\<lambda>out (r, ow). if ow = a then set_add r out else out) out ows) \<longleftrightarrow> r \<in> set out \<or> (r, a) \<in> set ows" for out ows
  proof (induction ows arbitrary: out)
    case (Cons x ows)
    then show ?case by (cases x) auto
  qed simp
  moreover have "r \<in> set (foldl (\<lambda>out (run, c). if gt_agent (ce_task c) = a then foldl (\<lambda>acc r. set_add r acc) out (gt_reviewers (ce_task c)) else out) out ts)
    \<longleftrightarrow> r \<in> set out \<or> (\<exists>run c. (run, c) \<in> set ts \<and> gt_agent (ce_task c) = a \<and> r \<in> set (gt_reviewers (ce_task c)))" for out and ts :: "(run_id \<times> cell) list"
  proof (induction ts arbitrary: out)
    case (Cons x ts)
    then show ?case by (cases x) (auto simp: foldl_set_add)
  qed simp
  ultimately show ?thesis by (simp add: reviewers_of_def)
qed

lemma panels_linked: "gate_ctl_reach nt k \<Longrightarrow> gate_cell k run = Some c \<Longrightarrow> set (gt_reviewers (ce_task c)) \<subseteq> linked_ids k"
proof -
  assume r: "gate_ctl_reach nt k" and c: "gate_cell k run = Some c"
  from r have "\<exists>h ch sha. grows (new_gate_ctl h ch sha) k"
  proof (induction rule: gate_ctl_reach.induct)
    case (start h ch sha)
    show ?case by (intro exI [of _ h] exI [of _ ch] exI [of _ sha]) simp
  next
    case (step k policy e)
    then show ?case by (meson keepsD [OF ctl_exec_grows])
  qed
  with c show ?thesis by (auto simp: grows_def panel_of_def new_gate_ctl_def gate_cell_def)
qed

section \<open>Properties\<close>

definition sample_ctl :: gate_ctl where
  "sample_ctl = new_gate_ctl willing (\<lambda>_. willing) (\<lambda>s. s)"

definition sample_registration :: ctl_event where
  "sample_registration = K_register (js ''a'') (js ''t1'') sample_gate_spec (js ''do it'') [js ''r'']"

lemma sample_registered:
  "gate_ctl_reach nt (snd (ctl_exec nt open_policy sample_registration sample_ctl))"
  "gate_cell (snd (ctl_exec nt open_policy sample_registration sample_ctl)) (js ''t1'') =
     Some (new_cell (new_task (js ''a'') (js ''t1'') sample_gate_spec (js ''do it'') [js ''r'']) willing (\<lambda>s. s))"
proof -
  have e: "rounds_wf open_policy (gs_max_rounds sample_gate_spec)"
    by (simp add: rounds_wf_def open_policy_def default_supervisor_policy_def sample_gate_spec_def)
  have "gate_ctl_reach nt sample_ctl" unfolding sample_ctl_def by (rule gate_ctl_reach.start)
  with e show "gate_ctl_reach nt (snd (ctl_exec nt open_policy sample_registration sample_ctl))"
    by (intro gate_ctl_reach.step) (simp_all add: ctl_enabled_def sample_registration_def)
  have none: "gate_cell sample_ctl x = None" for x by (simp add: gate_cell_def sample_ctl_def new_gate_ctl_def)
  have "gk_host sample_ctl = willing" "gk_cell_host sample_ctl = (\<lambda>_. willing)" "gk_sha256 sample_ctl = (\<lambda>s. s)"
    by (simp_all add: sample_ctl_def new_gate_ctl_def)
  then show "gate_cell (snd (ctl_exec nt open_policy sample_registration sample_ctl)) (js ''t1'') =
     Some (new_cell (new_task (js ''a'') (js ''t1'') sample_gate_spec (js ''do it'') [js ''r'']) willing (\<lambda>s. s))"
    using none
    by (simp add: ctl_exec_def sample_registration_def register_task_def ebind_def eget_def ethen_def emod_def ctl_do_def ctl_call_def
        eret_def Let_def willing_def sample_gate_spec_def new_task_linked) (simp add: new_cell_def new_task_linked)
qed

text \<open>
  C20. The controller refines the product of its tasks: in every state the controller reaches, the
  task of a run is in a state that the steps of that task alone reach, under its own name. What is
  proved of one gated task (unanimous passes, bounded rounds, final outcomes) so holds of every
  task of the supervisor, whatever happens to the others.
\<close>

theorem controller_refines_tasks:
  assumes "gate_ctl_reach nt k" and "gate_cell k run = Some c"
  shows "gate_reach c \<and> gt_run (ce_task c) = run"
  using refinedD [OF gate_ctl_refined [OF assms(1)] assms(2)] by simp

theorem controller_refines_tasks_witness:
  "\<exists>c. gate_cell (snd (ctl_exec (\<lambda>_. [48]) open_policy sample_registration sample_ctl)) (js ''t1'') = Some c \<and> gate_reach c"
  using controller_refines_tasks [OF sample_registered] by (auto simp: sample_registered(2))

text \<open>
  C21. A governor's command takes effect at most once: after a command was executed with some id,
  whatever follows, every command with that id is refused as a duplicate and leaves the controller
  as it was. This includes the retry of a command that was itself refused.
\<close>

theorem commands_at_most_once:
  assumes "command_of e = Some cid" and "command_of e' = Some cid"
  shows "case ctl_exec nt policy e' (ctl_run nt policy es (snd (ctl_exec nt policy e k))) of
     (r, k') \<Rightarrow> (case r of Inl (code, _) \<Rightarrow> code = js ''DUPLICATE_REQUEST'' | Inr _ \<Rightarrow> False) \<and>
        k' = ctl_run nt policy es (snd (ctl_exec nt policy e k))"
proof -
  let ?k = "snd (ctl_exec nt policy e k)"
  have "map_of (gk_commands ?k) cid \<noteq> None" by (rule command_recorded [OF assms(1)])
  then have "map_of (gk_commands (ctl_run nt policy es ?k)) cid \<noteq> None"
    using ctl_run_grows [of ?k nt policy es] by (auto simp: grows_def map_le_def dom_def)
  from command_refused [OF assms(2) this, of nt policy] show ?thesis by auto
qed

theorem commands_at_most_once_witness:
  "fst (ctl_exec (\<lambda>_. [48]) open_policy (K_limits (js ''t1'') (Some 2) (js ''c''))
      (snd (ctl_exec (\<lambda>_. [48]) open_policy (K_limits (js ''t1'') (Some 0) (js ''c'')) sample_ctl))) \<noteq> Inr ()"
  using commands_at_most_once [of "K_limits (js ''t1'') (Some 0) (js ''c'')" "js ''c''" "K_limits (js ''t1'') (Some 2) (js ''c'')"
      "\<lambda>_. [48]" open_policy "[]" sample_ctl]
  by (auto split: prod.splits sum.splits)

text \<open>
  Reviewers stay protected: every member of every registered panel is a protected reviewer
  identity, listed among the reviewers of the task's agent, and it stays protected whatever
  follows, also after its tasks end.
\<close>

theorem panels_are_protected:
  assumes "gate_ctl_reach nt k" and "gate_cell k run = Some c" and "r \<in> set (gt_reviewers (ce_task c))"
  shows "r \<in> set (reviewers_of k (gt_agent (ce_task c))) \<and> is_reviewer (ctl_run nt policy es k) r"
proof -
  have "r \<in> linked_ids (ctl_run nt policy es k)"
    using panels_linked [OF assms(1,2)] assms(3) ctl_run_grows [of k nt policy es] by (auto simp: grows_def)
  moreover have "(run, c) \<in> set (gk_tasks k)" using assms(2) by (simp add: gate_cell_def map_of_SomeD)
  ultimately show ?thesis using assms(3) by (auto simp: reviewers_of_iff is_reviewer_def linked_ids_def)
qed

theorem panels_are_protected_witness:
  "is_reviewer (ctl_run (\<lambda>_. [48]) open_policy [K_cancel (js ''t1'') Out_interrupted]
     (snd (ctl_exec (\<lambda>_. [48]) open_policy sample_registration sample_ctl))) (js ''r'')"
  using panels_are_protected [OF sample_registered, where r = "js ''r''" and policy = open_policy and es = "[K_cancel (js ''t1'') Out_interrupted]"]
  by (simp add: new_cell_def new_task_def)

text \<open>
  A bypass is exceptional and recorded: it succeeds only when the policy allows it, on the
  recorded candidate of a run that has an outcome; it adds exactly one run, linked to the prior
  one, with that candidate and its evidence, whose outcome is the bypass (never a pass); and
  neither a successful nor a refused bypass changes any other task.
\<close>

theorem bypass_effect:
  assumes "gate_cell k (next_uuid k) = None"
  shows "case bypass policy prior_run cand reason cid k of (r, k') \<Rightarrow>
     (\<forall>x. x = next_uuid k \<or> gate_inspect k' x = gate_inspect k x) \<and>
     (case r of Inl _ \<Rightarrow> True
      | Inr run \<Rightarrow> p_gate_bypass policy \<and> run \<noteq> prior_run \<and>
          (case (gate_inspect k prior_run, gate_inspect k' run) of
             (Some prior, Some t) \<Rightarrow> gt_terminal prior \<noteq> None \<and> map_option cd_id (gt_candidate prior) = Some cand \<and>
               gt_candidate t = gt_candidate prior \<and> gt_evidence t = gt_evidence prior \<and>
               gt_linked t = Some prior_run \<and> gt_terminal t = Some Out_bypassed
           | _ \<Rightarrow> False))"
proof -
  obtain r k' where run: "bypass policy prior_run cand reason cid k = (r, k')" by fastforce
  with bypass_post [OF assms, of policy prior_run cand reason cid] have b: "bypass_result policy k prior_run cand r k'"
    by (simp add: post_result)
  then have o: "gate_inspect k' x = gate_inspect k x" if "x \<noteq> next_uuid k" for x
    using that by (simp add: bypass_result_def others_def gate_inspect_def)
  have "gate_inspect k (next_uuid k) = None" using assms by (simp add: gate_inspect_def)
  with b o run show ?thesis
    by (auto simp: bypass_result_def gate_inspect_def new_cell_def bypassed_task_def new_task_def split: sum.split option.splits)
qed

definition sample_settled_ctl :: gate_ctl where
  "sample_settled_ctl = put_cell (js ''t1'') (new_cell ((new_task (js ''a'') (js ''t1'') sample_gate_spec (js ''do it'') [js ''r''])
     \<lparr>gt_candidate := Some \<lparr>cd_id = js ''c1'', cd_run = js ''t1'', cd_generation = 1, cd_base = None, cd_rubric = [],
        cd_result_ref = [], cd_fingerprint = sample_fingerprint, cd_created = []\<rparr>, gt_terminal := Some Out_error\<rparr>) willing (\<lambda>s. s)) sample_ctl"

theorem bypass_effect_witness:
  "case bypass (open_policy\<lparr>p_gate_bypass := True\<rparr>) (js ''t1'') (js ''c1'') (js ''why'') (js ''x'') sample_settled_ctl of (r, k') \<Rightarrow>
     is_ok r \<and> map_option gt_terminal (gate_inspect k' []) = Some (Some Out_bypassed)"
proof -
  have w: "gate_cell sample_settled_ctl (next_uuid sample_settled_ctl) = None"
    by (simp add: sample_settled_ctl_def next_uuid_def sample_ctl_def new_gate_ctl_def put_cell_def willing_def gate_cell_def)
  have "is_ok (fst (bypass (open_policy\<lparr>p_gate_bypass := True\<rparr>) (js ''t1'') (js ''c1'') (js ''why'') (js ''x'') sample_settled_ctl))"
    by (simp add: bypass_def dedup_command_def prior_candidate_def begin_bypass_def random_uuid_def ctl_do_def ctl_call_def effect_defs
        sample_settled_ctl_def gate_inspect_def gate_cell_def put_cell_def sample_ctl_def new_gate_ctl_def new_cell_def new_task_def
        willing_def Let_def)
  moreover have "next_uuid sample_settled_ctl = []"
    by (simp add: sample_settled_ctl_def next_uuid_def sample_ctl_def new_gate_ctl_def put_cell_def willing_def)
  ultimately show ?thesis
    using bypass_effect [OF w, of "open_policy\<lparr>p_gate_bypass := True\<rparr>" "js ''t1''" "js ''c1''" "js ''why''" "js ''x''"]
      bypass_post [OF w, of "open_policy\<lparr>p_gate_bypass := True\<rparr>" "js ''t1''" "js ''c1''" "js ''why''" "js ''x''"]
    by (auto simp: post_result bypass_result_def split: prod.splits sum.splits option.splits)
qed

end
