(* ===== verification/GateJournal.thy ===== *)
theory GateJournal
  imports GateControl "HOL-Library.Sublist"
begin

text \<open>
  Recovery of gated tasks: the supervisor (\<open>restoreFromJournal\<close> in
  \<open>ponygirls-subagents/src/supervisor.ts\<close>) replays the journal entries of the gate into drafts, and
  imports a task from each draft. Entries are those the present gate writes; the defaults for
  fields that older journals lack are not modelled. The outcomes of settled runs, and which repairs
  were dispatched, come from entries of the supervisor and are arguments here.
\<close>

section \<open>Replay\<close>

record gate_draft =
  dr_agent :: agent_id
  dr_text :: jstring
  dr_spec :: gate_spec
  dr_rounds :: nat
  dr_candidates :: "candidate list"
  dr_findings :: "gate_finding list"
  dr_response :: jstring
  dr_repair :: "jstring option"
  dr_criticism :: "jstring option"
  dr_linked :: "run_id option"
  dr_reviewer :: "agent_id option"
  dr_reviewers :: "agent_id list"
  dr_feedback :: "gate_feedback list"
  dr_evidence :: "check_evidence list"

fun entry_run :: "journal_entry \<Rightarrow> run_id" where
  "entry_run (J_registered a r s x l rs) = r"
| "entry_run (J_candidate a r c x) = r"
| "entry_run (J_round_admitted a r n c f p) = r"
| "entry_run (J_evidence a r n es) = r"
| "entry_run (J_feedback a r f) = r"
| "entry_run (J_repair a r v c n x) = r"
| "entry_run (J_limits a r m c) = r"

definition new_draft :: "agent_id \<Rightarrow> gate_spec \<Rightarrow> jstring \<Rightarrow> run_id option \<Rightarrow> agent_id list \<Rightarrow> gate_draft" where
  "new_draft agent spec x linked rs =
     \<lparr>dr_agent = agent, dr_text = x, dr_spec = spec, dr_rounds = 0, dr_candidates = [], dr_findings = [], dr_response = [],
      dr_repair = None, dr_criticism = None, dr_linked = linked, dr_reviewer = (case rs of [] \<Rightarrow> None | r # _ \<Rightarrow> Some r),
      dr_reviewers = rs, dr_feedback = [], dr_evidence = []\<rparr>"

fun verdict_findings :: "gate_decision option \<Rightarrow> gate_finding list" where
  "verdict_findings (Some (Revise c bs as)) = bs @ as"
| "verdict_findings (Some (Approve c as)) = as"
| "verdict_findings _ = []"

fun draft_update :: "journal_entry \<Rightarrow> gate_draft \<Rightarrow> gate_draft" where
  "draft_update (J_registered a r s x l rs) d = d"
| "draft_update (J_limits a r m c) d = d\<lparr>dr_spec := (dr_spec d)\<lparr>gs_max_rounds := m\<rparr>\<rparr>"
| "draft_update (J_round_admitted a r n c f p) d = d\<lparr>dr_rounds := max (dr_rounds d) n\<rparr>"
| "draft_update (J_candidate a r c x) d = d\<lparr>dr_candidates := dr_candidates d @ [c], dr_response := x\<rparr>"
| "draft_update (J_feedback a r f) d = d\<lparr>dr_feedback := dr_feedback d @ [f],
     dr_findings := concat (map (\<lambda>f. verdict_findings (fb_verdict f)) (filter (\<lambda>f. fb_round f = dr_rounds d) (dr_feedback d @ [f])))\<rparr>"
| "draft_update (J_evidence a r n es) d = d\<lparr>dr_evidence := dr_evidence d @ map (\<lambda>e. \<lparr>ev_round = n, ev_result = e\<rparr>) es\<rparr>"
| "draft_update (J_repair a r v c n x) d = d\<lparr>dr_repair := Some c, dr_criticism := Some x\<rparr>"

definition replay_entry :: "journal_entry \<Rightarrow> (run_id \<times> gate_draft) list \<Rightarrow> (run_id \<times> gate_draft) list" where
  "replay_entry j ds = (case j of
     J_registered agent run spec x linked rs \<Rightarrow>
       if run = [] \<or> map_of ds run \<noteq> None then ds else map_put run (new_draft agent spec x linked rs) ds
   | _ \<Rightarrow> (case map_of ds (entry_run j) of None \<Rightarrow> ds | Some d \<Rightarrow> map_put (entry_run j) (draft_update j d) ds))"

definition replay_gates :: "journal_entry list \<Rightarrow> (run_id \<times> gate_draft) list" where
  "replay_gates entries = foldl (\<lambda>ds j. replay_entry j ds) [] entries"

definition last_opt :: "'a list \<Rightarrow> 'a option" where
  "last_opt xs = (if xs = [] then None else Some (last xs))"

definition draft_history :: "(jstring \<Rightarrow> jstring) \<Rightarrow> gate_draft \<Rightarrow> jstring list" where
  "draft_history sha256 d = map (\<lambda>c. fingerprint_summary sha256 (cd_fingerprint c)) (dr_candidates d)"

definition draft_warning :: "jstring list \<Rightarrow> jstring option" where
  "draft_warning h =
     (if length h > 1 \<and> h ! (length h - 1) = h ! (length h - 2)
      then Some (js ''round '' @ nat_text (length h) @ js '': candidate unchanged since previous round; no implicit stop applied'')
      else None)"

definition restored_task :: "(jstring \<Rightarrow> jstring) \<Rightarrow> run_id \<Rightarrow> gate_draft \<Rightarrow> gate_outcome option \<Rightarrow> gate_task" where
  "restored_task sha256 run d outcome =
     \<lparr>gt_agent = dr_agent d, gt_run = run, gt_text = dr_text d, gt_spec = dr_spec d, gt_rounds = dr_rounds d,
      gt_reviewer = dr_reviewer d, gt_reviewers = dr_reviewers d, gt_candidate = last_opt (dr_candidates d), gt_review = None,
      gt_feedback = dr_feedback d, gt_findings = dr_findings d, gt_response = dr_response d, gt_reserved = False,
      gt_repair = dr_repair d, gt_terminal = outcome, gt_linked = dr_linked d, gt_evidence = dr_evidence d,
      gt_history = draft_history sha256 d, gt_warning = draft_warning (draft_history sha256 d)\<rparr>"

text \<open>
  The loop over the drafts; \<open>dispatched run command\<close> says that a generation was started for the
  repair of that command.
\<close>

definition recover_task ::
  "(run_id \<Rightarrow> gate_outcome option) \<Rightarrow> (run_id \<Rightarrow> jstring \<Rightarrow> bool) \<Rightarrow> run_id \<times> gate_draft \<Rightarrow> unit ctl_eff" where
  "recover_task outcomes dispatched rd = (case rd of (run, d) \<Rightarrow> ebind eget (\<lambda>k.
     ethen (emod (import_task (restored_task (gk_sha256 k) run d (outcomes run))))
    (ethen (if length (dr_reviewers d) > 0 then on_task (eret ()) run restore_review else eret ())
      (on_task (eret ()) run (with_task (\<lambda>t. case (gt_terminal t, dr_repair d, dr_criticism d) of
         (None, Some command, Some criticism) \<Rightarrow>
           if command = [] \<or> criticism = [] \<or> dispatched run command then eret () else upd_task (\<lambda>t. t\<lparr>gt_reserved := True\<rparr>)
       | _ \<Rightarrow> eret ()))))))"

text \<open>
  Reviewer identities found in spawn entries: the reviewer, its run, the main agent if journaled,
  and the agent whose current gated run that is.
\<close>

definition recover_link :: "agent_id \<times> run_id \<times> agent_id option \<times> agent_id option \<Rightarrow> unit ctl_eff" where
  "recover_link l = (case l of (r, run, main, current) \<Rightarrow> emod (\<lambda>k. link_reviewer r run
     (case main of Some a \<Rightarrow> Some a
      | None \<Rightarrow> (case gate_inspect k run of Some t \<Rightarrow> Some (gt_agent t) | None \<Rightarrow> current)) k))"

definition recover_gates ::
  "(run_id \<Rightarrow> gate_outcome option) \<Rightarrow> (run_id \<Rightarrow> jstring \<Rightarrow> bool) \<Rightarrow>
     (agent_id \<times> run_id \<times> agent_id option \<times> agent_id option) list \<Rightarrow> journal_entry list \<Rightarrow> unit ctl_eff" where
  "recover_gates outcomes dispatched links entries =
     ethen (eeach (recover_task outcomes dispatched) (replay_gates entries))
    (ethen (eeach recover_link links)
      (eeach (\<lambda>(run, d). if length (dr_reviewers d) = 0 then on_task (eret ()) run restore_review else eret ()) (replay_gates entries)))"

section \<open>Interleaved journals\<close>

text \<open>What a run's draft becomes depends on its own entries only.\<close>

lemma replay_other: "entry_run j \<noteq> run \<Longrightarrow> map_of (replay_entry j ds) run = map_of ds run"
  by (cases j) (auto simp: replay_entry_def split: option.split)

lemma replay_own: "entry_run j = run \<Longrightarrow> map_of ds run = Some d \<Longrightarrow> map_of (replay_entry j ds) run = Some (draft_update j d)"
  by (cases j) (auto simp: replay_entry_def)

lemma replay_run:
  "map_of ds run = Some d \<Longrightarrow>
     map_of (foldl (\<lambda>ds j. replay_entry j ds) ds entries) run = Some (foldl (\<lambda>d j. draft_update j d) d (filter (\<lambda>j. entry_run j = run) entries))"
proof (induction entries arbitrary: ds d)
  case (Cons j entries)
  then show ?case by (cases "entry_run j = run") (simp_all add: replay_own replay_other)
qed simp

lemma replay_unregistered:
  "map_of ds run = None \<Longrightarrow> filter (\<lambda>j. entry_run j = run) entries = J_registered agent run spec x linked rs # es \<Longrightarrow> run \<noteq> [] \<Longrightarrow>
     map_of (foldl (\<lambda>ds j. replay_entry j ds) ds entries) run = Some (foldl (\<lambda>d j. draft_update j d) (new_draft agent spec x linked rs) es)"
proof (induction entries arbitrary: ds)
  case (Cons j entries)
  show ?case
  proof (cases "entry_run j = run")
    case True
    with Cons.prems have "j = J_registered agent run spec x linked rs" "filter (\<lambda>j. entry_run j = run) entries = es" by simp_all
    moreover from this Cons.prems have "map_of (replay_entry j ds) run = Some (new_draft agent spec x linked rs)"
      by (simp add: replay_entry_def)
    ultimately show ?thesis by (simp add: replay_run)
  next
    case False
    with Cons.prems show ?thesis by (simp add: replay_other Cons.IH)
  qed
qed simp

section \<open>The journal follows the task\<close>

fun entry_of :: "host_request \<Rightarrow> journal_entry list" where
  "entry_of (Append j) = [j]"
| "entry_of _ = []"

definition entries :: "host_request list \<Rightarrow> journal_entry list" where
  "entries ks = concat (map entry_of ks)"

lemma entries_simps [simp]: "entries [] = []" "entries (ks @ ls) = entries ks @ entries ls" "entries (k # ks) = entry_of k @ entries ks"
  by (simp_all add: entries_def)

text \<open>The journal has not failed: every append so far returned.\<close>

definition journal_ok :: "cell \<Rightarrow> bool" where
  "journal_ok c \<longleftrightarrow> list_all (\<lambda>(n, k). entry_of k = [] \<or> an_error (ce_host c n) = None) (enumerate 0 (ce_log c))"

lemma journal_ok_call [simp]:
  "journal_ok (c\<lparr>ce_log := ce_log c @ [k]\<rparr>) \<longleftrightarrow> journal_ok c \<and> (entry_of k = [] \<or> an_error (ce_host c (length (ce_log c))) = None)"
  by (simp add: journal_ok_def enumerate_append_eq)

lemma journal_ok_simps [simp]:
  "journal_ok (c\<lparr>ce_task := t\<rparr>) = journal_ok c" "journal_ok (c\<lparr>ce_pending := ks\<rparr>) = journal_ok c"
  "journal_ok (c\<lparr>ce_serial := n\<rparr>) = journal_ok c"
  by (simp_all add: journal_ok_def)

definition draft_matches :: "gate_draft \<Rightarrow> gate_task \<Rightarrow> bool" where
  "draft_matches d t \<longleftrightarrow> dr_agent d = gt_agent t \<and> dr_text d = take 65536 (gt_text t) \<and> dr_spec d = gt_spec t \<and>
     dr_rounds d = gt_rounds t \<and> last_opt (dr_candidates d) = gt_candidate t \<and> take 4000 (dr_response d) = gt_response t \<and>
     dr_repair d = gt_repair t \<and> dr_linked d = gt_linked t \<and> dr_reviewer d = gt_reviewer t \<and> dr_reviewers d = gt_reviewers t \<and>
     dr_feedback d = gt_feedback t \<and> suffix (gt_evidence t) (dr_evidence d)"

definition draft_after :: "gate_draft \<Rightarrow> host_request list \<Rightarrow> gate_draft" where
  "draft_after d ks = foldl (\<lambda>d j. draft_update j d) d (entries ks)"

lemma draft_after_simps [simp]:
  "draft_after d [] = d" "draft_after d (ks @ [k]) = foldl (\<lambda>d j. draft_update j d) (draft_after d ks) (entry_of k)"
  by (simp_all add: draft_after_def)

definition journaled :: "gate_draft \<Rightarrow> cell \<Rightarrow> bool" where
  "journaled d c \<longleftrightarrow> list_all (\<lambda>j. entry_run j = gt_run (ce_task c)) (entries (ce_log c)) \<and>
     (journal_ok c \<longrightarrow> gt_terminal (ce_task c) = None \<longrightarrow> draft_matches (draft_after d (ce_log c)) (ce_task c))"

text \<open>The fields of a task that its journal determines, and whether it is settled.\<close>

definition journal_key :: "gate_task \<Rightarrow> _" where
  "journal_key t = (task_id t, gt_reviewer t, gt_spec t, gt_rounds t, gt_candidate t, gt_response t, gt_repair t, gt_feedback t, gt_evidence t)"

lemma journal_key_matches: "journal_key t = journal_key u \<Longrightarrow> draft_matches d t = draft_matches d u"
  by (simp add: journal_key_def draft_matches_def task_id_def)

lemma journal_key_run: "journal_key t = journal_key u \<Longrightarrow> gt_run t = gt_run u"
  by (simp add: journal_key_def task_id_def)

named_theorems journal_intros \<open>operations keep the journal in step with the task\<close>

lemmas [journal_intros] = keeps_intros

lemma journaled_calls [journal_intros]:
  "entry_of k = [] \<Longrightarrow> keeps (journaled d) (host_call k)" "entry_of k = [] \<Longrightarrow> keeps (journaled d) (note_call k)"
  "entry_of k = [] \<Longrightarrow> keeps (journaled d) (do_call k)" "keeps (journaled d) (await j)"
  "keeps (journaled d) (emod (\<lambda>c. c\<lparr>ce_serial := f c\<rparr>))" "keeps (journaled d) (emod (\<lambda>c. c\<lparr>ce_pending := g c\<rparr>))"
  by (auto simp: keeps_def host_call_def note_call_def await_def do_call_def emod_def ebind_def eret_def Let_def journaled_def
      split: option.splits)

lemma journaled_upd [journal_intros]:
  assumes "\<And>t. gt_run (f t) = gt_run t" and "\<And>t. gt_terminal (f t) = None \<Longrightarrow> gt_terminal t = None \<and> journal_key (f t) = journal_key t"
  shows "keeps (journaled d) (upd_task f)"
proof (rule keepsI)
  fix c assume c: "journaled d c"
  have "draft_matches e (f (ce_task c)) = draft_matches e (ce_task c)" if "gt_terminal (f (ce_task c)) = None" for e
    using assms(2) [OF that] by (intro journal_key_matches) simp
  with c assms show "post (upd_task f) (\<lambda>_. journaled d) c"
    by (simp add: post_upd_task journaled_def)
qed

lemma journaled_with [journal_intros]: "(\<And>t. keeps (journaled d) (f t)) \<Longrightarrow> keeps (journaled d) (with_task f)"
  by (simp add: with_task_def keeps_ebind keeps_eget)

lemma journal_key_simps [simp]:
  "journal_key (t\<lparr>gt_review := b\<rparr>) = journal_key t" "journal_key (t\<lparr>gt_findings := c\<rparr>) = journal_key t"
  "journal_key (t\<lparr>gt_reserved := e\<rparr>) = journal_key t" "journal_key (upd_review f t) = journal_key t"
  "gt_terminal (upd_review f t) = gt_terminal t" "gt_run (upd_review f t) = gt_run t"
  by (simp_all add: journal_key_def task_id_def upd_review_def)

lemma post_append:
  assumes "journaled d c" and "entry_run j = gt_run (ce_task c)"
    and "\<And>r e. list_all (\<lambda>j. entry_run j = gt_run (ce_task e)) (entries (ce_log e)) \<Longrightarrow> \<not> journal_ok e \<Longrightarrow> Q (Inl r) e"
    and "Q (Inr ()) (c\<lparr>ce_log := ce_log c @ [Append j]\<rparr>)"
  shows "post (do_call (Append j)) Q c"
  using assms by (auto simp: do_call_def post_simps Let_def journaled_def split: option.split)

lemma terminate_journaled [journal_intros]:
  "keeps (journaled d) (terminate a b)" "keeps (journaled d) (terminate_quietly a b)" "keeps (journaled d) (cancel_task a)"
  unfolding terminate_def terminate_quietly_def cancel_task_def by (intro journal_intros; simp)+

text \<open>A change of the task and the entry that records it, in either order.\<close>

definition recorded :: "(gate_task \<Rightarrow> gate_task) \<Rightarrow> journal_entry \<Rightarrow> gate_task \<Rightarrow> bool" where
  "recorded f j t \<longleftrightarrow> gt_run (f t) = gt_run t \<and> entry_run j = gt_run t \<and> gt_terminal (f t) = gt_terminal t \<and>
     (\<forall>d. draft_matches d t \<longrightarrow> draft_matches (draft_update j d) (f t))"

lemma post_update_append:
  assumes "journaled d c" and "recorded f j (ce_task c)"
    and "\<And>e. journaled d e \<Longrightarrow> ce_task e = f (ce_task c) \<Longrightarrow> post m (\<lambda>_. journaled d) e"
  shows "post (ethen (upd_task f) (ethen (do_call (Append j)) m)) (\<lambda>_. journaled d) c"
    "post (ethen (do_call (Append j)) (ethen (upd_task f) m)) (\<lambda>_. journaled d) c"
    "post (ethen (upd_task f) (do_call (Append j))) (\<lambda>_. journaled d) c"
proof -
  define t where "t = ce_task c"
  have r: "gt_run (f t) = gt_run t" "entry_run j = gt_run t" "gt_terminal (f t) = gt_terminal t"
    "\<And>d. draft_matches d t \<Longrightarrow> draft_matches (draft_update j d) (f t)"
    using assms(2) by (auto simp: recorded_def t_def)
  have after: "journaled d (c\<lparr>ce_task := f t, ce_log := ce_log c @ [Append j]\<rparr>)"
    using assms(1) r by (auto simp: journaled_def t_def journal_ok_def enumerate_append_eq)
  then have after': "journaled d (c\<lparr>ce_log := ce_log c @ [Append j], ce_task := f t\<rparr>)"
    by (simp add: journaled_def journal_ok_def)
  have bad: "journaled d (c\<lparr>ce_log := ce_log c @ [Append j]\<rparr>)"
    "journaled d (c\<lparr>ce_task := f t, ce_log := ce_log c @ [Append j]\<rparr>)"
    if "an_error (ce_host c (length (ce_log c))) = Some x" for x
    using assms(1) r that by (simp_all add: journaled_def t_def journal_ok_def enumerate_append_eq)
  show "post (ethen (upd_task f) (ethen (do_call (Append j)) m)) (\<lambda>_. journaled d) c"
    using after bad assms(3) by (auto simp: do_call_def post_simps Let_def t_def split: option.split)
  show "post (ethen (do_call (Append j)) (ethen (upd_task f) m)) (\<lambda>_. journaled d) c"
    using after' bad assms(3) by (auto simp: do_call_def post_simps Let_def t_def split: option.split)
  show "post (ethen (upd_task f) (do_call (Append j))) (\<lambda>_. journaled d) c"
    using after bad by (auto simp: do_call_def post_simps Let_def t_def split: option.split)
qed

lemma keeps_recorded:
  assumes "\<And>t. recorded (f t) (j t) t" and "\<And>t. keeps (journaled d) (m t)"
  shows "keeps (journaled d) (with_task (\<lambda>t. ethen (upd_task (f t)) (ethen (do_call (Append (j t))) (m t))))"
    "keeps (journaled d) (with_task (\<lambda>t. ethen (do_call (Append (j t))) (ethen (upd_task (f t)) (m t))))"
    "keeps (journaled d) (with_task (\<lambda>t. ethen (upd_task (f t)) (do_call (Append (j t)))))"
proof -
  have m: "post (m t) (\<lambda>_. journaled d) e" if "journaled d e" for t e using keeps_post [OF assms(2) that] .
  show "keeps (journaled d) (with_task (\<lambda>t. ethen (upd_task (f t)) (ethen (do_call (Append (j t))) (m t))))"
    by (rule keepsI, unfold post_with_task, rule post_update_append(1) [OF _ assms(1) m])
  show "keeps (journaled d) (with_task (\<lambda>t. ethen (do_call (Append (j t))) (ethen (upd_task (f t)) (m t))))"
    by (rule keepsI, unfold post_with_task, rule post_update_append(2) [OF _ assms(1) m])
  show "keeps (journaled d) (with_task (\<lambda>t. ethen (upd_task (f t)) (do_call (Append (j t)))))"
    by (rule keepsI, unfold post_with_task, rule post_update_append(3) [OF _ assms(1)], assumption, erule m)
qed

lemma apply_revise_journaled [journal_intros]: "keeps (journaled d) (apply_revise bs as cand p)"
proof -
  have order: "post (ethen (upd_task (\<lambda>t. t\<lparr>gt_repair := Some command, gt_reserved := True\<rparr>))
      (ethen (do_call (Append (J_repair a r (pn_review p) command n x))) (do_call (Start_repair a r y))))
      (\<lambda>_. journaled d) c" if "journaled d c" "r = gt_run (ce_task c)" for c command n x a r y
    by (rule post_update_append [OF that(1)])
      (use that(2) in \<open>auto simp: recorded_def draft_matches_def intro: keeps_post [OF journaled_calls(3)]\<close>)
  have limit: "post (terminate Out_limit x) (\<lambda>_. journaled d) c" if "journaled d c" for c x
    using that by (rule keeps_post [OF terminate_journaled(1)])
  have found: "journaled d (c\<lparr>ce_task := (ce_task c)\<lparr>gt_findings := x\<rparr>\<rparr>)" if "journaled d c" for c x
  proof -
    have "keeps (journaled d) (upd_task (\<lambda>t. t\<lparr>gt_findings := x\<rparr>))" by (rule journaled_upd) simp_all
    from keeps_post [OF this that] show ?thesis by (simp add: post_upd_task)
  qed
  show ?thesis
    by (intro keepsI) (auto simp: apply_revise_def post_ethen [of "upd_task g" "with_task h" for g h] post_upd_task post_with_task Let_def
        post_eret intro!: order limit found)
qed

lemma apply_journaled [journal_intros]:
  "keeps (journaled d) (recheck_next serial app todo)" "keeps (journaled d) (verified serial app problem)"
  "keeps (journaled d) (application_failed serial app m)"
  unfolding recheck_next_def verified_def application_failed_def
  by (auto intro!: journal_intros split: list.split option.split)

lemma decision_journaled [journal_intros]: "keeps (journaled d) (apply_decision serial app v)"
  unfolding apply_decision_def
  by (auto intro!: journal_intros split: option.split gate_decision.split)

lemma panel_journaled [journal_intros]:
  "keeps (journaled d) (conclude_panel t p)" "keeps (journaled d) (finish_panel serial)"
  unfolding conclude_panel_def finish_panel_def
  by (auto intro!: journal_intros simp: Let_def conclude_panel_def split: option.split)

lemma record_feedback_journaled [journal_intros]: "keeps (journaled d) (record_feedback i verdict error)"
proof -
  have rest: "keeps (journaled d) (ethen (do_call Feedback_recorded) (ethen (note_call (Cancel_reviewer r)) (await k)))" for r k
    by (intro journal_intros) simp_all
  have "post (ethen (do_call (Append (J_feedback a r fb))) (ethen (upd_task (\<lambda>t. upd_review g (t\<lparr>gt_feedback := gt_feedback t @ [fb]\<rparr>)))
      (ethen (do_call Feedback_recorded) (ethen (note_call (Cancel_reviewer x)) (await k))))) (\<lambda>_. journaled d) c"
    if "journaled d c" "r = gt_run (ce_task c)" for c a r fb g x k
    by (rule post_update_append [OF that(1)])
      (use that(2) in \<open>auto simp: recorded_def draft_matches_def upd_review_def intro: keeps_post [OF rest]\<close>)
  then show ?thesis
    unfolding record_feedback_def by (intro keepsI) (auto simp: post_with_task post_eret Let_def split: option.split)
qed

lemma reports_journaled [journal_intros]:
  "keeps (journaled d) (member_released serial i)" "keeps (journaled d) (cleanup_failed m)"
  "keeps (journaled d) (execution_failed r diagnostics)" "keeps (journaled d) (submit_decision r raw)"
  unfolding member_released_def cleanup_failed_def execution_failed_def submit_decision_def
  by (auto intro!: journal_intros split: option.split sum.split)

lemma start_loop_journaled: "keeps (journaled d) (start_loop serial rs evidence is)"
  by (induction "is") (auto intro!: journal_intros simp: Let_def split: option.split)

lemma review_journaled [journal_intros]:
  "keeps (journaled d) (start_members rs evidence)" "keeps (journaled d) new_review"
  unfolding start_members_def new_review_def
  by (auto intro!: journal_intros start_loop_journaled simp: Let_def split: option.split)

lemma suffix_last_n: "suffix xs ys \<Longrightarrow> suffix (last_n n (xs @ zs)) (ys @ zs)"
proof -
  assume "suffix xs ys"
  then have "suffix (xs @ zs) (ys @ zs)" by (auto simp: suffix_def)
  then show ?thesis unfolding last_n_def by (rule suffix_order.trans [OF suffix_drop])
qed

lemma checks_journaled [journal_intros]:
  "keeps (journaled d) (finish_checks evidence)" "keeps (journaled d) (admission_failed e)"
proof -
  show "keeps (journaled d) (finish_checks evidence)"
    unfolding finish_checks_def
    by (rule keeps_recorded(2))
      (auto simp: recorded_def draft_matches_def retain_evidence_def comp_def intro!: suffix_last_n journal_intros)
  show "keeps (journaled d) (admission_failed e)"
    unfolding admission_failed_def by (intro journal_intros)
qed

lemma check_next_journaled [journal_intros]:
  "keeps (journaled d) (check_next todo evidence)" "keeps (journaled d) run_checks_and_review"
  unfolding run_checks_and_review_def check_next_def
  by (auto intro!: journal_intros split: list.split)

lemma continuation_journaled [journal_intros]: "keeps (journaled d) (run_continuation k reply)"
  unfolding run_continuation_def check_done_def recheck_done_def
  by (auto intro!: journal_intros split: continuation.split list.split sum.split)

lemma record_candidate_journaled [journal_intros]: "keeps (journaled d) (record_candidate cand summary answer)"
proof -
  have admit: "keeps (journaled d) (with_task admit_round)"
    unfolding admit_round_def by (auto intro!: journal_intros split: option.split)
  have inner: "post (ethen (upd_task (set_round summary)) (ethen (do_call (Append (J_round_admitted a r n x y z))) (with_task admit_round)))
      (\<lambda>_. journaled d) c"
    if "journaled d c" "r = gt_run (ce_task c)" "n = gt_rounds (ce_task c) + 1" for c a r n x y z
    by (rule post_update_append [OF that(1)])
      (use that in \<open>auto simp: recorded_def draft_matches_def set_round_def intro: keeps_post [OF admit]\<close>)
  show ?thesis
    unfolding record_candidate_def
  proof (rule keepsI, unfold post_with_task)
    fix c assume c: "journaled d c"
    show "post (ethen (upd_task (set_candidate cand answer))
      (ethen (do_call (Append (J_candidate (gt_agent (ce_task c)) (gt_run (ce_task c)) cand (take 8000 answer))))
      (ethen (upd_task (set_round summary))
      (ethen (do_call (Append (J_round_admitted (gt_agent (ce_task c)) (gt_run (ce_task c)) (gt_rounds (ce_task c) + 1) (cd_id cand) (Some summary) None)))
        (with_task admit_round))))) (\<lambda>_. journaled d) c"
      by (rule post_update_append [OF c])
        (auto simp: recorded_def draft_matches_def set_candidate_def last_opt_def intro!: inner)
  qed
qed

lemma candidate_journaled [journal_intros]: "keeps (journaled d) (candidate_settled agent generation answer)"
  unfolding candidate_settled_def freeze_candidate_def
  by (auto intro!: journal_intros split: option.split)

lemma limits_journaled [journal_intros]: "keeps (journaled d) (set_gate_limits ceil limit command)"
proof -
  have "post (ethen (upd_task (\<lambda>t. t\<lparr>gt_spec := (gt_spec t)\<lparr>gs_max_rounds := m\<rparr>\<rparr>)) (do_call (Append (J_limits a r m x)))) (\<lambda>_. journaled d) c"
    if "journaled d c" "r = gt_run (ce_task c)" for c a r m x
    by (rule post_update_append(3) [OF that(1) _ keeps_post [OF keeps_eret]])
      (use that in \<open>auto simp: recorded_def draft_matches_def\<close>)
  then show ?thesis
    unfolding set_gate_limits_def by (intro keepsI) (simp add: post_with_task post_ethrow split: option.split)
qed

lemma control_journaled [journal_intros]:
  "keeps (journaled d) (interrupt_for_agent agent active)" "keeps (journaled d) mark_interrupted_for_recovery"
  "keeps (journaled d) (resume_review review)" "keeps (journaled d) restore_review" "keeps (journaled d) (continue_with n reply)"
  unfolding interrupt_for_agent_def mark_interrupted_for_recovery_def resume_review_def restore_review_def continue_with_def
  by (auto intro!: journal_intros split: option.split)

lemma gate_exec_journaled: "keeps (journaled d) (gate_exec e)"
  unfolding gate_exec_def by (auto intro!: journal_intros split: gate_event.split)

definition retry_draft :: "gate_task \<Rightarrow> gate_spec \<Rightarrow> agent_id list \<Rightarrow> gate_draft" where
  "retry_draft prior spec rs = new_draft (gt_agent prior) spec (take 65536 (gt_text prior)) (Some (gt_run prior)) rs"

lemma start_retry_journaled:
  assumes "length (gt_response prior) \<le> 4000"
  shows "journaled (retry_draft prior spec rs) (snd (start_retry prior cand (new_cell (retry_task run spec rs prior) h sha)))"
proof -
  let ?d = "retry_draft prior spec rs"
  have rest: "post (ethen (do_call (Set_phase a r ph)) run_checks_and_review) (\<lambda>_. journaled ?d) c" if "journaled ?d c" for a r ph c
  proof -
    have "keeps (journaled ?d) (ethen (do_call (Set_phase a r ph)) run_checks_and_review)" by (intro journal_intros) simp
    from this that show ?thesis by (rule keeps_post)
  qed
  define t where "t = (retry_task run spec rs prior)\<lparr>gt_candidate := Some (cand\<lparr>cd_run := run\<rparr>), gt_findings := gt_findings prior, gt_rounds := 1\<rparr>"
  define c where "c = new_cell t h sha"
  define j1 where "j1 = J_round_admitted (gt_agent prior) run 1 (cd_id cand) None (Some (gt_run prior))"
  define j2 where "j2 = J_candidate (gt_agent prior) run (cand\<lparr>cd_run := run\<rparr>) (take 8000 (gt_response prior))"
  have t: "gt_run t = run" "gt_agent t = gt_agent prior" by (simp_all add: t_def retry_task_def new_task_def)
  have c: "ce_log c = []" "ce_task c = t" "ce_host c = h" by (simp_all add: c_def new_cell_def)
  have ok: "journaled ?d (c\<lparr>ce_log := [Append j1, Append j2]\<rparr>)"
    using assms
    by (simp add: journaled_def draft_after_def c j1_def j2_def t draft_matches_def)
      (simp add: t_def retry_task_def new_task_def retry_draft_def new_draft_def last_opt_def)
  have bad: "journaled ?d (c\<lparr>ce_log := [Append j1]\<rparr>)" if "an_error (h 0) = Some m" for m
    using that by (simp add: journaled_def journal_ok_def c j1_def t)
  have bad2: "journaled ?d (c\<lparr>ce_log := [Append j1, Append j2]\<rparr>)" if "an_error (h 1) = Some m" for m
    using that by (simp add: journaled_def journal_ok_def c j1_def j2_def t)
  have "post (ethen (do_call (Append j1)) (ethen (do_call (Append j2)) (ethen (do_call (Set_phase (gt_agent prior) run Phase_review_queued)) run_checks_and_review)))
      (\<lambda>_. journaled ?d) c"
    using bad bad2 rest [OF ok, of "gt_agent prior" run Phase_review_queued]
    by (auto simp: post_ethen [of "do_call (Append j)" for j] do_call_def [of "Append j" for j] post_simps Let_def c split: option.split)
  moreover have "ce_task (new_cell (retry_task run spec rs prior) h sha) = retry_task run spec rs prior"
    "new_cell (retry_task run spec rs prior) h sha\<lparr>ce_task := t\<rparr> = c" by (simp_all add: new_cell_def c_def)
  ultimately have "post (start_retry prior cand) (\<lambda>_. journaled ?d) (new_cell (retry_task run spec rs prior) h sha)"
    by (simp add: start_retry_def post_ethen [of "upd_task f" for f] post_upd_task post_with_task j1_def j2_def c t)
      (simp add: t_def retry_task_def new_task_def)
  then show ?thesis by (simp add: post_result)
qed

section \<open>Properties\<close>

text \<open>
  The same course of a task: everything that decides what happens next, and the parts of its
  texts and evidence that are journaled. (Findings, the history of fingerprints and the stagnation
  warning are rebuilt from other entries and may differ.)
\<close>

definition same_course :: "gate_task \<Rightarrow> gate_task \<Rightarrow> bool" where
  "same_course t u \<longleftrightarrow> gt_agent t = gt_agent u \<and> gt_run t = gt_run u \<and> gt_spec t = gt_spec u \<and> gt_rounds t = gt_rounds u \<and>
     gt_candidate t = gt_candidate u \<and> gt_feedback t = gt_feedback u \<and> gt_repair t = gt_repair u \<and> gt_linked t = gt_linked u \<and>
     gt_reviewer t = gt_reviewer u \<and> gt_reviewers t = gt_reviewers u \<and> gt_terminal t = gt_terminal u \<and>
     gt_text t = take 65536 (gt_text u) \<and> take 4000 (gt_response t) = gt_response u \<and> suffix (gt_evidence u) (gt_evidence t)"

lemma journaled_run: "journaled d c \<Longrightarrow> journaled d (gate_run es c)"
  by (induction es c rule: gate_run.induct) (auto intro: keepsD [OF gate_exec_journaled])

lemma run_run: "gt_run (ce_task (gate_run es c)) = gt_run (ce_task c)"
proof -
  have "task_id (ce_task (gate_run es c)) = task_id (ce_task c)"
  proof (induction es c rule: gate_run.induct)
    case (2 e es c)
    have "ident (task_id (ce_task c)) (snd (gate_exec e c))" by (rule keepsD [OF gate_exec_ident]) (simp add: ident_def)
    with 2 show ?case by (simp add: ident_def)
  qed simp
  then show ?thesis by (simp add: task_id_def)
qed

lemma journaled_new: "journaled (new_draft agent spec (take 65536 x) None rs) (new_cell (new_task agent run spec x rs) h sha)"
  by (simp add: journaled_def draft_after_def new_cell_def new_task_def new_draft_def draft_matches_def last_opt_def)

lemma restored_course:
  assumes "draft_matches d t" and "gt_terminal t = None"
  shows "same_course (restored_task sha (gt_run t) d None) t"
  using assms by (simp add: draft_matches_def same_course_def restored_task_def)

text \<open>
  C22. Recovery restores the gate: whatever happened to a registered task that is not settled, if
  the journal never failed, replaying the journal, in which the task's entries may be interleaved
  with any others, gives a task with the same specification, rounds, candidate, reports, ordered
  repair and panel, so nothing that was charged or decided is forgotten or repeated.
\<close>

theorem journal_restores_task:
  assumes "run \<noteq> []" and "c = gate_run es (new_cell (new_task agent run spec x rs) h sha)" and "journal_ok c"
    and "gt_terminal (ce_task c) = None"
    and "filter (\<lambda>j. entry_run j = run) all = J_registered agent run spec (take 65536 x) None rs # entries (ce_log c)"
  shows "case map_of (replay_gates all) run of None \<Rightarrow> False | Some d \<Rightarrow> same_course (restored_task sha run d None) (ce_task c)"
proof -
  let ?d = "new_draft agent spec (take 65536 x) None rs"
  have j: "journaled ?d c" unfolding assms(2) by (intro journaled_run journaled_new)
  have run: "gt_run (ce_task c) = run" unfolding assms(2) by (simp add: run_run new_cell_def new_task_def)
  have "map_of (replay_gates all) run = Some (draft_after ?d (ce_log c))"
    unfolding replay_gates_def draft_after_def using assms(1,5) by (intro replay_unregistered) simp_all
  moreover have "draft_matches (draft_after ?d (ce_log c)) (ce_task c)"
    using j assms(3,4) by (simp add: journaled_def)
  ultimately show ?thesis using restored_course [OF _ assms(4)] run by simp
qed

definition sample_run_cell :: cell where
  "sample_run_cell = gate_run [Ev_candidate [109] 1 [111], Ev_limits None (Some 5) [120]] sample_cell"

lemma sample_run_cell_facts: "gt_terminal (ce_task sample_run_cell) = None" "gt_rounds (ce_task sample_run_cell) = 1" "journal_ok sample_run_cell"
  by (simp_all add: sample_run_cell_def effect_defs gate_defs sample_defs set_gate_limits_def build_review_prompt_def journal_ok_def Let_def
      numeral_2_eq_2)

theorem journal_restores_task_witness:
  "case map_of (replay_gates (J_registered [109] [116] sample_gate_spec [119] None [[1]] # entries (ce_log sample_run_cell))) [116] of
     None \<Rightarrow> False | Some d \<Rightarrow> dr_rounds d = 1 \<and> gs_max_rounds (dr_spec d) = gs_max_rounds (gt_spec (ce_task sample_run_cell))"
proof -
  have "journaled (new_draft [109] sample_gate_spec (take 65536 [119]) None [[1]]) sample_run_cell"
    unfolding sample_run_cell_def sample_cell_def by (intro journaled_run journaled_new)
  moreover have "gt_run (ce_task sample_run_cell) = [116]"
    unfolding sample_run_cell_def sample_cell_def run_run by (simp add: new_cell_def new_task_def)
  ultimately have "list_all (\<lambda>j. entry_run j = [116]) (entries (ce_log sample_run_cell))" by (simp add: journaled_def)
  then have "filter (\<lambda>j. entry_run j = [116]) (entries (ce_log sample_run_cell)) = entries (ce_log sample_run_cell)"
    by (simp add: list_all_iff)
  then show ?thesis
    using journal_restores_task [of "[116]" sample_run_cell "[Ev_candidate [109] 1 [111], Ev_limits None (Some 5) [120]]" "[109]"
        sample_gate_spec "[119]" "[[1]]" willing "\<lambda>s. s"
        "J_registered [109] [116] sample_gate_spec [119] None [[1]] # entries (ce_log sample_run_cell)"] sample_run_cell_facts
    by (auto simp: sample_run_cell_def [unfolded sample_cell_def] same_course_def restored_task_def split: option.splits)
qed

text \<open>
  What recovery loses: a bypass journals neither the candidate nor the rounds it copies from the
  prior run, so the restored task has none, whatever the live one has.
\<close>

lemma bypass_not_restored:
  assumes "run \<noteq> []"
  shows "map_option (\<lambda>d. let t = restored_task sha run d (Some Out_bypassed) in (gt_rounds t, gt_candidate t))
       (map_of (replay_gates [J_registered (gt_agent prior) run (gt_spec prior) (take 65536 (gt_text prior)) (Some prior_run) []]) run)
     = Some (0, None)"
    and "gt_rounds (bypassed_task run prior_run prior) = gt_rounds prior"
    and "gt_candidate (bypassed_task run prior_run prior) = gt_candidate prior"
  using assms by (simp_all add: replay_gates_def replay_entry_def restored_task_def new_draft_def last_opt_def bypassed_task_def)

end
