(* ===== verification/RunFrame.thy ===== *)
theory RunFrame
  imports Json
begin

text \<open>
  The journal frames of \<open>ponygirls-subagents/src/store.ts\<close>: \<open>frame\<close> and \<open>parseFrame\<close>, at the
  level of the bytes on disk. \<open>sha\<close> is the hexadecimal SHA-256 digest of \<open>node:crypto\<close> and \<open>nt\<close>
  is \<open>Number.prototype.toString\<close>; \<open>hex_digest\<close> is what the code relies on of the former.
\<close>

section \<open>Records and frames\<close>

record journal_record =
  j_seq :: int
  j_kind :: jstring
  j_at :: js_value
  j_body :: js_value

definition record_json :: "journal_record \<Rightarrow> js_value" where
  "record_json r =
     JObj [(js ''seq'', JNum (Fin (of_int (j_seq r)))), (js ''kind'', JStr (j_kind r)),
           (js ''at'', j_at r), (js ''body'', j_body r)]"

definition checksum :: "(nat list \<Rightarrow> jstring) \<Rightarrow> nat list \<Rightarrow> jstring" where
  "checksum sha bs = take 16 (sha bs)"

definition frame_head :: "(nat list \<Rightarrow> jstring) \<Rightarrow> jstring \<Rightarrow> jstring" where
  "frame_head sha json =
     (let body = utf8_encode json in digits_of (length body) @ [32] @ checksum sha body @ [32])"

definition frame_line :: "(nat list \<Rightarrow> jstring) \<Rightarrow> (js_num \<Rightarrow> jstring) \<Rightarrow> journal_record \<Rightarrow> jstring" where
  "frame_line sha nt r = (let json = json_text nt (record_json r) in frame_head sha json @ json)"

definition frame :: "(nat list \<Rightarrow> jstring) \<Rightarrow> (js_num \<Rightarrow> jstring) \<Rightarrow> journal_record \<Rightarrow> nat list" where
  "frame sha nt r = utf8_encode (frame_line sha nt r @ [10])"

section \<open>Reading a frame\<close>

datatype frame_result = Frame_record journal_record | Frame_torn | Frame_corrupt jstring

definition max_frame :: nat where
  "max_frame = 64 * 1024 * 1024"

text \<open>\<open>JSON.parse\<close> and the test of the record's shape; a property of \<open>null\<close> throws.\<close>

definition read_record :: "js_value \<Rightarrow> frame_result" where
  "read_record v =
     (if v = JNull then Frame_corrupt (js ''unparseable record'')
      else case (field v (js ''seq''), field v (js ''kind'')) of
        (JNum (Fin q), JStr k) \<Rightarrow>
          if is_int_rat q
          then Frame_record \<lparr>j_seq = \<lfloor>q\<rfloor>, j_kind = k, j_at = field v (js ''at''), j_body = field v (js ''body'')\<rparr>
          else Frame_corrupt (js ''bad record shape'')
      | _ \<Rightarrow> Frame_corrupt (js ''bad record shape''))"

definition parse_frame :: "(nat list \<Rightarrow> jstring) \<Rightarrow> jstring \<Rightarrow> frame_result" where
  "parse_frame sha line =
     (let a = takeWhile (\<lambda>c. c \<noteq> 32) line; r = dropWhile (\<lambda>c. c \<noteq> 32) line;
          sum = takeWhile (\<lambda>c. c \<noteq> 32) (tl r); r2 = dropWhile (\<lambda>c. c \<noteq> 32) (tl r); json = tl r2
      in if r = [] \<or> r2 = [] then Frame_torn
         else case number_of_text a of
           Fin len \<Rightarrow>
             if \<not> is_int_rat len \<or> len < 0 \<or> len > of_nat max_frame then Frame_torn
             else if of_nat (utf8_length json) \<noteq> len then Frame_torn
             else if checksum sha (utf8_encode json) \<noteq> sum then Frame_corrupt (js ''checksum mismatch'')
             else (case json_parse json of
                 None \<Rightarrow> Frame_corrupt (js ''unparseable record'')
               | Some v \<Rightarrow> read_record v)
         | _ \<Rightarrow> Frame_torn)"

text \<open>The lines of the committed journal, read in order: \<open>None\<close> at the first that is not a record.\<close>

definition journal_lines :: "jstring \<Rightarrow> jstring list" where
  "journal_lines s = (if s = [] then [] else split_on 10 (butlast s))"

section \<open>Facts\<close>

definition hex_digest :: "(nat list \<Rightarrow> jstring) \<Rightarrow> bool" where
  "hex_digest sha \<longleftrightarrow>
     (\<forall>bs. length (sha bs) = 64 \<and> list_all (\<lambda>c. is_digit c \<or> 97 \<le> c \<and> c \<le> 102) (sha bs))"

text \<open>The text of an integer, as an instance of \<open>nt\<close> for examples.\<close>

definition int_number :: "js_num \<Rightarrow> jstring" where
  "int_number x = (case x of Fin q \<Rightarrow> int_text \<lfloor>q\<rfloor> | _ \<Rightarrow> js ''null'')"

text \<open>A record the supervisor can append, and what it is when it is read back.\<close>

definition record_writable :: "(js_num \<Rightarrow> jstring) \<Rightarrow> journal_record \<Rightarrow> bool" where
  "record_writable nt r \<longleftrightarrow>
     (\<exists>s. j_at r = JStr s) \<and> (\<exists>kvs. j_body r = JObj kvs) \<and> json_writable nt (record_json r)"

definition norm_record :: "journal_record \<Rightarrow> journal_record" where
  "norm_record r = r\<lparr>j_body := json_norm (j_body r)\<rparr>"

definition frame_fits :: "(js_num \<Rightarrow> jstring) \<Rightarrow> journal_record \<Rightarrow> bool" where
  "frame_fits nt r \<longleftrightarrow> utf8_length (json_text nt (record_json r)) \<le> max_frame"

lemma norm_record_simps [simp]:
  "j_seq (norm_record r) = j_seq r" "j_kind (norm_record r) = j_kind r" "norm_record (norm_record r) = norm_record r"
  by (simp_all add: norm_record_def)

lemma json_norm_record:
  "record_writable nt r \<Longrightarrow> json_norm (record_json r) = record_json (norm_record r)"
  by (auto simp: record_writable_def record_json_def norm_record_def)

lemma record_text_norm: "record_writable nt r \<Longrightarrow> json_text nt (record_json (norm_record r)) = json_text nt (record_json r)"
  by (metis json_norm_record json_text_norm)

lemma read_record_json:
  "record_writable nt r \<Longrightarrow> read_record (json_norm (record_json r)) = Frame_record (norm_record r)"
  by (auto simp: read_record_def record_json_def record_writable_def norm_record_def js_def)

lemma checksum_clean:
  assumes "hex_digest sha"
  shows "clean (checksum sha bs)" and "32 \<notin> set (checksum sha bs)"
proof -
  have "\<forall>c\<in>set (sha bs). is_digit c \<or> 97 \<le> c \<and> c \<le> 102" using assms by (auto simp: hex_digest_def list_all_iff)
  then have c: "\<forall>c\<in>set (checksum sha bs). is_digit c \<or> 97 \<le> c \<and> c \<le> 102"
    unfolding checksum_def by (meson in_set_takeD)
  then show "clean (checksum sha bs)" by (intro clean_ascii) (auto simp: list_all_iff is_digit_def)
  show "32 \<notin> set (checksum sha bs)" using c by (auto simp: is_digit_def)
qed

lemma digits_clean: "clean (digits_of n)" "32 \<notin> set (digits_of n)"
proof -
  have d: "\<forall>c\<in>set (digits_of n). 48 \<le> c \<and> c \<le> 57"
    using digits_of_digits [of n] by (auto simp: list_all_iff is_digit_def)
  then show "clean (digits_of n)" by (intro clean_ascii) (fastforce simp: list_all_iff)
  show "32 \<notin> set (digits_of n)" using d by auto
qed

lemma frame_head_clean: "hex_digest sha \<Longrightarrow> clean (frame_head sha json)"
proof -
  have "clean [32]" by (intro clean_ascii) simp
  then show "hex_digest sha \<Longrightarrow> ?thesis"
    by (simp only: frame_head_def Let_def) (intro clean_append digits_clean checksum_clean)
qed

lemma frame_line_clean:
  assumes "hex_digest sha" and "record_writable nt r"
  shows "clean (frame_line sha nt r)"
  using assms unfolding frame_line_def Let_def record_writable_def
  by (intro clean_append frame_head_clean json_text_ok) simp_all

lemma frame_line_norm: "record_writable nt r \<Longrightarrow> frame_line sha nt (norm_record r) = frame_line sha nt r"
  by (simp add: frame_line_def record_text_norm)

lemma parse_frame_head:
  assumes "hex_digest sha" and "utf8_length json < 2 ^ 53"
  shows "parse_frame sha (frame_head sha json @ json) =
    (if max_frame < utf8_length json then Frame_torn
     else case json_parse json of None \<Rightarrow> Frame_corrupt (js ''unparseable record'') | Some v \<Rightarrow> read_record v)"
proof -
  let ?d = "digits_of (utf8_length json)" and ?c = "checksum sha (utf8_encode json)"
  have split: "takeWhile (\<lambda>c. c \<noteq> 32) (w @ 32 # t) = w" "dropWhile (\<lambda>c. c \<noteq> 32) (w @ 32 # t) = 32 # t"
    if "32 \<notin> set w" for w t :: jstring
    using that by (induction w) auto
  have "is_int_rat (of_nat n)" for n using is_int_rat_of_int [of "int n"] by simp
  moreover have "number_of_text ?d = Fin (of_nat (utf8_length json))" using assms(2) by (rule number_of_digits)
  ultimately show ?thesis
    by (simp add: parse_frame_def frame_head_def Let_def length_utf8_encode
        split [OF digits_clean(2)] split [OF checksum_clean(2) [OF assms(1)]])
qed

theorem parse_frame_line:
  assumes "hex_digest sha" and "record_writable nt r" and "frame_fits nt r"
  shows "parse_frame sha (frame_line sha nt r) = Frame_record (norm_record r)"
proof -
  have "utf8_length (json_text nt (record_json r)) \<le> max_frame" using assms(3) by (simp add: frame_fits_def)
  moreover from this have "utf8_length (json_text nt (record_json r)) < 2 ^ 53" by (simp add: max_frame_def)
  moreover have "json_parse (json_text nt (record_json r)) = Some (json_norm (record_json r))"
    using assms(2) by (intro json_parse_text) (simp add: record_writable_def)
  ultimately show ?thesis
    using read_record_json [OF assms(2)] by (simp add: frame_line_def Let_def parse_frame_head [OF assms(1)])
qed

text \<open>A frame of more than 64 MiB is written and committed as any other and never read back.\<close>

theorem parse_oversized_frame:
  assumes "hex_digest sha" and "max_frame < utf8_length (json_text nt (record_json r))"
    and "utf8_length (json_text nt (record_json r)) < 2 ^ 53"
  shows "parse_frame sha (frame_line sha nt r) = Frame_torn"
  using assms by (simp add: frame_line_def Let_def parse_frame_head)

section \<open>The journal's bytes\<close>

lemma utf8_encode_append: "well_paired a \<Longrightarrow> utf8_encode (a @ b) = utf8_encode a @ utf8_encode b"
proof (induction a rule: well_paired.induct)
  case (2 c)
  then show ?case by (cases b) auto
qed auto

definition journal_text :: "(nat list \<Rightarrow> jstring) \<Rightarrow> (js_num \<Rightarrow> jstring) \<Rightarrow> journal_record list \<Rightarrow> jstring" where
  "journal_text sha nt rs = concat (map (\<lambda>r. frame_line sha nt r @ [10]) rs)"

definition journal_bytes :: "(nat list \<Rightarrow> jstring) \<Rightarrow> (js_num \<Rightarrow> jstring) \<Rightarrow> journal_record list \<Rightarrow> nat list" where
  "journal_bytes sha nt rs = concat (map (frame sha nt) rs)"

lemma journal_bytes_simps [simp]:
  "journal_bytes sha nt [] = []"
  "journal_bytes sha nt (rs @ rs') = journal_bytes sha nt rs @ journal_bytes sha nt rs'"
  "journal_bytes sha nt [r] = frame sha nt r"
  by (simp_all add: journal_bytes_def)

abbreviation writables :: "(js_num \<Rightarrow> jstring) \<Rightarrow> journal_record list \<Rightarrow> bool" where
  "writables nt rs \<equiv> list_all (record_writable nt) rs"

definition all_writable :: "(js_num \<Rightarrow> jstring) \<Rightarrow> journal_record list \<Rightarrow> bool" where
  "all_writable nt rs \<longleftrightarrow> list_all (\<lambda>r. record_writable nt r \<and> frame_fits nt r) rs"

lemma all_writable_simps [simp]:
  "all_writable nt []" "all_writable nt (r # rs) \<longleftrightarrow> record_writable nt r \<and> frame_fits nt r \<and> all_writable nt rs"
  "all_writable nt (rs @ rs') \<longleftrightarrow> all_writable nt rs \<and> all_writable nt rs'"
  by (auto simp: all_writable_def)

lemma all_writable_writables: "all_writable nt rs \<Longrightarrow> writables nt rs"
  by (auto simp: all_writable_def list_all_iff)

lemma journal_text_bytes:
  assumes "hex_digest sha" and "writables nt rs"
  shows "well_paired (journal_text sha nt rs) \<and> utf8_encode (journal_text sha nt rs) = journal_bytes sha nt rs"
  using assms(2)
proof (induction rs)
  case (Cons r rs)
  have "well_paired (frame_line sha nt r)" using frame_line_clean assms(1) Cons.prems by (simp add: clean_def)
  then have w: "well_paired (frame_line sha nt r @ [10])"
    by (intro well_paired_append) (simp_all add: is_high_def is_low_def)
  have t: "journal_text sha nt (r # rs) = (frame_line sha nt r @ [10]) @ journal_text sha nt rs"
    by (simp add: journal_text_def)
  have b: "journal_bytes sha nt (r # rs) = frame sha nt r @ journal_bytes sha nt rs"
    by (simp add: journal_bytes_def)
  show ?case
    using Cons w unfolding t b frame_def by (simp only: utf8_encode_append well_paired_append list.pred_inject)
qed (simp add: journal_text_def)

lemma journal_decode:
  "hex_digest sha \<Longrightarrow> writables nt rs \<Longrightarrow> utf8_decode (journal_bytes sha nt rs) = journal_text sha nt rs"
  using journal_text_bytes utf8_roundtrip by metis

lemma split_on_line: "10 \<notin> set a \<Longrightarrow> split_on 10 (a @ 10 # b) = a # split_on 10 b"
  by (induction a) auto

lemma split_on_single: "10 \<notin> set a \<Longrightarrow> split_on 10 a = [a]"
  by (induction a) auto

lemma journal_lines_text:
  assumes "hex_digest sha" and "writables nt rs"
  shows "journal_lines (journal_text sha nt rs) = map (frame_line sha nt) rs"
  using assms(2)
proof (induction rs)
  case (Cons r rs)
  have "clean (frame_line sha nt r)" using frame_line_clean assms(1) Cons.prems by simp
  then have n: "10 \<notin> set (frame_line sha nt r)" by (auto simp: clean_def list_all_iff)
  have t: "journal_text sha nt (r # rs) = frame_line sha nt r @ 10 # journal_text sha nt rs"
    by (simp add: journal_text_def)
  show ?case
  proof (cases "rs = []")
    case True
    with n show ?thesis by (simp add: journal_lines_def journal_text_def split_on_single butlast_append)
  next
    case False
    then have "journal_text sha nt rs \<noteq> []" by (cases rs) (simp_all add: journal_text_def)
    with Cons n show ?thesis
      by (simp add: journal_lines_def t butlast_append split_on_line)
  qed
qed (simp add: journal_lines_def journal_text_def)

text \<open>
  C29. A journal of any records the supervisor can write, as bytes on disk, reads back frame by frame
  as those records in order; only undefined properties and non-finite numbers of a body are lost.
\<close>

theorem journal_roundtrip:
  assumes "hex_digest sha" and "all_writable nt rs"
  shows "map (parse_frame sha) (journal_lines (utf8_decode (journal_bytes sha nt rs))) = map (\<lambda>r. Frame_record (norm_record r)) rs"
  using assms(2) parse_frame_line [OF assms(1)]
  by (auto simp: journal_decode [OF assms(1) all_writable_writables [OF assms(2)]]
      journal_lines_text [OF assms(1) all_writable_writables [OF assms(2)]] all_writable_def list_all_iff)

lemma journal_roundtrip_witness:
  "\<exists>r. j_kind r = js ''task.queued'' \<and> j_body r = JObj [(js ''id'', JStr (js ''t'')), (js ''model'', JUndef)] \<and>
    map (parse_frame (\<lambda>_. replicate 64 48)) (journal_lines (utf8_decode (journal_bytes (\<lambda>_. replicate 64 48) int_number [r, r])))
      = [Frame_record (norm_record r), Frame_record (norm_record r)]"
proof -
  let ?r = "\<lparr>j_seq = 1, j_kind = js ''task.queued'', j_at = JStr (js ''now''),
    j_body = JObj [(js ''id'', JStr (js ''t'')), (js ''model'', JUndef)]\<rparr>"
  have d: "hex_digest (\<lambda>_. replicate 64 48)" unfolding hex_digest_def list_all_iff by (auto simp: is_digit_def)
  have "number_reads_back int_number (Fin (of_int 1))"
    by (rule number_reads_back_int) (simp_all add: max_safe_def int_number_def)
  then have "record_writable int_number ?r"
    by (simp add: record_writable_def record_json_def units16_def js_def)
  moreover have "frame_fits int_number ?r"
    by (simp add: frame_fits_def record_json_def js_def json_string_def json_char_def is_high_def is_low_def int_number_def
        int_text_def digits_of.simps comma_separated_def max_frame_def)
  ultimately have "all_writable int_number [?r, ?r]" by simp
  from journal_roundtrip [OF d this] show ?thesis by (intro exI [of _ ?r]) simp
qed

end
