(* ===== verification/RunStore.thy ===== *)
theory RunStore
  imports RunFrame Effect
begin

text \<open>
  \<open>FileRunStore\<close> of \<open>ponygirls-subagents/src/store.ts\<close>: the journal with its manifest, the
  checkpoints and the result texts of one root session.

  The files are the record \<open>run_disk\<close>. What the operating system decides is an oracle: the k-th
  step that does I/O meets \<open>rs_io s k\<close>. A write that fails may leave any part of its bytes; a
  rename may take place although the flush of its directory fails (\<open>Replaced_unsynced\<close>), and
  then a loss of power may undo it, so the disk also keeps which bytes of the journal are flushed
  and which older manifests may come back.
\<close>

section \<open>Disk\<close>

datatype io_fault = Io_fault (fault_code: "jstring option") (fault_message: jstring)

text \<open>
  Opening, writing and flushing the journal: \<open>writeSync\<close> throws after \<open>k\<close> bytes have reached the
  file, or returns a count \<open>k\<close> below the length, or writes the whole frame and \<open>fsyncSync\<close> (or the
  close) throws.
\<close>

datatype append_outcome =
  Journal_not_opened io_fault
| Journal_write_failed nat io_fault
| Journal_short nat
| Journal_unsynced io_fault
| Journal_flushed

text \<open>\<open>writeDurably\<close>, and a truncation followed by a flush.\<close>

datatype replace_outcome = Replaced | Not_replaced io_fault | Replaced_unsynced io_fault

record disk_env =
  de_now :: jstring
  de_uuid :: jstring
  de_journal :: append_outcome
  de_replace :: replace_outcome
  de_mkdir :: "io_fault option"
  de_read :: "io_fault option"
  de_list :: "io_fault option"
  de_remove :: "(nat \<times> io_fault) option"

text \<open>A file of a directory of agents: its bytes, and whether its directory entry is flushed.\<close>

type_synonym agent_files = "((jstring \<times> jstring) \<times> (nat list \<times> bool)) list"

record run_disk =
  dk_journal :: "nat list option"
  dk_synced :: nat
  dk_kept :: bool
  dk_manifest :: "nat list option"
  dk_prior :: "nat list option list"
  dk_checkpoints :: agent_files
  dk_results :: agent_files

section \<open>State\<close>

datatype corrupt_reason =
  Journal_without_manifest | Manifest_unreadable | Manifest_mismatch | Boundary_malformed
| Journal_unreadable | Journal_too_short nat nat | Off_boundary | Bad_frame jstring
| Seq_out_of_order int | Record_count nat nat
| Checkpoint_unreadable jstring jstring | Checkpoint_invalid jstring jstring
| Result_unreadable jstring jstring | Result_invalid jstring jstring

datatype run_error =
  Store_failed jstring | Recovery_corrupt corrupt_reason | Raised io_fault | Type_error

record store_failure =
  sf_cause :: "jstring option"
  sf_message :: jstring
  sf_at :: jstring

record run_store =
  rs_root :: jstring
  rs_disk :: run_disk
  rs_seq :: nat
  rs_bytes :: nat
  rs_records :: "journal_record list"
  rs_commands :: "(jstring \<times> journal_record) list"
  rs_failure :: "store_failure option"
  rs_listeners :: "nat list"
  rs_notified :: "nat list"
  rs_closed :: bool
  rs_io :: "nat \<Rightarrow> disk_env"
  rs_tick :: nat

type_synonym 'a run_eff = "(run_store, run_error, 'a) eff"

definition next_env :: "disk_env run_eff" where
  "next_env s = (Inr (rs_io s (rs_tick s)), s\<lparr>rs_tick := Suc (rs_tick s)\<rparr>)"

definition on_disk :: "(run_disk \<Rightarrow> run_disk) \<Rightarrow> unit run_eff" where
  "on_disk f = emod (\<lambda>s. s\<lparr>rs_disk := f (rs_disk s)\<rparr>)"

definition or_raise :: "io_fault option \<Rightarrow> unit run_eff" where
  "or_raise f = (case f of None \<Rightarrow> eret () | Some e \<Rightarrow> ethrow (Raised e))"

section \<open>Journal and manifest\<close>

definition manifest_json :: "jstring \<Rightarrow> nat \<Rightarrow> nat \<Rightarrow> js_value" where
  "manifest_json rid seq bytes =
     JObj [(js ''version'', JNum (Fin 1)), (js ''rootId'', JStr rid),
           (js ''durableSeq'', JNum (Fin (of_nat seq))), (js ''journalBytes'', JNum (Fin (of_nat bytes)))]"

definition manifest_bytes :: "(js_num \<Rightarrow> jstring) \<Rightarrow> jstring \<Rightarrow> nat \<Rightarrow> nat \<Rightarrow> nat list" where
  "manifest_bytes nt rid seq bytes = utf8_encode (json_text nt (manifest_json rid seq bytes))"

text \<open>\<open>writeManifest\<close>: what it throws, and the disk it leaves.\<close>

definition write_manifest :: "replace_outcome \<Rightarrow> nat list \<Rightarrow> run_disk \<Rightarrow> io_fault option \<times> run_disk" where
  "write_manifest o' m d =
     (case o' of
        Replaced \<Rightarrow> (None, d\<lparr>dk_manifest := Some m, dk_prior := []\<rparr>)
      | Not_replaced f \<Rightarrow> (Some f, d)
      | Replaced_unsynced f \<Rightarrow> (Some f, d\<lparr>dk_manifest := Some m, dk_prior := dk_manifest d # dk_prior d\<rparr>))"

definition journal_add :: "nat list \<Rightarrow> run_disk \<Rightarrow> run_disk" where
  "journal_add bs d = d\<lparr>dk_journal := Some ((case dk_journal d of None \<Rightarrow> [] | Some j \<Rightarrow> j) @ bs)\<rparr>"

definition journal_sync :: "run_disk \<Rightarrow> run_disk" where
  "journal_sync d = d\<lparr>dk_synced := (case dk_journal d of None \<Rightarrow> 0 | Some j \<Rightarrow> length j)\<rparr>"

definition short_write :: "nat \<Rightarrow> nat \<Rightarrow> io_fault" where
  "short_write k n = Io_fault None
     (js ''short journal write ('' @ digits_of k @ js ''/'' @ digits_of n @ js '' bytes)'')"

text \<open>The body of the \<open>try\<close> of \<open>append\<close>.\<close>

definition write_frame :: "disk_env \<Rightarrow> nat list \<Rightarrow> nat list \<Rightarrow> run_disk \<Rightarrow> io_fault option \<times> run_disk" where
  "write_frame env framed m d =
     (case de_journal env of
        Journal_not_opened f \<Rightarrow> (Some f, d)
      | Journal_write_failed k f \<Rightarrow> (Some f, journal_add (take k framed) d)
      | Journal_short k \<Rightarrow>
          let n = min k (length framed - 1) in (Some (short_write n (length framed)), journal_add (take n framed) d)
      | Journal_unsynced f \<Rightarrow> (Some f, journal_add framed d)
      | Journal_flushed \<Rightarrow> write_manifest (de_replace env) m (journal_sync (journal_add framed d)))"

definition failure_message :: "jstring \<Rightarrow> jstring" where
  "failure_message m =
     js ''journal unavailable after a failed durability barrier: '' @ m @
     js ''. Repair storage, then restart Pi and reopen this session; /reload retains this failed store. Uncommitted effects require reconciliation, not replay.''"

definition assert_writable :: "unit run_eff" where
  "assert_writable s =
     (if rs_closed s then (Inl (Store_failed (js ''journal is closed: ownership transferred or disposed'')), s)
      else case rs_failure s of Some f \<Rightarrow> (Inl (Store_failed (sf_message f)), s) | None \<Rightarrow> (Inr (), s))"

definition request_id :: "journal_record \<Rightarrow> jstring option" where
  "request_id r = (case field (j_body r) (js ''requestId'') of JStr q \<Rightarrow> Some q | _ \<Rightarrow> None)"

definition index_record :: "journal_record \<Rightarrow> run_store \<Rightarrow> run_store" where
  "index_record r s =
     (let s = s\<lparr>rs_records := rs_records s @ [r]\<rparr> in
      case request_id r of
        Some q \<Rightarrow> if map_of (rs_commands s) q = None then s\<lparr>rs_commands := map_put q r (rs_commands s)\<rparr> else s
      | None \<Rightarrow> s)"

definition next_record :: "run_store \<Rightarrow> jstring \<Rightarrow> jstring \<Rightarrow> js_value \<Rightarrow> journal_record" where
  "next_record s kind now body = \<lparr>j_seq = int (rs_seq s) + 1, j_kind = kind, j_at = JStr now, j_body = body\<rparr>"

definition run_append :: "(nat list \<Rightarrow> jstring) \<Rightarrow> (js_num \<Rightarrow> jstring) \<Rightarrow> jstring \<Rightarrow> js_value \<Rightarrow> journal_record run_eff" where
  "run_append sha nt kind body =
     ethen assert_writable (ebind next_env (\<lambda>env s.
       let r = next_record s kind (de_now env) body; framed = frame sha nt r;
           m = manifest_bytes nt (rs_root s) (Suc (rs_seq s)) (rs_bytes s + length framed);
           (fault, d) = write_frame env framed m (rs_disk s); s = s\<lparr>rs_disk := d\<rparr>
       in case fault of
            Some f \<Rightarrow>
              let msg = failure_message (fault_message f) in
              (Inl (Store_failed msg),
               s\<lparr>rs_failure := Some \<lparr>sf_cause = fault_code f, sf_message = msg, sf_at = de_now env\<rparr>,
                 rs_notified := rs_notified s @ rs_listeners s\<rparr>)
          | None \<Rightarrow> (Inr r, index_record r (s\<lparr>rs_seq := Suc (rs_seq s), rs_bytes := rs_bytes s + length framed\<rparr>))))"

section \<open>Reading\<close>

definition read_since :: "run_store \<Rightarrow> int \<Rightarrow> int \<Rightarrow> journal_record list \<times> int" where
  "read_since s cursor limit =
     (let start = nat (min cursor (int (length (rs_records s))));
          out = take (nat limit) (drop start (rs_records s))
      in (out, if out \<noteq> [] then j_seq (last out) else cursor))"

definition load_command :: "run_store \<Rightarrow> jstring \<Rightarrow> journal_record option" where
  "load_command s q = map_of (rs_commands s) q"

definition record_command :: "(nat list \<Rightarrow> jstring) \<Rightarrow> (js_num \<Rightarrow> jstring) \<Rightarrow> jstring \<Rightarrow> journal_record \<Rightarrow> unit run_eff" where
  "record_command sha nt q r =
     ethen (run_append sha nt (js ''command.accepted'')
         (JObj [(js ''requestId'', JStr q), (js ''seq'', JNum (Fin (of_int (j_seq r)))), (js ''kind'', JStr (j_kind r))]))
       (emod (\<lambda>s. s\<lparr>rs_commands := map_put q r (rs_commands s)\<rparr>))"

definition run_close :: "run_store \<Rightarrow> run_store" where
  "run_close s = s\<lparr>rs_closed := True, rs_listeners := []\<rparr>"

definition on_write_failure :: "nat \<Rightarrow> run_store \<Rightarrow> run_store" where
  "on_write_failure l s = s\<lparr>rs_listeners := set_add l (rs_listeners s)\<rparr>"

section \<open>Files of an agent\<close>

definition put_file :: "jstring \<Rightarrow> jstring \<Rightarrow> nat list \<Rightarrow> bool \<Rightarrow> agent_files \<Rightarrow> agent_files" where
  "put_file agent f bs kept fs = map_put (agent, f) (bs, kept) fs"

definition files_of :: "jstring \<Rightarrow> agent_files \<Rightarrow> jstring list" where
  "files_of agent fs = map (snd \<circ> fst) (filter (\<lambda>x. fst (fst x) = agent) fs)"

text \<open>\<open>writeDurably\<close> into the directory of an agent, made when it is missing.\<close>

definition write_file ::
  "((agent_files \<Rightarrow> agent_files) \<Rightarrow> run_disk \<Rightarrow> run_disk) \<Rightarrow> jstring \<Rightarrow> jstring \<Rightarrow> nat list \<Rightarrow> unit run_eff" where
  "write_file upd agent f bs =
     ebind next_env (\<lambda>env.
       ethen (or_raise (de_mkdir env))
       (case de_replace env of
          Replaced \<Rightarrow> on_disk (upd (put_file agent f bs True))
        | Not_replaced e \<Rightarrow> ethrow (Raised e)
        | Replaced_unsynced e \<Rightarrow> ethen (on_disk (upd (put_file agent f bs False))) (ethrow (Raised e))))"

section \<open>Checkpoints\<close>

record checkpoint_ref =
  cr_agent :: jstring
  cr_run :: jstring
  cr_generation :: int
  cr_leaf :: "jstring option"
  cr_sha :: jstring
  cr_bytes :: nat
  cr_created :: jstring
  cr_superseded :: bool
  cr_history :: "jstring option"

definition text_or_null :: "jstring option \<Rightarrow> js_value" where
  "text_or_null x = (case x of None \<Rightarrow> JNull | Some s \<Rightarrow> JStr s)"

definition published_body :: "checkpoint_ref \<Rightarrow> jstring \<Rightarrow> js_value" where
  "published_body ref f =
     JObj [(js ''agentId'', JStr (cr_agent ref)), (js ''taskRunId'', JStr (cr_run ref)),
           (js ''generation'', JNum (Fin (of_int (cr_generation ref)))), (js ''leafEntryId'', text_or_null (cr_leaf ref)),
           (js ''sha256'', JStr (cr_sha ref)), (js ''bytes'', JNum (Fin (of_nat (cr_bytes ref)))),
           (js ''createdAt'', JStr (cr_created ref)), (js ''historySourceId'', text_or_null (cr_history ref)),
           (js ''file'', JStr f)]"

definition latest_published :: "run_store \<Rightarrow> jstring \<Rightarrow> journal_record option" where
  "latest_published s agent =
     find (\<lambda>r. j_kind r = js ''checkpoint.published'' \<and> field (j_body r) (js ''agentId'') = JStr agent)
       (rev (rs_records s))"

definition checkpoint_prefix :: jstring where
  "checkpoint_prefix = js ''gen-''"

definition keep_files :: "(jstring \<times> jstring) list \<Rightarrow> agent_files \<Rightarrow> agent_files" where
  "keep_files gone fs = filter (\<lambda>x. fst x \<notin> set gone) fs"

text \<open>\<open>rmSync\<close> on each in order; the first \<open>k\<close> are gone when one throws.\<close>

definition remove_files :: "jstring \<Rightarrow> jstring list \<Rightarrow> unit run_eff" where
  "remove_files agent stale =
     ebind next_env (\<lambda>env.
       let n = (case de_remove env of None \<Rightarrow> length stale | Some (k, f) \<Rightarrow> k) in
       ethen (on_disk (\<lambda>d. d\<lparr>dk_checkpoints := keep_files (map (Pair agent) (take n stale)) (dk_checkpoints d)\<rparr>))
         (or_raise (map_option snd (de_remove env))))"

definition retire_predecessors ::
  "(nat list \<Rightarrow> jstring) \<Rightarrow> (js_num \<Rightarrow> jstring) \<Rightarrow> jstring \<Rightarrow> jstring \<Rightarrow> unit run_eff" where
  "retire_predecessors sha nt agent live =
     ebind next_env (\<lambda>env. ebind eget (\<lambda>s.
       let stale = filter (\<lambda>f. starts_with f checkpoint_prefix \<and> f \<noteq> live) (files_of agent (dk_checkpoints (rs_disk s)))
       in if de_list env \<noteq> None \<or> stale = [] then eret ()
          else ethen (ebind (run_append sha nt (js ''checkpoint.superseded'')
                   (JObj [(js ''agentId'', JStr agent), (js ''files'', JArr (map JStr stale))])) (\<lambda>_. eret ()))
                 (remove_files agent stale)))"

definition checkpoint_file :: "checkpoint_ref \<Rightarrow> jstring \<Rightarrow> jstring" where
  "checkpoint_file ref uuid = checkpoint_prefix @ int_text (cr_generation ref) @ [45] @ uuid @ js ''.bin''"

definition upd_checkpoints :: "(agent_files \<Rightarrow> agent_files) \<Rightarrow> run_disk \<Rightarrow> run_disk" where
  "upd_checkpoints f d = d\<lparr>dk_checkpoints := f (dk_checkpoints d)\<rparr>"

definition upd_results :: "(agent_files \<Rightarrow> agent_files) \<Rightarrow> run_disk \<Rightarrow> run_disk" where
  "upd_results f d = d\<lparr>dk_results := f (dk_results d)\<rparr>"

definition save_checkpoint ::
  "(nat list \<Rightarrow> jstring) \<Rightarrow> (js_num \<Rightarrow> jstring) \<Rightarrow> checkpoint_ref \<Rightarrow> nat list \<Rightarrow> unit run_eff" where
  "save_checkpoint sha nt ref bs =
     ethen assert_writable (ebind next_env (\<lambda>env.
       let f = checkpoint_file ref (de_uuid env) in
       ethen (write_file upd_checkpoints (cr_agent ref) f bs)
       (ethen (ebind (run_append sha nt (js ''checkpoint.published'') (published_body ref f)) (\<lambda>_. eret ()))
         (retire_predecessors sha nt (cr_agent ref) f))))"

definition text_field :: "js_value \<Rightarrow> jstring \<Rightarrow> jstring" where
  "text_field v k = (case field v k of JStr s \<Rightarrow> s | _ \<Rightarrow> [])"

definition text_field_opt :: "js_value \<Rightarrow> jstring \<Rightarrow> jstring option" where
  "text_field_opt v k = (case field v k of JStr s \<Rightarrow> Some s | _ \<Rightarrow> None)"

definition int_field :: "js_value \<Rightarrow> jstring \<Rightarrow> int" where
  "int_field v k = (case field v k of JNum (Fin q) \<Rightarrow> \<lfloor>q\<rfloor> | _ \<Rightarrow> 0)"

definition ref_of :: "jstring \<Rightarrow> js_value \<Rightarrow> checkpoint_ref" where
  "ref_of agent b =
     \<lparr>cr_agent = agent, cr_run = text_field b (js ''taskRunId''), cr_generation = int_field b (js ''generation''),
      cr_leaf = text_field_opt b (js ''leafEntryId''), cr_sha = text_field b (js ''sha256''),
      cr_bytes = nat (int_field b (js ''bytes'')), cr_created = text_field b (js ''createdAt''),
      cr_superseded = False, cr_history = text_field_opt b (js ''historySourceId'')\<rparr>"

definition load_checkpoint ::
  "(nat list \<Rightarrow> jstring) \<Rightarrow> jstring \<Rightarrow> (checkpoint_ref \<times> nat list) option run_eff" where
  "load_checkpoint sha agent =
     ebind eget (\<lambda>s. case latest_published s agent of
       None \<Rightarrow> eret None
     | Some r \<Rightarrow>
         let b = j_body r; f = text_field b (js ''file'') in
         ebind next_env (\<lambda>env.
           case map_of (dk_checkpoints (rs_disk s)) (agent, f) of
             None \<Rightarrow> ethrow (Recovery_corrupt (Checkpoint_unreadable agent f))
           | Some (bs, _) \<Rightarrow>
               if de_read env \<noteq> None then ethrow (Recovery_corrupt (Checkpoint_unreadable agent f))
               else if JNum (Fin (of_nat (length bs))) \<noteq> field b (js ''bytes'') \<or> JStr (sha bs) \<noteq> field b (js ''sha256'')
               then ethrow (Recovery_corrupt (Checkpoint_invalid agent f))
               else eret (Some (ref_of agent b, bs))))"

definition supersede_checkpoint ::
  "(nat list \<Rightarrow> jstring) \<Rightarrow> (js_num \<Rightarrow> jstring) \<Rightarrow> jstring \<Rightarrow> unit run_eff" where
  "supersede_checkpoint sha nt agent =
     ethen assert_writable (ebind eget (\<lambda>s. case latest_published s agent of
       None \<Rightarrow> eret ()
     | Some r \<Rightarrow> retire_predecessors sha nt agent (text_field (j_body r) (js ''file''))))"

section \<open>Results\<close>

record result_ref =
  rr_file :: jstring
  rr_bytes :: nat
  rr_sha :: jstring

definition result_file :: "jstring \<Rightarrow> int \<Rightarrow> jstring" where
  "result_file run generation = js ''result-'' @ run @ [45] @ int_text generation @ js ''.txt''"

definition save_result ::
  "(nat list \<Rightarrow> jstring) \<Rightarrow> jstring \<Rightarrow> jstring \<Rightarrow> int \<Rightarrow> jstring \<Rightarrow> result_ref run_eff" where
  "save_result sha agent run generation txt' =
     ethen assert_writable
       (let bs = utf8_encode txt'; f = result_file run generation in
        ethen (ecatch (write_file upd_results agent f bs)
            (\<lambda>e. ethrow (case e of
               Raised x \<Rightarrow> Store_failed (js ''result text '' @ agent @ js ''/'' @ f @ js '' not saved: '' @ fault_message x)
             | _ \<Rightarrow> e)))
          (eret \<lparr>rr_file = f, rr_bytes = length bs, rr_sha = sha bs\<rparr>))"

definition load_result :: "(nat list \<Rightarrow> jstring) \<Rightarrow> jstring \<Rightarrow> result_ref \<Rightarrow> jstring run_eff" where
  "load_result sha agent ref =
     ebind next_env (\<lambda>env. ebind eget (\<lambda>s.
       case map_of (dk_results (rs_disk s)) (agent, rr_file ref) of
         None \<Rightarrow> ethrow (Recovery_corrupt (Result_unreadable agent (rr_file ref)))
       | Some (bs, _) \<Rightarrow>
           if de_read env \<noteq> None then ethrow (Recovery_corrupt (Result_unreadable agent (rr_file ref)))
           else if length bs \<noteq> rr_bytes ref \<or> sha bs \<noteq> rr_sha ref
           then ethrow (Recovery_corrupt (Result_invalid agent (rr_file ref)))
           else eret (utf8_decode bs)))"

section \<open>Opening\<close>

definition run_blank :: "jstring \<Rightarrow> (nat \<Rightarrow> disk_env) \<Rightarrow> run_disk \<Rightarrow> run_store" where
  "run_blank rid io d =
     \<lparr>rs_root = rid, rs_disk = d, rs_seq = 0, rs_bytes = 0, rs_records = [], rs_commands = [], rs_failure = None,
      rs_listeners = [], rs_notified = [], rs_closed = False, rs_io = io, rs_tick = 0\<rparr>"

fun load_lines :: "(nat list \<Rightarrow> jstring) \<Rightarrow> jstring list \<Rightarrow> unit run_eff" where
  "load_lines sha [] = eret ()"
| "load_lines sha (l # ls) =
     ebind eget (\<lambda>s. case parse_frame sha l of
       Frame_record r \<Rightarrow>
         if j_seq r \<noteq> int (length (rs_records s)) + 1 then ethrow (Recovery_corrupt (Seq_out_of_order (j_seq r)))
         else if j_body r = JUndef \<or> j_body r = JNull then ethrow Type_error
         else ethen (emod (index_record r)) (load_lines sha ls)
     | Frame_torn \<Rightarrow> ethrow (Recovery_corrupt (Bad_frame (js ''malformed frame'')))
     | Frame_corrupt why \<Rightarrow> ethrow (Recovery_corrupt (Bad_frame why)))"

definition natural :: "js_value \<Rightarrow> nat option" where
  "natural v = (case v of JNum (Fin q) \<Rightarrow> if is_int_rat q \<and> 0 \<le> q then Some (nat \<lfloor>q\<rfloor>) else None | _ \<Rightarrow> None)"

definition read_manifest :: "jstring \<Rightarrow> nat list \<Rightarrow> run_error + nat \<times> nat" where
  "read_manifest rid bs =
     (case json_parse (utf8_decode bs) of
        None \<Rightarrow> Inl (Recovery_corrupt Manifest_unreadable)
      | Some v \<Rightarrow>
          if v = JNull then Inl Type_error
          else if field v (js ''version'') \<noteq> JNum (Fin 1) \<or> field v (js ''rootId'') \<noteq> JStr rid
          then Inl (Recovery_corrupt Manifest_mismatch)
          else case (natural (field v (js ''durableSeq'')), natural (field v (js ''journalBytes''))) of
            (Some n, Some b) \<Rightarrow> Inr (n, b)
          | _ \<Rightarrow> Inl (Recovery_corrupt Boundary_malformed))"

definition lift_result :: "run_error + 'a \<Rightarrow> 'a run_eff" where
  "lift_result r = (case r of Inl e \<Rightarrow> ethrow e | Inr x \<Rightarrow> eret x)"

text \<open>The first opening of a directory: an empty journal, then the manifest.\<close>

definition create_journal :: "(js_num \<Rightarrow> jstring) \<Rightarrow> unit run_eff" where
  "create_journal nt =
     ethen (ebind next_env (\<lambda>env. case de_replace env of
         Replaced \<Rightarrow> on_disk (\<lambda>d. d\<lparr>dk_journal := Some [], dk_synced := 0, dk_kept := True\<rparr>)
       | Not_replaced f \<Rightarrow> ethrow (Raised f)
       | Replaced_unsynced f \<Rightarrow> ethen (on_disk (\<lambda>d. d\<lparr>dk_journal := Some [], dk_synced := 0\<rparr>)) (ethrow (Raised f))))
     (ebind next_env (\<lambda>env s.
        let (f, d) = write_manifest (de_replace env) (manifest_bytes nt (rs_root s) 0 0) (rs_disk s)
        in or_raise f (s\<lparr>rs_disk := d\<rparr>)))"

definition cut_journal :: "nat \<Rightarrow> run_disk \<Rightarrow> run_disk" where
  "cut_journal n d = d\<lparr>dk_journal := map_option (take n) (dk_journal d), dk_synced := n\<rparr>"

definition discard_tail :: "(nat list \<Rightarrow> jstring) \<Rightarrow> (js_num \<Rightarrow> jstring) \<Rightarrow> nat \<Rightarrow> nat \<Rightarrow> unit run_eff" where
  "discard_tail sha nt boundary tail =
     (if tail = 0 then eret ()
      else ethen (ebind next_env (\<lambda>env. case de_replace env of
          Replaced \<Rightarrow> on_disk (cut_journal boundary)
        | Not_replaced f \<Rightarrow> ethrow (Raised f)
        | Replaced_unsynced f \<Rightarrow> ethen (on_disk (cut_journal boundary)) (ethrow (Raised f))))
      (ebind (run_append sha nt (js ''recovery.event'')
          (JObj [(js ''phase'', JStr (js ''uncommitted_tail_discarded'')), (js ''bytes'', JNum (Fin (of_nat tail)))]))
        (\<lambda>_. eret ())))"

definition open_committed :: "(nat list \<Rightarrow> jstring) \<Rightarrow> (js_num \<Rightarrow> jstring) \<Rightarrow> nat list \<Rightarrow> unit run_eff" where
  "open_committed sha nt m =
     ebind next_env (\<lambda>env. ebind eget (\<lambda>s.
       if de_read env \<noteq> None then ethrow (Recovery_corrupt Manifest_unreadable)
       else ebind (lift_result (read_manifest (rs_root s) m)) (\<lambda>(n, b). ebind next_env (\<lambda>env.
         case dk_journal (rs_disk s) of
           None \<Rightarrow> ethrow (Recovery_corrupt Journal_unreadable)
         | Some raw \<Rightarrow>
           if de_read env \<noteq> None then ethrow (Recovery_corrupt Journal_unreadable)
           else if length raw < b then ethrow (Recovery_corrupt (Journal_too_short (length raw) b))
           else let committed = utf8_decode (take b raw) in
             if committed \<noteq> [] \<and> last committed \<noteq> 10 then ethrow (Recovery_corrupt Off_boundary)
             else ethen (load_lines sha (journal_lines committed)) (ebind eget (\<lambda>s.
               if length (rs_records s) \<noteq> n then ethrow (Recovery_corrupt (Record_count (length (rs_records s)) n))
               else ethen (emod (\<lambda>s. s\<lparr>rs_seq := n, rs_bytes := b\<rparr>)) (discard_tail sha nt b (length raw - b))))))))"

definition open_journal :: "(nat list \<Rightarrow> jstring) \<Rightarrow> (js_num \<Rightarrow> jstring) \<Rightarrow> unit run_eff" where
  "open_journal sha nt =
     ebind eget (\<lambda>s. case dk_manifest (rs_disk s) of
       None \<Rightarrow>
         (case dk_journal (rs_disk s) of
            Some (_ # _) \<Rightarrow> ethrow (Recovery_corrupt Journal_without_manifest)
          | _ \<Rightarrow> create_journal nt)
     | Some m \<Rightarrow> open_committed sha nt m)"

text \<open>The constructor, on the disk a process finds.\<close>

definition open_run_store ::
  "(nat list \<Rightarrow> jstring) \<Rightarrow> (js_num \<Rightarrow> jstring) \<Rightarrow> jstring \<Rightarrow> (nat \<Rightarrow> disk_env) \<Rightarrow> run_disk \<Rightarrow> (run_error + unit) \<times> run_store" where
  "open_run_store sha nt rid io d =
     ethen (ebind next_env (\<lambda>env. or_raise (de_mkdir env))) (open_journal sha nt) (run_blank rid io d)"

end
