(* ===== verification/RunLog.thy ===== *)
theory RunLog
  imports RunStore "HOL-Library.Sublist"
begin

text \<open>
  What \<open>FileRunStore\<close> promises across failures, deaths of the process and losses of power: a
  record that \<open>append\<close> returned is in the journal of every later opening, in its place.
\<close>

section \<open>The log on disk\<close>

definition int_texts :: "(js_num \<Rightarrow> jstring) \<Rightarrow> bool" where
  "int_texts nt \<longleftrightarrow> (\<forall>i. \<bar>i\<bar> \<le> max_safe \<longrightarrow> nt (Fin (of_int i)) = int_text i)"

definition record_ok :: "(js_num \<Rightarrow> jstring) \<Rightarrow> journal_record \<Rightarrow> bool" where
  "record_ok nt r \<longleftrightarrow> record_writable nt r \<and> frame_fits nt r"

definition log_ok :: "(nat list \<Rightarrow> jstring) \<Rightarrow> (js_num \<Rightarrow> jstring) \<Rightarrow> journal_record list \<Rightarrow> bool" where
  "log_ok sha nt L \<longleftrightarrow>
     all_writable nt L \<and> map j_seq L = map int [1..<Suc (length L)] \<and> int (length (journal_bytes sha nt L)) \<le> max_safe"

definition manifest_of :: "(nat list \<Rightarrow> jstring) \<Rightarrow> (js_num \<Rightarrow> jstring) \<Rightarrow> jstring \<Rightarrow> journal_record list \<Rightarrow> nat list" where
  "manifest_of sha nt rid L = manifest_bytes nt rid (length L) (length (journal_bytes sha nt L))"

text \<open>The disk holds the log \<open>L\<close>, and no manifest that may come back forgets anything of \<open>A\<close>.\<close>

definition disk_log ::
  "(nat list \<Rightarrow> jstring) \<Rightarrow> (js_num \<Rightarrow> jstring) \<Rightarrow> jstring \<Rightarrow> run_disk \<Rightarrow> journal_record list \<Rightarrow> journal_record list \<Rightarrow> bool" where
  "disk_log sha nt rid d A L \<longleftrightarrow>
     log_ok sha nt L \<and> dk_kept d \<and> (\<exists>tail. dk_journal d = Some (journal_bytes sha nt L @ tail)) \<and>
     length (journal_bytes sha nt L) \<le> dk_synced d \<and> dk_manifest d = Some (manifest_of sha nt rid L) \<and>
     (\<forall>m\<in>set (dk_prior d). \<exists>k. length A \<le> k \<and> k \<le> length L \<and> m = Some (manifest_of sha nt rid (take k L))) \<and>
     prefix A (map norm_record L)"

section \<open>Reading back\<close>

lemma frame_ne: "frame sha nt r \<noteq> []"
proof -
  have "frame_line sha nt r @ [10] = a # b \<Longrightarrow> utf8_encode (a # b) \<noteq> []" for a b
    by (cases b) (auto simp: unit_bytes_def three_bytes_def pair_bytes_def Let_def)
  then show ?thesis by (cases "frame_line sha nt r @ [10]") (auto simp: frame_def)
qed

lemma journal_bytes_length: "length L \<le> length (journal_bytes sha nt L)"
proof (induction L)
  case (Cons r L)
  have "1 \<le> length (frame sha nt r)" using frame_ne by (simp add: Suc_leI)
  moreover have "journal_bytes sha nt (r # L) = frame sha nt r @ journal_bytes sha nt L" by (simp add: journal_bytes_def)
  ultimately show ?case using Cons by simp
qed simp

lemma json_writable_norm: "json_writable nt v \<Longrightarrow> json_writable nt (json_norm v)"
proof (induction v)
  case (JObj kvs)
  have "distinct (map fst (filter (\<lambda>(k, v). v \<noteq> JUndef) kvs))" using JObj.prems by (simp add: distinct_map_filter)
  moreover have "units16 k \<and> json_writable nt (json_norm v)" if "(k, v) \<in> set kvs" for k v
    using JObj that by (force simp: list_all_iff)
  ultimately show ?case by (force simp: list_all_iff comp_def case_prod_unfold)
qed (auto simp: list_all_iff)

lemma record_writable_norm: "record_writable nt r \<Longrightarrow> record_writable nt (norm_record r)"
  using json_writable_norm [of nt "record_json r"] json_norm_record [of nt r]
  by (auto simp: record_writable_def norm_record_def)

lemma record_ok_norm: "record_ok nt r \<Longrightarrow> record_ok nt (norm_record r)"
  by (simp add: record_ok_def record_writable_norm frame_fits_def record_text_norm)

lemma journal_bytes_norm: "all_writable nt L \<Longrightarrow> journal_bytes sha nt (map norm_record L) = journal_bytes sha nt L"
  by (induction L) (simp_all add: journal_bytes_def frame_def frame_line_norm)

lemma log_ok_norm: "log_ok sha nt L \<Longrightarrow> log_ok sha nt (map norm_record L)"
  using record_ok_norm by (auto simp: log_ok_def journal_bytes_norm all_writable_def list_all_iff record_ok_def comp_def)

lemma log_ok_take: "log_ok sha nt L \<Longrightarrow> log_ok sha nt (take k L)"
proof -
  assume l: "log_ok sha nt L"
  have "L = take k L @ drop k L" by simp
  then have "all_writable nt (take k L)" "length (journal_bytes sha nt (take k L)) \<le> length (journal_bytes sha nt L)"
    using l unfolding log_ok_def by (metis all_writable_simps(3), metis journal_bytes_simps(2) length_append le_add1)
  moreover have "map j_seq (take k L) = map int [1..<Suc (length (take k L))]"
    using l by (simp add: log_ok_def take_map [symmetric] take_upt min_def del: upt_Suc) (simp add: take_map take_upt del: upt_Suc)
  ultimately show ?thesis using l by (simp add: log_ok_def)
qed

lemma log_ok_snoc:
  "log_ok sha nt (L @ [r]) \<longleftrightarrow> log_ok sha nt L \<and> record_ok nt r \<and> j_seq r = int (length L) + 1 \<and>
     int (length (journal_bytes sha nt L) + length (frame sha nt r)) \<le> max_safe"
  by (auto simp: log_ok_def record_ok_def)

lemma natural_of_nat [simp]: "natural (JNum (Fin (of_nat n))) = Some n"
  using is_int_rat_of_int [of "int n"] by (simp add: natural_def)

lemma int_texts_nat:
  assumes "int_texts nt" and "int n \<le> max_safe"
  shows "nt (Fin (of_nat n)) = digits_of n" and "number_reads_back nt (Fin (of_nat n))"
proof -
  have n: "nt (Fin (of_nat n)) = int_text (int n)"
    using assms(1) [unfolded int_texts_def, rule_format, of "int n"] assms(2) by simp
  then show "nt (Fin (of_nat n)) = digits_of n" by (simp add: int_text_def)
  show "number_reads_back nt (Fin (of_nat n))" using number_reads_back_int [of "int n" nt] n assms(2) by simp
qed

lemma read_manifest_bytes:
  assumes "int_texts nt" and "units16 rid" and "int n \<le> max_safe" and "int b \<le> max_safe"
  shows "read_manifest rid (manifest_bytes nt rid n b) = Inr (n, b)"
proof -
  have w: "json_plain nt (manifest_json rid n b)"
    using assms(2) int_texts_nat(2) [OF assms(1)] assms(3,4) int_texts_nat(2) [OF assms(1), of 1]
    by (simp add: manifest_json_def js_def units16_def max_safe_def)
  then have "utf8_decode (manifest_bytes nt rid n b) = json_text nt (manifest_json rid n b)"
    using json_text_clean [OF w] by (simp add: manifest_bytes_def clean_def utf8_roundtrip)
  then show ?thesis
    using json_roundtrip [OF w] by (simp add: read_manifest_def manifest_json_def js_def)
qed

section \<open>Appending\<close>

definition run_live ::
  "(nat list \<Rightarrow> jstring) \<Rightarrow> (js_num \<Rightarrow> jstring) \<Rightarrow> jstring \<Rightarrow> run_store \<Rightarrow> journal_record list \<Rightarrow> bool" where
  "run_live sha nt rid s A \<longleftrightarrow>
     (\<exists>L. disk_log sha nt rid (rs_disk s) A L \<and>
        (L = rs_records s \<and> (rs_failure s = None \<longrightarrow> dk_journal (rs_disk s) = Some (journal_bytes sha nt L)) \<or>
         rs_failure s \<noteq> None \<and> (\<exists>r. L = rs_records s @ [r]))) \<and>
     rs_root s = rid \<and> rs_seq s = length (rs_records s) \<and>
     rs_bytes s = length (journal_bytes sha nt (rs_records s)) \<and> prefix A (map norm_record (rs_records s))"

lemma index_record_simps [simp]:
  "rs_records (index_record r s) = rs_records s @ [r]" "rs_disk (index_record r s) = rs_disk s"
  "rs_root (index_record r s) = rs_root s" "rs_seq (index_record r s) = rs_seq s"
  "rs_bytes (index_record r s) = rs_bytes s" "rs_failure (index_record r s) = rs_failure s"
  "rs_io (index_record r s) = rs_io s" "rs_tick (index_record r s) = rs_tick s"
  "rs_closed (index_record r s) = rs_closed s"
  by (simp_all add: index_record_def Let_def split: option.split)

lemma run_live_log: "run_live sha nt rid s A \<Longrightarrow> log_ok sha nt (rs_records s)"
  by (auto simp: run_live_def disk_log_def log_ok_snoc)

text \<open>The record an append is about to write, and that it is one that can be read back.\<close>

definition attempt :: "run_store \<Rightarrow> jstring \<Rightarrow> js_value \<Rightarrow> journal_record" where
  "attempt s kind body = next_record s kind (de_now (rs_io s (rs_tick s))) body"

definition attempt_ok :: "(nat list \<Rightarrow> jstring) \<Rightarrow> (js_num \<Rightarrow> jstring) \<Rightarrow> run_store \<Rightarrow> jstring \<Rightarrow> js_value \<Rightarrow> bool" where
  "attempt_ok sha nt s kind body \<longleftrightarrow>
     record_ok nt (attempt s kind body) \<and>
     int (rs_bytes s + length (frame sha nt (attempt s kind body))) \<le> max_safe"

text \<open>What writing the frame of the next record does to a disk whose journal ends where its log ends.\<close>

lemma write_frame_log:
  assumes d: "disk_log sha nt rid d A L" and j: "dk_journal d = Some (journal_bytes sha nt L)"
    and ok: "log_ok sha nt (L @ [r])"
    and w: "write_frame env (frame sha nt r) (manifest_of sha nt rid (L @ [r])) d = (f, d')"
  shows "f = None \<Longrightarrow> disk_log sha nt rid d' (map norm_record (L @ [r])) (L @ [r]) \<and>
      dk_journal d' = Some (journal_bytes sha nt (L @ [r])) \<and> dk_prior d' = []"
    and "f \<noteq> None \<Longrightarrow> disk_log sha nt rid d' A L \<or> disk_log sha nt rid d' A (L @ [r])"
proof -
  have le: "length A \<le> length L" using d by (auto simp: disk_log_def dest: prefix_length_le)
  have new: "disk_log sha nt rid (d\<lparr>dk_journal := Some (journal_bytes sha nt (L @ [r])),
        dk_synced := length (journal_bytes sha nt (L @ [r])), dk_manifest := Some (manifest_of sha nt rid (L @ [r])),
        dk_prior := dk_manifest d # dk_prior d\<rparr>) A (L @ [r])"
  proof -
    have "\<exists>k. length A \<le> k \<and> k \<le> length (L @ [r]) \<and> m = Some (manifest_of sha nt rid (take k (L @ [r])))"
      if m: "m \<in> set (dk_manifest d # dk_prior d)" for m
    proof (cases "m = dk_manifest d")
      case True
      then show ?thesis using d le by (intro exI [of _ "length L"]) (simp add: disk_log_def)
    next
      case False
      then obtain k where "length A \<le> k" "k \<le> length L" "m = Some (manifest_of sha nt rid (take k L))"
        using d m by (auto simp: disk_log_def)
      then show ?thesis by (intro exI [of _ k]) simp
    qed
    moreover have "prefix A (map norm_record (L @ [r]))" using d by (auto simp: disk_log_def prefix_def)
    ultimately show ?thesis using d ok by (simp add: disk_log_def)
  qed
  have grown: "disk_log sha nt rid (d\<lparr>dk_journal := Some (journal_bytes sha nt L @ bs)\<rparr>) A L" for bs
    using d by (simp add: disk_log_def)
  have flushed: "disk_log sha nt rid (d\<lparr>dk_journal := Some (journal_bytes sha nt L @ bs),
      dk_synced := length (journal_bytes sha nt L @ bs)\<rparr>) A L" for bs
    using d by (simp add: disk_log_def)
  have fresh: "disk_log sha nt rid (d\<lparr>dk_journal := Some (journal_bytes sha nt (L @ [r])),
        dk_synced := length (journal_bytes sha nt (L @ [r])), dk_manifest := Some (manifest_of sha nt rid (L @ [r])),
        dk_prior := []\<rparr>) (map norm_record (L @ [r])) (L @ [r])"
    using d ok by (auto simp: disk_log_def)
  show "f = None \<Longrightarrow> disk_log sha nt rid d' (map norm_record (L @ [r])) (L @ [r]) \<and>
      dk_journal d' = Some (journal_bytes sha nt (L @ [r])) \<and> dk_prior d' = []"
    using w fresh by (auto simp: write_frame_def write_manifest_def journal_add_def journal_sync_def j Let_def
        split: append_outcome.splits replace_outcome.splits)
  show "f \<noteq> None \<Longrightarrow> disk_log sha nt rid d' A L \<or> disk_log sha nt rid d' A (L @ [r])"
    using w d grown flushed new by (auto simp: write_frame_def write_manifest_def journal_add_def journal_sync_def j Let_def
        split: append_outcome.splits replace_outcome.splits)
qed

lemma run_append_live:
  assumes l: "run_live sha nt rid s A" and ok: "attempt_ok sha nt s kind body"
    and a: "run_append sha nt kind body s = (res, s')"
  shows "case res of Inr r \<Rightarrow> r = attempt s kind body \<and> rs_records s' = rs_records s @ [r] \<and>
        run_live sha nt rid s' (map norm_record (rs_records s')) \<and> dk_prior (rs_disk s') = [] \<and>
        rs_failure s' = None \<and> rs_closed s' = rs_closed s
      | Inl e \<Rightarrow> rs_records s' = rs_records s \<and> run_live sha nt rid s' A"
proof (cases "rs_closed s \<or> rs_failure s \<noteq> None")
  case True
  then obtain e where "assert_writable s = (Inl e, s)" by (cases "rs_closed s"; cases "rs_failure s") (auto simp: assert_writable_def)
  then show ?thesis using a l by (auto simp: run_append_def ethen_def ebind_def)
next
  case False
  let ?r = "attempt s kind body" and ?env = "rs_io s (rs_tick s)"
  from l False have d: "disk_log sha nt rid (rs_disk s) A (rs_records s)"
    and j: "dk_journal (rs_disk s) = Some (journal_bytes sha nt (rs_records s))"
    and st: "rs_root s = rid" "rs_seq s = length (rs_records s)" "rs_bytes s = length (journal_bytes sha nt (rs_records s))"
      "prefix A (map norm_record (rs_records s))"
    by (auto simp: run_live_def)
  have lok: "log_ok sha nt (rs_records s @ [?r])"
    using ok d st by (auto simp: log_ok_snoc attempt_ok_def disk_log_def attempt_def next_record_def)
  obtain f d' where w: "write_frame ?env (frame sha nt ?r) (manifest_of sha nt rid (rs_records s @ [?r])) (rs_disk s) = (f, d')"
    by force
  have m: "manifest_bytes nt (rs_root s) (Suc (rs_seq s)) (rs_bytes s + length (frame sha nt ?r))
      = manifest_of sha nt rid (rs_records s @ [?r])"
    by (simp add: manifest_of_def st)
  note wl = write_frame_log [OF d j lok w]
  show ?thesis
  proof (cases f)
    case None
    with a False w have "res = Inr ?r"
      and s': "s' = index_record ?r (s\<lparr>rs_tick := Suc (rs_tick s), rs_disk := d', rs_seq := Suc (rs_seq s),
          rs_bytes := rs_bytes s + length (frame sha nt ?r)\<rparr>)"
      by (auto simp: run_append_def ethen_def ebind_def assert_writable_def next_env_def m Let_def attempt_def [symmetric]
          next_record_def attempt_def m [unfolded attempt_def next_record_def])
    then show ?thesis using wl(1) None False st by (auto simp: run_live_def)
  next
    case (Some e)
    with a False w have res: "\<exists>x. res = Inl x" and s': "rs_records s' = rs_records s" "rs_disk s' = d'" "rs_failure s' \<noteq> None"
        "rs_root s' = rs_root s" "rs_seq s' = rs_seq s" "rs_bytes s' = rs_bytes s"
      by (auto simp: run_append_def ethen_def ebind_def assert_writable_def next_env_def Let_def
          next_record_def attempt_def m [unfolded attempt_def next_record_def])
    from wl(2) Some consider "disk_log sha nt rid d' A (rs_records s)" | "disk_log sha nt rid d' A (rs_records s @ [?r])"
      by auto
    then have "run_live sha nt rid s' A" using s' st unfolding run_live_def by cases auto
    with res s' show ?thesis by auto
  qed
qed

section \<open>Opening\<close>

lemma load_lines_log:
  assumes "hex_digest sha" and "all_writable nt rs"
    and "map j_seq rs = map int [Suc (length (rs_records s))..<Suc (length (rs_records s) + length rs)]"
  shows "load_lines sha (map (frame_line sha nt) rs) s = (Inr (), fold (\<lambda>r. index_record (norm_record r)) rs s)"
  using assms(2-)
proof (induction rs arbitrary: s)
  case (Cons r rs)
  have seq: "j_seq r = int (length (rs_records s)) + 1"
    and rest: "map j_seq rs = map int [Suc (Suc (length (rs_records s)))..<Suc (Suc (length (rs_records s) + length rs))]"
    using Cons.prems(2) by (auto simp: upt_rec [of "Suc _"] simp del: upt_Suc)
  have "parse_frame sha (frame_line sha nt r) = Frame_record (norm_record r)"
    using parse_frame_line [OF assms(1)] Cons.prems(1) by simp
  moreover have "j_body (norm_record r) \<noteq> JUndef \<and> j_body (norm_record r) \<noteq> JNull"
    using Cons.prems(1) by (auto simp: record_writable_def norm_record_def)
  moreover have "load_lines sha (map (frame_line sha nt) rs) (index_record (norm_record r) s)
      = (Inr (), fold (\<lambda>r. index_record (norm_record r)) rs (index_record (norm_record r) s))"
    using Cons.prems(1) rest by (intro Cons.IH) simp_all
  ultimately show ?case
    by (simp add: seq ebind_def eget_def ethen_def emod_def)
qed (simp add: eret_def)

lemma fold_index_simps:
  "rs_records (fold (\<lambda>r. index_record (norm_record r)) rs s) = rs_records s @ map norm_record rs"
  "rs_disk (fold (\<lambda>r. index_record (norm_record r)) rs s) = rs_disk s"
  "rs_root (fold (\<lambda>r. index_record (norm_record r)) rs s) = rs_root s"
  "rs_failure (fold (\<lambda>r. index_record (norm_record r)) rs s) = rs_failure s"
  "rs_io (fold (\<lambda>r. index_record (norm_record r)) rs s) = rs_io s"
  "rs_tick (fold (\<lambda>r. index_record (norm_record r)) rs s) = rs_tick s"
  "rs_closed (fold (\<lambda>r. index_record (norm_record r)) rs s) = rs_closed s"
  by (induction rs arbitrary: s) simp_all

text \<open>Up to the discarding of the tail, opening can only fail on a read that fails.\<close>

lemma journal_text_last: "journal_text sha nt L \<noteq> [] \<Longrightarrow> last (journal_text sha nt L) = 10"
  by (cases L rule: rev_cases) (simp_all add: journal_text_def)

lemma open_committed_log:
  assumes "hex_digest sha" and "int_texts nt" and "units16 rid"
    and d: "disk_log sha nt rid (rs_disk s) A L" and st: "rs_root s = rid" "rs_records s = []"
    and j: "dk_journal (rs_disk s) = Some (journal_bytes sha nt L @ tail)"
    and r: "de_read (rs_io s (rs_tick s)) = None" "de_read (rs_io s (Suc (rs_tick s))) = None"
  shows "open_committed sha nt (manifest_of sha nt rid L) s =
    discard_tail sha nt (length (journal_bytes sha nt L)) (length tail)
      ((fold (\<lambda>r. index_record (norm_record r)) L (s\<lparr>rs_tick := Suc (Suc (rs_tick s))\<rparr>))
        \<lparr>rs_seq := length L, rs_bytes := length (journal_bytes sha nt L)\<rparr>)"
proof -
  have lok: "log_ok sha nt L" using d by (simp add: disk_log_def)
  then have all: "all_writable nt L" and seqs: "map j_seq L = map int [1..<Suc (length L)]"
    and small: "int (length (journal_bytes sha nt L)) \<le> max_safe" by (simp_all add: log_ok_def)
  have "int (length L) \<le> max_safe" using journal_bytes_length [of L sha nt] small by linarith
  then have m: "read_manifest rid (manifest_of sha nt rid L) = Inr (length L, length (journal_bytes sha nt L))"
    unfolding manifest_of_def using assms(2,3) small by (intro read_manifest_bytes)
  have c: "utf8_decode (journal_bytes sha nt L) = journal_text sha nt L" by (rule journal_decode [OF assms(1) all_writable_writables [OF all]])
  let ?s = "s\<lparr>rs_tick := Suc (Suc (rs_tick s))\<rparr>"
  have load: "load_lines sha (journal_lines (journal_text sha nt L)) ?s = (Inr (), fold (\<lambda>r. index_record (norm_record r)) L ?s)"
    unfolding journal_lines_text [OF assms(1) all_writable_writables [OF all]]
    by (rule load_lines_log [OF assms(1) all]) (use seqs st in \<open>simp del: upt_Suc\<close>)
  have l: "\<not> (journal_text sha nt L \<noteq> [] \<and> last (journal_text sha nt L) \<noteq> 10)" using journal_text_last by blast
  show ?thesis
    by (simp add: open_committed_def ebind_def next_env_def eget_def r m lift_result_def eret_def st j c
        l ethen_def load emod_def fold_index_simps Let_def)
qed

lemma disk_log_norm: "disk_log sha nt rid d A L \<Longrightarrow> disk_log sha nt rid d A (map norm_record L)"
proof -
  assume d: "disk_log sha nt rid d A L"
  then have all: "all_writable nt L" by (simp add: disk_log_def log_ok_def)
  then have "all_writable nt (take k L)" for k by (auto simp: all_writable_def list_all_iff dest: in_set_takeD)
  then have "manifest_of sha nt rid (take k (map norm_record L)) = manifest_of sha nt rid (take k L)" for k
    by (simp add: manifest_of_def take_map journal_bytes_norm)
  then show ?thesis
    using d journal_bytes_norm [OF all, of sha] log_ok_norm [of sha nt L]
    by (simp add: disk_log_def comp_def manifest_of_def)
qed

definition recovery_body :: "nat \<Rightarrow> js_value" where
  "recovery_body n = JObj [(js ''phase'', JStr (js ''uncommitted_tail_discarded'')), (js ''bytes'', JNum (Fin (of_nat n)))]"

text \<open>
  The recovery event can itself be written and read back when the clock gives plain ASCII of at
  most 30 characters, as \<open>toISOString\<close> does; its frame takes less than 4096 bytes.
\<close>

definition plain_ascii :: "jstring \<Rightarrow> bool" where
  "plain_ascii s \<longleftrightarrow> list_all (\<lambda>c. 32 \<le> c \<and> c < 127 \<and> c \<noteq> 34 \<and> c \<noteq> 92) s"

definition clock_ok :: "(nat \<Rightarrow> disk_env) \<Rightarrow> bool" where
  "clock_ok io \<longleftrightarrow> (\<forall>k. length (de_now (io k)) \<le> 30 \<and>
plain_ascii (de_now (io k)))"

lemma json_string_plain: "plain_ascii s \<Longrightarrow> json_string s = 34 # s @ [34]"
proof -
  have "plain_ascii s \<Longrightarrow> json_chars s = s"
    by (induction s rule: json_chars.induct) (auto simp: plain_ascii_def json_char_def is_high_def is_low_def)
  then show "plain_ascii s \<Longrightarrow> ?thesis" by (simp add: json_string_def)
qed

lemma plain_units: "plain_ascii s \<Longrightarrow> units16 s \<and> list_all (\<lambda>c. c < 128) s"
  by (auto simp: plain_ascii_def units16_def list_all_iff)

lemma utf8_length_ascii: "list_all (\<lambda>c. c < 128) s \<Longrightarrow> utf8_length s = length s"
  by (induction s rule: utf8_length.induct) (auto simp: is_high_def is_low_def)

lemma digits_of_length: "n < 10 ^ Suc k \<Longrightarrow> length (digits_of n) \<le> Suc k"
proof (induction k arbitrary: n)
  case 0
  then show ?case by (simp add: digits_of.simps)
next
  case (Suc k)
  show ?case
  proof (cases "n < 10")
    case False
    have "n div 10 < 10 ^ Suc k" using Suc.prems by (simp add: less_mult_imp_div_less)
    with Suc.IH [of "n div 10"] False show ?thesis by (subst digits_of.simps) simp
  qed (simp add: digits_of.simps)
qed

lemma recovery_text:
  assumes "int_texts nt" and "clock_ok io" and "int n \<le> max_safe" and "int m \<le> max_safe"
    and r: "r = \<lparr>j_seq = int n, j_kind = js ''recovery.event'', j_at = JStr (de_now (io k)), j_body = recovery_body m\<rparr>"
  shows "record_writable nt r" and "list_all (\<lambda>c. c < 128) (json_text nt (record_json r))"
    and "length (json_text nt (record_json r)) \<le> 300"
proof -
  let ?now = "de_now (io k)"
  have now: "plain_ascii ?now" "length ?now \<le> 30" using assms(2) by (simp_all add: clock_ok_def)
  have plain: "plain_ascii (js ''seq'')" "plain_ascii (js ''kind'')" "plain_ascii (js ''at'')" "plain_ascii (js ''body'')"
    "plain_ascii (js ''recovery.event'')" "plain_ascii (js ''phase'')" "plain_ascii (js ''bytes'')"
    "plain_ascii (js ''uncommitted_tail_discarded'')"
    by (simp_all add: plain_ascii_def js_def)
  note t = int_texts_nat(1) [OF assms(1)] and rb = int_texts_nat(2) [OF assms(1)]
  have len: "length (digits_of i) \<le> 16" if "int i \<le> max_safe" for i
    using that digits_of_length [of i 15] by (simp add: max_safe_def)
  have dig: "list_all (\<lambda>c. c < 128) (digits_of i)" for i
    using digits_of_digits [of i] by (auto simp: list_all_iff is_digit_def)
  have w: "json_writable nt (record_json r)"
    using rb [OF assms(3)] rb [OF assms(4)] plain_units [OF now(1)] plain_units [OF plain(1)] plain_units [OF plain(2)]
      plain_units [OF plain(3)] plain_units [OF plain(4)] plain_units [OF plain(5)] plain_units [OF plain(6)]
      plain_units [OF plain(7)] plain_units [OF plain(8)]
    by (simp add: r record_json_def recovery_body_def)
  then show "record_writable nt r" by (simp add: record_writable_def r recovery_body_def)
  have text_is: "json_text nt (record_json r) =
      [123, 34] @ js ''seq'' @ [34, 58] @ digits_of n @ [44, 34] @ js ''kind'' @ [34, 58, 34] @ js ''recovery.event'' @ [34, 44, 34]
      @ js ''at'' @ [34, 58, 34] @ ?now @ [34, 44, 34] @ js ''body'' @ [34, 58, 123, 34] @ js ''phase'' @ [34, 58, 34]
      @ js ''uncommitted_tail_discarded'' @ [34, 44, 34] @ js ''bytes'' @ [34, 58] @ digits_of m @ [125, 125]"
    by (simp add: r record_json_def recovery_body_def json_string_plain plain now(1) t assms(3,4) comma_separated_def)
  show "list_all (\<lambda>c. c < 128) (json_text nt (record_json r))"
    unfolding text_is by (simp add: dig plain_units [OF now(1)] plain_units [OF plain(1)] plain_units [OF plain(2)]
      plain_units [OF plain(3)] plain_units [OF plain(4)] plain_units [OF plain(5)] plain_units [OF plain(6)]
      plain_units [OF plain(7)] plain_units [OF plain(8)])
  show "length (json_text nt (record_json r)) \<le> 300"
    unfolding text_is using len [OF assms(3)] len [OF assms(4)] now(2) by (simp add: js_def)
qed

lemma recovery_attempt_ok:
  assumes "int_texts nt" and "clock_ok (rs_io s)" and "int (rs_seq s) < max_safe" and "int m \<le> max_safe"
    and "int (rs_bytes s + 4096) \<le> max_safe" and "hex_digest sha"
  shows "attempt_ok sha nt s (js ''recovery.event'') (recovery_body m)"
proof -
  let ?r = "attempt s (js ''recovery.event'') (recovery_body m)"
  have r: "?r = \<lparr>j_seq = int (Suc (rs_seq s)), j_kind = js ''recovery.event'',
      j_at = JStr (de_now (rs_io s (rs_tick s))), j_body = recovery_body m\<rparr>"
    by (simp add: attempt_def next_record_def)
  have n: "int (Suc (rs_seq s)) \<le> max_safe" using assms(3) by simp
  note t = recovery_text [OF assms(1,2) n assms(4) r]
  let ?t = "json_text nt (record_json ?r)"
  have len: "utf8_length ?t \<le> 300" using t(3) utf8_length_ascii [OF t(2)] by simp
  have w: "record_ok nt ?r" using t(1) len by (simp add: record_ok_def frame_fits_def max_frame_def)
  have "list_all (\<lambda>c. c < 128) (frame_line sha nt ?r @ [10])"
  proof -
    have "list_all (\<lambda>c. c < 128) (digits_of k)" for k using digits_of_digits [of k] by (auto simp: list_all_iff is_digit_def)
    moreover have "list_all (\<lambda>c. c < 128) (checksum sha bs)" for bs
      using assms(6) by (auto simp: hex_digest_def checksum_def list_all_iff is_digit_def dest!: in_set_takeD) fastforce
    ultimately show ?thesis using t(2) by (simp add: frame_line_def frame_head_def Let_def)
  qed
  then have "length (frame sha nt ?r) = length (frame_line sha nt ?r @ [10])"
    unfolding frame_def length_utf8_encode by (rule utf8_length_ascii)
  moreover have "length (frame_line sha nt ?r) \<le> 3 + 1 + 16 + 1 + 300"
    using digits_of_length [of "utf8_length ?t" 2] len t(3)
    by (simp add: frame_line_def frame_head_def Let_def checksum_def length_utf8_encode)
  ultimately have "length (frame sha nt ?r) \<le> 4096" by simp
  with assms(5) w show ?thesis by (simp add: attempt_ok_def)
qed

lemma discard_tail_live:
  assumes d: "disk_log sha nt rid (rs_disk s) A L" and j: "dk_journal (rs_disk s) = Some (journal_bytes sha nt L @ tail)"
    and st: "rs_root s = rid" "rs_records s = L" "rs_seq s = length L" "rs_bytes s = length (journal_bytes sha nt L)"
      "rs_failure s = None"
    and ok: "tail \<noteq> [] \<Longrightarrow> attempt_ok sha nt (s\<lparr>rs_tick := Suc (rs_tick s)\<rparr>) (js ''recovery.event'') (recovery_body (length tail))"
    and t: "discard_tail sha nt (length (journal_bytes sha nt L)) (length tail) s = (res, s')"
  shows "(\<exists>L'. disk_log sha nt rid (rs_disk s') A L') \<and>
    (case res of Inl e \<Rightarrow> True
     | Inr _ \<Rightarrow> run_live sha nt rid s' A \<and> rs_failure s' = None \<and> rs_closed s' = rs_closed s \<and>
        rs_records s' = (if tail = [] then L else L @ [attempt (s\<lparr>rs_tick := Suc (rs_tick s)\<rparr>) (js ''recovery.event'') (recovery_body (length tail))]))"
proof (cases "tail = []")
  case True
  then have "res = Inr ()" "s' = s" using t by (simp_all add: discard_tail_def eret_def)
  moreover have "prefix A (map norm_record L)" using d by (simp add: disk_log_def)
  ultimately show ?thesis using d j st True by (auto simp: run_live_def)
next
  case False
  let ?s = "s\<lparr>rs_tick := Suc (rs_tick s)\<rparr>" and ?n = "length (journal_bytes sha nt L)"
  let ?cut = "?s\<lparr>rs_disk := cut_journal ?n (rs_disk s)\<rparr>"
  have dc: "disk_log sha nt rid (rs_disk ?cut) A L" "dk_journal (rs_disk ?cut) = Some (journal_bytes sha nt L)"
    using d j by (auto simp: disk_log_def cut_journal_def)
  have live: "run_live sha nt rid ?cut A" using dc st d by (auto simp: run_live_def disk_log_def)
  have att: "attempt ?cut kind body = attempt ?s kind body" for kind body by (simp add: attempt_def next_record_def)
  have ok': "attempt_ok sha nt ?cut (js ''recovery.event'') (recovery_body (length tail))"
    using ok [OF False] by (simp add: attempt_ok_def att)
  obtain r1 s1 where a: "run_append sha nt (js ''recovery.event'') (recovery_body (length tail)) ?cut = (r1, s1)" by force
  note l1 = run_append_live [OF live ok' a]
  consider f where "de_replace (rs_io s (rs_tick s)) = Not_replaced f" | f where "de_replace (rs_io s (rs_tick s)) = Replaced_unsynced f"
    | "de_replace (rs_io s (rs_tick s)) = Replaced" by (cases "de_replace (rs_io s (rs_tick s))") auto
  then show ?thesis
  proof cases
    case 3
    with t False a have "res = map_sum id (\<lambda>_. ()) r1" "s' = s1"
      by (cases r1; simp add: discard_tail_def ethen_def ebind_def next_env_def on_disk_def emod_def recovery_body_def eret_def)+
    moreover have "\<exists>L'. disk_log sha nt rid (rs_disk s1) A L'"
      using l1 live d by (cases r1) (auto simp: run_live_def disk_log_def)
    moreover have "run_live sha nt rid s1 A" if "r1 = Inr r" for r
      using l1 that live st by (auto simp: run_live_def disk_log_def intro: prefix_order.trans)
    ultimately show ?thesis using l1 False st att by (cases r1) auto
  qed (use t False dc d in \<open>auto simp: discard_tail_def ethen_def ebind_def next_env_def ethrow_def on_disk_def emod_def\<close>)
qed

text \<open>The disk has room for one more event; its tail is part of the room taken.\<close>

definition disk_room :: "run_disk \<Rightarrow> bool" where
  "disk_room d \<longleftrightarrow> int (length (case dk_journal d of None \<Rightarrow> [] | Some j \<Rightarrow> j) + 4096) \<le> max_safe"

theorem open_run_store_log:
  assumes hex: "hex_digest sha" and nt: "int_texts nt" and rid: "units16 rid"
    and io: "clock_ok io" and room: "disk_room d" and d: "disk_log sha nt rid d A L"
    and op: "open_run_store sha nt rid io d = (res, s)"
  shows "(\<exists>L'. disk_log sha nt rid (rs_disk s) A L') \<and>
    (res = Inr () \<longrightarrow> run_live sha nt rid s A \<and> rs_failure s = None \<and> \<not> rs_closed s \<and>
       (rs_records s = map norm_record L \<or> (\<exists>r. rs_records s = map norm_record L @ [r] \<and> j_kind r = js ''recovery.event'')))"
proof -
  let ?b = "run_blank rid io d"
  let ?s = "?b\<lparr>rs_tick := Suc 0\<rparr>"
  have m: "dk_manifest d = Some (manifest_of sha nt rid L)" using d by (simp add: disk_log_def)
  obtain tail where j: "dk_journal d = Some (journal_bytes sha nt L @ tail)" using d by (auto simp: disk_log_def)
  have fail: ?thesis if "rs_disk s = d" "\<exists>e. res = Inl e" using that d by auto
  show ?thesis
  proof (cases "de_mkdir (io 0)")
    case (Some f)
    with op show ?thesis
      by (intro fail) (auto simp: open_run_store_def ethen_def ebind_def next_env_def or_raise_def ethrow_def run_blank_def)
  next
    case None
    then have op1: "open_committed sha nt (manifest_of sha nt rid L) ?s = (res, s)"
      using op m by (simp add: open_run_store_def ethen_def ebind_def next_env_def or_raise_def eret_def open_journal_def
          eget_def run_blank_def)
    show ?thesis
    proof (cases "de_read (io 1) = None \<and> de_read (io 2) = None")
      case False
      have "rs_disk s = d \<and> (\<exists>e. res = Inl e)"
      proof (cases "de_read (io 1) = None")
        case True
        have lok: "log_ok sha nt L" using d by (simp add: disk_log_def)
        then have small: "int (length (journal_bytes sha nt L)) \<le> max_safe" by (simp add: log_ok_def)
        have "int (length L) \<le> max_safe" using journal_bytes_length [of L sha nt] small by linarith
        then have "read_manifest rid (manifest_of sha nt rid L) = Inr (length L, length (journal_bytes sha nt L))"
          unfolding manifest_of_def using nt rid small by (intro read_manifest_bytes)
        with op1 True False show ?thesis
          by (simp add: open_committed_def ebind_def next_env_def eget_def lift_result_def eret_def ethrow_def run_blank_def j
              numeral_2_eq_2 split: if_splits) auto
      next
        case False
        with op1 show ?thesis
          by (simp add: open_committed_def ebind_def next_env_def eget_def ethrow_def run_blank_def split: if_splits) auto
      qed
      then show ?thesis using fail by blast
    next
      case True
      let ?t = "(fold (\<lambda>r. index_record (norm_record r)) L (?s\<lparr>rs_tick := Suc (Suc (Suc 0))\<rparr>))
        \<lparr>rs_seq := length L, rs_bytes := length (journal_bytes sha nt L)\<rparr>"
      have dn: "discard_tail sha nt (length (journal_bytes sha nt L)) (length tail) ?t = (res, s)"
        using op1 open_committed_log [OF hex nt rid, of ?s A L tail] d j True
        by (simp add: run_blank_def numeral_2_eq_2)
      have lok: "log_ok sha nt L" and all: "all_writable nt L" using d by (simp_all add: disk_log_def log_ok_def)
      note nb = journal_bytes_norm [OF all, of sha]
      have ok: "attempt_ok sha nt (?t\<lparr>rs_tick := Suc (rs_tick ?t)\<rparr>) (js ''recovery.event'') (recovery_body (length tail))"
        using journal_bytes_length [of L sha nt] io room j
        by (intro recovery_attempt_ok nt hex) (simp_all add: fold_index_simps run_blank_def disk_room_def)
      have "(\<exists>L'. disk_log sha nt rid (rs_disk s) A L') \<and>
        (case res of Inl e \<Rightarrow> True
         | Inr _ \<Rightarrow> run_live sha nt rid s A \<and> rs_failure s = None \<and> rs_closed s = rs_closed ?t \<and>
            rs_records s = (if tail = [] then map norm_record L
              else map norm_record L @ [attempt (?t\<lparr>rs_tick := Suc (rs_tick ?t)\<rparr>) (js ''recovery.event'') (recovery_body (length tail))]))"
        by (rule discard_tail_live [of sha nt rid ?t A "map norm_record L" tail])
          (use disk_log_norm [OF d] j nb ok dn in \<open>simp_all add: fold_index_simps run_blank_def\<close>)
      then show ?thesis
        by (cases res) (auto simp: fold_index_simps run_blank_def attempt_def next_record_def)
    qed
  qed
qed

section \<open>Without faults\<close>

definition io_fine :: "(nat \<Rightarrow> disk_env) \<Rightarrow> bool" where
  "io_fine io \<longleftrightarrow> (\<forall>k. de_mkdir (io k) = None \<and> de_read (io k) = None \<and> de_journal (io k) = Journal_flushed \<and>
     de_replace (io k) = Replaced)"

lemma run_append_fine:
  assumes "rs_failure s = None" and "\<not> rs_closed s" and "de_journal (rs_io s (rs_tick s)) = Journal_flushed"
    and "de_replace (rs_io s (rs_tick s)) = Replaced"
  shows "\<exists>s'. run_append sha nt kind body s = (Inr (attempt s kind body), s')"
  using assms
  by (simp add: run_append_def ethen_def ebind_def assert_writable_def next_env_def write_frame_def write_manifest_def Let_def
      attempt_def next_record_def)

theorem open_succeeds:
  assumes hex: "hex_digest sha" and nt: "int_texts nt" and rid: "units16 rid"
    and io: "clock_ok io" "io_fine io" and room: "disk_room d" and d: "disk_log sha nt rid d A L"
  shows "\<exists>s. open_run_store sha nt rid io d = (Inr (), s)"
proof -
  let ?s = "(run_blank rid io d)\<lparr>rs_tick := Suc 0\<rparr>"
  have m: "dk_manifest d = Some (manifest_of sha nt rid L)" using d by (simp add: disk_log_def)
  obtain tail where j: "dk_journal d = Some (journal_bytes sha nt L @ tail)" using d by (auto simp: disk_log_def)
  let ?t = "(fold (\<lambda>r. index_record (norm_record r)) L (?s\<lparr>rs_tick := Suc (Suc (Suc 0))\<rparr>))
        \<lparr>rs_seq := length L, rs_bytes := length (journal_bytes sha nt L)\<rparr>"
  have "open_run_store sha nt rid io d = discard_tail sha nt (length (journal_bytes sha nt L)) (length tail) ?t"
    using open_committed_log [OF hex nt rid, of ?s A L tail] d j io(2) m
    by (simp add: open_run_store_def ethen_def ebind_def next_env_def or_raise_def eret_def open_journal_def
        eget_def run_blank_def io_fine_def)
  moreover have "\<exists>s. discard_tail sha nt (length (journal_bytes sha nt L)) (length tail) ?t = (Inr (), s)"
  proof (cases "tail = []")
    case False
    let ?c = "?t\<lparr>rs_tick := Suc (rs_tick ?t), rs_disk := cut_journal (length (journal_bytes sha nt L)) (rs_disk ?t)\<rparr>"
    obtain s' where "run_append sha nt (js ''recovery.event'') (recovery_body (length tail)) ?c
        = (Inr (attempt ?c (js ''recovery.event'') (recovery_body (length tail))), s')"
      using run_append_fine [of ?c sha nt "js ''recovery.event''" "recovery_body (length tail)"] io(2)
      by (auto simp: io_fine_def fold_index_simps run_blank_def)
    then show ?thesis
      using io(2) False
      by (simp add: discard_tail_def ethen_def ebind_def next_env_def io_fine_def fold_index_simps run_blank_def
          on_disk_def emod_def recovery_body_def eret_def)
  qed (simp add: discard_tail_def eret_def)
  ultimately show ?thesis by simp
qed

text \<open>An opening that finds no tail.\<close>

lemma open_clean:
  assumes hex: "hex_digest sha" and nt: "int_texts nt" and rid: "units16 rid"
    and io: "de_mkdir (io 0) = None" "de_read (io 1) = None" "de_read (io 2) = None"
    and d: "disk_log sha nt rid d A L" and j: "dk_journal d = Some (journal_bytes sha nt L)"
  shows "open_run_store sha nt rid io d =
    (Inr (), (fold (\<lambda>r. index_record (norm_record r)) L ((run_blank rid io d)\<lparr>rs_tick := 3\<rparr>))
        \<lparr>rs_seq := length L, rs_bytes := length (journal_bytes sha nt L)\<rparr>)"
proof -
  let ?s = "(run_blank rid io d)\<lparr>rs_tick := Suc 0\<rparr>"
  have m: "dk_manifest d = Some (manifest_of sha nt rid L)" using d by (simp add: disk_log_def)
  show ?thesis
    using open_committed_log [OF hex nt rid, of ?s A L "[]"] d j io m
    by (simp add: open_run_store_def ethen_def ebind_def next_env_def or_raise_def eret_def open_journal_def
        eget_def run_blank_def discard_tail_def numeral_2_eq_2 numeral_3_eq_3)
qed

end
