(* ===== verification/RunWorld.thy ===== *)
theory RunWorld
  imports RunLog
begin

text \<open>
  The store of one session over the life of the machine: processes open it, append, fail, die, and
  the power goes. \<open>A\<close> is what \<open>append\<close> has returned so far with everything before it; a record
  read back has lost its undefined properties (\<open>norm_record\<close>).
\<close>

section \<open>Losing power\<close>

text \<open>
  The manifest is the current one or an older one whose replacement was not flushed, the journal
  keeps its flushed bytes and ends in anything, and so do the directories.
\<close>

definition lose_files :: "agent_files \<Rightarrow> agent_files \<Rightarrow> agent_files" where
  "lose_files extra fs =
     (let kept = filter (\<lambda>x. snd (snd x)) fs in kept @ filter (\<lambda>x. fst x \<notin> fst ` set kept) extra)"

definition lose_power :: "nat \<Rightarrow> nat list \<Rightarrow> agent_files \<Rightarrow> agent_files \<Rightarrow> run_disk \<Rightarrow> run_disk" where
  "lose_power n junk extra_c extra_r d =
     (let j = map_option (\<lambda>j. take (dk_synced d) j @ junk) (dk_journal d) in
      d\<lparr>dk_journal := j, dk_synced := (case j of None \<Rightarrow> 0 | Some j \<Rightarrow> length j),
        dk_manifest := (if n < length (dk_prior d) then dk_prior d ! n else dk_manifest d), dk_prior := [],
        dk_checkpoints := lose_files extra_c (dk_checkpoints d), dk_results := lose_files extra_r (dk_results d)\<rparr>)"

section \<open>Steps\<close>

datatype run_world = Down run_disk "journal_record list" | Live run_store "journal_record list"

text \<open>
  The files of checkpoints and results are written without touching the journal; the two appends
  of \<open>saveCheckpoint\<close> and the one of \<open>recordCommand\<close> are steps of their own.
\<close>

definition only_files :: "run_store \<Rightarrow> run_store \<Rightarrow> bool" where
  "only_files s s' \<longleftrightarrow>
     rs_disk s' = (rs_disk s)\<lparr>dk_checkpoints := dk_checkpoints (rs_disk s'), dk_results := dk_results (rs_disk s')\<rparr> \<and>
     rs_root s' = rs_root s \<and> rs_seq s' = rs_seq s \<and> rs_bytes s' = rs_bytes s \<and> rs_records s' = rs_records s \<and>
     rs_failure s' = rs_failure s"

inductive run_step ::
  "(nat list \<Rightarrow> jstring) \<Rightarrow> (js_num \<Rightarrow> jstring) \<Rightarrow> jstring \<Rightarrow> run_world \<Rightarrow> run_world \<Rightarrow> bool"
  for sha nt rid where
  Start: "open_run_store sha nt rid io d = (Inr (), s) \<Longrightarrow> clock_ok io \<Longrightarrow> disk_room d \<Longrightarrow>
    run_step sha nt rid (Down d A) (Live s A)"
| Start_failed: "open_run_store sha nt rid io d = (Inl e, s) \<Longrightarrow> clock_ok io \<Longrightarrow> disk_room d \<Longrightarrow>
    run_step sha nt rid (Down d A) (Down (rs_disk s) A)"
| Acknowledged: "run_append sha nt kind body s = (Inr r, s') \<Longrightarrow> attempt_ok sha nt s kind body \<Longrightarrow>
    run_step sha nt rid (Live s A) (Live s' (map norm_record (rs_records s')))"
| Refused: "run_append sha nt kind body s = (Inl e, s') \<Longrightarrow> attempt_ok sha nt s kind body \<Longrightarrow>
    run_step sha nt rid (Live s A) (Live s' A)"
| Other: "only_files s s' \<Longrightarrow> run_step sha nt rid (Live s A) (Live s' A)"
| Die: "run_step sha nt rid (Live s A) (Down (rs_disk s) A)"
| Power: "length j + length junk \<le> nat max_safe - 4096 \<Longrightarrow> dk_journal d = Some j \<Longrightarrow>
    run_step sha nt rid (Down d A) (Down (lose_power n junk extra_c extra_r d) A)"

text \<open>A directory as the first opening leaves it.\<close>

definition fresh_disk :: "(js_num \<Rightarrow> jstring) \<Rightarrow> jstring \<Rightarrow> run_disk" where
  "fresh_disk nt rid =
     \<lparr>dk_journal = Some [], dk_synced = 0, dk_kept = True, dk_manifest = Some (manifest_bytes nt rid 0 0), dk_prior = [],
      dk_checkpoints = [], dk_results = []\<rparr>"

abbreviation run_reach where
  "run_reach sha nt rid w \<equiv> (run_step sha nt rid)\<^sup>*\<^sup>* (Down (fresh_disk nt rid) []) w"

definition world_ok :: "(nat list \<Rightarrow> jstring) \<Rightarrow> (js_num \<Rightarrow> jstring) \<Rightarrow> jstring \<Rightarrow> run_world \<Rightarrow> bool" where
  "world_ok sha nt rid w =
     (case w of Down d A \<Rightarrow> \<exists>L. disk_log sha nt rid d A L | Live s A \<Rightarrow> run_live sha nt rid s A)"

lemma lose_power_log:
  assumes "disk_log sha nt rid d A L"
  shows "\<exists>k. length A \<le> k \<and> k \<le> length L \<and> disk_log sha nt rid (lose_power n junk ec er d) A (take k L)"
proof -
  obtain k where k: "length A \<le> k" "k \<le> length L"
      "dk_manifest (lose_power n junk ec er d) = Some (manifest_of sha nt rid (take k L))"
  proof (cases "n < length (dk_prior d)")
    case True
    then have "dk_prior d ! n \<in> set (dk_prior d)" by simp
    then obtain k where "length A \<le> k" "k \<le> length L" "dk_prior d ! n = Some (manifest_of sha nt rid (take k L))"
      using assms by (auto simp: disk_log_def)
    with True that [of k] show ?thesis by (simp add: lose_power_def Let_def)
  next
    case False
    have "length A \<le> length L" using assms by (auto simp: disk_log_def dest: prefix_length_le)
    with assms False that [of "length L"] show ?thesis by (simp add: disk_log_def lose_power_def Let_def)
  qed
  obtain tail where t: "dk_journal d = Some (journal_bytes sha nt L @ tail)" using assms by (auto simp: disk_log_def)
  have split: "journal_bytes sha nt L = journal_bytes sha nt (take k L) @ journal_bytes sha nt (drop k L)"
    by (metis append_take_drop_id journal_bytes_simps(2))
  have synced: "length (journal_bytes sha nt L) \<le> dk_synced d" using assms by (simp add: disk_log_def)
  have "\<exists>tail'. dk_journal (lose_power n junk ec er d) = Some (journal_bytes sha nt (take k L) @ tail')"
    using t synced split by (auto simp: lose_power_def Let_def)
  moreover have "length (journal_bytes sha nt (take k L)) \<le> dk_synced (lose_power n junk ec er d)"
    using t synced split by (auto simp: lose_power_def Let_def)
  moreover have "prefix A (map norm_record (take k L))"
  proof -
    have "prefix A (map norm_record L)" using assms by (simp add: disk_log_def)
    then show ?thesis using k(1,2) by (simp add: take_map [symmetric] prefix_def) (metis append_eq_conv_conj length_map take_all_iff take_append)
  qed
  ultimately have "disk_log sha nt rid (lose_power n junk ec er d) A (take k L)"
    using assms k(3) log_ok_take [of sha nt L k] by (simp add: disk_log_def lose_power_def Let_def)
  with k show ?thesis by blast
qed

lemma files_log: "disk_log sha nt rid (d\<lparr>dk_checkpoints := c, dk_results := r\<rparr>) A L \<longleftrightarrow> disk_log sha nt rid d A L"
  by (simp add: disk_log_def)

lemma only_files_live: "only_files s s' \<Longrightarrow> run_live sha nt rid s A \<Longrightarrow> run_live sha nt rid s' A"
proof -
  assume o: "only_files s s'" and l: "run_live sha nt rid s A"
  have "disk_log sha nt rid (rs_disk s') A L \<longleftrightarrow> disk_log sha nt rid (rs_disk s) A L" for L
    using o files_log unfolding only_files_def by metis
  moreover have "dk_journal (rs_disk s') = dk_journal (rs_disk s)"
    using o unfolding only_files_def by (metis run_disk.simps(8,9,15,16) run_disk.surjective run_disk.update_convs(6,7) run_disk.select_convs(1))
  ultimately show ?thesis using o l by (simp add: run_live_def only_files_def)
qed

theorem world_step:
  assumes "run_step sha nt rid w w'" and "world_ok sha nt rid w"
    and env: "hex_digest sha" "int_texts nt" "units16 rid"
  shows "world_ok sha nt rid w'"
  using assms(1,2)
proof cases
  case (Start io d s A)
  then show ?thesis using assms(2) open_run_store_log [OF env] by (fastforce simp: world_ok_def)
next
  case (Start_failed io d e s A)
  then show ?thesis using assms(2) open_run_store_log [OF env] by (fastforce simp: world_ok_def)
next
  case (Acknowledged kind body s r s' A)
  then show ?thesis using assms(2) run_append_live by (fastforce simp: world_ok_def)
next
  case (Refused kind body s e s' A)
  then show ?thesis using assms(2) run_append_live by (fastforce simp: world_ok_def)
next
  case (Other s s' A)
  then show ?thesis using assms(2) only_files_live by (simp add: world_ok_def)
next
  case (Die s A)
  then show ?thesis using assms(2) by (auto simp: world_ok_def run_live_def)
next
  case (Power j junk d n extra_c extra_r A)
  then show ?thesis using assms(2) lose_power_log by (fastforce simp: world_ok_def)
qed

lemma fresh_log: "units16 rid \<Longrightarrow> disk_log sha nt rid (fresh_disk nt rid) [] []"
  by (simp add: disk_log_def fresh_disk_def log_ok_def manifest_of_def max_safe_def)

lemma world_reach:
  assumes "run_reach sha nt rid w" and env: "hex_digest sha" "int_texts nt" "units16 rid"
  shows "world_ok sha nt rid w"
  using assms(1)
proof (induction rule: rtranclp_induct)
  case base
  then show ?case using fresh_log env(3) by (auto simp: world_ok_def)
next
  case (step w w')
  then show ?case using world_step env by blast
qed

text \<open>
  C5. Whatever appends fail at whatever point, however often the process dies or the power goes, a
  store that opens again holds every record \<open>append\<close> ever returned, in order and first, and its
  records are numbered without gaps.
\<close>

theorem acknowledged_records_survive:
  assumes "hex_digest sha" and "int_texts nt" and "units16 rid" and "run_reach sha nt rid (Live s A)"
  shows "prefix A (map norm_record (rs_records s)) \<and> map j_seq (rs_records s) = map int [1..<Suc (length (rs_records s))]"
proof -
  have l: "run_live sha nt rid s A" using world_reach [OF assms(4,1-3)] by (simp add: world_ok_def)
  then have "map j_seq (rs_records s) = map int [1..<Suc (length (rs_records s))]"
    using run_live_log unfolding log_ok_def by blast
  with l show ?thesis by (simp add: run_live_def)
qed

text \<open>
  C6. A session whose records all fit a frame of 64 MiB can always be reopened: whatever appends
  failed, processes died or power was lost, an opening of its store that meets no fault succeeds
  and holds everything acknowledged, as long as the length of the journal stays a safe integer and
  the clock gives texts. (One record beyond the 64 MiB, which \<open>append\<close> takes, makes every
  later opening fail: \<open>oversized_record_blocks_reopening\<close>.)
\<close>

theorem reopen_succeeds:
  assumes "hex_digest sha" and "int_texts nt" and "units16 rid" and "run_reach sha nt rid (Down d A)"
    and "clock_ok io" and "io_fine io" and "disk_room d"
  shows "\<exists>s. open_run_store sha nt rid io d = (Inr (), s) \<and> rs_failure s = None \<and> prefix A (map norm_record (rs_records s))"
proof -
  obtain L where d: "disk_log sha nt rid d A L" using world_reach [OF assms(4,1-3)] by (auto simp: world_ok_def)
  obtain s where s: "open_run_store sha nt rid io d = (Inr (), s)" using open_succeeds [OF assms(1-3,5-7) d] by blast
  from open_run_store_log [OF assms(1-3,5,7) d s] s show ?thesis by (simp add: run_live_def)
qed

section \<open>A record that an opening showed may be gone after a loss of power\<close>

definition fine_env :: "jstring \<Rightarrow> disk_env" where
  "fine_env now = \<lparr>de_now = now, de_uuid = [], de_journal = Journal_flushed, de_replace = Replaced, de_mkdir = None,
     de_read = None, de_list = None, de_remove = None\<rparr>"

definition fine_io :: "jstring \<Rightarrow> nat \<Rightarrow> disk_env" where
  "fine_io now = (\<lambda>_. fine_env now)"

text \<open>The fourth step of the process is an append whose manifest is renamed but not flushed.\<close>

definition unsynced_io :: "jstring \<Rightarrow> nat \<Rightarrow> disk_env" where
  "unsynced_io now = (fine_io now)(3 := (fine_env now)\<lparr>de_replace := Replaced_unsynced (Io_fault None [])\<rparr>)"

lemma fine_io_fine: "io_fine (fine_io now)" "plain_ascii now \<Longrightarrow> length now \<le> 30 \<Longrightarrow> clock_ok (fine_io now)"
    "plain_ascii now \<Longrightarrow> length now \<le> 30 \<Longrightarrow> clock_ok (unsynced_io now)"
  by (simp_all add: io_fine_def clock_ok_def fine_io_def fine_env_def unsynced_io_def)

text \<open>
  C34. A record whose append failed between the renaming of the manifest and the flush of its
  directory is shown by the next opening as committed, and a loss of power makes it disappear again.
\<close>

theorem shown_record_can_vanish:
  assumes env: "hex_digest sha" "int_texts nt" "units16 rid"
    and r: "record_ok nt r" "r = \<lparr>j_seq = 1, j_kind = kind, j_at = JStr now, j_body = body\<rparr>" "kind \<noteq> js ''recovery.event''"
    and now: "plain_ascii now" "length now \<le> 30" and room: "int (length (frame sha nt r) + 4096) \<le> max_safe"
  shows "\<exists>s s'. run_reach sha nt rid (Live s []) \<and> rs_failure s = None \<and> rs_records s = [norm_record r] \<and>
    (run_step sha nt rid)\<^sup>*\<^sup>* (Live s []) (Live s' []) \<and> rs_failure s' = None \<and> norm_record r \<notin> set (rs_records s')"
proof -
  let ?step = "run_step sha nt rid"
  let ?io = "fine_io now"
  define d0 where "d0 = fresh_disk nt rid"
  define m0 where "m0 = manifest_of sha nt rid []"
  have d0: "disk_log sha nt rid d0 [] []" "dk_journal d0 = Some []" "disk_room d0"
    using fresh_log [OF env(3)] by (simp_all add: d0_def fresh_disk_def disk_room_def max_safe_def)
  define s0 where "s0 = (run_blank rid (unsynced_io now) d0)\<lparr>rs_tick := 3\<rparr>"
  have op0: "open_run_store sha nt rid (unsynced_io now) d0 = (Inr (), s0)"
    using open_clean [OF env, of "unsynced_io now" d0 "[]" "[]"] d0(1,2)
    by (simp add: unsynced_io_def fine_io_def fine_env_def s0_def run_blank_def)
  have st0: "?step (Down d0 []) (Live s0 [])" by (rule Start [OF op0 fine_io_fine(3) [OF now] d0(3)])
  have att: "attempt s0 kind body = r"
    by (simp add: attempt_def next_record_def s0_def run_blank_def unsynced_io_def fine_env_def r(2))
  have ok: "attempt_ok sha nt s0 kind body"
    using r(1) room by (simp add: attempt_ok_def att) (simp add: s0_def run_blank_def)
  obtain res s1 where ap: "run_append sha nt kind body s0 = (res, s1)" by force
  define d1 where "d1 = rs_disk s1"
  have "\<exists>e. res = Inl e" and d1: "d1 = d0\<lparr>dk_journal := Some (frame sha nt r), dk_synced := length (frame sha nt r),
      dk_manifest := Some (manifest_of sha nt rid [r]), dk_prior := [Some m0]\<rparr>"
    using ap d0(2) unfolding d1_def
    by (auto simp: run_append_def ethen_def ebind_def assert_writable_def next_env_def s0_def run_blank_def unsynced_io_def
        fine_env_def Let_def next_record_def r(2) write_frame_def write_manifest_def journal_add_def journal_sync_def
        manifest_of_def d0_def fresh_disk_def m0_def)
  then obtain e where "res = Inl e" by blast
  then have st1: "?step (Live s0 []) (Live s1 [])" using Refused ap ok by simp
  have st2: "?step (Live s1 []) (Down d1 [])" unfolding d1_def by (rule Die)
  have lok: "log_ok sha nt [r]" using r(1,2) room by (simp add: log_ok_def record_ok_def)
  have l1: "disk_log sha nt rid d1 [] [r]"
    using lok d0(1) by (simp add: d1 disk_log_def m0_def exI [of _ 0])
  have room1: "disk_room d1" using room by (simp add: disk_room_def d1)
  define s2 where "s2 = (index_record (norm_record r) ((run_blank rid ?io d1)\<lparr>rs_tick := 3\<rparr>))
    \<lparr>rs_seq := 1, rs_bytes := length (frame sha nt r)\<rparr>"
  have op2: "open_run_store sha nt rid ?io d1 = (Inr (), s2)"
    using open_clean [OF env, of ?io d1 "[]" "[r]"] l1 by (simp add: fine_io_def fine_env_def s2_def d1)
  have st3: "?step (Down d1 []) (Live s2 [])" by (rule Start [OF op2 fine_io_fine(2) [OF now] room1])
  have s2: "rs_failure s2 = None" "rs_records s2 = [norm_record r]" "rs_disk s2 = d1" by (simp_all add: s2_def run_blank_def)
  define d3 where "d3 = lose_power 0 [] [] [] d1"
  have st4: "?step (Live s2 []) (Down d1 [])" using Die [of sha nt rid s2 "[]"] s2(3) by simp
  have st5: "?step (Down d1 []) (Down d3 [])"
    unfolding d3_def by (rule Power [of "frame sha nt r"]) (use room in \<open>simp_all add: d1 max_safe_def\<close>)
  have l3: "disk_log sha nt rid d3 [] []"
    using lok d0(1) by (auto simp: d3_def d1 disk_log_def lose_power_def Let_def m0_def)
  have room3: "disk_room d3" using room by (simp add: disk_room_def d3_def d1 lose_power_def Let_def)
  obtain s4 where op4: "open_run_store sha nt rid ?io d3 = (Inr (), s4)"
    using open_succeeds [OF env fine_io_fine(2) [OF now] fine_io_fine(1) room3 l3] by blast
  have st6: "?step (Down d3 []) (Live s4 [])" by (rule Start [OF op4 fine_io_fine(2) [OF now] room3])
  have s4: "rs_failure s4 = None" "rs_records s4 = [] \<or> (\<exists>x. rs_records s4 = [x] \<and> j_kind x = js ''recovery.event'')"
    using open_run_store_log [OF env fine_io_fine(2) [OF now] room3 l3 op4] by auto
  have "run_reach sha nt rid (Live s2 [])"
    using st0 st1 st2 st3 unfolding d0_def by (meson rtranclp.rtrancl_into_rtrancl rtranclp.rtrancl_refl)
  moreover have "?step\<^sup>*\<^sup>* (Live s2 []) (Live s4 [])"
    using st4 st5 st6 by (meson rtranclp.rtrancl_into_rtrancl rtranclp.rtrancl_refl)
  moreover have "norm_record r \<notin> set (rs_records s4)" using s4(2) r(2,3) by (auto simp: norm_record_def)
  ultimately show ?thesis using s2 s4(1) by blast
qed

section \<open>A record of more than 64 MiB closes the store for good\<close>

lemma load_lines_append:
  "load_lines sha (xs @ ys) s = (case load_lines sha xs s of (Inl e, t) \<Rightarrow> (Inl e, t) | (Inr _, t) \<Rightarrow> load_lines sha ys t)"
proof (induction xs arbitrary: s)
  case (Cons x xs)
  show ?case
    by (cases "parse_frame sha x") (simp_all add: ebind_def eget_def ethrow_def ethen_def emod_def Cons.IH)
qed (simp add: eret_def)

text \<open>
  A record whose JSON takes more than 64 MiB is appended and acknowledged like any other,
  and no later opening of the store succeeds, even when it meets no fault.
\<close>

theorem oversized_record_blocks_reopening:
  assumes env: "hex_digest sha" "int_texts nt" "units16 rid"
    and s: "run_live sha nt rid s A" "rs_failure s = None" "\<not> rs_closed s"
    and io: "de_journal (rs_io s (rs_tick s)) = Journal_flushed" "de_replace (rs_io s (rs_tick s)) = Replaced"
    and r: "r = attempt s kind body" "record_writable nt r" "max_frame < utf8_length (json_text nt (record_json r))"
    and room: "int (rs_bytes s + length (frame sha nt r)) \<le> max_safe"
  shows "\<exists>s'. run_append sha nt kind body s = (Inr r, s') \<and>
    (\<forall>io. io_fine io \<longrightarrow> fst (open_run_store sha nt rid io (rs_disk s')) =
       Inl (Recovery_corrupt (Bad_frame (js ''malformed frame''))))"
proof -
  let ?R = "rs_records s"
  have lok: "log_ok sha nt ?R" by (rule run_live_log [OF s(1)])
  have st: "rs_root s = rid" "rs_seq s = length ?R" "rs_bytes s = length (journal_bytes sha nt ?R)"
      "dk_journal (rs_disk s) = Some (journal_bytes sha nt ?R)"
    using s by (auto simp: run_live_def)
  obtain s' where ap: "run_append sha nt kind body s = (Inr r, s')"
    using run_append_fine [OF s(2,3) io] r(1) by blast
  define d where "d = rs_disk s'"
  have d: "dk_journal d = Some (journal_bytes sha nt (?R @ [r]))" "dk_manifest d = Some (manifest_of sha nt rid (?R @ [r]))"
    using ap s(2,3) io st r(1) unfolding d_def
    by (auto simp: run_append_def ethen_def ebind_def assert_writable_def next_env_def write_frame_def write_manifest_def Let_def
        attempt_def next_record_def journal_add_def journal_sync_def manifest_of_def)
  have w: "writables nt (?R @ [r])" using lok r(2) by (auto simp: log_ok_def dest: all_writable_writables)
  have seqs: "map j_seq ?R = map int [Suc 0..<Suc (length ?R)]" using lok by (simp add: log_ok_def)
  have all: "all_writable nt ?R" using lok by (simp add: log_ok_def)
  have small: "int (length (journal_bytes sha nt (?R @ [r]))) \<le> max_safe" using room st by simp
  then have "int (length (?R @ [r])) \<le> max_safe" using journal_bytes_length [of "?R @ [r]" sha nt] by linarith
  then have m: "read_manifest rid (manifest_of sha nt rid (?R @ [r])) = Inr (length (?R @ [r]), length (journal_bytes sha nt (?R @ [r])))"
    unfolding manifest_of_def using small by (intro read_manifest_bytes env)
  have t: "utf8_decode (journal_bytes sha nt (?R @ [r])) = journal_text sha nt (?R @ [r])" by (rule journal_decode [OF env(1) w])
  have ne: "journal_text sha nt (?R @ [r]) \<noteq> [] \<and> last (journal_text sha nt (?R @ [r])) = 10"
    by (simp add: journal_text_def)
  have len: "utf8_length (json_text nt (record_json r)) < 2 ^ 53"
  proof -
    have "well_paired (frame_line sha nt r)" using frame_line_clean [OF env(1) r(2)] by (simp add: clean_def)
    then have "length (frame sha nt r) = length (utf8_encode (frame_head sha (json_text nt (record_json r)))) +
        utf8_length (json_text nt (record_json r)) + length (utf8_encode [10])"
      using frame_head_clean [OF env(1), of "json_text nt (record_json r)"]
      by (simp add: frame_def utf8_encode_append) (simp add: frame_line_def Let_def utf8_encode_append clean_def length_utf8_encode)
    with room show ?thesis by (simp add: max_safe_def)
  qed
  have torn: "parse_frame sha (frame_line sha nt r) = Frame_torn" by (rule parse_oversized_frame [OF env(1) r(3) len])
  have "fst (open_run_store sha nt rid io d) = Inl (Recovery_corrupt (Bad_frame (js ''malformed frame'')))" if "io_fine io" for io
  proof -
    let ?s = "(run_blank rid io d)\<lparr>rs_tick := Suc (Suc (Suc 0))\<rparr>"
    have "load_lines sha (map (frame_line sha nt) ?R) ?s = (Inr (), fold (\<lambda>r. index_record (norm_record r)) ?R ?s)"
      by (rule load_lines_log [OF env(1) all]) (use seqs in \<open>simp add: run_blank_def del: upt_Suc\<close>)
    then have "load_lines sha (journal_lines (journal_text sha nt (?R @ [r]))) ?s =
        (Inl (Recovery_corrupt (Bad_frame (js ''malformed frame''))), fold (\<lambda>r. index_record (norm_record r)) ?R ?s)"
      unfolding journal_lines_text [OF env(1) w]
      by (simp add: load_lines_append ebind_def eget_def torn ethrow_def)
    then show ?thesis
      using that d ne
      by (simp add: open_run_store_def ethen_def ebind_def next_env_def or_raise_def eret_def open_journal_def eget_def
          run_blank_def io_fine_def open_committed_def m lift_result_def t Let_def del: journal_bytes_simps)
  qed
  with ap show ?thesis unfolding d_def by blast
qed

section \<open>A concrete session\<close>

definition sample_digest :: "nat list \<Rightarrow> jstring" where
  "sample_digest bs = replicate 64 48"

definition sample_now :: jstring where
  "sample_now = js ''2026-01-01T00:00:00.000Z''"

definition sample_record :: journal_record where
  "sample_record = \<lparr>j_seq = 1, j_kind = js ''task.queued'', j_at = JStr sample_now, j_body = JObj []\<rparr>"

lemma sample_env: "hex_digest sample_digest" "int_texts int_number" "units16 (js ''root'')"
    "plain_ascii sample_now" "length sample_now \<le> 30"
proof -
  show "hex_digest sample_digest" unfolding hex_digest_def sample_digest_def list_all_iff by (auto simp: is_digit_def)
  show "int_texts int_number" by (simp add: int_texts_def int_number_def)
qed (simp_all add: units16_def plain_ascii_def sample_now_def js_def)

lemma sample_text:
  "json_text int_number (record_json sample_record) =
    [123, 34] @ js ''seq'' @ [34, 58, 49, 44, 34] @ js ''kind'' @ [34, 58, 34] @ js ''task.queued'' @ [34, 44, 34]
      @ js ''at'' @ [34, 58, 34] @ sample_now @ [34, 44, 34] @ js ''body'' @ [34, 58, 123, 125, 125]"
proof -
  have plain: "plain_ascii (js ''seq'')" "plain_ascii (js ''kind'')" "plain_ascii (js ''at'')" "plain_ascii (js ''body'')"
    "plain_ascii (js ''task.queued'')" by (simp_all add: plain_ascii_def js_def)
  have "int_number (Fin 1) = [49]" by (simp add: int_number_def int_text_def digits_of.simps)
  then show ?thesis
    by (simp add: sample_record_def record_json_def json_string_plain plain sample_env(4) comma_separated_def)
qed

lemma sample_record_ok: "record_ok int_number sample_record"
proof -
  have "units16 sample_now" using plain_units [OF sample_env(4)] by simp
  moreover have "number_reads_back int_number (Fin 1)" using int_texts_nat(2) [OF sample_env(2), of 1] by (simp add: max_safe_def)
  ultimately have "json_writable int_number (record_json sample_record)"
    by (simp add: sample_record_def record_json_def units16_def js_def)
  moreover have "list_all (\<lambda>c. c < 128) (json_text int_number (record_json sample_record))"
    unfolding sample_text using plain_units [OF sample_env(4)] by (simp add: js_def)
  then have "utf8_length (json_text int_number (record_json sample_record)) \<le> max_frame"
    unfolding sample_text by (simp add: utf8_length_ascii max_frame_def sample_now_def)
  ultimately show ?thesis by (simp add: record_ok_def record_writable_def frame_fits_def) (simp add: sample_record_def)
qed

lemma sample_frame: "length (frame sample_digest int_number sample_record) \<le> 200"
proof -
  let ?t = "json_text int_number (record_json sample_record)"
  have a: "list_all (\<lambda>c. c < 128) ?t" unfolding sample_text using plain_units [OF sample_env(4)] by (simp add: js_def)
  have l: "length ?t = 72" unfolding sample_text by (simp add: sample_now_def)
  have "digits_of 72 = [55, 50]" by (simp add: digits_of.simps)
  then have h: "frame_head sample_digest ?t = [55, 50, 32] @ replicate 16 48 @ [32]"
    using utf8_length_ascii [OF a] l by (simp add: frame_head_def Let_def checksum_def sample_digest_def length_utf8_encode)
  have "list_all (\<lambda>c. c < 128) (frame_line sample_digest int_number sample_record @ [10])"
    using a by (auto simp: frame_line_def Let_def h list_all_iff)
  then have "length (frame sample_digest int_number sample_record)
      = length (frame_line sample_digest int_number sample_record @ [10])"
    unfolding frame_def length_utf8_encode by (rule utf8_length_ascii)
  then show ?thesis by (simp add: frame_line_def Let_def h l)
qed

text \<open>A session without faults that has acknowledged one record.\<close>

definition sample_store :: run_store where
  "sample_store = snd (open_run_store sample_digest int_number (js ''root'') (fine_io sample_now)
     (fresh_disk int_number (js ''root'')))"

definition sample_appended :: run_store where
  "sample_appended = snd (run_append sample_digest int_number (js ''task.queued'') (JObj []) sample_store)"

lemma sample_opened:
  "open_run_store sample_digest int_number (js ''root'') (fine_io sample_now) (fresh_disk int_number (js ''root'')) = (Inr (), sample_store)"
  "sample_store = (run_blank (js ''root'') (fine_io sample_now) (fresh_disk int_number (js ''root'')))\<lparr>rs_tick := 3\<rparr>"
  using open_clean [OF sample_env(1-3), of "fine_io sample_now" "fresh_disk int_number (js ''root'')" "[]" "[]"]
    fresh_log [OF sample_env(3), of sample_digest int_number]
  by (simp_all add: sample_store_def fine_io_def fine_env_def run_blank_def fresh_disk_def)

lemma sample_attempt: "attempt sample_store (js ''task.queued'') (JObj []) = sample_record"
  by (simp add: attempt_def next_record_def sample_opened(2) run_blank_def fine_io_def fine_env_def sample_record_def)

lemma sample_session:
  "run_reach sample_digest int_number (js ''root'') (Live sample_appended [sample_record])"
  "rs_records sample_appended = [sample_record]" "rs_failure sample_appended = None" "\<not> rs_closed sample_appended"
proof -
  have "run_step sample_digest int_number (js ''root'') (Down (fresh_disk int_number (js ''root'')) []) (Live sample_store [])"
    by (rule Start [OF sample_opened(1) fine_io_fine(2) [OF sample_env(4,5)]]) (simp add: disk_room_def fresh_disk_def max_safe_def)
  then have r0: "run_reach sample_digest int_number (js ''root'') (Live sample_store [])" by blast
  then have l0: "run_live sample_digest int_number (js ''root'') sample_store []"
    using world_reach [OF r0 sample_env(1-3)] by (simp add: world_ok_def)
  have ok: "attempt_ok sample_digest int_number sample_store (js ''task.queued'') (JObj [])"
    using sample_record_ok sample_frame
    by (simp add: attempt_ok_def sample_attempt) (simp add: sample_opened(2) run_blank_def max_safe_def)
  obtain s' where "run_append sample_digest int_number (js ''task.queued'') (JObj []) sample_store = (Inr sample_record, s')"
    using run_append_fine [of sample_store sample_digest int_number "js ''task.queued''" "JObj []"] sample_attempt
    by (auto simp: sample_opened(2) run_blank_def fine_io_def fine_env_def)
  then have ap: "run_append sample_digest int_number (js ''task.queued'') (JObj []) sample_store = (Inr sample_record, sample_appended)"
    by (simp add: sample_appended_def)
  note l1 = run_append_live [OF l0 ok ap]
  then show rec: "rs_records sample_appended = [sample_record]" and "rs_failure sample_appended = None" "\<not> rs_closed sample_appended"
    by (simp_all add: sample_opened(2) run_blank_def)
  have "norm_record sample_record = sample_record" by (simp add: norm_record_def sample_record_def)
  then show "run_reach sample_digest int_number (js ''root'') (Live sample_appended [sample_record])"
    using Acknowledged [OF ap ok, of "js ''root''" "[]"] r0 rec by (simp add: rtranclp.rtrancl_into_rtrancl)
qed

text \<open>A body of 64 MiB and a few characters more.\<close>

definition big_body :: js_value where
  "big_body = JObj [(js ''text'', JStr (replicate max_frame 97))]"

definition big_record :: journal_record where
  "big_record = \<lparr>j_seq = 1, j_kind = js ''task.queued'', j_at = JStr sample_now, j_body = big_body\<rparr>"

lemma big_record_facts:
  "attempt sample_store (js ''task.queued'') big_body = big_record" "record_writable int_number big_record"
  "max_frame < utf8_length (json_text int_number (record_json big_record))"
  "int (length (frame sample_digest int_number big_record)) \<le> max_safe"
proof -
  show "attempt sample_store (js ''task.queued'') big_body = big_record"
    by (simp add: attempt_def next_record_def sample_opened(2) run_blank_def fine_io_def fine_env_def big_record_def)
  let ?a = "replicate max_frame (97::nat)" and ?t = "json_text int_number (record_json big_record)"
  have plain: "plain_ascii (js ''seq'')" "plain_ascii (js ''kind'')" "plain_ascii (js ''at'')" "plain_ascii (js ''body'')"
    "plain_ascii (js ''task.queued'')" "plain_ascii (js ''text'')" "plain_ascii ?a"
    by (simp_all add: plain_ascii_def js_def list_all_iff)
  have one: "int_number (Fin 1) = [49]" by (simp add: int_number_def int_text_def digits_of.simps)
  have "units16 sample_now" "units16 ?a" using plain_units [OF sample_env(4)] plain_units [OF plain(7)] by simp_all
  moreover have "number_reads_back int_number (Fin 1)" using int_texts_nat(2) [OF sample_env(2), of 1] by (simp add: max_safe_def)
  ultimately have "json_writable int_number (record_json big_record)"
    by (simp add: big_record_def record_json_def big_body_def units16_def js_def)
  then show "record_writable int_number big_record" by (simp add: record_writable_def) (simp add: big_record_def big_body_def)
  have t: "?t = [123, 34] @ js ''seq'' @ [34, 58, 49, 44, 34] @ js ''kind'' @ [34, 58, 34] @ js ''task.queued'' @ [34, 44, 34]
      @ js ''at'' @ [34, 58, 34] @ sample_now @ [34, 44, 34] @ js ''body'' @ [34, 58, 123, 34] @ js ''text'' @ [34, 58, 34]
      @ ?a @ [34, 125, 125]"
    by (simp add: big_record_def record_json_def big_body_def json_string_plain plain sample_env(4) comma_separated_def one)
  have a: "list_all (\<lambda>c. c < 128) ?t"
    unfolding t using plain_units [OF sample_env(4)] plain_units [OF plain(7)] by (simp add: js_def)
  have l: "length ?t = max_frame + 81" unfolding t by (simp add: sample_now_def)
  then show "max_frame < utf8_length ?t" using utf8_length_ascii [OF a] by simp
  have "list_all (\<lambda>c. c < 128) (digits_of n)" for n using digits_of_digits [of n] by (auto simp: list_all_iff is_digit_def)
  then have "list_all (\<lambda>c. c < 128) (frame_line sample_digest int_number big_record @ [10])"
    using a by (auto simp: frame_line_def frame_head_def checksum_def sample_digest_def Let_def list_all_iff)
  then have "length (frame sample_digest int_number big_record) = length (frame_line sample_digest int_number big_record @ [10])"
    unfolding frame_def length_utf8_encode by (rule utf8_length_ascii)
  then show "int (length (frame sample_digest int_number big_record)) \<le> max_safe"
    using digits_of_length [of "utf8_length ?t" 10] l utf8_length_ascii [OF a]
    by (simp add: frame_line_def frame_head_def Let_def checksum_def sample_digest_def length_utf8_encode max_frame_def max_safe_def)
qed

section \<open>Witnesses\<close>

lemma acknowledged_records_survive_witness:
  "\<exists>s. run_reach sample_digest int_number (js ''root'') (Live s [sample_record]) \<and>
    prefix [sample_record] (map norm_record (rs_records s)) \<and>
    map j_seq (rs_records s) = map int [1..<Suc (length (rs_records s))]"
  using acknowledged_records_survive [OF sample_env(1-3) sample_session(1)] sample_session(1) by blast

lemma reopen_succeeds_witness:
  "\<exists>s. open_run_store sample_digest int_number (js ''root'') (fine_io sample_now) (rs_disk sample_appended) = (Inr (), s) \<and>
    rs_failure s = None \<and> prefix [sample_record] (map norm_record (rs_records s))"
proof (rule reopen_succeeds [OF sample_env(1-3)])
  show "run_reach sample_digest int_number (js ''root'') (Down (rs_disk sample_appended) [sample_record])"
    using sample_session(1) Die by (rule rtranclp.rtrancl_into_rtrancl)
  have "run_live sample_digest int_number (js ''root'') sample_appended [sample_record]"
    using world_reach [OF sample_session(1) sample_env(1-3)] by (simp add: world_ok_def)
  then have "dk_journal (rs_disk sample_appended) = Some (frame sample_digest int_number sample_record)"
    using sample_session(2,3) by (auto simp: run_live_def)
  then show "disk_room (rs_disk sample_appended)" using sample_frame by (simp add: disk_room_def max_safe_def)
qed (rule fine_io_fine(2) [OF sample_env(4,5)], rule fine_io_fine(1))

lemma shown_record_can_vanish_witness:
  "\<exists>s s'. run_reach sample_digest int_number (js ''root'') (Live s []) \<and> rs_failure s = None \<and>
    rs_records s = [norm_record sample_record] \<and>
    (run_step sample_digest int_number (js ''root''))\<^sup>*\<^sup>* (Live s []) (Live s' []) \<and> rs_failure s' = None \<and>
    norm_record sample_record \<notin> set (rs_records s')"
  by (rule shown_record_can_vanish [OF sample_env(1-3) sample_record_ok sample_record_def _ sample_env(4,5)])
    (use sample_frame in \<open>simp_all add: js_def max_safe_def\<close>)

lemma oversized_record_blocks_reopening_witness:
  "\<exists>s'. run_append sample_digest int_number (js ''task.queued'') big_body sample_store = (Inr big_record, s') \<and>
    (\<forall>io. io_fine io \<longrightarrow> fst (open_run_store sample_digest int_number (js ''root'') io (rs_disk s')) =
       Inl (Recovery_corrupt (Bad_frame (js ''malformed frame''))))"
proof (rule oversized_record_blocks_reopening [OF sample_env(1-3)])
  show "run_live sample_digest int_number (js ''root'') sample_store []"
    using open_run_store_log [OF sample_env(1-3) fine_io_fine(2) [OF sample_env(4,5)] _ fresh_log [OF sample_env(3)] sample_opened(1)]
    by (simp add: disk_room_def fresh_disk_def max_safe_def)
qed (use big_record_facts in \<open>simp_all add: sample_opened(2) run_blank_def fine_io_def fine_env_def\<close>)

end
