(* ===== verification/RunCheckpoint.thy ===== *)
theory RunCheckpoint
  imports RunWorld
begin

text \<open>
  Checkpoints and result texts of \<open>FileRunStore\<close>: whatever fails, the checkpoint that
  \<open>loadCheckpoint\<close> looks up is on disk, flushed, with the bytes its record promises.
\<close>

section \<open>Invariant\<close>

definition live_file :: "(nat list \<Rightarrow> jstring) \<Rightarrow> agent_files \<Rightarrow> jstring \<Rightarrow> journal_record \<Rightarrow> bool" where
  "live_file sha fs agent r \<longleftrightarrow>
     (case map_of fs (agent, text_field (j_body r) (js ''file'')) of
        Some (bs, kept) \<Rightarrow> kept \<and> field (j_body r) (js ''bytes'') = JNum (Fin (of_nat (length bs))) \<and>
          field (j_body r) (js ''sha256'') = JStr (sha bs)
      | None \<Rightarrow> False)"

definition checkpoints_live :: "(nat list \<Rightarrow> jstring) \<Rightarrow> run_store \<Rightarrow> bool" where
  "checkpoints_live sha s \<longleftrightarrow>
     (\<forall>agent r. latest_published s agent = Some r \<longrightarrow> live_file sha (dk_checkpoints (rs_disk s)) agent r)"

definition is_published :: "jstring \<Rightarrow> journal_record \<Rightarrow> bool" where
  "is_published agent r \<longleftrightarrow> j_kind r = js ''checkpoint.published'' \<and> field (j_body r) (js ''agentId'') = JStr agent"

lemma latest_published_snoc:
  "rs_records s' = rs_records s @ [r] \<Longrightarrow>
   latest_published s' agent = (if is_published agent r then Some r else latest_published s agent)"
  by (simp add: latest_published_def is_published_def)

lemma latest_published_cong: "rs_records s' = rs_records s \<Longrightarrow> latest_published s' agent = latest_published s agent"
  by (simp add: latest_published_def)

lemma write_frame_files: "write_frame env fr m d = (f, d') \<Longrightarrow> dk_checkpoints d' = dk_checkpoints d \<and> dk_results d' = dk_results d"
  by (auto simp: write_frame_def write_manifest_def journal_add_def journal_sync_def Let_def
      split: append_outcome.splits replace_outcome.splits)

lemma index_record_fields: "rs_records (index_record r s) = rs_records s @ [r] \<and> rs_disk (index_record r s) = rs_disk s"
  by (simp add: index_record_def Let_def split: option.split)

lemma run_append_files:
  assumes "run_append sha nt kind body s = (res, s')"
  shows "dk_checkpoints (rs_disk s') = dk_checkpoints (rs_disk s)" and "dk_results (rs_disk s') = dk_results (rs_disk s)"
    and "res = Inl e \<Longrightarrow> rs_records s' = rs_records s"
    and "res = Inr r \<Longrightarrow> rs_records s' = rs_records s @ [r] \<and> j_kind r = kind \<and> j_body r = body"
  using assms
  by (auto simp: run_append_def ethen_def ebind_def assert_writable_def next_env_def Let_def next_record_def index_record_fields
      dest!: write_frame_files split: prod.splits option.splits if_splits)

text \<open>An append that publishes no checkpoint keeps the invariant.\<close>

lemma run_append_live_other:
  assumes "checkpoints_live sha s" and "kind \<noteq> js ''checkpoint.published''"
    and "run_append sha nt kind body s = (res, s')"
  shows "checkpoints_live sha s'"
proof -
  have "latest_published s' agent = latest_published s agent" for agent
    using run_append_files(3,4) [OF assms(3)] assms(2) latest_published_snoc [of s' s] latest_published_cong [of s' s]
    by (cases res) (auto simp: is_published_def)
  then show ?thesis using assms(1) run_append_files(1) [OF assms(3)] by (simp add: checkpoints_live_def)
qed

section \<open>Retiring predecessors\<close>

lemma map_of_keep_files: "map_of (keep_files gone fs) k = (if k \<in> set gone then None else map_of fs k)"
  by (induction fs) (auto simp: keep_files_def)

lemma remove_files_effect:
  assumes "remove_files agent stale s = (res, s')"
  shows "rs_records s' = rs_records s"
    and "fst k \<noteq> agent \<or> snd k \<notin> set stale \<Longrightarrow> map_of (dk_checkpoints (rs_disk s')) k = map_of (dk_checkpoints (rs_disk s)) k"
proof -
  let ?n = "case de_remove (rs_io s (rs_tick s)) of None \<Rightarrow> length stale | Some (k, f) \<Rightarrow> k"
  have "dk_checkpoints (rs_disk s') = keep_files (map (Pair agent) (take ?n stale)) (dk_checkpoints (rs_disk s))"
    and rec: "rs_records s' = rs_records s"
    using assms by (auto simp: remove_files_def ebind_def ethen_def next_env_def on_disk_def emod_def or_raise_def eret_def
        ethrow_def Let_def split: option.splits)
  then show "fst k \<noteq> agent \<or> snd k \<notin> set stale \<Longrightarrow> map_of (dk_checkpoints (rs_disk s')) k = map_of (dk_checkpoints (rs_disk s)) k"
    using set_take_subset [of ?n stale] by (auto simp: map_of_keep_files)
  show "rs_records s' = rs_records s" by (rule rec)
qed

lemma retire_predecessors_live:
  assumes "checkpoints_live sha s"
    and "\<And>r. latest_published s agent = Some r \<Longrightarrow> text_field (j_body r) (js ''file'') = live"
    and "retire_predecessors sha nt agent live s = (res, s')"
  shows "checkpoints_live sha s' \<and> (\<forall>a. latest_published s' a = latest_published s a) \<and>
    (\<forall>a f. a \<noteq> agent \<or> f = live \<longrightarrow> map_of (dk_checkpoints (rs_disk s')) (a, f) = map_of (dk_checkpoints (rs_disk s)) (a, f))"
proof -
  let ?s = "s\<lparr>rs_tick := Suc (rs_tick s)\<rparr>"
  let ?stale = "filter (\<lambda>f. starts_with f checkpoint_prefix \<and> f \<noteq> live) (files_of agent (dk_checkpoints (rs_disk s)))"
  have cp: "checkpoints_live sha ?s" using assms(1) by (simp add: checkpoints_live_def latest_published_def)
  have lp: "latest_published ?s a = latest_published s a" for a by (simp add: latest_published_def)
  show ?thesis
  proof (cases "de_list (rs_io s (rs_tick s)) \<noteq> None \<or> ?stale = []")
    case True
    with assms(3) have "s' = ?s"
      by (auto simp: retire_predecessors_def ebind_def next_env_def eget_def eret_def Let_def)
    then show ?thesis using cp lp by simp
  next
    case False
    obtain r1 s1 where a: "run_append sha nt (js ''checkpoint.superseded'')
        (JObj [(js ''agentId'', JStr agent), (js ''files'', JArr (map JStr ?stale))]) ?s = (r1, s1)" by force
    have c1: "checkpoints_live sha s1" by (rule run_append_live_other [OF cp _ a]) (simp add: js_def)
    have l1: "latest_published s1 x = latest_published s x" for x
      using run_append_files(3,4) [OF a] latest_published_snoc [of s1 ?s] latest_published_cong [of s1 ?s] lp
      by (cases r1) (auto simp: is_published_def js_def)
    show ?thesis
    proof (cases r1)
      case (Inl e)
      with assms(3) False a have "s' = s1"
        by (auto simp: retire_predecessors_def ebind_def ethen_def next_env_def eget_def Let_def)
      then show ?thesis using c1 l1 run_append_files(1) [OF a] by simp
    next
      case (Inr r)
      with assms(3) False a have rm: "remove_files agent ?stale s1 = (res, s')"
        by (auto simp: retire_predecessors_def ebind_def ethen_def next_env_def eget_def eret_def Let_def)
      have l2: "latest_published s' x = latest_published s x" for x
        using remove_files_effect(1) [OF rm] latest_published_cong l1 by metis
      have "live_file sha (dk_checkpoints (rs_disk s')) x r" if "latest_published s x = Some r" for x r
      proof -
        have "x \<noteq> agent \<or> text_field (j_body r) (js ''file'') \<notin> set ?stale"
          using assms(2) that by auto
        from remove_files_effect(2) [OF rm, of "(x, text_field (j_body r) (js ''file''))"] this
        show ?thesis using c1 l1 that by (simp add: checkpoints_live_def live_file_def)
      qed
      moreover have "map_of (dk_checkpoints (rs_disk s')) (x, f) = map_of (dk_checkpoints (rs_disk s)) (x, f)"
        if "x \<noteq> agent \<or> f = live" for x f
        using remove_files_effect(2) [OF rm, of "(x, f)"] that run_append_files(1) [OF a] by auto
      ultimately show ?thesis using l2 by (simp add: checkpoints_live_def)
    qed
  qed
qed

section \<open>Publishing\<close>

lemma write_file_effect:
  assumes "write_file upd_checkpoints agent f bs s = (res, s')"
  shows "rs_records s' = rs_records s"
    and "k \<noteq> (agent, f) \<Longrightarrow> map_of (dk_checkpoints (rs_disk s')) k = map_of (dk_checkpoints (rs_disk s)) k"
    and "res = Inr () \<Longrightarrow> map_of (dk_checkpoints (rs_disk s')) (agent, f) = Some (bs, True)"
  using assms
  by (auto simp: write_file_def ebind_def ethen_def next_env_def or_raise_def eret_def ethrow_def on_disk_def emod_def
      upd_checkpoints_def put_file_def split: option.splits replace_outcome.splits)

lemma published_body_fields:
  "field (published_body ref f) (js ''agentId'') = JStr (cr_agent ref)"
  "text_field (published_body ref f) (js ''file'') = f"
  "field (published_body ref f) (js ''bytes'') = JNum (Fin (of_nat (cr_bytes ref)))"
  "field (published_body ref f) (js ''sha256'') = JStr (cr_sha ref)"
  by (simp_all add: published_body_def text_field_def js_def)

text \<open>The name of a checkpoint's file ends in a fresh UUID, and the reference describes the bytes.\<close>

definition fresh_checkpoint :: "checkpoint_ref \<Rightarrow> run_store \<Rightarrow> bool" where
  "fresh_checkpoint ref s \<longleftrightarrow>
     (\<forall>r. latest_published s (cr_agent ref) = Some r \<longrightarrow>
        text_field (j_body r) (js ''file'') \<noteq> checkpoint_file ref (de_uuid (rs_io s (rs_tick s))))"

definition describes :: "(nat list \<Rightarrow> jstring) \<Rightarrow> checkpoint_ref \<Rightarrow> nat list \<Rightarrow> bool" where
  "describes sha ref bs \<longleftrightarrow> cr_bytes ref = length bs \<and> cr_sha ref = sha bs"

definition same_checkpoint :: "run_store \<Rightarrow> run_store \<Rightarrow> jstring \<Rightarrow> bool" where
  "same_checkpoint s s' a \<longleftrightarrow> latest_published s' a = latest_published s a \<and>
     (\<forall>r. latest_published s a = Some r \<longrightarrow>
        map_of (dk_checkpoints (rs_disk s')) (a, text_field (j_body r) (js ''file'')) =
        map_of (dk_checkpoints (rs_disk s)) (a, text_field (j_body r) (js ''file'')))"

lemma save_checkpoint_cases:
  assumes live: "checkpoints_live sha s" and fresh: "fresh_checkpoint ref s" and d: "describes sha ref bs"
    and sv: "save_checkpoint sha nt ref bs s = (res, s')"
  shows "checkpoints_live sha s' \<and> (\<forall>a. a \<noteq> cr_agent ref \<longrightarrow> same_checkpoint s s' a) \<and>
    (same_checkpoint s s' (cr_agent ref) \<and> res \<noteq> Inr () \<or>
     (\<exists>r f. latest_published s' (cr_agent ref) = Some r \<and> j_body r = published_body ref f \<and>
        map_of (dk_checkpoints (rs_disk s')) (cr_agent ref, f) = Some (bs, True)))"
proof (cases "rs_closed s \<or> rs_failure s \<noteq> None")
  case True
  then obtain e where "assert_writable s = (Inl e, s)" by (cases "rs_closed s"; cases "rs_failure s") (auto simp: assert_writable_def)
  with sv have "s' = s" "res = Inl e" by (auto simp: save_checkpoint_def ethen_def ebind_def)
  with live show ?thesis by (simp add: same_checkpoint_def)
next
  case False
  let ?agent = "cr_agent ref" and ?f = "checkpoint_file ref (de_uuid (rs_io s (rs_tick s)))"
  let ?s = "s\<lparr>rs_tick := Suc (rs_tick s)\<rparr>"
  obtain r1 s1 where w: "write_file upd_checkpoints ?agent ?f bs ?s = (r1, s1)" by force
  have l1: "latest_published s1 a = latest_published s a" for a
    using write_file_effect(1) [OF w] by (simp add: latest_published_def)
  have keep: "same_checkpoint s s1 a" for a
    using write_file_effect(2) [OF w, of "(a, _)"] fresh l1 by (auto simp: fresh_checkpoint_def same_checkpoint_def)
  have c1: "checkpoints_live sha s1"
    using live l1 keep by (simp add: checkpoints_live_def live_file_def same_checkpoint_def)
  have aw: "assert_writable s = (Inr (), s)" using False by (simp add: assert_writable_def)
  show ?thesis
  proof (cases r1)
    case (Inl e)
    with sv w aw have "s' = s1" "res = Inl e"
      by (simp_all add: save_checkpoint_def ethen_def ebind_def next_env_def Let_def)
    then show ?thesis using c1 keep by simp
  next
    case (Inr u)
    have put: "map_of (dk_checkpoints (rs_disk s1)) (?agent, ?f) = Some (bs, True)"
      using write_file_effect(3) [OF w] Inr by simp
    obtain r2 s2 where a: "run_append sha nt (js ''checkpoint.published'') (published_body ref ?f) s1 = (r2, s2)" by force
    note fs = run_append_files [OF a]
    show ?thesis
    proof (cases r2)
      case (Inl e)
      with sv w aw Inr a have "s' = s2" "res = Inl e"
        by (simp_all add: save_checkpoint_def ethen_def ebind_def next_env_def Let_def)
      moreover have "latest_published s2 x = latest_published s x" for x
        using fs(3) Inl latest_published_cong [of s2 s1] l1 by simp
      ultimately show ?thesis using c1 fs(1) l1 keep by (simp add: checkpoints_live_def same_checkpoint_def)
    next
      case (Inr r)
      have body: "j_body r = published_body ref ?f" "j_kind r = js ''checkpoint.published''" using fs(4) Inr by simp_all
      have l2: "latest_published s2 x = (if x = ?agent then Some r else latest_published s x)" for x
        using fs(4) Inr latest_published_snoc [of s2 s1 r x] l1 body
        by (auto simp: is_published_def published_body_fields)
      have "live_file sha (dk_checkpoints (rs_disk s2)) ?agent r"
        using put fs(1) d by (simp add: live_file_def body published_body_fields describes_def)
      then have c2: "checkpoints_live sha s2"
        using c1 l1 l2 fs(1) by (auto simp: checkpoints_live_def)
      have rt: "retire_predecessors sha nt ?agent ?f s2 = (res, s')"
        using sv w aw \<open>r1 = Inr u\<close> Inr a
        by (simp add: save_checkpoint_def ethen_def ebind_def next_env_def Let_def eret_def)
      have lives: "\<And>r'. latest_published s2 ?agent = Some r' \<Longrightarrow> text_field (j_body r') (js ''file'') = ?f"
        using l2 by (auto simp: body published_body_fields)
      note c3 = retire_predecessors_live [OF c2 lives rt]
      then have "same_checkpoint s s' x" if "x \<noteq> ?agent" for x
        using that keep [of x] l1 l2 fs(1) by (simp add: same_checkpoint_def)
      moreover have "map_of (dk_checkpoints (rs_disk s')) (?agent, ?f) = Some (bs, True)" using c3 put fs(1) by simp
      ultimately show ?thesis using c3 l2 body(1) by auto
    qed
  qed
qed

section \<open>Loading\<close>

lemma load_checkpoint_eq:
  "fst (load_checkpoint sha a s) = (case latest_published s a of None \<Rightarrow> Inr None
     | Some r \<Rightarrow> (case map_of (dk_checkpoints (rs_disk s)) (a, text_field (j_body r) (js ''file'')) of
         None \<Rightarrow> Inl (Recovery_corrupt (Checkpoint_unreadable a (text_field (j_body r) (js ''file''))))
       | Some (bs, _) \<Rightarrow>
           if de_read (rs_io s (rs_tick s)) \<noteq> None
           then Inl (Recovery_corrupt (Checkpoint_unreadable a (text_field (j_body r) (js ''file''))))
           else if JNum (Fin (of_nat (length bs))) \<noteq> field (j_body r) (js ''bytes'') \<or> JStr (sha bs) \<noteq> field (j_body r) (js ''sha256'')
           then Inl (Recovery_corrupt (Checkpoint_invalid a (text_field (j_body r) (js ''file''))))
           else Inr (Some (ref_of a (j_body r), bs))))"
  by (simp add: load_checkpoint_def ebind_def eget_def next_env_def eret_def ethrow_def Let_def split: option.split)

lemma ref_of_published: "ref_of (cr_agent ref) (published_body ref f) = ref\<lparr>cr_superseded := False\<rparr>"
  by (cases ref) (auto simp: ref_of_def published_body_def text_field_def text_field_opt_def int_field_def text_or_null_def js_def
      split: option.splits)

text \<open>No operation changes the oracle.\<close>

abbreviation io_kept :: "(nat \<Rightarrow> disk_env) \<Rightarrow> 'a run_eff \<Rightarrow> bool" where
  "io_kept io m \<equiv> keeps (\<lambda>s. rs_io s = io) m"

lemma io_kept_basic:
  "io_kept io next_env" "io_kept io (on_disk f)" "io_kept io (or_raise e)" "io_kept io assert_writable"
  by (auto simp: keeps_def next_env_def on_disk_def emod_def or_raise_def eret_def ethrow_def assert_writable_def
      split: option.splits)

lemma io_kept_append: "io_kept io (run_append sha nt kind body)"
  by (auto simp: keeps_def run_append_def ethen_def ebind_def assert_writable_def next_env_def Let_def index_record_def
      split: prod.splits option.splits)

lemma io_kept_write: "io_kept io (write_file upd agent f bs)"
  unfolding write_file_def
  by (intro keeps_ebind keeps_ethen io_kept_basic) (auto split: replace_outcome.split intro!: keeps_ethen io_kept_basic)

lemma io_kept_retire: "io_kept io (retire_predecessors sha nt agent live)"
  unfolding retire_predecessors_def remove_files_def Let_def
  by (intro keeps_ebind keeps_ethen keeps_if keeps_eget keeps_eret io_kept_basic io_kept_append)

lemma io_kept_save: "io_kept io (save_checkpoint sha nt ref bs)"
  unfolding save_checkpoint_def Let_def
  by (intro keeps_ebind keeps_ethen keeps_eret io_kept_basic io_kept_append io_kept_write io_kept_retire)

text \<open>
  C30. Saving a checkpoint, whatever fails in it, leaves every agent a checkpoint that loads:
  for the other agents the one they had, for this one the old or the new as a whole, and the new
  one when the call returns.
\<close>

theorem checkpoint_replaced_whole:
  assumes "checkpoints_live sha s" and "fresh_checkpoint ref s" and "describes sha ref bs"
    and "\<forall>k. de_read (rs_io s k) = None" and "save_checkpoint sha nt ref bs s = (res, s')"
  shows "checkpoints_live sha s' \<and>
    (\<forall>a. a \<noteq> cr_agent ref \<longrightarrow> fst (load_checkpoint sha a s') = fst (load_checkpoint sha a s)) \<and>
    (fst (load_checkpoint sha (cr_agent ref) s') = Inr (Some (ref\<lparr>cr_superseded := False\<rparr>, bs)) \<or>
     res \<noteq> Inr () \<and> fst (load_checkpoint sha (cr_agent ref) s') = fst (load_checkpoint sha (cr_agent ref) s))"
proof -
  note c = save_checkpoint_cases [OF assms(1-3,5)]
  have "rs_io s' = rs_io s" using keepsD [OF io_kept_save [of "rs_io s" sha nt ref bs], of s] assms(5) by simp
  then have io: "de_read (rs_io s (rs_tick s)) = None" "de_read (rs_io s' (rs_tick s')) = None" using assms(4) by simp_all
  have same: "fst (load_checkpoint sha a s') = fst (load_checkpoint sha a s)" if "same_checkpoint s s' a" for a
    using that io by (auto simp: load_checkpoint_eq same_checkpoint_def split: option.split)
  have "fst (load_checkpoint sha (cr_agent ref) s') = Inr (Some (ref\<lparr>cr_superseded := False\<rparr>, bs)) \<or>
      res \<noteq> Inr () \<and> fst (load_checkpoint sha (cr_agent ref) s') = fst (load_checkpoint sha (cr_agent ref) s)"
    using c same assms(3) io
    by (auto simp: load_checkpoint_eq published_body_fields ref_of_published describes_def)
  then show ?thesis using c same by blast
qed

text \<open>
  A result text that was saved loads unchanged, provided its surrogates are in pairs.
\<close>

theorem result_roundtrip:
  assumes "save_result sha agent run generation t s = (Inr ref, s')" and "well_paired t"
    and "de_read (rs_io s' (rs_tick s')) = None"
  shows "fst (load_result sha agent ref s') = Inr t"
proof -
  let ?f = "result_file run generation" and ?bs = "utf8_encode t"
  obtain r1 s1 where w: "write_file upd_results agent ?f ?bs s = (r1, s1)" by force
  have aw: "assert_writable s = (Inr (), s)"
    using assms(1) by (simp add: save_result_def ethen_def ebind_def assert_writable_def split: if_splits option.splits)
  with assms(1) w have "r1 = Inr ()" "s' = s1" "ref = \<lparr>rr_file = ?f, rr_bytes = length ?bs, rr_sha = sha ?bs\<rparr>"
    by (auto simp: save_result_def ethen_def ebind_def ecatch_def eret_def ethrow_def Let_def split: sum.splits)
  moreover have "map_of (dk_results (rs_disk s1)) (agent, ?f) = Some (?bs, True)" if "r1 = Inr ()"
    using w that by (auto simp: write_file_def ebind_def ethen_def next_env_def or_raise_def eret_def ethrow_def on_disk_def
        emod_def upd_results_def put_file_def split: option.splits replace_outcome.splits)
  ultimately have "map_of (dk_results (rs_disk s')) (agent, rr_file ref) = Some (?bs, True)"
    and "rr_bytes ref = length ?bs" "rr_sha ref = sha ?bs" by simp_all
  with assms(2,3) show ?thesis
    by (simp add: load_result_def ebind_def next_env_def eget_def eret_def utf8_roundtrip)
qed

section \<open>Witnesses\<close>

definition sample_ref :: checkpoint_ref where
  "sample_ref = \<lparr>cr_agent = js ''a1'', cr_run = js ''r1'', cr_generation = 1, cr_leaf = None, cr_sha = sample_digest [3, 2],
     cr_bytes = 2, cr_created = sample_now, cr_superseded = False, cr_history = None\<rparr>"

lemma sample_fields: "rs_records sample_store = []" "rs_io sample_store = fine_io sample_now" "rs_failure sample_store = None"
    "\<not> rs_closed sample_store"
  by (simp_all add: sample_opened(2) run_blank_def)

lemma checkpoint_replaced_whole_witness:
  "checkpoints_live sample_digest (snd (save_checkpoint sample_digest int_number sample_ref [3, 2] sample_store))"
proof -
  obtain res s' where s: "save_checkpoint sample_digest int_number sample_ref [3, 2] sample_store = (res, s')" by force
  have "checkpoints_live sample_digest s'"
    using checkpoint_replaced_whole [OF _ _ _ _ s]
    by (simp add: checkpoints_live_def fresh_checkpoint_def latest_published_def sample_fields describes_def sample_ref_def
        fine_io_def fine_env_def)
  then show ?thesis by (simp add: s)
qed

lemma result_roundtrip_witness:
  "\<exists>ref s'. save_result sample_digest (js ''a1'') (js ''r1'') 2 (js ''ok'') sample_store = (Inr ref, s') \<and>
    fst (load_result sample_digest (js ''a1'') ref s') = Inr (js ''ok'')"
proof -
  obtain ref s' where s: "save_result sample_digest (js ''a1'') (js ''r1'') 2 (js ''ok'') sample_store = (Inr ref, s')"
    and io: "rs_io s' = fine_io sample_now"
    by (simp add: save_result_def ethen_def ebind_def ecatch_def assert_writable_def sample_fields write_file_def next_env_def
        fine_io_def fine_env_def or_raise_def eret_def on_disk_def emod_def Let_def)
  have "well_paired (js ''ok'')" by (simp add: js_def is_high_def is_low_def)
  from result_roundtrip [OF s this] have "fst (load_result sample_digest (js ''a1'') ref s') = Inr (js ''ok'')"
    by (simp add: io fine_io_def fine_env_def)
  with s show ?thesis by blast
qed

end
