(* ===== verification/RunMemory.thy ===== *)
theory RunMemory
  imports RunStore
begin

text \<open>
  \<open>InMemoryRunStore\<close> of \<open>ponygirls-subagents/src/store.ts\<close>, and the part of the \<open>RunStore\<close>
  interface the supervisor's readers rely on, as the locale \<open>paged_log\<close>: an append adds one
  record, a page holds the records after its cursor, and paging to the end misses none.
\<close>

section \<open>State and operations\<close>

record mem_run_store =
  ms_root :: jstring
  ms_records :: "journal_record list"
  ms_commands :: "(jstring \<times> journal_record) list"
  ms_checkpoints :: "(jstring \<times> (checkpoint_ref \<times> nat list) list) list"
  ms_results :: "(jstring \<times> nat list) list"
  ms_seq :: nat

definition mem_run_new :: "jstring \<Rightarrow> mem_run_store" where
  "mem_run_new rid = \<lparr>ms_root = rid, ms_records = [], ms_commands = [], ms_checkpoints = [], ms_results = [], ms_seq = 0\<rparr>"

definition mem_append :: "jstring \<Rightarrow> jstring \<Rightarrow> js_value \<Rightarrow> mem_run_store \<Rightarrow> journal_record \<times> mem_run_store" where
  "mem_append now kind body s =
     (let r = \<lparr>j_seq = int (ms_seq s) + 1, j_kind = kind, j_at = JStr now, j_body = body\<rparr>
      in (r, s\<lparr>ms_seq := Suc (ms_seq s), ms_records := ms_records s @ [r]\<rparr>))"

definition mem_read_since :: "mem_run_store \<Rightarrow> int \<Rightarrow> int \<Rightarrow> journal_record list \<times> int" where
  "mem_read_since s cursor limit =
     (let out = take (nat limit) (filter (\<lambda>r. j_seq r > cursor) (ms_records s))
      in (out, if out \<noteq> [] then j_seq (last out) else cursor))"

definition mem_load_command :: "mem_run_store \<Rightarrow> jstring \<Rightarrow> journal_record option" where
  "mem_load_command s q = map_of (ms_commands s) q"

definition mem_record_command :: "jstring \<Rightarrow> journal_record \<Rightarrow> mem_run_store \<Rightarrow> mem_run_store" where
  "mem_record_command q r s = s\<lparr>ms_commands := map_put q r (ms_commands s)\<rparr>"

definition agent_list :: "jstring \<Rightarrow> mem_run_store \<Rightarrow> (checkpoint_ref \<times> nat list) list" where
  "agent_list agent s = (case map_of (ms_checkpoints s) agent of None \<Rightarrow> [] | Some l \<Rightarrow> l)"

text \<open>\<open>while (list.length > n) list.shift()\<close>.\<close>

definition keep_last :: "nat \<Rightarrow> 'a list \<Rightarrow> 'a list" where
  "keep_last n l = drop (length l - n) l"

definition mem_save_checkpoint :: "jstring \<Rightarrow> checkpoint_ref \<Rightarrow> nat list \<Rightarrow> mem_run_store \<Rightarrow> mem_run_store" where
  "mem_save_checkpoint now ref bs s =
     snd (mem_append now (js ''checkpoint.published'')
       (JObj [(js ''agentId'', JStr (cr_agent ref)), (js ''taskRunId'', JStr (cr_run ref)),
          (js ''generation'', JNum (Fin (of_int (cr_generation ref)))), (js ''historySourceId'', text_or_null (cr_history ref)),
          (js ''sha256'', JStr (cr_sha ref)), (js ''bytes'', JNum (Fin (of_nat (cr_bytes ref))))])
       (s\<lparr>ms_checkpoints := map_put (cr_agent ref) (keep_last 2 (agent_list (cr_agent ref) s @ [(ref, bs)])) (ms_checkpoints s)\<rparr>))"

definition mem_load_checkpoint ::
  "(nat list \<Rightarrow> jstring) \<Rightarrow> mem_run_store \<Rightarrow> jstring \<Rightarrow> run_error + (checkpoint_ref \<times> nat list) option" where
  "mem_load_checkpoint sha s agent =
     (case find (\<lambda>(ref, bs). \<not> cr_superseded ref) (rev (agent_list agent s)) of
        None \<Rightarrow> Inr None
      | Some (ref, bs) \<Rightarrow>
          if sha bs \<noteq> cr_sha ref then Inl (Recovery_corrupt (Checkpoint_invalid agent [])) else Inr (Some (ref, bs)))"

definition mem_supersede_checkpoint :: "jstring \<Rightarrow> mem_run_store \<Rightarrow> mem_run_store" where
  "mem_supersede_checkpoint agent s =
     (case map_of (ms_checkpoints s) agent of
        None \<Rightarrow> s
      | Some l \<Rightarrow> s\<lparr>ms_checkpoints := map_put agent (keep_last 1 l) (ms_checkpoints s)\<rparr>)"

definition mem_save_result ::
  "(nat list \<Rightarrow> jstring) \<Rightarrow> jstring \<Rightarrow> jstring \<Rightarrow> int \<Rightarrow> jstring \<Rightarrow> mem_run_store \<Rightarrow> result_ref \<times> mem_run_store" where
  "mem_save_result sha agent run generation t s =
     (let bs = utf8_encode t; f = result_file run generation
      in (\<lparr>rr_file = f, rr_bytes = length bs, rr_sha = sha bs\<rparr>,
          s\<lparr>ms_results := map_put (agent @ [47] @ f) bs (ms_results s)\<rparr>))"

definition mem_load_result :: "(nat list \<Rightarrow> jstring) \<Rightarrow> mem_run_store \<Rightarrow> jstring \<Rightarrow> result_ref \<Rightarrow> run_error + jstring" where
  "mem_load_result sha s agent ref =
     (case map_of (ms_results s) (agent @ [47] @ rr_file ref) of
        None \<Rightarrow> Inl (Recovery_corrupt (Result_invalid agent (rr_file ref)))
      | Some bs \<Rightarrow>
          if length bs \<noteq> rr_bytes ref \<or> sha bs \<noteq> rr_sha ref then Inl (Recovery_corrupt (Result_invalid agent (rr_file ref)))
          else Inr (utf8_decode bs))"

section \<open>The interface of a reader\<close>

definition numbered :: "journal_record list \<Rightarrow> bool" where
  "numbered rs \<longleftrightarrow> map j_seq rs = map int [1..<Suc (length rs)]"

lemma numbered_snoc: "numbered (rs @ [r]) \<longleftrightarrow> numbered rs \<and> j_seq r = int (length rs) + 1"
  by (auto simp: numbered_def)

lemma numbered_nth: "numbered rs \<Longrightarrow> i < length rs \<Longrightarrow> j_seq (rs ! i) = int i + 1"
proof -
  assume n: "numbered rs" and i: "i < length rs"
  have "j_seq (rs ! i) = map j_seq rs ! i" using i by simp
  also have "\<dots> = int i + 1" using n i by (simp add: numbered_def del: upt_Suc)
  finally show ?thesis .
qed

lemma numbered_filter: "numbered rs \<Longrightarrow> filter (\<lambda>r. j_seq r > c) rs = drop (nat c) rs"
proof (induction rs rule: rev_induct)
  case (snoc r rs)
  then show ?case by (auto simp: numbered_snoc)
qed simp

text \<open>
  \<open>log\<close> is what the store holds; \<open>append\<close> gives the record and the store, or nothing when it
  throws. A reader collects pages of \<open>limit\<close> records from a cursor until one is empty.
\<close>

locale paged_log =
  fixes append :: "jstring \<Rightarrow> js_value \<Rightarrow> 's \<Rightarrow> (journal_record \<times> 's) option"
    and read :: "'s \<Rightarrow> int \<Rightarrow> int \<Rightarrow> journal_record list \<times> int"
    and log :: "'s \<Rightarrow> journal_record list"
    and inv :: "'s \<Rightarrow> bool"
  assumes append_log: "inv s \<Longrightarrow> append kind body s = Some (r, s') \<Longrightarrow>
      inv s' \<and> log s' = log s @ [r] \<and> j_kind r = kind \<and> j_body r = body"
    and log_numbered: "inv s \<Longrightarrow> numbered (log s)"
    and read_page: "inv s \<Longrightarrow> 0 \<le> c \<Longrightarrow> read s c l =
      (take (nat l) (drop (nat c) (log s)), if take (nat l) (drop (nat c) (log s)) \<noteq> []
        then j_seq (last (take (nat l) (drop (nat c) (log s)))) else c)"
begin

fun collect :: "nat \<Rightarrow> 's \<Rightarrow> int \<Rightarrow> int \<Rightarrow> journal_record list" where
  "collect 0 s c l = []"
| "collect (Suc n) s c l = (case read s c l of (out, c') \<Rightarrow> if out = [] then [] else out @ collect n s c' l)"

lemma page_cursor:
  assumes "inv s" and "0 \<le> c" and "0 < l" and "nat c < length (log s)"
  shows "snd (read s c l) = min (c + l) (int (length (log s)))"
proof -
  let ?p = "take (nat l) (drop (nat c) (log s))"
  have ne: "?p \<noteq> []" using assms by simp
  have len: "length ?p = min (nat l) (length (log s) - nat c)" by simp
  have "last ?p = log s ! (nat c + (length ?p - 1))"
    using ne assms by (subst last_conv_nth) (auto simp: len)
  moreover have "nat c + (length ?p - 1) < length (log s)" using ne assms by (simp add: len)
  ultimately have "j_seq (last ?p) = int (nat c + (length ?p - 1)) + 1"
    using numbered_nth [OF log_numbered [OF assms(1)]] by simp
  moreover have "snd (read s c l) = j_seq (last ?p)" using ne read_page [OF assms(1,2), of l] by simp
  moreover have "int (nat c + (length ?p - 1)) + 1 = min (c + l) (int (length (log s)))"
  proof -
    have "1 \<le> length ?p" using ne by (simp add: Suc_le_eq del: length_take length_drop)
    then have "int (nat c + (length ?p - 1)) + 1 = int (nat c + length ?p)" by linarith
    also have "nat c + length ?p = min (nat c + nat l) (length (log s))" using assms(4) unfolding len by linarith
    finally show ?thesis using assms(2,3) by (simp add: of_nat_min)
  qed
  ultimately show ?thesis by simp
qed

theorem collect_all:
  assumes "inv s" and "0 \<le> c" and "0 < l" and "length (log s) < n + nat c"
  shows "collect n s c l = drop (nat c) (log s)"
  using assms(2,4)
proof (induction n arbitrary: c)
  case 0
  then show ?case by simp
next
  case (Suc n)
  show ?case
  proof (cases "nat c < length (log s)")
    case False
    then show ?thesis using read_page [OF assms(1) Suc.prems(1), of l] by simp
  next
    case True
    let ?c = "min (c + l) (int (length (log s)))"
    have r: "read s c l = (take (nat l) (drop (nat c) (log s)), ?c)"
      using page_cursor [OF assms(1) Suc.prems(1) assms(3) True] read_page [OF assms(1) Suc.prems(1), of l]
      by (metis fst_conv snd_conv prod.collapse)
    have "collect n s ?c l = drop (nat ?c) (log s)"
      using Suc.prems True assms(3) by (intro Suc.IH) auto
    also have "\<dots> = drop (nat l) (drop (nat c) (log s))"
      using Suc.prems assms(3) by (simp add: min_def nat_add_distrib add.commute)
    finally show ?thesis using r True assms(3) by (simp del: drop_drop)
  qed
qed

text \<open>A reader that has reached the end gets exactly the next record.\<close>

lemma read_next:
  assumes "inv s" and "append kind body s = Some (r, s')" and "0 < l"
  shows "read s' (int (length (log s))) l = ([r], int (length (log s)) + 1)"
proof -
  note a = append_log [OF assms(1,2)]
  then have "j_seq r = int (length (log s)) + 1" using log_numbered [of s'] by (simp add: numbered_snoc)
  then show ?thesis using read_page [of s' "int (length (log s))" l] a assms(3) by simp
qed

end

section \<open>Both stores\<close>

definition file_append ::
  "(nat list \<Rightarrow> jstring) \<Rightarrow> (js_num \<Rightarrow> jstring) \<Rightarrow> jstring \<Rightarrow> js_value \<Rightarrow> run_store \<Rightarrow> (journal_record \<times> run_store) option" where
  "file_append sha nt kind body s = (case run_append sha nt kind body s of (Inr r, s') \<Rightarrow> Some (r, s') | (Inl _, _) \<Rightarrow> None)"

definition file_numbered :: "run_store \<Rightarrow> bool" where
  "file_numbered s \<longleftrightarrow> rs_seq s = length (rs_records s) \<and> numbered (rs_records s)"

definition mem_numbered :: "mem_run_store \<Rightarrow> bool" where
  "mem_numbered s \<longleftrightarrow> ms_seq s = length (ms_records s) \<and> numbered (ms_records s)"

lemma run_append_effect:
  assumes "run_append sha nt kind body s = (Inr r, s')"
  shows "rs_records s' = rs_records s @ [r] \<and> rs_seq s' = Suc (rs_seq s) \<and> j_seq r = int (rs_seq s) + 1 \<and>
    j_kind r = kind \<and> j_body r = body"
  using assms
  by (auto simp: run_append_def ethen_def ebind_def assert_writable_def next_env_def Let_def next_record_def index_record_def
      split: prod.splits option.splits if_splits)

lemma read_since_page:
  "read_since s c l = (take (nat l) (drop (nat c) (rs_records s)), if take (nat l) (drop (nat c) (rs_records s)) \<noteq> []
     then j_seq (last (take (nat l) (drop (nat c) (rs_records s)))) else c)"
proof -
  have "drop (nat (min c (int (length (rs_records s))))) (rs_records s) = drop (nat c) (rs_records s)"
    by (simp add: min_def)
  then show ?thesis by (simp only: read_since_def Let_def)
qed

lemma mem_read_since_page:
  assumes "numbered (ms_records m)"
  shows "mem_read_since m c l = (take (nat l) (drop (nat c) (ms_records m)), if take (nat l) (drop (nat c) (ms_records m)) \<noteq> []
     then j_seq (last (take (nat l) (drop (nat c) (ms_records m)))) else c)"
  by (simp only: mem_read_since_def Let_def numbered_filter [OF assms])

interpretation file_log: paged_log "file_append sha nt" read_since rs_records file_numbered for sha nt
proof
  fix s kind body r s'
  assume "file_numbered s" "file_append sha nt kind body s = Some (r, s')"
  then show "file_numbered s' \<and> rs_records s' = rs_records s @ [r] \<and> j_kind r = kind \<and> j_body r = body"
    using run_append_effect [of sha nt kind body s r s']
    by (auto simp: file_append_def file_numbered_def numbered_snoc split: prod.splits sum.splits)
qed (simp_all add: file_numbered_def read_since_page)

interpretation mem_log: paged_log "\<lambda>kind body s. Some (mem_append now kind body s)" mem_read_since ms_records mem_numbered for now
proof
  fix s kind body r s'
  assume "mem_numbered s" "Some (mem_append now kind body s) = Some (r, s')"
  then show "mem_numbered s' \<and> ms_records s' = ms_records s @ [r] \<and> j_kind r = kind \<and> j_body r = body"
    by (auto simp: mem_append_def mem_numbered_def numbered_snoc Let_def)
qed (simp_all add: mem_numbered_def mem_read_since_page)

section \<open>Properties\<close>

text \<open>
  Reading a store page by page from a cursor until a page is empty yields exactly the
  records after the cursor, in order, each once, for every page size.
\<close>

theorem paging_misses_nothing:
  assumes "file_numbered s" and "0 \<le> c" and "0 < l" and "length (rs_records s) < n + nat c"
  shows "file_log.collect n s c l = drop (nat c) (rs_records s)"
  using assms by (rule file_log.collect_all)

text \<open>
  Over the same records the file store, which slices by position, and the in-memory store,
  which filters by number, return the same page and the same cursor, for every cursor and limit.
\<close>

theorem stores_read_alike:
  assumes "rs_records s = ms_records m" and "numbered (ms_records m)"
  shows "read_since s c l = mem_read_since m c l"
  by (simp only: read_since_page mem_read_since_page [OF assms(2)] assms(1))

section \<open>Witnesses\<close>

definition two_records :: "journal_record list" where
  "two_records = [\<lparr>j_seq = 1, j_kind = js ''a'', j_at = JNull, j_body = JObj []\<rparr>, \<lparr>j_seq = 2, j_kind = js ''b'', j_at = JNull, j_body = JObj []\<rparr>]"

lemma two_records_facts: "numbered two_records" "length two_records = 2"
  by (simp_all add: two_records_def numbered_def)

definition two_store :: run_store where
  "two_store = (run_blank (js ''root'')
     (\<lambda>_. \<lparr>de_now = [], de_uuid = [], de_journal = Journal_flushed, de_replace = Replaced, de_mkdir = None, de_read = None,
        de_list = None, de_remove = None\<rparr>)
     \<lparr>dk_journal = None, dk_synced = 0, dk_kept = False, dk_manifest = None, dk_prior = [], dk_checkpoints = [], dk_results = []\<rparr>)
     \<lparr>rs_records := two_records, rs_seq := 2\<rparr>"

lemma two_store_facts: "rs_records two_store = two_records" "file_numbered two_store"
  using two_records_facts by (simp_all add: two_store_def file_numbered_def)

lemma paging_misses_nothing_witness: "file_log.collect 3 two_store 0 1 = two_records"
  using paging_misses_nothing [of two_store 0 1 3] two_records_facts two_store_facts by simp

lemma stores_read_alike_witness:
  "read_since two_store (-1) 1 = mem_read_since ((mem_run_new (js ''root''))\<lparr>ms_records := two_records\<rparr>) (-1) 1"
  using stores_read_alike [of two_store "(mem_run_new (js ''root''))\<lparr>ms_records := two_records\<rparr>" "-1" 1]
    two_records_facts two_store_facts by simp

end
