(* ===== verification/RootLock.thy ===== *)
theory RootLock
  imports Prelude
begin

text \<open>
  \<open>RootLock\<close> of \<open>ponygirls-subagents/src/store.ts\<close>: the lock directory of a root session, taken by
  renaming a staged directory into place, and retired by renaming it away when its owner is dead.

  A process is a pid with a start time. Every call on the file system is one event; what a
  process does next is its program counter. The state keeps the lock directory (with the owner
  record inside), the boot id, and the start time of the live process of every pid. A process finds
  its own start time (\<open>readProcessIdentity\<close> succeeds), and nonces are numbers never used twice.
\<close>

section \<open>State\<close>

datatype process = Process (pr_pid: int) (pr_start: nat)

record lock_owner =
  lo_pid :: int
  lo_boot :: nat
  lo_start :: "nat option"
  lo_nonce :: nat

text \<open>
  \<open>Attempt k\<close> is about to publish for the k-th time; \<open>Reading\<close> lost and is about to read the owner;
  \<open>Judging\<close> has read it and looks whether it lives; \<open>Retiring\<close> saw a dead one and is about to
  rename its lock away; \<open>Moved\<close> has renamed a lock away and reads what it got; \<open>Returning\<close> is
  about to rename it back.
\<close>

datatype lock_pc =
  Idle | Attempt nat | Reading nat | Judging nat lock_owner | Retiring nat lock_owner
| Moved nat lock_owner lock_owner | Returning lock_owner | Holding | Refused_lock

record lock_world =
  lw_lock :: "lock_owner option"
  lw_boot :: nat
  lw_procs :: "int \<Rightarrow> nat option"
  lw_pc :: "process \<Rightarrow> lock_pc"
  lw_nonce :: nat

definition runs :: "lock_world \<Rightarrow> process \<Rightarrow> bool" where
  "runs w p \<longleftrightarrow> lw_procs w (pr_pid p) = Some (pr_start p)"

definition owner_alive :: "lock_world \<Rightarrow> lock_owner \<Rightarrow> bool" where
  "owner_alive w o' \<longleftrightarrow> lo_boot o' = lw_boot w \<and>
     (case lw_procs w (lo_pid o') of None \<Rightarrow> False | Some st \<Rightarrow> lo_start o' = None \<or> lo_start o' = Some st)"

definition go_to :: "process \<Rightarrow> lock_pc \<Rightarrow> lock_world \<Rightarrow> lock_world" where
  "go_to p c w = w\<lparr>lw_pc := (lw_pc w)(p := c)\<rparr>"

definition self_owner :: "lock_world \<Rightarrow> process \<Rightarrow> lock_owner" where
  "self_owner w p = \<lparr>lo_pid = pr_pid p, lo_boot = lw_boot w, lo_start = Some (pr_start p), lo_nonce = lw_nonce w\<rparr>"

lemma go_to_simps [simp]:
  "lw_lock (go_to p c w) = lw_lock w" "lw_boot (go_to p c w) = lw_boot w" "lw_procs (go_to p c w) = lw_procs w"
  "lw_nonce (go_to p c w) = lw_nonce w" "lw_pc (go_to p c w) q = (if q = p then c else lw_pc w q)"
  "go_to p c (go_to p d w) = go_to p c w" "go_to p c (w\<lparr>lw_lock := l\<rparr>) = (go_to p c w)\<lparr>lw_lock := l\<rparr>"
  "runs (go_to p c w) = runs w" "owner_alive (go_to p c w) = owner_alive w"
  "runs (w\<lparr>lw_lock := l\<rparr>) = runs w" "owner_alive (w\<lparr>lw_lock := l\<rparr>) = owner_alive w"
  "runs (w\<lparr>lw_nonce := n\<rparr>) = runs w" "owner_alive (w\<lparr>lw_nonce := n\<rparr>) = owner_alive w"
  by (auto simp: go_to_def runs_def owner_alive_def fun_eq_iff)

section \<open>Steps of a process\<close>

definition try_publish :: "nat \<Rightarrow> process \<Rightarrow> lock_world \<Rightarrow> lock_world" where
  "try_publish k p w =
     (case lw_lock w of
        None \<Rightarrow> (go_to p Holding w)\<lparr>lw_lock := Some (self_owner w p), lw_nonce := Suc (lw_nonce w)\<rparr>
      | Some _ \<Rightarrow> go_to p (Reading k) w)"

definition read_owner :: "nat \<Rightarrow> process \<Rightarrow> lock_world \<Rightarrow> lock_world" where
  "read_owner k p w =
     (case lw_lock w of None \<Rightarrow> go_to p Refused_lock w | Some o' \<Rightarrow> go_to p (Judging k o') w)"

definition judge_owner :: "nat \<Rightarrow> lock_owner \<Rightarrow> process \<Rightarrow> lock_world \<Rightarrow> lock_world" where
  "judge_owner k o' p w = go_to p (if owner_alive w o' then Refused_lock else Retiring k o') w"

text \<open>\<open>for (attempt < 2)\<close>: a retired lock leads to the next attempt, if there is one.\<close>

definition next_attempt :: "nat \<Rightarrow> lock_pc" where
  "next_attempt k = (if Suc k < 2 then Attempt (Suc k) else Refused_lock)"

definition retire_lock :: "nat \<Rightarrow> lock_owner \<Rightarrow> process \<Rightarrow> lock_world \<Rightarrow> lock_world" where
  "retire_lock k seen p w =
     (case lw_lock w of
        None \<Rightarrow> go_to p (next_attempt k) w
      | Some found \<Rightarrow> (go_to p (Moved k seen found) w)\<lparr>lw_lock := None\<rparr>)"

definition check_moved :: "nat \<Rightarrow> lock_owner \<Rightarrow> lock_owner \<Rightarrow> process \<Rightarrow> lock_world \<Rightarrow> lock_world" where
  "check_moved k seen found p w =
     go_to p (if lo_nonce found = lo_nonce seen then next_attempt k else Returning found) w"

definition return_lock :: "lock_owner \<Rightarrow> process \<Rightarrow> lock_world \<Rightarrow> lock_world" where
  "return_lock found p w =
     (let w' = go_to p Refused_lock w in if lw_lock w = None then w'\<lparr>lw_lock := Some found\<rparr> else w')"

definition lock_act :: "process \<Rightarrow> lock_world \<Rightarrow> lock_world" where
  "lock_act p w =
     (case lw_pc w p of
        Attempt k \<Rightarrow> try_publish k p w
      | Reading k \<Rightarrow> read_owner k p w
      | Judging k o' \<Rightarrow> judge_owner k o' p w
      | Retiring k seen \<Rightarrow> retire_lock k seen p w
      | Moved k seen found \<Rightarrow> check_moved k seen found p w
      | Returning found \<Rightarrow> return_lock found p w
      | _ \<Rightarrow> w)"

text \<open>\<open>release\<close> renames away whatever is at the path of the lock.\<close>

definition root_release :: "process \<Rightarrow> lock_world \<Rightarrow> lock_world" where
  "root_release p w = (if lw_pc w p = Holding then (go_to p Idle w)\<lparr>lw_lock := None\<rparr> else w)"

definition root_acquire :: "process \<Rightarrow> lock_world \<Rightarrow> lock_world" where
  "root_acquire p w = (if lw_pc w p = Idle \<or> lw_pc w p = Refused_lock then go_to p (Attempt 0) w else w)"

section \<open>Runs\<close>

datatype lock_event = Acquire process | Act process | Release process | Crash process | Spawn process | Reboot

text \<open>A process that is not running does nothing; a new one has a start time later than every other.\<close>

fun lock_exec :: "lock_event \<Rightarrow> lock_world \<Rightarrow> lock_world" where
  "lock_exec (Acquire p) w = (if runs w p then root_acquire p w else w)"
| "lock_exec (Act p) w = (if runs w p then lock_act p w else w)"
| "lock_exec (Release p) w = (if runs w p then root_release p w else w)"
| "lock_exec (Crash p) w = (if runs w p then w\<lparr>lw_procs := (lw_procs w)(pr_pid p := None)\<rparr> else w)"
| "lock_exec (Spawn p) w =
     (if lw_procs w (pr_pid p) = None \<and> lw_pc w p = Idle then w\<lparr>lw_procs := (lw_procs w)(pr_pid p := Some (pr_start p))\<rparr> else w)"
| "lock_exec Reboot w = w\<lparr>lw_boot := Suc (lw_boot w), lw_procs := (\<lambda>_. None)\<rparr>"

definition lock_run :: "lock_event list \<Rightarrow> lock_world \<Rightarrow> lock_world" where
  "lock_run es w = fold lock_exec es w"

definition holds_lock :: "lock_world \<Rightarrow> process \<Rightarrow> bool" where
  "holds_lock w p \<longleftrightarrow> runs w p \<and> lw_pc w p = Holding"

definition free_world :: lock_world where
  "free_world = \<lparr>lw_lock = None, lw_boot = 0, lw_procs = (\<lambda>_. None), lw_pc = (\<lambda>_. Idle), lw_nonce = 0\<rparr>"

fun is_death :: "lock_event \<Rightarrow> bool" where
  "is_death (Crash p) = True"
| "is_death Reboot = True"
| "is_death _ = False"

section \<open>Exclusion while no process dies\<close>

definition owned_by :: "lock_owner \<Rightarrow> process \<Rightarrow> bool" where
  "owned_by o' p \<longleftrightarrow> lo_pid o' = pr_pid p \<and> lo_start o' = Some (pr_start p)"

definition orderly :: "lock_world \<Rightarrow> bool" where
  "orderly w \<longleftrightarrow>
     (\<forall>p. lw_pc w p = Holding \<longrightarrow> runs w p \<and> (\<exists>o'. lw_lock w = Some o' \<and> owned_by o' p)) \<and>
     (\<forall>o'. lw_lock w = Some o' \<longrightarrow> owner_alive w o') \<and>
     (\<forall>p k o'. lw_pc w p = Judging k o' \<longrightarrow> owner_alive w o') \<and>
     (\<forall>p. \<forall>k seen. lw_pc w p \<noteq> Retiring k seen) \<and> (\<forall>p. \<forall>k seen found. lw_pc w p \<noteq> Moved k seen found) \<and>
     (\<forall>p. \<forall>found. lw_pc w p \<noteq> Returning found)"

lemma orderly_unique:
  assumes "orderly w" and "lw_pc w p = Holding" and "lw_pc w q = Holding"
  shows "p = q"
proof -
  obtain a where "lw_lock w = Some a" "owned_by a p" using assms(1,2) unfolding orderly_def by blast
  moreover obtain b where "lw_lock w = Some b" "owned_by b q" using assms(1,3) unfolding orderly_def by blast
  ultimately show ?thesis by (simp add: owned_by_def process.expand)
qed

lemmas lock_act_defs = lock_act_def try_publish_def read_owner_def judge_owner_def retire_lock_def check_moved_def
  return_lock_def next_attempt_def go_to_def

lemma self_owner_facts: "runs w p \<Longrightarrow> owner_alive w (self_owner w p)" "owned_by (self_owner w p) p"
  by (simp_all add: owner_alive_def runs_def self_owner_def owned_by_def)

lemma orderly_publish: "orderly w \<Longrightarrow> runs w p \<Longrightarrow> orderly (try_publish k p w)"
  by (cases "lw_lock w") (auto simp: orderly_def try_publish_def self_owner_facts split: if_splits)

lemma orderly_read: "orderly w \<Longrightarrow> lw_pc w p \<noteq> Holding \<Longrightarrow> orderly (read_owner k p w)"
  by (cases "lw_lock w") (auto simp: orderly_def read_owner_def split: if_splits)

lemma orderly_judge: "orderly w \<Longrightarrow> lw_pc w p = Judging k o' \<Longrightarrow> orderly (judge_owner k o' p w)"
  by (auto simp: orderly_def judge_owner_def split: if_splits)

lemma spawned:
  assumes "lw_procs w (pr_pid p) = None"
  shows "owner_alive w o' \<Longrightarrow> owner_alive (w\<lparr>lw_procs := (lw_procs w)(pr_pid p := Some (pr_start p))\<rparr>) o'"
    and "runs (w\<lparr>lw_procs := (lw_procs w)(pr_pid p := Some (pr_start p))\<rparr>) q \<longleftrightarrow> q = p \<or> runs w q"
proof -
  show "owner_alive w o' \<Longrightarrow> owner_alive (w\<lparr>lw_procs := (lw_procs w)(pr_pid p := Some (pr_start p))\<rparr>) o'"
    using assms by (auto simp: owner_alive_def split: option.splits)
  show "runs (w\<lparr>lw_procs := (lw_procs w)(pr_pid p := Some (pr_start p))\<rparr>) q \<longleftrightarrow> q = p \<or> runs w q"
    using assms by (cases p; cases q) (auto simp: runs_def split: if_splits)
qed

lemma orderly_act: "orderly w \<Longrightarrow> runs w p \<Longrightarrow> orderly (lock_act p w)"
proof (cases "lw_pc w p")
  case (Retiring k seen)
  then show "orderly w \<Longrightarrow> ?thesis" by (simp add: orderly_def)
next
  case (Moved k seen found)
  then show "orderly w \<Longrightarrow> ?thesis" by (simp add: orderly_def)
next
  case (Returning found)
  then show "orderly w \<Longrightarrow> ?thesis" by (simp add: orderly_def)
qed (simp_all add: lock_act_def orderly_publish orderly_read orderly_judge)

lemma orderly_exec: "orderly w \<Longrightarrow> \<not> is_death e \<Longrightarrow> orderly (lock_exec e w)"
proof (cases e)
  case (Acquire p)
  then show "orderly w \<Longrightarrow> ?thesis"
    by (auto simp: orderly_def root_acquire_def split: if_splits)
next
  case (Release p)
  show "orderly w \<Longrightarrow> ?thesis"
  proof (cases "lw_pc w p = Holding")
    case True
    assume o: "orderly w"
    have no: "lw_pc w q = Holding \<longleftrightarrow> q = p" for q
      using o True orderly_unique by blast
    show ?thesis
      using o Release by (auto simp: orderly_def root_release_def no split: if_splits)
  qed (use Release in \<open>simp add: root_release_def\<close>)
next
  case (Spawn p)
  assume o: "orderly w"
  then show ?thesis using Spawn spawned by (simp add: orderly_def)
qed (simp_all add: orderly_act)

lemma orderly_run: "\<forall>e\<in>set es. \<not> is_death e \<Longrightarrow> orderly w \<Longrightarrow> orderly (lock_run es w)"
  by (induction es arbitrary: w) (simp_all add: lock_run_def orderly_exec)

text \<open>
  C31. As long as no process dies, however the calls of any number of them interleave, at most one
  process holds the lock of a root session.
\<close>

theorem root_lock_exclusive:
  assumes "\<forall>e\<in>set es. \<not> is_death e"
    and "holds_lock (lock_run es free_world) p" and "holds_lock (lock_run es free_world) q"
  shows "p = q"
proof -
  have "orderly free_world" by (simp add: orderly_def free_world_def)
  then have "orderly (lock_run es free_world)" by (rule orderly_run [OF assms(1)])
  with assms(2,3) show ?thesis by (auto simp: holds_lock_def intro: orderly_unique)
qed

section \<open>A dead owner\<close>

lemma lock_run_Cons: "lock_run (e # es) w = lock_run es (lock_exec e w)"
  by (simp add: lock_run_def)

text \<open>
  C32. A process that runs alone takes over the lock a dead one left behind: one call of
  \<open>acquire\<close> ends with it holding the lock.
\<close>

theorem dead_lock_recovered:
  assumes "lw_lock w = Some o'" and "\<not> owner_alive w o'" and "runs w p" and "lw_pc w p = Idle \<or> lw_pc w p = Refused_lock"
  shows "holds_lock (lock_run [Acquire p, Act p, Act p, Act p, Act p, Act p, Act p] w) p"
proof -
  let ?free = "w\<lparr>lw_lock := None\<rparr>"
  have "lock_exec (Acquire p) w = go_to p (Attempt 0) w" using assms by (simp add: root_acquire_def)
  moreover have "lock_exec (Act p) (go_to p (Attempt 0) w) = go_to p (Reading 0) w"
    using assms by (simp add: lock_act_def try_publish_def)
  moreover have "lock_exec (Act p) (go_to p (Reading 0) w) = go_to p (Judging 0 o') w"
    using assms by (simp add: lock_act_def read_owner_def)
  moreover have "lock_exec (Act p) (go_to p (Judging 0 o') w) = go_to p (Retiring 0 o') w"
    using assms by (simp add: lock_act_def judge_owner_def)
  moreover have "lock_exec (Act p) (go_to p (Retiring 0 o') w) = go_to p (Moved 0 o' o') ?free"
    using assms by (simp add: lock_act_def retire_lock_def)
  moreover have "lock_exec (Act p) (go_to p (Moved 0 o' o') ?free) = go_to p (Attempt 1) ?free"
    using assms by (simp add: lock_act_def check_moved_def next_attempt_def)
  moreover have "holds_lock (lock_exec (Act p) (go_to p (Attempt 1) ?free)) p"
    using assms by (simp add: lock_act_def try_publish_def holds_lock_def)
  ultimately show ?thesis by (simp only: lock_run_Cons) (simp add: lock_run_def)
qed

text \<open>
  Three contenders for the lock of a dead one: C judged the dead lock and then renames away the one
  B took meanwhile; before C puts it back D publishes its own, and B and D both go on.
\<close>

definition race_prefix :: "lock_event list" where
  "race_prefix =
     (let a = (Process 5 5); b = (Process 2 2); c = (Process 3 3) in
      [Spawn a, Acquire a, Act a, Crash a, Spawn b, Spawn c,
       Acquire c, Act c, Act c, Act c,
       Acquire b, Act b, Act b, Act b, Act b, Act b, Act b,
       Act c, Act c])"

lemma race_prefix_state:
  "lock_run race_prefix free_world =
    \<lparr>lw_lock = None, lw_boot = 0, lw_procs = (\<lambda>_. None)(2 := Some 2, 3 := Some 3),
     lw_pc = (\<lambda>_. Idle)((Process 5 5) := Holding, (Process 2 2) := Holding, (Process 3 3) := Returning \<lparr>lo_pid = 2, lo_boot = 0, lo_start = Some 2, lo_nonce = Suc 0\<rparr>),
     lw_nonce = 2\<rparr>"
  by (simp add: lock_run_def race_prefix_def free_world_def root_acquire_def lock_act_defs runs_def owner_alive_def self_owner_def
      Let_def)

text \<open>
  C33. After a crash of the owner two different running processes can both end up holding the lock
  of the same root session.
\<close>

theorem root_lock_race:
  "\<exists>es p q. p \<noteq> q \<and> holds_lock (lock_run es free_world) p \<and> holds_lock (lock_run es free_world) q"
proof -
  let ?d = "Process 4 4"
  let ?es = "race_prefix @ [Spawn ?d, Acquire ?d, Act ?d, Act (Process 3 3)]"
  have "lock_run ?es free_world = lock_run [Spawn ?d, Acquire ?d, Act ?d, Act (Process 3 3)] (lock_run race_prefix free_world)"
    by (simp add: lock_run_def)
  then have "holds_lock (lock_run ?es free_world) (Process 2 2) \<and> holds_lock (lock_run ?es free_world) ?d"
    unfolding race_prefix_state
    by (simp add: lock_run_def holds_lock_def root_acquire_def lock_act_defs runs_def)
  moreover have "(Process 2 2) \<noteq> ?d" by simp
  ultimately show ?thesis by blast
qed

text \<open>
  Two contenders are enough for a lock that nobody can take: B releases while C has its lock moved
  away, and C puts the released lock back; as long as B lives nobody holds the lock again.
\<close>

definition stuck :: "lock_world \<Rightarrow> bool" where
  "stuck w \<longleftrightarrow>
     (\<exists>o'. lw_lock w = Some o' \<and> owner_alive w o') \<and>
     (\<forall>p k o'. lw_pc w p = Judging k o' \<longrightarrow> owner_alive w o') \<and>
     (\<forall>p. runs w p \<longrightarrow> lw_pc w p \<noteq> Holding) \<and>
     (\<forall>p. \<forall>k seen. lw_pc w p \<noteq> Retiring k seen) \<and> (\<forall>p. \<forall>k seen found. lw_pc w p \<noteq> Moved k seen found) \<and>
     (\<forall>p. \<forall>found. lw_pc w p \<noteq> Returning found)"

lemma stuck_act: "stuck w \<Longrightarrow> stuck (lock_act p w)"
proof (cases "lw_pc w p")
  case (Attempt k)
  then show "stuck w \<Longrightarrow> ?thesis" by (auto simp: lock_act_def try_publish_def stuck_def split: if_splits)
next
  case (Reading k)
  then show "stuck w \<Longrightarrow> ?thesis" by (auto simp: lock_act_def read_owner_def stuck_def split: if_splits)
next
  case (Judging k o')
  then show "stuck w \<Longrightarrow> ?thesis" by (auto simp: lock_act_def judge_owner_def stuck_def split: if_splits)
qed (simp_all add: stuck_def lock_act_def)

lemma stuck_exec: "stuck w \<Longrightarrow> \<not> is_death e \<Longrightarrow> stuck (lock_exec e w)"
proof (cases e)
  case (Spawn p)
  assume o: "stuck w"
  then show ?thesis using Spawn spawned by (auto simp: stuck_def)
next
  case (Acquire p)
  then show "stuck w \<Longrightarrow> ?thesis" by (auto simp: stuck_def root_acquire_def split: if_splits)
next
  case (Release p)
  then show "stuck w \<Longrightarrow> ?thesis" by (auto simp: stuck_def root_release_def split: if_splits)
qed (simp_all add: stuck_act)

lemma stuck_run: "\<forall>e\<in>set es. \<not> is_death e \<Longrightarrow> stuck w \<Longrightarrow> stuck (lock_run es w)"
  by (induction es arbitrary: w) (simp_all add: lock_run_def stuck_exec)

text \<open>
  After a crash of the owner a lock that was taken and released again can be put back by another
  contender, and from then on no process ever holds the lock while the one that released it lives.
\<close>

theorem released_lock_comes_back:
  "\<exists>es. \<forall>es'. (\<forall>e\<in>set es'. \<not> is_death e) \<longrightarrow> (\<forall>p. \<not> holds_lock (lock_run (es @ es') free_world) p)"
proof -
  let ?es = "race_prefix @ [Release (Process 2 2), Act (Process 3 3)]"
  have "lock_run ?es free_world = lock_run [Release (Process 2 2), Act (Process 3 3)] (lock_run race_prefix free_world)"
    by (simp add: lock_run_def)
  then have s: "stuck (lock_run ?es free_world)"
    unfolding race_prefix_state
    by (simp add: lock_run_def stuck_def root_release_def lock_act_defs runs_def owner_alive_def)
  have "\<not> holds_lock (lock_run (?es @ es') free_world) p" if "\<forall>e\<in>set es'. \<not> is_death e" for es' p
  proof -
    have "lock_run (?es @ es') free_world = lock_run es' (lock_run ?es free_world)" by (simp add: lock_run_def)
    then show ?thesis using stuck_run [OF that s] by (simp add: stuck_def holds_lock_def)
  qed
  then show ?thesis by blast
qed

section \<open>Witnesses\<close>

lemma root_lock_exclusive_witness:
  "\<not> holds_lock (lock_run [Spawn (Process 2 2), Spawn (Process 3 3), Acquire (Process 3 3), Acquire (Process 2 2),
      Act (Process 2 2), Act (Process 3 3)] free_world) (Process 3 3)"
proof
  let ?es = "[Spawn (Process 2 2), Spawn (Process 3 3), Acquire (Process 3 3), Acquire (Process 2 2),
      Act (Process 2 2), Act (Process 3 3)]"
  assume h: "holds_lock (lock_run ?es free_world) (Process 3 3)"
  have b: "holds_lock (lock_run ?es free_world) (Process 2 2)"
    by (simp add: lock_run_def free_world_def root_acquire_def lock_act_defs runs_def holds_lock_def)
  from root_lock_exclusive [OF _ h b] show False by simp
qed

lemma dead_lock_recovered_witness:
  "holds_lock (lock_run [Acquire (Process 2 2), Act (Process 2 2), Act (Process 2 2), Act (Process 2 2), Act (Process 2 2),
      Act (Process 2 2), Act (Process 2 2)]
    (lock_run [Spawn (Process 5 5), Acquire (Process 5 5), Act (Process 5 5), Crash (Process 5 5), Spawn (Process 2 2)] free_world))
    (Process 2 2)"
  by (rule dead_lock_recovered [where o' = "self_owner free_world (Process 5 5)"])
    (simp_all add: lock_run_def free_world_def root_acquire_def lock_act_defs runs_def owner_alive_def self_owner_def)

lemma released_lock_comes_back_witness:
  "\<exists>es. \<not> holds_lock (lock_run (es @ [Spawn (Process 9 9), Acquire (Process 9 9), Act (Process 9 9)]) free_world) (Process 9 9)"
proof -
  obtain es where "\<forall>es'. (\<forall>e\<in>set es'. \<not> is_death e) \<longrightarrow> (\<forall>p. \<not> holds_lock (lock_run (es @ es') free_world) p)"
    using released_lock_comes_back by blast
  then show ?thesis by (intro exI [of _ es]) simp
qed

end
