(* ===== verification/Sandbox.thy ===== *)
theory Sandbox
  imports Policy Json
begin

text \<open>
  \<open>ponygirls-subagents/src/sandbox.ts\<close>: how the bubblewrap executor turns a tool job into the command
  line of its launcher, what the host executor refuses, and how the output of a job is collected.

  What the file system answers (\<open>existsSync\<close>, \<open>realpathSync\<close>, \<open>statSync\<close>, \<open>accessSync\<close>) is the record
  \<open>host\<close>. The launcher itself is not part of the sources: what it shows a job is a parameter \<open>shows\<close> of
  the theorems, and \<open>applies_in_order\<close> is the one documented law they use, that mounts take effect in
  the order of the command line and a later one covers what is below its destination.
\<close>

section \<open>Paths\<close>

record host =
  h_exists :: "jstring \<Rightarrow> bool"
  h_realpath :: "jstring \<Rightarrow> jstring"
  h_is_dir :: "jstring \<Rightarrow> bool"
  h_is_file :: "jstring \<Rightarrow> bool"
  h_executable :: "jstring \<Rightarrow> bool"

definition is_under :: "jstring \<Rightarrow> jstring \<Rightarrow> bool" where
  "is_under path rt \<longleftrightarrow>
     path = rt \<or> starts_with path (if ends_with_slash rt then rt else rt @ js ''/'')"

definition real :: "host \<Rightarrow> jstring \<Rightarrow> jstring" where
  "real h p = (if h_exists h p then h_realpath h p else p)"

text \<open>\<open>path.dirname\<close> of the Node library, for POSIX paths.\<close>

fun dirname :: "jstring \<Rightarrow> jstring" where
  "dirname [] = js ''.''"
| "dirname (c # cs) =
     (let body = dropWhile (\<lambda>x. x \<noteq> 47) (dropWhile (\<lambda>x. x = 47) (rev cs)) in
      if body = [] then (if c = 47 then js ''/'' else js ''.'')
      else if c = 47 \<and> tl body = [] then js ''//''
      else c # rev (tl body))"

definition SYSTEM_RUNTIME_ROOTS :: "jstring list" where
  "SYSTEM_RUNTIME_ROOTS = map js
     [''/nix/store'', ''/usr'', ''/bin'', ''/sbin'', ''/lib'', ''/lib32'', ''/lib64'']"

definition IDENTITY_FILES :: "jstring list" where
  "IDENTITY_FILES = map js [''/etc/passwd'', ''/etc/group'', ''/etc/alternatives'']"

text \<open>The first candidate that is an executable file, by its real path.\<close>

fun first_executable :: "host \<Rightarrow> jstring list \<Rightarrow> jstring option" where
  "first_executable h [] = None"
| "first_executable h (c # cs) =
     (if h_executable h c \<and> h_is_file h c then Some (h_realpath h c) else first_executable h cs)"

definition resolve_exe :: "host \<Rightarrow> jstring \<Rightarrow> jstring \<Rightarrow> jstring option" where
  "resolve_exe h exe path_env = first_executable h
     (if 47 \<in> set exe then [exe]
      else map (\<lambda>d. d @ js ''/'' @ exe)
             (filter (\<lambda>d. starts_with d (js ''/'')) (split_on 58 path_env)))"

fun runtime_path :: "host \<Rightarrow> jstring \<Rightarrow> jstring list \<Rightarrow> jstring list \<Rightarrow> jstring list" where
  "runtime_path h home out [] = out"
| "runtime_path h home out (d # ds) =
     (if \<not> starts_with d (js ''/'') \<or> d \<in> set out then runtime_path h home out ds
      else if d = home \<or> starts_with d (home @ js ''/'') \<or> starts_with d (js ''/run/wrappers'')
        then runtime_path h home out ds
      else if \<not> h_exists h d then runtime_path h home out ds
      else runtime_path h home (out @ [d]) ds)"

definition sandbox_runtime_path :: "host \<Rightarrow> jstring \<Rightarrow> jstring \<Rightarrow> jstring list" where
  "sandbox_runtime_path h host_path home = runtime_path h home [] (split_on 58 host_path)"

text \<open>The store path of a file below the Nix store, else the directory of the file.\<close>

definition runtime_root :: "jstring \<Rightarrow> jstring option" where
  "runtime_root p =
     (if starts_with p (js ''/nix/store/'')
      then (let seg = takeWhile (\<lambda>c. c \<noteq> 47) (drop 11 p) in
            if seg = [] then None else Some (js ''/nix/store/'' @ seg))
      else Some (dirname p))"

definition resolve_runtime_roots :: "jstring list \<Rightarrow> jstring list" where
  "resolve_runtime_roots explicit = fold set_add (List.map_filter runtime_root explicit) []"

section \<open>The command line of the launcher\<close>

record sandbox_view =
  sv_read_roots :: "jstring list"
  sv_writable :: "jstring option"
  sv_tmp :: jstring
  sv_hides :: "jstring list"
  sv_storage :: "jstring list"
  sv_read_only :: "jstring list"
  sv_runtime :: "jstring list"
  sv_network :: bool

record tool_spec =
  ts_operation :: jstring
  ts_argv :: "jstring list"
  ts_cwd :: jstring
  ts_env :: "(jstring \<times> jstring) list"
  ts_stdin :: "jstring option"
  ts_timeout_ms :: int
  ts_max_output :: int
  ts_view :: "sandbox_view option"

datatype bwrap_op =
    Switch jstring
  | Proc jstring
  | Dev jstring
  | Tmpfs jstring
  | Ro_bind jstring jstring
  | Cover_file jstring
  | Rw_bind jstring jstring
  | Setenv jstring jstring
  | Chdir jstring

text \<open>The arguments each of them puts on the command line.\<close>

fun op_args :: "bwrap_op \<Rightarrow> jstring list" where
  "op_args (Switch s) = [s]"
| "op_args (Proc d) = [js ''--proc'', d]"
| "op_args (Dev d) = [js ''--dev'', d]"
| "op_args (Tmpfs d) = [js ''--tmpfs'', d]"
| "op_args (Ro_bind s d) = [js ''--ro-bind'', s, d]"
| "op_args (Cover_file d) = [js ''--ro-bind'', js ''/dev/null'', d]"
| "op_args (Rw_bind s d) = [js ''--bind'', s, d]"
| "op_args (Setenv k v) = [js ''--setenv'', k, v]"
| "op_args (Chdir d) = [js ''--chdir'', d]"

definition base_args :: "bwrap_op list" where
  "base_args = map (\<lambda>s. Switch (js s))
     [''--unshare-pid'', ''--unshare-ipc'', ''--unshare-uts'', ''--unshare-net'',
      ''--unshare-cgroup-try'', ''--die-with-parent'', ''--new-session'', ''--clearenv'']
     @ [Proc (js ''/proc''), Dev (js ''/dev''), Tmpfs (js ''/tmp'')]"

definition bind_existing :: "host \<Rightarrow> jstring list \<Rightarrow> bwrap_op list" where
  "bind_existing h ps = map (\<lambda>p. Ro_bind p p) (filter (h_exists h) ps)"

definition runtime_args :: "host \<Rightarrow> jstring list \<Rightarrow> jstring list \<Rightarrow> bwrap_op list" where
  "runtime_args h exes extra =
     bind_existing h
       (fold set_add (SYSTEM_RUNTIME_ROOTS @ extra @ resolve_runtime_roots exes) [])
     @ bind_existing h IDENTITY_FILES"

definition exposed_roots :: "host \<Rightarrow> sandbox_view \<Rightarrow> jstring list" where
  "exposed_roots h v =
     filter (h_exists h) (SYSTEM_RUNTIME_ROOTS @ sv_runtime v @ sv_read_roots v)"

text \<open>Where the view shows each hidden path below an exposed root.\<close>

definition hide_targets :: "host \<Rightarrow> sandbox_view \<Rightarrow> jstring list" where
  "hide_targets h v = fold set_add
     [root' @ drop (length (real h root')) hide.
        hide \<leftarrow> map (real h) (filter (h_exists h) (sv_hides v)),
        root' \<leftarrow> exposed_roots h v, is_under hide (real h root')] []"

definition hidden :: "jstring list \<Rightarrow> jstring \<Rightarrow> bool" where
  "hidden hides p \<longleftrightarrow> list_ex (is_under p) hides"

definition storage_masks :: "host \<Rightarrow> sandbox_view \<Rightarrow> jstring list" where
  "storage_masks h v = fold set_add
     [if is_under storage (real h root') then root' @ drop (length (real h root')) storage
      else root'.
        storage \<leftarrow> map (real h) (filter (h_exists h) (sv_storage v)),
        root' \<leftarrow> exposed_roots h v,
        is_under storage (real h root') \<or> is_under (real h root') storage] []"

definition mask_op :: "host \<Rightarrow> jstring \<Rightarrow> bwrap_op" where
  "mask_op h d = (if h_is_dir h d then Tmpfs d else Cover_file d)"

definition writable_op :: "sandbox_view \<Rightarrow> bwrap_op list" where
  "writable_op v = (case sv_writable v of
     None \<Rightarrow> [] | Some w \<Rightarrow> if w = [] then [] else [Rw_bind w w])"

definition view_ops :: "host \<Rightarrow> tool_spec \<Rightarrow> sandbox_view \<Rightarrow> bwrap_op list" where
  "view_ops h spec v =
     (let hides = hide_targets h v in
      base_args @ runtime_args h (take 1 (ts_argv spec)) (sv_runtime v)
      @ map (\<lambda>kv. Setenv (fst kv) (snd kv)) (ts_env spec)
      @ bind_existing h (filter (\<lambda>r. \<not> hidden hides r) (sv_read_roots v))
      @ map (mask_op h) hides
      @ bind_existing h (filter (hidden hides) (sv_read_roots v))
      @ map (mask_op h) (storage_masks h v)
      @ bind_existing h (sv_read_only v)
      @ writable_op v
      @ [Rw_bind (sv_tmp v) (sv_tmp v), Chdir (ts_cwd spec)])"

datatype sandbox_error =
    No_view
  | View_given
  | Network_denied
  | Probe_failed
  | Relative_executable
  | Stat_failed

text \<open>
  \<open>BwrapToolExecutor.exec\<close> up to the start of the launcher; \<open>probe_ok\<close> is the outcome of \<open>probe()\<close>.
  \<open>statSync\<close> of a path to be masked throws when the path is missing.
\<close>

definition bwrap_exec :: "host \<Rightarrow> bool \<Rightarrow> tool_spec \<Rightarrow> sandbox_error + bwrap_op list" where
  "bwrap_exec h probe_ok spec = (case ts_view spec of
     None \<Rightarrow> Inl No_view
   | Some v \<Rightarrow>
       if sv_network v then Inl Network_denied
       else if \<not> probe_ok then Inl Probe_failed
       else if ts_argv spec = [] \<or> \<not> starts_with (hd (ts_argv spec)) (js ''/'')
         then Inl Relative_executable
       else if \<not> list_all (h_exists h) (hide_targets h v @ storage_masks h v) then Inl Stat_failed
       else Inr (view_ops h spec v))"

definition launcher_args :: "tool_spec \<Rightarrow> bwrap_op list \<Rightarrow> jstring list" where
  "launcher_args spec ops = concat (map op_args ops) @ js ''--'' # ts_argv spec"

definition host_exec :: "tool_spec \<Rightarrow> sandbox_error + jstring list" where
  "host_exec spec =
     (if ts_view spec \<noteq> None then Inl View_given
      else if ts_argv spec = [] \<or> \<not> starts_with (hd (ts_argv spec)) (js ''/'')
        then Inl Relative_executable
      else Inr (ts_argv spec))"

section \<open>What a view shows\<close>

datatype shown = Nothing_shown | Private | Host_file jstring bool

definition stem :: "jstring \<Rightarrow> jstring" where
  "stem r = (if ends_with_slash r then butlast r else r)"

text \<open>The host path shown at \<open>p\<close> when the host directory \<open>src\<close> is mounted at \<open>dst\<close>.\<close>

definition graft :: "jstring \<Rightarrow> jstring \<Rightarrow> jstring \<Rightarrow> jstring" where
  "graft src dst p = (if p = dst then src else stem src @ drop (length (stem dst)) p)"

fun op_shows :: "host \<Rightarrow> bwrap_op \<Rightarrow> jstring \<Rightarrow> shown option" where
  "op_shows h (Ro_bind s d) p =
     (if is_under p d then Some (Host_file (graft (real h s) d p) False) else None)"
| "op_shows h (Rw_bind s d) p =
     (if is_under p d then Some (Host_file (graft (real h s) d p) True) else None)"
| "op_shows h (Tmpfs d) p = (if is_under p d then Some Private else None)"
| "op_shows h (Cover_file d) p = (if is_under p d then Some Private else None)"
| "op_shows h (Proc d) p = (if is_under p d then Some Private else None)"
| "op_shows h (Dev d) p = (if is_under p d then Some Private else None)"
| "op_shows h (Switch s) p = None"
| "op_shows h (Setenv k v) p = None"
| "op_shows h (Chdir d) p = None"

definition applies_in_order :: "host \<Rightarrow> (bwrap_op list \<Rightarrow> jstring \<Rightarrow> shown) \<Rightarrow> bool" where
  "applies_in_order h shows' \<longleftrightarrow>
     (\<forall>p. shows' [] p = Nothing_shown) \<and>
     (\<forall>ops op p. shows' (ops @ [op]) p =
        (case op_shows h op p of Some x \<Rightarrow> x | None \<Rightarrow> shows' ops p))"

text \<open>The mount that decides about \<open>p\<close>, and a launcher that obeys the law.\<close>

definition cover_of :: "host \<Rightarrow> bwrap_op list \<Rightarrow> jstring \<Rightarrow> shown option" where
  "cover_of h ops p =
     fold (\<lambda>op acc. case op_shows h op p of Some x \<Rightarrow> Some x | None \<Rightarrow> acc) ops None"

definition layered :: "host \<Rightarrow> bwrap_op list \<Rightarrow> jstring \<Rightarrow> shown" where
  "layered h ops p = (case cover_of h ops p of Some x \<Rightarrow> x | None \<Rightarrow> Nothing_shown)"

lemma cover_of_Nil [simp]: "cover_of h [] p = None"
  by (simp add: cover_of_def)

lemma cover_of_snoc [simp]:
  "cover_of h (ops @ [op]) p = (case op_shows h op p of Some x \<Rightarrow> Some x | None \<Rightarrow> cover_of h ops p)"
  by (cases "op_shows h op p") (simp_all add: cover_of_def)

lemma cover_of_append:
  "cover_of h (xs @ ys) p = (case cover_of h ys p of Some x \<Rightarrow> Some x | None \<Rightarrow> cover_of h xs p)"
proof (induction ys rule: rev_induct)
  case (snoc y ys)
  then show ?case
    by (simp add: append_assoc [symmetric] del: append_assoc split: option.splits)
qed simp

lemma cover_of_Some: "cover_of h ops p = Some x \<Longrightarrow> \<exists>op \<in> set ops. op_shows h op p = Some x"
  by (induction ops rule: rev_induct) (auto split: option.splits)

lemma cover_of_None: "cover_of h ops p = None \<Longrightarrow> op \<in> set ops \<Longrightarrow> op_shows h op p = None"
  by (induction ops rule: rev_induct) (auto split: option.splits)

lemma layered_applies_in_order: "applies_in_order h (layered h)"
  by (auto simp: applies_in_order_def layered_def split: option.splits)

lemma in_order_layered: "applies_in_order h shows' \<Longrightarrow> shows' ops p = layered h ops p"
  by (induction ops rule: rev_induct)
     (auto simp: applies_in_order_def layered_def split: option.splits)

section \<open>Prefixes\<close>

definition proper :: "jstring \<Rightarrow> bool" where
  "proper r \<longleftrightarrow> r = [47] \<or> (r \<noteq> [] \<and> \<not> ends_with_slash r)"

definition tidy_root :: "host \<Rightarrow> jstring \<Rightarrow> bool" where
  "tidy_root h r \<longleftrightarrow> proper r \<and> proper (real h r) \<and> (real h r = [47] \<longleftrightarrow> r = [47])"

lemma is_under_refl [simp]: "is_under p p"
  by (simp add: is_under_def)

lemma js_slash: "js ''/'' = [47]"
  by (simp add: js_def)

lemma is_under_extend: "is_under (d @ 47 # q) d"
  by (auto simp: is_under_def starts_with_iff js_slash)

lemma stem_proper: "proper r \<Longrightarrow> stem r = (if r = [47] then [] else r)"
  by (auto simp: proper_def stem_def ends_with_slash_def)

lemma is_under_proper:
  assumes "proper r"
  shows "is_under p r \<longleftrightarrow> p = r \<or> (\<exists>q. p = stem r @ 47 # q)"
  using assms unfolding stem_proper [OF assms]
  by (auto simp: is_under_def proper_def starts_with_iff js_slash ends_with_slash_def)

lemma under_masked:
  assumes r: "tidy_root h r" and s: "proper s" and p: "is_under p r"
    and f: "is_under (graft (real h r) r p) s" and sr: "is_under s (real h r)"
  shows "is_under p (r @ drop (length (real h r)) s)"
proof -
  have pr: "proper r" "proper (real h r)" and top: "real h r = [47] \<longleftrightarrow> r = [47]"
    using r by (auto simp: tidy_root_def)
  show ?thesis
  proof (cases "p = r")
    case True
    then have "is_under (real h r) s" using f by (simp add: graft_def)
    then have "s = real h r"
      using sr pr s by (auto simp: is_under_proper stem_proper split: if_splits)
    then show ?thesis using True by simp
  next
    case ne: False
    then obtain q where q: "p = stem r @ 47 # q" using p pr by (auto simp: is_under_proper)
    then have g: "graft (real h r) r p = stem (real h r) @ 47 # q" using ne by (simp add: graft_def)
    show ?thesis
    proof (cases "s = real h r")
      case True
      then show ?thesis using p by simp
    next
      case False
      then obtain t where t: "s = stem (real h r) @ 47 # t" using sr pr by (auto simp: is_under_proper)
      have f': "is_under (stem (real h r) @ 47 # q) s" using f g by simp
      have "s \<noteq> [47]" using t False pr by (auto simp: stem_proper proper_def append_eq_Cons_conv split: if_splits)
      then have "stem s = s" using s by (simp add: stem_proper)
      then have "p = stem r @ 47 # t \<or> (\<exists>u. p = (stem r @ 47 # t) @ 47 # u)"
        using f' unfolding is_under_proper [OF s] by (auto simp: q t)
      moreover have "r @ drop (length (real h r)) s = stem r @ 47 # t"
        using pr top by (auto simp: t stem_proper)
      ultimately show ?thesis using is_under_extend [of "stem r @ 47 # t"] by auto
    qed
  qed
qed

section \<open>The boundary of a sandboxed job\<close>

lemma set_fold_set_add [simp]: "set (fold set_add xs ys) = set xs \<union> set ys"
  by (induction xs arbitrary: ys) (auto simp: set_add_def)

text \<open>
  Real paths are resolved paths, and what a view is built from is written without a trailing slash and
  does not resolve to the top directory unless it is the top directory.
\<close>

definition tidy_view :: "host \<Rightarrow> sandbox_view \<Rightarrow> bool" where
  "tidy_view h v \<longleftrightarrow>
     (\<forall>p \<in> set (sv_hides v @ sv_storage v). h_exists h p \<longrightarrow> proper (h_realpath h p)) \<and>
     (\<forall>r \<in> set (exposed_roots h v). tidy_root h r)"

text \<open>
  The paths a view shows whatever is hidden or masked: the read-only workspaces the supervisor selected,
  the writer's own worktree, the private scratch directory, and what the job's executable and the
  identity files need.
\<close>

definition writable_paths :: "sandbox_view \<Rightarrow> jstring list" where
  "writable_paths v = sv_tmp v # (case sv_writable v of None \<Rightarrow> [] | Some w \<Rightarrow> if w = [] then [] else [w])"

definition selected_paths :: "tool_spec \<Rightarrow> sandbox_view \<Rightarrow> jstring list" where
  "selected_paths spec v =
     writable_paths v @ sv_read_only v @ resolve_runtime_roots (take 1 (ts_argv spec)) @ IDENTITY_FILES"

definition binds_of :: "bwrap_op list \<Rightarrow> jstring set" where
  "binds_of ops = {d. \<exists>s. Ro_bind s d \<in> set ops \<or> Rw_bind s d \<in> set ops}"

lemma binds_of_simps [simp]:
  "binds_of [] = {}" "binds_of (a @ b) = binds_of a \<union> binds_of b"
  "binds_of (map (mask_op h) ds) = {}" "binds_of (map (\<lambda>kv. Setenv (k kv) (w kv)) kvs) = {}"
  "binds_of base_args = {}" "binds_of (bind_existing h ps) = set (filter (h_exists h) ps)"
  by (auto simp: binds_of_def mask_op_def base_args_def bind_existing_def)

lemma binds_of_Cons [simp]:
  "binds_of (Ro_bind s d # ops) = insert d (binds_of ops)"
  "binds_of (Rw_bind s d # ops) = insert d (binds_of ops)"
  "binds_of (Chdir d # ops) = binds_of ops"
  by (auto simp: binds_of_def)

fun self_bind :: "bwrap_op \<Rightarrow> bool" where
  "self_bind (Ro_bind s d) \<longleftrightarrow> s = d"
| "self_bind (Rw_bind s d) \<longleftrightarrow> s = d"
| "self_bind op \<longleftrightarrow> True"

lemma self_binds [simp]:
  "list_all self_bind base_args" "list_all self_bind (bind_existing h ps)"
  "list_all self_bind (map (mask_op h) ds)"
  "list_all self_bind (map (\<lambda>kv. Setenv (k kv) (w kv)) kvs)"
  by (auto simp: base_args_def bind_existing_def mask_op_def list_all_iff)

lemma shown_by_bind:
  assumes "cover_of h ops p = Some (Host_file f w)" and "list_all self_bind ops"
  shows "\<exists>d \<in> binds_of ops. is_under p d \<and> f = graft (real h d) d p"
proof -
  obtain op where op: "op \<in> set ops" "op_shows h op p = Some (Host_file f w)"
    using cover_of_Some [OF assms(1)] by blast
  then have self: "self_bind op" using assms(2) by (simp add: list_all_iff)
  have "\<exists>d. (Ro_bind d d = op \<or> Rw_bind d d = op) \<and> is_under p d \<and> f = graft (real h d) d p"
    using op(2) self by (cases op) (auto split: if_splits)
  then show ?thesis using op(1) by (auto simp: binds_of_def)
qed

lemma masks_are_private:
  "cover_of h (map (mask_op h) ds) p = (if list_ex (is_under p) ds then Some Private else None)"
  by (induction ds rule: rev_induct) (auto simp: mask_op_def)

text \<open>A view in three layers: what is bound first, the storage masks, and what is bound over them.\<close>

definition soft_ops :: "host \<Rightarrow> tool_spec \<Rightarrow> sandbox_view \<Rightarrow> bwrap_op list" where
  "soft_ops h spec v =
     base_args @ runtime_args h (take 1 (ts_argv spec)) (sv_runtime v)
     @ map (\<lambda>kv. Setenv (fst kv) (snd kv)) (ts_env spec)
     @ bind_existing h (filter (\<lambda>r. \<not> hidden (hide_targets h v) r) (sv_read_roots v))"

definition over_ops :: "host \<Rightarrow> tool_spec \<Rightarrow> sandbox_view \<Rightarrow> bwrap_op list" where
  "over_ops h spec v =
     bind_existing h (sv_read_only v) @ writable_op v
     @ [Rw_bind (sv_tmp v) (sv_tmp v), Chdir (ts_cwd spec)]"

lemma view_ops_layers:
  "view_ops h spec v =
     soft_ops h spec v @ map (mask_op h) (hide_targets h v)
     @ bind_existing h (filter (hidden (hide_targets h v)) (sv_read_roots v))
     @ map (mask_op h) (storage_masks h v) @ over_ops h spec v"
  by (simp add: view_ops_def soft_ops_def over_ops_def Let_def)

lemma layers_self [simp]:
  "list_all self_bind (soft_ops h spec v)" "list_all self_bind (over_ops h spec v)"
  by (auto simp: soft_ops_def over_ops_def runtime_args_def writable_op_def split: option.splits)

lemma binds_of_over: "binds_of (over_ops h spec v) \<subseteq> set (selected_paths spec v)"
  by (auto simp: over_ops_def writable_op_def selected_paths_def writable_paths_def split: option.splits)

lemma binds_of_soft:
  "d \<in> binds_of (soft_ops h spec v) \<Longrightarrow> d \<in> set (exposed_roots h v) \<or> d \<in> set (selected_paths spec v)"
  by (auto simp: soft_ops_def runtime_args_def selected_paths_def exposed_roots_def)

lemma in_storage_masks:
  assumes "s \<in> set (sv_storage v)" "h_exists h s" "r \<in> set (exposed_roots h v)"
  shows "is_under (real h s) (real h r) \<Longrightarrow>
           r @ drop (length (real h r)) (real h s) \<in> set (storage_masks h v)"
    and "\<not> is_under (real h s) (real h r) \<Longrightarrow> is_under (real h r) (real h s) \<Longrightarrow>
           r \<in> set (storage_masks h v)"
  using assms by (auto simp: storage_masks_def)

lemma in_hide_targets:
  assumes "s \<in> set (sv_hides v)" "h_exists h s" "r \<in> set (exposed_roots h v)"
    and "is_under (real h s) (real h r)"
  shows "r @ drop (length (real h r)) (real h s) \<in> set (hide_targets h v)"
  using assms by (auto simp: hide_targets_def)

lemma tidy_viewD:
  "tidy_view h v \<Longrightarrow> r \<in> set (exposed_roots h v) \<Longrightarrow> tidy_root h r"
  "tidy_view h v \<Longrightarrow> s \<in> set (sv_storage v) \<Longrightarrow> h_exists h s \<Longrightarrow> proper (real h s)"
  "tidy_view h v \<Longrightarrow> s \<in> set (sv_hides v) \<Longrightarrow> h_exists h s \<Longrightarrow> proper (real h s)"
  by (auto simp: tidy_view_def real_def)

text \<open>Two directories that both hold a path lie one in the other.\<close>

lemma under_both:
  assumes "proper a" "proper b" and "is_under f a" "is_under f b"
  shows "is_under a b \<or> is_under b a"
proof -
  have "f = a \<or> f = b \<or> (\<exists>q r. stem a @ 47 # q = stem b @ 47 # r)"
    using assms by (auto simp: is_under_proper)
  moreover have "is_under a b \<or> is_under b a" if e: "stem a @ 47 # q = stem b @ 47 # r" for q r
  proof -
    obtain us where "stem a = stem b @ us \<and> us @ 47 # q = 47 # r \<or> stem a @ us = stem b \<and> 47 # q = us @ 47 # r"
      using e by (auto simp: append_eq_append_conv2)
    then show ?thesis
      using assms(1,2) by (auto simp: is_under_proper stem_proper Cons_eq_append_conv append_eq_Cons_conv split: if_splits)
  qed
  ultimately show ?thesis using assms(3,4) by auto
qed

lemma graft_under: "tidy_root h r \<Longrightarrow> is_under p r \<Longrightarrow> is_under (graft (real h r) r p) (real h r)"
  by (auto simp: tidy_root_def is_under_proper graft_def stem_proper)

text \<open>What an exposed root shows of a storage path is masked.\<close>

lemma exposed_storage_masked:
  assumes "tidy_view h v" "r \<in> set (exposed_roots h v)" "is_under p r"
    and "s \<in> set (sv_storage v)" "h_exists h s" "is_under (graft (real h r) r p) (real h s)"
  shows "list_ex (is_under p) (storage_masks h v)"
proof -
  note tidy = tidy_viewD (1) [OF assms(1,2)] tidy_viewD (2) [OF assms(1,4,5)]
  show ?thesis
  proof (cases "is_under (real h s) (real h r)")
    case True
    then have "is_under p (r @ drop (length (real h r)) (real h s))"
      by (rule under_masked [OF tidy assms(3,6)])
    then show ?thesis
      using in_storage_masks (1) [OF assms(4,5,2) True] by (auto simp: list_ex_iff)
  next
    case False
    then have "is_under (real h r) (real h s)"
      using under_both [OF _ _ graft_under assms(6)] tidy assms(3) by (auto simp: tidy_root_def)
    then show ?thesis
      using in_storage_masks (2) [OF assms(4,5,2) False] assms(3) by (auto simp: list_ex_iff)
  qed
qed

lemma selected_over:
  assumes "cover_of h (over_ops h spec v) p = Some (Host_file f w)"
  shows "\<exists>d \<in> set (selected_paths spec v). is_under p d"
  using shown_by_bind [OF assms layers_self(2)] binds_of_over by blast

lemma selected_soft:
  assumes "cover_of h (soft_ops h spec v) p = Some (Host_file f w)"
  shows "(\<exists>d \<in> set (selected_paths spec v). is_under p d) \<or>
         (\<exists>r \<in> set (exposed_roots h v). is_under p r \<and> f = graft (real h r) r p)"
  using shown_by_bind [OF assms layers_self(1)] binds_of_soft by blast

lemma selected_rebound:
  assumes "cover_of h (bind_existing h (filter (hidden hides) (sv_read_roots v))) p = Some (Host_file f w)"
  shows "\<exists>r \<in> set (exposed_roots h v). r \<in> set (sv_read_roots v) \<and> hidden hides r \<and>
           is_under p r \<and> f = graft (real h r) r p"
  using shown_by_bind [OF assms] by (auto simp: exposed_roots_def)

lemma exposed_hide_masked:
  assumes "tidy_view h v" "r \<in> set (exposed_roots h v)" "is_under p r"
    and "s \<in> set (sv_hides v)" "h_exists h s" "is_under (graft (real h r) r p) (real h s)"
  shows "list_ex (is_under p) (hide_targets h v) \<or> is_under (real h r) (real h s)"
proof -
  note tidy = tidy_viewD (1) [OF assms(1,2)] tidy_viewD (3) [OF assms(1,4,5)]
  show ?thesis
  proof (cases "is_under (real h s) (real h r)")
    case True
    then have "is_under p (r @ drop (length (real h r)) (real h s))"
      by (rule under_masked [OF tidy assms(3,6)])
    then show ?thesis
      using in_hide_targets [OF assms(4,5,2) True] by (auto simp: list_ex_iff)
  next
    case False
    then show ?thesis
      using under_both [OF _ _ graft_under assms(6)] tidy assms(3) by (auto simp: tidy_root_def)
  qed
qed

lemma bwrap_exec_ops:
  "bwrap_exec h ok spec = Inr ops \<Longrightarrow> ts_view spec = Some v \<Longrightarrow> ops = view_ops h spec v"
  by (auto simp: bwrap_exec_def split: if_splits)

lemma shown_layer:
  assumes "layered h (view_ops h spec v) p = Host_file f w"
  shows "(\<exists>d \<in> set (selected_paths spec v). is_under p d) \<or>
         (\<not> list_ex (is_under p) (storage_masks h v) \<and>
          (\<exists>r \<in> set (exposed_roots h v). is_under p r \<and> f = graft (real h r) r p \<and>
             (r \<in> set (sv_read_roots v) \<and> hidden (hide_targets h v) r \<or>
              \<not> list_ex (is_under p) (hide_targets h v))))"
proof (cases "cover_of h (over_ops h spec v) p")
  case (Some x)
  then show ?thesis
    using assms selected_over [of h spec v p f w] by (auto simp: layered_def view_ops_layers cover_of_append)
next
  case over: None
  then have masked: "\<not> list_ex (is_under p) (storage_masks h v)"
    using assms by (auto simp: layered_def view_ops_layers cover_of_append masks_are_private)
  show ?thesis
  proof (cases "cover_of h (bind_existing h (filter (hidden (hide_targets h v)) (sv_read_roots v))) p")
    case (Some x)
    then have "x = Host_file f w"
      using assms over masked by (auto simp: layered_def view_ops_layers cover_of_append masks_are_private)
    then show ?thesis using selected_rebound Some masked by blast
  next
    case None
    then have "\<not> list_ex (is_under p) (hide_targets h v)" "cover_of h (soft_ops h spec v) p = Some (Host_file f w)"
      using assms over masked
      by (auto simp: layered_def view_ops_layers cover_of_append masks_are_private split: option.splits if_splits)
    then show ?thesis using selected_soft masked by blast
  qed
qed

text \<open>
  C11. In a sandboxed job no path of the view shows a file of a storage namespace (the pools of writer
  worktrees), except below what the supervisor selected for this job: the read-only candidate, the
  writer's own worktree, the scratch directory, and what the executable and the identity files need.
  It does not matter what read roots the caller was granted or which of them lie in the storage.
\<close>

theorem storage_stays_masked:
  assumes "applies_in_order h shows'" and "bwrap_exec h probe_ok spec = Inr ops"
    and "ts_view spec = Some v" and "tidy_view h v"
    and "s \<in> set (sv_storage v)" and "h_exists h s"
    and "shows' ops p = Host_file f w" and "is_under f (real h s)"
  shows "\<exists>d \<in> set (selected_paths spec v). is_under p d"
proof -
  have "layered h (view_ops h spec v) p = Host_file f w"
    using assms(7) in_order_layered [OF assms(1)] bwrap_exec_ops [OF assms(2,3)] by simp
  from shown_layer [OF this] show ?thesis
    using exposed_storage_masked [OF assms(4) _ _ assms(5,6)] assms(8) by blast
qed

text \<open>
  In a sandboxed job a path of the view shows a file of a hidden directory (the supervisor's store,
  the credentials) only below what the supervisor selected, or below an approved read root that lies in
  a hidden directory.
\<close>

theorem hidden_unless_approved:
  assumes "applies_in_order h shows'" and "bwrap_exec h probe_ok spec = Inr ops"
    and "ts_view spec = Some v" and "tidy_view h v"
    and "s \<in> set (sv_hides v)" and "h_exists h s"
    and "shows' ops p = Host_file f w" and "is_under f (real h s)"
  shows "(\<exists>d \<in> set (selected_paths spec v). is_under p d) \<or>
         (\<exists>r \<in> set (exposed_roots h v). is_under p r \<and>
            (hidden (hide_targets h v) r \<or> is_under (real h r) (real h s)))"
proof -
  have "layered h (view_ops h spec v) p = Host_file f w"
    using assms(7) in_order_layered [OF assms(1)] bwrap_exec_ops [OF assms(2,3)] by simp
  from shown_layer [OF this] show ?thesis
    using exposed_hide_masked [OF assms(4) _ _ assms(5,6)] assms(8) by blast
qed

lemma writes_of_view:
  "Rw_bind s d \<in> set (view_ops h spec v) \<Longrightarrow> d \<in> set (writable_paths v) \<and> s = d"
  by (auto simp: view_ops_def Let_def base_args_def runtime_args_def bind_existing_def mask_op_def
      writable_op_def writable_paths_def split: option.splits if_splits)

text \<open>
  What a sandboxed job can write on the host is its scratch directory and, for a writer, its own
  worktree: every other path of the view is read-only, private to the job, or absent.
\<close>

theorem writes_confined:
  assumes "applies_in_order h shows'" and "bwrap_exec h probe_ok spec = Inr ops"
    and "ts_view spec = Some v" and "shows' ops p = Host_file f True"
  shows "\<exists>d \<in> set (writable_paths v). is_under p d \<and> f = graft (real h d) d p"
proof -
  have "cover_of h (view_ops h spec v) p = Some (Host_file f True)"
    using assms(4) in_order_layered [OF assms(1)] bwrap_exec_ops [OF assms(2,3)]
    by (simp add: layered_def split: option.splits)
  then obtain op where op: "op \<in> set (view_ops h spec v)" "op_shows h op p = Some (Host_file f True)"
    using cover_of_Some by blast
  have "\<exists>s d. op = Rw_bind s d \<and> is_under p d \<and> f = graft (real h s) d p"
    using op(2) by (cases op) (auto split: if_splits)
  then show ?thesis using op(1) writes_of_view by blast
qed

section \<open>Running a job\<close>

text \<open>
  \<open>runJob\<close> and \<open>cancelJob\<close> as the events of one child process. \<open>rj_waits\<close> counts cancellations that
  wait for the child to be reaped, \<open>rj_result\<close> is what the promise of the job resolved to, once.
\<close>

datatype job_signal = SIGTERM | SIGKILL

record job_result =
  jr_exit_code :: "int option"
  jr_signal :: "jstring option"
  jr_stdout :: jstring
  jr_stderr :: jstring
  jr_truncated :: bool
  jr_timed_out :: bool

record running_job =
  rj_stdout :: "nat list"
  rj_stderr :: "nat list"
  rj_truncated :: bool
  rj_timed_out :: bool
  rj_running :: bool
  rj_signals :: "job_signal list"
  rj_waits :: nat
  rj_cancelled :: nat
  rj_result :: "job_result option"

datatype job_event =
    Stdout_data "nat list"
  | Stderr_data "nat list"
  | Job_timeout
  | Child_exit
  | Child_close "int option" "jstring option"
  | Spawn_error jstring
  | Cancel_job
  | Cancel_grace

definition start_job :: running_job where
  "start_job = \<lparr> rj_stdout = [], rj_stderr = [], rj_truncated = False, rj_timed_out = False,
     rj_running = True, rj_signals = [], rj_waits = 0, rj_cancelled = 0, rj_result = None \<rparr>"

definition cap_chunk :: "nat \<Rightarrow> nat list \<Rightarrow> nat list \<Rightarrow> nat list \<times> bool" where
  "cap_chunk cap cur buf =
     (if length cur + length buf > cap then (cur @ take (cap - length cur) buf, True)
      else (cur @ buf, False))"

definition send_signal :: "job_signal \<Rightarrow> running_job \<Rightarrow> running_job" where
  "send_signal sg j = j\<lparr> rj_signals := rj_signals j @ [sg] \<rparr>"

definition finish_job :: "int option \<Rightarrow> jstring option \<Rightarrow> jstring \<Rightarrow> running_job \<Rightarrow> running_job" where
  "finish_job code sg extra j = j\<lparr> rj_running := False,
     rj_result := (case rj_result j of Some r \<Rightarrow> Some r | None \<Rightarrow>
       Some \<lparr> jr_exit_code = code, jr_signal = sg, jr_stdout = utf8_decode (rj_stdout j),
              jr_stderr = utf8_decode (rj_stderr j) @ extra,
              jr_truncated = rj_truncated j, jr_timed_out = rj_timed_out j \<rparr>) \<rparr>"

fun job_step :: "bool \<Rightarrow> nat \<Rightarrow> job_event \<Rightarrow> running_job \<Rightarrow> running_job" where
  "job_step grp cap (Stdout_data b) j = (let (out, cut) = cap_chunk cap (rj_stdout j) b in
     j\<lparr> rj_stdout := out, rj_truncated := (cut \<or> rj_truncated j) \<rparr>)"
| "job_step grp cap (Stderr_data b) j = (let (out, cut) = cap_chunk cap (rj_stderr j) b in
     j\<lparr> rj_stderr := out, rj_truncated := (cut \<or> rj_truncated j) \<rparr>)"
| "job_step grp cap Job_timeout j =
     (if rj_running j then send_signal SIGKILL (j\<lparr> rj_timed_out := True \<rparr>) else j)"
| "job_step grp cap Child_exit j = (if grp then send_signal SIGKILL j else j)"
| "job_step grp cap (Child_close code sg) j =
     (let j' = finish_job code sg [] j in
      j'\<lparr> rj_waits := 0, rj_cancelled := rj_cancelled j' + rj_waits j' \<rparr>)"
| "job_step grp cap (Spawn_error m) j =
     finish_job None None (10 # js ''spawn error: '' @ m) j"
| "job_step grp cap Cancel_job j =
     (if rj_running j then (send_signal SIGTERM j)\<lparr> rj_waits := Suc (rj_waits j) \<rparr>
      else j\<lparr> rj_cancelled := Suc (rj_cancelled j) \<rparr>)"
| "job_step grp cap Cancel_grace j =
     (if rj_waits j = 0 then j
      else (send_signal SIGKILL j)\<lparr> rj_waits := rj_waits j - 1, rj_cancelled := Suc (rj_cancelled j) \<rparr>)"

definition run_job :: "bool \<Rightarrow> nat \<Rightarrow> job_event list \<Rightarrow> running_job" where
  "run_job grp cap evs = fold (job_step grp cap) evs start_job"

text \<open>What the child wrote, and how often it was asked to stop.\<close>

fun out_of :: "job_event \<Rightarrow> nat list" where
  "out_of (Stdout_data b) = b" | "out_of _ = []"

fun err_of :: "job_event \<Rightarrow> nat list" where
  "err_of (Stderr_data b) = b" | "err_of _ = []"

definition written :: "(job_event \<Rightarrow> nat list) \<Rightarrow> job_event list \<Rightarrow> nat list" where
  "written f evs = concat (map f evs)"

lemma run_job_snoc: "run_job g cap (evs @ [e]) = job_step g cap e (run_job g cap evs)"
  by (simp add: run_job_def)

lemma cap_chunk_take:
  "cap_chunk cap (take cap w) b = (take cap (w @ b), length (take cap w) + length b > cap)"
  by (auto simp: cap_chunk_def min_def)

lemma job_streams:
  "rj_stdout (run_job g cap evs) = take cap (written out_of evs) \<and>
   rj_stderr (run_job g cap evs) = take cap (written err_of evs) \<and>
   (rj_truncated (run_job g cap evs) \<longleftrightarrow>
      length (written out_of evs) > cap \<or> length (written err_of evs) > cap)"
proof (induction evs rule: rev_induct)
  case Nil
  then show ?case by (simp add: run_job_def start_job_def written_def)
next
  case (snoc e evs)
  then show ?case
    by (cases e) (auto simp: run_job_snoc written_def cap_chunk_take finish_job_def send_signal_def Let_def)
qed

definition unfinished :: "job_event list \<Rightarrow> bool" where
  "unfinished evs \<longleftrightarrow> list_all (\<lambda>e. case e of Child_close _ _ \<Rightarrow> False | Spawn_error _ \<Rightarrow> False | _ \<Rightarrow> True) evs"

lemma job_unfinished:
  "unfinished evs \<Longrightarrow> rj_result (run_job g cap evs) = None \<and> rj_running (run_job g cap evs) \<and>
     (rj_timed_out (run_job g cap evs) \<longleftrightarrow> Job_timeout \<in> set evs)"
proof (induction evs rule: rev_induct)
  case Nil
  then show ?case by (simp add: run_job_def start_job_def)
next
  case (snoc e evs)
  then show ?case
    by (cases e) (auto simp: run_job_snoc unfinished_def send_signal_def Let_def split: prod.splits)
qed

text \<open>
  A job that closes after any interleaving of output, time-out and cancellation reports, of each of
  its two streams, exactly the first bytes up to the limit, and reports truncation exactly when one of
  them was longer.
\<close>

theorem job_output_capped:
  assumes "unfinished evs"
  shows "rj_result (run_job g cap (evs @ [Child_close code sg])) = Some
    \<lparr> jr_exit_code = code, jr_signal = sg,
      jr_stdout = utf8_decode (take cap (written out_of evs)),
      jr_stderr = utf8_decode (take cap (written err_of evs)),
      jr_truncated = (cap < length (written out_of evs) \<or> cap < length (written err_of evs)),
      jr_timed_out = (Job_timeout \<in> set evs) \<rparr>"
  using job_unfinished [OF assms, of g cap] job_streams [of g cap evs]
  by (simp add: run_job_snoc finish_job_def Let_def)

lemma job_output_capped_witness:
  "rj_result (run_job True 3 ([Stdout_data [104, 105], Stderr_data [33], Stdout_data [50, 51], Cancel_job]
     @ [Child_close None (Some (js ''SIGTERM''))])) = Some
    \<lparr> jr_exit_code = None, jr_signal = Some (js ''SIGTERM''), jr_stdout = [104, 105, 50], jr_stderr = [33],
      jr_truncated = True, jr_timed_out = False \<rparr>"
proof -
  have "unfinished [Stdout_data [104, 105], Stderr_data [33], Stdout_data [50, 51], Cancel_job]"
    "utf8_decode (take 3 [104, 105, 50, 51]) = [104, 105, 50]" "utf8_decode (take 3 [33]) = [33]"
    by code_simp+
  with job_output_capped [of "[Stdout_data [104, 105], Stderr_data [33], Stdout_data [50, 51], Cancel_job]" True 3]
  show ?thesis by (simp add: written_def)
qed

text \<open>Every cancellation has come back or still waits for the child, and a reaped child leaves none waiting.\<close>

lemma cancellations_come_back:
  "rj_waits (run_job g cap evs) + rj_cancelled (run_job g cap evs) = length (filter (\<lambda>e. e = Cancel_job) evs) \<and>
   (rj_waits (run_job g cap evs) \<noteq> 0 \<longrightarrow> SIGTERM \<in> set (rj_signals (run_job g cap evs)))"
proof (induction evs rule: rev_induct)
  case Nil
  then show ?case by (simp add: run_job_def start_job_def)
next
  case (snoc e evs)
  then show ?case
    by (cases e) (auto simp: run_job_snoc finish_job_def send_signal_def Let_def split: prod.splits)
qed

section \<open>Samples\<close>

definition sample_host :: host where
  "sample_host = \<lparr> h_exists = (\<lambda>_. True), h_realpath = id, h_is_dir = (\<lambda>_. True),
     h_is_file = (\<lambda>_. True), h_executable = (\<lambda>_. True) \<rparr>"

text \<open>
  A caller that may read \<open>/u\<close> and the pool \<open>/u/pool\<close>; \<open>/u/a\<close> holds the credentials and \<open>/u/a/s/1\<close> is
  the store of the session.
\<close>

definition sample_view :: sandbox_view where
  "sample_view = \<lparr> sv_read_roots = [js ''/u'', js ''/u/pool''], sv_writable = Some (js ''/u/pool/w''),
     sv_tmp = js ''/u/a/s/1/t'', sv_hides = [js ''/u/a/s/1'', js ''/u/a''], sv_storage = [js ''/u/pool''],
     sv_read_only = [], sv_runtime = [], sv_network = False \<rparr>"

definition sample_spec :: "sandbox_view \<Rightarrow> tool_spec" where
  "sample_spec v = \<lparr> ts_operation = js ''o'', ts_argv = [js ''/bin/sh''], ts_cwd = js ''/u'',
     ts_env = [], ts_stdin = None, ts_timeout_ms = 1000, ts_max_output = 100, ts_view = Some v \<rparr>"

lemma sample_ops:
  "bwrap_exec sample_host True (sample_spec sample_view) = Inr (view_ops sample_host (sample_spec sample_view) sample_view)"
  by code_simp

lemma sample_tidy: "tidy_view sample_host sample_view"
  by code_simp

lemma storage_stays_masked_witness:
  "\<exists>d \<in> set (selected_paths (sample_spec sample_view) sample_view). is_under (js ''/u/pool/w/f'') d"
proof (rule storage_stays_masked)
  show "applies_in_order sample_host (layered sample_host)" by (rule layered_applies_in_order)
  show "bwrap_exec sample_host True (sample_spec sample_view)
          = Inr (view_ops sample_host (sample_spec sample_view) sample_view)" by (rule sample_ops)
  show "ts_view (sample_spec sample_view) = Some sample_view" by (simp add: sample_spec_def)
  show "tidy_view sample_host sample_view" by (rule sample_tidy)
  show "js ''/u/pool'' \<in> set (sv_storage sample_view)" by (simp add: sample_view_def)
  show "h_exists sample_host (js ''/u/pool'')" by code_simp
  show "layered sample_host (view_ops sample_host (sample_spec sample_view) sample_view) (js ''/u/pool/w/f'')
          = Host_file (js ''/u/pool/w/f'') True" by code_simp
  show "is_under (js ''/u/pool/w/f'') (real sample_host (js ''/u/pool''))" by code_simp
qed

lemma writes_confined_witness:
  "\<exists>d \<in> set (writable_paths sample_view). is_under (js ''/u/pool/w/f'') d \<and>
     js ''/u/pool/w/f'' = graft (real sample_host d) d (js ''/u/pool/w/f'')"
proof (rule writes_confined)
  show "applies_in_order sample_host (layered sample_host)" by (rule layered_applies_in_order)
  show "bwrap_exec sample_host True (sample_spec sample_view)
          = Inr (view_ops sample_host (sample_spec sample_view) sample_view)" by (rule sample_ops)
  show "ts_view (sample_spec sample_view) = Some sample_view" by (simp add: sample_spec_def)
  show "layered sample_host (view_ops sample_host (sample_spec sample_view) sample_view) (js ''/u/pool/w/f'')
          = Host_file (js ''/u/pool/w/f'') True" by code_simp
qed

text \<open>The sibling worktree is masked, and so are the store and the credentials.\<close>

lemma sample_shows:
  "map (layered sample_host (view_ops sample_host (sample_spec sample_view) sample_view))
     [js ''/u/pool/x/f'', js ''/u/a/auth.json'', js ''/u/a/s/1/journal'', js ''/u/f'', js ''/x'']
   = [Private, Private, Private, Host_file (js ''/u/f'') False, Nothing_shown]"
  by code_simp

definition nested_view :: sandbox_view where
  "nested_view = sample_view\<lparr> sv_read_roots := [js ''/u'', js ''/u/a/s''], sv_writable := None \<rparr>"

text \<open>
  A hidden directory is shown after all when it lies below an approved read root that itself lies
  in another hidden directory: the root is bound again over the mask of the inner one. Here the caller
  may read \<open>/u\<close> and \<open>/u/a/s\<close>, both \<open>/u/a\<close> and the store \<open>/u/a/s/1\<close> are hidden, and the journal of the
  store is in the view.
\<close>

theorem nested_hide_is_shown:
  "js ''/u/a/s/1'' \<in> set (sv_hides nested_view) \<and>
   bwrap_exec sample_host True (sample_spec nested_view)
     = Inr (view_ops sample_host (sample_spec nested_view) nested_view) \<and>
   layered sample_host (view_ops sample_host (sample_spec nested_view) nested_view) (js ''/u/a/s/1/journal'')
     = Host_file (js ''/u/a/s/1/journal'') False"
proof (intro conjI)
  show "js ''/u/a/s/1'' \<in> set (sv_hides nested_view)" by (simp add: nested_view_def sample_view_def)
  show "bwrap_exec sample_host True (sample_spec nested_view)
     = Inr (view_ops sample_host (sample_spec nested_view) nested_view)" by code_simp
  show "layered sample_host (view_ops sample_host (sample_spec nested_view) nested_view) (js ''/u/a/s/1/journal'')
     = Host_file (js ''/u/a/s/1/journal'') False" by code_simp
qed

end
