(* ===== verification/ToolArgs.thy ===== *)
theory ToolArgs
  imports Json GateSpec
begin

text \<open>
  The supervisor's side of the file and shell tools, \<open>ponygirls-subagents/src/tools.ts\<close>: validation of
  their arguments and the scripts that run in the sandbox. A script gets its arguments as JSON on its
  standard input and works on file contents, which are strings of UTF-16 units; \<open>process.exit(1)\<close> is the
  left side of a sum. Whether a pattern is a regular expression of the runtime is the parameter \<open>is_re\<close>.
\<close>

section \<open>Validation\<close>

datatype tool_fault =
    Arg_required string
  | Arg_not_string string
  | Arg_empty string
  | Arg_not_integer string int
  | Arg_not_boolean string
  | Pattern_invalid
  | Content_not_string
  | Edits_empty
  | Old_text_invalid nat
  | New_text_invalid nat
  | Command_too_large
  | Timeout_invalid
  | No_implementation jstring

datatype fault_code = FC_INVALID | FC_PAYLOAD_TOO_LARGE | FC_POLICY_DENIED

fun fault_code_of :: "tool_fault \<Rightarrow> fault_code" where
  "fault_code_of Command_too_large = FC_PAYLOAD_TOO_LARGE"
| "fault_code_of (No_implementation t) = FC_POLICY_DENIED"
| "fault_code_of _ = FC_INVALID"

definition READ_DEFAULT_LINES :: nat where "READ_DEFAULT_LINES = 2000"
definition READ_MAX_BYTES :: nat where "READ_MAX_BYTES = 50 * 1024"

definition str_arg :: "js_value \<Rightarrow> string \<Rightarrow> bool \<Rightarrow> tool_fault + js_value" where
  "str_arg args key required = (case field args (js key) of
     JUndef \<Rightarrow> if required then Inl (Arg_required key) else Inr JUndef
   | JNull \<Rightarrow> if required then Inl (Arg_required key) else Inr JUndef
   | JStr s \<Rightarrow> if required \<and> s = [] then Inl (Arg_empty key) else Inr (JStr s)
   | _ \<Rightarrow> Inl (Arg_not_string key))"

definition int_arg :: "js_value \<Rightarrow> string \<Rightarrow> int \<Rightarrow> tool_fault + js_value" where
  "int_arg args key low = (case field args (js key) of
     JUndef \<Rightarrow> Inr JUndef
   | JNull \<Rightarrow> Inr JUndef
   | JNum (Fin q) \<Rightarrow> if is_int_rat q \<and> of_int low \<le> q then Inr (JNum (Fin q))
                    else Inl (Arg_not_integer key low)
   | _ \<Rightarrow> Inl (Arg_not_integer key low))"

definition bool_arg :: "js_value \<Rightarrow> string \<Rightarrow> tool_fault + js_value" where
  "bool_arg args key = (case field args (js key) of
     JUndef \<Rightarrow> Inr JUndef
   | JNull \<Rightarrow> Inr JUndef
   | JBool b \<Rightarrow> Inr (JBool b)
   | _ \<Rightarrow> Inl (Arg_not_boolean key))"

fun edit_args :: "nat \<Rightarrow> js_value list \<Rightarrow> tool_fault + js_value list" where
  "edit_args i [] = Inr []"
| "edit_args i (e # es) = (case field e (js ''oldText'') of
     JStr old \<Rightarrow>
       if old = [] then Inl (Old_text_invalid i)
       else (case field e (js ''newText'') of
         JStr new \<Rightarrow> and_then (edit_args (Suc i) es) (\<lambda>out.
           Inr (JObj [(js ''oldText'', JStr old), (js ''newText'', JStr new)] # out))
       | _ \<Rightarrow> Inl (New_text_invalid i))
   | _ \<Rightarrow> Inl (Old_text_invalid i))"

definition read_args :: "js_value \<Rightarrow> tool_fault + js_value" where
  "read_args args =
     and_then (str_arg args ''path'' True) (\<lambda>p.
     and_then (int_arg args ''offset'' 1) (\<lambda>off.
     and_then (int_arg args ''limit'' 1) (\<lambda>lim.
     Inr (JObj [(js ''path'', p), (js ''offset'', off), (js ''limit'', lim)]))))"

definition ls_args :: "js_value \<Rightarrow> tool_fault + js_value" where
  "ls_args args =
     and_then (str_arg args ''path'' False) (\<lambda>p.
     and_then (int_arg args ''limit'' 1) (\<lambda>lim.
     Inr (JObj [(js ''path'', p), (js ''limit'', lim)])))"

definition find_args :: "js_value \<Rightarrow> tool_fault + js_value" where
  "find_args args =
     and_then (str_arg args ''pattern'' True) (\<lambda>pat.
     and_then (str_arg args ''path'' False) (\<lambda>p.
     and_then (int_arg args ''limit'' 1) (\<lambda>lim.
     Inr (JObj [(js ''pattern'', pat), (js ''path'', p), (js ''limit'', lim)]))))"

definition grep_args :: "(jstring \<Rightarrow> bool) \<Rightarrow> js_value \<Rightarrow> tool_fault + js_value" where
  "grep_args is_re args =
     and_then (str_arg args ''pattern'' True) (\<lambda>pat.
     and_then (str_arg args ''path'' False) (\<lambda>p.
     and_then (str_arg args ''glob'' False) (\<lambda>g.
     and_then (bool_arg args ''ignoreCase'') (\<lambda>ic.
     and_then (bool_arg args ''literal'') (\<lambda>lit.
     and_then (int_arg args ''context'' 0) (\<lambda>ctx.
     and_then (int_arg args ''limit'' 1) (\<lambda>lim.
       if lit \<noteq> JBool True \<and> (case pat of JStr s \<Rightarrow> \<not> is_re s | _ \<Rightarrow> False) then Inl Pattern_invalid
       else Inr (JObj [(js ''pattern'', pat), (js ''path'', p), (js ''glob'', g), (js ''ignoreCase'', ic),
                       (js ''literal'', lit), (js ''context'', ctx), (js ''limit'', lim)]))))))))"

definition write_args :: "js_value \<Rightarrow> tool_fault + js_value" where
  "write_args args = (case field args (js ''content'') of
     JStr c \<Rightarrow> and_then (str_arg args ''path'' True) (\<lambda>p.
       Inr (JObj [(js ''path'', p), (js ''content'', JStr c)]))
   | _ \<Rightarrow> Inl Content_not_string)"

definition edit_tool_args :: "js_value \<Rightarrow> tool_fault + js_value" where
  "edit_tool_args args = (case field args (js ''edits'') of
     JArr es \<Rightarrow>
       if es = [] then Inl Edits_empty
       else and_then (str_arg args ''path'' True) (\<lambda>p.
            and_then (edit_args 0 es) (\<lambda>out.
            Inr (JObj [(js ''path'', p), (js ''edits'', JArr out)])))
   | _ \<Rightarrow> Inl Edits_empty)"

definition bash_args :: "js_value \<Rightarrow> tool_fault + js_value" where
  "bash_args args =
     and_then (str_arg args ''command'' True) (\<lambda>cmd.
       if (case cmd of JStr s \<Rightarrow> MAX_COMMAND_BYTES < utf8_length s | _ \<Rightarrow> False)
         then Inl Command_too_large
       else (case field args (js ''timeout'') of
         JUndef \<Rightarrow> Inr (JObj [(js ''command'', cmd), (js ''timeout'', JUndef)])
       | JNull \<Rightarrow> Inr (JObj [(js ''command'', cmd), (js ''timeout'', JUndef)])
       | JNum x \<Rightarrow> if (case x of Fin q \<Rightarrow> 0 < q | PosInf \<Rightarrow> True | _ \<Rightarrow> False)
                  then Inr (JObj [(js ''command'', cmd), (js ''timeout'', JNum x)])
                  else Inl Timeout_invalid
       | _ \<Rightarrow> Inl Timeout_invalid))"

definition validate_tool_args :: "(jstring \<Rightarrow> bool) \<Rightarrow> jstring \<Rightarrow> js_value \<Rightarrow> tool_fault + js_value" where
  "validate_tool_args is_re tool args =
     (if tool = js ''read'' then read_args args
      else if tool = js ''ls'' then ls_args args
      else if tool = js ''find'' then find_args args
      else if tool = js ''grep'' then grep_args is_re args
      else if tool = js ''write'' then write_args args
      else if tool = js ''edit'' then edit_tool_args args
      else if tool = js ''bash'' then bash_args args
      else Inl (No_implementation tool))"

definition bash_timeout_ms :: "js_value \<Rightarrow> int" where
  "bash_timeout_ms args = (case field args (js ''timeout'') of
     JNum (Fin q) \<Rightarrow> (case round_nonneg (1000 * q) of
        Fin r \<Rightarrow> min \<lceil>r\<rceil> BASH_MAX_TIMEOUT_MS | _ \<Rightarrow> BASH_MAX_TIMEOUT_MS)
   | JNum PosInf \<Rightarrow> BASH_MAX_TIMEOUT_MS
   | JNum _ \<Rightarrow> BASH_MAX_TIMEOUT_MS
   | _ \<Rightarrow> BASH_DEFAULT_TIMEOUT_MS)"

section \<open>What is checked is what runs\<close>

text \<open>
  The broker normalises the request through JSON, validates it, and hands the result to the script as
  JSON again, so the script works on \<open>json_norm out\<close>.
\<close>

lemma str_arg_Inr:
  "str_arg args key req = Inr v \<Longrightarrow> (\<exists>s. v = JStr s \<and> (req \<longrightarrow> s \<noteq> [])) \<or> v = JUndef \<and> \<not> req"
  unfolding str_arg_def by (cases "field args (js key)"; cases req; force split: if_splits)

lemma int_arg_Inr:
  "int_arg args key low = Inr v \<Longrightarrow>
     v = JUndef \<or> (\<exists>q. v = JNum (Fin q) \<and> is_int_rat q \<and> of_int low \<le> q)"
  by (cases "field args (js key)") (auto simp: int_arg_def split: js_num.splits if_splits)

lemma bool_arg_Inr: "bool_arg args key = Inr v \<Longrightarrow> v = JUndef \<or> (\<exists>b. v = JBool b)"
  by (cases "field args (js key)") (auto simp: bool_arg_def)

lemma edit_args_Inr:
  "edit_args i es = Inr out \<Longrightarrow> length out = length es \<and>
     (\<forall>e \<in> set out. \<exists>old new. e = JObj [(js ''oldText'', JStr old), (js ''newText'', JStr new)] \<and> old \<noteq> [])"
  by (induction i es arbitrary: out rule: edit_args.induct)
     (auto simp: and_then_Inr_iff split: js_value.splits if_splits)

lemma edit_args_again:
  assumes "\<forall>e \<in> set out. \<exists>old new. e = JObj [(js ''oldText'', JStr old), (js ''newText'', JStr new)] \<and> old \<noteq> []"
  shows "edit_args i out = Inr out" and "map json_norm out = out"
proof -
  show "edit_args i out = Inr out"
    using assms
  proof (induction out arbitrary: i)
    case (Cons e es)
    then have "edit_args (Suc i) es = Inr es" by simp
    then show ?case using Cons.prems by auto
  qed simp
  show "map json_norm out = out" using assms by (induction out) auto
qed

lemma field_json_norm_finite: "field (json_norm v) k = JNum x \<Longrightarrow> is_finite x"
proof -
  have fin: "json_norm u = JNum x \<Longrightarrow> is_finite x" for u by (cases u) (auto split: if_splits)
  assume a: "field (json_norm v) k = JNum x"
  then obtain kvs where "v = JObj kvs" by (cases v) (auto split: if_splits)
  with a show ?thesis
    by (auto split: option.splits dest!: map_of_SomeD intro: fin [OF sym])
qed

text \<open>The arguments a script gets hold the validated value of every key.\<close>

lemma field_norm:
  "distinct (map fst kvs) \<Longrightarrow> map_of kvs k = Some v \<Longrightarrow> v = JUndef \<or> json_norm v = v \<Longrightarrow>
     field (json_norm (JObj kvs)) k = v"
proof -
  assume d: "distinct (map fst kvs)" and m: "map_of kvs k = Some v" and v: "v = JUndef \<or> json_norm v = v"
  let ?g = "\<lambda>kvs. map (\<lambda>(k, v). (k, json_norm v)) (filter (\<lambda>(k, v). v \<noteq> JUndef) kvs)"
  have none: "k \<notin> fst ` set kvs \<Longrightarrow> map_of (?g kvs) k = None" for kvs :: "(jstring \<times> js_value) list"
    by (induction kvs) auto
  have "map_of (?g kvs) k = (if v = JUndef then None else Some (json_norm v))"
    using d m
  proof (induction kvs)
    case (Cons kv kvs)
    then show ?case by (cases kv) (auto simp: none split: if_splits)
  qed simp
  then show ?thesis using v by (cases "v = JUndef") (simp_all del: map_of_map)
qed

lemma arg_again:
  "str_arg args key req = Inr v \<Longrightarrow> field args' (js key) = v \<Longrightarrow> str_arg args' key req = Inr v"
  "int_arg args key low = Inr v \<Longrightarrow> field args' (js key) = v \<Longrightarrow> int_arg args' key low = Inr v"
  "bool_arg args key = Inr v \<Longrightarrow> field args' (js key) = v \<Longrightarrow> bool_arg args' key = Inr v"
  by (drule str_arg_Inr int_arg_Inr bool_arg_Inr, erule disjE,
      (elim exE conjE)?, simp add: str_arg_def int_arg_def bool_arg_def,
      (elim exE conjE)?, simp add: str_arg_def int_arg_def bool_arg_def)+

lemma arg_plain:
  "str_arg args key req = Inr v \<Longrightarrow> v = JUndef \<or> json_norm v = v"
  "int_arg args key low = Inr v \<Longrightarrow> v = JUndef \<or> json_norm v = v"
  "bool_arg args key = Inr v \<Longrightarrow> v = JUndef \<or> json_norm v = v"
  by (auto dest!: str_arg_Inr int_arg_Inr bool_arg_Inr)

lemma arg_norm:
  "str_arg args key req = Inr v \<Longrightarrow> distinct (map fst kvs) \<Longrightarrow> map_of kvs (js key) = Some v \<Longrightarrow>
     str_arg (json_norm (JObj kvs)) key req = Inr v"
  "int_arg args key low = Inr v \<Longrightarrow> distinct (map fst kvs) \<Longrightarrow> map_of kvs (js key) = Some v \<Longrightarrow>
     int_arg (json_norm (JObj kvs)) key low = Inr v"
  "bool_arg args key = Inr v \<Longrightarrow> distinct (map fst kvs) \<Longrightarrow> map_of kvs (js key) = Some v \<Longrightarrow>
     bool_arg (json_norm (JObj kvs)) key = Inr v"
  by (rule arg_again, assumption, rule field_norm, assumption, assumption, rule arg_plain, assumption)+

lemma read_args_again: "read_args args = Inr out \<Longrightarrow> read_args (json_norm out) = Inr out"
  unfolding read_args_def and_then_Inr_iff
  by (elim exE conjE, drule Inr_inject, hypsubst, intro exI conjI)
     ((rule arg_norm, assumption, simp, simp)+, simp)

lemma ls_args_again: "ls_args args = Inr out \<Longrightarrow> ls_args (json_norm out) = Inr out"
  unfolding ls_args_def and_then_Inr_iff
  by (elim exE conjE, drule Inr_inject, hypsubst, intro exI conjI)
     ((rule arg_norm, assumption, simp, simp)+, simp)

lemma find_args_again: "find_args args = Inr out \<Longrightarrow> find_args (json_norm out) = Inr out"
  unfolding find_args_def and_then_Inr_iff
  by (elim exE conjE, drule Inr_inject, hypsubst, intro exI conjI)
     ((rule arg_norm, assumption, simp, simp)+, simp)

lemma grep_args_again: "grep_args is_re args = Inr out \<Longrightarrow> grep_args is_re (json_norm out) = Inr out"
proof -
  assume "grep_args is_re args = Inr out"
  then obtain pat p g ic lit ctx lim where
      a: "str_arg args ''pattern'' True = Inr pat" "str_arg args ''path'' False = Inr p"
         "str_arg args ''glob'' False = Inr g" "bool_arg args ''ignoreCase'' = Inr ic"
         "bool_arg args ''literal'' = Inr lit" "int_arg args ''context'' 0 = Inr ctx"
         "int_arg args ''limit'' 1 = Inr lim"
    and re: "\<not> (lit \<noteq> JBool True \<and> (case pat of JStr s \<Rightarrow> \<not> is_re s | _ \<Rightarrow> False))"
    and out: "out = JObj [(js ''pattern'', pat), (js ''path'', p), (js ''glob'', g), (js ''ignoreCase'', ic),
                       (js ''literal'', lit), (js ''context'', ctx), (js ''limit'', lim)]"
    unfolding grep_args_def and_then_Inr_iff by (auto split: if_splits)
  show ?thesis
    unfolding grep_args_def out
    by (simp add: a(1-3) [THEN arg_norm(1)] a(4,5) [THEN arg_norm(3)] a(6,7) [THEN arg_norm(2)] re
        del: json_norm.simps)
qed

lemma write_args_again: "write_args args = Inr out \<Longrightarrow> write_args (json_norm out) = Inr out"
proof -
  assume "write_args args = Inr out"
  then obtain c p where c: "field args (js ''content'') = JStr c" and p: "str_arg args ''path'' True = Inr p"
      and out: "out = JObj [(js ''path'', p), (js ''content'', JStr c)]"
    by (cases "field args (js ''content'')") (auto simp: write_args_def and_then_Inr_iff)
  have "str_arg (json_norm out) ''path'' True = Inr p"
    unfolding out by (rule arg_norm(1) [OF p]) simp_all
  moreover have "field (json_norm out) (js ''content'') = JStr c"
    unfolding out by (rule field_norm) simp_all
  ultimately show ?thesis by (simp add: write_args_def out)
qed

lemma edit_tool_args_again: "edit_tool_args args = Inr out \<Longrightarrow> edit_tool_args (json_norm out) = Inr out"
proof -
  assume "edit_tool_args args = Inr out"
  then obtain es p ed where e: "es \<noteq> []" and p: "str_arg args ''path'' True = Inr p"
      and ed: "edit_args 0 es = Inr ed" and out: "out = JObj [(js ''path'', p), (js ''edits'', JArr ed)]"
    by (cases "field args (js ''edits'')") (auto simp: edit_tool_args_def and_then_Inr_iff split: if_splits)
  note ok = edit_args_Inr [OF ed]
  have "str_arg (json_norm out) ''path'' True = Inr p"
    unfolding out by (rule arg_norm(1) [OF p]) simp_all
  moreover have "field (json_norm out) (js ''edits'') = JArr ed"
    unfolding out by (rule field_norm) (use ok edit_args_again(2) [of ed] in simp_all)
  moreover have "ed \<noteq> []" using ok e by auto
  ultimately show ?thesis using ok edit_args_again(1) [of ed 0] by (simp add: edit_tool_args_def out)
qed

lemma bash_args_Inr:
  assumes "bash_args (json_norm args) = Inr out"
  obtains c t where "str_arg (json_norm args) ''command'' True = Inr (JStr c)" "c \<noteq> []"
    "utf8_length c \<le> MAX_COMMAND_BYTES" "out = JObj [(js ''command'', JStr c), (js ''timeout'', t)]"
    "t = JUndef \<or> (\<exists>q. 0 < q \<and> t = JNum (Fin q))"
proof -
  obtain cmd where cmd: "str_arg (json_norm args) ''command'' True = Inr cmd"
    using assms by (auto simp: bash_args_def and_then_Inr_iff)
  then obtain c where c: "cmd = JStr c" "c \<noteq> []" using str_arg_Inr by blast
  show thesis
    using assms cmd c field_json_norm_finite [of args "js ''timeout''"] that [of c]
    by (cases "field (json_norm args) (js ''timeout'')")
       (auto simp: bash_args_def split: if_splits js_num.splits)
qed

lemma bash_args_again:
  assumes "bash_args (json_norm args) = Inr out"
  shows "bash_args (json_norm out) = Inr out"
proof -
  obtain c t where p: "str_arg (json_norm args) ''command'' True = Inr (JStr c)" "utf8_length c \<le> MAX_COMMAND_BYTES"
    and out: "out = JObj [(js ''command'', JStr c), (js ''timeout'', t)]"
    and t: "t = JUndef \<or> (\<exists>q. 0 < q \<and> t = JNum (Fin q))"
    using bash_args_Inr [OF assms] by blast
  have "str_arg (json_norm out) ''command'' True = Inr (JStr c)"
    unfolding out by (rule arg_norm(1) [OF p(1)]) simp_all
  moreover have "field (json_norm out) (js ''timeout'') = t"
    unfolding out by (rule field_norm) (use t in auto)
  ultimately show ?thesis using p t by (auto simp: bash_args_def out)
qed

text \<open>
  What a tool's script reads from its standard input is exactly what was validated: the arguments as
  they come out of the JSON between the broker and the script pass validation again, with the same
  result.
\<close>

theorem validated_args_stable:
  "validate_tool_args is_re tool (json_norm args) = Inr out \<Longrightarrow>
     validate_tool_args is_re tool (json_norm out) = Inr out"
  unfolding validate_tool_args_def
  by (auto simp: read_args_again ls_args_again find_args_again grep_args_again write_args_again
      edit_tool_args_again bash_args_again split: if_splits)

lemma validated_args_stable_witness:
  "validate_tool_args (\<lambda>_. True) (js ''read'') (json_norm (JObj [(js ''path'', JStr (js ''f'')), (js ''offset'', JNum (Fin 3)), (js ''limit'', JUndef)]))
     = Inr (JObj [(js ''path'', JStr (js ''f'')), (js ''offset'', JNum (Fin 3)), (js ''limit'', JUndef)])"
proof (rule validated_args_stable)
  show "validate_tool_args (\<lambda>_. True) (js ''read'')
      (json_norm (JObj [(js ''offset'', JNum (Fin 3)), (js ''path'', JStr (js ''f'')), (js ''x'', JNull)]))
     = Inr (JObj [(js ''path'', JStr (js ''f'')), (js ''offset'', JNum (Fin 3)), (js ''limit'', JUndef)])"
    by code_simp
qed

lemma bash_timeout_bounded: "bash_timeout_ms args \<le> BASH_MAX_TIMEOUT_MS"
  by (auto simp: bash_timeout_ms_def BASH_DEFAULT_TIMEOUT_MS_def BASH_MAX_TIMEOUT_MS_def
      split: js_value.split js_num.split)

end
