(* ===== verification/Broker.thy ===== *)
theory Broker
  imports Sandbox ToolArgs
begin

text \<open>
  \<open>ToolBroker\<close> of \<open>ponygirls-subagents/src/broker.ts\<close>: the supervisor's side of every file and shell tool
  call. The broker is a state machine: an event runs one of its methods, or the continuation of one, up
  to its next \<open>await\<close>, so a list of events is one interleaving of calls, backends that answer or fail,
  aborted signals, cancellations and disposal. Which appends the journal accepts is the oracle \<open>tb_io\<close>,
  an arbitrary list; an append past its end is accepted. What callers were told and which jobs were
  handed to a backend are kept as logs (\<open>tb_told\<close>, \<open>tb_started\<close>).
\<close>

section \<open>State\<close>

type_synonym op_id = jstring

datatype backend = On_host | In_sandbox

record owned_job =
  oj_backend :: backend
  oj_agent :: jstring
  oj_tool :: jstring
  oj_done :: bool

datatype outcome_status = St_ok | St_error | St_cancelled | St_uncertain

datatype outcome_detail =
    No_detail
  | Exit_detail "int option"
  | Result_detail job_result
  | Reason jstring

datatype tool_entry =
    Intent op_id jstring "jstring option" int jstring "jstring option"
  | Outcome op_id outcome_status outcome_detail
  | Recovery op_id "outcome_status option" jstring

datatype receipt = Receipt "outcome_status option" jstring

datatype broker_error =
    Receipts_pending
  | Tool_denied policy_denial
  | Args_invalid tool_fault
  | Duplicate_request
  | No_generation
  | Intent_refused
  | Outcome_refused
  | Invocation_aborted
  | Writer_required
  | Shell_required
  | Not_executable
  | Backend_failed jstring

datatype answer = Returned job_result | Threw broker_error

datatype call_kind = Tool_call | Gate_check

datatype call = Call call_kind "broker_error option"

datatype abort_wait = Abort_wait jstring bool bool

datatype batch = Batch "op_id list" "op_id list" bool

record tool_broker =
  tb_jobs :: "(op_id \<times> owned_job) list"
  tb_shared :: "op_id list"
  tb_receipts :: "(op_id \<times> receipt) list"
  tb_disposed :: bool
  tb_journal :: "tool_entry list"
  tb_io :: "bool list"
  tb_calls :: "(op_id \<times> call) list"
  tb_listeners :: "op_id list"
  tb_aborts :: "(op_id \<times> abort_wait) list"
  tb_batches :: "(nat \<times> batch) list"
  tb_started :: "(op_id \<times> tool_spec) list"
  tb_told :: "(op_id \<times> answer) list"

definition new_broker :: "op_id list \<Rightarrow> tool_broker" where
  "new_broker shared = \<lparr> tb_jobs = [], tb_shared = shared, tb_receipts = [], tb_disposed = False,
     tb_journal = [], tb_io = [], tb_calls = [], tb_listeners = [], tb_aborts = [], tb_batches = [],
     tb_started = [], tb_told = [] \<rparr>"

text \<open>The settings of the constructor, and the pieces of the runtime a job specification needs.\<close>

record broker_config =
  bc_runtime_roots :: "jstring list"
  bc_sandbox_env :: "(jstring \<times> jstring) list"
  bc_host_env :: "(jstring \<times> jstring) list"
  bc_sandbox_cancels :: bool
  bc_host_cancels :: bool
  bc_node :: jstring
  bc_script :: "jstring \<Rightarrow> jstring"
  bc_number_text :: "js_num \<Rightarrow> jstring"
  bc_is_regexp :: "jstring \<Rightarrow> bool"
  bc_host :: host

record caller_sandbox =
  cs_read_roots :: "jstring list"
  cs_tmp :: jstring
  cs_hides :: "jstring list"
  cs_storage :: "jstring list option"
  cs_read_only :: "jstring list option"

record broker_caller =
  br_agent :: jstring
  br_task_run :: "jstring option"
  br_generation :: "int option"
  br_grants :: grant_set
  br_workdir :: jstring
  br_writable :: "jstring option"
  br_sandbox :: "caller_sandbox option"

datatype signal_arg = No_signal | Live_signal | Aborted_signal

record tool_request =
  rq_tool :: jstring
  rq_args :: js_value
  rq_parent :: "jstring option"
  rq_signal :: signal_arg

section \<open>Job specifications\<close>

definition TOOL_TIMEOUT_MS :: int where "TOOL_TIMEOUT_MS = 120000"
definition TOOL_MAX_OUTPUT :: int where "TOOL_MAX_OUTPUT = 256 * 1024"

definition env_value :: "(jstring \<times> jstring) list \<Rightarrow> string \<Rightarrow> jstring" where
  "env_value env k = (case map_of env (js k) of None \<Rightarrow> [] | Some v \<Rightarrow> v)"

definition job_spec ::
  "broker_config \<Rightarrow> caller_sandbox option \<Rightarrow> jstring option \<Rightarrow> op_id \<Rightarrow> jstring list \<Rightarrow> jstring \<Rightarrow>
   jstring option \<Rightarrow> int \<Rightarrow> tool_spec option" where
  "job_spec c sandbox writable op argv cwd stdin timeout = (case sandbox of
     None \<Rightarrow> map_option (\<lambda>exe. \<lparr> ts_operation = op, ts_argv = exe # tl argv, ts_cwd = cwd,
         ts_env = bc_host_env c, ts_stdin = stdin, ts_timeout_ms = timeout,
         ts_max_output = TOOL_MAX_OUTPUT, ts_view = None \<rparr>)
       (resolve_exe (bc_host c) (hd argv) (env_value (bc_host_env c) ''PATH''))
   | Some s \<Rightarrow> map_option (\<lambda>exe. \<lparr> ts_operation = op, ts_argv = exe # tl argv, ts_cwd = cwd,
         ts_env = map_put (js ''TMPDIR'') (cs_tmp s) (map_put (js ''HOME'') (cs_tmp s) (bc_sandbox_env c)),
         ts_stdin = stdin, ts_timeout_ms = timeout, ts_max_output = TOOL_MAX_OUTPUT,
         ts_view = Some \<lparr> sv_read_roots = cs_read_roots s, sv_writable = writable, sv_tmp = cs_tmp s,
           sv_hides = cs_hides s,
           sv_storage = (case cs_storage s of None \<Rightarrow> [] | Some r \<Rightarrow> r),
           sv_read_only = (case cs_read_only s of None \<Rightarrow> [] | Some r \<Rightarrow> r),
           sv_runtime = bc_runtime_roots c, sv_network = False \<rparr> \<rparr>)
       (resolve_exe (bc_host c) (hd argv)
          (join_on 58 (filter (\<lambda>p. p \<noteq> [])
             [env_value (bc_sandbox_env c) ''PATH'', env_value (bc_host_env c) ''PATH'']))))"

definition FILE_TOOLS :: "jstring list" where
  "FILE_TOOLS = map js [''read'', ''grep'', ''find'', ''ls'']"

definition WRITE_TOOLS :: "jstring list" where
  "WRITE_TOOLS = map js [''write'', ''edit'']"

text \<open>\<open>runTool\<close> up to the call of the backend.\<close>

definition or_unexecutable :: "tool_spec option \<Rightarrow> broker_error + tool_spec" where
  "or_unexecutable s = (case s of None \<Rightarrow> Inl Not_executable | Some spec \<Rightarrow> Inr spec)"

definition run_tool :: "broker_config \<Rightarrow> broker_caller \<Rightarrow> op_id \<Rightarrow> jstring \<Rightarrow> js_value \<Rightarrow> broker_error + tool_spec" where
  "run_tool c caller op tool args =
     (let script = or_unexecutable (job_spec c (br_sandbox caller) (br_writable caller) op
            [bc_node c, js ''-e'', bc_script c tool] (br_workdir caller)
            (Some (json_text (bc_number_text c) args)) TOOL_TIMEOUT_MS) in
      if tool \<in> set FILE_TOOLS then script
      else if tool \<in> set WRITE_TOOLS then
        (if br_writable caller = None \<or> br_writable caller = Some [] then Inl Writer_required else script)
      else if tool = js ''bash'' then
        (if \<not> gr_shell (br_grants caller) then Inl Shell_required
         else or_unexecutable (job_spec c (br_sandbox caller) (br_writable caller) op
            [js ''bash'', js ''-c'', (case field args (js ''command'') of JStr s \<Rightarrow> s | _ \<Rightarrow> [])]
            (br_workdir caller) None (bash_timeout_ms args)))
      else Inl (Args_invalid (No_implementation tool)))"

section \<open>Operations\<close>

definition append_entry :: "tool_entry \<Rightarrow> tool_broker \<Rightarrow> bool \<times> tool_broker" where
  "append_entry e b =
     (if tb_io b = [] \<or> hd (tb_io b)
      then (True, b\<lparr> tb_journal := tb_journal b @ [e], tb_io := tl (tb_io b) \<rparr>)
      else (False, b\<lparr> tb_io := tl (tb_io b) \<rparr>))"

definition active_jobs :: "jstring \<Rightarrow> tool_broker \<Rightarrow> op_id list" where
  "active_jobs agent b = map fst (filter (\<lambda>(op, j). oj_agent j = agent \<and> \<not> oj_done j) (tb_jobs b))"

definition has_pending_receipts :: "tool_broker \<Rightarrow> bool" where
  "has_pending_receipts b \<longleftrightarrow> tb_receipts b \<noteq> []"

definition retain_receipt :: "op_id \<Rightarrow> receipt \<Rightarrow> tool_broker \<Rightarrow> tool_broker" where
  "retain_receipt op r b = b\<lparr> tb_receipts := map_put op r (tb_receipts b) \<rparr>"

fun flush_loop :: "(op_id \<times> receipt) list \<Rightarrow> tool_broker \<Rightarrow> tool_broker" where
  "flush_loop [] b = b"
| "flush_loop ((op, Receipt st m) # rs) b =
     (let (ok, b') = append_entry (Recovery op st m) b in
      if ok then flush_loop rs (b'\<lparr> tb_receipts := map_del op (tb_receipts b') \<rparr>) else b')"

definition flush_receipts :: "tool_broker \<Rightarrow> tool_broker" where
  "flush_receipts b =
     (if tb_disposed b \<or> tb_receipts b = [] then b else flush_loop (tb_receipts b) b)"

definition assert_quiescent :: "jstring \<Rightarrow> tool_broker \<Rightarrow> op_id list + unit" where
  "assert_quiescent agent b =
     (let active = active_jobs agent b in if active = [] then Inr () else Inl active)"

definition job_of :: "op_id \<Rightarrow> tool_broker \<Rightarrow> owned_job option" where
  "job_of op b = map_of (tb_jobs b) op"

definition mark_done :: "op_id \<Rightarrow> tool_broker \<Rightarrow> tool_broker" where
  "mark_done op b = b\<lparr> tb_jobs := map (\<lambda>(o', j). (o', if o' = op then j\<lparr> oj_done := True \<rparr> else j)) (tb_jobs b) \<rparr>"

definition job_done :: "op_id \<Rightarrow> tool_broker \<Rightarrow> bool" where
  "job_done op b = (case job_of op b of Some j \<Rightarrow> oj_done j | None \<Rightarrow> True)"

definition tell :: "op_id \<Rightarrow> answer \<Rightarrow> tool_broker \<Rightarrow> tool_broker" where
  "tell op a b = b\<lparr> tb_told := tb_told b @ [(op, a)] \<rparr>"

definition backend_cancels :: "broker_config \<Rightarrow> op_id \<Rightarrow> tool_broker \<Rightarrow> bool" where
  "backend_cancels c op b = (case job_of op b of
     Some j \<Rightarrow> (case oj_backend j of On_host \<Rightarrow> bc_host_cancels c | In_sandbox \<Rightarrow> bc_sandbox_cancels c)
   | None \<Rightarrow> False)"

text \<open>
  \<open>cancelThis\<close>: the first half owns the outcome of the job, the second half records it when the backends
  have answered. \<open>early\<close> tells the call that is awaited before the start from the detached one.
\<close>

definition cancel_status :: "bool \<Rightarrow> outcome_status" where
  "cancel_status confirmed = (if confirmed then St_cancelled else St_uncertain)"

definition cancel_failed :: "outcome_status option \<Rightarrow> receipt" where
  "cancel_failed st = Receipt st (js ''broker-cancel-commit-failed'')"

definition finish_abort :: "op_id \<Rightarrow> jstring \<Rightarrow> bool \<Rightarrow> bool \<Rightarrow> tool_broker \<Rightarrow> tool_broker" where
  "finish_abort op reason early confirmed b =
     (if tb_disposed b then (if early then tell op (Threw Invocation_aborted) b else b)
      else let (ok, b') = append_entry (Outcome op (cancel_status confirmed) (Reason reason)) b in
        if early then tell op (Threw (if ok then Invocation_aborted else Outcome_refused)) b'
        else if ok then b' else retain_receipt op (cancel_failed None) b')"

definition begin_abort :: "broker_config \<Rightarrow> op_id \<Rightarrow> jstring \<Rightarrow> bool \<Rightarrow> tool_broker \<Rightarrow> tool_broker" where
  "begin_abort c op reason early b =
     (if job_done op b then b
      else let b' = mark_done op b; confirmed = backend_cancels c op b in
        if bc_sandbox_cancels c \<or> bc_host_cancels c
          then b'\<lparr> tb_aborts := tb_aborts b' @ [(op, Abort_wait reason early confirmed)] \<rparr>
          else finish_abort op reason early confirmed b')"

definition register_job :: "op_id \<Rightarrow> owned_job \<Rightarrow> tool_broker \<Rightarrow> tool_broker" where
  "register_job op j b = b\<lparr> tb_jobs := map_put op j (tb_jobs b), tb_shared := set_add op (tb_shared b) \<rparr>"

definition start_call :: "op_id \<Rightarrow> call_kind \<Rightarrow> broker_error + tool_spec \<Rightarrow> tool_broker \<Rightarrow> tool_broker" where
  "start_call op k r b = (case r of
     Inl e \<Rightarrow> b\<lparr> tb_calls := tb_calls b @ [(op, Call k (Some e))] \<rparr>
   | Inr spec \<Rightarrow> b\<lparr> tb_calls := tb_calls b @ [(op, Call k None)],
                   tb_started := tb_started b @ [(op, spec)] \<rparr>)"

text \<open>The checks of \<open>execute\<close> in their order, then its first effects.\<close>

definition admission :: "broker_config \<Rightarrow> broker_caller \<Rightarrow> tool_request \<Rightarrow> op_id \<Rightarrow> tool_broker \<Rightarrow>
    broker_error + (js_value \<times> int)" where
  "admission c caller req op b =
     (if has_pending_receipts b then Inl Receipts_pending
      else case authorize_tool (br_grants caller) (rq_tool req) of
        Inl d \<Rightarrow> Inl (Tool_denied d)
      | Inr _ \<Rightarrow> (case validate_tool_args (bc_is_regexp c) (rq_tool req) (json_norm (rq_args req)) of
          Inl f \<Rightarrow> Inl (Args_invalid f)
        | Inr args \<Rightarrow>
            if job_of op b \<noteq> None \<or> op \<in> set (tb_shared b) then Inl Duplicate_request
            else (case br_generation caller of None \<Rightarrow> Inl No_generation | Some gen \<Rightarrow> Inr (args, gen))))"

definition begin_execute :: "broker_config \<Rightarrow> broker_caller \<Rightarrow> tool_request \<Rightarrow> op_id \<Rightarrow> js_value \<Rightarrow> int \<Rightarrow>
    tool_broker \<Rightarrow> tool_broker" where
  "begin_execute c caller req op args gen b =
     (let job = \<lparr> oj_backend = (if br_sandbox caller = None then On_host else In_sandbox),
            oj_agent = br_agent caller, oj_tool = rq_tool req, oj_done = False \<rparr>;
          (ok, b1) = append_entry (Intent op (br_agent caller) (br_task_run caller) gen
            (rq_tool req) (rq_parent req)) (register_job op job b) in
      if \<not> ok then tell op (Threw Intent_refused) b1
      else if rq_signal req = Aborted_signal
        then begin_abort c op (js ''invocation aborted before start'') True b1
      else start_call op Tool_call (run_tool c caller op (rq_tool req) args)
        (if rq_signal req = Live_signal
         then b1\<lparr> tb_listeners := tb_listeners b1 @ [op] \<rparr> else b1))"

definition execute :: "broker_config \<Rightarrow> broker_caller \<Rightarrow> tool_request \<Rightarrow> op_id \<Rightarrow> tool_broker \<Rightarrow> tool_broker" where
  "execute c caller req op b0 =
     (let b = flush_receipts b0 in
      case admission c caller req op b of
        Inl e \<Rightarrow> tell op (Threw e) b
      | Inr (args, gen) \<Rightarrow> begin_execute c caller req op args gen b)"

text \<open>The continuations of \<open>execute\<close> and \<open>runControllerCheck\<close> when the backend has answered or failed.\<close>

definition end_call :: "op_id \<Rightarrow> tool_broker \<Rightarrow> tool_broker" where
  "end_call op b = b\<lparr> tb_calls := map_del op (tb_calls b), tb_listeners := set_delete op (tb_listeners b) \<rparr>"

definition marked_cancelled :: "job_result \<Rightarrow> job_result" where
  "marked_cancelled r = r\<lparr> jr_exit_code := Some (- 1), jr_stderr := jr_stderr r @ 10 # js ''[cancelled]'' \<rparr>"

definition result_outcome :: "op_id \<Rightarrow> call_kind \<Rightarrow> job_result \<Rightarrow> tool_entry" where
  "result_outcome op k r = (case k of
     Tool_call \<Rightarrow> Outcome op (if jr_exit_code r = Some 0 \<and> \<not> jr_timed_out r then St_ok else St_error) (Result_detail r)
   | Gate_check \<Rightarrow> Outcome op (if jr_exit_code r = Some 0 then St_ok else St_error) (Exit_detail (jr_exit_code r)))"

definition call_done :: "op_id \<Rightarrow> call_kind \<Rightarrow> job_result \<Rightarrow> tool_broker \<Rightarrow> tool_broker" where
  "call_done op k r b0 =
     (let b = end_call op b0 in
      if job_done op b then tell op (Returned (marked_cancelled r)) b
      else let (ok, b') = append_entry (result_outcome op k r) (mark_done op b) in
        tell op (if ok then Returned r else Threw Outcome_refused) b')"

definition call_failed :: "op_id \<Rightarrow> call_kind \<Rightarrow> broker_error \<Rightarrow> jstring \<Rightarrow> tool_broker \<Rightarrow> tool_broker" where
  "call_failed op k e message b0 =
     (let b = end_call op b0 in
      if job_done op b then tell op (Threw e) b
      else let b1 = mark_done op b in
        if k = Gate_check \<and> tb_disposed b1
          then tell op (Threw e) (retain_receipt op (Receipt (Some St_uncertain) (js ''gate-check-commit-failed'')) b1)
        else let (ok, b') = append_entry (Outcome op St_uncertain (Reason message)) b1 in
          tell op (Threw (if ok then e else Outcome_refused)) b')"

record check_request =
  cr_agent :: jstring
  cr_task_run :: "jstring option"
  cr_generation :: int
  cr_sandbox :: "caller_sandbox option"
  cr_command :: jstring
  cr_cwd :: jstring
  cr_timeout_ms :: int

definition begin_check :: "broker_config \<Rightarrow> check_request \<Rightarrow> op_id \<Rightarrow> tool_broker \<Rightarrow> tool_broker" where
  "begin_check c req op b =
     (let job = \<lparr> oj_backend = (if cr_sandbox req = None then On_host else In_sandbox),
            oj_agent = cr_agent req, oj_tool = js ''gate-check'', oj_done = False \<rparr>;
          (ok, b1) = append_entry (Intent op (cr_agent req) (cr_task_run req) (cr_generation req)
            (js ''gate-check'') None) (register_job op job b) in
      if \<not> ok then tell op (Threw Intent_refused) b1
      else (case job_spec c (cr_sandbox req) None op [js ''bash'', js ''-c'', cr_command req]
              (cr_cwd req) None (cr_timeout_ms req) of
        None \<Rightarrow> call_failed op Gate_check Not_executable (js ''SANDBOX_UNAVAILABLE'') b1
      | Some spec \<Rightarrow> start_call op Gate_check (Inr spec) b1))"

definition run_controller_check :: "broker_config \<Rightarrow> check_request \<Rightarrow> op_id \<Rightarrow> tool_broker \<Rightarrow> tool_broker" where
  "run_controller_check c req op b0 =
     (if cr_command req = [] then tell op (Threw (Args_invalid (Arg_required ''check command''))) b0
      else if length (cr_command req) > 32 * 1024 then tell op (Threw (Args_invalid Command_too_large)) b0
      else let b = flush_receipts b0 in
        if has_pending_receipts b then tell op (Threw Receipts_pending) b
        else begin_check c req op b)"

text \<open>\<open>cancelJobs\<close>: the whole batch is owned first, then one job after the other is cancelled and recorded.\<close>

definition own_all :: "op_id list \<Rightarrow> tool_broker \<Rightarrow> tool_broker" where
  "own_all ops b = fold mark_done ops b"

definition cancel_jobs :: "jstring \<Rightarrow> nat \<Rightarrow> tool_broker \<Rightarrow> tool_broker" where
  "cancel_jobs agent i b0 =
     (let b = flush_receipts b0; active = active_jobs agent b in
      (own_all active b)\<lparr> tb_batches := tb_batches b @ [(i, Batch active active False)] \<rparr>)"

definition cancel_next :: "broker_config \<Rightarrow> nat \<Rightarrow> op_id \<Rightarrow> op_id list \<Rightarrow> op_id list \<Rightarrow> bool \<Rightarrow> bool \<Rightarrow> tool_broker \<Rightarrow> tool_broker" where
  "cancel_next c i op rest ops failed cancels_ok b =
     (let st = cancel_status (backend_cancels c op b \<and> cancels_ok);
          (ok, b1) = append_entry (Outcome op st No_detail) b;
          b2 = (if ok then b1 else retain_receipt op (cancel_failed (Some st)) b1) in
      b2\<lparr> tb_batches := map_put i (Batch rest ops (failed \<or> \<not> cancels_ok \<or> \<not> ok)) (tb_batches b2) \<rparr>)"

section \<open>Interleavings\<close>

datatype broker_event =
    Execute broker_caller tool_request op_id
  | Check check_request op_id
  | Backend_answers op_id job_result
  | Backend_fails op_id jstring
  | Signal_aborted op_id
  | Abort_answered op_id bool
  | Cancel_agent jstring nat
  | Batch_answered nat bool
  | Reserve_elsewhere op_id
  | Dispose
  | Journal_faults "bool list"

text \<open>
  One event. An event that cannot happen in a state (a backend that answers a job it does not run)
  leaves it as it is; the operation of a check has a fresh UUID. \<open>Journal_faults\<close> decides about the next
  appends, \<open>Reserve_elsewhere\<close> is the external dispatcher, which shares the set of reserved ids.
\<close>

fun broker_step :: "broker_config \<Rightarrow> broker_event \<Rightarrow> tool_broker \<Rightarrow> tool_broker" where
  "broker_step c (Execute caller req op) b = execute c caller req op b"
| "broker_step c (Check req op) b =
     (if job_of op b = None \<and> op \<notin> set (tb_shared b) then run_controller_check c req op b else b)"
| "broker_step c (Backend_answers op r) b = (case map_of (tb_calls b) op of
     Some (Call k None) \<Rightarrow> call_done op k r b | _ \<Rightarrow> b)"
| "broker_step c (Backend_fails op m) b = (case map_of (tb_calls b) op of
     Some (Call k None) \<Rightarrow> call_failed op k (Backend_failed m) m b
   | Some (Call k (Some e)) \<Rightarrow> call_failed op k e m b | None \<Rightarrow> b)"
| "broker_step c (Signal_aborted op) b =
     (if op \<in> set (tb_listeners b)
      then begin_abort c op (js ''invocation aborted'') False (b\<lparr> tb_listeners := set_delete op (tb_listeners b) \<rparr>)
      else b)"
| "broker_step c (Abort_answered op ok) b = (case map_of (tb_aborts b) op of
     Some (Abort_wait reason early confirmed) \<Rightarrow>
       finish_abort op reason early (confirmed \<and> ok) (b\<lparr> tb_aborts := map_del op (tb_aborts b) \<rparr>)
   | None \<Rightarrow> b)"
| "broker_step c (Cancel_agent agent i) b =
     (if i \<in> fst ` set (tb_batches b) then b else cancel_jobs agent i b)"
| "broker_step c (Batch_answered i ok) b = (case map_of (tb_batches b) i of
     Some (Batch (op # rest) ops failed) \<Rightarrow> cancel_next c i op rest ops failed ok b | _ \<Rightarrow> b)"
| "broker_step c (Reserve_elsewhere op) b = b\<lparr> tb_shared := set_add op (tb_shared b) \<rparr>"
| "broker_step c Dispose b = b\<lparr> tb_disposed := True \<rparr>"
| "broker_step c (Journal_faults io) b = b\<lparr> tb_io := io \<rparr>"

inductive broker_reach :: "broker_config \<Rightarrow> tool_broker \<Rightarrow> bool" for c where
  fresh: "broker_reach c (new_broker shared)"
| step: "broker_reach c b \<Longrightarrow> broker_reach c (broker_step c ev b)"

section \<open>Ownership of outcomes\<close>

text \<open>
  The right to journal the outcome of an operation is one token. It lies with the unfinished job, with
  the abort that owned the job, with the batch that owned it, or it has become the journaled outcome.
\<close>

fun outcome_of :: "op_id \<Rightarrow> tool_entry \<Rightarrow> bool" where
  "outcome_of op (Outcome o' st d) \<longleftrightarrow> o' = op" | "outcome_of op _ \<longleftrightarrow> False"

fun intent_of :: "op_id \<Rightarrow> tool_entry \<Rightarrow> bool" where
  "intent_of op (Intent o' a t g n p) \<longleftrightarrow> o' = op" | "intent_of op _ \<longleftrightarrow> False"

fun recovery_of :: "op_id \<Rightarrow> tool_entry \<Rightarrow> bool" where
  "recovery_of op (Recovery o' st m) \<longleftrightarrow> o' = op" | "recovery_of op _ \<longleftrightarrow> False"

definition outcomes :: "op_id \<Rightarrow> tool_broker \<Rightarrow> nat" where
  "outcomes op b = length (filter (outcome_of op) (tb_journal b))"

definition intents :: "op_id \<Rightarrow> tool_broker \<Rightarrow> nat" where
  "intents op b = length (filter (intent_of op) (tb_journal b))"

fun batch_rest :: "batch \<Rightarrow> op_id list" where
  "batch_rest (Batch rest ops failed) = rest"

definition batched :: "op_id \<Rightarrow> tool_broker \<Rightarrow> nat" where
  "batched op b = sum_list (map (\<lambda>(i, bt). count_list (batch_rest bt) op) (tb_batches b))"

definition tokens :: "op_id \<Rightarrow> tool_broker \<Rightarrow> nat" where
  "tokens op b = outcomes op b + count_list (map fst (tb_aborts b)) op + batched op b
     + (if job_done op b then 0 else 1)"

definition known :: "op_id \<Rightarrow> tool_broker \<Rightarrow> bool" where
  "known op b \<longleftrightarrow> job_of op b \<noteq> None"

definition owned_once :: "tool_broker \<Rightarrow> bool" where
  "owned_once b \<longleftrightarrow> (\<forall>op. tokens op b \<le> Suc 0 \<and> (known op b \<or> tokens op b = 0)) \<and>
     distinct (map fst (tb_batches b)) \<and> distinct (map fst (tb_jobs b)) \<and> set (tb_listeners b) \<subseteq> {op. known op b}"

lemmas token_defs = tokens_def outcomes_def batched_def job_done_def job_of_def known_def

lemma count_map_del: "count_list (map fst (map_del k xs)) x = (if x = k then 0 else count_list (map fst xs) x)"
  by (induction xs) (auto simp: map_del_def)

lemma count_map_of: "map_of xs k = Some v \<Longrightarrow> 0 < count_list (map fst xs) k"
  by (induction xs) (auto split: if_splits)

lemma map_of_mark: "map_of (map (\<lambda>(o', j). (o', if o' = op then f j else j)) js') x =
    (if x = op then map_option f (map_of js' x) else map_of js' x)"
  by (induction js') auto

lemma mark_done_simps [simp]:
  "job_of x (mark_done op b) = (if x = op then map_option (\<lambda>j. j\<lparr> oj_done := True \<rparr>) (job_of x b) else job_of x b)"
  "known x (mark_done op b) \<longleftrightarrow> known x b"
  "job_done x (mark_done op b) \<longleftrightarrow> x = op \<or> job_done x b"
  "tb_journal (mark_done op b) = tb_journal b" "tb_aborts (mark_done op b) = tb_aborts b"
  "tb_batches (mark_done op b) = tb_batches b" "tb_listeners (mark_done op b) = tb_listeners b"
  "tb_io (mark_done op b) = tb_io b" "tb_calls (mark_done op b) = tb_calls b"
  "tb_started (mark_done op b) = tb_started b" "tb_told (mark_done op b) = tb_told b"
  "tb_receipts (mark_done op b) = tb_receipts b" "tb_disposed (mark_done op b) = tb_disposed b"
  "tb_shared (mark_done op b) = tb_shared b" "map fst (tb_jobs (mark_done op b)) = map fst (tb_jobs b)"
  by (auto simp: mark_done_def job_of_def known_def job_done_def map_of_mark split: option.splits)

lemma tokens_mark_done:
  "tokens x (mark_done op b) = (if x = op \<and> \<not> job_done op b then tokens x b - 1 else tokens x b)"
  by (auto simp: tokens_def outcomes_def batched_def)

text \<open>Taking the token of an operation leaves none, and with none anyone may use it.\<close>

definition free_token :: "op_id \<Rightarrow> tool_broker \<Rightarrow> bool" where
  "free_token op b \<longleftrightarrow> owned_once b \<and> known op b \<and> tokens op b = 0"

lemma owned_onceD: "owned_once b \<Longrightarrow> tokens op b \<le> 1" "owned_once b \<Longrightarrow> \<not> known op b \<Longrightarrow> tokens op b = 0"
  by (auto simp: owned_once_def)

lemma known_undone: "\<not> job_done op b \<Longrightarrow> known op b"
  by (auto simp: job_done_def known_def split: option.splits)

lemma take_job: "owned_once b \<Longrightarrow> \<not> job_done op b \<Longrightarrow> free_token op (mark_done op b)"
  using owned_onceD(1) [of b op] known_undone [of op b]
  by (auto simp: free_token_def owned_once_def tokens_mark_done)

lemma owned_mark_done: "owned_once b \<Longrightarrow> owned_once (mark_done op b)"
  using tokens_mark_done [of _ op b] by (auto simp: owned_once_def intro: order_trans [OF diff_le_self])

lemma frame_simps [simp]:
  "job_of x (b\<lparr> tb_journal := j \<rparr>) = job_of x b" "job_of x (b\<lparr> tb_io := io \<rparr>) = job_of x b"
  "job_of x (b\<lparr> tb_aborts := ab \<rparr>) = job_of x b" "job_of x (b\<lparr> tb_batches := bs \<rparr>) = job_of x b"
  "job_of x (b\<lparr> tb_receipts := rs \<rparr>) = job_of x b" "job_of x (b\<lparr> tb_told := ts \<rparr>) = job_of x b"
  "job_of x (b\<lparr> tb_shared := sh \<rparr>) = job_of x b" "job_of x (b\<lparr> tb_disposed := d \<rparr>) = job_of x b"
  "job_of x (b\<lparr> tb_calls := cs \<rparr>) = job_of x b" "job_of x (b\<lparr> tb_started := st \<rparr>) = job_of x b"
  "job_of x (b\<lparr> tb_listeners := ls \<rparr>) = job_of x b"
  by (simp_all add: job_of_def)

lemma known_done_job: "known x b \<longleftrightarrow> job_of x b \<noteq> None"
  "job_done x b = (case job_of x b of Some j \<Rightarrow> oj_done j | None \<Rightarrow> True)"
  by (simp_all add: known_def job_done_def)

lemma tokens_frame [simp]:
  "tokens x (b\<lparr> tb_io := io \<rparr>) = tokens x b" "tokens x (b\<lparr> tb_receipts := rs \<rparr>) = tokens x b"
  "tokens x (b\<lparr> tb_told := ts \<rparr>) = tokens x b" "tokens x (b\<lparr> tb_shared := sh \<rparr>) = tokens x b"
  "tokens x (b\<lparr> tb_disposed := d \<rparr>) = tokens x b" "tokens x (b\<lparr> tb_calls := cs \<rparr>) = tokens x b"
  "tokens x (b\<lparr> tb_started := st \<rparr>) = tokens x b" "tokens x (b\<lparr> tb_listeners := ls \<rparr>) = tokens x b"
  by (simp_all add: tokens_def outcomes_def batched_def job_done_def)

lemma tokens_append [simp]:
  "tokens x (b\<lparr> tb_journal := tb_journal b @ [e] \<rparr>) = (if outcome_of x e then Suc (tokens x b) else tokens x b)"
  by (simp add: tokens_def outcomes_def batched_def job_done_def)

lemma tokens_aborts:
  "tokens x (b\<lparr> tb_aborts := tb_aborts b @ [(op, w)] \<rparr>) = (if x = op then Suc (tokens x b) else tokens x b)"
  "tokens x (b\<lparr> tb_aborts := map_del op (tb_aborts b) \<rparr>) =
     (if x = op then tokens x b - count_list (map fst (tb_aborts b)) op else tokens x b)"
  by (simp_all add: tokens_def outcomes_def batched_def job_done_def count_map_del)

lemma owned_change:
  assumes "owned_once b" and "\<And>x. tokens x b' \<le> tokens x b \<or> x = op \<and> known op b \<and> tokens x b' \<le> 1"
    and "\<And>x. job_of x b' = None \<longleftrightarrow> job_of x b = None"
    and "distinct (map fst (tb_batches b'))" "distinct (map fst (tb_jobs b'))"
    and "set (tb_listeners b') \<subseteq> set (tb_listeners b)"
  shows "owned_once b'"
proof -
  have "tokens x b' \<le> Suc 0 \<and> (known x b' \<or> tokens x b' = 0)" for x
    using assms(1,3) assms(2) [of x] unfolding owned_once_def known_def
    by (metis One_nat_def le_trans le_zero_eq)
  then show ?thesis using assms unfolding owned_once_def known_def by blast
qed

lemma owned_simps [simp]:
  "owned_once (b\<lparr> tb_io := io \<rparr>) = owned_once b" "owned_once (b\<lparr> tb_receipts := rs \<rparr>) = owned_once b"
  "owned_once (b\<lparr> tb_told := ts \<rparr>) = owned_once b" "owned_once (b\<lparr> tb_shared := sh \<rparr>) = owned_once b"
  "owned_once (b\<lparr> tb_disposed := d \<rparr>) = owned_once b" "owned_once (b\<lparr> tb_calls := cs \<rparr>) = owned_once b"
  "owned_once (b\<lparr> tb_started := st \<rparr>) = owned_once b"
  by (simp_all add: owned_once_def known_def)

lemma put_outcome:
  assumes "free_token op b"
  shows "owned_once (b\<lparr> tb_journal := tb_journal b @ [Outcome op st d] \<rparr>)"
  by (rule owned_change [where b = b and op = op]) (use assms in \<open>auto simp: free_token_def owned_once_def\<close>)

lemma put_entry:
  assumes "owned_once b" "\<And>op. \<not> outcome_of op e"
  shows "owned_once (b\<lparr> tb_journal := tb_journal b @ [e] \<rparr>)"
  by (rule owned_change [where b = b]) (use assms in \<open>auto simp: owned_once_def\<close>)

lemma put_abort:
  assumes "free_token op b"
  shows "owned_once (b\<lparr> tb_aborts := tb_aborts b @ [(op, w)] \<rparr>)"
  by (rule owned_change [where b = b and op = op])
     (use assms in \<open>auto simp: free_token_def owned_once_def tokens_aborts\<close>)

lemma token_somewhere:
  assumes "owned_once b" and "0 < k" and "k \<le> tokens op b"
  shows "known op b \<and> tokens op b = k"
  using assms unfolding owned_once_def by (metis One_nat_def Suc_leI le_antisym le_trans not_gr_zero le_zero_eq)

lemma take_abort:
  assumes "owned_once b" "map_of (tb_aborts b) op = Some w"
  shows "free_token op (b\<lparr> tb_aborts := map_del op (tb_aborts b) \<rparr>)"
proof -
  have "known op b \<and> tokens op b = count_list (map fst (tb_aborts b)) op"
    by (rule token_somewhere [OF assms(1) count_map_of [OF assms(2)]]) (simp add: tokens_def)
  moreover have "owned_once (b\<lparr> tb_aborts := map_del op (tb_aborts b) \<rparr>)"
    by (rule owned_change [where b = b]) (use assms in \<open>auto simp: owned_once_def tokens_aborts\<close>)
  ultimately show ?thesis by (simp add: free_token_def tokens_aborts known_def)
qed

lemma batched_put:
  "map_of bs i = Some bt \<Longrightarrow>
     sum_list (map (\<lambda>(i, bt). count_list (batch_rest bt) x) (map_put i bt' bs)) + count_list (batch_rest bt) x
     = sum_list (map (\<lambda>(i, bt). count_list (batch_rest bt) x) bs) + count_list (batch_rest bt') x"
  by (induction i bt' bs rule: map_put.induct) (auto split: if_splits)

lemma batched_ge: "map_of bs i = Some bt \<Longrightarrow>
    count_list (batch_rest bt) x \<le> sum_list (map (\<lambda>(i, bt). count_list (batch_rest bt) x) bs)"
  by (induction bs) (auto split: if_splits intro: trans_le_add2)

lemma take_batch:
  assumes "owned_once b" and "map_of (tb_batches b) i = Some (Batch (op # rest) ops f)"
  shows "free_token op (b\<lparr> tb_batches := map_put i (Batch rest ops f') (tb_batches b) \<rparr>)"
proof -
  let ?b = "b\<lparr> tb_batches := map_put i (Batch rest ops f') (tb_batches b) \<rparr>"
  have t: "tokens x ?b + (if x = op then 1 else 0) = tokens x b" for x
    using batched_put [OF assms(2), of x "Batch rest ops f'"]
    by (auto simp: tokens_def outcomes_def batched_def job_done_def split: if_splits)
  have "known op b \<and> tokens op b = 1"
    by (rule token_somewhere [OF assms(1)]) (use t [of op] in simp_all)
  moreover have "owned_once ?b"
  proof (rule owned_change [where b = b])
    show "tokens x ?b \<le> tokens x b \<or> x = x' \<and> known x' b \<and> tokens x ?b \<le> 1" for x x'
      using t [of x] by auto
  qed (use assms(1) in \<open>auto simp: owned_once_def\<close>)
  ultimately show ?thesis using t [of op] by (simp add: free_token_def known_def)
qed

lemma own_all_simps [simp]:
  "job_done x (own_all ops b) \<longleftrightarrow> x \<in> set ops \<or> job_done x b"
  "known x (own_all ops b) \<longleftrightarrow> known x b"
  "tb_journal (own_all ops b) = tb_journal b" "tb_aborts (own_all ops b) = tb_aborts b"
  "tb_batches (own_all ops b) = tb_batches b" "tb_listeners (own_all ops b) = tb_listeners b"
  "tb_io (own_all ops b) = tb_io b" "tb_calls (own_all ops b) = tb_calls b"
  "tb_started (own_all ops b) = tb_started b" "tb_told (own_all ops b) = tb_told b"
  "tb_receipts (own_all ops b) = tb_receipts b" "tb_disposed (own_all ops b) = tb_disposed b"
  "map fst (tb_jobs (own_all ops b)) = map fst (tb_jobs b)" "tb_shared (own_all ops b) = tb_shared b"
  by (induction ops arbitrary: b) (auto simp: own_all_def)

lemma own_all_agent:
  "job_of x (own_all ops b) = Some j \<Longrightarrow> \<exists>j'. job_of x b = Some j' \<and> oj_agent j' = oj_agent j"
proof (induction ops arbitrary: b)
  case (Cons op ops)
  then have "job_of x (own_all ops (mark_done op b)) = Some j" by (simp add: own_all_def)
  then obtain j' where "job_of x (mark_done op b) = Some j'" "oj_agent j' = oj_agent j"
    using Cons.IH by blast
  then show ?case by (auto split: if_splits)
qed (auto simp: own_all_def)

lemma active_job:
  assumes "distinct (map fst (tb_jobs b))"
  shows "op \<in> set (active_jobs agent b) \<longleftrightarrow> (\<exists>j. job_of op b = Some j \<and> oj_agent j = agent \<and> \<not> oj_done j)"
  using assms by (force simp: active_jobs_def job_of_def map_of_eq_Some_iff)

lemma distinct_active: "distinct (map fst (tb_jobs b)) \<Longrightarrow> distinct (active_jobs agent b)"
  by (simp add: active_jobs_def distinct_map_filter)

lemma put_batch_tokens:
  assumes ops: "distinct ops" and undone: "\<And>op. op \<in> set ops \<Longrightarrow> \<not> job_done op b"
  shows "tokens x ((own_all ops b)\<lparr> tb_batches := tb_batches b @ [(i, Batch ops ops False)] \<rparr>) = tokens x b"
proof -
  let ?b = "(own_all ops b)\<lparr> tb_batches := tb_batches b @ [(i, Batch ops ops False)] \<rparr>"
  have jd: "job_done x ?b \<longleftrightarrow> job_done x (own_all ops b)" by (simp add: known_done_job(2))
  have "count_list ops x = (if x \<in> set ops then 1 else 0)" using ops by (induction ops) auto
  then show ?thesis using undone [of x] by (auto simp: tokens_def outcomes_def batched_def jd)
qed

lemma put_batch:
  assumes b: "owned_once b" and i: "i \<notin> fst ` set (tb_batches b)" and ops: "distinct ops"
    and undone: "\<And>op. op \<in> set ops \<Longrightarrow> \<not> job_done op b"
  shows "owned_once ((own_all ops b)\<lparr> tb_batches := tb_batches b @ [(i, Batch ops ops False)] \<rparr>)"
proof -
  let ?b = "(own_all ops b)\<lparr> tb_batches := tb_batches b @ [(i, Batch ops ops False)] \<rparr>"
  have "known x ?b \<longleftrightarrow> known x b" for x using own_all_simps(2) [of x ops b] by (simp add: known_def)
  then show ?thesis using b i put_batch_tokens [OF ops undone] by (simp add: owned_once_def)
qed

lemma job_of_register [simp]:
  "job_of x (register_job op j b) = (if x = op then Some j else job_of x b)"
  by (simp add: register_job_def job_of_def)

lemma tokens_register:
  "job_of op b = None \<Longrightarrow> \<not> oj_done j \<Longrightarrow>
     tokens x (register_job op j b) = (if x = op then tokens x b + 1 else tokens x b)"
  by (simp add: tokens_def outcomes_def batched_def known_done_job(2)) (simp add: register_job_def)

lemma register_owned:
  assumes "owned_once b" and "job_of op b = None" and "\<not> oj_done j"
  shows "owned_once (register_job op j b) \<and> tokens op (register_job op j b) = 1"
proof -
  have t: "tokens x (register_job op j b) = (if x = op then tokens x b + 1 else tokens x b)" for x
    by (rule tokens_register [OF assms(2,3)])
  have "tokens op b = 0" using owned_onceD(2) [OF assms(1), of op] assms(2) by (simp add: known_def)
  with t have "tokens x (register_job op j b) \<le> Suc 0 \<and> (known x (register_job op j b) \<or> tokens x (register_job op j b) = 0)" for x
    using assms(1) by (auto simp: owned_once_def known_def)
  moreover have "set (tb_listeners (register_job op j b)) \<subseteq> {x. known x (register_job op j b)}"
    using assms(1) by (auto simp: owned_once_def known_def register_job_def job_of_def)
  ultimately show ?thesis using assms(1) t \<open>tokens op b = 0\<close>
    by (auto simp: owned_once_def) (simp_all add: register_job_def)
qed

lemma append_cases:
  obtains (accepted) "append_entry e b = (True, b\<lparr> tb_journal := tb_journal b @ [e], tb_io := tl (tb_io b) \<rparr>)"
  | (refused) "append_entry e b = (False, b\<lparr> tb_io := tl (tb_io b) \<rparr>)"
  by (cases "tb_io b = [] \<or> hd (tb_io b)") (simp_all add: append_entry_def)

lemma free_simps [simp]:
  "free_token op (b\<lparr> tb_io := io \<rparr>) = free_token op b" "free_token op (b\<lparr> tb_told := ts \<rparr>) = free_token op b"
  "free_token op (b\<lparr> tb_calls := cs \<rparr>) = free_token op b"
  by (simp_all add: free_token_def known_def)

lemma free_owned: "free_token op b \<Longrightarrow> owned_once b"
  by (simp add: free_token_def)

lemma owned_listeners: "owned_once b \<Longrightarrow> set ls \<subseteq> {op. known op b} \<Longrightarrow> owned_once (b\<lparr> tb_listeners := ls \<rparr>)"
  by (simp add: owned_once_def known_def)

lemma owned_listeners_subset: "owned_once b \<Longrightarrow> set ls \<subseteq> set (tb_listeners b) \<Longrightarrow> owned_once (b\<lparr> tb_listeners := ls \<rparr>)"
  by (rule owned_listeners) (auto simp: owned_once_def)

lemma finish_abort_owned: "free_token op b \<Longrightarrow> owned_once (finish_abort op reason early confirmed b)"
  using free_owned [of op b]
  by (cases rule: append_cases [of "Outcome op (cancel_status confirmed) (Reason reason)" b])
     (auto simp: finish_abort_def tell_def retain_receipt_def put_outcome)

lemma begin_abort_owned: "owned_once b \<Longrightarrow> owned_once (begin_abort c op reason early b)"
  using take_job [of b op] put_abort [of op "mark_done op b"]
  by (auto simp: begin_abort_def Let_def finish_abort_owned)

lemma end_call_owned: "owned_once b \<Longrightarrow> owned_once (end_call op b)"
  unfolding end_call_def
  using owned_listeners_subset [of "b\<lparr> tb_calls := map_del op (tb_calls b) \<rparr>" "set_delete op (tb_listeners b)"] by auto

lemma call_done_owned: "owned_once b \<Longrightarrow> owned_once (call_done op k r b)"
proof -
  assume b: "owned_once b"
  show ?thesis
  proof (cases "job_done op (end_call op b)")
    case True
    then show ?thesis using end_call_owned [OF b] by (simp add: call_done_def tell_def Let_def)
  next
    case False
    note f = take_job [OF end_call_owned [OF b] False]
    obtain st d where o: "result_outcome op k r = Outcome op st d" by (cases k) (auto simp: result_outcome_def)
    show ?thesis using False free_owned [OF f] put_outcome [OF f]
      by (cases rule: append_cases [of "Outcome op st d" "mark_done op (end_call op b)"])
         (simp_all add: call_done_def tell_def o Let_def)
  qed
qed

lemma call_failed_owned: "owned_once b \<Longrightarrow> owned_once (call_failed op k e m b)"
proof -
  assume b: "owned_once b"
  show ?thesis
  proof (cases "job_done op (end_call op b)")
    case True
    then show ?thesis using end_call_owned [OF b] by (simp add: call_failed_def tell_def Let_def)
  next
    case False
    note f = take_job [OF end_call_owned [OF b] False]
    show ?thesis using False free_owned [OF f] put_outcome [OF f]
      by (cases rule: append_cases [of "Outcome op St_uncertain (Reason m)" "mark_done op (end_call op b)"])
         (simp_all add: call_failed_def tell_def retain_receipt_def Let_def)
  qed
qed

lemma flush_loop_owned: "owned_once b \<Longrightarrow> owned_once (flush_loop rs b)"
proof (induction rs arbitrary: b)
  case (Cons r rs)
  obtain op st m where r: "r = (op, Receipt st m)" by (metis receipt.exhaust surj_pair)
  have "owned_once (b\<lparr> tb_journal := tb_journal b @ [Recovery op st m] \<rparr>)"
    by (rule put_entry [OF Cons.prems]) simp
  then show ?case using Cons.IH Cons.prems
    by (cases rule: append_cases [of "Recovery op st m" b]) (simp_all add: r)
qed simp

lemma flush_owned: "owned_once b \<Longrightarrow> owned_once (flush_receipts b)"
  by (simp add: flush_receipts_def flush_loop_owned)

text \<open>Flushing touches the journal, its oracle and the receipts only.\<close>

definition same_but_log :: "tool_broker \<Rightarrow> tool_broker \<Rightarrow> bool" where
  "same_but_log b b' \<longleftrightarrow>
     (\<exists>j io rs. b' = b\<lparr> tb_journal := j, tb_io := io, tb_receipts := rs \<rparr>)"

lemma flush_loop_same: "same_but_log b (flush_loop rs b)"
proof (induction rs arbitrary: b)
  case Nil
  have "b = b\<lparr> tb_journal := tb_journal b, tb_io := tb_io b, tb_receipts := tb_receipts b \<rparr>" by simp
  then show ?case unfolding same_but_log_def flush_loop.simps by blast
next
  case (Cons r rs)
  obtain op st m where r: "r = (op, Receipt st m)" by (metis receipt.exhaust surj_pair)
  show ?case
  proof (cases rule: append_cases [of "Recovery op st m" b])
    case accepted
    let ?b = "b\<lparr> tb_journal := tb_journal b @ [Recovery op st m], tb_io := tl (tb_io b), tb_receipts := map_del op (tb_receipts b) \<rparr>"
    obtain j io rs' where "flush_loop rs ?b = ?b\<lparr> tb_journal := j, tb_io := io, tb_receipts := rs' \<rparr>"
      using Cons.IH [of ?b] unfolding same_but_log_def by blast
    then show ?thesis by (simp add: r accepted same_but_log_def) blast
  next
    case refused
    have "b\<lparr> tb_io := tl (tb_io b) \<rparr> = b\<lparr> tb_journal := tb_journal b, tb_io := tl (tb_io b), tb_receipts := tb_receipts b \<rparr>"
      by simp
    then show ?thesis unfolding same_but_log_def r flush_loop.simps refused Let_def prod.case if_False by blast
  qed
qed

lemma flush_same: "same_but_log b (flush_receipts b)"
proof (cases "tb_disposed b \<or> tb_receipts b = []")
  case True
  have "b = b\<lparr> tb_journal := tb_journal b, tb_io := tb_io b, tb_receipts := tb_receipts b \<rparr>" by simp
  then show ?thesis using True unfolding same_but_log_def flush_receipts_def if_P [OF True] by blast
qed (simp add: flush_receipts_def flush_loop_same)

lemma flush_frame [simp]:
  "tb_jobs (flush_receipts b) = tb_jobs b" "tb_shared (flush_receipts b) = tb_shared b"
  "tb_calls (flush_receipts b) = tb_calls b" "tb_started (flush_receipts b) = tb_started b"
  "tb_batches (flush_receipts b) = tb_batches b" "tb_aborts (flush_receipts b) = tb_aborts b"
  "tb_disposed (flush_receipts b) = tb_disposed b" "tb_told (flush_receipts b) = tb_told b"
  "tb_listeners (flush_receipts b) = tb_listeners b" "job_of x (flush_receipts b) = job_of x b"
  using flush_same [of b] by (auto simp: same_but_log_def job_of_def)

lemma admit_owned:
  assumes "owned_once b" "job_of op b = None" "\<not> oj_done j" "append_entry e (register_job op j b) = (ok, b1)"
    and e: "\<And>x. \<not> outcome_of x e"
  shows "owned_once b1 \<and> known op b1 \<and> tb_started b1 = tb_started b \<and> tb_calls b1 = tb_calls b"
proof -
  note o = conjunct1 [OF register_owned [OF assms(1-3)]]
  have k: "known op (register_job op j b)" by (simp add: known_def)
  have f: "tb_started (register_job op j b) = tb_started b" "tb_calls (register_job op j b) = tb_calls b"
    by (simp_all add: register_job_def)
  show ?thesis using assms(4) o k f put_entry [OF o e]
    by (cases rule: append_cases [of e "register_job op j b"]) (auto simp: known_def)
qed

lemma start_call_owned: "owned_once b \<Longrightarrow> owned_once (start_call op k r b)"
  by (auto simp: start_call_def split: sum.split)

lemma add_listener_owned:
  "owned_once b \<Longrightarrow> known op b \<Longrightarrow> owned_once (b\<lparr> tb_listeners := tb_listeners b @ [op] \<rparr>)"
  using owned_listeners [of b "tb_listeners b @ [op]"] by (auto simp: owned_once_def)

lemma begin_execute_owned:
  assumes "owned_once b" "job_of op b = None"
  shows "owned_once (begin_execute c caller req op args gen b)"
proof -
  let ?job = "\<lparr> oj_backend = (if br_sandbox caller = None then On_host else In_sandbox),
            oj_agent = br_agent caller, oj_tool = rq_tool req, oj_done = False \<rparr>"
  let ?e = "Intent op (br_agent caller) (br_task_run caller) gen (rq_tool req) (rq_parent req)"
  obtain ok b1 where a: "append_entry ?e (register_job op ?job b) = (ok, b1)" by force
  have "owned_once b1" "known op b1"
    using admit_owned [OF assms(1,2) _ a] by simp_all
  then show ?thesis
    by (auto simp: begin_execute_def a tell_def start_call_owned begin_abort_owned add_listener_owned)
qed

lemma admission_fresh: "admission c caller req op b = Inr x \<Longrightarrow> job_of op b = None"
  by (auto simp: admission_def split: if_splits sum.splits option.splits)

lemma execute_owned: "owned_once b \<Longrightarrow> owned_once (execute c caller req op b)"
  using flush_owned [of b] begin_execute_owned [of "flush_receipts b" op] admission_fresh
  by (fastforce simp: execute_def tell_def Let_def split: sum.split prod.split)

lemma begin_check_owned:
  assumes "owned_once b" "job_of op b = None"
  shows "owned_once (begin_check c req op b)"
proof -
  let ?job = "\<lparr> oj_backend = (if cr_sandbox req = None then On_host else In_sandbox),
            oj_agent = cr_agent req, oj_tool = js ''gate-check'', oj_done = False \<rparr>"
  let ?e = "Intent op (cr_agent req) (cr_task_run req) (cr_generation req) (js ''gate-check'') None"
  obtain ok b1 where a: "append_entry ?e (register_job op ?job b) = (ok, b1)" by force
  have "owned_once b1" using admit_owned [OF assms _ a] by simp
  then show ?thesis
    by (simp add: begin_check_def a tell_def start_call_owned call_failed_owned Let_def split: option.split)
qed

lemma check_owned: "owned_once b \<Longrightarrow> job_of op b = None \<Longrightarrow> owned_once (run_controller_check c req op b)"
  using flush_owned [of b] begin_check_owned [of "flush_receipts b" op]
  by (simp add: run_controller_check_def tell_def Let_def)

lemma cancel_jobs_owned:
  assumes "owned_once b" "i \<notin> fst ` set (tb_batches b)"
  shows "owned_once (cancel_jobs agent i b)"
proof -
  let ?b = "flush_receipts b"
  have b: "owned_once ?b" by (rule flush_owned [OF assms(1)])
  then have d: "distinct (map fst (tb_jobs ?b))" by (simp add: owned_once_def)
  show ?thesis
    unfolding cancel_jobs_def Let_def
    by (rule put_batch [OF b _ distinct_active [OF d]])
       (use assms(2) in \<open>auto simp: active_job [OF d] known_done_job(2) simp del: flush_frame(10)\<close>)
qed

lemma owned_commute:
  "owned_once (b\<lparr> tb_journal := j, tb_io := io, tb_batches := bs \<rparr>) = owned_once (b\<lparr> tb_batches := bs, tb_journal := j \<rparr>)"
  "owned_once (b\<lparr> tb_io := io, tb_receipts := rs, tb_batches := bs \<rparr>) = owned_once (b\<lparr> tb_batches := bs \<rparr>)"
  by (simp_all add: owned_once_def known_def tokens_def outcomes_def batched_def job_done_def)

lemma cancel_next_owned:
  assumes "owned_once b" "map_of (tb_batches b) i = Some (Batch (op # rest) ops f)"
  shows "owned_once (cancel_next c i op rest ops f ok b)"
proof -
  have f: "free_token op (b\<lparr> tb_batches := map_put i (Batch rest ops f') (tb_batches b) \<rparr>)" for f'
    by (rule take_batch [OF assms])
  note p = put_outcome [OF f] free_owned [OF f]
  show ?thesis
    using p by (cases rule: append_cases [of "Outcome op (cancel_status (backend_cancels c op b \<and> ok)) No_detail" b])
      (simp_all add: cancel_next_def Let_def retain_receipt_def owned_commute)
qed

lemma step_owned: "owned_once b \<Longrightarrow> owned_once (broker_step c ev b)"
  by (cases ev)
     (auto simp: execute_owned check_owned call_done_owned call_failed_owned cancel_jobs_owned cancel_next_owned
       intro!: begin_abort_owned owned_listeners_subset finish_abort_owned take_abort
       split: option.split call.split abort_wait.split batch.split list.split)

lemma reach_owned: "broker_reach c b \<Longrightarrow> owned_once b"
proof (induction rule: broker_reach.induct)
  case (fresh shared)
  then show ?case
    by (simp add: new_broker_def owned_once_def tokens_def outcomes_def batched_def known_done_job job_of_def)
qed (rule step_owned)

end
