(* ===== verification/BrokerSafety.thy ===== *)
theory BrokerSafety
  imports Broker
begin

text \<open>
  What the broker guarantees in every state its events reach: intents and started backends, no outcome
  lost, success only after it is journaled, fault receipts before new effects; then the properties, a
  sample session, and what a refused intent leaves behind.
\<close>

section \<open>Intents\<close>

text \<open>What no continuation touches: intents, jobs and started backends; calls only end and answers only add up.\<close>

definition carries_on :: "tool_broker \<Rightarrow> tool_broker \<Rightarrow> bool" where
  "carries_on b b' \<longleftrightarrow> (\<forall>op. intents op b' = intents op b) \<and> (\<forall>op. known op b' = known op b) \<and>
     tb_started b' = tb_started b \<and> set (tb_calls b') \<subseteq> set (tb_calls b) \<and>
     set (tb_told b) \<subseteq> set (tb_told b')"

lemma carries_on_refl [simp]: "carries_on b b"
  by (simp add: carries_on_def)

lemma carries_on_trans: "carries_on a b \<Longrightarrow> carries_on b d \<Longrightarrow> carries_on a d"
  by (fastforce simp: carries_on_def)

lemma carries_on_append:
  assumes "\<And>x. \<not> intent_of x e" and "append_entry e b = (ok, b')"
  shows "carries_on b b'"
  using assms by (cases rule: append_cases [of e b]) (auto simp: carries_on_def intents_def known_def)

lemma carries_on_own_all [simp]: "carries_on a (own_all ops b) = carries_on a b"
  by (simp add: carries_on_def intents_def)

lemma carries_on_mark [simp]: "carries_on a (mark_done op b) = carries_on a b"
  by (simp add: carries_on_def intents_def)

lemma carries_on_tell [simp]: "carries_on a b \<Longrightarrow> carries_on a (tell op r b)"
  by (auto simp: carries_on_def tell_def intents_def known_def)

lemma carries_on_simps [simp]:
  "carries_on a (retain_receipt op rc b) = carries_on a b"
  "carries_on a (b\<lparr> tb_batches := bs \<rparr>) = carries_on a b"
  "carries_on a (b\<lparr> tb_aborts := ab \<rparr>) = carries_on a b"
  "carries_on a (b\<lparr> tb_listeners := ls \<rparr>) = carries_on a b"
  "carries_on a (b\<lparr> tb_shared := sh \<rparr>) = carries_on a b"
  "carries_on a (b\<lparr> tb_disposed := d \<rparr>) = carries_on a b"
  "carries_on a (b\<lparr> tb_io := io \<rparr>) = carries_on a b"
  by (simp_all add: carries_on_def retain_receipt_def intents_def known_def)

lemma carries_on_finish: "carries_on a b \<Longrightarrow> carries_on a (finish_abort op reason early confirmed b)"
proof -
  let ?e = "Outcome op (cancel_status confirmed) (Reason reason)"
  obtain ok b' where e: "append_entry ?e b = (ok, b')" by force
  assume "carries_on a b"
  moreover from this have "carries_on a b'" using carries_on_append [OF _ e] carries_on_trans by simp
  ultimately show ?thesis by (auto simp: finish_abort_def e)
qed

lemma carries_on_begin: "carries_on a b \<Longrightarrow> carries_on a (begin_abort c op reason early b)"
  by (auto simp: begin_abort_def Let_def intro: carries_on_finish)

lemma carries_on_end: "carries_on b (end_call op b)"
  by (auto simp: carries_on_def end_call_def intents_def known_def map_del_def)

lemma carries_on_done: "carries_on b (call_done op k r b)"
proof -
  let ?b = "mark_done op (end_call op b)"
  obtain ok b' where e: "append_entry (result_outcome op k r) ?b = (ok, b')" by force
  have "carries_on b ?b" by (simp add: carries_on_end)
  moreover have "carries_on ?b b'" by (rule carries_on_append [OF _ e]) (cases k; simp add: result_outcome_def)
  ultimately have "carries_on b b'" by (rule carries_on_trans)
  then show ?thesis by (auto simp: call_done_def Let_def e carries_on_end)
qed

lemma carries_on_failed: "carries_on b (call_failed op k er m b)"
proof -
  let ?b = "mark_done op (end_call op b)"
  obtain ok b' where e: "append_entry (Outcome op St_uncertain (Reason m)) ?b = (ok, b')" by force
  have "carries_on b ?b" by (simp add: carries_on_end)
  moreover have "carries_on ?b b'" by (rule carries_on_append [OF _ e]) simp
  ultimately have "carries_on b b'" by (rule carries_on_trans)
  then show ?thesis by (auto simp: call_failed_def Let_def e carries_on_end)
qed

lemma carries_on_flush_loop: "carries_on b (flush_loop rs b)"
proof (induction rs arbitrary: b)
  case (Cons r rs)
  obtain op st m where r: "r = (op, Receipt st m)" by (metis receipt.exhaust surj_pair)
  obtain ok b' where e: "append_entry (Recovery op st m) b = (ok, b')" by force
  have "carries_on b b'" by (rule carries_on_append [OF _ e]) simp
  moreover from this have "carries_on b (b'\<lparr> tb_receipts := rs' \<rparr>)" for rs'
    by (simp add: carries_on_def intents_def known_def)
  ultimately show ?case using Cons.IH carries_on_trans by (simp add: r e) blast
qed simp

lemma carries_on_flush: "carries_on b (flush_receipts b)"
  by (simp add: flush_receipts_def carries_on_flush_loop)

lemma carries_on_next: "carries_on b (cancel_next c i op rest ops f ok b)"
proof -
  let ?e = "Outcome op (cancel_status (backend_cancels c op b \<and> ok)) No_detail"
  obtain ok' b' where e: "append_entry ?e b = (ok', b')" by force
  have "carries_on b b'" by (rule carries_on_append [OF _ e]) simp
  then show ?thesis by (simp add: cancel_next_def Let_def e)
qed

lemma carries_on_batch: "carries_on b (cancel_jobs agent i b)"
  by (simp add: cancel_jobs_def Let_def carries_on_flush)

text \<open>Every job has its intent in the journal, unless its caller was told that the journal refused it.\<close>

definition booked :: "tool_broker \<Rightarrow> bool" where
  "booked b \<longleftrightarrow>
     (\<forall>op. intents op b \<le> 1 \<and> (known op b \<or> intents op b = 0) \<and>
        (known op b \<longrightarrow> intents op b = 1 \<or> (op, Threw Intent_refused) \<in> set (tb_told b))) \<and>
     distinct (map fst (tb_started b)) \<and> (\<forall>op \<in> fst ` set (tb_started b). intents op b = 1)"

lemma booked_carries: "booked b \<Longrightarrow> carries_on b b' \<Longrightarrow> booked b'"
  unfolding booked_def carries_on_def by (metis subsetD)

lemma booked_refused:
  assumes "booked b" "job_of op b = None" "append_entry e (register_job op j b) = (False, b1)"
  shows "booked (tell op (Threw Intent_refused) b1)"
proof -
  have "b1 = register_job op j b\<lparr> tb_io := tl (tb_io b) \<rparr>"
    using assms(3) by (auto simp: append_entry_def register_job_def split: if_splits)
  then have "intents x (tell op (Threw Intent_refused) b1) = intents x b"
    "known x (tell op (Threw Intent_refused) b1) \<longleftrightarrow> x = op \<or> known x b"
    "tb_started (tell op (Threw Intent_refused) b1) = tb_started b"
    "tb_told (tell op (Threw Intent_refused) b1) = tb_told b @ [(op, Threw Intent_refused)]" for x
    by (simp_all add: tell_def intents_def known_def) (simp_all add: register_job_def)
  then show ?thesis using assms(1) by (auto simp: booked_def)
qed

lemma booked_admitted:
  assumes "booked b" "job_of op b = None" "append_entry (Intent op a t g n p) (register_job op j b) = (True, b1)"
  shows "booked b1 \<and> intents op b1 = 1 \<and> op \<notin> fst ` set (tb_started b1)"
proof -
  have "b1 = register_job op j b\<lparr> tb_journal := tb_journal b @ [Intent op a t g n p], tb_io := tl (tb_io b) \<rparr>"
    using assms(3) by (auto simp: append_entry_def register_job_def split: if_splits)
  then have i: "intents x b1 = (if x = op then Suc (intents x b) else intents x b)"
    "known x b1 \<longleftrightarrow> x = op \<or> known x b" "tb_started b1 = tb_started b" "tb_told b1 = tb_told b" for x
    by (simp_all add: intents_def known_def) (simp_all add: register_job_def)
  have "\<not> known op b" using assms(2) by (simp add: known_def)
  then have z: "intents op b = 0" using assms(1) unfolding booked_def by blast
  then have "op \<notin> fst ` set (tb_started b)" using assms(1) by (auto simp: booked_def)
  then show ?thesis using assms(1) i z by (auto simp: booked_def)
qed

lemma booked_start:
  "booked b \<Longrightarrow> intents op b = 1 \<Longrightarrow> op \<notin> fst ` set (tb_started b) \<Longrightarrow> booked (start_call op k r b)"
  by (auto simp: start_call_def booked_def intents_def known_def split: sum.split)

lemma booked_listeners [simp]: "booked (b\<lparr> tb_listeners := ls \<rparr>) = booked b"
  by (simp add: booked_def intents_def known_def)

lemma begin_execute_booked:
  assumes "booked b" "job_of op b = None"
  shows "booked (begin_execute c caller req op args gen b)"
proof -
  let ?job = "\<lparr> oj_backend = (if br_sandbox caller = None then On_host else In_sandbox),
            oj_agent = br_agent caller, oj_tool = rq_tool req, oj_done = False \<rparr>"
  let ?e = "Intent op (br_agent caller) (br_task_run caller) gen (rq_tool req) (rq_parent req)"
  obtain ok b1 where a: "append_entry ?e (register_job op ?job b) = (ok, b1)" by force
  show ?thesis
  proof (cases ok)
    case False
    then show ?thesis using booked_refused [OF assms, of ?e ?job b1] a by (simp add: begin_execute_def)
  next
    case True
    then have b1: "booked b1 \<and> intents op b1 = 1 \<and> op \<notin> fst ` set (tb_started b1)"
      using booked_admitted [OF assms] a by simp
    then have "booked (begin_abort c op reason True b1)" for reason
      using booked_carries carries_on_begin [OF carries_on_refl] by blast
    moreover have "booked (start_call op Tool_call r (b1\<lparr> tb_listeners := ls \<rparr>))" "booked (start_call op Tool_call r b1)" for r ls
      using b1 by (intro booked_start; simp add: intents_def)+
    ultimately show ?thesis using True a by (simp add: begin_execute_def)
  qed
qed

lemma begin_check_booked:
  assumes "booked b" "job_of op b = None"
  shows "booked (begin_check c req op b)"
proof -
  let ?job = "\<lparr> oj_backend = (if cr_sandbox req = None then On_host else In_sandbox),
            oj_agent = cr_agent req, oj_tool = js ''gate-check'', oj_done = False \<rparr>"
  let ?e = "Intent op (cr_agent req) (cr_task_run req) (cr_generation req) (js ''gate-check'') None"
  obtain ok b1 where a: "append_entry ?e (register_job op ?job b) = (ok, b1)" by force
  show ?thesis
  proof (cases ok)
    case False
    then show ?thesis using booked_refused [OF assms, of ?e ?job b1] a by (simp add: begin_check_def Let_def)
  next
    case True
    then have b1: "booked b1 \<and> intents op b1 = 1 \<and> op \<notin> fst ` set (tb_started b1)"
      using booked_admitted [OF assms] a by simp
    then have "booked (call_failed op Gate_check e m b1)" for e m
      using booked_carries carries_on_failed by blast
    then show ?thesis using True a b1 by (simp add: begin_check_def Let_def booked_start split: option.split)
  qed
qed

lemma flush_booked: "booked b \<Longrightarrow> booked (flush_receipts b)"
  by (rule booked_carries [OF _ carries_on_flush])

lemma booked_tell: "booked b \<Longrightarrow> booked (tell op r b)"
  using booked_carries [OF _ carries_on_tell [OF carries_on_refl]] .

lemma execute_booked: "booked b \<Longrightarrow> booked (execute c caller req op b)"
  using flush_booked [of b] begin_execute_booked [of "flush_receipts b" op] admission_fresh
  by (fastforce simp: execute_def Let_def booked_tell split: sum.split prod.split)

lemma check_booked: "booked b \<Longrightarrow> job_of op b = None \<Longrightarrow> booked (run_controller_check c req op b)"
  using flush_booked [of b] begin_check_booked [of "flush_receipts b" op]
  by (simp add: run_controller_check_def Let_def booked_tell)

lemma step_carries:
  "(\<forall>caller req op. ev \<noteq> Execute caller req op) \<Longrightarrow> (\<forall>req op. ev \<noteq> Check req op) \<Longrightarrow>
     carries_on b (broker_step c ev b)"
  by (cases ev)
     (auto simp: carries_on_done carries_on_failed carries_on_next carries_on_batch
       intro!: carries_on_begin carries_on_finish
       split: option.split call.split abort_wait.split batch.split list.split)

lemma step_booked: "booked b \<Longrightarrow> booked (broker_step c ev b)"
  by (cases "(\<forall>caller req op. ev \<noteq> Execute caller req op) \<and> (\<forall>req op. ev \<noteq> Check req op)")
     (auto simp: execute_booked check_booked intro: booked_carries [OF _ step_carries])

lemma reach_booked: "broker_reach c b \<Longrightarrow> booked b"
proof (induction rule: broker_reach.induct)
  case (fresh shared)
  then show ?case by (simp add: new_broker_def booked_def intents_def known_def job_of_def)
qed (rule step_booked)

section \<open>No outcome is lost\<close>

text \<open>
  What becomes of an operation with an intent: its outcome is journaled or still owned, or a receipt for
  it waits or was delivered, or its caller was told that the journal refused the outcome, or the broker
  was disposed.
\<close>

definition covered :: "op_id \<Rightarrow> tool_broker \<Rightarrow> bool" where
  "covered op b \<longleftrightarrow> tokens op b = 1 \<or> op \<in> fst ` set (tb_receipts b) \<or>
     (\<exists>e \<in> set (tb_journal b). recovery_of op e) \<or>
     (op, Threw Outcome_refused) \<in> set (tb_told b) \<or> tb_disposed b"

definition kept_but :: "op_id \<Rightarrow> tool_broker \<Rightarrow> bool" where
  "kept_but op b \<longleftrightarrow> (\<forall>x. x \<noteq> op \<longrightarrow> intents x b = 1 \<longrightarrow> covered x b)"

definition kept :: "tool_broker \<Rightarrow> bool" where
  "kept b \<longleftrightarrow> (\<forall>x. intents x b = 1 \<longrightarrow> covered x b)"

lemma kept_disposed: "tb_disposed b \<Longrightarrow> kept b"
  by (simp add: kept_def covered_def)

lemma kept_kept_but: "kept b \<Longrightarrow> kept_but op b"
  by (simp add: kept_def kept_but_def)

lemma kept_put: "kept_but op b \<Longrightarrow> covered op b \<Longrightarrow> kept b"
  by (auto simp: kept_def kept_but_def)

lemma kept_frame [simp]:
  "kept (b\<lparr> tb_io := io \<rparr>) = kept b" "kept (b\<lparr> tb_calls := cs \<rparr>) = kept b"
  "kept (b\<lparr> tb_listeners := ls \<rparr>) = kept b" "kept (b\<lparr> tb_shared := sh \<rparr>) = kept b"
  "kept (b\<lparr> tb_started := st \<rparr>) = kept b"
  "kept_but op (b\<lparr> tb_io := io \<rparr>) = kept_but op b" "kept_but op (b\<lparr> tb_calls := cs \<rparr>) = kept_but op b"
  "kept_but op (b\<lparr> tb_listeners := ls \<rparr>) = kept_but op b"
  by (simp_all add: kept_def kept_but_def covered_def intents_def)

text \<open>Steps that only add to what covers an operation.\<close>

definition grows :: "tool_broker \<Rightarrow> tool_broker \<Rightarrow> bool" where
  "grows b b' \<longleftrightarrow> (\<forall>x. intents x b' = intents x b \<and> (covered x b \<longrightarrow> covered x b'))"

lemma kept_grows: "kept b \<Longrightarrow> grows b b' \<Longrightarrow> kept b'"
  by (auto simp: kept_def grows_def)

lemma kept_but_grows: "kept_but op b \<Longrightarrow> grows b b' \<Longrightarrow> kept_but op b'"
  by (auto simp: kept_but_def grows_def)

lemma grows_tell [simp]: "grows b (tell op r b)"
  by (auto simp: grows_def tell_def covered_def intents_def)

lemma grows_retain [simp]: "grows b (retain_receipt op r b)"
  by (auto simp: grows_def retain_receipt_def covered_def intents_def)

lemma grows_recovery: "grows b (b\<lparr> tb_journal := tb_journal b @ [Recovery op st m] \<rparr>)"
  by (auto simp: grows_def covered_def intents_def)

lemma kept_but_take:
  "kept_but op (mark_done op b) \<longleftrightarrow> kept_but op b"
  "kept_but op (b\<lparr> tb_aborts := map_del op (tb_aborts b) \<rparr>) \<longleftrightarrow> kept_but op b"
  "kept_but op (b\<lparr> tb_aborts := tb_aborts b @ [(op, w)] \<rparr>) \<longleftrightarrow> kept_but op b"
  "kept_but op (b\<lparr> tb_journal := tb_journal b @ [Outcome op st d] \<rparr>) \<longleftrightarrow> kept_but op b"
  by (simp_all add: kept_but_def covered_def intents_def tokens_mark_done tokens_aborts)

lemma kept_outcome:
  "kept_but op b \<Longrightarrow> tokens op b = 0 \<Longrightarrow> kept (b\<lparr> tb_journal := tb_journal b @ [Outcome op st d], tb_io := io \<rparr>)"
  by (simp, rule kept_put [of op]) (simp_all add: kept_but_take covered_def)

lemma kept_retain: "kept_but op b \<Longrightarrow> kept (retain_receipt op r b)"
  by (rule kept_put [OF kept_but_grows [OF _ grows_retain]]) (auto simp: covered_def retain_receipt_def)

lemma kept_told: "kept_but op b \<Longrightarrow> kept (tell op (Threw Outcome_refused) b)"
  by (rule kept_put [OF kept_but_grows [OF _ grows_tell]]) (auto simp: covered_def tell_def)

lemma kept_tell: "kept b \<Longrightarrow> kept (tell op r b)"
  by (rule kept_grows [OF _ grows_tell])

lemma finish_abort_kept:
  "kept_but op b \<Longrightarrow> tokens op b = 0 \<Longrightarrow> kept (finish_abort op reason early confirmed b)"
proof (cases "tb_disposed b")
  case True
  then show ?thesis by (simp add: finish_abort_def kept_tell kept_disposed)
next
  case False
  assume k: "kept_but op b" "tokens op b = 0"
  show ?thesis using kept_outcome [OF k] k(1) False
    by (cases rule: append_cases [of "Outcome op (cancel_status confirmed) (Reason reason)" b])
       (auto simp: finish_abort_def kept_tell kept_told kept_retain)
qed

lemma begin_abort_kept: "owned_once b \<Longrightarrow> kept b \<Longrightarrow> kept (begin_abort c op reason early b)"
proof (cases "job_done op b")
  case False
  assume a: "owned_once b" "kept b"
  have t: "tokens op (mark_done op b) = 0" using take_job [OF a(1) False] by (simp add: free_token_def)
  have k: "kept_but op (mark_done op b)" using a(2) by (simp add: kept_but_take kept_kept_but)
  have "kept (mark_done op b\<lparr> tb_aborts := tb_aborts b @ [(op, w)] \<rparr>)" for w
  proof (rule kept_put)
    show "kept_but op (mark_done op b\<lparr> tb_aborts := tb_aborts b @ [(op, w)] \<rparr>)"
      using k kept_but_take(3) [of op "mark_done op b" w] by simp
    show "covered op (mark_done op b\<lparr> tb_aborts := tb_aborts b @ [(op, w)] \<rparr>)"
      using t tokens_aborts(1) [of op "mark_done op b" op w] by (simp add: covered_def)
  qed
  then show ?thesis using False finish_abort_kept [OF k t] by (simp add: begin_abort_def Let_def)
qed (simp add: begin_abort_def)

lemma end_call_frame [simp]:
  "tokens x (end_call op b) = tokens x b" "kept (end_call op b) = kept b"
  "job_done x (end_call op b) = job_done x b" "tb_disposed (end_call op b) = tb_disposed b"
  by (simp_all add: end_call_def kept_def covered_def intents_def known_done_job(2))

lemma taken_job:
  assumes "owned_once b" "kept b" "\<not> job_done op b"
  shows "tokens op (mark_done op b) = 0 \<and> kept_but op (mark_done op b)"
  using take_job [OF assms(1,3)] assms(2) by (simp add: free_token_def kept_but_take kept_kept_but)

lemma call_done_kept:
  assumes "owned_once b" "kept b"
  shows "kept (call_done op k r b)"
proof (cases "job_done op (end_call op b)")
  case True
  then show ?thesis using assms by (simp add: call_done_def Let_def kept_tell)
next
  case False
  obtain st d where o: "result_outcome op k r = Outcome op st d" by (cases k) (auto simp: result_outcome_def)
  have t: "tokens op (mark_done op (end_call op b)) = 0 \<and> kept_but op (mark_done op (end_call op b))"
    by (rule taken_job) (use assms False end_call_owned in auto)
  then show ?thesis
    using False kept_outcome [of op "mark_done op (end_call op b)"]
    by (cases rule: append_cases [of "Outcome op st d" "mark_done op (end_call op b)"])
       (auto simp: call_done_def Let_def o kept_told kept_tell)
qed

lemma call_failed_kept:
  assumes "owned_once b" "kept b"
  shows "kept (call_failed op k e m b)"
proof (cases "job_done op (end_call op b)")
  case True
  then show ?thesis using assms by (simp add: call_failed_def Let_def kept_tell)
next
  case False
  have t: "tokens op (mark_done op (end_call op b)) = 0 \<and> kept_but op (mark_done op (end_call op b))"
    by (rule taken_job) (use assms False end_call_owned in auto)
  then show ?thesis
    using False kept_outcome [of op "mark_done op (end_call op b)"]
    by (cases rule: append_cases [of "Outcome op St_uncertain (Reason m)" "mark_done op (end_call op b)"])
       (auto simp: call_failed_def Let_def kept_told kept_tell kept_retain)
qed

text \<open>Flushing: the receipts that were delivered are recovery entries of the journal, the rest are still there.\<close>

lemma flush_loop_covered: "covered x b \<Longrightarrow> covered x (flush_loop rs b)"
proof (induction rs arbitrary: b)
  case (Cons r rs)
  obtain op st m where r: "r = (op, Receipt st m)" by (metis receipt.exhaust surj_pair)
  have "covered x (b\<lparr> tb_journal := tb_journal b @ [Recovery op st m], tb_io := io,
      tb_receipts := map_del op (tb_receipts b) \<rparr>)" for io
    using Cons.prems by (auto simp: covered_def)
  moreover have "covered x (b\<lparr> tb_io := io \<rparr>)" for io using Cons.prems by (simp add: covered_def)
  ultimately show ?case using Cons.IH
    by (cases rule: append_cases [of "Recovery op st m" b]) (simp_all add: r)
qed simp

lemma flush_kept: "kept b \<Longrightarrow> kept (flush_receipts b)"
  using carries_on_flush [of b] flush_loop_covered [of _ b]
  by (auto simp: kept_def carries_on_def flush_receipts_def)

lemma cancel_next_kept:
  assumes "owned_once b" "kept b" "map_of (tb_batches b) i = Some (Batch (op # rest) ops f)"
  shows "kept (cancel_next c i op rest ops f ok b)"
proof -
  let ?t = "\<lambda>b f'. b\<lparr> tb_batches := map_put i (Batch rest ops f') (tb_batches b) \<rparr>"
  have z: "tokens op (?t b f') = 0" for f' using take_batch [OF assms(1,3)] by (simp add: free_token_def)
  have other: "tokens x (?t b f') = tokens x b" if "x \<noteq> op" for x f'
    using that batched_put [OF assms(3), of x "Batch rest ops f'"]
    by (simp add: tokens_def outcomes_def batched_def known_done_job(2))
  have k: "kept_but op (?t b f')" for f'
    using assms(2) other by (auto simp: kept_def kept_but_def covered_def intents_def)
  let ?e = "Outcome op (cancel_status (backend_cancels c op b \<and> ok)) No_detail"
  show ?thesis
  proof (cases rule: append_cases [of ?e b])
    case accepted
    have "cancel_next c i op rest ops f ok b =
        ?t b (ok \<longrightarrow> f)\<lparr> tb_journal := tb_journal b @ [?e], tb_io := tl (tb_io b) \<rparr>"
      by (simp add: cancel_next_def Let_def accepted)
    then show ?thesis using kept_outcome [OF k z] by simp
  next
    case refused
    have "cancel_next c i op rest ops f ok b =
        retain_receipt op (cancel_failed (Some (cancel_status (backend_cancels c op b \<and> ok)))) (?t b True\<lparr> tb_io := tl (tb_io b) \<rparr>)"
      by (simp add: cancel_next_def Let_def refused retain_receipt_def)
    then show ?thesis using kept_retain [of op "?t b True\<lparr> tb_io := tl (tb_io b) \<rparr>"] k by simp
  qed
qed

lemma kept_same:
  assumes "kept b" and "\<And>x. x \<noteq> op \<Longrightarrow> intents x b' = intents x b \<and> tokens x b' = tokens x b"
    and "tokens op b' = 1" and "tb_receipts b' = tb_receipts b" "tb_told b' = tb_told b"
    and "tb_disposed b' = tb_disposed b" "set (tb_journal b) \<subseteq> set (tb_journal b')"
  shows "kept b'"
  using assms unfolding kept_def covered_def by (metis subsetD)

lemma admit_kept:
  assumes "owned_once b" "kept b" "job_of op b = None" "\<not> oj_done j"
    and "append_entry (Intent op a t g n p) (register_job op j b) = (ok, b1)"
  shows "kept b1"
proof (rule kept_same [OF assms(2)])
  have one: "tokens op (register_job op j b) = 1" using register_owned [OF assms(1,3,4)] by simp
  have t: "tokens x (register_job op j b) = tokens x b" if "x \<noteq> op" for x
    using tokens_register [OF assms(3,4)] that by simp
  have j: "tb_journal (register_job op j b) = tb_journal b" by (simp add: register_job_def)
  have "intents x b1 = intents x b" if "x \<noteq> op" for x
    using that assms(5)
    by (cases rule: append_cases [of "Intent op a t g n p" "register_job op j b"]) (auto simp: intents_def j)
  moreover have "tokens x b1 = tokens x b" if "x \<noteq> op" for x
    using t [OF that] assms(5)
    by (cases rule: append_cases [of "Intent op a t g n p" "register_job op j b"]) auto
  ultimately show "intents x b1 = intents x b \<and> tokens x b1 = tokens x b" if "x \<noteq> op" for x
    using that by blast
  show "tokens op b1 = 1" using one assms(5)
    by (cases rule: append_cases [of "Intent op a t g n p" "register_job op j b"]) auto
  show "tb_receipts b1 = tb_receipts b" "tb_told b1 = tb_told b" "tb_disposed b1 = tb_disposed b"
    "set (tb_journal b) \<subseteq> set (tb_journal b1)"
    using assms(5) by (auto simp: append_entry_def register_job_def split: if_splits)
qed

lemma start_call_kept: "kept b \<Longrightarrow> kept (start_call op k r b)"
  by (auto simp: start_call_def split: sum.split)

lemma begin_execute_kept:
  assumes "owned_once b" "kept b" "job_of op b = None"
  shows "kept (begin_execute c caller req op args gen b)"
proof -
  let ?job = "\<lparr> oj_backend = (if br_sandbox caller = None then On_host else In_sandbox),
            oj_agent = br_agent caller, oj_tool = rq_tool req, oj_done = False \<rparr>"
  let ?e = "Intent op (br_agent caller) (br_task_run caller) gen (rq_tool req) (rq_parent req)"
  obtain ok b1 where a: "append_entry ?e (register_job op ?job b) = (ok, b1)" by force
  have "kept b1" "owned_once b1"
    using admit_kept [OF assms(1,2,3) _ a] admit_owned [OF assms(1,3) _ a] by simp_all
  then show ?thesis
    by (auto simp: begin_execute_def a kept_tell begin_abort_kept start_call_kept)
qed

lemma begin_check_kept:
  assumes "owned_once b" "kept b" "job_of op b = None"
  shows "kept (begin_check c req op b)"
proof -
  let ?job = "\<lparr> oj_backend = (if cr_sandbox req = None then On_host else In_sandbox),
            oj_agent = cr_agent req, oj_tool = js ''gate-check'', oj_done = False \<rparr>"
  let ?e = "Intent op (cr_agent req) (cr_task_run req) (cr_generation req) (js ''gate-check'') None"
  obtain ok b1 where a: "append_entry ?e (register_job op ?job b) = (ok, b1)" by force
  have "kept b1" "owned_once b1"
    using admit_kept [OF assms(1,2,3) _ a] admit_owned [OF assms(1,3) _ a] by simp_all
  then show ?thesis
    by (auto simp: begin_check_def a kept_tell call_failed_kept start_call_kept Let_def split: option.split)
qed

lemma execute_kept: "owned_once b \<Longrightarrow> kept b \<Longrightarrow> kept (execute c caller req op b)"
  using flush_owned [of b] flush_kept [of b] begin_execute_kept [of "flush_receipts b" op] admission_fresh
  by (fastforce simp: execute_def Let_def kept_tell split: sum.split prod.split)

lemma check_kept: "owned_once b \<Longrightarrow> kept b \<Longrightarrow> job_of op b = None \<Longrightarrow> kept (run_controller_check c req op b)"
  using flush_owned [of b] flush_kept [of b] begin_check_kept [of "flush_receipts b" op]
  by (simp add: run_controller_check_def Let_def kept_tell)

lemma cancel_jobs_kept:
  assumes "owned_once b" "kept b"
  shows "kept (cancel_jobs agent i b)"
proof -
  let ?b = "flush_receipts b"
  have b: "kept ?b" "distinct (map fst (tb_jobs ?b))"
    using flush_kept [OF assms(2)] flush_owned [OF assms(1)] by (simp_all add: owned_once_def)
  have "tokens x (cancel_jobs agent i b) = tokens x ?b" for x
    unfolding cancel_jobs_def Let_def
    by (rule put_batch_tokens [OF distinct_active [OF b(2)]])
       (use b(2) in \<open>auto simp: active_job [OF b(2)] known_done_job(2) simp del: flush_frame(10)\<close>)
  then show ?thesis using b(1) by (simp add: kept_def covered_def intents_def cancel_jobs_def Let_def)
qed

lemma step_kept: "owned_once b \<Longrightarrow> kept b \<Longrightarrow> kept (broker_step c ev b)"
proof (cases ev)
  case (Abort_answered op ok)
  assume a: "owned_once b" "kept b"
  show ?thesis
  proof (cases "map_of (tb_aborts b) op")
    case (Some w)
    then show ?thesis
      using Abort_answered take_abort [OF a(1) Some] kept_but_take(2) [of op b] kept_kept_but [OF a(2)]
      by (cases w) (simp add: finish_abort_kept free_token_def)
  qed (simp add: Abort_answered a)
next
  case (Signal_aborted op)
  assume a: "owned_once b" "kept b"
  then have "owned_once (b\<lparr> tb_listeners := set_delete op (tb_listeners b) \<rparr>)"
    by (intro owned_listeners_subset) auto
  then show ?thesis using Signal_aborted a by (simp add: begin_abort_kept)
qed (auto simp: execute_kept check_kept call_done_kept call_failed_kept cancel_jobs_kept cancel_next_kept kept_disposed
       split: option.split call.split batch.split list.split)

lemma reach_kept: "broker_reach c b \<Longrightarrow> kept b"
proof (induction rule: broker_reach.induct)
  case (fresh shared)
  then show ?case by (simp add: new_broker_def kept_def intents_def)
next
  case (step b ev)
  then show ?case using step_kept reach_owned by blast
qed

section \<open>Success is journaled early it is told\<close>

definition answers_well :: "tool_broker \<Rightarrow> bool" where
  "answers_well b \<longleftrightarrow> (\<forall>op r. (op, Returned r) \<in> set (tb_told b) \<longrightarrow> jr_exit_code r = Some 0 \<longrightarrow>
     (\<exists>k. result_outcome op k r \<in> set (tb_journal b)))"

definition logs_on :: "tool_broker \<Rightarrow> tool_broker \<Rightarrow> bool" where
  "logs_on b b' \<longleftrightarrow> set (tb_journal b) \<subseteq> set (tb_journal b') \<and>
     (\<forall>op r. (op, Returned r) \<in> set (tb_told b') \<longrightarrow> (op, Returned r) \<in> set (tb_told b) \<or>
        jr_exit_code r \<noteq> Some 0 \<or> (\<exists>k. result_outcome op k r \<in> set (tb_journal b')))"

lemma answers_logs: "answers_well b \<Longrightarrow> logs_on b b' \<Longrightarrow> answers_well b'"
  unfolding answers_well_def logs_on_def by blast

lemma logs_on_refl [simp]: "logs_on b b"
  by (simp add: logs_on_def)

lemma logs_on_append: "append_entry e b = (ok, b') \<Longrightarrow> logs_on a b \<Longrightarrow> logs_on a b'"
  by (cases rule: append_cases [of e b]) (fastforce simp: logs_on_def)+

lemma logs_on_threw [simp]: "logs_on a (tell op (Threw e) b) = logs_on a b"
  by (auto simp: logs_on_def tell_def)

lemma logs_on_returned:
  "logs_on a b \<Longrightarrow> jr_exit_code r \<noteq> Some 0 \<or> (\<exists>k. result_outcome op k r \<in> set (tb_journal b)) \<Longrightarrow>
     logs_on a (tell op (Returned r) b)"
  by (auto simp: logs_on_def tell_def)

lemma logs_on_simps [simp]:
  "logs_on a (retain_receipt op rc b) = logs_on a b" "logs_on a (mark_done op b) = logs_on a b"
  "logs_on a (own_all ops b) = logs_on a b" "logs_on a (b\<lparr> tb_batches := bs \<rparr>) = logs_on a b"
  "logs_on a (b\<lparr> tb_aborts := ab \<rparr>) = logs_on a b" "logs_on a (b\<lparr> tb_listeners := ls \<rparr>) = logs_on a b"
  "logs_on a (b\<lparr> tb_shared := sh \<rparr>) = logs_on a b" "logs_on a (b\<lparr> tb_disposed := d \<rparr>) = logs_on a b"
  "logs_on a (b\<lparr> tb_io := io \<rparr>) = logs_on a b" "logs_on a (b\<lparr> tb_receipts := rs \<rparr>) = logs_on a b"
  "logs_on a (end_call op b) = logs_on a b" "logs_on a (register_job op j b) = logs_on a b"
  "logs_on a (start_call op k w b) = logs_on a b"
  by (simp_all add: logs_on_def retain_receipt_def end_call_def register_job_def start_call_def split: sum.split)

lemma logs_on_finish: "logs_on a b \<Longrightarrow> logs_on a (finish_abort op reason early confirmed b)"
  using logs_on_append by (auto simp: finish_abort_def split: prod.split)

lemma logs_on_begin: "logs_on a b \<Longrightarrow> logs_on a (begin_abort c op reason early b)"
  by (auto simp: begin_abort_def Let_def intro: logs_on_finish)

lemma logs_on_flush_loop: "logs_on a b \<Longrightarrow> logs_on a (flush_loop rs b)"
proof (induction rs arbitrary: b)
  case (Cons r rs)
  obtain op st m where r: "r = (op, Receipt st m)" by (metis receipt.exhaust surj_pair)
  obtain ok b' where e: "append_entry (Recovery op st m) b = (ok, b')" by force
  show ?case using Cons.IH logs_on_append [OF e Cons.prems] by (simp add: r e)
qed simp

lemma logs_on_flush: "logs_on b (flush_receipts b)"
  by (simp add: flush_receipts_def logs_on_flush_loop)

lemma logs_on_failed: "logs_on a b \<Longrightarrow> logs_on a (call_failed op k e m b)"
  using logs_on_append by (auto simp: call_failed_def Let_def split: prod.split)

lemma logs_on_done: "logs_on b (call_done op k r b)"
proof (cases "job_done op (end_call op b)")
  case True
  then show ?thesis by (auto simp: call_done_def Let_def marked_cancelled_def intro!: logs_on_returned)
next
  case False
  let ?b = "mark_done op (end_call op b)"
  show ?thesis
  proof (cases rule: append_cases [of "result_outcome op k r" ?b])
    case accepted
    have "logs_on b (tell op (Returned r) (?b\<lparr> tb_journal := tb_journal ?b @ [result_outcome op k r], tb_io := tl (tb_io ?b) \<rparr>))"
      by (rule logs_on_returned [OF logs_on_append [OF accepted]]) auto
    then show ?thesis using False accepted by (simp add: call_done_def Let_def)
  next
    case refused
    then show ?thesis using False logs_on_append [OF refused, of b] by (simp add: call_done_def Let_def)
  qed
qed

lemma logs_on_execute: "logs_on b (execute c caller req op b)"
  using logs_on_flush [of b] logs_on_append
  by (auto simp: execute_def begin_execute_def Let_def split: sum.split prod.split intro!: logs_on_begin)

lemma logs_on_check: "logs_on b (run_controller_check c req op b)"
  using logs_on_flush [of b] logs_on_append
  by (auto simp: run_controller_check_def begin_check_def Let_def split: prod.split option.split intro!: logs_on_failed)

lemma logs_on_step: "logs_on b (broker_step c ev b)"
  using logs_on_flush [of b] logs_on_append
  by (cases ev)
     (auto simp: logs_on_execute logs_on_check logs_on_done logs_on_failed cancel_jobs_def cancel_next_def Let_def
       intro!: logs_on_begin logs_on_finish
       split: option.split call.split abort_wait.split batch.split list.split prod.split)

lemma reach_answers: "broker_reach c b \<Longrightarrow> answers_well b"
proof (induction rule: broker_reach.induct)
  case (fresh shared)
  then show ?case by (simp add: new_broker_def answers_well_def)
next
  case (step b ev)
  then show ?case using answers_logs logs_on_step by blast
qed

section \<open>Properties\<close>

lemma one_outcome_lemma: "broker_reach c b \<Longrightarrow> outcomes op b \<le> 1"
  using owned_onceD(1) [OF reach_owned, of c b op] by (simp add: tokens_def)

text \<open>
  C7. However calls, answers, failures, aborted signals, cancellations and refused appends interleave,
  the journal holds at most one outcome of an operation, none while the job is unfinished, and when a
  caller was given a result with exit code zero, that outcome is the only one: a cancelled job is never
  reported as a success.
\<close>

theorem one_outcome_per_operation:
  assumes "broker_reach c b"
  shows "outcomes op b \<le> 1 \<and> (\<not> job_done op b \<longrightarrow> outcomes op b = 0) \<and>
    (\<forall>r. (op, Returned r) \<in> set (tb_told b) \<longrightarrow> jr_exit_code r = Some 0 \<longrightarrow>
       (\<exists>k. filter (outcome_of op) (tb_journal b) = [result_outcome op k r]))"
proof -
  have t: "tokens op b \<le> 1" using owned_onceD(1) [OF reach_owned [OF assms]] .
  have "\<exists>k. filter (outcome_of op) (tb_journal b) = [result_outcome op k r]"
    if r: "(op, Returned r) \<in> set (tb_told b)" "jr_exit_code r = Some 0" for r
  proof -
    obtain k where k: "result_outcome op k r \<in> set (tb_journal b)"
      using reach_answers [OF assms] r unfolding answers_well_def by blast
    have "result_outcome op k r \<in> set (filter (outcome_of op) (tb_journal b))"
      using k by (cases k) (auto simp: result_outcome_def)
    moreover have "length (filter (outcome_of op) (tb_journal b)) \<le> 1"
      using t by (simp add: tokens_def outcomes_def)
    ultimately have "filter (outcome_of op) (tb_journal b) = [result_outcome op k r]"
      by (cases "filter (outcome_of op) (tb_journal b)"; cases "tl (filter (outcome_of op) (tb_journal b))") auto
    then show ?thesis by blast
  qed
  then show ?thesis using t by (auto simp: tokens_def split: if_splits)
qed

text \<open>
  C12. A backend is started at most once for an operation and only when its intent is in the journal,
  exactly once.
\<close>

theorem started_once_with_intent:
  assumes "broker_reach c b"
  shows "distinct (map fst (tb_started b)) \<and> (\<forall>op \<in> fst ` set (tb_started b). intents op b = 1)"
  using reach_booked [OF assms] by (simp add: booked_def)

text \<open>
  C8. As long as the broker is not disposed, an operation whose intent is in the journal is either still
  owned (by its running job, an abort or a batch that has not come back), or has its outcome in the
  journal, or a fault receipt for it waits or was delivered, or its caller was told that the outcome
  could not be recorded: no outcome is lost silently.
\<close>

theorem no_outcome_lost:
  assumes "broker_reach c b" and "\<not> tb_disposed b" and "intents op b = 1"
  shows "\<not> job_done op b \<or> op \<in> fst ` set (tb_aborts b) \<or>
    (\<exists>bt \<in> set (tb_batches b). op \<in> set (batch_rest (snd bt))) \<or> outcomes op b = 1 \<or>
    op \<in> fst ` set (tb_receipts b) \<or> (\<exists>e \<in> set (tb_journal b). recovery_of op e) \<or>
    (op, Threw Outcome_refused) \<in> set (tb_told b)"
proof -
  have "covered op b" using reach_kept [OF assms(1)] assms(3) by (simp add: kept_def)
  then consider "tokens op b = 1" | "op \<in> fst ` set (tb_receipts b)"
    | "\<exists>e \<in> set (tb_journal b). recovery_of op e" | "(op, Threw Outcome_refused) \<in> set (tb_told b)"
    using assms(2) by (auto simp: covered_def)
  then show ?thesis
  proof cases
    case 1
    have "op \<in> fst ` set (tb_aborts b)" if "count_list (map fst (tb_aborts b)) op \<noteq> 0"
      using that by (metis count_notin list.set_map)
    moreover have "\<exists>bt \<in> set (tb_batches b). op \<in> set (batch_rest (snd bt))" if "batched op b \<noteq> 0"
    proof (rule ccontr)
      assume "\<not> (\<exists>bt \<in> set (tb_batches b). op \<in> set (batch_rest (snd bt)))"
      then have "batched op b = 0" by (auto simp: batched_def count_list_0_iff)
      then show False using that by simp
    qed
    moreover have "outcomes op b \<le> 1" using one_outcome_lemma [OF assms(1)] .
    ultimately show ?thesis using 1 by (auto simp: tokens_def split: if_splits)
  qed auto
qed

lemma flush_loop_delivers:
  "tb_receipts (flush_loop rs b) = [] \<Longrightarrow> op \<in> fst ` set (tb_receipts b) \<Longrightarrow>
     \<exists>e \<in> set (tb_journal (flush_loop rs b)). recovery_of op e"
proof (induction rs arbitrary: b)
  case (Cons r rs)
  obtain o' st' m' where r: "r = (o', Receipt st' m')" by (metis receipt.exhaust surj_pair)
  show ?case
  proof (cases rule: append_cases [of "Recovery o' st' m'" b])
    case accepted
    let ?b = "b\<lparr> tb_journal := tb_journal b @ [Recovery o' st' m'], tb_io := tl (tb_io b),
      tb_receipts := map_del o' (tb_receipts b) \<rparr>"
    have f: "flush_loop (r # rs) b = flush_loop rs ?b" by (simp add: r accepted)
    have "set (tb_journal ?b) \<subseteq> set (tb_journal (flush_loop rs ?b))"
      using logs_on_flush_loop [OF logs_on_refl, of ?b rs] by (simp add: logs_on_def)
    then show ?thesis using Cons.IH [of ?b] Cons.prems unfolding f by (cases "op = o'") fastforce+
  next
    case refused
    then show ?thesis using Cons.prems by (simp add: r)
  qed
qed simp

lemma flush_delivers:
  "tb_receipts (flush_receipts b) = [] \<Longrightarrow> op \<in> fst ` set (tb_receipts b) \<Longrightarrow>
     \<exists>e \<in> set (tb_journal (flush_receipts b)). recovery_of op e"
  using flush_loop_delivers [of "tb_receipts b" b op] by (auto simp: flush_receipts_def split: if_splits)

lemma begin_execute_logs: "logs_on b (begin_execute c caller req op args gen b)"
  using logs_on_append by (auto simp: begin_execute_def Let_def split: prod.split intro!: logs_on_begin)

lemma begin_check_logs: "logs_on b (begin_check c req op b)"
  using logs_on_append
  by (auto simp: begin_check_def Let_def split: prod.split option.split intro!: logs_on_failed)

lemma start_needs_delivery:
  assumes "tb_started (broker_step c ev b) \<noteq> tb_started b"
  shows "tb_receipts (flush_receipts b) = [] \<and> logs_on (flush_receipts b) (broker_step c ev b)"
proof (cases "(\<forall>caller req op. ev \<noteq> Execute caller req op) \<and> (\<forall>req op. ev \<noteq> Check req op)")
  case True
  then have "carries_on b (broker_step c ev b)" by (simp add: step_carries)
  then show ?thesis using assms by (simp add: carries_on_def)
next
  case False
  then consider caller req op where "ev = Execute caller req op" | req op where "ev = Check req op" by blast
  then show ?thesis
  proof cases
    case 1
    then obtain x where x: "admission c caller req op (flush_receipts b) = Inr x"
      using assms by (cases "admission c caller req op (flush_receipts b)") (auto simp: execute_def Let_def tell_def)
    then show ?thesis
      by (auto simp: 1 execute_def Let_def begin_execute_logs admission_def has_pending_receipts_def split: if_splits prod.split)
  next
    case 2
    then show ?thesis using assms
      by (auto simp: run_controller_check_def Let_def tell_def begin_check_logs has_pending_receipts_def split: if_splits)
  qed
qed

text \<open>
  C13. While the journal refuses a fault receipt nothing new starts: when an event starts a backend, every
  receipt that was waiting has just been delivered to the journal.
\<close>

theorem no_start_before_receipts:
  assumes "tb_started (broker_step c ev b) \<noteq> tb_started b" and "op \<in> fst ` set (tb_receipts b)"
  shows "\<exists>e \<in> set (tb_journal (broker_step c ev b)). recovery_of op e"
  using start_needs_delivery [OF assms(1)] flush_delivers [OF _ assms(2)] unfolding logs_on_def by blast

lemma begin_execute_started:
  "tb_started (begin_execute c caller req op args gen b) = tb_started b \<or>
   (\<exists>spec. run_tool c caller op (rq_tool req) args = Inr spec \<and>
      tb_started (begin_execute c caller req op args gen b) = tb_started b @ [(op, spec)])"
proof -
  let ?job = "\<lparr> oj_backend = (if br_sandbox caller = None then On_host else In_sandbox),
            oj_agent = br_agent caller, oj_tool = rq_tool req, oj_done = False \<rparr>"
  let ?e = "Intent op (br_agent caller) (br_task_run caller) gen (rq_tool req) (rq_parent req)"
  obtain ok b1 where a: "append_entry ?e (register_job op ?job b) = (ok, b1)" by force
  have s: "tb_started b1 = tb_started b"
    using a by (auto simp: append_entry_def register_job_def split: if_splits)
  have "tb_started (begin_abort c op reason True b1) = tb_started b" for reason
    using carries_on_begin [OF carries_on_refl [of b1]] s by (simp add: carries_on_def)
  then show ?thesis
    using s by (auto simp: begin_execute_def a tell_def start_call_def split: sum.split)
qed

lemma begin_check_started:
  "tb_started (begin_check c req op b) = tb_started b \<or>
   (\<exists>spec argv cwd timeout. job_spec c (cr_sandbox req) None op argv cwd None timeout = Some spec \<and>
      tb_started (begin_check c req op b) = tb_started b @ [(op, spec)])"
proof -
  let ?job = "\<lparr> oj_backend = (if cr_sandbox req = None then On_host else In_sandbox),
            oj_agent = cr_agent req, oj_tool = js ''gate-check'', oj_done = False \<rparr>"
  let ?e = "Intent op (cr_agent req) (cr_task_run req) (cr_generation req) (js ''gate-check'') None"
  obtain ok b1 where a: "append_entry ?e (register_job op ?job b) = (ok, b1)" by force
  have s: "tb_started b1 = tb_started b"
    using a by (auto simp: append_entry_def register_job_def split: if_splits)
  have "tb_started (call_failed op Gate_check e m b1) = tb_started b" for e m
    using carries_on_failed [of b1 op Gate_check e m] s by (simp add: carries_on_def)
  then show ?thesis
    using s by (auto simp: begin_check_def a tell_def start_call_def Let_def split: option.split)
qed

lemma job_spec_view:
  assumes "job_spec c sandbox writable op argv cwd stdin timeout = Some spec"
  shows "case sandbox of
       None \<Rightarrow> ts_view spec = None
     | Some s \<Rightarrow> \<exists>v. ts_view spec = Some v \<and> \<not> sv_network v \<and> sv_writable v = writable \<and> sv_tmp v = cs_tmp s"
  using assms by (auto simp: job_spec_def split: option.splits)

lemma run_tool_view:
  assumes "run_tool c caller op tool args = Inr spec"
  shows "(tool \<in> set WRITE_TOOLS \<longrightarrow> br_writable caller \<noteq> None \<and> br_writable caller \<noteq> Some []) \<and>
    (tool = js ''bash'' \<longrightarrow> gr_shell (br_grants caller)) \<and>
    (case br_sandbox caller of
       None \<Rightarrow> ts_view spec = None
     | Some s \<Rightarrow> \<exists>v. ts_view spec = Some v \<and> \<not> sv_network v \<and> sv_writable v = br_writable caller \<and> sv_tmp v = cs_tmp s)"
proof -
  have k: "\<exists>argv cwd stdin timeout. job_spec c (br_sandbox caller) (br_writable caller) op argv cwd stdin timeout = Some spec"
    using assms by (auto simp: run_tool_def Let_def or_unexecutable_def split: if_splits option.splits)
  then have "case br_sandbox caller of
       None \<Rightarrow> ts_view spec = None
     | Some s \<Rightarrow> \<exists>v. ts_view spec = Some v \<and> \<not> sv_network v \<and> sv_writable v = br_writable caller \<and> sv_tmp v = cs_tmp s"
    using job_spec_view by blast
  moreover have "js ''bash'' \<notin> set FILE_TOOLS" "js ''bash'' \<notin> set WRITE_TOOLS" "set WRITE_TOOLS \<inter> set FILE_TOOLS = {}"
    by (auto simp: FILE_TOOLS_def WRITE_TOOLS_def)
  ultimately show ?thesis
    using assms by (auto simp: run_tool_def Let_def split: if_splits)
qed

text \<open>
  C9. A tool call that starts a backend was granted the tool by name, passed the validation of its
  arguments, has an admitted generation and an id nobody used, a writer's tree for \<open>write\<close> and \<open>edit\<close> and the shell grant
  for \<open>bash\<close>; a sandboxed caller's job gets a view without network whose only writable paths are the caller's own.
\<close>

theorem started_call_is_authorised:
  assumes "tb_started (broker_step c (Execute caller req op) b) = tb_started b @ [(op', spec)]"
  shows "op' = op \<and> authorize_tool (br_grants caller) (rq_tool req) = Inr () \<and>
    is_ok (validate_tool_args (bc_is_regexp c) (rq_tool req) (json_norm (rq_args req))) \<and>
    br_generation caller \<noteq> None \<and> job_of op b = None \<and> op \<notin> set (tb_shared b) \<and>
    (rq_tool req \<in> set WRITE_TOOLS \<longrightarrow> br_writable caller \<noteq> None \<and> br_writable caller \<noteq> Some []) \<and>
    (rq_tool req = js ''bash'' \<longrightarrow> gr_shell (br_grants caller)) \<and>
    (case br_sandbox caller of
       None \<Rightarrow> ts_view spec = None
     | Some s \<Rightarrow> \<exists>v. ts_view spec = Some v \<and> \<not> sv_network v \<and> sv_writable v = br_writable caller \<and> sv_tmp v = cs_tmp s)"
proof -
  let ?b = "flush_receipts b"
  obtain args gen where adm: "admission c caller req op ?b = Inr (args, gen)"
    using assms by (cases "admission c caller req op ?b") (auto simp: execute_def Let_def tell_def)
  then have "tb_started (begin_execute c caller req op args gen ?b) = tb_started b @ [(op', spec)]"
    using assms by (simp add: execute_def)
  then have run: "op' = op" "run_tool c caller op (rq_tool req) args = Inr spec"
    using begin_execute_started [of c caller req op args gen ?b] by auto
  have "authorize_tool (br_grants caller) (rq_tool req) = Inr () \<and>
    is_ok (validate_tool_args (bc_is_regexp c) (rq_tool req) (json_norm (rq_args req))) \<and>
    br_generation caller \<noteq> None \<and> job_of op b = None \<and> op \<notin> set (tb_shared b)"
    using adm by (auto simp: admission_def split: if_splits sum.splits option.splits)
  then show ?thesis using run run_tool_view [OF run(2)] by blast
qed

text \<open>
  C10. A controller check of a sandboxed candidate cannot change it: whatever launcher runs it, the only
  host files its job can write lie in the scratch directory.
\<close>

theorem controller_check_reads_only:
  assumes "tb_started (broker_step c (Check req op) b) = tb_started b @ [(op', spec)]"
    and "cr_sandbox req = Some s" and "applies_in_order h shows'"
    and "bwrap_exec h probe_ok spec = Inr ops" and "shows' ops p = Host_file f True"
  shows "op' = op \<and> is_under p (cs_tmp s) \<and> f = graft (real h (cs_tmp s)) (cs_tmp s) p"
proof -
  let ?b = "flush_receipts b"
  have "tb_started (begin_check c req op ?b) = tb_started b @ [(op', spec)]"
    using assms(1) by (auto simp: run_controller_check_def Let_def tell_def split: if_splits)
  then have k: "op' = op" "\<exists>argv cwd timeout. job_spec c (Some s) None op argv cwd None timeout = Some spec"
    using begin_check_started [of c req op ?b] assms(2) by auto
  then obtain v where v: "ts_view spec = Some v" "sv_writable v = None" "sv_tmp v = cs_tmp s"
    using job_spec_view [of c "Some s" None] by fastforce
  then have "writable_paths v = [cs_tmp s]" by (simp add: writable_paths_def)
  then show ?thesis using writes_confined [OF assms(3,4) v(1) assms(5)] k by auto
qed

text \<open>After the batch of an agent was taken the agent is quiescent.\<close>

lemma cancelled_agent_is_quiescent:
  assumes "broker_reach c b" and "i \<notin> fst ` set (tb_batches b)"
  shows "assert_quiescent agent (broker_step c (Cancel_agent agent i) b) = Inr ()"
proof -
  have d: "distinct (map fst (tb_jobs (cancel_jobs agent i b)))"
    using cancel_jobs_owned [OF reach_owned [OF assms(1)] assms(2)] by (simp add: owned_once_def)
  have d0: "distinct (map fst (tb_jobs (flush_receipts b)))"
    using reach_owned [OF assms(1)] by (simp add: owned_once_def)
  have "op \<notin> set (active_jobs agent (cancel_jobs agent i b))" for op
  proof
    assume "op \<in> set (active_jobs agent (cancel_jobs agent i b))"
    then obtain j where j: "job_of op (cancel_jobs agent i b) = Some j" "oj_agent j = agent" "\<not> oj_done j"
      unfolding active_job [OF d] by blast
    have same: "job_of op (cancel_jobs agent i b) = job_of op (own_all (active_jobs agent (flush_receipts b)) (flush_receipts b))"
      by (simp add: cancel_jobs_def Let_def)
    have "\<not> job_done op (own_all (active_jobs agent (flush_receipts b)) (flush_receipts b))"
      using j same by (simp add: known_done_job(2))
    then have "op \<notin> set (active_jobs agent (flush_receipts b))" "\<not> job_done op (flush_receipts b)" by simp_all
    moreover obtain j' where "job_of op (flush_receipts b) = Some j'" "oj_agent j' = oj_agent j"
      using own_all_agent [of op "active_jobs agent (flush_receipts b)" "flush_receipts b"] j(1) same by auto
    ultimately show False using j(2) by (auto simp: active_job [OF d0] known_done_job(2))
  qed
  then show ?thesis using assms(2) by (auto simp: assert_quiescent_def Let_def) (metis list.set_intros(1) neq_Nil_conv)
qed

section \<open>A sample session\<close>

definition run_events :: "broker_config \<Rightarrow> broker_event list \<Rightarrow> tool_broker \<Rightarrow> tool_broker" where
  "run_events c evs b = fold (broker_step c) evs b"

lemma run_events_reach: "broker_reach c b \<Longrightarrow> broker_reach c (run_events c evs b)"
  by (induction evs arbitrary: b) (auto simp: run_events_def intro: broker_reach.step)

definition sample_config :: broker_config where
  "sample_config = \<lparr> bc_runtime_roots = [], bc_sandbox_env = [(js ''PATH'', js ''/bin'')],
     bc_host_env = [(js ''PATH'', js ''/bin'')], bc_sandbox_cancels = True, bc_host_cancels = True,
     bc_node = js ''/bin/node'', bc_script = (\<lambda>t. t), bc_number_text = (\<lambda>_. []),
     bc_is_regexp = (\<lambda>_. True), bc_host = sample_host \<rparr>"

definition sample_caller :: "caller_sandbox option \<Rightarrow> broker_caller" where
  "sample_caller s = \<lparr> br_agent = js ''a'', br_task_run = Some (js ''t''), br_generation = Some 1,
     br_grants = \<lparr> gr_tools = [js ''read'', js ''bash''], gr_external = [], gr_repos = [], gr_shell = True,
       gr_network = False, gr_nesting = False, gr_max_depth = 0, gr_isolation = Iso_none \<rparr>,
     br_workdir = js ''/w'', br_writable = None, br_sandbox = s \<rparr>"

definition sample_call :: "string \<Rightarrow> signal_arg \<Rightarrow> broker_event" where
  "sample_call op sg = Execute (sample_caller None) \<lparr> rq_tool = js ''read'',
     rq_args = JObj [(js ''path'', JStr (js ''f''))], rq_parent = None, rq_signal = sg \<rparr> (js op)"

definition sample_result :: job_result where
  "sample_result = \<lparr> jr_exit_code = Some 0, jr_signal = None, jr_stdout = js ''f'', jr_stderr = [],
     jr_truncated = False, jr_timed_out = False \<rparr>"

definition sample_args :: js_value where
  "sample_args = JObj [(js ''path'', JStr (js ''f'')), (js ''offset'', JUndef), (js ''limit'', JUndef)]"

definition sample_spec_of :: "op_id \<Rightarrow> tool_spec" where
  "sample_spec_of op = \<lparr> ts_operation = op, ts_argv = [js ''/bin/node'', js ''-e'', js ''read''], ts_cwd = js ''/w'',
     ts_env = [(js ''PATH'', js ''/bin'')], ts_stdin = Some (json_text (\<lambda>_. []) sample_args),
     ts_timeout_ms = 120000, ts_max_output = 262144, ts_view = None \<rparr>"

lemma sample_valid:
  "validate_tool_args (\<lambda>_. True) (js ''read'') (json_norm (JObj [(js ''path'', JStr (js ''f''))])) = Inr sample_args"
  by code_simp

lemma sample_exe: "resolve_exe sample_host (js ''/bin/node'') p = Some (js ''/bin/node'')"
proof -
  have "47 \<in> set (js ''/bin/node'')" by (simp add: js_def)
  then show ?thesis by (simp add: resolve_exe_def sample_host_def)
qed

lemma broker_sample_run:
  "run_tool sample_config (sample_caller None) op (js ''read'') sample_args = Inr (sample_spec_of op)"
  by (simp add: run_tool_def FILE_TOOLS_def Let_def job_spec_def sample_config_def sample_caller_def sample_exe
      or_unexecutable_def sample_spec_of_def TOOL_TIMEOUT_MS_def TOOL_MAX_OUTPUT_def)

lemma sample_auth: "authorize_tool (br_grants (sample_caller None)) (js ''read'') = Inr ()"
  by code_simp

lemma sample_admitted:
  "tb_receipts b = [] \<Longrightarrow> job_of op b = None \<Longrightarrow> op \<notin> set (tb_shared b) \<Longrightarrow>
   admission sample_config (sample_caller None) \<lparr> rq_tool = js ''read'',
     rq_args = JObj [(js ''path'', JStr (js ''f''))], rq_parent = None, rq_signal = sg \<rparr> op b = Inr (sample_args, 1)"
  using sample_valid
  by (simp add: admission_def has_pending_receipts_def sample_auth) (simp add: sample_config_def sample_caller_def)

lemma sample_execute:
  "tb_receipts b = [] \<Longrightarrow> job_of (js op) b = None \<Longrightarrow> js op \<notin> set (tb_shared b) \<Longrightarrow> sg \<noteq> Aborted_signal \<Longrightarrow>
   tb_io b = [] \<Longrightarrow>
   broker_step sample_config (sample_call op sg) b =
     b\<lparr> tb_jobs := map_put (js op) \<lparr> oj_backend = On_host, oj_agent = js ''a'', oj_tool = js ''read'', oj_done = False \<rparr> (tb_jobs b),
        tb_shared := set_add (js op) (tb_shared b),
        tb_journal := tb_journal b @ [Intent (js op) (js ''a'') (Some (js ''t'')) 1 (js ''read'') None],
        tb_listeners := tb_listeners b @ (if sg = Live_signal then [js op] else []),
        tb_calls := tb_calls b @ [(js op, Call Tool_call None)],
        tb_started := tb_started b @ [(js op, sample_spec_of (js op))] \<rparr>"
  by (simp add: sample_call_def execute_def flush_receipts_def sample_admitted begin_execute_def Let_def append_entry_def
      register_job_def start_call_def broker_sample_run) (auto simp: sample_caller_def)

lemmas broker_eval = run_events_def call_done_def call_failed_def end_call_def begin_abort_def finish_abort_def
  append_entry_def retain_receipt_def tell_def mark_done_def job_of_def known_done_job(2) backend_cancels_def Let_def
  map_del_def set_delete_def set_add_def new_broker_def cancel_jobs_def cancel_next_def active_jobs_def own_all_def flush_receipts_def

lemma sample_cancels: "bc_sandbox_cancels sample_config" "bc_host_cancels sample_config"
  by (simp_all add: sample_config_def)

definition sample_job :: "bool \<Rightarrow> owned_job" where
  "sample_job d = \<lparr> oj_backend = On_host, oj_agent = js ''a'', oj_tool = js ''read'', oj_done = d \<rparr>"

definition sample_intent :: "string \<Rightarrow> tool_entry" where
  "sample_intent op = Intent (js op) (js ''a'') (Some (js ''t'')) 1 (js ''read'') None"

lemma sample_s2:
  "run_events sample_config [sample_call ''o1'' No_signal, sample_call ''o2'' Live_signal] (new_broker []) =
   \<lparr> tb_jobs = [(js ''o1'', sample_job False), (js ''o2'', sample_job False)], tb_shared = [js ''o1'', js ''o2''],
     tb_receipts = [], tb_disposed = False, tb_journal = [sample_intent ''o1'', sample_intent ''o2''], tb_io = [],
     tb_calls = [(js ''o1'', Call Tool_call None), (js ''o2'', Call Tool_call None)], tb_listeners = [js ''o2''],
     tb_aborts = [], tb_batches = [],
     tb_started = [(js ''o1'', sample_spec_of (js ''o1'')), (js ''o2'', sample_spec_of (js ''o2''))], tb_told = [] \<rparr>"
  by (simp add: run_events_def sample_execute new_broker_def job_of_def set_add_def sample_job_def sample_intent_def)

lemma sample_s4:
  "run_events sample_config [Backend_answers (js ''o1'') sample_result, Signal_aborted (js ''o2'')]
   \<lparr> tb_jobs = [(js ''o1'', sample_job False), (js ''o2'', sample_job False)], tb_shared = [js ''o1'', js ''o2''],
     tb_receipts = [], tb_disposed = False, tb_journal = [sample_intent ''o1'', sample_intent ''o2''], tb_io = [],
     tb_calls = [(js ''o1'', Call Tool_call None), (js ''o2'', Call Tool_call None)], tb_listeners = [js ''o2''],
     tb_aborts = [], tb_batches = [], tb_started = st, tb_told = [] \<rparr> =
   \<lparr> tb_jobs = [(js ''o1'', sample_job True), (js ''o2'', sample_job True)], tb_shared = [js ''o1'', js ''o2''],
     tb_receipts = [], tb_disposed = False,
     tb_journal = [sample_intent ''o1'', sample_intent ''o2'', Outcome (js ''o1'') St_ok (Result_detail sample_result)], tb_io = [],
     tb_calls = [(js ''o2'', Call Tool_call None)], tb_listeners = [],
     tb_aborts = [(js ''o2'', Abort_wait (js ''invocation aborted'') False True)], tb_batches = [],
     tb_started = st, tb_told = [(js ''o1'', Returned sample_result)] \<rparr>"
  by (simp add: broker_eval sample_cancels sample_job_def result_outcome_def) (simp add: sample_result_def)

lemma sample_s7:
  "run_events sample_config [Journal_faults [False], Abort_answered (js ''o2'') True, Backend_answers (js ''o2'') sample_result]
   \<lparr> tb_jobs = [(js ''o1'', sample_job True), (js ''o2'', sample_job True)], tb_shared = [js ''o1'', js ''o2''],
     tb_receipts = [], tb_disposed = False, tb_journal = j, tb_io = [],
     tb_calls = [(js ''o2'', Call Tool_call None)], tb_listeners = [],
     tb_aborts = [(js ''o2'', Abort_wait (js ''invocation aborted'') False True)], tb_batches = [],
     tb_started = st, tb_told = told \<rparr> =
   \<lparr> tb_jobs = [(js ''o1'', sample_job True), (js ''o2'', sample_job True)], tb_shared = [js ''o1'', js ''o2''],
     tb_receipts = [(js ''o2'', cancel_failed None)], tb_disposed = False, tb_journal = j, tb_io = [],
     tb_calls = [], tb_listeners = [], tb_aborts = [], tb_batches = [],
     tb_started = st, tb_told = told @ [(js ''o2'', Returned (marked_cancelled sample_result))] \<rparr>"
  by (simp add: broker_eval sample_job_def)

text \<open>
  One call ends well, one is aborted and its backend answers all the same, the journal refuses the
  outcome of the abort, and the receipt is delivered early the next call starts.
\<close>

definition sample_session :: tool_broker where
  "sample_session =
     run_events sample_config [Journal_faults [False], Abort_answered (js ''o2'') True, Backend_answers (js ''o2'') sample_result]
    (run_events sample_config [Backend_answers (js ''o1'') sample_result, Signal_aborted (js ''o2'')]
    (run_events sample_config [sample_call ''o1'' No_signal, sample_call ''o2'' Live_signal] (new_broker [])))"

lemma sample_session_reach: "broker_reach sample_config sample_session"
  unfolding sample_session_def by (intro run_events_reach broker_reach.fresh)

lemma sample_session_eq:
  "sample_session =
   \<lparr> tb_jobs = [(js ''o1'', sample_job True), (js ''o2'', sample_job True)], tb_shared = [js ''o1'', js ''o2''],
     tb_receipts = [(js ''o2'', cancel_failed None)], tb_disposed = False,
     tb_journal = [sample_intent ''o1'', sample_intent ''o2'', Outcome (js ''o1'') St_ok (Result_detail sample_result)], tb_io = [],
     tb_calls = [], tb_listeners = [], tb_aborts = [], tb_batches = [],
     tb_started = [(js ''o1'', sample_spec_of (js ''o1'')), (js ''o2'', sample_spec_of (js ''o2''))],
     tb_told = [(js ''o1'', Returned sample_result), (js ''o2'', Returned (marked_cancelled sample_result))] \<rparr>"
  unfolding sample_session_def sample_s2 sample_s4 sample_s7 by simp

lemma one_outcome_per_operation_witness:
  "\<exists>k. filter (outcome_of (js ''o1'')) (tb_journal sample_session) = [result_outcome (js ''o1'') k sample_result]"
proof -
  have "(js ''o1'', Returned sample_result) \<in> set (tb_told sample_session)" "jr_exit_code sample_result = Some 0"
    by (simp_all add: sample_session_eq sample_result_def)
  then show ?thesis using one_outcome_per_operation [OF sample_session_reach] by blast
qed

lemma started_once_with_intent_witness:
  "intents (js ''o2'') sample_session = 1 \<and> distinct (map fst (tb_started sample_session))"
proof -
  have "js ''o2'' \<in> fst ` set (tb_started sample_session)" by (simp add: sample_session_eq)
  then show ?thesis using started_once_with_intent [OF sample_session_reach] by blast
qed

lemma no_outcome_lost_witness: "js ''o2'' \<in> fst ` set (tb_receipts sample_session)"
proof -
  have "intents (js ''o2'') sample_session = 1" "\<not> tb_disposed sample_session"
    "job_done (js ''o2'') sample_session" "outcomes (js ''o2'') sample_session = 0"
    by (simp_all add: sample_session_eq intents_def outcomes_def known_done_job(2) job_of_def sample_intent_def sample_job_def)
  moreover have "tb_aborts sample_session = []" "tb_batches sample_session = []"
    "(js ''o2'', Threw Outcome_refused) \<notin> set (tb_told sample_session)"
    "\<not> (\<exists>e \<in> set (tb_journal sample_session). recovery_of (js ''o2'') e)"
    by (simp_all add: sample_session_eq sample_intent_def)
  ultimately show ?thesis using no_outcome_lost [OF sample_session_reach, of "js ''o2''"] by auto
qed

lemma sample_next:
  "broker_step sample_config (sample_call ''o3'' No_signal) sample_session =
   \<lparr> tb_jobs = [(js ''o1'', sample_job True), (js ''o2'', sample_job True), (js ''o3'', sample_job False)],
     tb_shared = [js ''o1'', js ''o2'', js ''o3''], tb_receipts = [], tb_disposed = False,
     tb_journal = [sample_intent ''o1'', sample_intent ''o2'', Outcome (js ''o1'') St_ok (Result_detail sample_result),
       Recovery (js ''o2'') None (js ''broker-cancel-commit-failed''), sample_intent ''o3''], tb_io = [],
     tb_calls = [(js ''o3'', Call Tool_call None)], tb_listeners = [], tb_aborts = [], tb_batches = [],
     tb_started = [(js ''o1'', sample_spec_of (js ''o1'')), (js ''o2'', sample_spec_of (js ''o2'')),
       (js ''o3'', sample_spec_of (js ''o3''))],
     tb_told = [(js ''o1'', Returned sample_result), (js ''o2'', Returned (marked_cancelled sample_result))] \<rparr>"
proof -
  let ?b = "sample_session\<lparr> tb_receipts := [], tb_journal := tb_journal sample_session @
     [Recovery (js ''o2'') None (js ''broker-cancel-commit-failed'')] \<rparr>"
  have f: "flush_receipts sample_session = ?b"
    by (simp add: sample_session_eq flush_receipts_def cancel_failed_def append_entry_def map_del_def)
  have "broker_step sample_config (sample_call ''o3'' No_signal) sample_session =
      broker_step sample_config (sample_call ''o3'' No_signal) ?b"
    unfolding sample_call_def broker_step.simps execute_def f by (simp add: flush_receipts_def)
  also have "\<dots> = ?b\<lparr> tb_jobs := map_put (js ''o3'') (sample_job False) (tb_jobs ?b),
        tb_shared := set_add (js ''o3'') (tb_shared ?b),
        tb_journal := tb_journal ?b @ [sample_intent ''o3''],
        tb_calls := tb_calls ?b @ [(js ''o3'', Call Tool_call None)],
        tb_started := tb_started ?b @ [(js ''o3'', sample_spec_of (js ''o3''))] \<rparr>"
    by (subst sample_execute) (simp_all add: sample_session_eq job_of_def sample_job_def sample_intent_def)
  finally show ?thesis by (simp add: sample_session_eq set_add_def)
qed

lemma no_start_before_receipts_witness:
  "\<exists>e \<in> set (tb_journal (broker_step sample_config (sample_call ''o3'' No_signal) sample_session)). recovery_of (js ''o2'') e"
proof (rule no_start_before_receipts)
  show "tb_started (broker_step sample_config (sample_call ''o3'' No_signal) sample_session) \<noteq> tb_started sample_session"
    unfolding sample_next by (simp add: sample_session_eq)
  show "js ''o2'' \<in> fst ` set (tb_receipts sample_session)" by (simp add: sample_session_eq)
qed

lemma started_call_is_authorised_witness:
  "authorize_tool (br_grants (sample_caller None)) (js ''read'') = Inr () \<and> job_of (js ''o3'') sample_session = None"
proof -
  have "tb_started (broker_step sample_config (sample_call ''o3'' No_signal) sample_session) =
      tb_started sample_session @ [(js ''o3'', sample_spec_of (js ''o3''))]"
    unfolding sample_next by (simp add: sample_session_eq)
  then show ?thesis
    unfolding sample_call_def using started_call_is_authorised by fastforce
qed

text \<open>A controller check of a sandboxed candidate.\<close>

definition sample_check_sandbox :: caller_sandbox where
  "sample_check_sandbox = \<lparr> cs_read_roots = [js ''/u''], cs_tmp = js ''/t'', cs_hides = [],
     cs_storage = None, cs_read_only = None \<rparr>"

definition sample_check :: check_request where
  "sample_check = \<lparr> cr_agent = js ''a'', cr_task_run = None, cr_generation = 1,
     cr_sandbox = Some sample_check_sandbox, cr_command = js ''make'', cr_cwd = js ''/u'', cr_timeout_ms = 1000 \<rparr>"

definition sample_check_view :: sandbox_view where
  "sample_check_view = \<lparr> sv_read_roots = [js ''/u''], sv_writable = None, sv_tmp = js ''/t'', sv_hides = [],
     sv_storage = [], sv_read_only = [], sv_runtime = [], sv_network = False \<rparr>"

definition sample_check_spec :: tool_spec where
  "sample_check_spec = \<lparr> ts_operation = js ''g'', ts_argv = [js ''/bin/bash'', js ''-c'', js ''make''],
     ts_cwd = js ''/u'', ts_env = [(js ''PATH'', js ''/bin''), (js ''HOME'', js ''/t''), (js ''TMPDIR'', js ''/t'')],
     ts_stdin = None, ts_timeout_ms = 1000, ts_max_output = 262144, ts_view = Some sample_check_view \<rparr>"

lemma sample_check_job:
  "job_spec sample_config (cr_sandbox sample_check) None (js ''g'') [js ''bash'', js ''-c'', cr_command sample_check]
     (cr_cwd sample_check) None (cr_timeout_ms sample_check) = Some sample_check_spec"
  by code_simp

lemma sample_check_started:
  "tb_started (broker_step sample_config (Check sample_check (js ''g'')) (new_broker [])) = [(js ''g'', sample_check_spec)]"
proof -
  have c: "cr_command sample_check \<noteq> []" "\<not> 32768 < length (cr_command sample_check)"
    by (simp_all add: sample_check_def)
  show ?thesis
    by (simp add: run_controller_check_def c begin_check_def sample_check_job flush_receipts_def
        has_pending_receipts_def start_call_def Let_def append_entry_def)
       (simp add: new_broker_def register_job_def job_of_def)
qed

lemma controller_check_reads_only_witness:
  "is_under (js ''/t/x'') (cs_tmp sample_check_sandbox)"
proof -
  have "tb_started (broker_step sample_config (Check sample_check (js ''g'')) (new_broker []))
      = tb_started (new_broker []) @ [(js ''g'', sample_check_spec)]"
    unfolding sample_check_started by (simp add: new_broker_def)
  moreover have "cr_sandbox sample_check = Some sample_check_sandbox" by (simp add: sample_check_def)
  moreover have "bwrap_exec sample_host True sample_check_spec = Inr (view_ops sample_host sample_check_spec sample_check_view)"
    by code_simp
  moreover have "layered sample_host (view_ops sample_host sample_check_spec sample_check_view) (js ''/t/x'')
      = Host_file (js ''/t/x'') True"
    by code_simp
  ultimately show ?thesis
    using controller_check_reads_only [OF _ _ layered_applies_in_order] by blast
qed

text \<open>
  When the journal refuses the intent of a call, the caller is told so and no backend starts, but the
  job stays registered as active: the agent cannot be parked, and the next cancellation journals an
  outcome for an operation that has no intent.
\<close>

theorem refused_intent_leaves_job:
  "let b = run_events sample_config [Journal_faults [False], sample_call ''o1'' No_signal] (new_broker []);
       b' = run_events sample_config [Cancel_agent (js ''a'') 0, Batch_answered 0 True] b in
   tb_told b = [(js ''o1'', Threw Intent_refused)] \<and> tb_started b = [] \<and> tb_journal b = [] \<and>
   assert_quiescent (js ''a'') b = Inl [js ''o1''] \<and>
   tb_journal b' = [Outcome (js ''o1'') St_cancelled No_detail]"
proof -
  have b: "run_events sample_config [Journal_faults [False], sample_call ''o1'' No_signal] (new_broker []) =
      (new_broker [])\<lparr> tb_jobs := [(js ''o1'', sample_job False)], tb_shared := [js ''o1''],
        tb_told := [(js ''o1'', Threw Intent_refused)] \<rparr>"
    by (simp add: run_events_def sample_call_def execute_def flush_receipts_def sample_admitted begin_execute_def Let_def
        append_entry_def register_job_def tell_def new_broker_def job_of_def set_add_def)
       (simp add: sample_job_def sample_caller_def)
  have b': "run_events sample_config [Cancel_agent (js ''a'') 0, Batch_answered 0 True]
      ((new_broker [])\<lparr> tb_jobs := [(js ''o1'', sample_job False)], tb_shared := [js ''o1''],
        tb_told := [(js ''o1'', Threw Intent_refused)] \<rparr>) =
      (new_broker [])\<lparr> tb_jobs := [(js ''o1'', sample_job True)], tb_shared := [js ''o1''],
        tb_told := [(js ''o1'', Threw Intent_refused)], tb_journal := [Outcome (js ''o1'') St_cancelled No_detail],
        tb_batches := [(0, Batch [] [js ''o1''] False)] \<rparr>"
    by (simp add: broker_eval sample_job_def sample_cancels cancel_status_def)
  show ?thesis
    unfolding Let_def b b' by (simp add: new_broker_def assert_quiescent_def active_jobs_def sample_job_def)
qed

end
