(* ===== verification/ToolScripts.thy ===== *)
theory ToolScripts
  imports ToolArgs "HOL-Library.Multiset" "HOL-Library.Sublist"
begin

text \<open>
  The \<open>edit\<close> and \<open>read\<close> scripts of \<open>TOOL_SCRIPTS\<close> in \<open>ponygirls-subagents/src/tools.ts\<close>, as functions of
  the text of the file. \<open>edit\<close> yields the text it writes back, \<open>read\<close> what it prints. They are compared
  with what the tools promise: that each old text is replaced where it stands, whatever the order of the
  edits, and that a file can be read page by page.
\<close>

section \<open>Searching\<close>

text \<open>\<open>s.indexOf(t, start)\<close>, for a nonempty \<open>t\<close>.\<close>

definition index_of :: "jstring \<Rightarrow> jstring \<Rightarrow> nat \<Rightarrow> nat option" where
  "index_of s t start = List.find (\<lambda>i. starts_with (drop i s) t) [start..<length s]"

definition occurs_at :: "jstring \<Rightarrow> jstring \<Rightarrow> nat \<Rightarrow> bool" where
  "occurs_at s t i \<longleftrightarrow> (\<exists>a b. s = a @ t @ b \<and> length a = i)"

lemma starts_with_drop: "i \<le> length s \<Longrightarrow> starts_with (drop i s) t \<longleftrightarrow> occurs_at s t i"
proof
  assume le: "i \<le> length s" and "starts_with (drop i s) t"
  then obtain b where "drop i s = t @ b" by (auto simp: starts_with_iff)
  then have "s = take i s @ t @ b" by (metis append_take_drop_id)
  then show "occurs_at s t i" using le unfolding occurs_at_def by (metis length_take min.absorb2)
qed (auto simp: occurs_at_def starts_with_iff)

lemma occurs_at_bound: "occurs_at s t i \<Longrightarrow> i + length t \<le> length s"
  by (auto simp: occurs_at_def)

lemma occurs_at_ne_bound: "occurs_at s t i \<Longrightarrow> t \<noteq> [] \<Longrightarrow> i < length s"
  using occurs_at_bound [of s t i] by (cases t) auto

lemma index_of_Some:
  assumes "t \<noteq> []"
  shows "index_of s t k = Some i \<longleftrightarrow> k \<le> i \<and> occurs_at s t i \<and> (\<forall>j. k \<le> j \<and> j < i \<longrightarrow> \<not> occurs_at s t j)"
    (is "?l \<longleftrightarrow> ?r")
proof
  assume ?l
  then obtain n where n: "n < length [k..<length s]" "starts_with (drop ([k..<length s] ! n) s) t"
      "i = [k..<length s] ! n" and before: "\<forall>m < n. \<not> starts_with (drop ([k..<length s] ! m) s) t"
    unfolding index_of_def find_Some_iff by blast
  then have i: "i = k + n" "i < length s" by auto
  have "\<not> occurs_at s t j" if "k \<le> j" "j < i" for j
    using before [rule_format, of "j - k"] i that by (simp add: starts_with_drop)
  then show ?r using n i by (auto simp: starts_with_drop)
next
  assume r: ?r
  then have "i < length s" using occurs_at_ne_bound assms by blast
  then show ?l
    using r unfolding index_of_def find_Some_iff
    by (intro exI [of _ "i - k"]) (auto simp: starts_with_drop)
qed

lemma index_of_None:
  assumes "t \<noteq> []"
  shows "index_of s t k = None \<longleftrightarrow> (\<forall>j \<ge> k. \<not> occurs_at s t j)"
  using occurs_at_ne_bound [OF _ assms] unfolding index_of_def find_None_iff
  by (auto simp: starts_with_drop)

section \<open>The edit script\<close>

record text_edit =
  te_old :: jstring
  te_new :: jstring

datatype script_fault =
    Old_text_missing nat
  | Old_text_repeated nat
  | Edits_overlap nat nat
  | Offset_beyond nat nat

record edit_span =
  sp_start :: nat
  sp_end :: nat
  sp_text :: jstring
  sp_index :: nat

fun edit_spans :: "jstring \<Rightarrow> nat \<Rightarrow> text_edit list \<Rightarrow> script_fault + edit_span list" where
  "edit_spans s i [] = Inr []"
| "edit_spans s i (e # es) = (case index_of s (te_old e) 0 of
     None \<Rightarrow> Inl (Old_text_missing i)
   | Some pos \<Rightarrow>
       if index_of s (te_old e) (pos + 1) \<noteq> None then Inl (Old_text_repeated i)
       else and_then (edit_spans s (Suc i) es) (\<lambda>spans.
         Inr (\<lparr> sp_start = pos, sp_end = pos + length (te_old e), sp_text = te_new e, sp_index = i \<rparr> # spans)))"

fun check_overlap :: "edit_span list \<Rightarrow> script_fault + unit" where
  "check_overlap (a # b # rest) =
     (if sp_start b < sp_end a then Inl (Edits_overlap (sp_index a) (sp_index b))
      else check_overlap (b # rest))"
| "check_overlap _ = Inr ()"

text \<open>\<open>s.slice(from, to)\<close> for \<open>from \<le> to\<close>.\<close>

definition slice :: "jstring \<Rightarrow> nat \<Rightarrow> nat \<Rightarrow> jstring" where
  "slice s a b = take (b - a) (drop a s)"

fun apply_spans :: "jstring \<Rightarrow> nat \<Rightarrow> edit_span list \<Rightarrow> jstring" where
  "apply_spans s pos [] = drop pos s"
| "apply_spans s pos (sp # sps) =
     slice s pos (sp_start sp) @ sp_text sp @ apply_spans s (sp_end sp) sps"

definition edit_script :: "jstring \<Rightarrow> text_edit list \<Rightarrow> script_fault + jstring" where
  "edit_script s edits =
     and_then (edit_spans s 0 edits) (\<lambda>spans.
       let sorted = sort_key sp_start spans in
       and_then (check_overlap sorted) (\<lambda>_. Inr (apply_spans s 0 sorted)))"

text \<open>What the tool promises: each old text occurs once, and they stand side by side in the file.\<close>

fun weave :: "jstring list \<Rightarrow> jstring list \<Rightarrow> jstring" where
  "weave (g # gs) (p # ps) = g @ p @ weave gs ps"
| "weave [g] [] = g"
| "weave _ _ = []"

definition occurs_once :: "jstring \<Rightarrow> jstring \<Rightarrow> bool" where
  "occurs_once s t \<longleftrightarrow> (\<exists>!i. occurs_at s t i)"

definition replaces :: "jstring \<Rightarrow> text_edit list \<Rightarrow> jstring \<Rightarrow> bool" where
  "replaces s edits out \<longleftrightarrow>
     (\<forall>e \<in> set edits. occurs_once s (te_old e)) \<and>
     (\<exists>es gaps. mset es = mset edits \<and> length gaps = Suc (length es) \<and>
        s = weave gaps (map te_old es) \<and> out = weave gaps (map te_new es))"

definition spans_edit :: "jstring \<Rightarrow> text_edit \<Rightarrow> edit_span \<Rightarrow> bool" where
  "spans_edit s e sp \<longleftrightarrow> occurs_once s (te_old e) \<and> occurs_at s (te_old e) (sp_start sp) \<and>
     sp_end sp = sp_start sp + length (te_old e) \<and> sp_text sp = te_new e"

lemma occurs_onceD: "occurs_once s t \<Longrightarrow> occurs_at s t i \<Longrightarrow> occurs_at s t j \<Longrightarrow> i = j"
  by (auto simp: occurs_once_def)

lemma once_index:
  assumes "t \<noteq> []"
  shows "(\<exists>i. index_of s t 0 = Some i \<and> index_of s t (i + 1) = None) \<longleftrightarrow> occurs_once s t"
proof
  assume "\<exists>i. index_of s t 0 = Some i \<and> index_of s t (i + 1) = None"
  then obtain i where i: "occurs_at s t i" "\<forall>j < i. \<not> occurs_at s t j" "\<forall>j \<ge> i + 1. \<not> occurs_at s t j"
    by (auto simp: index_of_Some [OF assms] index_of_None [OF assms])
  have "j = i" if j: "occurs_at s t j" for j
  proof (rule ccontr)
    assume "j \<noteq> i"
    then have "j < i \<or> i + 1 \<le> j" by auto
    then show False using i j by blast
  qed
  then show "occurs_once s t" using i(1) unfolding occurs_once_def by blast
next
  assume once: "occurs_once s t"
  then obtain i where i: "occurs_at s t i" by (auto simp: occurs_once_def)
  have other: "\<not> occurs_at s t j" if "j \<noteq> i" for j using occurs_onceD [OF once i] that by blast
  have "index_of s t 0 = Some i" unfolding index_of_Some [OF assms] using i other by simp
  moreover have "index_of s t (i + 1) = None" unfolding index_of_None [OF assms] using other by simp
  ultimately show "\<exists>i. index_of s t 0 = Some i \<and> index_of s t (i + 1) = None" by blast
qed

lemma edit_spans_Inr:
  assumes "list_all (\<lambda>e. te_old e \<noteq> []) es" and "edit_spans s i es = Inr spans"
  shows "list_all2 (spans_edit s) es spans"
  using assms
proof (induction es arbitrary: i spans)
  case (Cons e es)
  then have ne: "te_old e \<noteq> []" by simp
  obtain pos sps where pos: "index_of s (te_old e) 0 = Some pos" "index_of s (te_old e) (pos + 1) = None"
      and sps: "edit_spans s (Suc i) es = Inr sps"
      and spans: "spans = \<lparr> sp_start = pos, sp_end = pos + length (te_old e), sp_text = te_new e, sp_index = i \<rparr> # sps"
    using Cons.prems(2) by (auto simp: and_then_Inr_iff split: option.splits if_splits)
  have "occurs_once s (te_old e)" using once_index [OF ne] pos by blast
  moreover have "occurs_at s (te_old e) pos" using pos(1) index_of_Some [OF ne] by blast
  ultimately show ?case using Cons.IH [OF _ sps] Cons.prems(1) by (simp add: spans spans_edit_def)
qed simp

lemma edit_spans_exist:
  assumes "list_all (\<lambda>e. te_old e \<noteq> []) es" and "\<forall>e \<in> set es. occurs_once s (te_old e)"
  shows "\<exists>spans. edit_spans s i es = Inr spans"
  using assms
proof (induction es arbitrary: i)
  case (Cons e es)
  then obtain spans where "edit_spans s (Suc i) es = Inr spans" by fastforce
  moreover obtain pos where "index_of s (te_old e) 0 = Some pos" "index_of s (te_old e) (pos + 1) = None"
    using Cons.prems once_index [of "te_old e" s] by auto
  ultimately show ?case by simp
qed simp

fun chain :: "nat \<Rightarrow> edit_span list \<Rightarrow> bool" where
  "chain pos [] \<longleftrightarrow> True"
| "chain pos (sp # sps) \<longleftrightarrow> pos \<le> sp_start sp \<and> chain (sp_end sp) sps"

lemma chain_check: "check_overlap sps = Inr () \<longleftrightarrow> (sps = [] \<or> chain (sp_start (hd sps)) sps)"
  by (induction sps rule: check_overlap.induct) auto

lemma check_chain: "check_overlap sps = Inr () \<longleftrightarrow> chain 0 sps"
  unfolding chain_check by (cases sps) auto

lemma weave_of_spans:
  assumes "list_all2 (spans_edit s) es sps" and "chain pos sps"
  shows "\<exists>gaps. length gaps = Suc (length es) \<and> drop pos s = weave gaps (map te_old es) \<and>
           apply_spans s pos sps = weave gaps (map te_new es)"
  using assms
proof (induction es sps arbitrary: pos rule: list_all2_induct)
  case Nil
  then show ?case by (intro exI [of _ "[drop pos s]"]) simp
next
  case (Cons e es sp sps)
  then obtain gaps where gaps: "length gaps = Suc (length es)"
      "drop (sp_end sp) s = weave gaps (map te_old es)"
      "apply_spans s (sp_end sp) sps = weave gaps (map te_new es)"
    by auto
  obtain a b where s: "s = a @ te_old e @ b" "length a = sp_start sp"
    using Cons.hyps by (auto simp: spans_edit_def occurs_at_def)
  have "sp_end sp = sp_start sp + length (te_old e)" "sp_text sp = te_new e" "pos \<le> sp_start sp"
    using Cons by (auto simp: spans_edit_def)
  with gaps s have "drop pos s = drop pos a @ te_old e @ weave gaps (map te_old es)"
    "slice s pos (sp_start sp) = drop pos a"
    by (auto simp: slice_def)
  with gaps \<open>sp_text sp = te_new e\<close> show ?case
    by (intro exI [of _ "drop pos a # gaps"]) simp
qed

lemma spans_of_weave:
  assumes "list_all2 (spans_edit s) es sps" and "length gaps = Suc (length es)"
    and "drop pos s = weave gaps (map te_old es)" and "pos \<le> length s"
  shows "chain pos sps \<and> apply_spans s pos sps = weave gaps (map te_new es)"
  using assms
proof (induction es sps arbitrary: pos gaps rule: list_all2_induct)
  case Nil
  then obtain g where "gaps = [g]" by (cases gaps) auto
  then show ?case using Nil by simp
next
  case (Cons e es sp sps)
  then obtain g gs where gaps: "gaps = g # gs" "length gs = Suc (length es)" by (cases gaps) auto
  have w: "drop pos s = g @ te_old e @ weave gs (map te_old es)" using Cons.prems gaps by simp
  have s: "s = take pos s @ g @ te_old e @ weave gs (map te_old es)" using w by (metis append_take_drop_id)
  have sp: "sp_start sp = pos + length g"
  proof (rule occurs_onceD)
    show "occurs_once s (te_old e)" "occurs_at s (te_old e) (sp_start sp)"
      using Cons.hyps by (auto simp: spans_edit_def)
    show "occurs_at s (te_old e) (pos + length g)"
      using s Cons.prems(3) unfolding occurs_at_def
      by (intro exI [of _ "take pos s @ g"] exI [of _ "weave gs (map te_old es)"]) simp
  qed
  have e: "sp_end sp = pos + length g + length (te_old e)" "sp_text sp = te_new e"
    using Cons.hyps sp by (auto simp: spans_edit_def)
  have d: "drop (sp_end sp) s = weave gs (map te_old es)"
    using arg_cong [OF w, of "drop (length g + length (te_old e))"] by (simp add: e ac_simps)
  have "sp_end sp \<le> length s"
    using arg_cong [OF s, of length] Cons.prems(3) by (simp add: e)
  with Cons.IH [OF gaps(2) d] have "chain (sp_end sp) sps"
    "apply_spans s (sp_end sp) sps = weave gs (map te_new es)" by auto
  moreover have "slice s pos (sp_start sp) = g" using w by (simp add: slice_def sp)
  ultimately show ?case using e sp gaps by simp
qed

lemma reorder_spans:
  assumes "list_all2 (spans_edit s) es sps" and "mset sps' = mset sps"
  shows "\<exists>es'. list_all2 (spans_edit s) es' sps' \<and> mset es' = mset es"
proof -
  have "list_all2 (\<lambda>sp e. spans_edit s e sp) sps es" using assms(1) by (simp add: list_all2_conv_all_nth)
  from list_all2_reorder_left_invariance [OF this assms(2)] obtain es' where
    "list_all2 (\<lambda>sp e. spans_edit s e sp) sps' es'" "mset es' = mset es" by blast
  then show ?thesis by (intro exI [of _ es']) (simp add: list_all2_conv_all_nth)
qed

text \<open>The place of an old text, and the edits in the order in which they stand in the file.\<close>

definition place :: "jstring \<Rightarrow> text_edit \<Rightarrow> nat" where
  "place s e = (THE i. occurs_at s (te_old e) i)"

definition span_at :: "jstring \<Rightarrow> text_edit \<Rightarrow> edit_span" where
  "span_at s e = \<lparr> sp_start = place s e, sp_end = place s e + length (te_old e),
     sp_text = te_new e, sp_index = 0 \<rparr>"

lemma place_eq: "spans_edit s e sp \<Longrightarrow> place s e = sp_start sp"
  unfolding spans_edit_def place_def occurs_once_def by (metis the1_equality)

lemma spans_edit_at: "occurs_once s (te_old e) \<Longrightarrow> spans_edit s e (span_at s e)"
  unfolding spans_edit_def span_at_def place_def occurs_once_def by (simp add: theI')

lemma map_place: "list_all2 (spans_edit s) es sps \<Longrightarrow> map (place s) es = map sp_start sps"
  by (induction es sps rule: list_all2_induct) (simp_all add: place_eq)

lemma chain_sorted:
  assumes "chain pos sps" "list_all (\<lambda>sp. sp_start sp < sp_end sp) sps"
  shows "sorted_wrt (<) (map sp_start sps) \<and> list_all (\<lambda>sp. pos \<le> sp_start sp) sps"
  using assms
proof (induction sps arbitrary: pos)
  case (Cons sp sps)
  then show ?case by (fastforce simp: list_all_iff)
qed simp

lemma weave_places:
  assumes "list_all (\<lambda>e. te_old e \<noteq> []) es" "\<forall>e \<in> set es. occurs_once s (te_old e)"
    and "length gaps = Suc (length es)" "s = weave gaps (map te_old es)"
  shows "sorted_wrt (<) (map (place s) es)"
proof -
  have r: "list_all2 (spans_edit s) es (map (span_at s) es)"
    using assms(2) by (simp add: list_all2_conv_all_nth spans_edit_at)
  have "chain 0 (map (span_at s) es)"
    using spans_of_weave [OF r assms(3), of 0] assms(4) by simp
  moreover have "list_all (\<lambda>sp. sp_start sp < sp_end sp) (map (span_at s) es)"
    using assms(1) by (auto simp: list_all_iff span_at_def)
  ultimately show ?thesis using chain_sorted map_place [OF r] by metis
qed

lemma edit_replaces_lemma:
  assumes "list_all (\<lambda>e. te_old e \<noteq> []) edits"
  shows "edit_script s edits = Inr out \<longleftrightarrow> replaces s edits out"
proof
  assume "edit_script s edits = Inr out"
  then obtain spans where spans: "edit_spans s 0 edits = Inr spans"
      and ok: "chain 0 (sort_key sp_start spans)" and out: "out = apply_spans s 0 (sort_key sp_start spans)"
    by (auto simp: edit_script_def and_then_Inr_iff Let_def check_chain)
  note r = edit_spans_Inr [OF assms spans]
  obtain es where es: "list_all2 (spans_edit s) es (sort_key sp_start spans)" "mset es = mset edits"
    using reorder_spans [OF r, of "sort_key sp_start spans"] by auto
  have "\<forall>e \<in> set edits. occurs_once s (te_old e)"
    using r by (auto simp: list_all2_conv_all_nth spans_edit_def in_set_conv_nth)
  then show "replaces s edits out"
    using weave_of_spans [OF es(1) ok] es(2) out by (auto simp: replaces_def)
next
  assume "replaces s edits out"
  then obtain es gaps where once: "\<forall>e \<in> set edits. occurs_once s (te_old e)"
      and es: "mset es = mset edits" and gaps: "length gaps = Suc (length es)"
      and s: "s = weave gaps (map te_old es)" and out: "out = weave gaps (map te_new es)"
    by (auto simp: replaces_def)
  obtain spans where spans: "edit_spans s 0 edits = Inr spans"
    using edit_spans_exist [OF assms once] by blast
  let ?sorted = "sort_key sp_start spans"
  obtain es' where es': "list_all2 (spans_edit s) es' ?sorted" "mset es' = mset edits"
    using reorder_spans [OF edit_spans_Inr [OF assms spans], of ?sorted] by auto
  have set_es: "set es = set edits" using es by (metis set_mset_mset)
  have strict: "sorted_wrt (<) (map (place s) es)"
    by (rule weave_places [OF _ _ gaps s]) (use assms once set_es in \<open>auto simp: list_all_iff\<close>)
  then have "inj_on (place s) (set es)" "sorted (map (place s) es)"
    using strict_sorted_iff distinct_map by blast+
  moreover have "sorted (map (place s) es')" by (simp add: map_place [OF es'(1)])
  ultimately have "es' = es"
    using sort_key_inj_key_eq [of es es' "place s"] sort_key_inj_key_eq [of es es "place s"] es es'(2) by simp
  then have "chain 0 ?sorted" "apply_spans s 0 ?sorted = out"
    using spans_of_weave [OF _ gaps, of s ?sorted 0] es'(1) s out by simp_all
  moreover from this have "check_overlap ?sorted = Inr ()" by (simp add: check_chain)
  ultimately show "edit_script s edits = Inr out"
    using spans by (simp add: edit_script_def Let_def)
qed

lemma sample_edits:
  "edit_script (js ''let a = 1; b'') [\<lparr> te_old = js ''b'', te_new = js ''c'' \<rparr>, \<lparr> te_old = js ''a = 1'', te_new = js ''a'' \<rparr>]
     = Inr (js ''let a; c'')"
  "edit_script (js ''aa'') [\<lparr> te_old = js ''a'', te_new = js ''c'' \<rparr>] = Inl (Old_text_repeated 0)"
  "edit_script (js ''abc'') [\<lparr> te_old = js ''bc'', te_new = [] \<rparr>, \<lparr> te_old = js ''ab'', te_new = [] \<rparr>]
     = Inl (Edits_overlap 1 0)"
  by code_simp+

text \<open>The script reads its edits from the arguments on its standard input.\<close>

definition text_edits :: "js_value \<Rightarrow> text_edit list" where
  "text_edits args = (case field args (js ''edits'') of
     JArr es \<Rightarrow> map (\<lambda>e. \<lparr>
       te_old = (case field e (js ''oldText'') of JStr t \<Rightarrow> t | _ \<Rightarrow> []),
       te_new = (case field e (js ''newText'') of JStr t \<Rightarrow> t | _ \<Rightarrow> []) \<rparr>) es
   | _ \<Rightarrow> [])"

definition edit_tool :: "jstring \<Rightarrow> js_value \<Rightarrow> script_fault + jstring" where
  "edit_tool s args = edit_script s (text_edits args)"

lemma validated_edits_nonempty:
  assumes "validate_tool_args is_re (js ''edit'') args = Inr out"
  shows "list_all (\<lambda>e. te_old e \<noteq> []) (text_edits (json_norm out))"
proof -
  obtain es p ed where ed: "edit_args 0 es = Inr ed" "out = JObj [(js ''path'', p), (js ''edits'', JArr ed)]"
    using assms by (cases "field args (js ''edits'')")
      (auto simp: validate_tool_args_def edit_tool_args_def and_then_Inr_iff split: if_splits)
  note ok = edit_args_Inr [OF ed(1)]
  have "field (json_norm out) (js ''edits'') = JArr ed"
    unfolding ed(2) by (rule field_norm) (use ok edit_args_again(2) [of ed] in simp_all)
  then show ?thesis using ok by (auto simp: text_edits_def list_all_iff)
qed

text \<open>
  C14. An edit succeeds exactly when every old text occurs once in the file and the file consists of the
  old texts, in some order, and the gaps between them; what is written back is then the new texts in the
  same gaps. The order in which the edits are listed does not matter.
\<close>

theorem edit_replaces:
  assumes "validate_tool_args is_re (js ''edit'') (json_norm args) = Inr out"
  shows "edit_tool s (json_norm out) = Inr t \<longleftrightarrow> replaces s (text_edits (json_norm out)) t"
  using edit_replaces_lemma [OF validated_edits_nonempty [OF assms]]
  by (simp add: edit_tool_def)

definition sample_edit_args :: js_value where
  "sample_edit_args = JObj [(js ''path'', JStr (js ''/f'')), (js ''edits'', JArr [
     JObj [(js ''oldText'', JStr (js ''b'')), (js ''newText'', JStr (js ''c''))],
     JObj [(js ''newText'', JStr (js ''a'')), (js ''oldText'', JStr (js ''a = 1''))]])]"

definition sample_edit_out :: js_value where
  "sample_edit_out = JObj [(js ''path'', JStr (js ''/f'')), (js ''edits'', JArr [
     JObj [(js ''oldText'', JStr (js ''b'')), (js ''newText'', JStr (js ''c''))],
     JObj [(js ''oldText'', JStr (js ''a = 1'')), (js ''newText'', JStr (js ''a''))]])]"

lemma edit_replaces_witness:
  "replaces (js ''let a = 1; b'') (text_edits (json_norm sample_edit_out)) (js ''let a; c'')"
proof -
  have "validate_tool_args (\<lambda>_. True) (js ''edit'') (json_norm sample_edit_args) = Inr sample_edit_out"
    by code_simp
  moreover have "edit_tool (js ''let a = 1; b'') (json_norm sample_edit_out) = Inr (js ''let a; c'')"
    by code_simp
  ultimately show ?thesis using edit_replaces by blast
qed

section \<open>The read script\<close>

fun read_loop :: "nat \<Rightarrow> jstring list \<Rightarrow> nat \<Rightarrow> jstring list \<Rightarrow> jstring list \<times> nat" where
  "read_loop limit out bytes [] = (out, bytes)"
| "read_loop limit out bytes (l # ls) =
     (if \<not> length out < limit then (out, bytes)
      else let b = utf8_length l + 1 in
        if bytes + b > READ_MAX_BYTES \<and> out \<noteq> [] then (out, bytes)
        else read_loop limit (out @ [l]) (bytes + b) ls)"

definition page_notice :: "nat \<Rightarrow> nat \<Rightarrow> nat \<Rightarrow> nat \<Rightarrow> jstring" where
  "page_notice start i n bytes =
     10 # 10 # js ''[Showing lines '' @ digits_of start @ js ''-'' @ digits_of i @ js '' of ''
     @ digits_of n @ (if READ_MAX_BYTES \<le> bytes then js '' (byte limit)'' else [])
     @ js ''. Use offset='' @ digits_of (i + 1) @ js '' to continue.]''"

text \<open>The lines of a page, the bytes they count for, and the printed text. Lines are numbered from 1.\<close>

definition read_page :: "jstring \<Rightarrow> nat \<Rightarrow> nat \<Rightarrow> jstring list \<times> nat" where
  "read_page s start limit = read_loop limit [] 0 (drop (start - 1) (split_on 10 s))"

definition read_script :: "jstring \<Rightarrow> nat \<Rightarrow> nat \<Rightarrow> script_fault + jstring" where
  "read_script s start limit =
     (let ls = split_on 10 s in
      if start > length ls \<and> length ls > 0 then Inl (Offset_beyond start (length ls))
      else let (out, bytes) = read_page s start limit; i = start - 1 + length out in
        Inr (join_on 10 out @ (if i < length ls then page_notice start i (length ls) bytes else [])))"

text \<open>\<open>a.offset || 1\<close> and \<open>a.limit || READ_DEFAULT_LINES\<close> of the validated arguments.\<close>

definition int_or :: "js_value \<Rightarrow> string \<Rightarrow> nat \<Rightarrow> nat" where
  "int_or args key d = (case field args (js key) of
     JNum (Fin q) \<Rightarrow> if q = 0 then d else nat \<lfloor>q\<rfloor> | _ \<Rightarrow> d)"

definition read_tool :: "jstring \<Rightarrow> js_value \<Rightarrow> script_fault + jstring" where
  "read_tool s args =
     read_script s (int_or args ''offset'' 1) (int_or args ''limit'' READ_DEFAULT_LINES)"

text \<open>
  A reader of the printed text: the offset it names at its end, the part before the notice, and the
  pages one gets by following the offsets until a page names none.
\<close>

definition next_offset :: "jstring \<Rightarrow> nat option" where
  "next_offset text =
     (let tail = js '' to continue.]''; ds = takeWhile is_digit (drop (length tail) (rev text)) in
      if take (length tail) (rev text) = rev tail \<and> ds \<noteq> [] then Some (digits_value (rev ds)) else None)"

definition page_body :: "jstring \<Rightarrow> jstring" where
  "page_body text =
     (if next_offset text = None then text else rev (drop 2 (dropWhile (\<lambda>c. c \<noteq> 10) (rev text))))"

fun follow_pages :: "nat \<Rightarrow> jstring \<Rightarrow> nat \<Rightarrow> nat \<Rightarrow> jstring list option" where
  "follow_pages 0 s limit start = None"
| "follow_pages (Suc fuel) s limit start =
     (case read_script s start limit of
        Inl e \<Rightarrow> None
      | Inr text \<Rightarrow>
          (case next_offset text of
             None \<Rightarrow> Some [text]
           | Some k \<Rightarrow> map_option ((#) text) (follow_pages fuel s limit k)))"

lemma read_loop_bytes:
  "read_loop limit out bytes ls = (out', bytes') \<Longrightarrow> bytes \<le> READ_MAX_BYTES \<or> length out = 1 \<Longrightarrow>
     bytes' \<le> READ_MAX_BYTES \<or> length out' = 1"
proof (induction limit out bytes ls rule: read_loop.induct)
  case (2 limit out bytes l ls)
  show ?case
  proof (cases "length out < limit \<and> \<not> (bytes + (utf8_length l + 1) > READ_MAX_BYTES \<and> out \<noteq> [])")
    case True
    then have "read_loop limit (out @ [l]) (bytes + (utf8_length l + 1)) ls = (out', bytes')"
      using "2.prems"(1) by (auto simp: Let_def split: if_splits)
    then show ?thesis using 2 True by fastforce
  next
    case False
    then show ?thesis using "2.prems" by (auto simp: Let_def split: if_splits)
  qed
qed simp

lemma read_loop_prefix:
  "\<exists>n bytes'. read_loop limit out bytes ls = (out @ take n ls, bytes') \<and> n \<le> length ls \<and>
     (length out \<le> limit \<longrightarrow> length out + n \<le> limit) \<and>
     (out = [] \<and> 0 < limit \<and> ls \<noteq> [] \<longrightarrow> 0 < n)"
proof (induction limit out bytes ls rule: read_loop.induct)
  case (2 limit out bytes l ls)
  show ?case
  proof (cases "length out < limit \<and> \<not> (bytes + (utf8_length l + 1) > READ_MAX_BYTES \<and> out \<noteq> [])")
    case True
    then obtain n b' where "read_loop limit (out @ [l]) (bytes + (utf8_length l + 1)) ls = ((out @ [l]) @ take n ls, b')"
        "n \<le> length ls" "length (out @ [l]) + n \<le> limit"
      using 2 by fastforce
    then show ?thesis using True by (intro exI [of _ "Suc n"] exI [of _ b']) (auto simp: Let_def)
  next
    case False
    then show ?thesis by (intro exI [of _ "0 :: nat"] exI [of _ bytes]) (auto simp: Let_def)
  qed
qed simp

lemma read_page_prefix:
  assumes "0 < limit" "1 \<le> start" "start \<le> length (split_on 10 s)"
  obtains n where "fst (read_page s start limit) = take n (drop (start - 1) (split_on 10 s))"
    "0 < n" "n \<le> limit" "start - 1 + n \<le> length (split_on 10 s)"
proof -
  have "drop (start - 1) (split_on 10 s) \<noteq> []" using assms by simp
  then show thesis
    using read_loop_prefix [of limit "[]" 0 "drop (start - 1) (split_on 10 s)"] assms that
    by (auto simp: read_page_def)
qed

lemma take_rev_append: "take (length t) (rev (u @ t)) = rev t" "drop (length t) (rev (u @ t)) = rev u"
  by simp_all

lemma take_rev_suffix: "take (length t) (rev u) = rev t \<Longrightarrow> suffix t u"
  unfolding suffix_def by (metis append_take_drop_id rev_append rev_rev_ident)

lemma takeWhile_rev: "list_all P ds \<Longrightarrow> takeWhile P (rev (u @ ds)) = rev ds @ takeWhile P (rev u)"
  by (induction ds rule: rev_induct) auto

lemma drop_last_line: "10 \<notin> set t \<Longrightarrow> rev (drop 2 (dropWhile (\<lambda>c. c \<noteq> 10) (rev (body @ 10 # 10 # t)))) = body"
  for t :: jstring
  by (induction t rule: rev_induct) auto

lemma next_offset_named:
  assumes "u \<noteq> [] \<Longrightarrow> \<not> is_digit (last u)"
  shows "next_offset (u @ digits_of k @ js '' to continue.]'') = Some k"
proof -
  have d: "list_all is_digit (digits_of k)" "digits_of k \<noteq> []" using digits_of_digits [of k] by simp_all
  have "takeWhile is_digit (rev u) = []" using assms by (cases u rule: rev_cases) auto
  then show ?thesis
    using take_rev_append [of "js '' to continue.]''" "u @ digits_of k"] takeWhile_rev [OF d(1), of u] d(2)
    by (simp add: next_offset_def Let_def)
qed

lemma next_offset_none: "\<not> suffix (js '' to continue.]'') page \<Longrightarrow> next_offset page = None"
  using take_rev_suffix [of "js '' to continue.]''" page] by (auto simp: next_offset_def Let_def)

lemma notice_read:
  shows "next_offset (body @ page_notice start i n bytes) = Some (i + 1)"
    and "page_body (body @ page_notice start i n bytes) = body"
proof -
  let ?m = "js ''[Showing lines '' @ digits_of start @ js ''-'' @ digits_of i @ js '' of ''
     @ digits_of n @ (if READ_MAX_BYTES \<le> bytes then js '' (byte limit)'' else []) @ js ''. Use offset=''"
  let ?t = "?m @ digits_of (i + 1) @ js '' to continue.]''"
  have split: "body @ page_notice start i n bytes = (body @ 10 # 10 # ?m) @ digits_of (i + 1) @ js '' to continue.]''"
    by (simp add: page_notice_def)
  have last: "last (body @ 10 # 10 # ?m) = 61" by (simp add: js_def)
  show off: "next_offset (body @ page_notice start i n bytes) = Some (i + 1)"
    unfolding split by (rule next_offset_named) (simp only: last, simp add: is_digit_def)
  have ten: "10 \<notin> set (digits_of k)" for k
    using digits_of_digits [of k] by (auto simp: list_all_iff is_digit_def)
  have "10 \<notin> set (js ''[Showing lines '')" "10 \<notin> set (js ''-'')" "10 \<notin> set (js '' of '')" "10 \<notin> set (js '' (byte limit)'')"
    "10 \<notin> set (js ''. Use offset='')" "10 \<notin> set (js '' to continue.]'')"
    by (simp_all add: js_def)
  then have "10 \<notin> set ?t" using ten by auto
  from drop_last_line [OF this] off show "page_body (body @ page_notice start i n bytes) = body"
    by (simp only: page_body_def page_notice_def option.distinct append_Cons append_assoc) simp
qed

lemma split_lines: "10 \<notin> set l \<Longrightarrow> split_on 10 l = [l]"
  by (induction l) auto

lemma split_on_snoc: "10 \<notin> set t \<Longrightarrow> split_on 10 (u @ t) = butlast (split_on 10 u) @ [last (split_on 10 u) @ t]"
proof (induction u)
  case (Cons x u)
  then show ?case using split_on_ne [of 10 u] by (cases "split_on 10 u"; cases "tl (split_on 10 u)") auto
qed (simp add: split_lines)

lemma line_clean: "l \<in> set (split_on c s) \<Longrightarrow> c \<notin> set l"
  by (induction c s arbitrary: l rule: split_on.induct) (auto split: if_splits list.splits)

lemma split_join: "ls \<noteq> [] \<Longrightarrow> (\<And>l. l \<in> set ls \<Longrightarrow> 10 \<notin> set l) \<Longrightarrow> split_on 10 (join_on 10 ls) = ls"
  by (induction "10 :: nat" ls rule: join_on.induct) (auto simp: split_on_append split_lines)

text \<open>What one call prints: some of the lines from \<open>start\<close> on, then the notice when some are left.\<close>

definition page_ok :: "nat \<Rightarrow> jstring \<Rightarrow> bool" where
  "page_ok limit body \<longleftrightarrow>
     (let ls = split_on 10 body in
      length ls \<le> limit \<and> (sum_list (map (\<lambda>l. utf8_length l + 1) ls) \<le> READ_MAX_BYTES \<or> length ls = 1))"

lemma read_loop_sum:
  "read_loop limit out bytes ls = (out', bytes') \<Longrightarrow> bytes = sum_list (map (\<lambda>l. utf8_length l + 1) out) \<Longrightarrow>
   bytes' = sum_list (map (\<lambda>l. utf8_length l + 1) out')"
  by (induction limit out bytes ls rule: read_loop.induct) (auto simp: Let_def split: if_splits)

lemma read_script_page:
  assumes "0 < limit" "1 \<le> start" "start \<le> length (split_on 10 s)"
    and no_mark: "\<And>l. l \<in> set (split_on 10 s) \<Longrightarrow> \<not> suffix (js '' to continue.]'') l"
  obtains n page where "read_script s start limit = Inr page" "0 < n" "start - 1 + n \<le> length (split_on 10 s)"
    "page_body page = join_on 10 (take n (drop (start - 1) (split_on 10 s)))" "page_ok limit (page_body page)"
    "next_offset page = (if start - 1 + n < length (split_on 10 s) then Some (start + n) else None)"
proof -
  let ?ls = "split_on 10 s"
  obtain n where n: "fst (read_page s start limit) = take n (drop (start - 1) ?ls)"
      "0 < n" "n \<le> limit" "start - 1 + n \<le> length ?ls"
    using read_page_prefix [OF assms(1-3)] by blast
  obtain out bytes where p: "read_page s start limit = (out, bytes)" by fastforce
  have out: "out = take n (drop (start - 1) ?ls)" "length out = n" using n p by simp_all
  have ne: "out \<noteq> []" using out n(2) by auto
  have sub: "set out \<subseteq> set ?ls" unfolding out(1) using set_take_subset set_drop_subset by fast
  then have sj: "split_on 10 (join_on 10 out) = out" using ne line_clean by (intro split_join) auto
  have bytes: "bytes \<le> READ_MAX_BYTES \<or> length out = 1" "bytes = sum_list (map (\<lambda>l. utf8_length l + 1) out)"
    using p read_loop_bytes [of limit "[]" 0] read_loop_sum [of limit "[]" 0] unfolding read_page_def by fastforce+
  have ok: "page_ok limit (join_on 10 out)" using sj bytes n(3) out(2) by (auto simp: page_ok_def Let_def)
  have run: "read_script s start limit = Inr (join_on 10 out @
      (if start - 1 + n < length ?ls then page_notice start (start - 1 + n) (length ?ls) bytes else []))"
    using assms(3) p out(2) by (simp add: read_script_def Let_def)
  show thesis
  proof (cases "start - 1 + n < length ?ls")
    case True
    then show thesis using that [OF run n(2,4)] notice_read [of "join_on 10 out"] ok out(1) assms(2) by simp
  next
    case False
    have "\<not> suffix (js '' to continue.]'') (join_on 10 out)"
    proof
      assume "suffix (js '' to continue.]'') (join_on 10 out)"
      then obtain u where u: "join_on 10 out = u @ js '' to continue.]''" by (auto simp: suffix_def)
      have "10 \<notin> set (js '' to continue.]'')" by (simp add: js_def)
      from split_on_snoc [OF this, of u] have "last out = last (split_on 10 u) @ js '' to continue.]''"
        using sj u by (metis last_snoc)
      then have "suffix (js '' to continue.]'') (last out)" by (simp add: suffix_def)
      moreover have "last out \<in> set out" using ne by simp
      ultimately show False using sub no_mark by blast
    qed
    then have none: "next_offset (join_on 10 out) = None" by (rule next_offset_none)
    then show thesis using that [OF run n(2,4)] False ok out(1) by (simp add: page_body_def)
  qed
qed

lemma follow_covers:
  assumes "0 < limit" "\<And>l. l \<in> set (split_on 10 s) \<Longrightarrow> \<not> suffix (js '' to continue.]'') l"
  shows "1 \<le> start \<Longrightarrow> start \<le> length (split_on 10 s) \<Longrightarrow> length (split_on 10 s) - (start - 1) \<le> fuel \<Longrightarrow>
    \<exists>texts. follow_pages fuel s limit start = Some texts \<and> texts \<noteq> [] \<and>
      join_on 10 (map page_body texts) = join_on 10 (drop (start - 1) (split_on 10 s)) \<and>
      (\<forall>t\<in>set texts. page_ok limit (page_body t))"
proof (induction fuel arbitrary: start)
  case (Suc fuel)
  let ?ls = "split_on 10 s"
  obtain n page where t: "read_script s start limit = Inr page" "0 < n" "start - 1 + n \<le> length ?ls"
      "page_body page = join_on 10 (take n (drop (start - 1) ?ls))" "page_ok limit (page_body page)"
      "next_offset page = (if start - 1 + n < length ?ls then Some (start + n) else None)"
    using read_script_page [OF assms(1) Suc.prems(1,2) assms(2)] by blast
  show ?case
  proof (cases "start - 1 + n < length ?ls")
    case True
    have nx: "1 \<le> start + n" "start + n \<le> length ?ls" "length ?ls - (start + n - 1) \<le> fuel"
      using Suc.prems t(2) True by linarith+
    obtain texts where f: "follow_pages fuel s limit (start + n) = Some texts" "texts \<noteq> []"
        "join_on 10 (map page_body texts) = join_on 10 (drop (start + n - 1) ?ls)" "\<forall>t\<in>set texts. page_ok limit (page_body t)"
      using Suc.IH [OF nx] by auto
    have d: "drop (start - 1) ?ls = take n (drop (start - 1) ?ls) @ drop (start + n - 1) ?ls"
      using Suc.prems(1) by (metis Nat.add_diff_assoc2 add.commute append_take_drop_id drop_drop)
    have ne: "take n (drop (start - 1) ?ls) \<noteq> []" "drop (start + n - 1) ?ls \<noteq> []" using True t(2) Suc.prems by auto
    have "join_on 10 (map page_body (page # texts)) = page_body page @ 10 # join_on 10 (map page_body texts)"
      using f(2) by (cases texts) simp_all
    then have "join_on 10 (map page_body (page # texts)) = join_on 10 (drop (start - 1) ?ls)"
      by (subst d) (simp only: join_on_append [OF ne] f(3) t(4))
    then show ?thesis using t(1,5,6) True f by auto
  next
    case False
    then have "take n (drop (start - 1) ?ls) = drop (start - 1) ?ls" using t(3) by simp
    then show ?thesis using t False by simp
  qed
qed simp

text \<open>
  C15. A reader that starts at the first line and asks again at the offset each answer names, until an
  answer names none, gets the file: there are at most as many answers as lines, none is an error, and
  the answers without their notices, joined by newlines, are the text of the file. Each shows at most
  the limit of lines, and more than one only within the byte limit. The file must not itself hold a
  line that ends like a notice, which nobody could tell from one.
\<close>

theorem reading_covers_file:
  assumes "0 < limit" and "\<And>l. l \<in> set (split_on 10 s) \<Longrightarrow> \<not> suffix (js '' to continue.]'') l"
  shows "\<exists>texts. follow_pages (length (split_on 10 s)) s limit 1 = Some texts \<and> join_on 10 (map page_body texts) = s \<and>
    (\<forall>t\<in>set texts. length (split_on 10 (page_body t)) \<le> limit \<and>
       (sum_list (map (\<lambda>l. utf8_length l + 1) (split_on 10 (page_body t))) \<le> READ_MAX_BYTES \<or>
        length (split_on 10 (page_body t)) = 1))"
proof -
  have "1 \<le> length (split_on 10 s)" using split_on_ne [of 10 s] by (cases "split_on 10 s") auto
  then show ?thesis using follow_covers [OF assms, where start = 1 and fuel = "length (split_on 10 s)"] by (auto simp: page_ok_def Let_def)
qed

lemma reading_covers_file_witness:
  "\<exists>texts. follow_pages 3 [97, 10, 98, 99, 10] 2 1 = Some texts \<and> join_on 10 (map page_body texts) = [97, 10, 98, 99, 10]"
proof -
  let ?s = "[97, 10, 98, 99, 10]"
  have ls: "split_on 10 ?s = [[97], [98, 99], []]" by simp
  have m: "\<not> suffix (js '' to continue.]'') l" if "l \<in> set (split_on 10 ?s)" for l
    using that unfolding ls by (auto simp: js_def dest: suffix_length_le)
  have len: "length (split_on 10 ?s) = 3" unfolding ls by simp
  show ?thesis using reading_covers_file [of 2 ?s] m unfolding len by (meson zero_less_numeral)
qed

text \<open>
  The notice marks a page as cut at the byte limit by the bytes it holds, but a page is cut before the
  line that would exceed them: two lines of 30000 bytes come in two pages and the first is not marked.
\<close>

lemma utf8_bytes_of_ascii: "c < 128 \<Longrightarrow> utf8_length (replicate n c) = n"
proof (induction n)
  case (Suc n)
  then show ?case by (cases n) (auto simp: is_high_def)
qed simp

lemma split_on_replicate: "c \<noteq> d \<Longrightarrow> split_on d (replicate n c) = [replicate n c]"
  by (induction n) auto

lemma byte_limit_not_marked:
  "read_script (replicate 30000 97 @ 10 # replicate 30000 97) 1 2000 =
     Inr (replicate 30000 97 @ 10 # 10 # js ''[Showing lines 1-1 of 2. Use offset=2 to continue.]'')"
proof -
  define a where "a = replicate 30000 (97 :: nat)"
  have a: "utf8_length a = 30000" "split_on 10 a = [a]"
    unfolding a_def by (simp_all add: utf8_bytes_of_ascii split_on_replicate del: replicate.simps)
  have d: "digits_of (Suc 0) = [49]" "digits_of (Suc (Suc 0)) = [50]" by (simp_all add: digits_of.simps)
  have l: "split_on 10 (a @ 10 # a) = [a, a]" by (simp add: split_on_append a)
  then have "read_page (a @ 10 # a) 1 2000 = ([a], 30001)"
    by (simp add: read_page_def a READ_MAX_BYTES_def Let_def)
  with l have "read_script (a @ 10 # a) 1 2000 =
      Inr (a @ 10 # 10 # js ''[Showing lines 1-1 of 2. Use offset=2 to continue.]'')"
    by (simp add: read_script_def page_notice_def READ_MAX_BYTES_def Let_def d js_def)
  then show ?thesis by (simp only: a_def)
qed

end
