(* ===== verification/Display.thy ===== *)
theory Display
  imports Prelude
begin

text \<open>
  \<open>ponygirls-subagents/src/display.ts\<close>: \<open>sanitizeDisplay\<close>, which strips terminal sequences from
  the text of children before it is shown, with its three regular expressions written out as
  scanners, and the outcome classes. The styling functions wrap text and are not modelled.
\<close>

section \<open>Terminal sequences\<close>

text \<open>
  What is left after an OSC sequence whose introducer was read: the run of characters that are
  not BEL is taken as far as it goes; BEL ends the sequence, else the last \<open>ESC \\<close> in the run.
\<close>

fun after_last_st :: "jstring \<Rightarrow> jstring option" where
  "after_last_st [] = None"
| "after_last_st (c # cs) =
     (case after_last_st cs of
        Some r \<Rightarrow> Some r
      | None \<Rightarrow> if c = 27 \<and> starts_with cs [92] then Some (tl cs) else None)"

definition osc_rest :: "jstring \<Rightarrow> jstring option" where
  "osc_rest s = (if 7 \<in> set s then Some (tl (dropWhile (\<lambda>c. c \<noteq> 7) s)) else after_last_st s)"

definition csi_param :: "nat \<Rightarrow> bool" where
  "csi_param c \<longleftrightarrow> 48 \<le> c \<and> c \<le> 57 \<or> c = 59 \<or> c = 63"

definition csi_final :: "nat \<Rightarrow> bool" where
  "csi_final c \<longleftrightarrow> 65 \<le> c \<and> c \<le> 90 \<or> 97 \<le> c \<and> c \<le> 122"

definition csi_rest :: "jstring \<Rightarrow> jstring option" where
  "csi_rest s = (case dropWhile csi_param s of [] \<Rightarrow> None | c # r \<Rightarrow> if csi_final c then Some r else None)"

text \<open>\<open>replace(/ESC intro .../g, "")\<close>: at each position the sequence is dropped or the character kept.\<close>

lemma after_last_st_shorter: "after_last_st s = Some r \<Longrightarrow> length r < length s"
  by (induction s) (auto split: option.splits if_splits)

lemma osc_rest_shorter: "osc_rest s = Some r \<Longrightarrow> length r \<le> length s"
  using length_dropWhile_le [of "\<lambda>c. c \<noteq> 7" s]
  by (auto simp: osc_rest_def dest: after_last_st_shorter split: if_splits)

lemma csi_rest_shorter: "csi_rest s = Some r \<Longrightarrow> length r \<le> length s"
  using length_dropWhile_le [of csi_param s] by (auto simp: csi_rest_def split: list.splits if_splits)

function strip_osc :: "jstring \<Rightarrow> jstring" where
  "strip_osc [] = []"
| "strip_osc (c # cs) =
     (case (if c = 27 \<and> starts_with cs [93] then osc_rest (tl cs) else None) of
        Some r \<Rightarrow> strip_osc r
      | None \<Rightarrow> c # strip_osc cs)"
  by pat_completeness auto

termination
  by (relation "measure length")
     (auto simp: less_Suc_eq_le split: if_splits dest!: osc_rest_shorter intro: order_trans [OF _ diff_le_self])

function strip_csi :: "jstring \<Rightarrow> jstring" where
  "strip_csi [] = []"
| "strip_csi (c # cs) =
     (case (if c = 27 \<and> starts_with cs [91] then csi_rest (tl cs) else None) of
        Some r \<Rightarrow> strip_csi r
      | None \<Rightarrow> c # strip_csi cs)"
  by pat_completeness auto

termination
  by (relation "measure length")
     (auto simp: less_Suc_eq_le split: if_splits dest!: csi_rest_shorter intro: order_trans [OF _ diff_le_self])

definition stripped_control :: "nat \<Rightarrow> bool" where
  "stripped_control c \<longleftrightarrow> c \<le> 8 \<or> c = 11 \<or> c = 12 \<or> 14 \<le> c \<and> c \<le> 31 \<or> c = 127"

definition strip_terminal :: "jstring \<Rightarrow> jstring" where
  "strip_terminal s = filter (\<lambda>c. \<not> stripped_control c) (strip_csi (strip_osc s))"

definition cut_mark :: jstring where
  "cut_mark = 8230 # js ''[truncated]''"

definition sanitize_display :: "jstring \<Rightarrow> nat \<Rightarrow> jstring" where
  "sanitize_display s max_length =
     (let out = strip_terminal s in if length out > max_length then take max_length out @ cut_mark else out)"

section \<open>Outcome classes\<close>

datatype outcome_tone = Tone_success | Tone_warning | Tone_error

definition outcome_tone_of :: "jstring \<Rightarrow> outcome_tone" where
  "outcome_tone_of outcome =
     (if outcome \<in> set [js ''succeeded'', js ''passed''] then Tone_success
      else if outcome \<in> set [js ''interrupted'', js ''uncertain'', js ''candidate_superseded'', js ''gate_bypassed'',
                             js ''review_limit_reached''] then Tone_warning
      else Tone_error)"

section \<open>Lemmas\<close>

lemma strip_osc_plain: "27 \<notin> set s \<Longrightarrow> strip_osc s = s"
  by (induction s) auto

lemma strip_csi_plain: "27 \<notin> set s \<Longrightarrow> strip_csi s = s"
  by (induction s) auto

definition plain_text :: "jstring \<Rightarrow> bool" where
  "plain_text s \<longleftrightarrow> (\<forall>c\<in>set s. \<not> stripped_control c)"

lemma strip_terminal_id: "plain_text s \<Longrightarrow> strip_terminal s = s"
proof -
  assume p: "plain_text s"
  then have "27 \<notin> set s" by (auto simp: plain_text_def stripped_control_def)
  with p show ?thesis
    by (simp add: strip_terminal_def strip_osc_plain strip_csi_plain plain_text_def)
qed

lemma strip_terminal_plain: "plain_text (strip_terminal s)"
  by (simp add: strip_terminal_def plain_text_def)

lemma cut_mark_plain: "plain_text cut_mark"
  by (simp add: cut_mark_def plain_text_def js_def stripped_control_def)

lemma plain_text_append [simp]: "plain_text (a @ b) \<longleftrightarrow> plain_text a \<and> plain_text b"
  by (auto simp: plain_text_def)

lemma plain_text_take: "plain_text s \<Longrightarrow> plain_text (take n s)"
  by (auto simp: plain_text_def dest: in_set_takeD)

lemma sanitize_plain_text: "plain_text (sanitize_display s n)"
  using strip_terminal_plain [of s] cut_mark_plain by (simp add: sanitize_display_def Let_def plain_text_take)

lemma sanitize_length: "length (sanitize_display s n) \<le> n + 12"
  by (simp add: sanitize_display_def Let_def cut_mark_def)

lemma sanitize_fixed: "plain_text s \<Longrightarrow> length s \<le> n \<Longrightarrow> sanitize_display s n = s"
  by (simp add: sanitize_display_def strip_terminal_id)

text \<open>
  What is shown holds no escape character and no other control character below space than tab,
  newline and carriage return, is at most twelve characters longer than asked for, and is left
  alone by a second pass when it was not cut.
\<close>

theorem sanitize_display_safe:
  "27 \<notin> set (sanitize_display s n)"
  "\<forall>c\<in>set (sanitize_display s n). c < 32 \<longrightarrow> c \<in> {9, 10, 13}"
  "length (sanitize_display s n) \<le> n + 12"
  "length (sanitize_display s n) \<le> m \<Longrightarrow> sanitize_display (sanitize_display s n) m = sanitize_display s n"
  using sanitize_plain_text [of s n] sanitize_length [of s n] sanitize_fixed [OF sanitize_plain_text]
  by (auto simp: plain_text_def stripped_control_def)

text \<open>
  The one-character introducer U+009B of a control sequence, and with it every control character
  from U+0080 to U+009F, is not stripped.
\<close>

lemma c1_controls_kept: "c1 \<in> {128..159} \<Longrightarrow> sanitize_display (c1 # js ''31mred'') 4000 = c1 # js ''31mred''"
  by (rule sanitize_fixed) (auto simp: plain_text_def stripped_control_def js_def)

end
