(* ===== verification/Notices.thy ===== *)
theory Notices
  imports RunMemory Display
begin

text \<open>
  Notices to the governing session: \<open>noticesSince\<close> of \<open>ponygirls-subagents/src/supervisor.ts\<close>,
  \<open>NoticeDelivery\<close> of \<open>notice-delivery.ts\<close>, and the wiring of both in \<open>index.ts\<close>
  (\<open>onSupervisorChange\<close>, attaching, detaching, disposing). The session of the host program is
  an oracle: each submission is taken or throws, and may detach or dispose the pump while it
  runs. \<open>nt\<close> is \<open>Number.prototype.toString\<close> and \<open>pth\<close> the path of a known agent, which never
  changes. The microtask and the retry timer are flags whose firing is an event of its own.
\<close>

section \<open>The notice lines of the journal\<close>

text \<open>\<open>String(v)\<close>.\<close>

fun js_to_string :: "(js_num \<Rightarrow> jstring) \<Rightarrow> js_value \<Rightarrow> jstring" where
  "js_to_string nt JUndef = js ''undefined''"
| "js_to_string nt JNull = js ''null''"
| "js_to_string nt (JBool b) = (if b then js ''true'' else js ''false'')"
| "js_to_string nt (JNum x) = nt x"
| "js_to_string nt (JStr s) = s"
| "js_to_string nt (JArr vs) = join_on 44 (map (\<lambda>v. if v = JUndef \<or> v = JNull then [] else js_to_string nt v) vs)"
| "js_to_string nt (JObj _) = js ''[object Object]''"

definition path_or_name :: "(js_num \<Rightarrow> jstring) \<Rightarrow> (jstring \<Rightarrow> jstring option) \<Rightarrow> js_value \<Rightarrow> jstring" where
  "path_or_name nt pth v =
     (case v of
        JStr i \<Rightarrow> (case pth i of Some p \<Rightarrow> p | None \<Rightarrow> i)
      | _ \<Rightarrow> js_to_string nt v)"

definition terminal_line :: "(js_num \<Rightarrow> jstring) \<Rightarrow> (jstring \<Rightarrow> jstring option) \<Rightarrow> js_value \<Rightarrow> jstring" where
  "terminal_line nt pth b =
     (let detail = (case field b (js ''detail'') of JStr d \<Rightarrow> trim d | _ \<Rightarrow> [])
      in path_or_name nt pth (field b (js ''agentId'')) @ js '' task '' @ js_to_string nt (field b (js ''taskRunId'')) @
         js '' ended '' @ js_to_string nt (field b (js ''outcome'')) @ (if detail = [] then [] else js '': '' @ detail))"

definition message_line :: "(js_num \<Rightarrow> jstring) \<Rightarrow> (jstring \<Rightarrow> jstring option) \<Rightarrow> js_value \<Rightarrow> jstring \<Rightarrow> jstring" where
  "message_line nt pth b text =
     (if field b (js ''requestReply'') = JBool True then js ''question '' @ js_to_string nt (field b (js ''messageId''))
      else js ''message'') @
     js '' from '' @ path_or_name nt pth (field b (js ''from'')) @ js '' ('' @ js_to_string nt (field b (js ''from'')) @
     js ''): '' @ take 2000 text"

definition text_of :: "js_value \<Rightarrow> jstring option" where
  "text_of v = (case v of JStr s \<Rightarrow> Some s | _ \<Rightarrow> None)"

definition notice_line :: "(js_num \<Rightarrow> jstring) \<Rightarrow> (jstring \<Rightarrow> jstring option) \<Rightarrow> journal_record \<Rightarrow> jstring option" where
  "notice_line nt pth r =
     (let b = j_body r; kind = j_kind r in
      if kind = js ''task.terminal'' then Some (terminal_line nt pth b)
      else if kind = js ''agent.quarantined'' \<and> text_of (field b (js ''reason'')) \<noteq> None then
        Some (path_or_name nt pth (field b (js ''agentId'')) @ js '' quarantined: '' @ the (text_of (field b (js ''reason''))))
      else if kind = js ''recovery.event'' \<and> field b (js ''phase'') = JStr (js ''controller_error'') \<and>
              text_of (field b (js ''error'')) \<noteq> None then
        Some (js ''controller failure: '' @ the (text_of (field b (js ''error''))))
      else if kind = js ''mailbox.accepted'' \<and> field b (js ''to'') = JStr (js ''governor'') \<and>
              text_of (field b (js ''text'')) \<noteq> None then
        Some (message_line nt pth b (the (text_of (field b (js ''text'')))))
      else None)"

text \<open>The loop of \<open>noticesSince\<close>; \<open>read\<close> is the store's \<open>readSince\<close>.\<close>

fun notices_loop ::
  "(journal_record \<Rightarrow> jstring option) \<Rightarrow> nat \<Rightarrow> journal_record list \<Rightarrow> jstring list \<Rightarrow> int \<Rightarrow> jstring list \<times> int" where
  "notices_loop f limit [] lines reached = (lines, reached)"
| "notices_loop f limit (r # rs) lines reached =
     (case f r of
        None \<Rightarrow> notices_loop f limit rs lines (j_seq r)
      | Some line \<Rightarrow>
          if limit \<le> length lines then (lines, reached)
          else notices_loop f limit rs (lines @ [line]) (j_seq r))"

definition notices_since ::
  "(journal_record \<Rightarrow> jstring option) \<Rightarrow> (int \<Rightarrow> int \<Rightarrow> journal_record list \<times> int) \<Rightarrow> int \<Rightarrow> nat \<Rightarrow> jstring list \<times> int" where
  "notices_since f read cursor limit = notices_loop f limit (fst (read cursor max_safe)) [] cursor"

section \<open>The pump\<close>

definition NOTICE_BATCH :: nat where
  "NOTICE_BATCH = 20"

definition NOTICE_TEXT_MAX :: nat where
  "NOTICE_TEXT_MAX = 48000"

definition NOTICE_MAX_ATTEMPTS :: nat where
  "NOTICE_MAX_ATTEMPTS = 3"

text \<open>What is handed to the session: a volatile alert, or a page of lines with the cursor behind it.\<close>

datatype submission = Alert jstring int | Page "jstring list" int

record notice_message =
  nm_text :: jstring
  nm_cursor :: int
  nm_volatile :: bool

definition notice_message_of :: "submission \<Rightarrow> notice_message" where
  "notice_message_of sub =
     (case sub of
        Alert failure c \<Rightarrow>
          \<lparr>nm_text = sanitize_display (js ''[subagents: volatile storage failure]'' @ [10] @ js ''STORE_FAILED: '' @ failure) NOTICE_TEXT_MAX,
           nm_cursor = c, nm_volatile = True\<rparr>
      | Page lines c \<Rightarrow>
          \<lparr>nm_text = sanitize_display (js ''[subagents]'' @ [10] @ join_on 10 lines) NOTICE_TEXT_MAX,
           nm_cursor = c, nm_volatile = False\<rparr>)"

text \<open>What \<open>sink.submit\<close> does: it takes the message (and may detach or dispose the pump) or throws.\<close>

datatype submit_outcome = Taken | Taken_detached | Taken_disposed | Refused_submit

record notice_pump =
  np_cursor :: int
  np_scheduled :: bool
  np_disposed :: bool
  np_failures :: nat
  np_timer :: bool
  np_attached :: bool
  np_pending_failure :: "jstring option"
  np_delivered_failure :: "jstring option"

definition new_pump :: "int \<Rightarrow> notice_pump" where
  "new_pump c = \<lparr>np_cursor = c, np_scheduled = False, np_disposed = False, np_failures = 0, np_timer = False,
     np_attached = True, np_pending_failure = None, np_delivered_failure = None\<rparr>"

definition pump_changed :: "notice_pump \<Rightarrow> notice_pump" where
  "pump_changed p =
     (if np_scheduled p \<or> np_disposed p \<or> \<not> np_attached p then p
      else p\<lparr>np_timer := False, np_scheduled := True\<rparr>)"

definition storage_failed :: "jstring \<Rightarrow> notice_pump \<Rightarrow> notice_pump" where
  "storage_failed message p =
     (if np_disposed p \<or> Some message = np_delivered_failure p \<or> Some message = np_pending_failure p then p
      else pump_changed (p\<lparr>np_pending_failure := Some message\<rparr>))"

definition pump_detach :: "notice_pump \<Rightarrow> notice_pump" where
  "pump_detach p = p\<lparr>np_attached := False, np_timer := False\<rparr>"

definition pump_attach :: "notice_pump \<Rightarrow> notice_pump" where
  "pump_attach p = (if np_disposed p then p else pump_changed (p\<lparr>np_attached := True, np_failures := 0\<rparr>))"

definition pump_dispose :: "notice_pump \<Rightarrow> notice_pump" where
  "pump_dispose p = pump_detach (p\<lparr>np_disposed := True\<rparr>)"

definition after_submit :: "submit_outcome \<Rightarrow> notice_pump \<Rightarrow> notice_pump" where
  "after_submit out p = (case out of Taken_detached \<Rightarrow> pump_detach p | Taken_disposed \<Rightarrow> pump_dispose p | _ \<Rightarrow> p)"

text \<open>\<open>sink.submit\<close> with the next outcome of the oracle (past its end every submission is taken).\<close>

definition submit_next :: "submit_outcome list \<Rightarrow> notice_pump \<Rightarrow> (submit_outcome list \<times> notice_pump) option" where
  "submit_next outs p =
     (case outs of
        [] \<Rightarrow> Some ([], p)
      | Refused_submit # _ \<Rightarrow> None
      | out # outs \<Rightarrow> Some (outs, after_submit out p))"

definition submit_alert ::
  "submit_outcome list \<Rightarrow> notice_pump \<Rightarrow> submission list \<Rightarrow> (submit_outcome list \<times> notice_pump \<times> submission list) option" where
  "submit_alert outs p sent =
     (case np_pending_failure p of
        None \<Rightarrow> Some (outs, p, sent)
      | Some failure \<Rightarrow>
          (case submit_next outs p of
             None \<Rightarrow> None
           | Some (outs, p') \<Rightarrow>
               Some (outs, p'\<lparr>np_delivered_failure := Some failure, np_pending_failure := None\<rparr>,
                 sent @ [Alert failure (np_cursor p)])))"

text \<open>
  The body of the microtask. \<open>since\<close> is the source, \<open>outs\<close> what each submission will do and
  \<open>sent\<close> the submissions the session took; the flag tells whether the loop was left by a throw.
  Each round passes at least one line or ends, so the fuel given below suffices.
\<close>

fun pump_loop ::
  "nat \<Rightarrow> (int \<Rightarrow> nat \<Rightarrow> jstring list \<times> int) \<Rightarrow> submit_outcome list \<Rightarrow> notice_pump \<Rightarrow> submission list \<Rightarrow>
   bool \<times> notice_pump \<times> submission list" where
  "pump_loop 0 since outs p sent = (False, p, sent)"
| "pump_loop (Suc n) since outs p sent =
     (if np_disposed p \<or> \<not> np_attached p then (False, p, sent)
      else case submit_alert outs p sent of
        None \<Rightarrow> (True, p, sent)
      | Some (outs, p, sent) \<Rightarrow>
          (case since (np_cursor p) NOTICE_BATCH of (lines, cursor) \<Rightarrow>
             if lines = [] then (False, p\<lparr>np_cursor := cursor, np_failures := 0\<rparr>, sent)
             else (case submit_next outs p of
                 None \<Rightarrow> (True, p, sent)
               | Some (outs, p) \<Rightarrow>
                   pump_loop n since outs (p\<lparr>np_cursor := cursor, np_failures := 0\<rparr>) (sent @ [Page lines cursor]))))"

text \<open>The microtask with its \<open>catch\<close> and \<open>finally\<close>.\<close>

definition run_pump ::
  "nat \<Rightarrow> (int \<Rightarrow> nat \<Rightarrow> jstring list \<times> int) \<Rightarrow> submit_outcome list \<Rightarrow> notice_pump \<Rightarrow> notice_pump \<times> submission list" where
  "run_pump fuel since outs p =
     (case pump_loop fuel since outs p [] of (thrown, p, sent) \<Rightarrow>
        (let p = (if thrown then p\<lparr>np_failures := Suc (np_failures p)\<rparr> else p);
             p = (if thrown \<and> np_failures p < NOTICE_MAX_ATTEMPTS \<and> \<not> np_disposed p \<and> np_attached p
                  then p\<lparr>np_timer := True\<rparr> else p)
         in (p\<lparr>np_scheduled := False\<rparr>, sent)))"

definition retry_fires :: "notice_pump \<Rightarrow> notice_pump" where
  "retry_fires p = pump_changed (p\<lparr>np_timer := False\<rparr>)"

section \<open>The interface of the source\<close>

definition page_lines :: "submission list \<Rightarrow> jstring list" where
  "page_lines subs = concat (map (\<lambda>sub. case sub of Page lines _ \<Rightarrow> lines | Alert _ _ \<Rightarrow> []) subs)"

lemma page_lines_simps [simp]:
  "page_lines [] = []" "page_lines (a @ b) = page_lines a @ page_lines b"
  "page_lines (Page ls c # subs) = ls @ page_lines subs" "page_lines (Alert m c # subs) = page_lines subs"
  by (simp_all add: page_lines_def)

text \<open>
  A page taken after a cursor is the next lines, at most \<open>limit\<close> of them, and its cursor is
  behind them; an empty page means that nothing is left.
\<close>

locale notice_source =
  fixes since :: "'j \<Rightarrow> int \<Rightarrow> nat \<Rightarrow> jstring list \<times> int"
    and lines_after :: "'j \<Rightarrow> int \<Rightarrow> jstring list"
    and end_of :: "'j \<Rightarrow> int"
    and inv :: "'j \<Rightarrow> bool"
    and drained :: "'j \<Rightarrow> bool"
  assumes since_page: "inv j \<Longrightarrow> 0 \<le> c \<Longrightarrow> c \<le> end_of j \<Longrightarrow> since j c limit = (ls, c') \<Longrightarrow>
      c \<le> c' \<and> c' \<le> end_of j \<and> lines_after j c = ls @ lines_after j c' \<and> length ls \<le> limit \<and> (ls \<noteq> [] \<longrightarrow> c < c')"
    and since_end: "inv j \<Longrightarrow> drained j \<Longrightarrow> 0 \<le> c \<Longrightarrow> c \<le> end_of j \<Longrightarrow> 0 < limit \<Longrightarrow> since j c limit = ([], c') \<Longrightarrow> c' = end_of j"
    and none_left: "inv j \<Longrightarrow> lines_after j (end_of j) = []"
begin

lemma submit_alert_keeps:
  "submit_alert outs p sent = Some (outs', p', sent') \<Longrightarrow>
   np_cursor p' = np_cursor p \<and> np_pending_failure p' = None \<and>
   (\<exists>new. sent' = sent @ new \<and> page_lines new = [] \<and> (\<forall>sub\<in>set new. \<exists>m c. sub = Alert m c))"
  by (auto simp: submit_alert_def submit_next_def after_submit_def pump_detach_def pump_dispose_def
      split: option.splits list.splits submit_outcome.splits)

lemma submit_next_keeps:
  "submit_next outs p = Some (outs', p') \<Longrightarrow> np_cursor p' = np_cursor p \<and> np_pending_failure p' = np_pending_failure p"
  by (auto simp: submit_next_def after_submit_def pump_detach_def pump_dispose_def
      split: list.splits submit_outcome.splits)

lemma pump_loop_pages:
  assumes "inv j"
  shows "0 \<le> np_cursor p \<Longrightarrow> np_cursor p \<le> end_of j \<Longrightarrow> pump_loop n (since j) outs p sent = (thrown, p', sent') \<Longrightarrow>
    np_cursor p \<le> np_cursor p' \<and> np_cursor p' \<le> end_of j \<and>
    (\<exists>new. sent' = sent @ new \<and> lines_after j (np_cursor p) = page_lines new @ lines_after j (np_cursor p') \<and>
       (\<forall>ls c. Page ls c \<in> set new \<longrightarrow> ls \<noteq> [] \<and> length ls \<le> NOTICE_BATCH))"
proof (induction n arbitrary: outs p sent)
  case (Suc n)
  show ?case
  proof (cases "np_disposed p \<or> \<not> np_attached p \<or> submit_alert outs p sent = None")
    case True
    then have "p' = p \<and> sent' = sent"
      using Suc.prems(3) by (cases "np_disposed p \<or> \<not> np_attached p") auto
    then show ?thesis using Suc.prems by auto
  next
    case False
    then obtain outs1 p1 sent1 where a: "submit_alert outs p sent = Some (outs1, p1, sent1)" by (auto)
    note ak = submit_alert_keeps [OF a]
    then obtain new1 where n1: "sent1 = sent @ new1" "page_lines new1 = []" "\<forall>sub\<in>set new1. \<exists>m c. sub = Alert m c" by blast
    obtain ls c where s: "since j (np_cursor p1) NOTICE_BATCH = (ls, c)" by fastforce
    have s': "since j (np_cursor p) NOTICE_BATCH = (ls, c)" using s ak by simp
    note pg = since_page [OF assms Suc.prems(1,2) s']
    show ?thesis
    proof (cases "ls = [] \<or> submit_next outs1 p1 = None")
      case True
      then show ?thesis using Suc.prems a s False pg n1 ak by (auto split: if_splits)
    next
      case more: False
      then obtain outs2 p2 where b: "submit_next outs1 p1 = Some (outs2, p2)" by auto
      let ?p = "p2\<lparr>np_cursor := c, np_failures := 0\<rparr>"
      have l: "pump_loop n (since j) outs2 ?p (sent1 @ [Page ls c]) = (thrown, p', sent')"
        using Suc.prems(3) a s b False more by simp
      have "np_cursor ?p \<le> np_cursor p' \<and> np_cursor p' \<le> end_of j \<and>
        (\<exists>new. sent' = (sent1 @ [Page ls c]) @ new \<and> lines_after j (np_cursor ?p) = page_lines new @ lines_after j (np_cursor p') \<and>
          (\<forall>ls c. Page ls c \<in> set new \<longrightarrow> ls \<noteq> [] \<and> length ls \<le> NOTICE_BATCH))"
        using pg Suc.prems(1) by (intro Suc.IH [OF _ _ l]) auto
      then obtain new where r: "c \<le> np_cursor p'" "np_cursor p' \<le> end_of j" "sent' = (sent1 @ [Page ls c]) @ new"
        "lines_after j c = page_lines new @ lines_after j (np_cursor p')"
        "\<forall>ls c. Page ls c \<in> set new \<longrightarrow> ls \<noteq> [] \<and> length ls \<le> NOTICE_BATCH" by auto
      have "sent' = sent @ (new1 @ [Page ls c] @ new)" using r n1 by simp
      moreover have "lines_after j (np_cursor p) = page_lines (new1 @ [Page ls c] @ new) @ lines_after j (np_cursor p')"
        using pg r n1 by simp
      moreover have "\<forall>ls' c'. Page ls' c' \<in> set (new1 @ [Page ls c] @ new) \<longrightarrow> ls' \<noteq> [] \<and> length ls' \<le> NOTICE_BATCH"
        using r(5) n1(3) pg more by fastforce
      ultimately show ?thesis using r pg by auto
    qed
  qed
qed auto

lemma pump_loop_drains:
  assumes "inv j" and "drained j"
  shows "0 \<le> np_cursor p \<Longrightarrow> np_cursor p \<le> end_of j \<Longrightarrow> nat (end_of j - np_cursor p) < n \<Longrightarrow>
    pump_loop n (since j) outs p sent = (False, p', sent') \<Longrightarrow>
    np_disposed p' \<or> \<not> np_attached p' \<or> np_cursor p' = end_of j \<and> np_pending_failure p' = None"
proof (induction n arbitrary: outs p sent)
  case (Suc n)
  show ?case
  proof (cases "np_disposed p \<or> \<not> np_attached p")
    case True
    then show ?thesis using Suc.prems by auto
  next
    case False
    with Suc.prems(4) obtain outs1 p1 sent1 where a: "submit_alert outs p sent = Some (outs1, p1, sent1)"
      by (auto split: option.splits)
    note ak = submit_alert_keeps [OF a]
    obtain ls c where s: "since j (np_cursor p1) NOTICE_BATCH = (ls, c)" by fastforce
    then have s': "since j (np_cursor p) NOTICE_BATCH = (ls, c)" using ak by simp
    note pg = since_page [OF assms(1) Suc.prems(1,2) s']
    show ?thesis
    proof (cases "ls = []")
      case True
      then have "c = end_of j" using since_end [OF assms Suc.prems(1,2) _ s' [simplified True]]
        by (simp add: NOTICE_BATCH_def)
      then show ?thesis using Suc.prems(4) a s True False ak by auto
    next
      case more: False
      with Suc.prems(4) a s False obtain outs2 p2 where b: "submit_next outs1 p1 = Some (outs2, p2)"
        by (auto split: option.splits)
      let ?p = "p2\<lparr>np_cursor := c, np_failures := 0\<rparr>"
      have l: "pump_loop n (since j) outs2 ?p (sent1 @ [Page ls c]) = (False, p', sent')"
        using Suc.prems(4) a s b False more by simp
      show ?thesis
        using pg more Suc.prems(1-3) by (intro Suc.IH [OF _ _ _ l]) auto
    qed
  qed
qed simp

end

section \<open>The supervisor is such a source\<close>

definition notice_lines :: "(journal_record \<Rightarrow> jstring option) \<Rightarrow> journal_record list \<Rightarrow> jstring list" where
  "notice_lines f rs = List.map_filter f rs"

lemma notice_lines_simps [simp]:
  "notice_lines f [] = []"
  "notice_lines f (r # rs) = (case f r of None \<Rightarrow> notice_lines f rs | Some l \<Rightarrow> l # notice_lines f rs)"
  "notice_lines f (a @ b) = notice_lines f a @ notice_lines f b"
  by (simp_all add: notice_lines_def List.map_filter_def split: option.splits)

lemma notices_loop_result:
  assumes "\<And>i. i < length rs \<Longrightarrow> j_seq (rs ! i) = c + int i + 1"
  shows "notices_loop f limit rs lines c = (ls, c') \<Longrightarrow> length lines \<le> limit \<Longrightarrow>
    \<exists>m\<le>length rs. c' = c + int m \<and> ls = lines @ notice_lines f (take m rs) \<and> length ls \<le> limit \<and>
      (m < length rs \<longrightarrow> length ls = limit)"
  using assms
proof (induction rs arbitrary: lines c)
  case (Cons r rs)
  have r: "j_seq r = c + 1" using Cons.prems(3) [of 0] by simp
  have tail: "\<And>i. i < length rs \<Longrightarrow> j_seq (rs ! i) = (c + 1) + int i + 1" using Cons.prems(3) [of "Suc _"] by auto
  show ?case
  proof (cases "f r")
    case None
    then have "notices_loop f limit rs lines (c + 1) = (ls, c')" using Cons.prems(1) r by simp
    from Cons.IH [OF this Cons.prems(2) tail] obtain m where
      "m \<le> length rs" "c' = c + 1 + int m" "ls = lines @ notice_lines f (take m rs)" "length ls \<le> limit"
      "m < length rs \<longrightarrow> length ls = limit" by blast
    then show ?thesis using None by (intro exI [of _ "Suc m"]) auto
  next
    case (Some line)
    show ?thesis
    proof (cases "limit \<le> length lines")
      case True
      then show ?thesis using Cons.prems Some by (intro exI [of _ 0]) auto
    next
      case False
      then have "notices_loop f limit rs (lines @ [line]) (c + 1) = (ls, c')" using Cons.prems(1) r Some by simp
      moreover have "length (lines @ [line]) \<le> limit" using False by simp
      ultimately obtain m where
        "m \<le> length rs" "c' = c + 1 + int m" "ls = (lines @ [line]) @ notice_lines f (take m rs)" "length ls \<le> limit"
        "m < length rs \<longrightarrow> length ls = limit" using Cons.IH [OF _ _ tail] by blast
      then show ?thesis using Some by (intro exI [of _ "Suc m"]) auto
    qed
  qed
qed simp

lemma notices_since_result:
  assumes "file_numbered s" and "0 \<le> c" and "c \<le> int (length (rs_records s))"
    and "notices_since f (read_since s) c limit = (ls, c')"
  shows "\<exists>m\<le>length (rs_records s) - nat c. c' = c + int m \<and> ls = notice_lines f (take m (drop (nat c) (rs_records s))) \<and>
    length ls \<le> limit \<and> (length ls < limit \<and> int (length (rs_records s)) \<le> max_safe \<longrightarrow> m = length (rs_records s) - nat c)"
proof -
  let ?rs = "take (nat max_safe) (drop (nat c) (rs_records s))"
  have num: "numbered (rs_records s)" using assms(1) by (simp add: file_numbered_def)
  have seqs: "\<And>i. i < length ?rs \<Longrightarrow> j_seq (?rs ! i) = c + int i + 1"
    using numbered_nth [OF num] assms(2,3) by (auto simp: nth_drop)
  have "notices_loop f limit ?rs [] c = (ls, c')"
    using assms(4) by (simp only: notices_since_def read_since_page fst_conv)
  from notices_loop_result [OF seqs this]
  obtain m where m: "m \<le> length ?rs" "c' = c + int m" "ls = notice_lines f (take m ?rs)" "length ls \<le> limit"
    "m < length ?rs \<longrightarrow> length ls = limit"
    by (simp only: append_Nil list.size) blast
  have "m \<le> nat max_safe" using m(1) by simp
  then have "take m ?rs = take m (drop (nat c) (rs_records s))" by (simp add: min_def)
  moreover have "length ?rs = length (rs_records s) - nat c" if "int (length (rs_records s)) \<le> max_safe"
    using that by (simp add: nat_le_iff)
  ultimately show ?thesis using m by (intro exI [of _ m]) auto
qed

interpretation supervisor_source: notice_source "\<lambda>s. notices_since f (read_since s)"
  "\<lambda>s c. notice_lines f (drop (nat c) (rs_records s))" "\<lambda>s. int (length (rs_records s))" file_numbered
  "\<lambda>s. int (length (rs_records s)) \<le> max_safe" for f
proof
  fix s :: run_store and c limit ls c'
  assume a: "file_numbered s" "0 \<le> c" "c \<le> int (length (rs_records s))"
    "notices_since f (read_since s) c limit = (ls, c')"
  from notices_since_result [OF a] obtain m where m: "m \<le> length (rs_records s) - nat c" "c' = c + int m"
    "ls = notice_lines f (take m (drop (nat c) (rs_records s)))" "length ls \<le> limit" by blast
  have "drop (nat c) (rs_records s) = take m (drop (nat c) (rs_records s)) @ drop (nat c') (rs_records s)"
    using m(2) a(2) append_take_drop_id [of m "drop (nat c) (rs_records s)"]
    by (simp add: nat_add_distrib add.commute)
  then have "notice_lines f (drop (nat c) (rs_records s)) = ls @ notice_lines f (drop (nat c') (rs_records s))"
    using m(3) notice_lines_simps(3) by metis
  moreover have "ls \<noteq> [] \<longrightarrow> 0 < m" using m(3) by (cases m) auto
  ultimately show "c \<le> c' \<and> c' \<le> int (length (rs_records s)) \<and>
      notice_lines f (drop (nat c) (rs_records s)) = ls @ notice_lines f (drop (nat c') (rs_records s)) \<and>
      length ls \<le> limit \<and> (ls \<noteq> [] \<longrightarrow> c < c')"
    using m a by auto
next
  fix s :: run_store and c limit c'
  assume "file_numbered s" "int (length (rs_records s)) \<le> max_safe" "0 \<le> c" "c \<le> int (length (rs_records s))" "0 < limit"
    "notices_since f (read_since s) c limit = ([], c')"
  then show "c' = int (length (rs_records s))" using notices_since_result [of s c f limit "[]" c'] by auto
qed simp

end
