(* ===== verification/NoticeWorld.thy ===== *)
theory NoticeWorld
  imports Notices RunWorld
begin

text \<open>
  The notice pump over a growing journal: appends (which the journal may refuse), the pump's
  microtask and timer, and the shutdowns, reloads and retirements of the session, in any order.
  The wiring is that of \<open>index.ts\<close>; \<open>nw_sent\<close> records what the session took.
\<close>

section \<open>Events\<close>

record notice_world =
  nw_store :: run_store
  nw_pump :: notice_pump
  nw_active :: bool
  nw_sent :: "submission list"

text \<open>\<open>bindingFor\<close>: an attachment starts at the journal's end.\<close>

definition new_notice_world :: "run_store \<Rightarrow> notice_world" where
  "new_notice_world s = \<lparr>nw_store = s, nw_pump = new_pump (int (rs_seq s)), nw_active = True, nw_sent = []\<rparr>"

definition supervisor_changed :: "notice_world \<Rightarrow> notice_world" where
  "supervisor_changed w =
     (if \<not> nw_active w then w
      else let p = (case rs_failure (nw_store w) of
                      Some f \<Rightarrow> storage_failed (sf_message f) (nw_pump w)
                    | None \<Rightarrow> nw_pump w)
           in w\<lparr>nw_pump := pump_changed p\<rparr>)"

text \<open>
  \<open>publish\<close>: an append, and then the observers; an append that finds the journal failing
  notifies through the store's failure listener, one on an already failed journal does not.
\<close>

datatype notice_event =
  Published jstring js_value | Microtask "submit_outcome list" | Timer_fires
| Session_shutdown bool | Reattached | Retired

definition notice_step ::
  "(nat list \<Rightarrow> jstring) \<Rightarrow> (js_num \<Rightarrow> jstring) \<Rightarrow> (jstring \<Rightarrow> jstring option) \<Rightarrow> notice_event \<Rightarrow> notice_world \<Rightarrow> notice_world" where
  "notice_step sha nt pth ev w =
     (case ev of
        Published kind body \<Rightarrow>
          (case run_append sha nt kind body (nw_store w) of
             (Inr r, s) \<Rightarrow> supervisor_changed (w\<lparr>nw_store := s\<rparr>)
           | (Inl e, s) \<Rightarrow>
               if rs_notified s = rs_notified (nw_store w) then w\<lparr>nw_store := s\<rparr>
               else supervisor_changed (w\<lparr>nw_store := s\<rparr>))
      | Microtask outs \<Rightarrow>
          if np_scheduled (nw_pump w) then
            (case run_pump (Suc (length (rs_records (nw_store w)))) (notices_since (notice_line nt pth) (read_since (nw_store w)))
                    outs (nw_pump w) of
               (p, sent) \<Rightarrow> w\<lparr>nw_pump := p, nw_sent := nw_sent w @ sent\<rparr>)
          else w
      | Timer_fires \<Rightarrow> if np_timer (nw_pump w) then w\<lparr>nw_pump := retry_fires (nw_pump w)\<rparr> else w
      | Session_shutdown reload \<Rightarrow>
          (let p = pump_detach (nw_pump w)
           in w\<lparr>nw_active := False, nw_pump := (if reload then p else pump_dispose p)\<rparr>)
      | Reattached \<Rightarrow> supervisor_changed (w\<lparr>nw_active := True, nw_pump := pump_attach (nw_pump w)\<rparr>)
      | Retired \<Rightarrow> w\<lparr>nw_pump := pump_dispose (nw_pump w)\<rparr>)"

definition notice_run ::
  "(nat list \<Rightarrow> jstring) \<Rightarrow> (js_num \<Rightarrow> jstring) \<Rightarrow> (jstring \<Rightarrow> jstring option) \<Rightarrow> notice_event list \<Rightarrow> notice_world \<Rightarrow> notice_world" where
  "notice_run sha nt pth evs w = fold (notice_step sha nt pth) evs w"

section \<open>Invariant\<close>

definition outstanding :: "notice_world \<Rightarrow> bool" where
  "outstanding w \<longleftrightarrow> np_cursor (nw_pump w) < int (length (rs_records (nw_store w))) \<or> np_pending_failure (nw_pump w) \<noteq> None"

definition pump_armed :: "notice_pump \<Rightarrow> bool" where
  "pump_armed p \<longleftrightarrow> np_scheduled p \<or> np_timer p \<or> NOTICE_MAX_ATTEMPTS \<le> np_failures p"

definition notices_kept :: "(journal_record \<Rightarrow> jstring option) \<Rightarrow> nat \<Rightarrow> notice_world \<Rightarrow> bool" where
  "notices_kept f start w \<longleftrightarrow>
     file_numbered (nw_store w) \<and> int start \<le> np_cursor (nw_pump w) \<and>
     np_cursor (nw_pump w) \<le> int (length (rs_records (nw_store w))) \<and>
     notice_lines f (drop start (rs_records (nw_store w))) =
       page_lines (nw_sent w) @ notice_lines f (drop (nat (np_cursor (nw_pump w))) (rs_records (nw_store w)))"

definition no_lost_wakeup :: "notice_world \<Rightarrow> bool" where
  "no_lost_wakeup w \<longleftrightarrow>
     (int (length (rs_records (nw_store w))) \<le> max_safe \<and> outstanding w \<and> np_attached (nw_pump w) \<and>
      nw_active w \<and> \<not> np_disposed (nw_pump w) \<longrightarrow> pump_armed (nw_pump w))"

named_theorems pump_simps \<open>fields of the pump after an operation\<close>

lemma pump_fields [pump_simps]:
  "np_cursor (pump_changed p) = np_cursor p" "np_cursor (storage_failed m p) = np_cursor p"
  "np_cursor (pump_detach p) = np_cursor p" "np_cursor (pump_attach p) = np_cursor p"
  "np_cursor (pump_dispose p) = np_cursor p" "np_cursor (retry_fires p) = np_cursor p"
  "np_attached (pump_changed p) = np_attached p" "np_disposed (pump_changed p) = np_disposed p"
  "np_attached (storage_failed m p) = np_attached p" "np_disposed (storage_failed m p) = np_disposed p"
  "\<not> np_attached (pump_detach p)" "\<not> np_attached (pump_dispose p)" "np_disposed (pump_dispose p)"
  "np_disposed (pump_detach p) = np_disposed p"
  "np_attached (retry_fires p) = np_attached p" "np_disposed (retry_fires p) = np_disposed p"
  by (simp_all add: pump_changed_def storage_failed_def pump_detach_def pump_attach_def pump_dispose_def retry_fires_def)

lemma changed_arms: "np_attached p \<Longrightarrow> \<not> np_disposed p \<Longrightarrow> np_scheduled (pump_changed p)"
  by (simp add: pump_changed_def)

lemma supervisor_changed_fields:
  "nw_store (supervisor_changed w) = nw_store w" "nw_sent (supervisor_changed w) = nw_sent w"
  "nw_active (supervisor_changed w) = nw_active w"
  "np_cursor (nw_pump (supervisor_changed w)) = np_cursor (nw_pump w)"
  "np_attached (nw_pump (supervisor_changed w)) = np_attached (nw_pump w)"
  "np_disposed (nw_pump (supervisor_changed w)) = np_disposed (nw_pump w)"
  by (auto simp: supervisor_changed_def Let_def pump_simps split: option.splits)

lemma supervisor_changed_arms:
  "nw_active w \<Longrightarrow> np_attached (nw_pump w) \<Longrightarrow> \<not> np_disposed (nw_pump w) \<Longrightarrow> np_scheduled (nw_pump (supervisor_changed w))"
  by (auto simp: supervisor_changed_def Let_def pump_simps intro!: changed_arms split: option.splits)

lemma changed_no_lost: "no_lost_wakeup (supervisor_changed w)"
  using supervisor_changed_arms [of w]
  by (auto simp: no_lost_wakeup_def pump_armed_def supervisor_changed_fields)

lemma kept_changed: "notices_kept f st (supervisor_changed w) = notices_kept f st w"
  by (simp add: notices_kept_def supervisor_changed_fields)

lemma append_keeps:
  assumes "notices_kept f st w" and "run_append sha nt kind body (nw_store w) = (res, s)"
  shows "notices_kept f st (w\<lparr>nw_store := s\<rparr>) \<and> (\<exists>new. rs_records s = rs_records (nw_store w) @ new)"
proof (cases res)
  case (Inr r)
  with run_append_effect [of sha nt kind body "nw_store w" r s] assms(2)
  have e: "rs_records s = rs_records (nw_store w) @ [r]" "rs_seq s = Suc (rs_seq (nw_store w))"
    "j_seq r = int (rs_seq (nw_store w)) + 1" by auto
  have "file_numbered s" using assms(1) e by (simp add: notices_kept_def file_numbered_def numbered_snoc)
  then show ?thesis using assms(1) e by (auto simp: notices_kept_def)
next
  case (Inl e)
  with assms(2) have "rs_records s = rs_records (nw_store w)" "rs_seq s = rs_seq (nw_store w)"
    by (auto simp: run_append_def ethen_def ebind_def assert_writable_def next_env_def Let_def
        split: prod.splits option.splits if_splits)
  then show ?thesis using assms(1) by (auto simp: notices_kept_def file_numbered_def)
qed

text \<open>The microtask.\<close>

lemma run_pump_sends:
  assumes "file_numbered s" and "0 \<le> np_cursor p" and "np_cursor p \<le> int (length (rs_records s))"
    and "run_pump n (notices_since f (read_since s)) outs p = (p', sent)"
  shows "np_cursor p \<le> np_cursor p' \<and> np_cursor p' \<le> int (length (rs_records s)) \<and>
    notice_lines f (drop (nat (np_cursor p)) (rs_records s)) =
      page_lines sent @ notice_lines f (drop (nat (np_cursor p')) (rs_records s)) \<and>
    (\<forall>ls c. Page ls c \<in> set sent \<longrightarrow> ls \<noteq> [] \<and> length ls \<le> NOTICE_BATCH)"
proof -
  obtain t q snt where l: "pump_loop n (notices_since f (read_since s)) outs p [] = (t, q, snt)" by (metis prod_cases3)
  with assms(4) have "sent = snt" "np_cursor p' = np_cursor q" by (auto simp: run_pump_def Let_def)
  then show ?thesis using supervisor_source.pump_loop_pages [OF assms(1-3) l] by auto
qed

lemma run_pump_arms:
  assumes "file_numbered s" and "int (length (rs_records s)) \<le> max_safe"
    and "0 \<le> np_cursor p" and "np_cursor p \<le> int (length (rs_records s))"
    and "run_pump (Suc (length (rs_records s))) (notices_since f (read_since s)) outs p = (p', sent)"
  shows "np_disposed p' \<or> \<not> np_attached p' \<or> pump_armed p' \<or>
    np_cursor p' = int (length (rs_records s)) \<and> np_pending_failure p' = None"
proof -
  obtain t q snt where l: "pump_loop (Suc (length (rs_records s))) (notices_since f (read_since s)) outs p [] = (t, q, snt)"
    by (metis prod_cases3)
  show ?thesis
  proof (cases t)
    case True
    with assms(5) l show ?thesis
      by (auto simp: run_pump_def Let_def pump_armed_def not_less split: if_splits)
  next
    case False
    have "nat (int (length (rs_records s)) - np_cursor p) < Suc (length (rs_records s))" using assms(3) by linarith
    from supervisor_source.pump_loop_drains [OF assms(1-4) this l [unfolded eq_False [THEN iffD2, OF False]]]
    show ?thesis using assms(5) l False by (auto simp: run_pump_def Let_def)
  qed
qed

lemma pump_loop_willing:
  "pump_loop n since [] p sent = (t, p', sent') \<Longrightarrow>
   \<not> t \<and> np_attached p' = np_attached p \<and> np_disposed p' = np_disposed p"
proof (induction n arbitrary: p sent)
  case (Suc n)
  obtain outs1 p1 sent1 where a: "submit_alert [] p sent = Some (outs1, p1, sent1)"
    by (cases "np_pending_failure p") (auto simp: submit_alert_def submit_next_def)
  then have k: "outs1 = []" "np_attached p1 = np_attached p" "np_disposed p1 = np_disposed p"
    by (auto simp: submit_alert_def submit_next_def split: option.splits)
  obtain ls c where s: "since (np_cursor p1) NOTICE_BATCH = (ls, c)" by fastforce
  show ?case
  proof (cases "np_disposed p \<or> \<not> np_attached p \<or> ls = []")
    case True
    then show ?thesis using Suc.prems a s k by (auto split: if_splits)
  next
    case False
    then have "pump_loop n since [] (p1\<lparr>np_cursor := c, np_failures := 0\<rparr>) (sent1 @ [Page ls c]) = (t, p', sent')"
      using Suc.prems a s k by (simp add: submit_next_def)
    from Suc.IH [OF this] show ?thesis using k by simp
  qed
qed simp

lemma run_pump_drains:
  assumes "file_numbered s" and "int (length (rs_records s)) \<le> max_safe"
    and "0 \<le> np_cursor p" and "np_cursor p \<le> int (length (rs_records s))"
    and "np_attached p" and "\<not> np_disposed p"
    and "run_pump (Suc (length (rs_records s))) (notices_since f (read_since s)) [] p = (p', sent)"
  shows "np_cursor p' = int (length (rs_records s)) \<and> np_pending_failure p' = None"
proof -
  obtain t q snt where l: "pump_loop (Suc (length (rs_records s))) (notices_since f (read_since s)) [] p [] = (t, q, snt)"
    by (metis prod_cases3)
  from pump_loop_willing [OF l] have q: "\<not> t" "np_attached q" "\<not> np_disposed q" using assms by auto
  have "nat (int (length (rs_records s)) - np_cursor p) < Suc (length (rs_records s))" using assms(3) by linarith
  from supervisor_source.pump_loop_drains [OF assms(1-4) this l [unfolded eq_False [THEN iffD2, OF q(1)]]]
  show ?thesis using assms(7) l q by (auto simp: run_pump_def Let_def)
qed

section \<open>Every event keeps the invariant\<close>

lemma step_keeps:
  assumes "notices_kept (notice_line nt pth) st w"
  shows "notices_kept (notice_line nt pth) st (notice_step sha nt pth ev w)"
proof (cases ev)
  case (Published kind body)
  obtain res s where r: "run_append sha nt kind body (nw_store w) = (res, s)" by fastforce
  show ?thesis using append_keeps [OF assms r] Published r
    by (auto simp: notice_step_def kept_changed split: sum.splits)
next
  case (Microtask outs)
  obtain p sent where r: "run_pump (Suc (length (rs_records (nw_store w))))
      (notices_since (notice_line nt pth) (read_since (nw_store w))) outs (nw_pump w) = (p, sent)" by fastforce
  have k: "file_numbered (nw_store w)" "0 \<le> np_cursor (nw_pump w)"
    "np_cursor (nw_pump w) \<le> int (length (rs_records (nw_store w)))"
    using assms by (auto simp: notices_kept_def)
  show ?thesis using run_pump_sends [OF k r] assms Microtask r
    by (auto simp: notice_step_def notices_kept_def)
qed (use assms in \<open>auto simp: notice_step_def notices_kept_def supervisor_changed_fields pump_simps Let_def\<close>)

lemma step_records:
  "\<exists>new. rs_records (nw_store (notice_step sha nt pth ev w)) = rs_records (nw_store w) @ new"
proof (cases ev)
  case (Published kind body)
  obtain res s where r: "run_append sha nt kind body (nw_store w) = (res, s)" by fastforce
  have "\<exists>new. rs_records s = rs_records (nw_store w) @ new"
    using r by (auto simp: run_append_def ethen_def ebind_def assert_writable_def next_env_def Let_def index_record_def
        split: prod.splits option.splits if_splits)
  with Published r show ?thesis
    by (auto simp: notice_step_def supervisor_changed_fields split: sum.splits)
qed (auto simp: notice_step_def supervisor_changed_fields Let_def split: prod.splits)

lemma step_wakes:
  assumes "notices_kept (notice_line nt pth) st w" and "no_lost_wakeup w"
  shows "no_lost_wakeup (notice_step sha nt pth ev w)"
proof (cases ev)
  case (Published kind body)
  obtain res s where r: "run_append sha nt kind body (nw_store w) = (res, s)" by fastforce
  show ?thesis
  proof (cases "is_ok res \<or> rs_notified s \<noteq> rs_notified (nw_store w)")
    case True
    then show ?thesis using Published r by (auto simp: notice_step_def changed_no_lost is_ok_iff split: sum.splits)
  next
    case False
    then obtain e where e: "res = Inl e" by (cases res) auto
    then have "rs_records s = rs_records (nw_store w)"
      using r by (auto simp: run_append_def ethen_def ebind_def assert_writable_def next_env_def Let_def
          split: prod.splits option.splits if_splits)
    then show ?thesis using False e Published r assms(2)
      by (auto simp: notice_step_def no_lost_wakeup_def outstanding_def)
  qed
next
  case (Microtask outs)
  obtain p sent where r: "run_pump (Suc (length (rs_records (nw_store w))))
      (notices_since (notice_line nt pth) (read_since (nw_store w))) outs (nw_pump w) = (p, sent)" by fastforce
  have k: "file_numbered (nw_store w)" "0 \<le> np_cursor (nw_pump w)"
    "np_cursor (nw_pump w) \<le> int (length (rs_records (nw_store w)))"
    using assms by (auto simp: notices_kept_def)
  show ?thesis
  proof (cases "np_scheduled (nw_pump w)")
    case False
    then show ?thesis using assms(2) Microtask by (simp add: notice_step_def)
  next
    case True
    then have st: "notice_step sha nt pth ev w = w\<lparr>nw_pump := p, nw_sent := nw_sent w @ sent\<rparr>"
      using Microtask r by (simp add: notice_step_def)
    show ?thesis unfolding st no_lost_wakeup_def
      using run_pump_arms [OF k(1) _ k(2,3) r] by (auto simp: outstanding_def)
  qed
next
  case Timer_fires
  then show ?thesis using assms(2)
    by (auto simp: notice_step_def no_lost_wakeup_def outstanding_def pump_armed_def retry_fires_def pump_changed_def)
next
  case Reattached
  then show ?thesis by (simp add: notice_step_def changed_no_lost)
qed (use assms in \<open>auto simp: notice_step_def no_lost_wakeup_def pump_simps Let_def\<close>)

lemma new_world_kept: "file_numbered s \<Longrightarrow> notices_kept f (rs_seq s) (new_notice_world s)"
  by (auto simp: notices_kept_def new_notice_world_def new_pump_def file_numbered_def)

lemma new_world_wakes: "file_numbered s \<Longrightarrow> no_lost_wakeup (new_notice_world s)"
  by (auto simp: no_lost_wakeup_def outstanding_def new_notice_world_def new_pump_def file_numbered_def)

lemma run_keeps:
  assumes "notices_kept (notice_line nt pth) st w" and "no_lost_wakeup w"
  shows "notices_kept (notice_line nt pth) st (notice_run sha nt pth evs w) \<and> no_lost_wakeup (notice_run sha nt pth evs w)"
  using assms
proof (induction evs arbitrary: w)
  case Nil
  then show ?case by (simp add: notice_run_def)
next
  case (Cons ev evs)
  show ?case using Cons.IH [OF step_keeps [OF Cons.prems(1)] step_wakes [OF Cons.prems]]
    by (simp add: notice_run_def)
qed

section \<open>Properties\<close>

definition all_lines :: "(js_num \<Rightarrow> jstring) \<Rightarrow> (jstring \<Rightarrow> jstring option) \<Rightarrow> nat \<Rightarrow> notice_world \<Rightarrow> jstring list" where
  "all_lines nt pth start w = notice_lines (notice_line nt pth) (drop start (rs_records (nw_store w)))"

lemma microtask_drains:
  assumes k: "notices_kept (notice_line nt pth) st w" and sch: "np_scheduled (nw_pump w)"
    and on: "np_attached (nw_pump w)" "\<not> np_disposed (nw_pump w)"
    and room: "int (length (rs_records (nw_store w))) \<le> max_safe"
  shows "page_lines (nw_sent (notice_step sha nt pth (Microtask []) w)) = all_lines nt pth st w"
proof -
  obtain p sent where r: "run_pump (Suc (length (rs_records (nw_store w))))
      (notices_since (notice_line nt pth) (read_since (nw_store w))) [] (nw_pump w) = (p, sent)" by fastforce
  let ?w = "notice_step sha nt pth (Microtask []) w"
  have st: "?w = w\<lparr>nw_pump := p, nw_sent := nw_sent w @ sent\<rparr>" using sch r by (simp add: notice_step_def)
  have f: "file_numbered (nw_store w)" "0 \<le> np_cursor (nw_pump w)"
    "np_cursor (nw_pump w) \<le> int (length (rs_records (nw_store w)))" using k by (auto simp: notices_kept_def)
  have "np_cursor p = int (length (rs_records (nw_store w)))"
    using run_pump_drains [OF f(1) room f(2,3) on r] by simp
  then show ?thesis using step_keeps [OF k, of sha "Microtask []"] st
    by (simp add: notices_kept_def all_lines_def)
qed

lemma all_lines_pump: "all_lines nt pth st (w\<lparr>nw_pump := p\<rparr>) = all_lines nt pth st w"
  by (simp add: all_lines_def)

text \<open>
  C39. Whatever happens (appends that fail, submissions the session refuses, retries, reloads,
  disposal, in any order), the lines of the pages the session took are the notices journaled
  since the attachment, each once and in journal order, up to the cursor, which stays within the
  journal; the rest follows it. (The text of a page is cut at 48000 characters when it is shown.)
\<close>

theorem notices_in_order_once:
  assumes "file_numbered s" and "w = notice_run sha nt pth evs (new_notice_world s)"
  shows "\<exists>rest. all_lines nt pth (rs_seq s) w = page_lines (nw_sent w) @ rest \<and>
    rest = notice_lines (notice_line nt pth) (drop (nat (np_cursor (nw_pump w))) (rs_records (nw_store w))) \<and>
    int (rs_seq s) \<le> np_cursor (nw_pump w) \<and> np_cursor (nw_pump w) \<le> int (length (rs_records (nw_store w)))"
  using run_keeps [OF new_world_kept new_world_wakes, OF assms(1,1), of nt pth sha evs] assms(2)
  by (auto simp: notices_kept_def all_lines_def)

text \<open>
  While a session is attached, notices that were not handed over are never forgotten: the
  pump is scheduled, or its retry timer runs, or it has used up its attempts; when it is
  scheduled or the timer fires, a session that takes the submissions has then been given every
  notice of the journal; and so it is after a reload, even when the attempts were used up.
\<close>

theorem notices_are_delivered:
  assumes "file_numbered s" and "w = notice_run sha nt pth evs (new_notice_world s)"
    and "nw_active w" and "np_attached (nw_pump w)" and "\<not> np_disposed (nw_pump w)"
    and "int (length (rs_records (nw_store w))) \<le> max_safe"
  shows "(outstanding w \<longrightarrow> pump_armed (nw_pump w)) \<and>
    (np_scheduled (nw_pump w) \<or> np_timer (nw_pump w) \<longrightarrow>
      page_lines (nw_sent (notice_run sha nt pth [Timer_fires, Microtask []] w)) = all_lines nt pth (rs_seq s) w) \<and>
    page_lines (nw_sent (notice_run sha nt pth [Session_shutdown True, Reattached, Microtask []] w)) =
      all_lines nt pth (rs_seq s) w"
proof -
  have k: "notices_kept (notice_line nt pth) (rs_seq s) w" and nl: "no_lost_wakeup w"
    using run_keeps [OF new_world_kept new_world_wakes, OF assms(1,1), of nt pth sha evs] assms(2) by auto
  let ?t = "notice_step sha nt pth Timer_fires w"
  let ?d = "notice_step sha nt pth (Session_shutdown True) w"
  let ?r = "notice_step sha nt pth Reattached ?d"
  have "page_lines (nw_sent (notice_step sha nt pth (Microtask []) ?t)) = all_lines nt pth (rs_seq s) ?t"
    if "np_scheduled (nw_pump w) \<or> np_timer (nw_pump w)"
    by (rule microtask_drains [OF step_keeps [OF k]])
      (use that assms(4-6) in \<open>auto simp: notice_step_def retry_fires_def pump_changed_def\<close>)
  moreover have "page_lines (nw_sent (notice_step sha nt pth (Microtask []) ?r)) = all_lines nt pth (rs_seq s) ?r"
  proof (rule microtask_drains [OF step_keeps [OF step_keeps [OF k]]])
    have "np_attached (pump_attach p) \<and> \<not> np_disposed (pump_attach p)" if "\<not> np_disposed p" for p
      using that by (simp add: pump_attach_def pump_simps)
    then have on: "np_attached (nw_pump ?r)" "\<not> np_disposed (nw_pump ?r)"
      using assms(5) by (auto simp: notice_step_def supervisor_changed_fields pump_simps Let_def)
    then show "np_attached (nw_pump ?r)" "\<not> np_disposed (nw_pump ?r)" by auto
    show "np_scheduled (nw_pump ?r)" using on
      by (simp add: notice_step_def supervisor_changed_fields supervisor_changed_arms)
  qed (use assms(6) in \<open>simp add: notice_step_def supervisor_changed_fields Let_def\<close>)
  moreover have "all_lines nt pth (rs_seq s) ?t = all_lines nt pth (rs_seq s) w"
    "all_lines nt pth (rs_seq s) ?r = all_lines nt pth (rs_seq s) w"
    by (simp_all add: notice_step_def all_lines_def supervisor_changed_fields Let_def)
  ultimately show ?thesis using nl assms(3-6) by (simp add: notice_run_def no_lost_wakeup_def)
qed

text \<open>
  When the session goes away while it takes an alert, the page behind the alert is submitted to
  it all the same: the loop looks at the attachment only before the alert.
\<close>

lemma page_after_disposal:
  assumes "np_pending_failure p = Some m" and "np_attached p" and "\<not> np_disposed p"
    and "since (np_cursor p) NOTICE_BATCH = (l # ls, c)"
  shows "snd (run_pump (Suc (Suc n)) since [Taken_disposed] p) = [Alert m (np_cursor p), Page (l # ls) c]"
  using assms
  by (simp add: run_pump_def submit_alert_def submit_next_def after_submit_def pump_dispose_def pump_detach_def Let_def)

section \<open>Witnesses\<close>

definition done_body :: js_value where
  "done_body = JObj [(js ''agentId'', JStr (js ''a'')), (js ''taskRunId'', JStr (js ''t'')), (js ''outcome'', JStr (js ''succeeded''))]"

definition done_line :: jstring where
  "done_line = js ''/root/a task t ended succeeded''"

definition sample_paths :: "jstring \<Rightarrow> jstring option" where
  "sample_paths i = (if i = js ''a'' then Some (js ''/root/a'') else None)"

definition notified_world :: notice_world where
  "notified_world = notice_run sample_digest int_number sample_paths [Published (js ''task.terminal'') done_body] (new_notice_world sample_store)"

lemma sample_store_numbered: "file_numbered sample_store" "rs_seq sample_store = 0"
  by (simp_all add: file_numbered_def numbered_def sample_opened(2) run_blank_def)

lemma notified_facts:
  "all_lines int_number sample_paths 0 notified_world = [done_line]" "np_scheduled (nw_pump notified_world)"
  "nw_active notified_world" "np_attached (nw_pump notified_world)" "\<not> np_disposed (nw_pump notified_world)"
  "int (length (rs_records (nw_store notified_world))) \<le> max_safe"
proof -
  obtain s' where a: "run_append sample_digest int_number (js ''task.terminal'') done_body sample_store =
      (Inr (attempt sample_store (js ''task.terminal'') done_body), s')"
    using run_append_fine [of sample_store sample_digest int_number "js ''task.terminal''" done_body]
    by (auto simp: sample_opened(2) run_blank_def fine_io_def fine_env_def)
  then have r: "rs_records s' = [attempt sample_store (js ''task.terminal'') done_body]"
    using run_append_effect [OF a] by (simp add: sample_opened(2) run_blank_def)
  have w: "notified_world = supervisor_changed ((new_notice_world sample_store)\<lparr>nw_store := s'\<rparr>)"
    using a by (simp add: notified_world_def notice_run_def notice_step_def new_notice_world_def)
  have "notice_line int_number sample_paths (attempt sample_store (js ''task.terminal'') done_body) = Some done_line"
    by (simp add: notice_line_def attempt_def next_record_def done_body_def done_line_def terminal_line_def path_or_name_def
        sample_paths_def Let_def flip: js_append)
  then show "all_lines int_number sample_paths 0 notified_world = [done_line]"
    using r by (simp add: w all_lines_def supervisor_changed_fields)
  show "nw_active notified_world" "np_attached (nw_pump notified_world)" "\<not> np_disposed (nw_pump notified_world)"
    by (simp_all add: w supervisor_changed_fields new_notice_world_def new_pump_def)
  show "np_scheduled (nw_pump notified_world)" unfolding w
    by (rule supervisor_changed_arms) (simp_all add: new_notice_world_def new_pump_def)
  show "int (length (rs_records (nw_store notified_world))) \<le> max_safe"
    using r by (simp add: w supervisor_changed_fields max_safe_def)
qed

lemma notices_are_delivered_witness:
  "page_lines (nw_sent (notice_run sample_digest int_number sample_paths [Timer_fires, Microtask []] notified_world)) = [done_line]"
  using notices_are_delivered [OF sample_store_numbered(1) notified_world_def notified_facts(3-6)] notified_facts(1,2)
    sample_store_numbered(2) by simp

lemma notices_in_order_once_witness:
  "\<exists>rest. [done_line] = page_lines (nw_sent notified_world) @ rest"
  using notices_in_order_once [OF sample_store_numbered(1) notified_world_def] notified_facts(1) sample_store_numbered(2)
  by auto

end
