(* ===== verification/AgentTree.thy ===== *)
theory AgentTree
  imports Prelude
begin

text \<open>
  The agent tree of \<open>ponygirls-subagents/src/supervisor.ts\<close>: who may address, see and control
  whom (\<open>authorOf\<close>, \<open>resolveTarget\<close>, \<open>checkRoute\<close>, \<open>isDescendant\<close>, \<open>checkControl\<close>,
  \<open>visibleTo\<close>, \<open>childrenOf\<close>, \<open>subtreeOf\<close>), with the error codes of \<open>errors.ts\<close>. \<open>agents\<close> is the
  map of runtimes in insertion order; the records here hold the fields these functions read and
  are extended by later theories. \<open>reviewer\<close> stands for \<open>gate.isReviewer\<close>.
\<close>

section \<open>Error codes\<close>

datatype error_code =
  NOT_RUNNING | CAPACITY_EXCEEDED | POLICY_DENIED | STALE_GENERATION | STALE_INSTANCE | STALE_EPOCH
| SANDBOX_UNAVAILABLE | UNCERTAIN_OPERATION | NOT_FOUND | CONFLICT | CLOSED | INVALID | FORBIDDEN
| UNKNOWN_OPERATION | PAYLOAD_TOO_LARGE | FORGED_AUTHOR | DUPLICATE_REQUEST | ALREADY_SETTLED
| PROTOCOL_VERSION_MISMATCH | RECOVERY_OWNER_UNCONFIRMED | RECOVERY_CORRUPT | RESERVED_ROUND_CONFLICT
| GATE_PROTOCOL_ERROR | GATE_REFUSAL | GATE_OUTPUT_LIMIT | GATE_INVALID_APPROVAL | MODEL_UNAVAILABLE
| WORKSPACE_UNAVAILABLE | STORE_FAILED

section \<open>The tree\<close>

record agent_link =
  al_parent :: "jstring option"

type_synonym 'a agent_map = "(jstring \<times> 'a agent_link_scheme) list"

definition is_governor :: "jstring \<Rightarrow> bool" where
  "is_governor caller \<longleftrightarrow> caller = js ''governor'' \<or> caller = js ''user''"

definition author_of :: "jstring \<Rightarrow> jstring" where
  "author_of caller = (if is_governor caller then js ''governor'' else caller)"

definition parent_of :: "'a agent_map \<Rightarrow> jstring \<Rightarrow> jstring option" where
  "parent_of agents i = (case map_of agents i of Some r \<Rightarrow> al_parent r | None \<Rightarrow> None)"

text \<open>
  \<open>isDescendant\<close>: the loop follows the parents until there is none (an empty id ends it too). A
  chain of parents visits each agent at most once when every agent was added after its parent,
  so as many steps as there are agents and one more are enough.
\<close>

fun ascend :: "nat \<Rightarrow> 'a agent_map \<Rightarrow> jstring \<Rightarrow> jstring option \<Rightarrow> bool" where
  "ascend 0 agents anc cur = False"
| "ascend (Suc n) agents anc cur =
     (case cur of
        None \<Rightarrow> False
      | Some i \<Rightarrow> if i = [] then False else if i = anc then True else ascend n agents anc (parent_of agents i))"

definition is_descendant :: "'a agent_map \<Rightarrow> jstring \<Rightarrow> jstring \<Rightarrow> bool" where
  "is_descendant agents anc target = ascend (Suc (length agents)) agents anc (Some target)"

definition children_of :: "'a agent_map \<Rightarrow> jstring \<Rightarrow> jstring list" where
  "children_of agents p = map fst (filter (\<lambda>(i, r). al_parent r = Some p) agents)"

text \<open>\<open>subtreeOf\<close>: an agent before its children, each with its own subtree.\<close>

fun subtree :: "nat \<Rightarrow> 'a agent_map \<Rightarrow> jstring \<Rightarrow> jstring list" where
  "subtree 0 agents i = []"
| "subtree (Suc n) agents i =
     (if map_of agents i = None then [] else i # concat (map (subtree n agents) (children_of agents i)))"

definition subtree_of :: "'a agent_map \<Rightarrow> jstring \<Rightarrow> jstring list" where
  "subtree_of agents i = subtree (Suc (length agents)) agents i"

section \<open>Authority over agents\<close>

definition resolve_target :: "'a agent_map \<Rightarrow> jstring \<Rightarrow> jstring \<Rightarrow> error_code + jstring" where
  "resolve_target agents caller target =
     (if target \<noteq> js ''parent'' then Inr target
      else if is_governor caller then Inl INVALID
      else case map_of agents caller of
             None \<Rightarrow> Inl NOT_FOUND
           | Some r \<Rightarrow> Inr (case al_parent r of Some p \<Rightarrow> p | None \<Rightarrow> js ''governor''))"

definition check_route :: "'a agent_map \<Rightarrow> (jstring \<Rightarrow> bool) \<Rightarrow> jstring \<Rightarrow> jstring \<Rightarrow> jstring \<Rightarrow> error_code + unit" where
  "check_route agents reviewer caller sender addressee =
     (if addressee = js ''governor'' then
        (case (if sender = js ''governor'' then None else map_of agents sender) of
           None \<Rightarrow> Inl FORBIDDEN
         | Some r \<Rightarrow> if al_parent r \<noteq> None then Inl FORBIDDEN else Inr ())
      else if map_of agents addressee = None then Inl NOT_FOUND
      else if reviewer addressee then Inl FORBIDDEN
      else if sender \<noteq> js ''governor'' \<and> reviewer sender then Inl FORBIDDEN
      else if is_governor caller then Inr ()
      else if sender = addressee then Inl FORBIDDEN
      else case map_of agents sender of
             None \<Rightarrow> Inl NOT_FOUND
           | Some r \<Rightarrow>
               if al_parent r \<noteq> Some addressee \<and> \<not> is_descendant agents sender addressee then Inl FORBIDDEN else Inr ())"

definition check_control :: "'a agent_map \<Rightarrow> (jstring \<Rightarrow> bool) \<Rightarrow> jstring \<Rightarrow> jstring \<Rightarrow> error_code + unit" where
  "check_control agents reviewer caller i =
     (if reviewer i \<and> \<not> is_governor caller then Inl FORBIDDEN
      else if is_governor caller then Inr ()
      else if reviewer caller then Inl FORBIDDEN
      else if caller = i \<or> \<not> is_descendant agents caller i then Inl FORBIDDEN
      else Inr ())"

definition visible_to :: "'a agent_map \<Rightarrow> jstring \<Rightarrow> jstring \<Rightarrow> bool" where
  "visible_to agents caller i =
     (if is_governor caller \<or> caller = i then True
      else case map_of agents caller of
             None \<Rightarrow> False
           | Some self \<Rightarrow> al_parent self = Some i \<or> is_descendant agents caller i)"

section \<open>Well-formed trees\<close>

text \<open>
  Agents are added at the end of the map, under an agent that is there: \<open>spawn\<close> and
  \<open>createManagedReviewer\<close> do, and a journal is replayed in that order.
\<close>

inductive grown :: "'a agent_map \<Rightarrow> bool" where
  grown_empty: "grown []"
| grown_spawn: "grown agents \<Longrightarrow> i \<noteq> [] \<Longrightarrow> map_of agents i = None \<Longrightarrow>
    (\<And>p. al_parent r = Some p \<Longrightarrow> map_of agents p \<noteq> None) \<Longrightarrow> grown (agents @ [(i, r)])"

definition parent_rel :: "'a agent_map \<Rightarrow> (jstring \<times> jstring) set" where
  "parent_rel agents = {(i, p). parent_of agents i = Some p}"

definition position :: "'a agent_map \<Rightarrow> jstring \<Rightarrow> nat" where
  "position agents i = length (takeWhile (\<lambda>e. fst e \<noteq> i) agents)"

lemma grown_ids: "grown agents \<Longrightarrow> distinct (map fst agents) \<and> [] \<notin> fst ` set agents"
  by (induction rule: grown.induct) (auto simp: map_of_eq_None_iff)

lemma position_bound: "map_of agents i \<noteq> None \<longleftrightarrow> position agents i < length agents"
  by (induction agents) (auto simp: position_def)

lemma position_snoc: "position (agents @ [e]) i = (if map_of agents i = None \<and> fst e \<noteq> i then Suc (length agents)
    else position agents i)"
  by (induction agents) (auto simp: position_def)

lemma map_of_snoc: "map_of (agents @ [(i, r)]) x = (case map_of agents x of None \<Rightarrow> if x = i then Some r else None | Some y \<Rightarrow> Some y)"
  by (auto simp: map_add_def split: option.splits)

lemma parent_earlier: "grown agents \<Longrightarrow> parent_of agents i = Some p \<Longrightarrow> map_of agents p \<noteq> None \<and> position agents p < position agents i"
proof (induction arbitrary: i p rule: grown.induct)
  case (grown_spawn agents j r)
  show ?case
  proof (cases "map_of agents i")
    case None
    with grown_spawn.prems have i: "i = j" "al_parent r = Some p" by (auto simp: parent_of_def map_of_snoc simp del: map_of_append split: if_splits)
    then have "map_of agents p \<noteq> None" using grown_spawn.hyps by blast
    moreover from this have "position agents p < length agents" by (simp only: position_bound)
    moreover have "\<not> position agents j < length agents" using None i position_bound [of agents j] by simp
    ultimately show ?thesis using i None by (auto simp: position_snoc map_of_snoc simp del: map_of_append split: option.splits)
  next
    case (Some y)
    then have "parent_of agents i = Some p" using grown_spawn.prems by (simp add: parent_of_def map_of_snoc del: map_of_append)
    from grown_spawn.IH [OF this] show ?thesis using Some by (auto simp: position_snoc map_of_snoc simp del: map_of_append split: option.splits)
  qed
qed (simp add: parent_of_def)

lemma parent_present: "(i, p) \<in> parent_rel agents \<Longrightarrow> map_of agents i \<noteq> None"
  by (auto simp: parent_rel_def parent_of_def split: option.splits)

lemma ancestor_earlier:
  assumes "grown agents"
  shows "(i, a) \<in> (parent_rel agents)\<^sup>+ \<Longrightarrow> position agents a < position agents i \<and> map_of agents i \<noteq> None \<and> map_of agents a \<noteq> None"
proof (induction rule: trancl.induct)
  case (r_into_trancl a b)
  then show ?case using parent_earlier [OF assms] parent_present by (fastforce simp: parent_rel_def)
next
  case (trancl_into_trancl a b c)
  then show ?case using parent_earlier [OF assms, of b c] by (auto simp: parent_rel_def)
qed

lemma tree_acyclic: "grown agents \<Longrightarrow> (i, i) \<notin> (parent_rel agents)\<^sup>+"
  using ancestor_earlier by blast

lemma position_le: "position agents i \<le> length agents"
  by (simp add: position_def length_takeWhile_le)

lemma parent_nonempty: "grown agents \<Longrightarrow> parent_of agents i = Some p \<Longrightarrow> p \<noteq> []"
  using parent_earlier [of agents i p] grown_ids [of agents] by (auto dest: map_of_SomeD simp: image_iff)

lemma ascend_iff:
  assumes "grown agents"
  shows "i \<noteq> [] \<Longrightarrow> position agents i < n \<Longrightarrow> ascend n agents a (Some i) \<longleftrightarrow> (i, a) \<in> (parent_rel agents)\<^sup>*"
proof (induction n arbitrary: i)
  case (Suc n)
  show ?case
  proof (cases "i = a \<or> parent_of agents i = None")
    case True
    then show ?thesis using Suc.prems(1)
      by (cases n) (auto simp: parent_rel_def elim: converse_rtranclE)
  next
    case False
    then obtain p where p: "parent_of agents i = Some p" by auto
    have "ascend n agents a (Some p) \<longleftrightarrow> (p, a) \<in> (parent_rel agents)\<^sup>*"
      using parent_earlier [OF assms p] parent_nonempty [OF assms p] Suc.prems(2) by (intro Suc.IH) auto
    moreover have "(i, a) \<in> (parent_rel agents)\<^sup>* \<longleftrightarrow> (p, a) \<in> (parent_rel agents)\<^sup>*"
      using p False by (auto simp: parent_rel_def elim: converse_rtranclE intro: converse_rtrancl_into_rtrancl)
    ultimately show ?thesis using p False Suc.prems(1) by simp
  qed
qed simp

lemma is_descendant_iff:
  "grown agents \<Longrightarrow> i \<noteq> [] \<Longrightarrow> is_descendant agents a i \<longleftrightarrow> (i, a) \<in> (parent_rel agents)\<^sup>*"
  unfolding is_descendant_def by (rule ascend_iff) (simp_all add: position_le less_Suc_eq_le)

lemma children_iff: "grown agents \<Longrightarrow> c \<in> set (children_of agents i) \<longleftrightarrow> (c, i) \<in> parent_rel agents"
proof -
  assume "grown agents"
  then have "\<And>r. (c, r) \<in> set agents \<longleftrightarrow> map_of agents c = Some r" using grown_ids [of agents] by simp
  then show ?thesis by (auto simp: children_of_def parent_rel_def parent_of_def image_iff split: option.splits)
qed

lemma children_distinct: "grown agents \<Longrightarrow> distinct (children_of agents i)"
  using grown_ids [of agents] by (simp add: children_of_def distinct_map_filter)

lemma siblings_apart:
  assumes "grown agents" and "(c, i) \<in> parent_rel agents" and "(d, i) \<in> parent_rel agents" and "c \<noteq> d"
  shows "\<not> ((x, c) \<in> (parent_rel agents)\<^sup>* \<and> (x, d) \<in> (parent_rel agents)\<^sup>*)"
proof
  have sv: "single_valued (parent_rel agents)" by (auto simp: single_valued_def parent_rel_def)
  assume "(x, c) \<in> (parent_rel agents)\<^sup>* \<and> (x, d) \<in> (parent_rel agents)\<^sup>*"
  then have "(c, d) \<in> (parent_rel agents)\<^sup>* \<or> (d, c) \<in> (parent_rel agents)\<^sup>*"
    using single_valued_confluent [OF sv] by blast
  moreover have "False" if u: "(u, i) \<in> parent_rel agents" and v: "(v, i) \<in> parent_rel agents" and "u \<noteq> v"
    and "(u, v) \<in> (parent_rel agents)\<^sup>*" for u v
  proof -
    have "(u, v) \<in> (parent_rel agents)\<^sup>+" using that by (simp add: rtrancl_eq_or_trancl)
    then obtain w where "(u, w) \<in> parent_rel agents" "(w, v) \<in> (parent_rel agents)\<^sup>*" by (meson tranclD)
    then have "(i, v) \<in> (parent_rel agents)\<^sup>*" using sv u by (auto dest: single_valuedD)
    then have "(i, i) \<in> (parent_rel agents)\<^sup>+" using v by (meson rtrancl_into_trancl1)
    then show False using tree_acyclic [OF assms(1)] by blast
  qed
  ultimately show False using assms by blast
qed

lemma subtree_correct:
  assumes "grown agents"
  shows "map_of agents i \<noteq> None \<Longrightarrow> length agents - position agents i < n \<Longrightarrow>
    set (subtree n agents i) = {x. (x, i) \<in> (parent_rel agents)\<^sup>*} \<and> distinct (subtree n agents i)"
proof (induction n arbitrary: i)
  case (Suc n)
  have ih: "set (subtree n agents c) = {x. (x, c) \<in> (parent_rel agents)\<^sup>*} \<and> distinct (subtree n agents c)"
    if "(c, i) \<in> parent_rel agents" for c
  proof (rule Suc.IH)
    show known: "map_of agents c \<noteq> None" using parent_present [OF that] .
    have "position agents i < position agents c" using parent_earlier [OF assms, of c i] that by (simp add: parent_rel_def)
    moreover have "position agents c < length agents" using known by (simp only: position_bound)
    ultimately show "length agents - position agents c < n" using Suc.prems(2) by linarith
  qed
  let ?kids = "children_of agents i"
  have kids: "\<And>c. c \<in> set ?kids \<longleftrightarrow> (c, i) \<in> parent_rel agents" using children_iff [OF assms] by blast
  have below: "set (concat (map (subtree n agents) ?kids)) = {x. (x, i) \<in> (parent_rel agents)\<^sup>+}"
    using ih kids by (auto simp: trancl_unfold_right relcomp_unfold)
  moreover have "distinct (concat (map (subtree n agents) ?kids))"
  proof (rule distinct_concat)
    have "inj_on (subtree n agents) (set ?kids)"
    proof (rule inj_onI)
      fix c d assume cd: "c \<in> set ?kids" "d \<in> set ?kids" "subtree n agents c = subtree n agents d"
      then have "{x. (x, c) \<in> (parent_rel agents)\<^sup>*} = {x. (x, d) \<in> (parent_rel agents)\<^sup>*}" using ih kids by metis
      then have "(c, c) \<in> (parent_rel agents)\<^sup>* \<and> (c, d) \<in> (parent_rel agents)\<^sup>*" by auto
      then show "c = d" using siblings_apart [OF assms, of c i d c] cd kids by blast
    qed
    then show "distinct (map (subtree n agents) ?kids)" using children_distinct [OF assms] by (simp add: distinct_map)
  next
    fix ys assume "ys \<in> set (map (subtree n agents) ?kids)"
    then show "distinct ys" using ih kids by auto
  next
    fix ys zs assume "ys \<in> set (map (subtree n agents) ?kids)" "zs \<in> set (map (subtree n agents) ?kids)" "ys \<noteq> zs"
    then obtain c d where "(c, i) \<in> parent_rel agents" "(d, i) \<in> parent_rel agents" "c \<noteq> d"
      "ys = subtree n agents c" "zs = subtree n agents d" using kids by auto
    then show "set ys \<inter> set zs = {}" using ih siblings_apart [OF assms, of c i d] by fastforce
  qed
  ultimately show ?case using Suc.prems(1) tree_acyclic [OF assms, of i]
    by (auto simp: rtrancl_eq_or_trancl)
qed simp

lemma subtree_of_correct:
  assumes "grown agents" and "map_of agents i \<noteq> None"
  shows "set (subtree_of agents i) = {x. (x, i) \<in> (parent_rel agents)\<^sup>*} \<and> distinct (subtree_of agents i)"
  unfolding subtree_of_def by (rule subtree_correct [OF assms]) simp

section \<open>Properties\<close>

text \<open>
  In a tree grown by spawns an agent may control exactly its proper descendants, see itself,
  its parent and its descendants, and write to its parent, to its proper descendants and, at the
  top level, to the governing session; reviewers neither control nor are controlled nor take
  part in messages.
\<close>

theorem authority_follows_tree:
  assumes "grown agents" and "\<not> is_governor caller" and "map_of agents caller \<noteq> None" and "i \<noteq> []"
  shows "(check_control agents reviewer caller i = Inr () \<longleftrightarrow>
      \<not> reviewer i \<and> \<not> reviewer caller \<and> (i, caller) \<in> (parent_rel agents)\<^sup>+) \<and>
    (visible_to agents caller i \<longleftrightarrow> (caller, i) \<in> parent_rel agents \<or> (i, caller) \<in> (parent_rel agents)\<^sup>*) \<and>
    (check_route agents reviewer caller (author_of caller) i = Inr () \<longleftrightarrow>
      (if i = js ''governor'' then parent_of agents caller = None
       else map_of agents i \<noteq> None \<and> \<not> reviewer i \<and> \<not> reviewer caller \<and>
         ((caller, i) \<in> parent_rel agents \<or> (i, caller) \<in> (parent_rel agents)\<^sup>+)))"
proof -
  have author: "author_of caller = caller" "caller \<noteq> js ''governor''"
    using assms(2) by (auto simp: author_of_def is_governor_def)
  note desc = is_descendant_iff [OF assms(1,4)]
  have proper: "caller \<noteq> i \<and> (i, caller) \<in> (parent_rel agents)\<^sup>* \<longleftrightarrow> (i, caller) \<in> (parent_rel agents)\<^sup>+"
    using tree_acyclic [OF assms(1), of i] by (auto simp: rtrancl_eq_or_trancl)
  have up: "al_parent r = Some p \<longleftrightarrow> (caller, p) \<in> parent_rel agents" if "map_of agents caller = Some r" for r p
    using that by (simp add: parent_rel_def parent_of_def)
  have self: "(caller, caller) \<notin> parent_rel agents" using tree_acyclic [OF assms(1), of caller] by blast
  have ctl: "check_control agents reviewer caller i = Inr () \<longleftrightarrow>
      \<not> reviewer i \<and> \<not> reviewer caller \<and> caller \<noteq> i \<and> (i, caller) \<in> (parent_rel agents)\<^sup>*"
    using assms(2) desc by (auto simp: check_control_def)
  have vis: "visible_to agents caller i \<longleftrightarrow> (caller, i) \<in> parent_rel agents \<or> (i, caller) \<in> (parent_rel agents)\<^sup>*"
    using assms(2,3) desc up by (auto simp: visible_to_def)
  have rt: "check_route agents reviewer caller (author_of caller) i = Inr () \<longleftrightarrow>
      (if i = js ''governor'' then parent_of agents caller = None
       else map_of agents i \<noteq> None \<and> \<not> reviewer i \<and> \<not> reviewer caller \<and> caller \<noteq> i \<and>
         ((caller, i) \<in> parent_rel agents \<or> (i, caller) \<in> (parent_rel agents)\<^sup>*))"
  proof -
    obtain r where r: "map_of agents caller = Some r" using assms(3) by auto
    have "parent_of agents caller = al_parent r" using r by (simp add: parent_of_def)
    then show ?thesis using assms(2) r desc up [OF r, of i] author
      by (cases "al_parent r") (auto simp: check_route_def)
  qed
  show ?thesis unfolding ctl vis rt using proper self by auto
qed

text \<open>
  Closing or interrupting a subtree reaches the agent and every one of its descendants,
  each exactly once.
\<close>

theorem subtree_is_complete:
  assumes "grown agents" and "map_of agents i \<noteq> None"
  shows "set (subtree_of agents i) = {x. (x, i) \<in> (parent_rel agents)\<^sup>*} \<and> distinct (subtree_of agents i)"
  using subtree_of_correct [OF assms] .

section \<open>Witnesses\<close>

definition sample_tree :: "unit agent_map" where
  "sample_tree = [(js ''a'', \<lparr>al_parent = None\<rparr>), (js ''b'', \<lparr>al_parent = Some (js ''a'')\<rparr>),
     (js ''c'', \<lparr>al_parent = Some (js ''b'')\<rparr>), (js ''d'', \<lparr>al_parent = Some (js ''a'')\<rparr>)]"

lemma sample_tree_grown: "grown sample_tree"
proof -
  have "grown ([] @ [(js ''a'', \<lparr>al_parent = None\<rparr>)])" by (rule grown_spawn [OF grown_empty]) auto
  from grown_spawn [OF this, of "js ''b''" "\<lparr>al_parent = Some (js ''a'')\<rparr>"]
  have "grown ([(js ''a'', \<lparr>al_parent = None\<rparr>)] @ [(js ''b'', \<lparr>al_parent = Some (js ''a'')\<rparr>)])" by simp
  from grown_spawn [OF this, of "js ''c''" "\<lparr>al_parent = Some (js ''b'')\<rparr>"]
  have "grown (([(js ''a'', \<lparr>al_parent = None\<rparr>)] @ [(js ''b'', \<lparr>al_parent = Some (js ''a'')\<rparr>)]) @ [(js ''c'', \<lparr>al_parent = Some (js ''b'')\<rparr>)])"
    by simp
  from grown_spawn [OF this, of "js ''d''" "\<lparr>al_parent = Some (js ''a'')\<rparr>"] show ?thesis
    by (simp add: sample_tree_def)
qed

lemma authority_follows_tree_witness:
  "check_control sample_tree (\<lambda>_. False) (js ''a'') (js ''c'') = Inr () \<and> (js ''c'', js ''a'') \<in> (parent_rel sample_tree)\<^sup>+"
proof -
  have "is_descendant sample_tree (js ''a'') (js ''c'')"
    by (simp add: is_descendant_def sample_tree_def parent_of_def)
  then have "check_control sample_tree (\<lambda>_. False) (js ''a'') (js ''c'') = Inr ()"
    by (simp add: check_control_def is_governor_def)
  then show ?thesis
    using authority_follows_tree [OF sample_tree_grown, of "js ''a''" "js ''c''" "\<lambda>_. False"]
    by (simp add: is_governor_def) (simp add: sample_tree_def)
qed

lemma subtree_is_complete_witness:
  "set (subtree_of sample_tree (js ''b'')) = {x. (x, js ''b'') \<in> (parent_rel sample_tree)\<^sup>*}"
  using subtree_is_complete [OF sample_tree_grown, of "js ''b''"] by (simp add: sample_tree_def)

end
