(* ===== verification/Waits.thy ===== *)
theory Waits
  imports AgentTree Notices Effect
begin

text \<open>
  The messaging part of \<open>ponygirls-subagents/src/supervisor.ts\<close>: its state, the publication of
  journal records, and waiting (\<open>wait\<close>, \<open>waitResult\<close>, \<open>inbox\<close>, \<open>relevantRecords\<close>,
  \<open>checkWaitSatisfied\<close>, \<open>eventRelevant\<close>, \<open>evaluateWaiters\<close>, \<open>cancelCallerWaits\<close>,
  \<open>sweepExpiredQuestions\<close>). A method runs from its call to its first suspension as one effect.
  \<open>randomUUID\<close> is the next of \<open>se_uuid\<close>, \<open>toISOString\<close> is \<open>se_iso\<close>, a deadline is kept as the
  instant it names; texts shown to users (\<open>detail\<close>, \<open>summary\<close>) are left out.
\<close>

section \<open>State\<close>

datatype message_mode = Note | Steer | Task

datatype observed = Obs_queued | Obs_starting | Obs_running | Obs_awaiting_parent | Obs_settled | Obs_lost

datatype agent_phase =
  Phase_working | Phase_candidate_recording | Phase_review_queued | Phase_reviewing | Phase_repair_queued | Phase_terminal

record active_run =
  rn_task :: jstring
  rn_generation :: int
  rn_interrupted :: bool

record queued_task =
  qt_id :: jstring
  qt_message :: jstring
  qt_text :: jstring
  qt_dispatched :: bool

record sup_agent = agent_link +
  ag_closed :: bool
  ag_observed :: observed
  ag_current :: "jstring option"
  ag_generation :: int
  ag_phase :: agent_phase
  ag_run :: "active_run option"
  ag_queue :: "queued_task list"
  ag_pending_tasks :: "jstring list"
  ag_pending_messages :: "jstring list"
  ag_worker :: bool
  ag_held :: bool
  ag_quarantined :: bool
  ag_parked :: bool
  ag_joining :: bool
  ag_last_text :: "(jstring \<times> jstring) option"

record mailbox_message =
  mm_from :: jstring
  mm_to :: jstring
  mm_mode :: message_mode
  mm_text :: jstring
  mm_task :: "jstring option"
  mm_generation :: "int option"
  mm_request_reply :: bool
  mm_reply_to :: "jstring option"
  mm_seq :: int
  mm_replied :: bool

record pending_question =
  pq_from :: jstring
  pq_to :: jstring
  pq_text :: jstring
  pq_deadline :: int
  pq_answered :: bool
  pq_cancelled :: bool

datatype wait_condition = Activity | Any_settled | All_settled

record wait_reg =
  wt_caller :: jstring
  wt_cursor :: int
  wt_targets :: "(jstring \<times> jstring option) list option"
  wt_condition :: wait_condition
  wt_joins :: "jstring list"
  wt_token :: jstring

datatype wait_reason = R_events | R_settled | R_timeout | R_needs_response | R_storage_failed | R_input | R_cancelled

record wait_message =
  wm_id :: js_value
  wm_from :: js_value
  wm_mode :: js_value
  wm_text :: jstring
  wm_request_reply :: bool
  wm_reply_to :: js_value

record event_view =
  ev_seq :: int
  ev_kind :: jstring
  ev_agent :: js_value
  ev_task :: js_value
  ev_at :: js_value

record wait_result =
  wr_completed :: bool
  wr_reason :: wait_reason
  wr_events :: "event_view list"
  wr_messages :: "wait_message list"
  wr_cursor :: int
  wr_joins :: "jstring list"
  wr_token :: jstring
  wr_failure :: "store_failure option"

text \<open>
  Calls into the parts that are not modelled: a message handed to an agent's worker, a queue to
  dispatch from, an owner to resume after one of its descendants.
\<close>

datatype outgoing_call = Deliver_message jstring jstring "jstring option" int | Dispatch_queued jstring | Resume_owner jstring

record sup_state =
  su_store :: run_store
  su_agents :: "unit sup_agent_ext agent_map"
  su_reviewers :: "jstring list"
  su_gates :: "(jstring \<times> (jstring \<times> jstring list)) list"
  su_messages :: "(jstring \<times> mailbox_message) list"
  su_questions :: "(jstring \<times> pending_question) list"
  su_terminal :: "(jstring \<times> (jstring \<times> jstring)) list"
  su_pending_settle :: "(jstring \<times> (jstring \<times> jstring \<times> jstring)) list"
  su_pending_lost :: "jstring list"
  su_suspended :: bool
  su_debt :: bool
  su_waiters :: "(nat \<times> wait_reg) list"
  su_results :: "(nat \<times> wait_result) list"
  su_next_wait :: nat
  su_ids :: nat
  su_now :: int
  su_outbox :: "outgoing_call list"

record sup_env =
  se_sha :: "nat list \<Rightarrow> jstring"
  se_nt :: "js_num \<Rightarrow> jstring"
  se_uuid :: "nat \<Rightarrow> jstring"
  se_iso :: "int \<Rightarrow> jstring"
  se_question_ttl :: int

type_synonym 'x sup_eff = "(sup_state, error_code, 'x) eff"

definition agent_of :: "sup_state \<Rightarrow> jstring \<Rightarrow> sup_agent option" where
  "agent_of s i = map_of (su_agents s) i"

definition upd_agent :: "jstring \<Rightarrow> (sup_agent \<Rightarrow> sup_agent) \<Rightarrow> sup_state \<Rightarrow> sup_state" where
  "upd_agent i f s = s\<lparr>su_agents := map (\<lambda>(j, r). (j, if j = i then f r else r)) (su_agents s)\<rparr>"

definition managed_reviewer :: "sup_state \<Rightarrow> jstring \<Rightarrow> bool" where
  "managed_reviewer s i \<longleftrightarrow> i \<in> set (su_reviewers s)"

definition storage_failure :: "sup_state \<Rightarrow> store_failure option" where
  "storage_failure s = rs_failure (su_store s)"

text \<open>\<open>admissionHoldError\<close>; \<open>su_debt\<close> is uncommitted billing or an undelivered fault receipt.\<close>

definition admission_held :: "sup_state \<Rightarrow> bool" where
  "admission_held s \<longleftrightarrow> storage_failure s \<noteq> None \<or> su_suspended s \<or> su_debt s"

definition fresh_uuid :: "sup_env \<Rightarrow> jstring sup_eff" where
  "fresh_uuid env s = (Inr (se_uuid env (su_ids s)), s\<lparr>su_ids := Suc (su_ids s)\<rparr>)"

section \<open>Reading the journal for a caller\<close>

definition WAIT_EVENT_LIMIT :: nat where
  "WAIT_EVENT_LIMIT = 50"

definition WAIT_MESSAGE_LIMIT :: nat where
  "WAIT_MESSAGE_LIMIT = 20"

definition material_events :: "jstring list" where
  "material_events = [js ''task.terminal'', js ''generation.settled'', js ''mailbox.accepted'', js ''mailbox.answered'',
     js ''mailbox.question_expired'', js ''agent.closed'', js ''agent.interrupted'', js ''gate.decision'',
     js ''gate.review_failed'', js ''task.phase'']"

definition view_of_record :: "journal_record \<Rightarrow> event_view" where
  "view_of_record r =
     \<lparr>ev_seq = j_seq r, ev_kind = j_kind r, ev_agent = nullish (field (j_body r) (js ''agentId'')) JNull,
      ev_task = nullish (field (j_body r) (js ''taskRunId'')) JNull, ev_at = j_at r\<rparr>"

definition addressed :: "jstring \<Rightarrow> journal_record \<Rightarrow> bool" where
  "addressed caller r \<longleftrightarrow>
     j_kind r = js ''mailbox.accepted'' \<and> field (j_body r) (js ''to'') = JStr (author_of caller) \<and>
     text_of (field (j_body r) (js ''text'')) \<noteq> None"

definition message_of :: "journal_record \<Rightarrow> wait_message" where
  "message_of r =
     (let b = j_body r in
      \<lparr>wm_id = field b (js ''messageId''), wm_from = field b (js ''from''), wm_mode = field b (js ''mode''),
       wm_text = take 4000 (the (text_of (field b (js ''text'')))),
       wm_request_reply = (field b (js ''requestReply'') = JBool True), wm_reply_to = nullish (field b (js ''replyTo'')) JNull\<rparr>)"

fun inbox_loop :: "jstring \<Rightarrow> int \<Rightarrow> journal_record list \<Rightarrow> wait_message list \<Rightarrow> int \<Rightarrow> wait_message list \<times> bool \<times> int" where
  "inbox_loop caller bound [] out last_seq = (out, False, last_seq)"
| "inbox_loop caller bound (r # rs) out last_seq =
     (if j_seq r > bound then (out, False, last_seq)
      else if \<not> addressed caller r then inbox_loop caller bound rs out last_seq
      else if length out \<ge> WAIT_MESSAGE_LIMIT then (out, True, last_seq)
      else inbox_loop caller bound rs (out @ [message_of r]) (j_seq r))"

definition inbox :: "run_store \<Rightarrow> jstring \<Rightarrow> int \<Rightarrow> int \<Rightarrow> wait_message list \<times> bool \<times> int" where
  "inbox store caller after bound = inbox_loop caller bound (fst (read_since store after max_safe)) [] after"

text \<open>\<open>eventRelevant\<close>: targeted waits follow their targets, others see what the caller may see.\<close>

definition target_concerned :: "js_value \<Rightarrow> jstring \<times> jstring option \<Rightarrow> bool" where
  "target_concerned b t =
     (case t of (agent, run) \<Rightarrow>
        (case run of
           None \<Rightarrow> True
         | Some i \<Rightarrow> JStr i = field b (js ''taskRunId'') \<or>
             field b (js ''from'') = JStr agent \<and> JStr i = field b (js ''fromTaskRunId'')) \<and>
        (field b (js ''agentId'') = JStr agent \<or> field b (js ''from'') = JStr agent \<or> field b (js ''to'') = JStr agent))"

definition event_relevant :: "sup_state \<Rightarrow> wait_reg \<Rightarrow> journal_record \<Rightarrow> bool" where
  "event_relevant s w r =
     (let b = j_body r in
      case wt_targets w of
        Some ts \<Rightarrow> list_ex (target_concerned b) ts
      | None \<Rightarrow>
          if is_governor (wt_caller w) \<or> field b (js ''to'') = JStr (wt_caller w) then True
          else case text_of (field b (js ''agentId'')) of
                 None \<Rightarrow> False
               | Some i \<Rightarrow> i \<noteq> wt_caller w \<and> agent_of s i \<noteq> None \<and> visible_to (su_agents s) (wt_caller w) i)"

definition relevant_records :: "sup_state \<Rightarrow> wait_reg \<Rightarrow> journal_record list" where
  "relevant_records s w = filter (event_relevant s w) (fst (read_since (su_store s) (wt_cursor w) max_safe))"

definition reported_records :: "wait_reg \<Rightarrow> journal_record list \<Rightarrow> journal_record list" where
  "reported_records w relevant =
     (if wt_condition w = Activity then relevant else filter (\<lambda>r. j_kind r \<in> set material_events) relevant)"

definition wait_result_of :: "sup_state \<Rightarrow> wait_reg \<Rightarrow> bool \<Rightarrow> wait_reason \<Rightarrow> journal_record list \<Rightarrow> wait_result" where
  "wait_result_of s w completed reason relevant =
     (let reported = reported_records w relevant;
          cursor = (if length reported > WAIT_EVENT_LIMIT then j_seq (reported ! (WAIT_EVENT_LIMIT - 1))
                    else max (wt_cursor w) (int (rs_seq (su_store s))))
      in case inbox (su_store s) (wt_caller w) (wt_cursor w) cursor of (messages, truncated, last_seq) \<Rightarrow>
         let cursor = (if truncated then last_seq else cursor);
             page = take WAIT_EVENT_LIMIT (filter (\<lambda>r. j_seq r \<le> cursor) reported)
         in \<lparr>wr_completed = completed, wr_reason = reason, wr_events = map view_of_record page, wr_messages = messages,
             wr_cursor = cursor, wr_joins = wt_joins w, wr_token = wt_token w, wr_failure = storage_failure s\<rparr>)"

section \<open>When a wait ends\<close>

definition open_question :: "sup_state \<Rightarrow> jstring \<Rightarrow> bool" where
  "open_question s addressee \<longleftrightarrow>
     list_ex (\<lambda>(i, q). \<not> pq_answered q \<and> \<not> pq_cancelled q \<and> pq_to q = addressee \<and> pq_deadline q > su_now s) (su_questions s)"

definition joins_done :: "sup_state \<Rightarrow> wait_reg \<Rightarrow> bool" where
  "joins_done s w =
     (let done_runs = filter (\<lambda>i. map_of (su_terminal s) i \<noteq> None) (wt_joins w)
      in length (wt_joins w) = 0 \<or>
         (if wt_condition w = Any_settled then length done_runs > 0 else length done_runs = length (wt_joins w)))"

definition check_wait_satisfied :: "sup_state \<Rightarrow> wait_reg \<Rightarrow> wait_result option" where
  "check_wait_satisfied s w =
     (let relevant = relevant_records s w in
      if storage_failure s \<noteq> None then Some (wait_result_of s w False R_storage_failed relevant)
      else if wt_condition w = Activity then
        (if length relevant > 0 then Some (wait_result_of s w True R_events relevant) else None)
      else if open_question s (author_of (wt_caller w)) then Some (wait_result_of s w False R_needs_response relevant)
      else if joins_done s w then Some (wait_result_of s w True R_settled relevant)
      else None)"

text \<open>\<open>waiter.resolve\<close>: a wait leaves the list and its promise is settled, once.\<close>

definition resolve_wait :: "nat \<Rightarrow> wait_result \<Rightarrow> sup_state \<Rightarrow> sup_state" where
  "resolve_wait i res s =
     (if map_of (su_waiters s) i = None then s
      else s\<lparr>su_waiters := map_del i (su_waiters s), su_results := su_results s @ [(i, res)]\<rparr>)"

definition evaluate_waiter :: "nat \<times> wait_reg \<Rightarrow> sup_state \<Rightarrow> sup_state" where
  "evaluate_waiter iw s =
     (case iw of (i, w) \<Rightarrow> case check_wait_satisfied s w of Some res \<Rightarrow> resolve_wait i res s | None \<Rightarrow> s)"

definition evaluate_waiters :: "sup_state \<Rightarrow> sup_state" where
  "evaluate_waiters s = fold evaluate_waiter (su_waiters s) s"

section \<open>Publication\<close>

text \<open>\<open>store.append\<close>; the first failure notifies through the listener registered on construction.\<close>

definition su_append :: "sup_env \<Rightarrow> jstring \<Rightarrow> js_value \<Rightarrow> journal_record sup_eff" where
  "su_append env kind body s =
     (case run_append (se_sha env) (se_nt env) kind body (su_store s) of
        (Inr r, st) \<Rightarrow> (Inr r, s\<lparr>su_store := st\<rparr>)
      | (Inl e, st) \<Rightarrow>
          (Inl STORE_FAILED,
           if rs_notified st = rs_notified (su_store s) then s\<lparr>su_store := st\<rparr> else evaluate_waiters (s\<lparr>su_store := st\<rparr>)))"

definition publish :: "sup_env \<Rightarrow> jstring \<Rightarrow> js_value \<Rightarrow> journal_record sup_eff" where
  "publish env kind body = ebind (su_append env kind body) (\<lambda>r. ethen (emod evaluate_waiters) (eret r))"

section \<open>Expired questions\<close>

definition resume_asker :: "sup_agent \<Rightarrow> sup_agent" where
  "resume_asker a =
     (if ag_observed a = Obs_awaiting_parent
      then a\<lparr>ag_observed := (if ag_run a \<noteq> None then Obs_running else Obs_settled)\<rparr> else a)"

definition upd_question :: "jstring \<Rightarrow> (pending_question \<Rightarrow> pending_question) \<Rightarrow> sup_state \<Rightarrow> sup_state" where
  "upd_question i f s = s\<lparr>su_questions := map (\<lambda>(j, q). (j, if j = i then f q else q)) (su_questions s)\<rparr>"

fun sweep_loop :: "sup_env \<Rightarrow> (jstring \<times> pending_question) list \<Rightarrow> unit sup_eff" where
  "sweep_loop env [] s = (Inr (), s)"
| "sweep_loop env ((i, q) # qs) s =
     (if pq_answered q \<or> pq_cancelled q \<or> pq_deadline q > su_now s then sweep_loop env qs s
      else case su_append env (js ''mailbox.question_expired'')
                (JObj [(js ''messageId'', JStr i), (js ''agentId'', JStr (pq_from q)), (js ''to'', JStr (pq_to q))]) s of
        (Inl e, s) \<Rightarrow> if storage_failure s \<noteq> None then (Inr (), s) else (Inl e, s)
      | (Inr r, s) \<Rightarrow>
          sweep_loop env qs (evaluate_waiters (upd_agent (pq_from q) resume_asker
            (upd_question i (\<lambda>q. q\<lparr>pq_cancelled := True\<rparr>) s))))"

definition sweep_expired_questions :: "sup_env \<Rightarrow> unit sup_eff" where
  "sweep_expired_questions env s =
     (if storage_failure s \<noteq> None then (Inr (), s) else sweep_loop env (su_questions s) s)"

section \<open>Waiting\<close>

definition parse_condition :: "jstring \<Rightarrow> wait_condition option" where
  "parse_condition c =
     (if c = js ''activity'' then Some Activity else if c = js ''any_settled'' then Some Any_settled
      else if c = js ''all_settled'' then Some All_settled else None)"

text \<open>The task run of a target must be one of the agent's.\<close>

definition belongs_to :: "sup_state \<Rightarrow> jstring \<Rightarrow> sup_agent \<Rightarrow> jstring \<Rightarrow> bool" where
  "belongs_to s agent a run \<longleftrightarrow>
     ag_current a = Some run \<or> list_ex (\<lambda>q. qt_id q = run) (ag_queue a) \<or>
     (case map_of (su_terminal s) run of Some (owner, _) \<Rightarrow> owner = agent | None \<Rightarrow> False) \<or>
     (case map_of (su_pending_settle s) run of Some (owner, _) \<Rightarrow> owner = agent | None \<Rightarrow> False) \<or>
     (case map_of (su_gates s) run of Some (main, reviewers) \<Rightarrow> main = agent \<or> agent \<in> set reviewers | None \<Rightarrow> False)"

fun join_targets :: "sup_state \<Rightarrow> jstring \<Rightarrow> (jstring \<times> jstring option) list \<Rightarrow> error_code + jstring list" where
  "join_targets s caller [] = Inr []"
| "join_targets s caller ((agent, run) # ts) =
     (case agent_of s agent of
        None \<Rightarrow> Inl NOT_FOUND
      | Some a \<Rightarrow>
          if \<not> visible_to (su_agents s) caller agent then Inl FORBIDDEN
          else case (case run of Some i \<Rightarrow> Some i | None \<Rightarrow> ag_current a) of
                 None \<Rightarrow> join_targets s caller ts
               | Some i \<Rightarrow>
                   if \<not> belongs_to s agent a i then Inl NOT_FOUND
                   else and_then (join_targets s caller ts) (\<lambda>is. Inr (i # is)))"

text \<open>A wait without targets joins every unfinished run the caller can see.\<close>

definition unfinished_runs :: "sup_state \<Rightarrow> jstring \<Rightarrow> jstring list" where
  "unfinished_runs s caller =
     List.map_filter (\<lambda>(i, a).
       if i = caller \<or> managed_reviewer s i \<or> \<not> visible_to (su_agents s) caller i then None
       else case ag_current a of
              None \<Rightarrow> None
            | Some run \<Rightarrow> if run \<noteq> [] \<and> map_of (su_terminal s) run = None \<and> \<not> ag_closed a then Some run else None)
       (su_agents s)"

definition wait_call ::
  "sup_env \<Rightarrow> jstring \<Rightarrow> int \<Rightarrow> (jstring \<times> jstring option) list option \<Rightarrow> jstring \<Rightarrow> nat sup_eff" where
  "wait_call env caller cursor targets0 condition s =
     (case parse_condition condition of
        None \<Rightarrow> (Inl INVALID, s)
      | Some cond \<Rightarrow>
          let targets = (if targets0 = Some [] then None else targets0) in
          case join_targets s caller (case targets of Some ts \<Rightarrow> ts | None \<Rightarrow> []) of
            Inl e \<Rightarrow> (Inl e, s)
          | Inr named \<Rightarrow>
              let joins = (if targets = None \<and> cond \<noteq> Activity then named @ unfinished_runs s caller else named) in
              ebind (ethen (sweep_expired_questions env) (fresh_uuid env)) (\<lambda>token s.
                let w = \<lparr>wt_caller = caller, wt_cursor = cursor, wt_targets = targets, wt_condition = cond,
                         wt_joins = joins, wt_token = token\<rparr>;
                    i = su_next_wait s;
                    s = s\<lparr>su_next_wait := Suc i, su_waiters := su_waiters s @ [(i, w)]\<rparr>
                in (Inr i, case check_wait_satisfied s w of Some res \<Rightarrow> resolve_wait i res s | None \<Rightarrow> s)) s)"

text \<open>The timer of a wait, and what cancels the waits of a caller.\<close>

definition wait_times_out :: "nat \<Rightarrow> sup_state \<Rightarrow> sup_state" where
  "wait_times_out i s =
     (case map_of (su_waiters s) i of
        None \<Rightarrow> s
      | Some w \<Rightarrow> resolve_wait i (wait_result_of s w False R_timeout (relevant_records s w)) s)"

definition cancel_caller_waits :: "jstring \<Rightarrow> sup_state \<Rightarrow> sup_state" where
  "cancel_caller_waits caller s =
     fold (\<lambda>(i, w) s. if wt_caller w = caller
         then resolve_wait i (wait_result_of s w False R_input (relevant_records s w)) s else s) (su_waiters s) s"

section \<open>Ending a task run\<close>

definition PREVIEW_MAX :: nat where
  "PREVIEW_MAX = 2000"

definition preview_of :: "sup_state \<Rightarrow> jstring \<Rightarrow> jstring \<Rightarrow> jstring" where
  "preview_of s i run =
     (case agent_of s i of
        None \<Rightarrow> []
      | Some a \<Rightarrow> (case ag_last_text a of
          Some (owner, text) \<Rightarrow> if owner = run then take PREVIEW_MAX text else []
        | None \<Rightarrow> []))"

definition ended_agent :: "jstring \<Rightarrow> sup_agent \<Rightarrow> sup_agent" where
  "ended_agent run a =
     (let a = (if ag_current a = Some run
               then a\<lparr>ag_phase := Phase_terminal, ag_observed := (if ag_run a = None then Obs_settled else ag_observed a)\<rparr>
               else a)
      in a\<lparr>ag_queue := filter (\<lambda>q. qt_id q \<noteq> run) (ag_queue a)\<rparr>)"

text \<open>\<open>settleTaskTerminal\<close>: a task run gets one terminal outcome.\<close>

definition settle_task_terminal :: "sup_env \<Rightarrow> jstring \<Rightarrow> jstring \<Rightarrow> jstring \<Rightarrow> jstring \<Rightarrow> unit sup_eff" where
  "settle_task_terminal env i run outcome detail s =
     (if map_of (su_terminal s) run \<noteq> None then (Inr (), s)
      else ethen (emod (\<lambda>s. s\<lparr>su_pending_settle := map_put run (i, outcome, detail) (su_pending_settle s)\<rparr>))
        (ethen (su_append env (js ''task.terminal'')
            (JObj [(js ''agentId'', JStr i), (js ''taskRunId'', JStr run), (js ''outcome'', JStr outcome),
               (js ''preview'', JStr (preview_of s i run)), (js ''detail'', JStr (take PREVIEW_MAX detail))]))
          (emod (\<lambda>s.
            let s = upd_agent i (ended_agent run)
                  (s\<lparr>su_terminal := map_put run (i, outcome) (su_terminal s), su_pending_settle := map_del run (su_pending_settle s)\<rparr>);
                s = evaluate_waiters s
            in s\<lparr>su_outbox := su_outbox s @ [Dispatch_queued i, Resume_owner i]\<rparr>))) s)"

end
