(* ===== verification/WaitSafety.thy ===== *)
theory WaitSafety
  imports Waits "HOL-Library.Sublist"
begin

text \<open>
  What a caller of \<open>wait\<close> is told: the messages and events of a wait that starts at the cursor
  of the one before are exactly those of the journal between the two cursors.
\<close>

section \<open>Segments of a numbered journal\<close>

definition seqs_from :: "int \<Rightarrow> journal_record list \<Rightarrow> bool" where
  "seqs_from c rs \<longleftrightarrow> (\<forall>i<length rs. j_seq (rs ! i) = c + int i + 1)"

lemma seqs_from_Cons [simp]: "seqs_from c (r # rs) \<longleftrightarrow> j_seq r = c + 1 \<and> seqs_from (c + 1) rs"
  by (auto simp: seqs_from_def nth_Cons less_Suc_eq_0_disj split: nat.splits)

lemma seqs_from_Nil [simp]: "seqs_from c []"
  by (simp add: seqs_from_def)






section \<open>The inbox\<close>










section \<open>The result of a wait\<close>





section \<open>Waiting again and again\<close>





section \<open>Properties\<close>


section \<open>Witness\<close>








end
