(* ===== verification/Mailbox.thy ===== *)
theory Mailbox
  imports WaitSafety
begin

text \<open>
  Messages and questions of \<open>ponygirls-subagents/src/supervisor.ts\<close>: \<open>sendMessage\<close> (calls without
  a model override), \<open>answerQuestion\<close>, \<open>deliverMessage\<close>, \<open>preemptForQuestion\<close>,
  \<open>pendingQuestions\<close> and the mailbox records of \<open>replayJournal\<close>. What a queued task starts
  (\<open>pumpQueue\<close>, \<open>loadForQueue\<close>) and what a worker answers are not modelled: both are entries of
  \<open>su_outbox\<close>.
\<close>

section \<open>Commands already accepted\<close>

definition su_load_command :: "sup_state \<Rightarrow> jstring \<Rightarrow> journal_record option" where
  "su_load_command s request = load_command (su_store s) request"

text \<open>\<open>store.recordCommand\<close>.\<close>

definition su_record_command :: "sup_env \<Rightarrow> jstring \<Rightarrow> journal_record \<Rightarrow> unit sup_eff" where
  "su_record_command env request r s =
     (case record_command (se_sha env) (se_nt env) request r (su_store s) of
        (Inr u, st) \<Rightarrow> (Inr u, s\<lparr>su_store := st\<rparr>)
      | (Inl e, st) \<Rightarrow>
          (Inl STORE_FAILED,
           if rs_notified st = rs_notified (su_store s) then s\<lparr>su_store := st\<rparr> else evaluate_waiters (s\<lparr>su_store := st\<rparr>)))"

definition payload_digest :: "sup_env \<Rightarrow> js_value \<Rightarrow> jstring" where
  "payload_digest env v = take 32 (se_sha env (utf8_encode (json_text (se_nt env) v)))"

definition MESSAGE_TEXT_MAX :: nat where
  "MESSAGE_TEXT_MAX = 65536"

definition opt_text :: "jstring option \<Rightarrow> js_value" where
  "opt_text t = (case t of None \<Rightarrow> JNull | Some x \<Rightarrow> JStr x)"

definition parse_mode :: "jstring \<Rightarrow> message_mode option" where
  "parse_mode m =
     (if m = js ''note'' then Some Note else if m = js ''steer'' then Some Steer else if m = js ''task'' then Some Task else None)"

section \<open>Delivery\<close>

definition deliver_message :: "jstring \<Rightarrow> jstring \<Rightarrow> sup_state \<Rightarrow> sup_state" where
  "deliver_message i message s =
     (case agent_of s i of
        None \<Rightarrow> s
      | Some a \<Rightarrow>
          if \<not> ag_worker a then s
          else s\<lparr>su_outbox := su_outbox s @
            [Deliver_message i message (case ag_run a of Some run \<Rightarrow> Some (rn_task run) | None \<Rightarrow> ag_current a)
              (case ag_run a of Some run \<Rightarrow> rn_generation run | None \<Rightarrow> ag_generation a)]\<rparr>)"

text \<open>A question ends its addressee's waits for settlement.\<close>

definition preempt_for_question :: "jstring \<Rightarrow> sup_state \<Rightarrow> sup_state" where
  "preempt_for_question addressee s =
     fold (\<lambda>(i, w) s.
       if (wt_caller w = addressee \<or> addressee = js ''governor'' \<and> is_governor (wt_caller w)) \<and> wt_condition w \<noteq> Activity
       then resolve_wait i (wait_result_of s w False R_needs_response (relevant_records s w)) s else s) (su_waiters s) s"

section \<open>Answering\<close>

definition current_task_of :: "sup_state \<Rightarrow> jstring \<Rightarrow> jstring option" where
  "current_task_of s i = (case agent_of s i of Some a \<Rightarrow> ag_current a | None \<Rightarrow> None)"

definition sender_task :: "sup_state \<Rightarrow> jstring \<Rightarrow> js_value" where
  "sender_task s sender = (if sender = js ''governor'' then JNull else opt_text (current_task_of s sender))"

definition answer_body :: "sup_state \<Rightarrow> jstring \<Rightarrow> jstring \<Rightarrow> jstring \<Rightarrow> jstring \<Rightarrow> jstring \<Rightarrow> jstring \<Rightarrow> js_value" where
  "answer_body s message sender addressee text reply_to request =
     JObj [(js ''messageId'', JStr message), (js ''agentId'', JStr addressee), (js ''from'', JStr sender),
       (js ''fromTaskRunId'', sender_task s sender), (js ''to'', JStr addressee), (js ''mode'', JStr (js ''note'')),
       (js ''text'', JStr text), (js ''replyTo'', JStr reply_to), (js ''taskRunId'', JNull), (js ''requestId'', JStr request)]"

definition new_note :: "jstring \<Rightarrow> jstring \<Rightarrow> jstring \<Rightarrow> jstring \<Rightarrow> int \<Rightarrow> mailbox_message" where
  "new_note sender addressee text reply_to seq =
     \<lparr>mm_from = sender, mm_to = addressee, mm_mode = Note, mm_text = text, mm_task = None, mm_generation = None,
      mm_request_reply = False, mm_reply_to = Some reply_to, mm_seq = seq, mm_replied = False\<rparr>"

definition mark_replied :: "jstring \<Rightarrow> sup_state \<Rightarrow> sup_state" where
  "mark_replied i s = s\<lparr>su_messages := map (\<lambda>(j, m). (j, if j = i then m\<lparr>mm_replied := True\<rparr> else m)) (su_messages s)\<rparr>"

definition answer_question :: "sup_env \<Rightarrow> jstring \<Rightarrow> jstring \<Rightarrow> jstring \<Rightarrow> jstring \<Rightarrow> jstring \<Rightarrow> (jstring \<times> jstring option) sup_eff" where
  "answer_question env caller sender reply_to text request s =
     (case map_of (su_questions s) reply_to of
        None \<Rightarrow> (Inl NOT_FOUND, s)
      | Some q \<Rightarrow>
          if pq_answered q \<or> pq_cancelled q then (Inl NOT_FOUND, s)
          else if pq_to q \<noteq> sender \<and> \<not> is_governor caller then (Inl FORBIDDEN, s)
          else if su_load_command s request \<noteq> None then (Inl DUPLICATE_REQUEST, s)
          else ebind (ethen (emod (upd_question reply_to (\<lambda>q. q\<lparr>pq_answered := True\<rparr>))) (fresh_uuid env)) (\<lambda>message.
            ebind (\<lambda>s. publish env (js ''mailbox.accepted'') (answer_body s message sender (pq_from q) text reply_to request) s) (\<lambda>accepted.
            ethen (emod (\<lambda>s. mark_replied reply_to
                (s\<lparr>su_messages := map_put message (new_note sender (pq_from q) text reply_to (j_seq accepted)) (su_messages s)\<rparr>)))
            (ethen (publish env (js ''mailbox.answered'')
                (JObj [(js ''messageId'', JStr message), (js ''replyTo'', JStr reply_to), (js ''agentId'', JStr (pq_from q))]))
            (ethen (su_record_command env request accepted)
            (ethen (emod (deliver_message (pq_from q) message \<circ>
                upd_agent (pq_from q) (\<lambda>a. resume_asker (a\<lparr>ag_pending_messages := ag_pending_messages a @ [message]\<rparr>))))
              (eret (message, None))))))) s)"

section \<open>Sending\<close>

definition phase_locked :: "sup_state \<Rightarrow> jstring \<Rightarrow> sup_agent \<Rightarrow> bool" where
  "phase_locked s i a \<longleftrightarrow>
     ag_joining a \<or> i \<in> set (map (fst \<circ> snd) (su_pending_settle s)) \<or>
     ag_phase a \<in> {Phase_candidate_recording, Phase_review_queued, Phase_reviewing, Phase_repair_queued}"

record send_request =
  sr_caller :: jstring
  sr_target :: jstring
  sr_mode :: jstring
  sr_text :: jstring
  sr_request_reply :: "bool option"
  sr_reply_to :: "jstring option"
  sr_request :: jstring

text \<open>What the request id is bound to: \<open>payloadDigest({caller, to, mode, text, opts})\<close>.\<close>

definition send_payload :: "send_request \<Rightarrow> jstring \<Rightarrow> js_value" where
  "send_payload q addressee =
     JObj [(js ''caller'', JStr (sr_caller q)), (js ''to'', JStr addressee), (js ''mode'', JStr (sr_mode q)),
       (js ''text'', JStr (sr_text q)),
       (js ''opts'', JObj (case sr_request_reply q of Some b \<Rightarrow> [(js ''requestReply'', JBool b)] | None \<Rightarrow> []))]"

definition asks_reply :: "send_request \<Rightarrow> bool" where
  "asks_reply q \<longleftrightarrow> sr_request_reply q = Some True"

text \<open>The checks of the request itself, before the journal is asked.\<close>

definition check_send :: "sup_state \<Rightarrow> send_request \<Rightarrow> error_code + message_mode \<times> jstring" where
  "check_send s q =
     (if asks_reply q \<and> sr_reply_to q \<noteq> None then Inl INVALID
      else case parse_mode (sr_mode q) of
        None \<Rightarrow> Inl INVALID
      | Some mode \<Rightarrow>
          if sr_text q = [] then Inl INVALID
          else if utf8_length (sr_text q) > MESSAGE_TEXT_MAX then Inl PAYLOAD_TOO_LARGE
          else and_then (resolve_target (su_agents s) (sr_caller q) (sr_target q)) (\<lambda>addressee.
            and_then (check_route (su_agents s) (managed_reviewer s) (sr_caller q) (author_of (sr_caller q)) addressee) (\<lambda>_.
              Inr (mode, addressee))))"

text \<open>The state of the target.\<close>

definition check_recipient :: "sup_state \<Rightarrow> message_mode \<Rightarrow> jstring \<Rightarrow> error_code + unit" where
  "check_recipient s mode addressee =
     (if addressee = js ''governor'' then require (mode = Note) INVALID
      else case agent_of s addressee of
        None \<Rightarrow> Inr ()
      | Some a \<Rightarrow>
          if ag_closed a then Inl CLOSED
          else if mode = Steer \<and> (ag_run a = None \<or> ag_observed a \<noteq> Obs_running) then Inl NOT_RUNNING
          else if mode = Task \<and> (addressee \<in> set (su_pending_lost s) \<or> ag_quarantined a) then Inl RECOVERY_OWNER_UNCONFIRMED
          else Inr ())"

text \<open>A request id that was used before: the same request is answered as before, another refused.\<close>

definition repeated_send :: "sup_env \<Rightarrow> send_request \<Rightarrow> jstring \<Rightarrow> journal_record \<Rightarrow> error_code + jstring \<times> jstring option" where
  "repeated_send env q addressee prior =
     (case (field (j_body prior) (js ''messageId'')) of
        JStr i \<Rightarrow>
          if j_kind prior = js ''mailbox.accepted'' \<and>
             field (j_body prior) (js ''digest'') = JStr (payload_digest env (send_payload q addressee))
          then Inr (i, text_of (field (j_body prior) (js ''taskRunId'')))
          else Inl DUPLICATE_REQUEST
      | _ \<Rightarrow> Inl DUPLICATE_REQUEST)"

definition accepted_body ::
  "sup_env \<Rightarrow> sup_state \<Rightarrow> send_request \<Rightarrow> jstring \<Rightarrow> jstring \<Rightarrow> jstring option \<Rightarrow> int option \<Rightarrow> js_value" where
  "accepted_body env s q addressee message run deadline =
     (let sender = author_of (sr_caller q) in
      JObj [(js ''messageId'', JStr message), (js ''agentId'', JStr (if sender = js ''governor'' then addressee else sender)),
        (js ''from'', JStr sender), (js ''fromTaskRunId'', sender_task s sender), (js ''to'', JStr addressee),
        (js ''mode'', JStr (sr_mode q)), (js ''text'', JStr (sr_text q)), (js ''taskRunId'', opt_text run),
        (js ''requestReply'', JBool (asks_reply q)), (js ''model'', JNull),
        (js ''deadlineAt'', case deadline of None \<Rightarrow> JUndef | Some d \<Rightarrow> JStr (se_iso env d)),
        (js ''requestId'', JStr (sr_request q)), (js ''digest'', JStr (payload_digest env (send_payload q addressee)))])"

definition sent_message :: "sup_state \<Rightarrow> send_request \<Rightarrow> message_mode \<Rightarrow> jstring \<Rightarrow> jstring option \<Rightarrow> int \<Rightarrow> mailbox_message" where
  "sent_message s q mode addressee run seq =
     \<lparr>mm_from = author_of (sr_caller q), mm_to = addressee, mm_mode = mode, mm_text = sr_text q, mm_task = run,
      mm_generation = (if mode = Task then None
        else case agent_of s addressee of
          Some a \<Rightarrow> map_option rn_generation (ag_run a) | None \<Rightarrow> None),
      mm_request_reply = asks_reply q, mm_reply_to = None, mm_seq = seq, mm_replied = False\<rparr>"

text \<open>What acceptance leaves in memory: the message, the queued task and the question.\<close>

definition queue_message :: "send_request \<Rightarrow> message_mode \<Rightarrow> jstring \<Rightarrow> jstring \<Rightarrow> jstring option \<Rightarrow> sup_state \<Rightarrow> sup_state" where
  "queue_message q mode addressee message run s =
     upd_agent addressee (\<lambda>a.
       (case (mode, run) of
          (Task, Some r) \<Rightarrow>
            a\<lparr>ag_pending_messages := ag_pending_messages a @ [message], ag_pending_tasks := ag_pending_tasks a @ [r],
              ag_queue := ag_queue a @ [\<lparr>qt_id = r, qt_message = message, qt_text = sr_text q, qt_dispatched = False\<rparr>]\<rparr>
        | _ \<Rightarrow> a\<lparr>ag_pending_messages := ag_pending_messages a @ [message]\<rparr>)) s"

definition open_new_question :: "send_request \<Rightarrow> jstring \<Rightarrow> jstring \<Rightarrow> int \<Rightarrow> sup_state \<Rightarrow> sup_state" where
  "open_new_question q addressee message deadline s =
     preempt_for_question addressee (upd_agent (author_of (sr_caller q)) (\<lambda>a. a\<lparr>ag_observed := Obs_awaiting_parent\<rparr>)
       (s\<lparr>su_questions := map_put message
          \<lparr>pq_from = author_of (sr_caller q), pq_to = addressee, pq_text = sr_text q, pq_deadline = deadline,
           pq_answered = False, pq_cancelled = False\<rparr> (su_questions s)\<rparr>))"

text \<open>The end of the handler: a task is journaled as queued and dispatched, a message delivered.\<close>

definition after_accept ::
  "sup_env \<Rightarrow> send_request \<Rightarrow> message_mode \<Rightarrow> jstring \<Rightarrow> jstring \<Rightarrow> jstring option \<Rightarrow> unit sup_eff" where
  "after_accept env q mode addressee message run s =
     (case agent_of s addressee of
        None \<Rightarrow> (Inr (), s)
      | Some a \<Rightarrow>
          if mode = Task then
            ethen (publish env (js ''task.queued'')
                (JObj [(js ''id'', opt_text run), (js ''agentId'', JStr addressee), (js ''messageId'', JStr message),
                   (js ''text'', JStr (sr_text q)), (js ''replaces'', JNull)]))
              (emod (\<lambda>s. let s = upd_agent addressee (\<lambda>a. a\<lparr>ag_held := False\<rparr>) s in
                 case agent_of s addressee of
                   None \<Rightarrow> s
                 | Some a \<Rightarrow>
                     if admission_held s \<or> ag_run a \<noteq> None \<or> ag_parked a \<or> phase_locked s addressee a then s
                     else s\<lparr>su_outbox := su_outbox s @ [Dispatch_queued addressee]\<rparr>)) s
          else if ag_worker a \<and> (mode = Note \<or> ag_run a \<noteq> None) then (Inr (), deliver_message addressee message s)
          else (Inr (), s))"

definition accept_message ::
  "sup_env \<Rightarrow> send_request \<Rightarrow> message_mode \<Rightarrow> jstring \<Rightarrow> (jstring \<times> jstring option) sup_eff" where
  "accept_message env q mode addressee =
     ebind (fresh_uuid env) (\<lambda>message.
     ebind (if mode = Task then ebind (fresh_uuid env) (\<lambda>i. eret (Some i)) else (\<lambda>s. (Inr (current_task_of s addressee), s))) (\<lambda>run s.
       let deadline = (if asks_reply q then Some (su_now s + se_question_ttl env) else None) in
       ebind (publish env (js ''mailbox.accepted'') (accepted_body env s q addressee message run deadline)) (\<lambda>accepted.
       ethen (emod (\<lambda>s'. (case deadline of None \<Rightarrow> (\<lambda>x. x) | Some d \<Rightarrow> open_new_question q addressee message d)
            (queue_message q mode addressee message run
              (s'\<lparr>su_messages := map_put message (sent_message s q mode addressee run (j_seq accepted)) (su_messages s')\<rparr>))))
       (ethen (su_record_command env (sr_request q) accepted)
       (ethen (after_accept env q mode addressee message run)
          (eret (message, run))))) s))"

definition send_message :: "sup_env \<Rightarrow> send_request \<Rightarrow> (jstring \<times> jstring option) sup_eff" where
  "send_message env q =
     ethen (sweep_expired_questions env) (\<lambda>s.
       case check_send s q of
         Inl e \<Rightarrow> (Inl e, s)
       | Inr (mode, addressee) \<Rightarrow>
           (case sr_reply_to q of
              Some question \<Rightarrow> answer_question env (sr_caller q) (author_of (sr_caller q)) question (sr_text q) (sr_request q) s
            | None \<Rightarrow>
                (case su_load_command s (sr_request q) of
                   Some prior \<Rightarrow> (repeated_send env q addressee prior, s)
                 | None \<Rightarrow>
                     (case check_recipient s mode addressee of
                        Inl e \<Rightarrow> (Inl e, s)
                      | Inr _ \<Rightarrow> accept_message env q mode addressee s))))"

section \<open>Reading and replaying\<close>

definition pending_questions :: "sup_env \<Rightarrow> jstring \<Rightarrow> (jstring \<times> pending_question) list sup_eff" where
  "pending_questions env caller = ethen (sweep_expired_questions env) (\<lambda>s.
     (Inr (filter (\<lambda>(i, q). \<not> pq_answered q \<and> \<not> pq_cancelled q \<and>
        (is_governor caller \<or> pq_from q = caller \<or> pq_to q = caller)) (su_questions s)), s))"

text \<open>
  The mailbox records of \<open>replayJournal\<close>; \<open>parse\<close> is \<open>Date.parse\<close>, and a message whose text
  fields are absent is replayed with the defaults of the code. The model a message switched its
  target to, and the receipts, are not part of the state.
\<close>

definition text_or :: "jstring \<Rightarrow> js_value \<Rightarrow> jstring" where
  "text_or d v = (case v of JStr t \<Rightarrow> t | _ \<Rightarrow> d)"

definition replayed_message :: "journal_record \<Rightarrow> mailbox_message" where
  "replayed_message r =
     (let b = j_body r in
      \<lparr>mm_from = text_or (js ''governor'') (field b (js ''from'')), mm_to = text_or [] (field b (js ''to'')),
       mm_mode = (case parse_mode (text_or (js ''note'') (field b (js ''mode''))) of Some m \<Rightarrow> m | None \<Rightarrow> Note),
       mm_text = text_or [] (field b (js ''text'')), mm_task = text_of (field b (js ''taskRunId'')), mm_generation = None,
       mm_request_reply = (field b (js ''requestReply'') = JBool True), mm_reply_to = text_of (field b (js ''replyTo'')),
       mm_seq = j_seq r, mm_replied = False\<rparr>)"

definition replay_accepted :: "(jstring \<Rightarrow> int) \<Rightarrow> journal_record \<Rightarrow> sup_state \<Rightarrow> sup_state" where
  "replay_accepted parse r s =
     (case text_of (field (j_body r) (js ''messageId'')) of
        None \<Rightarrow> s
      | Some i \<Rightarrow>
          if i = [] \<or> map_of (su_messages s) i \<noteq> None then s
          else
            let m = replayed_message r;
                s = s\<lparr>su_messages := map_put i m (su_messages s)\<rparr>;
                s = (if mm_to m = js ''governor'' then s
                     else upd_agent (mm_to m) (\<lambda>a.
                       let a = a\<lparr>ag_pending_messages := ag_pending_messages a @ [i]\<rparr> in
                       case mm_task m of
                         Some run \<Rightarrow>
                           if mm_mode m = Task \<and> \<not> list_ex (\<lambda>q. qt_id q = run) (ag_queue a)
                           then a\<lparr>ag_pending_tasks := ag_pending_tasks a @ [run],
                                  ag_queue := ag_queue a @ [\<lparr>qt_id = run, qt_message = i, qt_text = mm_text m, qt_dispatched = False\<rparr>]\<rparr>
                           else a
                       | None \<Rightarrow> a) s)
            in (case text_of (field (j_body r) (js ''deadlineAt'')) of
                  Some d \<Rightarrow>
                    if mm_request_reply m
                    then s\<lparr>su_questions := map_put i
                      \<lparr>pq_from = mm_from m, pq_to = mm_to m, pq_text = mm_text m, pq_deadline = parse d,
                       pq_answered = False, pq_cancelled = False\<rparr> (su_questions s)\<rparr>
                    else s
                | None \<Rightarrow> s))"

definition replay_mailbox :: "(jstring \<Rightarrow> int) \<Rightarrow> journal_record \<Rightarrow> sup_state \<Rightarrow> sup_state" where
  "replay_mailbox parse r s =
     (if j_kind r = js ''mailbox.accepted'' then replay_accepted parse r s
      else if j_kind r = js ''mailbox.answered'' then
        upd_question (text_or [] (field (j_body r) (js ''replyTo''))) (\<lambda>q. q\<lparr>pq_answered := True\<rparr>) s
      else if j_kind r = js ''mailbox.question_expired'' then
        upd_question (text_or [] (field (j_body r) (js ''messageId''))) (\<lambda>q. q\<lparr>pq_cancelled := True\<rparr>) s
      else s)"

end
