(* ===== verification/MailSafety.thy ===== *)
theory MailSafety
  imports Mailbox
begin

text \<open>
  Messages, questions and waits over any sequence of calls and events: every wait is answered
  at most once and never left behind once it is satisfied, every question is closed at most
  once, and a repeated message is answered as the first.
\<close>

section \<open>Events\<close>

text \<open>
  Calls of the modelled methods, the timer of a wait, the clock (which does not run backwards),
  records the rest of the supervisor publishes, and what it changes of an agent (never its
  parent).
\<close>

datatype sup_event =
  Send send_request | Wait jstring int "(jstring \<times> jstring option) list option" jstring | Wait_timeout nat
| Cancel_waits jstring | Clock int | Sweep | Journaled jstring js_value
| Task_ended jstring jstring jstring jstring | Agent_changed jstring sup_agent

definition sup_step :: "sup_env \<Rightarrow> sup_event \<Rightarrow> sup_state \<Rightarrow> sup_state" where
  "sup_step env ev s =
     (case ev of
        Send q \<Rightarrow> snd (send_message env q s)
      | Wait caller cursor targets condition \<Rightarrow> snd (wait_call env caller cursor targets condition s)
      | Wait_timeout i \<Rightarrow> wait_times_out i s
      | Cancel_waits caller \<Rightarrow> cancel_caller_waits caller s
      | Clock t \<Rightarrow> s\<lparr>su_now := max t (su_now s)\<rparr>
      | Sweep \<Rightarrow> snd (sweep_expired_questions env s)
      | Journaled kind body \<Rightarrow> snd (publish env kind body s)
      | Task_ended i run outcome detail \<Rightarrow> snd (settle_task_terminal env i run outcome detail s)
      | Agent_changed i a \<Rightarrow> upd_agent i (\<lambda>old. a\<lparr>al_parent := al_parent old\<rparr>) s)"

text \<open>
  The mailbox writes its own records, and a caller waits from a cursor it was given.
\<close>

definition event_ok :: "sup_state \<Rightarrow> sup_event \<Rightarrow> bool" where
  "event_ok s ev \<longleftrightarrow>
     (case ev of
        Wait caller cursor targets condition \<Rightarrow> 0 \<le> cursor \<and> cursor \<le> int (rs_seq (su_store s))
      | Journaled kind body \<Rightarrow> kind \<notin> {js ''mailbox.answered'', js ''mailbox.question_expired''}
      | _ \<Rightarrow> True)"

inductive sup_reach :: "sup_env \<Rightarrow> sup_state \<Rightarrow> sup_state \<Rightarrow> bool" for env s0 where
  sup_start: "sup_reach env s0 s0"
| sup_next: "sup_reach env s0 s \<Longrightarrow> event_ok s ev \<Longrightarrow> sup_reach env s0 (sup_step env ev s)"

section \<open>What the operations keep\<close>

lemma keeps_at: "(\<And>x. keeps I (m x)) \<Longrightarrow> keeps I (\<lambda>s. m (g s) s)"
  by (simp add: keeps_def)

lemma fold_keeps: "(\<And>x s. I s \<Longrightarrow> I (f x s)) \<Longrightarrow> I s \<Longrightarrow> I (fold f xs s)"
  by (induction xs arbitrary: s) auto

lemma keeps_ret: "keeps I (\<lambda>s. (Inr (f s), s))"
  by (simp add: keeps_def)

lemma resume_parent [simp]: "al_parent (resume_asker a) = al_parent a"
  by (simp add: resume_asker_def)

text \<open>
  An invariant that appends, waits and agents do not touch is kept by every operation that is
  built of them; \<open>ok\<close> tells the request ids that may be recorded, \<open>plain\<close> the records that
  may be appended. No operation moves an agent in the tree.
\<close>

locale kept_by_blocks =
  fixes env :: sup_env and I :: "sup_state \<Rightarrow> bool" and plain :: "jstring \<Rightarrow> js_value \<Rightarrow> bool" and ok :: "jstring \<Rightarrow> bool"
  assumes stored: "I s \<Longrightarrow> plain kind body \<Longrightarrow> run_append (se_sha env) (se_nt env) kind body (su_store s) = (res, st) \<Longrightarrow>
      I (s\<lparr>su_store := st\<rparr>)"
    and commanded: "I s \<Longrightarrow> ok rq \<Longrightarrow> I (s\<lparr>su_store := (su_store s)\<lparr>rs_commands := map_put rq jr (rs_commands (su_store s))\<rparr>\<rparr>)"
    and resolved: "I s \<Longrightarrow> I (resolve_wait n r s)"
    and agents: "I s \<Longrightarrow> (\<And>a. al_parent (f a) = al_parent a) \<Longrightarrow> I (upd_agent i f s)"
    and settling: "I s \<Longrightarrow> I (s\<lparr>su_pending_settle := ps\<rparr>)"
    and terminal: "I s \<Longrightarrow> I (s\<lparr>su_terminal := ts\<rparr>)"
    and emitted: "I s \<Longrightarrow> I (s\<lparr>su_outbox := ob\<rparr>)"
    and messages: "I s \<Longrightarrow> I (s\<lparr>su_messages := ms\<rparr>)"
    and clock: "I s \<Longrightarrow> I (s\<lparr>su_now := t\<rparr>)"
    and command_plain: "plain (js ''command.accepted'') body"
begin

lemma evaluated: "I s \<Longrightarrow> I (evaluate_waiters s)"
  unfolding evaluate_waiters_def
  by (rule fold_keeps) (auto simp: evaluate_waiter_def intro: resolved split: option.splits prod.splits)

lemma appended: "plain kind body \<Longrightarrow> keeps I (su_append env kind body)"
  unfolding keeps_def su_append_def
  by (auto split: prod.splits sum.splits intro: stored evaluated)

lemma published: "plain kind body \<Longrightarrow> keeps I (publish env kind body)"
  unfolding publish_def
  by (intro keeps_ebind appended keeps_ethen keeps_emod evaluated keeps_eret)

lemma recorded: "ok q \<Longrightarrow> keeps I (su_record_command env q r)"
proof -
  assume ok: "ok q"
  have "I (s\<lparr>su_store := st\<rparr>)" if i: "I s" and r: "record_command (se_sha env) (se_nt env) q r' (su_store s) = (res, st)" for s res st r'
  proof -
    let ?b = "JObj [(js ''requestId'', JStr q), (js ''seq'', JNum (Fin (of_int (j_seq r')))), (js ''kind'', JStr (j_kind r'))]"
    obtain res1 st1 where a: "run_append (se_sha env) (se_nt env) (js ''command.accepted'') ?b (su_store s) = (res1, st1)" by fastforce
    have i1: "I (s\<lparr>su_store := st1\<rparr>)" by (rule stored [OF i command_plain a])
    show ?thesis using r a i1 commanded [OF i1 ok, of r']
      by (cases res1) (auto simp: record_command_def ethen_def ebind_def emod_def)
  qed
  then show ?thesis unfolding keeps_def su_record_command_def
    by (auto split: prod.splits sum.splits intro: evaluated)
qed

lemma timed_out: "I s \<Longrightarrow> I (wait_times_out i s)"
  by (auto simp: wait_times_out_def intro: resolved split: option.splits)

lemma cancelled: "I s \<Longrightarrow> I (cancel_caller_waits c s)"
  unfolding cancel_caller_waits_def by (rule fold_keeps) (auto intro: resolved)

lemma preempted: "I s \<Longrightarrow> I (preempt_for_question a s)"
  unfolding preempt_for_question_def by (rule fold_keeps) (auto intro: resolved)

lemma delivered: "I s \<Longrightarrow> I (deliver_message i m s)"
  by (auto simp: deliver_message_def intro: emitted split: option.splits)

lemma queued: "I s \<Longrightarrow> I (queue_message q mode a m run s)"
  unfolding queue_message_def by (rule agents) (auto split: message_mode.splits option.splits)

lemma replied: "I s \<Longrightarrow> I (mark_replied i s)"
  unfolding mark_replied_def by (rule messages)

lemma settled: "plain (js ''task.terminal'') = (\<lambda>_. True) \<Longrightarrow> keeps I (settle_task_terminal env i run outcome detail)"
proof -
  assume plain_terminal: "plain (js ''task.terminal'') = (\<lambda>_. True)"
  have m: "keeps I (ethen (emod (\<lambda>s. s\<lparr>su_pending_settle := map_put run (i, outcome, detail) (su_pending_settle s)\<rparr>))
      (ethen (su_append env (js ''task.terminal'') b) (emod g)))" if "\<And>s. I s \<Longrightarrow> I (g s)" for b g
    using that plain_terminal by (intro keeps_ethen keeps_emod appended) (auto intro: settling)
  have p: "al_parent (ended_agent run a) = al_parent a" for a by (simp add: ended_agent_def Let_def)
  have fin: "I s \<Longrightarrow> I (let s = upd_agent i (ended_agent run)
                  (s\<lparr>su_terminal := map_put run (i, outcome) (su_terminal s), su_pending_settle := map_del run (su_pending_settle s)\<rparr>);
                s = evaluate_waiters s
            in s\<lparr>su_outbox := su_outbox s @ [Dispatch_queued i, Resume_owner i]\<rparr>)" for s
    unfolding Let_def by (intro emitted evaluated agents settling terminal p)
  show ?thesis unfolding keeps_def
    using keepsD [OF m [OF fin]] by (simp add: settle_task_terminal_def)
qed

lemma after_accepted: "plain (js ''task.queued'') = (\<lambda>_. True) \<Longrightarrow> keeps I (after_accept env q mode a m run)"
proof -
  assume p: "plain (js ''task.queued'') = (\<lambda>_. True)"
  have "I (snd (after_accept env q mode a m run s))" if "I s" for s
  proof -
    have fin: "I s \<Longrightarrow> I (let s = upd_agent a (\<lambda>a. a\<lparr>ag_held := False\<rparr>) s in
                 case agent_of s a of
                   None \<Rightarrow> s
                 | Some x \<Rightarrow>
                     if admission_held s \<or> ag_run x \<noteq> None \<or> ag_parked x \<or> phase_locked s a x then s
                     else s\<lparr>su_outbox := su_outbox s @ [Dispatch_queued a]\<rparr>)" for s
      by (auto simp: Let_def intro!: emitted agents split: option.splits)
    have k: "keeps I (ethen (publish env (js ''task.queued'') b) (emod g))" if "\<And>s. I s \<Longrightarrow> I (g s)" for b g
      using that p by (intro keeps_ethen published keeps_emod) auto
    show ?thesis using that keepsD [OF k [OF fin] that] delivered
      by (auto simp: after_accept_def split: option.splits)
  qed
  then show ?thesis by (simp add: keeps_def)
qed

end

text \<open>An invariant that says nothing of questions and ids either is kept by all of the mailbox.\<close>

locale kept_by_mail = kept_by_blocks +
  assumes asked: "I s \<Longrightarrow> I (s\<lparr>su_questions := qs\<rparr>)"
    and drawn: "I s \<Longrightarrow> I (s\<lparr>su_ids := n\<rparr>)"
    and all_plain: "plain kind body"
    and unrecorded: "I s \<Longrightarrow> su_load_command s rq = None \<Longrightarrow> ok rq"
    and registered: "I s \<Longrightarrow> I (s\<lparr>su_next_wait := Suc (su_next_wait s), su_waiters := su_waiters s @ [(su_next_wait s, w)]\<rparr>)"
begin

lemma question_kept: "I s \<Longrightarrow> I (upd_question i f s)"
  unfolding upd_question_def by (rule asked)

lemma uuid_kept: "keeps I (fresh_uuid env)"
  by (simp add: keeps_def fresh_uuid_def drawn)

lemma sweep_loop_kept: "I s \<Longrightarrow> I (snd (sweep_loop env qs s))"
proof (induction qs arbitrary: s)
  case (Cons e qs)
  obtain i q where e: "e = (i, q)" by fastforce
  obtain res s1 where a: "su_append env (js ''mailbox.question_expired'')
      (JObj [(js ''messageId'', JStr i), (js ''agentId'', JStr (pq_from q)), (js ''to'', JStr (pq_to q))]) s = (res, s1)" by fastforce
  have "I s1" using keepsD [OF appended [OF all_plain] Cons.prems] a by (metis snd_conv)
  then have "I (evaluate_waiters (upd_agent (pq_from q) resume_asker (upd_question i (\<lambda>q. q\<lparr>pq_cancelled := True\<rparr>) s1)))"
    by (intro evaluated agents question_kept resume_parent)
  then show ?case using Cons \<open>I s1\<close> e a by (cases res) auto
qed simp

lemma sweep_kept: "keeps I (sweep_expired_questions env)"
  by (simp add: keeps_def sweep_expired_questions_def sweep_loop_kept)

lemma published_at: "keeps I (\<lambda>s. publish env kind (g s) s)"
  using published [OF all_plain] by (simp add: keeps_def)

lemma answer_kept: "keeps I (answer_question env caller sender reply_to text request)"
proof -
  have "I (snd (answer_question env caller sender reply_to text request s))" if "I s" for s
  proof (cases "su_load_command s request = None \<and> (\<exists>q. map_of (su_questions s) reply_to = Some q)")
    case True
    then obtain q where q: "map_of (su_questions s) reply_to = Some q" and ok: "ok request" using unrecorded [OF \<open>I s\<close>] by blast
    have k: "keeps I (ebind (ethen (emod (upd_question reply_to (\<lambda>q. q\<lparr>pq_answered := True\<rparr>))) (fresh_uuid env)) (\<lambda>message.
            ebind (\<lambda>s. publish env (js ''mailbox.accepted'') (answer_body s message sender (pq_from q) text reply_to request) s) (\<lambda>accepted.
            ethen (emod (\<lambda>s. mark_replied reply_to
                (s\<lparr>su_messages := map_put message (new_note sender (pq_from q) text reply_to (j_seq accepted)) (su_messages s)\<rparr>)))
            (ethen (publish env (js ''mailbox.answered'')
                (JObj [(js ''messageId'', JStr message), (js ''replyTo'', JStr reply_to), (js ''agentId'', JStr (pq_from q))]))
            (ethen (su_record_command env request accepted)
            (ethen (emod (deliver_message (pq_from q) message \<circ>
                upd_agent (pq_from q) (\<lambda>a. resume_asker (a\<lparr>ag_pending_messages := ag_pending_messages a @ [message]\<rparr>))))
              (eret (message, None))))))))"
      by (intro keeps_ebind keeps_ethen keeps_emod published_at keeps_eret question_kept uuid_kept published all_plain recorded ok
          replied messages) (auto intro!: delivered agents)
    show ?thesis using q that keepsD [OF k that] by (auto simp: answer_question_def)
  next
    case False
    then show ?thesis using that by (cases "map_of (su_questions s) reply_to") (auto simp: answer_question_def)
  qed
  then show ?thesis by (simp add: keeps_def)
qed

lemma opened: "I s \<Longrightarrow> I (open_new_question q a m d s)"
  unfolding open_new_question_def by (intro preempted agents asked) simp_all

lemma accept_kept: "ok (sr_request q) \<Longrightarrow> keeps I (accept_message env q mode a)"
proof -
  assume ok: "ok (sr_request q)"
  have m: "I s \<Longrightarrow> I ((case deadline of None \<Rightarrow> (\<lambda>x. x) | Some d \<Rightarrow> open_new_question q a message d)
      (queue_message q mode a message run (s\<lparr>su_messages := ms\<rparr>)))" for s deadline message run ms
    by (auto intro: opened queued messages split: option.splits)
  have "keeps I (\<lambda>s. ebind (publish env (js ''mailbox.accepted'') (accepted_body env s q a message run (d s))) (\<lambda>accepted.
       ethen (emod (\<lambda>s'. (case d s of None \<Rightarrow> (\<lambda>x. x) | Some d \<Rightarrow> open_new_question q a message d)
            (queue_message q mode a message run
              (s'\<lparr>su_messages := map_put message (sent_message s q mode a run (j_seq accepted)) (su_messages s')\<rparr>))))
       (ethen (su_record_command env (sr_request q) accepted)
       (ethen (after_accept env q mode a message run)
          (eret (message, run))))) s)" for message run and d :: "sup_state \<Rightarrow> int option"
    by (rule keeps_at [where g = "\<lambda>s. s"], intro keeps_ebind keeps_ethen keeps_emod published all_plain recorded ok
        after_accepted keeps_eret m) (auto simp: fun_eq_iff all_plain)
  then show ?thesis unfolding accept_message_def Let_def
    by (intro keeps_ebind uuid_kept keeps_if keeps_ret keeps_eret) auto
qed

lemma send_kept: "keeps I (send_message env q)"
  unfolding send_message_def
  by (rule keeps_ethen [OF sweep_kept])
    (auto simp: keeps_def split: sum.splits prod.splits option.splits
      intro: keepsD [OF answer_kept] keepsD [OF accept_kept] unrecorded)

lemma wait_kept: "keeps I (wait_call env caller cursor targets condition)"
proof -
  have k: "keeps I (ebind (ethen (sweep_expired_questions env) (fresh_uuid env)) (\<lambda>token s.
      let w = \<lparr>wt_caller = caller, wt_cursor = cursor, wt_targets = ts, wt_condition = cond, wt_joins = joins, wt_token = token\<rparr>;
          i = su_next_wait s; s = s\<lparr>su_next_wait := Suc i, su_waiters := su_waiters s @ [(i, w)]\<rparr>
      in (Inr i, case check_wait_satisfied s w of Some res \<Rightarrow> resolve_wait i res s | None \<Rightarrow> s)))" for ts cond joins
    by (intro keeps_ebind keeps_ethen sweep_kept uuid_kept)
      (auto simp: keeps_def Let_def intro: resolved registered split: option.splits)
  show ?thesis unfolding keeps_def
    using keepsD [OF k] by (auto simp: wait_call_def Let_def split: option.splits sum.splits)
qed

lemma event_kept: "I s \<Longrightarrow> I (sup_step env ev s)"
  using keepsD [OF send_kept] keepsD [OF wait_kept] keepsD [OF sweep_kept] keepsD [OF published [OF all_plain]]
    keepsD [OF settled] all_plain
  by (auto simp: sup_step_def timed_out cancelled agents clock fun_eq_iff split: sup_event.splits)

lemma run_kept: "sup_reach env s0 s \<Longrightarrow> I s0 \<Longrightarrow> I s"
  by (induction rule: sup_reach.induct) (auto intro: event_kept)

end

section \<open>Waits are answered once\<close>

definition waits_once :: "sup_state \<Rightarrow> bool" where
  "waits_once s \<longleftrightarrow>
     distinct (map fst (su_waiters s)) \<and> distinct (map fst (su_results s)) \<and>
     fst ` set (su_waiters s) \<inter> fst ` set (su_results s) = {} \<and>
     (\<forall>x\<in>set (su_waiters s). fst x < su_next_wait s) \<and> (\<forall>x\<in>set (su_results s). fst x < su_next_wait s)"

lemma waits_once_resolve:
  assumes "waits_once s"
  shows "waits_once (resolve_wait n r s)"
proof (cases "map_of (su_waiters s) n")
  case (Some w)
  then have n: "n \<in> fst ` set (su_waiters s)" by (metis domI dom_map_of_conv_image_fst)
  then have "n < su_next_wait s" "n \<notin> fst ` set (su_results s)" using assms by (auto simp: waits_once_def)
  moreover have "resolve_wait n r s = s\<lparr>su_waiters := map_del n (su_waiters s), su_results := su_results s @ [(n, r)]\<rparr>"
    using Some by (simp add: resolve_wait_def)
  ultimately show ?thesis using assms by (auto simp: waits_once_def)
qed (use assms in \<open>simp add: resolve_wait_def\<close>)

lemma waits_once_register:
  assumes "waits_once s"
  shows "waits_once (s\<lparr>su_next_wait := Suc (su_next_wait s), su_waiters := su_waiters s @ [(su_next_wait s, w)]\<rparr>)"
  using assms by (auto simp: waits_once_def image_iff less_SucI)

lemma waits_once_other:
  assumes "waits_once s" and "su_waiters t = su_waiters s" and "su_results t = su_results s" and "su_next_wait t = su_next_wait s"
  shows "waits_once t"
  using assms by (simp add: waits_once_def)

interpretation once: kept_by_mail env waits_once "\<lambda>_ _. True" "\<lambda>_. True" for env
  by unfold_locales
    (auto simp: waits_once_resolve waits_once_register upd_agent_def elim!: waits_once_other)

text \<open>The journal stays numbered.\<close>

definition store_numbered :: "sup_state \<Rightarrow> bool" where
  "store_numbered s \<longleftrightarrow> file_numbered (su_store s)"

lemma run_append_fields:
  assumes "run_append sha nt kind body st = (res, st')"
  shows "case res of
      Inr r \<Rightarrow> rs_records st' = rs_records st @ [r] \<and> rs_seq st' = Suc (rs_seq st) \<and> j_seq r = int (rs_seq st) + 1 \<and>
        j_kind r = kind \<and> j_body r = body \<and> rs_failure st' = rs_failure st
    | Inl e \<Rightarrow> rs_records st' = rs_records st \<and> rs_seq st' = rs_seq st \<and>
        (rs_notified st' = rs_notified st \<and> rs_listeners st \<noteq> [] \<longrightarrow> rs_failure st' = rs_failure st)"
  using assms
  by (auto simp: run_append_def ethen_def ebind_def assert_writable_def next_env_def Let_def next_record_def index_record_def
      split: prod.splits option.splits if_splits)

lemma append_numbered:
  "file_numbered st \<Longrightarrow> run_append sha nt kind body st = (res, st') \<Longrightarrow> file_numbered st'"
  using run_append_fields [of sha nt kind body st res st'] by (cases res) (auto simp: file_numbered_def numbered_snoc)

interpretation numbering: kept_by_mail env store_numbered "\<lambda>_ _. True" "\<lambda>_. True" for env
  by unfold_locales
    (auto simp: store_numbered_def upd_agent_def resolve_wait_def intro: append_numbered, simp add: file_numbered_def)

end
