(* ===== verification/WaitLiveness.thy ===== *)
theory WaitLiveness
  imports MailSafety
begin

text \<open>
  No wait is left behind: after every event no registered wait is satisfied, so its promise was
  settled in the event that satisfied it.
\<close>

section \<open>What a wait depends on\<close>

lemma map_of_upd: "map_of (map (\<lambda>(j, r). (j, if j = i then f r else r)) xs) k =
    (if k = i then map_option f (map_of xs k) else map_of xs k)"
  by (induction xs) auto

lemma agent_of_upd: "agent_of (upd_agent i f s) k = (if k = i then map_option f (agent_of s k) else agent_of s k)"
  by (simp add: agent_of_def upd_agent_def map_of_upd)

lemma ascend_cong: "parent_of xs = parent_of ys \<Longrightarrow> ascend n xs a c = ascend n ys a c"
  by (induction n arbitrary: c) (auto split: option.splits)

definition same_tree :: "sup_state \<Rightarrow> sup_state \<Rightarrow> bool" where
  "same_tree s t \<longleftrightarrow> parent_of (su_agents s) = parent_of (su_agents t) \<and> length (su_agents s) = length (su_agents t) \<and>
     (\<forall>i. agent_of s i = None \<longleftrightarrow> agent_of t i = None)"

lemma same_tree_upd: "(\<And>a. al_parent (f a) = al_parent a) \<Longrightarrow> same_tree (upd_agent i f s) s"
  by (auto simp: same_tree_def fun_eq_iff parent_of_def agent_of_def upd_agent_def map_of_upd split: option.splits)

lemma same_tree_visible:
  assumes "same_tree s t"
  shows "visible_to (su_agents s) c i = visible_to (su_agents t) c i"
proof -
  have p: "parent_of (su_agents s) c = parent_of (su_agents t) c" for c using assms by (simp add: same_tree_def)
  have d: "is_descendant (su_agents s) a b = is_descendant (su_agents t) a b" for a b
    using assms by (simp add: is_descendant_def same_tree_def ascend_cong [of "su_agents s" "su_agents t"] del: ascend.simps)
  have n: "map_of (su_agents s) c = None \<longleftrightarrow> map_of (su_agents t) c = None"
    using assms by (simp add: same_tree_def agent_of_def)
  show ?thesis using p [of c] n d by (auto simp: visible_to_def parent_of_def split: option.splits)
qed

lemma same_tree_relevant: "same_tree s t \<Longrightarrow> event_relevant s w = event_relevant t w"
proof -
  assume t: "same_tree s t"
  then have "agent_of s i \<noteq> None \<longleftrightarrow> agent_of t i \<noteq> None" for i by (simp add: same_tree_def)
  then show ?thesis by (simp only: event_relevant_def fun_eq_iff same_tree_visible [OF t] simp_thms)
qed

text \<open>
  The part of the state a wait looks at; a state that differs in nothing of it, or only in
  fewer open questions, satisfies no wait the other does not.
\<close>

definition calmer :: "sup_state \<Rightarrow> sup_state \<Rightarrow> bool" where
  "calmer t s \<longleftrightarrow> same_tree t s \<and> rs_records (su_store t) = rs_records (su_store s) \<and>
     rs_failure (su_store t) = rs_failure (su_store s) \<and> su_terminal t = su_terminal s \<and>
     (\<forall>a. open_question t a \<longrightarrow> open_question s a)"

lemma calmer_check: "calmer t s \<Longrightarrow> check_wait_satisfied s w = None \<Longrightarrow> check_wait_satisfied t w = None"
  by (auto simp: calmer_def check_wait_satisfied_def relevant_records_def same_tree_relevant read_since_page
      joins_done_def storage_failure_def Let_def split: if_splits)

definition no_stale :: "sup_state \<Rightarrow> bool" where
  "no_stale s \<longleftrightarrow> (\<forall>x\<in>set (su_waiters s). check_wait_satisfied s (snd x) = None)"

lemma calmer_stale: "no_stale s \<Longrightarrow> calmer t s \<Longrightarrow> set (su_waiters t) \<subseteq> set (su_waiters s) \<Longrightarrow> no_stale t"
  by (auto simp: no_stale_def intro: calmer_check)

lemma calmer_fields:
  assumes "su_agents t = su_agents s" "su_store t = su_store s" "su_terminal t = su_terminal s"
    "su_questions t = su_questions s" "su_now s \<le> su_now t"
  shows "calmer t s"
  using assms by (auto simp: calmer_def same_tree_def agent_of_def open_question_def list_ex_iff)

section \<open>Evaluation\<close>

lemma resolve_fields:
  "su_agents (resolve_wait i r s) = su_agents s" "su_store (resolve_wait i r s) = su_store s"
  "su_terminal (resolve_wait i r s) = su_terminal s" "su_questions (resolve_wait i r s) = su_questions s"
  "su_now (resolve_wait i r s) = su_now s" "su_ids (resolve_wait i r s) = su_ids s"
  "su_reviewers (resolve_wait i r s) = su_reviewers s" "su_messages (resolve_wait i r s) = su_messages s"
  "set (su_waiters (resolve_wait i r s)) = {x \<in> set (su_waiters s). fst x \<noteq> i}"
proof -
  have "map_of (su_waiters s) i = None \<Longrightarrow> {x \<in> set (su_waiters s). fst x \<noteq> i} = set (su_waiters s)"
    by (auto simp: map_of_eq_None_iff image_iff)
  then show "set (su_waiters (resolve_wait i r s)) = {x \<in> set (su_waiters s). fst x \<noteq> i}"
    by (auto simp: resolve_wait_def)
qed (simp_all add: resolve_wait_def)

lemma check_cong:
  assumes "su_agents t = su_agents s" "su_store t = su_store s" "su_terminal t = su_terminal s"
    "su_questions t = su_questions s" "su_now t = su_now s"
  shows "check_wait_satisfied t w = None \<longleftrightarrow> check_wait_satisfied s w = None"
  using calmer_check [OF calmer_fields [of t s]] calmer_check [OF calmer_fields [of s t]] assms by auto

lemma evaluate_fold_fields:
  "su_agents (fold evaluate_waiter ws s) = su_agents s \<and> su_store (fold evaluate_waiter ws s) = su_store s \<and>
   su_terminal (fold evaluate_waiter ws s) = su_terminal s \<and> su_questions (fold evaluate_waiter ws s) = su_questions s \<and>
   su_now (fold evaluate_waiter ws s) = su_now s \<and> su_ids (fold evaluate_waiter ws s) = su_ids s \<and>
   su_reviewers (fold evaluate_waiter ws s) = su_reviewers s \<and> su_messages (fold evaluate_waiter ws s) = su_messages s"
  by (induction ws arbitrary: s) (auto simp: evaluate_waiter_def resolve_fields split: option.splits prod.splits)

lemma evaluate_fields:
  "su_agents (evaluate_waiters s) = su_agents s" "su_store (evaluate_waiters s) = su_store s"
  "su_terminal (evaluate_waiters s) = su_terminal s" "su_questions (evaluate_waiters s) = su_questions s"
  "su_now (evaluate_waiters s) = su_now s" "su_ids (evaluate_waiters s) = su_ids s"
  "su_reviewers (evaluate_waiters s) = su_reviewers s" "su_messages (evaluate_waiters s) = su_messages s"
  using evaluate_fold_fields [of "su_waiters s" s] by (simp_all add: evaluate_waiters_def)

lemma evaluate_fold_waiters:
  "set (su_waiters (fold evaluate_waiter ws s)) \<subseteq>
     {x \<in> set (su_waiters s). x \<in> set ws \<longrightarrow> check_wait_satisfied s (snd x) = None}"
proof (induction ws arbitrary: s)
  case (Cons y ws)
  let ?s = "evaluate_waiter y s"
  have same: "check_wait_satisfied ?s w = None \<longleftrightarrow> check_wait_satisfied s w = None" for w
    by (rule check_cong) (auto simp: evaluate_waiter_def resolve_fields split: option.splits prod.splits)
  have "set (su_waiters ?s) \<subseteq> {x \<in> set (su_waiters s). x = y \<longrightarrow> check_wait_satisfied s (snd x) = None}"
    by (auto simp: evaluate_waiter_def resolve_fields split: option.splits prod.splits)
  then show ?case using Cons.IH [of ?s] same by auto
qed simp

lemma evaluate_no_stale: "no_stale (evaluate_waiters s) \<and> set (su_waiters (evaluate_waiters s)) \<subseteq> set (su_waiters s)"
proof -
  have "check_wait_satisfied (evaluate_waiters s) w = None \<longleftrightarrow> check_wait_satisfied s w = None" for w
    by (rule check_cong) (simp_all add: evaluate_fields)
  then show ?thesis using evaluate_fold_waiters [of "su_waiters s" s]
    by (auto simp: no_stale_def evaluate_waiters_def)
qed

section \<open>The invariant\<close>

text \<open>\<open>awake d\<close>: no wait is stale, and every cursor is at least \<open>d\<close> records behind the end.\<close>

definition awake :: "int \<Rightarrow> sup_state \<Rightarrow> bool" where
  "awake d s \<longleftrightarrow> no_stale s \<and> store_numbered s \<and> rs_listeners (su_store s) \<noteq> [] \<and>
     (\<forall>x\<in>set (su_waiters s). 0 \<le> wt_cursor (snd x) \<and> wt_cursor (snd x) \<le> int (rs_seq (su_store s)) - d)"

lemma awake_weaken: "awake 1 s \<Longrightarrow> awake 0 s"
  by (auto simp: awake_def)

lemma awake_calmer:
  "awake d s \<Longrightarrow> calmer t s \<Longrightarrow> su_store t = su_store s \<Longrightarrow> set (su_waiters t) \<subseteq> set (su_waiters s) \<Longrightarrow> awake d t"
  using calmer_stale [of s t] by (auto simp: awake_def store_numbered_def)

lemma awake_fields:
  assumes "awake d s" "su_agents t = su_agents s" "su_store t = su_store s" "su_terminal t = su_terminal s"
    "su_questions t = su_questions s" "su_now s \<le> su_now t" "set (su_waiters t) \<subseteq> set (su_waiters s)"
  shows "awake d t"
  using assms by (intro awake_calmer [OF assms(1)] calmer_fields) auto

lemma awake_upd: "awake d s \<Longrightarrow> (\<And>a. al_parent (f a) = al_parent a) \<Longrightarrow> awake d (upd_agent i f s)"
  using same_tree_upd [of f i s]
  by (elim awake_calmer) (auto simp: calmer_def upd_agent_def open_question_def)

lemma awake_resolve: "awake d s \<Longrightarrow> awake d (resolve_wait i r s)"
  by (erule awake_fields) (auto simp: resolve_fields)

lemma awake_close:
  assumes "awake d s" and "\<And>q. pq_answered (f q) \<or> pq_cancelled (f q)"
  shows "awake d (upd_question i f s)"
proof (rule awake_calmer [OF assms(1)])
  have "open_question s a" if "open_question (upd_question i f s) a" for a
    using that assms(2) by (fastforce simp: open_question_def upd_question_def list_ex_iff split: if_splits)
  then show "calmer (upd_question i f s) s"
    by (auto simp: calmer_def same_tree_def agent_of_def upd_question_def)
qed (simp_all add: upd_question_def)

lemma append_listeners:
  "run_append sha nt kind body st = (res, st') \<Longrightarrow> rs_listeners st' = rs_listeners st"
  by (auto simp: run_append_def ethen_def ebind_def assert_writable_def next_env_def Let_def next_record_def index_record_def
      split: prod.splits option.splits if_splits)

text \<open>A refused append leaves everybody awake, an accepted one lengthens the journal.\<close>

lemma su_append_refused:
  assumes "awake d s" and "su_append env kind body s = (Inl e, s')"
  shows "awake d s'"
proof -
  obtain res st where r: "run_append (se_sha env) (se_nt env) kind body (su_store s) = (res, st)" by fastforce
  with assms(2) obtain x where x: "res = Inl x" by (cases res) (auto simp: su_append_def)
  note f = run_append_fields [OF r, unfolded x, simplified] append_listeners [OF r]
  have num: "file_numbered st" using append_numbered [OF _ r] assms(1) by (simp add: awake_def store_numbered_def)
  show ?thesis
  proof (cases "rs_notified st = rs_notified (su_store s)")
    case True
    then have "s' = s\<lparr>su_store := st\<rparr>" using assms(2) r x by (simp add: su_append_def)
    moreover have "calmer (s\<lparr>su_store := st\<rparr>) s"
      using f True assms(1) by (simp add: calmer_def same_tree_def agent_of_def open_question_def awake_def)
    ultimately show ?thesis using assms(1) f num calmer_stale [of s "s\<lparr>su_store := st\<rparr>"]
      by (auto simp: awake_def store_numbered_def)
  next
    case False
    then have "s' = evaluate_waiters (s\<lparr>su_store := st\<rparr>)" using assms(2) r x by (simp add: su_append_def)
    then show ?thesis using assms(1) f num evaluate_no_stale [of "s\<lparr>su_store := st\<rparr>"]
      by (auto simp: awake_def store_numbered_def evaluate_fields)
  qed
qed

lemma su_append_accepted:
  assumes "awake d s" and "su_append env kind body s = (Inr r, s')"
  shows "store_numbered s' \<and> rs_listeners (su_store s') \<noteq> [] \<and> rs_seq (su_store s') = Suc (rs_seq (su_store s)) \<and>
    su_waiters s' = su_waiters s \<and>
    s' = s\<lparr>su_store := su_store s'\<rparr> \<and> rs_records (su_store s') = rs_records (su_store s) @ [r] \<and> j_body r = body \<and>
    rs_failure (su_store s') = rs_failure (su_store s)"
proof -
  obtain res st where x: "run_append (se_sha env) (se_nt env) kind body (su_store s) = (res, st)" by fastforce
  with assms(2) have "res = Inr r" "s' = s\<lparr>su_store := st\<rparr>" by (auto simp: su_append_def split: sum.splits)
  then show ?thesis using run_append_fields [OF x] append_listeners [OF x] append_numbered [OF _ x] assms(1)
    by (auto simp: awake_def store_numbered_def)
qed

text \<open>So does everything that evaluates the waits afterwards.\<close>

lemma awake_evaluate:
  assumes "store_numbered s" "rs_listeners (su_store s) \<noteq> []"
    "\<forall>x\<in>set (su_waiters s). 0 \<le> wt_cursor (snd x) \<and> wt_cursor (snd x) \<le> int (rs_seq (su_store s)) - d"
  shows "awake d (evaluate_waiters s)"
  using assms evaluate_no_stale [of s] by (auto simp: awake_def store_numbered_def evaluate_fields)

lemma publish_awake:
  assumes "awake d s" "d = 0 \<or> d = 1" and "publish env kind body s = (res, s')"
  shows "awake d s' \<and> (is_ok res \<longrightarrow> awake 1 s')"
proof -
  obtain res1 s1 where a: "su_append env kind body s = (res1, s1)" by fastforce
  show ?thesis
  proof (cases res1)
    case (Inl e)
    then show ?thesis using assms a su_append_refused [OF assms(1)]
      by (auto simp: publish_def ebind_def ethen_def is_ok_iff)
  next
    case (Inr r)
    note f = su_append_accepted [OF assms(1) a [unfolded Inr]]
    have "s' = evaluate_waiters s1" using assms(3) a Inr by (auto simp: publish_def ebind_def ethen_def emod_def eret_def)
    moreover have "awake 1 (evaluate_waiters s1)"
      using f assms(1,2) by (intro awake_evaluate) (auto simp: awake_def)
    ultimately show ?thesis using awake_weaken [of s'] assms(2) by auto
  qed
qed

text \<open>
  \<open>recordCommand\<close> appends without evaluating the waits. What it appends concerns only the
  untargeted activity waits of the governing session, and none of those is left when a record
  was published before.
\<close>

lemma read_snoc:
  assumes "rs_records st' = rs_records st @ [r]"
  shows "fst (read_since st' c max_safe) = fst (read_since st c max_safe) \<or>
    fst (read_since st' c max_safe) = fst (read_since st c max_safe) @ [r]"
proof -
  have one: "take a (drop b [r]) = [] \<or> take a (drop b [r]) = [r]" for a b by (cases a; cases b) auto
  show ?thesis
    using one [of "nat max_safe - (length (rs_records st) - nat c)" "nat c - length (rs_records st)"] assms
    by (auto simp: read_since_page)
qed

lemma command_awake:
  assumes "awake 1 s" and "su_append env (js ''command.accepted'')
      (JObj [(js ''requestId'', JStr q), (js ''seq'', x), (js ''kind'', JStr k)]) s = (Inr r, s')"
  shows "awake 1 s'"
proof -
  define st where "st = su_store s'"
  note f0 = su_append_accepted [OF assms]
  then have s': "s' = s\<lparr>su_store := st\<rparr>" by (simp add: st_def)
  have f: "rs_records st = rs_records (su_store s) @ [r]" "rs_failure st = rs_failure (su_store s)"
    "j_body r = JObj [(js ''requestId'', JStr q), (js ''seq'', x), (js ''kind'', JStr k)]"
    using f0 by (simp_all add: st_def)
  have tree: "same_tree s' s" by (simp add: s' same_tree_def agent_of_def)
  have check: "check_wait_satisfied s' (snd y) = None" if y: "y \<in> set (su_waiters s)" for y
  proof -
    let ?w = "snd y"
    have c: "check_wait_satisfied s ?w = None" "wt_cursor ?w < int (rs_seq (su_store s))"
      using assms(1) y by (auto simp: awake_def no_stale_def)
    have er: "event_relevant s' ?w r \<longleftrightarrow> wt_targets ?w = None \<and> is_governor (wt_caller ?w)"
      using f by (auto simp: event_relevant_def target_concerned_def list_ex_iff text_of_def split: option.splits)
    have "relevant_records s' ?w = relevant_records s ?w" if "wt_condition ?w = Activity"
    proof -
      have none: "relevant_records s ?w = []" using c that by (auto simp: check_wait_satisfied_def Let_def split: if_splits)
      have "\<not> event_relevant s' ?w r"
      proof
        assume "event_relevant s' ?w r"
        then have all: "event_relevant s ?w = (\<lambda>_. True)" using er by (auto simp: event_relevant_def Let_def fun_eq_iff)
        then have "take (nat max_safe) (drop (nat (wt_cursor ?w)) (rs_records (su_store s))) = []"
          using none by (simp add: relevant_records_def read_since_page)
        then have "length (rs_records (su_store s)) \<le> nat (wt_cursor ?w)" by (auto simp: max_safe_def)
        moreover have "length (rs_records (su_store s)) = rs_seq (su_store s)"
          using assms(1) by (simp add: awake_def store_numbered_def file_numbered_def)
        ultimately show False using c(2) assms(1) y by (fastforce simp: awake_def)
      qed
      then show ?thesis
        using read_snoc [OF f(1), of "wt_cursor ?w"] same_tree_relevant [OF tree]
        by (auto simp: relevant_records_def s')
    qed
    then show ?thesis using c f(2)
      by (auto simp: check_wait_satisfied_def Let_def storage_failure_def joins_done_def open_question_def s' split: if_splits)
  qed
  show ?thesis using f0 check assms(1) by (auto simp: awake_def no_stale_def)
qed

lemma awake_commands: "awake d s \<Longrightarrow> awake d (s\<lparr>su_store := (su_store s)\<lparr>rs_commands := cs\<rparr>\<rparr>)"
proof -
  assume a: "awake d s"
  have "calmer (s\<lparr>su_store := (su_store s)\<lparr>rs_commands := cs\<rparr>\<rparr>) s"
    by (simp add: calmer_def same_tree_def agent_of_def open_question_def)
  then show ?thesis using a calmer_stale [of s] by (auto simp: awake_def store_numbered_def file_numbered_def)
qed

lemma record_awake: "keeps (awake 1) (su_record_command env q r)"
proof -
  have "awake 1 (snd (su_record_command env q r s))" if a: "awake 1 s" for s
  proof -
    let ?b = "JObj [(js ''requestId'', JStr q), (js ''seq'', JNum (Fin (of_int (j_seq r)))), (js ''kind'', JStr (j_kind r))]"
    obtain res s1 where x: "su_append env (js ''command.accepted'') ?b s = (res, s1)" by fastforce
    show ?thesis
    proof (cases res)
      case (Inl e)
      then have "snd (su_record_command env q r s) = s1"
        using x by (auto simp: su_record_command_def su_append_def record_command_def ethen_def ebind_def split: prod.splits sum.splits)
      then show ?thesis using su_append_refused [OF a] x Inl by simp
    next
      case (Inr r2)
      then have "snd (su_record_command env q r s) = s1\<lparr>su_store := (su_store s1)\<lparr>rs_commands := map_put q r (rs_commands (su_store s1))\<rparr>\<rparr>"
        using x by (auto simp: su_record_command_def su_append_def record_command_def ethen_def ebind_def emod_def split: prod.splits sum.splits)
      then show ?thesis using awake_commands [OF command_awake [OF a x [unfolded Inr]]] by simp
    qed
  qed
  then show ?thesis by (simp add: keeps_def)
qed

lemma publish_keeps: "d = 0 \<or> d = 1 \<Longrightarrow> keeps (awake d) (publish env kind body)"
  unfolding keeps_def using publish_awake by (metis prod.collapse)

lemma publish_then:
  assumes "\<And>r. keeps (awake 1) (f r)" and "awake 0 s"
  shows "awake 0 (snd (ebind (publish env kind body) f s))"
proof -
  obtain res s1 where p: "publish env kind body s = (res, s1)" by fastforce
  show ?thesis using publish_awake [OF assms(2) _ p] p keepsD [OF assms(1)] awake_weaken
    by (cases res) (auto simp: ebind_def)
qed

lemma publish_at_then:
  assumes "\<And>r. keeps (awake 1) (f r)"
  shows "keeps (awake 0) (ebind (\<lambda>s. publish env kind (g s) s) f)"
proof -
  have "ebind (\<lambda>s. publish env kind (g s) s) f s = ebind (publish env kind (g s)) f s" for s by (simp add: ebind_def)
  then show ?thesis using publish_then [OF assms] by (simp add: keeps_def)
qed

text \<open>The rest of the mailbox.\<close>

lemma sweep_loop_awake: "awake d s \<Longrightarrow> awake d (snd (sweep_loop env qs s))"
proof (induction qs arbitrary: s)
  case (Cons e qs)
  obtain i q where e: "e = (i, q)" by fastforce
  obtain res s1 where a: "su_append env (js ''mailbox.question_expired'')
      (JObj [(js ''messageId'', JStr i), (js ''agentId'', JStr (pq_from q)), (js ''to'', JStr (pq_to q))]) s = (res, s1)" by fastforce
  show ?case
  proof (cases "pq_answered q \<or> pq_cancelled q \<or> pq_deadline q > su_now s")
    case True
    then show ?thesis using Cons e by auto
  next
    case False
    show ?thesis
    proof (cases res)
      case (Inl x)
      then show ?thesis using False e a su_append_refused [OF Cons.prems] by auto
    next
      case (Inr r)
      note f = su_append_accepted [OF Cons.prems a [unfolded Inr]]
      let ?s = "upd_agent (pq_from q) resume_asker (upd_question i (\<lambda>q. q\<lparr>pq_cancelled := True\<rparr>) s1)"
      have "awake d (evaluate_waiters ?s)"
        by (rule awake_evaluate)
          (use f Cons.prems in \<open>fastforce simp: upd_agent_def upd_question_def store_numbered_def awake_def\<close>)+
      then show ?thesis using False e a Inr Cons.IH by simp
    qed
  qed
qed simp

lemma sweep_awake: "keeps (awake d) (sweep_expired_questions env)"
  by (simp add: keeps_def sweep_expired_questions_def sweep_loop_awake)

lemma deliver_awake: "awake d s \<Longrightarrow> awake d (deliver_message i m s)"
  by (erule awake_fields) (auto simp: deliver_message_def split: option.splits)

lemma messages_awake: "awake d s \<Longrightarrow> awake d (s\<lparr>su_messages := ms\<rparr>)"
  by (erule awake_fields) auto

lemma uuid_awake: "keeps (awake d) (fresh_uuid env)"
  unfolding keeps_def fresh_uuid_def by (auto elim: awake_fields)

lemma queue_awake: "awake d s \<Longrightarrow> awake d (queue_message q mode a m run s)"
  unfolding queue_message_def by (rule awake_upd) (auto split: message_mode.splits option.splits)

lemma preempt_fold_waiters:
  assumes "\<And>i w s. f (i, w) s = (if P w then resolve_wait i (g w s) s else s)"
  shows "set (su_waiters (fold f ws s)) = {x \<in> set (su_waiters s). \<forall>y\<in>set ws. P (snd y) \<longrightarrow> fst x \<noteq> fst y} \<and>
    su_agents (fold f ws s) = su_agents s \<and> su_store (fold f ws s) = su_store s \<and> su_terminal (fold f ws s) = su_terminal s \<and>
    su_questions (fold f ws s) = su_questions s \<and> su_now (fold f ws s) = su_now s"
proof (induction ws arbitrary: s)
  case (Cons y ws)
  obtain i w where y: "y = (i, w)" by fastforce
  show ?case using Cons.IH [of "f y s"] by (auto simp: y assms resolve_fields)
qed simp

lemma question_awake:
  assumes "awake d s"
  shows "awake d (open_new_question q a m deadline s)"
proof -
  define P :: "wait_reg \<Rightarrow> bool" where "P w \<longleftrightarrow> (wt_caller w = a \<or> a = js ''governor'' \<and> is_governor (wt_caller w)) \<and> wt_condition w \<noteq> Activity" for w
  define asked where "asked = \<lparr>pq_from = author_of (sr_caller q), pq_to = a, pq_text = sr_text q, pq_deadline = deadline,
     pq_answered = False, pq_cancelled = False\<rparr>"
  define t where "t = upd_agent (author_of (sr_caller q)) (\<lambda>a. a\<lparr>ag_observed := Obs_awaiting_parent\<rparr>)
      (s\<lparr>su_questions := map_put m asked (su_questions s)\<rparr>)"
  define u where "u = preempt_for_question a t"
  have w: "set (su_waiters u) = {x \<in> set (su_waiters t). \<forall>y\<in>set (su_waiters t). P (snd y) \<longrightarrow> fst x \<noteq> fst y}"
    "su_agents u = su_agents t" "su_store u = su_store t" "su_terminal u = su_terminal t"
    "su_questions u = su_questions t" "su_now u = su_now t"
    unfolding u_def preempt_for_question_def
    using preempt_fold_waiters [of "\<lambda>(i, w) s.
       if (wt_caller w = a \<or> a = js ''governor'' \<and> is_governor (wt_caller w)) \<and> wt_condition w \<noteq> Activity
       then resolve_wait i (wait_result_of s w False R_needs_response (relevant_records s w)) s else s" P
       "\<lambda>w s. wait_result_of s w False R_needs_response (relevant_records s w)" "su_waiters t" t]
    by (simp_all add: P_def)
  have t: "su_waiters t = su_waiters s" "su_store t = su_store s" "su_terminal t = su_terminal s"
    "su_questions t = map_put m asked (su_questions s)" "su_now t = su_now s"
    by (simp_all add: t_def upd_agent_def)
  have tree: "same_tree u s"
    using same_tree_upd [of "\<lambda>a. a\<lparr>ag_observed := Obs_awaiting_parent\<rparr>" "author_of (sr_caller q)" "s\<lparr>su_questions := map_put m asked (su_questions s)\<rparr>"]
    by (simp add: same_tree_def agent_of_def w(2) t_def)
  have fewer: "open_question u x \<Longrightarrow> x \<noteq> a \<Longrightarrow> open_question s x" for x
    by (auto simp: open_question_def list_ex_iff w(5,6) t(4,5) asked_def dest!: set_map_put)
  have "check_wait_satisfied u (snd x) = None" if x: "x \<in> set (su_waiters u)" for x
  proof -
    have xs: "x \<in> set (su_waiters s)" "\<not> P (snd x)" using x w(1) t(1) by auto
    then have c: "check_wait_satisfied s (snd x) = None" using assms by (auto simp: awake_def no_stale_def)
    have "author_of (wt_caller (snd x)) \<noteq> a" if "wt_condition (snd x) \<noteq> Activity"
      using xs(2) that by (auto simp: P_def author_of_def)
    then show ?thesis using c fewer same_tree_relevant [OF tree]
      by (auto simp: check_wait_satisfied_def Let_def storage_failure_def joins_done_def relevant_records_def w t split: if_splits)
  qed
  then have "awake d u" using assms w t by (auto simp: awake_def no_stale_def store_numbered_def)
  then show ?thesis by (simp add: open_new_question_def u_def t_def asked_def)
qed

lemma after_accept_awake: "keeps (awake 1) (after_accept env q mode a m run)"
proof -
  have fin: "awake 1 s \<Longrightarrow> awake 1 (let s = upd_agent a (\<lambda>a. a\<lparr>ag_held := False\<rparr>) s in
                 case agent_of s a of
                   None \<Rightarrow> s
                 | Some x \<Rightarrow>
                     if admission_held s \<or> ag_run x \<noteq> None \<or> ag_parked x \<or> phase_locked s a x then s
                     else s\<lparr>su_outbox := su_outbox s @ [Dispatch_queued a]\<rparr>)" for s
  proof -
    assume "awake 1 s"
    then have u: "awake 1 (upd_agent a (\<lambda>a. a\<lparr>ag_held := False\<rparr>) s)" by (rule awake_upd) simp
    then have "awake 1 ((upd_agent a (\<lambda>a. a\<lparr>ag_held := False\<rparr>) s)\<lparr>su_outbox := ob\<rparr>)" for ob by (auto elim: awake_fields)
    with u show ?thesis by (auto simp: Let_def split: option.splits)
  qed
  have k: "keeps (awake 1) (ethen (publish env (js ''task.queued'') b) (emod g))" if "\<And>s. awake 1 s \<Longrightarrow> awake 1 (g s)" for b g
    using that by (intro keeps_ethen publish_keeps keeps_emod) auto
  have "awake 1 (snd (after_accept env q mode a m run s))" if "awake 1 s" for s
    using that keepsD [OF k [OF fin] that] deliver_awake by (auto simp: after_accept_def split: option.splits)
  then show ?thesis by (simp add: keeps_def)
qed

lemma accept_awake:
  assumes "awake 0 s"
  shows "awake 0 (snd (accept_message env q mode a s))"
proof -
  have m: "awake 1 s \<Longrightarrow> awake 1 ((case deadline of None \<Rightarrow> (\<lambda>x. x) | Some d \<Rightarrow> open_new_question q a message d)
      (queue_message q mode a message run (s\<lparr>su_messages := ms\<rparr>)))" for s deadline message run ms
    by (auto intro: question_awake queue_awake messages_awake split: option.splits)
  have k: "keeps (awake 0) (\<lambda>s. ebind (publish env (js ''mailbox.accepted'') (accepted_body env s q a message run (d s))) (\<lambda>accepted.
       ethen (emod (\<lambda>s'. (case d s of None \<Rightarrow> (\<lambda>x. x) | Some d \<Rightarrow> open_new_question q a message d)
            (queue_message q mode a message run
              (s'\<lparr>su_messages := map_put message (sent_message s q mode a run (j_seq accepted)) (su_messages s')\<rparr>))))
       (ethen (su_record_command env (sr_request q) accepted)
       (ethen (after_accept env q mode a message run)
          (eret (message, run))))) s)" for message run and d :: "sup_state \<Rightarrow> int option"
    unfolding keeps_def
    by (intro allI impI publish_then keeps_ethen keeps_emod m record_awake after_accept_awake keeps_eret) auto
  have "keeps (awake 0) (accept_message env q mode a)"
    unfolding accept_message_def Let_def
    by (intro keeps_ebind uuid_awake keeps_if keeps_ret keeps_eret k)
  then show ?thesis using assms by (rule keepsD)
qed

lemma answer_awake:
  assumes "awake 0 s"
  shows "awake 0 (snd (answer_question env caller sender reply_to text request s))"
proof (cases "map_of (su_questions s) reply_to")
  case (Some q)
  have d: "awake 1 s \<Longrightarrow> awake 1 ((deliver_message (pq_from q) message \<circ>
                upd_agent (pq_from q) (\<lambda>a. resume_asker (a\<lparr>ag_pending_messages := ag_pending_messages a @ [message]\<rparr>))) s)" for s message
    unfolding comp_def by (intro deliver_awake awake_upd) simp_all
  have k2: "keeps (awake 0) (\<lambda>s. ebind (\<lambda>s. publish env (js ''mailbox.accepted'') (answer_body s message sender (pq_from q) text reply_to request) s) (\<lambda>accepted.
            ethen (emod (\<lambda>s. mark_replied reply_to
                (s\<lparr>su_messages := map_put message (new_note sender (pq_from q) text reply_to (j_seq accepted)) (su_messages s)\<rparr>)))
            (ethen (publish env (js ''mailbox.answered'')
                (JObj [(js ''messageId'', JStr message), (js ''replyTo'', JStr reply_to), (js ''agentId'', JStr (pq_from q))]))
            (ethen (su_record_command env request accepted)
            (ethen (emod (deliver_message (pq_from q) message \<circ>
                upd_agent (pq_from q) (\<lambda>a. resume_asker (a\<lparr>ag_pending_messages := ag_pending_messages a @ [message]\<rparr>))))
              (eret (message, None)))))) s)" for message
    by (rule publish_at_then, intro keeps_ethen keeps_emod publish_keeps record_awake keeps_eret d)
      (auto simp: mark_replied_def intro: messages_awake)
  have "keeps (awake 0) (ebind (ethen (emod (upd_question reply_to (\<lambda>q. q\<lparr>pq_answered := True\<rparr>))) (fresh_uuid env)) (\<lambda>message s.
            ebind (\<lambda>s. publish env (js ''mailbox.accepted'') (answer_body s message sender (pq_from q) text reply_to request) s) (\<lambda>accepted.
            ethen (emod (\<lambda>s. mark_replied reply_to
                (s\<lparr>su_messages := map_put message (new_note sender (pq_from q) text reply_to (j_seq accepted)) (su_messages s)\<rparr>)))
            (ethen (publish env (js ''mailbox.answered'')
                (JObj [(js ''messageId'', JStr message), (js ''replyTo'', JStr reply_to), (js ''agentId'', JStr (pq_from q))]))
            (ethen (su_record_command env request accepted)
            (ethen (emod (deliver_message (pq_from q) message \<circ>
                upd_agent (pq_from q) (\<lambda>a. resume_asker (a\<lparr>ag_pending_messages := ag_pending_messages a @ [message]\<rparr>))))
              (eret (message, None)))))) s))"
    by (intro keeps_ebind keeps_ethen keeps_emod uuid_awake k2) (auto intro: awake_close)
  from keepsD [OF this assms] Some assms show ?thesis by (auto simp: answer_question_def)
qed (use assms in \<open>simp add: answer_question_def\<close>)

lemma send_awake: "awake 0 s \<Longrightarrow> awake 0 (snd (send_message env q s))"
  unfolding send_message_def
  by (rule keepsD [OF keeps_ethen [OF sweep_awake]])
    (auto simp: keeps_def answer_awake accept_awake split: sum.splits prod.splits option.splits)

lemma settle_awake: "awake 0 s \<Longrightarrow> awake 0 (snd (settle_task_terminal env i run outcome detail s))"
proof -
  assume a: "awake 0 s"
  show ?thesis
  proof (cases "map_of (su_terminal s) run")
    case None
    let ?s = "s\<lparr>su_pending_settle := map_put run (i, outcome, detail) (su_pending_settle s)\<rparr>"
    let ?b = "JObj [(js ''agentId'', JStr i), (js ''taskRunId'', JStr run), (js ''outcome'', JStr outcome),
               (js ''preview'', JStr (preview_of s i run)), (js ''detail'', JStr (take PREVIEW_MAX detail))]"
    have a1: "awake 0 ?s" using a by (auto elim: awake_fields)
    obtain res s1 where x: "su_append env (js ''task.terminal'') ?b ?s = (res, s1)" by fastforce
    show ?thesis
    proof (cases res)
      case (Inl e)
      then show ?thesis using None x su_append_refused [OF a1]
        by (auto simp: settle_task_terminal_def ethen_def ebind_def emod_def)
    next
      case (Inr r)
      note f = su_append_accepted [OF a1 x [unfolded Inr]]
      let ?t = "upd_agent i (ended_agent run)
                  (s1\<lparr>su_terminal := map_put run (i, outcome) (su_terminal s1), su_pending_settle := map_del run (su_pending_settle s1)\<rparr>)"
      have "awake 0 (evaluate_waiters ?t)"
        by (rule awake_evaluate) (use f a1 in \<open>fastforce simp: upd_agent_def store_numbered_def awake_def\<close>)+
      then have "awake 0 ((evaluate_waiters ?t)\<lparr>su_outbox := ob\<rparr>)" for ob by (auto elim: awake_fields)
      then show ?thesis using None x Inr by (simp add: settle_task_terminal_def ethen_def ebind_def emod_def Let_def)
    qed
  qed (use a in \<open>simp add: settle_task_terminal_def\<close>)
qed

text \<open>A wait that is called either is answered at once or is not satisfied.\<close>

interpretation growing: kept_by_mail env "\<lambda>s. n \<le> rs_seq (su_store s)" "\<lambda>_ _. True" "\<lambda>_. True" for env n
proof unfold_locales
  fix s kind body res st
  assume "n \<le> rs_seq (su_store s)" "run_append (se_sha env) (se_nt env) kind body (su_store s) = (res, st)"
  then show "n \<le> rs_seq (su_store (s\<lparr>su_store := st\<rparr>))"
    using run_append_fields [of "se_sha env" "se_nt env" kind body "su_store s" res st] by (cases res) auto
qed (simp_all add: upd_agent_def resolve_fields)

lemma register_awake:
  assumes "awake 0 s" and "0 \<le> wt_cursor w" and "wt_cursor w \<le> int (rs_seq (su_store s))"
    and "t = s\<lparr>su_next_wait := Suc i, su_waiters := su_waiters s @ [(i, w)]\<rparr>"
  shows "awake 0 (case check_wait_satisfied t w of Some res \<Rightarrow> resolve_wait i res t | None \<Rightarrow> t)"
proof -
  have same: "check_wait_satisfied t v = None \<longleftrightarrow> check_wait_satisfied s v = None" for v
    by (rule check_cong) (simp_all add: assms(4))
  have old: "check_wait_satisfied t (snd x) = None" if "x \<in> set (su_waiters s)" for x
    using that assms(1) same by (auto simp: awake_def no_stale_def)
  show ?thesis
  proof (cases "check_wait_satisfied t w")
    case None
    then show ?thesis using assms old by (auto simp: awake_def no_stale_def store_numbered_def)
  next
    case (Some res)
    have "check_wait_satisfied (resolve_wait i res t) v = None \<longleftrightarrow> check_wait_satisfied t v = None" for v
      by (rule check_cong) (simp_all add: resolve_fields)
    then show ?thesis using assms old Some by (auto simp: awake_def no_stale_def store_numbered_def resolve_fields)
  qed
qed

lemma wait_awake:
  assumes "awake 0 s" and "0 \<le> cursor" and "cursor \<le> int (rs_seq (su_store s))"
  shows "awake 0 (snd (wait_call env caller cursor targets condition s))"
proof -
  obtain res s1 where e: "ethen (sweep_expired_questions env) (fresh_uuid env) s = (res, s1)" by fastforce
  have a1: "awake 0 s1" using keepsD [OF keeps_ethen [OF sweep_awake uuid_awake] assms(1)] e by (metis snd_conv)
  have "keeps (\<lambda>t. rs_seq (su_store s) \<le> rs_seq (su_store t)) (ethen (sweep_expired_questions env) (fresh_uuid env))"
    by (intro keeps_ethen growing.sweep_kept growing.uuid_kept)
  from keepsD [OF this, of s] have "cursor \<le> int (rs_seq (su_store s1))" using e assms(3) by simp
  then have reg: "awake 0 (case check_wait_satisfied t w of Some res \<Rightarrow> resolve_wait (su_next_wait s1) res t | None \<Rightarrow> t)"
    if "wt_cursor w = cursor" "t = s1\<lparr>su_next_wait := Suc (su_next_wait s1), su_waiters := su_waiters s1 @ [(su_next_wait s1, w)]\<rparr>" for w t
    using register_awake [OF a1, of w t "su_next_wait s1"] assms(2) that by auto
  show ?thesis
    using assms(1) a1 e reg
    by (cases res) (auto simp: wait_call_def Let_def ebind_def split: option.splits sum.splits)
qed

lemma step_awake: "awake 0 s \<Longrightarrow> event_ok s ev \<Longrightarrow> awake 0 (sup_step env ev s)"
proof -
  assume a: "awake 0 s" and e: "event_ok s ev"
  have fold: "awake 0 (fold f ws s)" if "\<And>x t. awake 0 t \<Longrightarrow> awake 0 (f x t)" for f :: "nat \<times> wait_reg \<Rightarrow> _" and ws
    using that a by (rule fold_keeps)
  show ?thesis
  proof (cases ev)
    case (Cancel_waits c)
    then show ?thesis unfolding sup_step_def cancel_caller_waits_def
      by (simp add: fold awake_resolve split_beta)
  next
    case (Journaled kind body)
    then show ?thesis using keepsD [OF publish_keeps a] by (simp add: sup_step_def)
  next
    case (Clock t)
    then show ?thesis using a by (auto simp: sup_step_def elim: awake_fields)
  next
    case (Wait_timeout i)
    then show ?thesis using a by (auto simp: sup_step_def wait_times_out_def intro: awake_resolve split: option.splits)
  next
    case (Wait caller cursor targets condition)
    then show ?thesis using a e by (auto simp: sup_step_def event_ok_def intro: wait_awake)
  qed (use a in \<open>auto simp: sup_step_def settle_awake send_awake intro: keepsD [OF sweep_awake] awake_upd\<close>)
qed

lemma reach_awake: "sup_reach env s0 s \<Longrightarrow> awake 0 s0 \<Longrightarrow> awake 0 s"
  by (induction rule: sup_reach.induct) (auto intro: step_awake)

section \<open>Properties\<close>

text \<open>
  From a numbered journal whose failure listener is registered, as the supervisor's construction
  leaves it, and after any events of mailbox and waits over a fixed tree of agents: no registered
  wait is satisfied, so none is left behind by what satisfied it.
\<close>

theorem no_wait_left_behind:
  assumes "sup_reach env s0 s" and "su_waiters s0 = []" and "store_numbered s0" and "rs_listeners (su_store s0) \<noteq> []"
  shows "\<forall>x\<in>set (su_waiters s). check_wait_satisfied s (snd x) = None"
proof -
  have "awake 0 s0" using assms(2-4) by (simp add: awake_def no_stale_def)
  from reach_awake [OF assms(1) this] show ?thesis by (simp add: awake_def no_stale_def)
qed

end
