(* ===== verification/Questions.thy ===== *)
theory Questions
  imports WaitLiveness
begin

text \<open>
  The life of a question of \<open>supervisor.ts\<close>: asked by an accepted message, then answered or
  expired, once, whatever the mailbox and the waits do in between.
\<close>

section \<open>Closing a question\<close>

definition closes :: "jstring \<Rightarrow> journal_record \<Rightarrow> bool" where
  "closes i r \<longleftrightarrow>
     j_kind r = js ''mailbox.answered'' \<and> field (j_body r) (js ''replyTo'') = JStr i \<or>
     j_kind r = js ''mailbox.question_expired'' \<and> field (j_body r) (js ''messageId'') = JStr i"

definition closed_records :: "jstring \<Rightarrow> sup_state \<Rightarrow> nat" where
  "closed_records i s = length (filter (closes i) (rs_records (su_store s)))"

definition question_closed :: "jstring \<Rightarrow> sup_state \<Rightarrow> bool" where
  "question_closed i s \<longleftrightarrow> (case map_of (su_questions s) i of Some q \<Rightarrow> pq_answered q \<or> pq_cancelled q | None \<Rightarrow> False)"

text \<open>
  The journal closes a question at most once, and only one that is marked closed; \<open>open\<close> are ids
  without a closing record that will not be drawn again, \<open>shut\<close> ids of questions marked closed.
\<close>

definition closed_once :: "sup_env \<Rightarrow> jstring set \<Rightarrow> jstring set \<Rightarrow> sup_state \<Rightarrow> bool" where
  "closed_once env opn shut s \<longleftrightarrow>
     distinct (map fst (su_questions s)) \<and>
     (\<forall>i. closed_records i s \<le> (if question_closed i s then 1 else 0)) \<and>
     (\<forall>n\<ge>su_ids s. map_of (su_questions s) (se_uuid env n) = None) \<and>
     (\<forall>i\<in>opn. closed_records i s = 0 \<and> (\<forall>n\<ge>su_ids s. se_uuid env n \<noteq> i)) \<and>
     (\<forall>i\<in>shut. question_closed i s)"

definition no_closing :: "jstring \<Rightarrow> js_value \<Rightarrow> bool" where
  "no_closing kind body \<longleftrightarrow> kind \<notin> {js ''mailbox.answered'', js ''mailbox.question_expired''}"

lemma closed_once_fields:
  assumes "closed_once env opn shut s" "su_questions t = su_questions s" "su_ids t = su_ids s"
    "\<And>i. closed_records i t = closed_records i s"
  shows "closed_once env opn shut t"
  using assms by (simp add: closed_once_def question_closed_def)

interpretation closing: kept_by_blocks env "closed_once env opn shut" no_closing "\<lambda>_. True" for env opn shut
proof unfold_locales
  fix s kind body res st
  assume c: "closed_once env opn shut s" and p: "no_closing kind body"
    and r: "run_append (se_sha env) (se_nt env) kind body (su_store s) = (res, st)"
  have "filter (closes i) (rs_records st) = filter (closes i) (rs_records (su_store s))" for i
    using run_append_fields [OF r] p by (cases res) (auto simp: closes_def no_closing_def)
  then have "closed_records i (s\<lparr>su_store := st\<rparr>) = closed_records i s" for i by (simp add: closed_records_def)
  then show "closed_once env opn shut (s\<lparr>su_store := st\<rparr>)" by (intro closed_once_fields [OF c]) auto
next
  fix body show "no_closing (js ''command.accepted'') body" by (simp add: no_closing_def)
next
  fix s n r assume c: "closed_once env opn shut s"
  show "closed_once env opn shut (resolve_wait n r s)"
    by (rule closed_once_fields [OF c]) (simp_all add: resolve_fields closed_records_def)
qed (simp_all add: closed_once_def closed_records_def question_closed_def upd_agent_def)

lemma uuid_closed: "keeps (closed_once env opn shut) (fresh_uuid env)"
  by (auto simp: keeps_def fresh_uuid_def closed_once_def closed_records_def question_closed_def)

lemma uuid_fresh:
  assumes "closed_once env opn shut s" and "inj (se_uuid env)"
  shows "closed_once env {se_uuid env (su_ids s)} shut (s\<lparr>su_ids := Suc (su_ids s)\<rparr>)"
proof -
  let ?i = "se_uuid env (su_ids s)"
  have "map_of (su_questions s) ?i = None" using assms(1) by (simp add: closed_once_def)
  then have "closed_records ?i s = 0" using assms(1) by (auto simp: closed_once_def question_closed_def dest: spec [of _ ?i])
  moreover have "se_uuid env n \<noteq> ?i" if "Suc (su_ids s) \<le> n" for n
    using that assms(2) by (auto dest: injD)
  ultimately show ?thesis using assms(1) by (auto simp: closed_once_def closed_records_def question_closed_def)
qed

text \<open>Marking a question closed, and then journaling it.\<close>

lemma map_of_question: "map_of (su_questions (upd_question i f s)) k =
    (if k = i then map_option f (map_of (su_questions s) k) else map_of (su_questions s) k)"
  by (simp add: upd_question_def map_of_upd)

lemma closed_bound: "closed_once env opn shut s \<Longrightarrow> closed_records i s \<le> (if question_closed i s then 1 else 0)"
  by (simp add: closed_once_def)

lemma mark_closed:
  assumes c: "closed_once env opn shut s" and q: "map_of (su_questions s) i = Some q" "\<not> pq_answered q" "\<not> pq_cancelled q"
    and f: "\<And>q. pq_answered (f q) \<or> pq_cancelled (f q)"
  shows "closed_once env {i} {i} (upd_question i f s)"
proof -
  let ?t = "upd_question i f s"
  have open_i: "\<not> question_closed i s" using q by (simp add: question_closed_def)
  then have zero: "closed_records i s = 0" using closed_bound [OF c, of i] by simp
  have same: "closed_records j ?t = closed_records j s" for j by (simp add: closed_records_def upd_question_def)
  have qc: "question_closed j ?t \<longleftrightarrow> j = i \<or> question_closed j s" for j
    using q f by (auto simp: question_closed_def map_of_question)
  have ids: "su_ids ?t = su_ids s" by (simp add: upd_question_def)
  have fresh: "map_of (su_questions s) (se_uuid env n) = None" if "su_ids s \<le> n" for n
    using c that by (simp add: closed_once_def)
  then have "se_uuid env n \<noteq> i" if "su_ids s \<le> n" for n using q that by auto
  moreover have "map fst (su_questions ?t) = map fst (su_questions s)" by (simp add: upd_question_def comp_def split_beta)
  moreover have "distinct (map fst (su_questions s))" using c by (simp add: closed_once_def)
  moreover have "closed_records j ?t \<le> (if question_closed j ?t then 1 else 0)" for j
    using closed_bound [OF c, of j] zero by (cases "j = i") (simp_all add: same qc)
  moreover have "map_of (su_questions ?t) (se_uuid env n) = None" if "su_ids s \<le> n" for n
    using fresh [OF that] q by (auto simp: map_of_question)
  ultimately show ?thesis using zero by (simp add: closed_once_def same qc ids)
qed

lemma close_append:
  assumes c: "closed_once env {i} {i} s" and "su_append env kind body s = (res, s')"
    and b: "\<And>r. j_kind r = kind \<Longrightarrow> j_body r = body \<Longrightarrow> (\<forall>j. closes j r \<longrightarrow> j = i)"
  shows "closed_once env {} {} s'"
proof -
  obtain x st where r: "run_append (se_sha env) (se_nt env) kind body (su_store s) = (x, st)" by fastforce
  have "closed_once env {} {} (s\<lparr>su_store := st\<rparr>)"
  proof (cases x)
    case (Inl e)
    then have "rs_records st = rs_records (su_store s)" using run_append_fields [OF r] by simp
    then show ?thesis using c by (auto simp: closed_once_def closed_records_def question_closed_def)
  next
    case (Inr rec)
    then have f: "rs_records st = rs_records (su_store s) @ [rec]" "j_kind rec = kind" "j_body rec = body"
      using run_append_fields [OF r] by simp_all
    have i: "closed_records i s = 0" "question_closed i s" using c by (simp_all add: closed_once_def)
    have "closed_records j (s\<lparr>su_store := st\<rparr>) \<le> (if question_closed j s then 1 else 0)" for j
    proof (cases "j = i")
      case True
      then show ?thesis using i f(1) by (simp add: closed_records_def)
    next
      case False
      then have "\<not> closes j rec" using b [OF f(2,3)] by blast
      then show ?thesis using closed_bound [OF c, of j] f(1) by (simp add: closed_records_def)
    qed
    then show ?thesis using c by (simp add: closed_once_def question_closed_def)
  qed
  then show ?thesis using assms(2) r closing.evaluated by (auto simp: su_append_def split: sum.splits if_splits)
qed

section \<open>From one invariant to another\<close>

text \<open>
  \<open>moves I J K m\<close>: started in \<open>I\<close>, the effect \<open>m\<close> ends in \<open>J\<close> when it returns and in \<open>K\<close> when it
  throws.
\<close>

definition moves :: "('c \<Rightarrow> bool) \<Rightarrow> ('c \<Rightarrow> bool) \<Rightarrow> ('c \<Rightarrow> bool) \<Rightarrow> ('c, 'e, 'a) eff \<Rightarrow> bool" where
  "moves I J K m \<longleftrightarrow> (\<forall>c. I c \<longrightarrow> (case m c of (Inl e, d) \<Rightarrow> K d | (Inr x, d) \<Rightarrow> J d))"

lemma moves_ebind: "moves I J K m \<Longrightarrow> (\<And>x. moves J L K (f x)) \<Longrightarrow> moves I L K (ebind m f)"
  by (fastforce simp: moves_def ebind_def split: prod.splits sum.splits)

lemma moves_ethen: "moves I J K m \<Longrightarrow> moves J L K n \<Longrightarrow> moves I L K (ethen m n)"
  by (simp add: ethen_def moves_ebind)

lemma moves_emod: "(\<And>c. I c \<Longrightarrow> J (f c)) \<Longrightarrow> moves I J K (emod f)"
  by (simp add: moves_def emod_def)

lemma moves_keeps: "keeps J m \<Longrightarrow> (\<And>c. J c \<Longrightarrow> K c) \<Longrightarrow> moves J J K m"
  by (fastforce simp: moves_def keeps_def split: prod.splits sum.splits)

lemma moves_at: "(\<And>x. moves I J K (m x)) \<Longrightarrow> moves I J K (\<lambda>s. m (g s) s)"
  by (simp add: moves_def)

lemma movesD: "moves I J K m \<Longrightarrow> I c \<Longrightarrow> (\<And>d. J d \<Longrightarrow> K d) \<Longrightarrow> K (snd (m c))"
  unfolding moves_def by (cases "m c"; cases "fst (m c)") fastforce+

section \<open>Every event closes a question at most once\<close>

lemma closed_weaken: "closed_once env opn shut s \<Longrightarrow> closed_once env {} {} s"
  by (simp add: closed_once_def)

lemma close_moves:
  assumes "\<And>r. j_kind r = kind \<Longrightarrow> j_body r = body \<Longrightarrow> (\<forall>j. closes j r \<longrightarrow> j = i)"
  shows "moves (closed_once env {i} {i}) (closed_once env {} {}) (closed_once env {} {}) (su_append env kind body)"
proof -
  have "closed_once env {} {} (snd (su_append env kind body s))" if "closed_once env {i} {i} s" for s
    by (rule close_append [OF that _ assms, of kind body "fst (su_append env kind body s)"]) simp_all
  then show ?thesis by (simp add: moves_def split_beta split: sum.splits)
qed

lemma publish_moves:
  assumes "\<And>r. j_kind r = kind \<Longrightarrow> j_body r = body \<Longrightarrow> (\<forall>j. closes j r \<longrightarrow> j = i)"
  shows "moves (closed_once env {i} {i}) (closed_once env {} {}) (closed_once env {} {}) (publish env kind body)"
  unfolding publish_def
  by (rule moves_ebind [OF close_moves [OF assms]], assumption, assumption)
    (intro moves_keeps keeps_ethen keeps_emod keeps_eret closing.evaluated)

lemma sweep_loop_closed:
  "closed_once env {} {} s \<Longrightarrow> distinct (map fst qs) \<Longrightarrow> (\<forall>(i, q)\<in>set qs. map_of (su_questions s) i = Some q) \<Longrightarrow>
   closed_once env {} {} (snd (sweep_loop env qs s))"
proof (induction qs arbitrary: s)
  case (Cons e qs)
  obtain i q where e: "e = (i, q)" by fastforce
  have q: "map_of (su_questions s) i = Some q" using Cons.prems(3) e by auto
  let ?b = "JObj [(js ''messageId'', JStr i), (js ''agentId'', JStr (pq_from q)), (js ''to'', JStr (pq_to q))]"
  obtain res s1 where a: "su_append env (js ''mailbox.question_expired'') ?b s = (res, s1)" by fastforce
  show ?case
  proof (cases "pq_answered q \<or> pq_cancelled q \<or> pq_deadline q > su_now s")
    case True
    then show ?thesis using Cons e by auto
  next
    case False
    \<comment> \<open>Marking the question first gives the same state as marking it after the append.\<close>
    let ?f = "\<lambda>q. q\<lparr>pq_cancelled := True\<rparr>"
    have m: "closed_once env {i} {i} (upd_question i ?f s)" by (rule mark_closed [OF Cons.prems(1) q]) (use False in auto)
    obtain x st where r: "run_append (se_sha env) (se_nt env) (js ''mailbox.question_expired'') ?b (su_store s) = (x, st)" by fastforce
    show ?thesis
    proof (cases x)
      case (Inl err)
      then have "closed_once env {} {} (s\<lparr>su_store := st\<rparr>)"
        using run_append_fields [OF r] Cons.prems(1) by (simp add: closed_once_def closed_records_def question_closed_def)
      then have "closed_once env {} {} s1" using a r Inl closing.evaluated by (auto simp: su_append_def split: if_splits)
      then show ?thesis using False e a r Inl by (auto simp: su_append_def)
    next
      case (Inr rec)
      then have s1: "s1 = s\<lparr>su_store := st\<rparr>" "res = Inr rec" using a r by (auto simp: su_append_def)
      let ?n = "evaluate_waiters (upd_agent (pq_from q) resume_asker (upd_question i ?f s1))"
      have "su_append env (js ''mailbox.question_expired'') ?b (upd_question i ?f s) = (Inr rec, upd_question i ?f s1)"
        using r Inr s1 by (simp add: su_append_def upd_question_def)
      from close_append [OF m this] have "closed_once env {} {} (upd_question i ?f s1)"
        by (auto simp: closes_def)
      then have c: "closed_once env {} {} ?n"
        by (intro closing.evaluated closing.agents resume_parent)
      have "map_of (su_questions ?n) j = Some p" if "(j, p) \<in> set qs" for j p
      proof -
        have "j \<noteq> i" using that Cons.prems(2) e by force
        then show ?thesis using that Cons.prems(3) s1 by (auto simp: evaluate_fields upd_agent_def map_of_question)
      qed
      then show ?thesis using False e a s1(2) Cons.IH [OF c] Cons.prems(2) by auto
    qed
  qed
qed simp

lemma sweep_closed: "keeps (closed_once env {} {}) (sweep_expired_questions env)"
proof -
  have "closed_once env {} {} (snd (sweep_loop env (su_questions s) s))" if c: "closed_once env {} {} s" for s
  proof -
    have d: "distinct (map fst (su_questions s))" using c by (simp add: closed_once_def)
    show ?thesis by (rule sweep_loop_closed [OF c d]) (use d in auto)
  qed
  then show ?thesis by (simp add: keeps_def sweep_expired_questions_def)
qed

lemma accepted_keeps: "keeps (closed_once env opn shut) (publish env (js ''mailbox.accepted'') body)"
  by (rule closing.published) (simp add: no_closing_def)

lemma answer_closed:
  assumes "closed_once env {} {} s"
  shows "closed_once env {} {} (snd (answer_question env caller sender reply_to text request s))"
proof (cases "\<exists>q. map_of (su_questions s) reply_to = Some q \<and> \<not> pq_answered q \<and> \<not> pq_cancelled q")
  case True
  then obtain q where q: "map_of (su_questions s) reply_to = Some q" "\<not> pq_answered q" "\<not> pq_cancelled q" by blast
  let ?J = "closed_once env {reply_to} {reply_to}" and ?K = "closed_once env {} {}"
  have rest: "keeps ?K (ethen (su_record_command env request accepted)
      (ethen (emod (deliver_message (pq_from q) message \<circ>
          upd_agent (pq_from q) (\<lambda>a. resume_asker (a\<lparr>ag_pending_messages := ag_pending_messages a @ [message]\<rparr>))))
        (eret (message, None :: jstring option))))" for accepted message
    by (intro keeps_ethen closing.recorded keeps_emod keeps_eret) (simp_all add: closing.delivered closing.agents)
  have answered: "moves ?J ?K ?K (publish env (js ''mailbox.answered'')
      (JObj [(js ''messageId'', JStr message), (js ''replyTo'', JStr reply_to), (js ''agentId'', JStr (pq_from q))]))" for message
    by (rule publish_moves) (auto simp: closes_def)
  have replied: "moves ?J ?J ?K (emod (\<lambda>s. mark_replied reply_to (s\<lparr>su_messages := g s\<rparr>)))" for g
    by (rule moves_emod) (intro closing.replied closing.messages)
  have accepted: "moves ?J ?J ?K (\<lambda>s. publish env (js ''mailbox.accepted'') (g s) s)" for g
    by (rule moves_at [OF moves_keeps [OF accepted_keeps closed_weaken]])
  have marked: "moves (\<lambda>t. t = s) ?J ?K (ethen (emod (upd_question reply_to (\<lambda>q. q\<lparr>pq_answered := True\<rparr>))) (fresh_uuid env))"
    by (rule moves_ethen [OF moves_emod moves_keeps [OF uuid_closed closed_weaken]])
      (use mark_closed [OF assms q] in auto)
  note m = moves_ebind [OF marked moves_ebind [OF accepted moves_ethen [OF replied moves_ethen [OF answered moves_keeps [OF rest]]]]]
  have k: "?K (snd (h s))" if "moves (\<lambda>t. t = s) ?K ?K h" for h :: "(jstring \<times> jstring option) sup_eff"
    by (rule movesD [OF that]) simp_all
  show ?thesis
  proof (cases "(pq_to q \<noteq> sender \<and> \<not> is_governor caller) \<or> su_load_command s request \<noteq> None")
    case True
    then show ?thesis using q assms by (auto simp: answer_question_def)
  next
    case False
    then show ?thesis unfolding answer_question_def using q(2,3) assms by (simp add: q(1) k [OF m])
  qed
next
  case False
  then show ?thesis using assms by (cases "map_of (su_questions s) reply_to") (auto simp: answer_question_def)
qed

text \<open>A question is opened under an id that was drawn for it.\<close>

lemma opened_closed:
  assumes "closed_once env {message} shut s"
  shows "closed_once env {} {} (open_new_question q a message d s)"
proof -
  let ?n = "\<lparr>pq_from = author_of (sr_caller q), pq_to = a, pq_text = sr_text q, pq_deadline = d,
      pq_answered = False, pq_cancelled = False\<rparr>"
  let ?t = "s\<lparr>su_questions := map_put message ?n (su_questions s)\<rparr>"
  have zero: "closed_records message s = 0" and fresh: "\<And>n. su_ids s \<le> n \<Longrightarrow> se_uuid env n \<noteq> message"
    and none: "\<And>n. su_ids s \<le> n \<Longrightarrow> map_of (su_questions s) (se_uuid env n) = None"
    and dist: "distinct (map fst (su_questions s))"
    using assms by (auto simp: closed_once_def)
  have lookup: "map_of (su_questions ?t) j = (if j = message then Some ?n else map_of (su_questions s) j)" for j
    by simp
  have "closed_records j ?t \<le> (if question_closed j ?t then 1 else 0)" for j
    using closed_bound [OF assms, of j] zero lookup [of j]
    by (cases "j = message") (simp_all add: question_closed_def closed_records_def)
  then have "closed_once env {} {} ?t" using fresh none dist by (auto simp: closed_once_def)
  then show ?thesis unfolding open_new_question_def by (intro closing.preempted closing.agents) simp_all
qed

lemma ebind_uuid: "ebind (fresh_uuid env) f s = f (se_uuid env (su_ids s)) (s\<lparr>su_ids := Suc (su_ids s)\<rparr>)"
  by (simp add: ebind_def fresh_uuid_def)

lemma accept_closed:
  assumes "inj (se_uuid env)" and "closed_once env {} {} s"
  shows "closed_once env {} {} (snd (accept_message env q mode a s))"
proof -
  let ?m = "se_uuid env (su_ids s)"
  let ?J = "closed_once env {?m} {}" and ?K = "closed_once env {} {}"
  have drawn: "?J (s\<lparr>su_ids := Suc (su_ids s)\<rparr>)" by (rule uuid_fresh [OF assms(2,1)])
  have run: "moves ?J ?J ?K (if mode = Task then ebind (fresh_uuid env) (\<lambda>i. eret (Some i)) else (\<lambda>s. (Inr (current_task_of s a), s)))"
    by (rule moves_keeps [OF _ closed_weaken]) (intro keeps_if keeps_ebind uuid_closed keeps_eret keeps_ret)
  have opened: "?K ((case deadline of None \<Rightarrow> (\<lambda>x. x) | Some d \<Rightarrow> open_new_question q a ?m d)
      (queue_message q mode a ?m run (t\<lparr>su_messages := ms\<rparr>)))" if "?J t" for deadline run t ms
  proof -
    have "?J (queue_message q mode a ?m run (t\<lparr>su_messages := ms\<rparr>))" using that by (intro closing.queued closing.messages)
    then show ?thesis by (auto intro: opened_closed closed_weaken split: option.splits)
  qed
  have stored: "moves ?J ?K ?K (emod (\<lambda>t. (case deadline of None \<Rightarrow> (\<lambda>x. x) | Some d \<Rightarrow> open_new_question q a ?m d)
      (queue_message q mode a ?m run (t\<lparr>su_messages := g t\<rparr>))))" for deadline run g
    by (rule moves_emod) (rule opened)
  have rest: "moves ?K ?K ?K (ethen (su_record_command env (sr_request q) r)
      (ethen (after_accept env q mode a ?m run) (eret (?m, run))))" for r run
    by (intro moves_keeps keeps_ethen closing.recorded closing.after_accepted keeps_eret) (auto simp: no_closing_def fun_eq_iff)
  have tail: "moves ?J ?K ?K (ebind (publish env (js ''mailbox.accepted'') (accepted_body env t q a ?m run deadline)) (\<lambda>accepted.
      ethen (emod (\<lambda>s'. (case deadline of None \<Rightarrow> (\<lambda>x. x) | Some d \<Rightarrow> open_new_question q a ?m d)
            (queue_message q mode a ?m run
              (s'\<lparr>su_messages := map_put ?m (sent_message t q mode a run (j_seq accepted)) (su_messages s')\<rparr>))))
       (ethen (su_record_command env (sr_request q) accepted)
       (ethen (after_accept env q mode a ?m run)
          (eret (?m, run))))))" for t run deadline
    by (rule moves_ebind [OF moves_keeps [OF accepted_keeps closed_weaken] moves_ethen [OF stored rest]])
  have "moves ?J ?K ?K (\<lambda>s. let deadline = (if asks_reply q then Some (su_now s + se_question_ttl env) else None) in
      ebind (publish env (js ''mailbox.accepted'') (accepted_body env s q a ?m run deadline)) (\<lambda>accepted.
      ethen (emod (\<lambda>s'. (case deadline of None \<Rightarrow> (\<lambda>x. x) | Some d \<Rightarrow> open_new_question q a ?m d)
            (queue_message q mode a ?m run
              (s'\<lparr>su_messages := map_put ?m (sent_message s q mode a run (j_seq accepted)) (su_messages s')\<rparr>))))
       (ethen (su_record_command env (sr_request q) accepted)
       (ethen (after_accept env q mode a ?m run)
          (eret (?m, run))))) s)" for run
    unfolding Let_def by (rule moves_at [where g = "\<lambda>s. s", OF tail])
  note m = moves_ebind [OF run this]
  show ?thesis using movesD [OF m drawn] by (simp add: accept_message_def ebind_uuid [of env "\<lambda>m. _ m"])
qed

lemma send_closed: "inj (se_uuid env) \<Longrightarrow> keeps (closed_once env {} {}) (send_message env q)"
  unfolding send_message_def
  by (rule keeps_ethen [OF sweep_closed])
    (auto simp: keeps_def split: sum.splits prod.splits option.splits intro: answer_closed accept_closed)

lemma wait_closed: "keeps (closed_once env {} {}) (wait_call env caller cursor targets condition)"
proof -
  have k: "keeps (closed_once env {} {}) (ebind (ethen (sweep_expired_questions env) (fresh_uuid env)) (\<lambda>token s.
      let w = \<lparr>wt_caller = caller, wt_cursor = cursor, wt_targets = ts, wt_condition = cond, wt_joins = joins, wt_token = token\<rparr>;
          i = su_next_wait s; s = s\<lparr>su_next_wait := Suc i, su_waiters := su_waiters s @ [(i, w)]\<rparr>
      in (Inr i, case check_wait_satisfied s w of Some res \<Rightarrow> resolve_wait i res s | None \<Rightarrow> s)))" for ts cond joins
  proof (intro keeps_ebind keeps_ethen sweep_closed uuid_closed)
    fix token
    have reg: "closed_once env {} {} (s\<lparr>su_next_wait := n, su_waiters := ws\<rparr>)" if "closed_once env {} {} s" for s n ws
      by (rule closed_once_fields [OF that]) (simp_all add: closed_records_def)
    show "keeps (closed_once env {} {}) (\<lambda>s.
      let w = \<lparr>wt_caller = caller, wt_cursor = cursor, wt_targets = ts, wt_condition = cond, wt_joins = joins, wt_token = token\<rparr>;
          i = su_next_wait s; s = s\<lparr>su_next_wait := Suc i, su_waiters := su_waiters s @ [(i, w)]\<rparr>
      in (Inr i, case check_wait_satisfied s w of Some res \<Rightarrow> resolve_wait i res s | None \<Rightarrow> s))"
      by (auto simp: keeps_def Let_def intro: closing.resolved reg split: option.splits)
  qed
  show ?thesis unfolding keeps_def
    using keepsD [OF k] by (auto simp: wait_call_def Let_def split: option.splits sum.splits)
qed

lemma event_closed:
  assumes "inj (se_uuid env)" and "closed_once env {} {} s" and "event_ok s ev"
  shows "closed_once env {} {} (sup_step env ev s)"
proof -
  have t: "no_closing (js ''task.terminal'') = (\<lambda>_. True)" by (simp add: fun_eq_iff no_closing_def)
  show ?thesis
    using assms keepsD [OF send_closed [OF assms(1)] assms(2)] keepsD [OF wait_closed assms(2)] keepsD [OF sweep_closed assms(2)]
      keepsD [OF closing.settled [OF t] assms(2)] keepsD [OF closing.published assms(2)]
    by (cases ev) (auto simp: sup_step_def event_ok_def no_closing_def
      intro: closing.timed_out closing.cancelled closing.agents closing.clock)
qed

lemma reach_closed: "sup_reach env s0 s \<Longrightarrow> inj (se_uuid env) \<Longrightarrow> closed_once env {} {} s0 \<Longrightarrow> closed_once env {} {} s"
  by (induction rule: sup_reach.induct) (auto intro: event_closed)

section \<open>Properties\<close>

text \<open>
  From an empty journal, with random ids that never repeat, and whatever is sent, answered,
  awaited, swept or refused by the journal: the journal holds at most one record that closes a
  question (an answer or an expiry, never both), and only of a question that is closed in memory.
\<close>

theorem question_closed_once:
  assumes "sup_reach env s0 s" and "inj (se_uuid env)" and "su_questions s0 = []" and "rs_records (su_store s0) = []"
  shows "closed_records i s \<le> 1 \<and> (0 < closed_records i s \<longrightarrow> question_closed i s)"
proof -
  have "closed_once env {} {} s0" using assms(3,4) by (simp add: closed_once_def closed_records_def)
  from closed_bound [OF reach_closed [OF assms(1,2) this], of i] show ?thesis by (auto split: if_splits)
qed

end
