(* ===== verification/Spec2Isabelle.thy ===== *)
theory Spec2Isabelle
  imports MemStore GoalTools Commands Paths GateJournal RunCheckpoint RunMemory RootLock BrokerSafety ToolScripts NoticeWorld Questions
begin

text \<open>
  A verification development of two pi extensions of this repository, written in TypeScript under
  \<open>src/nix/pkg/pi-extensions\<close>: the durable goals of \<open>ponygirls-codex-goals\<close>, which keep a
  coding agent working on an objective under a token budget, and the admission, authority,
  validation gate and run store of \<open>ponygirls-subagents\<close>, which decide what delegated agents may
  do and when their work counts as accepted, and keep what was decided.

  Parts and theories (the file and the functions each definition models are in its comments and
  in the map of the manifest).

  \<^item> \<open>Prelude\<close>: JavaScript values as HOL data. A string is a list of UTF-16 code units
    (\<open>jstring\<close>), a number is a rational, NaN or an infinity (\<open>js_num\<close>), a tool argument
    or a parsed JSON text is a \<open>js_value\<close>, a \<open>Map\<close> or \<open>Set\<close> is a list in insertion order
    (\<open>map_put\<close>, \<open>set_add\<close>), a fallible function returns a sum. \<open>Effect\<close> adds stateful code
    that may throw: what was changed before a throw stays changed; \<open>post\<close> and \<open>keeps\<close> are
    its postconditions and invariants.
  \<^item> Goals. \<open>Goal\<close> (goal.ts): the goal record, its validation and transitions. \<open>Accounting\<close>
    (accounting.ts): token normalisation, charging by entry id, elapsed time. \<open>GoalStore\<close>
    (store.ts): the sidecar envelope, its JSON form and the interface of a store as the locale
    \<open>goal_store\<close>; \<open>FileStore\<close> (FileGoalStore, with an oracle of I/O outcomes, and the lock file
    between processes as a step relation) and \<open>MemStore\<close> (InMemoryGoalStore) interpret it.
    \<open>GoalController\<close> (runtime.ts): admission of a view, dispatch, delivery, accounting,
    classification of outcomes and terminal transitions over any store; \<open>ControllerSafety\<close>
    proves its guarantees over the file store. \<open>GoalTools\<close> (tools.ts) and \<open>Commands\<close>
    (commands.ts): the model's tools and the parser of the user's commands.
  \<^item> Admission and authority. \<open>Scheduler\<close> and \<open>Paths\<close> (scheduler.ts): leases, the fair queue,
    reservations, task paths and their tombstones. \<open>Policy\<close> (policy.ts, types.ts): the policy
    file, allowlist globs, intersection of grants and authorisation of workspaces.
  \<^item> Validation gate (gate.ts). \<open>GateSpec\<close> and \<open>GateDecision\<close>: specifications and verdicts.
    \<open>GatePanel\<close>: one gated task, from a settled candidate through its checks and the panel's
    verdicts to a repair or an outcome. The promises the code does not wait for are pending
    continuations of the task's cell, run later in any order with any result; the supervisor is an
    oracle whose calls may throw. \<open>GateInvariant\<close> and \<open>GateSafety\<close>: the invariant and what
    follows for every reachable task. \<open>GateTasks\<close> and \<open>GateControl\<close>: the controller's maps
    over all tasks, its commands, and the refinement of the whole to its tasks. \<open>GateJournal\<close>
    (the gate's part of replayJournal in supervisor.ts): recovery from the journal.

  \<^item> Run store (store.ts of the subagents). \<open>Json\<close> is \<open>JSON.stringify\<close>, \<open>JSON.parse\<close> and UTF-8,
    \<open>Numbers\<close> the conversion \<open>Number(text)\<close>. \<open>RunFrame\<close>: the checksummed frames of the journal,
    byte by byte. \<open>RunStore\<close>: \<open>FileRunStore\<close> with its manifest, the failure latch, checkpoints,
    result texts and the validation of an opening, over an oracle of I/O outcomes. \<open>RunLog\<close> and
    \<open>RunWorld\<close>: the log on disk through failed appends, deaths of the process and losses of power.
    \<open>RunCheckpoint\<close>: checkpoints and results under failures. \<open>RunMemory\<close>: \<open>InMemoryRunStore\<close> and
    the readers' interface as the locale \<open>paged_log\<close>, interpreted by both stores. \<open>RootLock\<close>: the
    lock of a session's directory between processes.

  \<^item> Tools of the subagents. \<open>ToolArgs\<close> and \<open>ToolScripts\<close> (tools.ts): validation of the arguments of
    the file and shell tools, and the \<open>edit\<close> and \<open>read\<close> scripts as functions of a file's text.
    \<open>Sandbox\<close> (sandbox.ts): the command line of the bubblewrap launcher, with the order of mounts as
    the one law of the launcher that is used, and one job process with its output limits.
    \<open>Broker\<close> (broker.ts): \<open>ToolBroker\<close> as a state machine whose events run a method, or its
    continuation, up to the next \<open>await\<close>; the ownership of outcomes as a token that is passed on.
    \<open>BrokerSafety\<close>: its guarantees in every reachable state.

  \<^item> Notices. \<open>Display\<close> (display.ts): the stripping of terminal sequences. \<open>Notices\<close>
    (notice-delivery.ts, and noticesSince of supervisor.ts): the pump that hands journal lines to
    the governing session, with the source as the locale \<open>notice_source\<close>; \<open>NoticeWorld\<close> (index.ts):
    the pump over a growing journal, with its microtask, its retry timer, reloads and disposals as
    events in any order.
  \<^item> Agents, messages and waits (supervisor.ts). \<open>AgentTree\<close>: who may address, see and control
    whom. \<open>Waits\<close>: the state of the supervisor these parts use, \<open>wait\<close> with everything that ends a
    wait but the shutdown, expired questions and terminal outcomes. \<open>Mailbox\<close>: messages, questions,
    answers and their replay. \<open>WaitSafety\<close>: what the answers of waits hold. \<open>MailSafety\<close> and
    \<open>WaitLiveness\<close>: the events of mailbox and waits as a step relation, with what all operations
    keep proved once in the locales \<open>kept_by_blocks\<close> and \<open>kept_by_mail\<close> and interpreted for single
    settlement of waits, the numbering of the journal, and waits that no one would wake;
    \<open>Questions\<close>: a question is answered or expires at most once.

  How the parts interact. The controller of a goal reads and writes the sidecar only through a
  store, and sends a continuation only under the dispatch it admitted there; the tools and
  commands change the goal through the same operations. The supervisor validates a gate's
  specification under the policy, reserves agents for its panel from the scheduler, passes tool calls of the workers to the broker, which journals their intents and outcomes in the run
  store and starts them in the sandbox of their caller, and passes
  settled candidates, verdicts and interruptions to the gate's controller, which journals what it
  decides in the run store, under the root lock; on a restart the store validates the journal and
  the supervisor replays it into tasks again. Every record it journals is looked at by the waits
  that are open and by the notice pump; messages between agents follow the routes of the agent tree.

  What the lemmas show. Each theory first proves what its operations preserve (well-formedness
  of records and envelopes, the lease and queue invariant of the scheduler under any bounds, bounds
  of grants by the root policy, the gate's invariant), collected for automation, then the properties: a
  linear history of the sidecar and one admission per envelope, once-only charging, authorised delivery,
  exclusion between writers, capacity and first-come order, authority that never widens, unanimous
  passes, bounded repairs, final outcomes, recovery that forgets nothing decided, acknowledged
  records that survive every failure, whole checkpoints, one journaled outcome per tool operation and
  none lost silently, sandboxed jobs that see no foreign storage and write only what is theirs, edits that
  replace what they name, pages that put together are the file, notices handed over in order and waits
  that tell every message, round trips of everything stored, and the equivalence of matchers and path checks with their specifications.
  A property with hypotheses is followed by a witness on concrete data.

  Bounds and parameters. Loops are structural or have a measure, or take fuel that is proved
  to suffice: the pages of a reader (of the journal, one per record and one more; of a file, read by
  following the offsets the answers name, as many as lines), the rounds of the notice pump (one per
  record and one more), and the steps up and down the agent tree (one per agent and one more).
  The scheduler's limits may change while it runs and snapshots may exceed them; its invariant is
  therefore about any bounds that the limits set and the restored agents are within. Times, fresh
  identifiers, SHA-256, the file system, the transcript and the supervisor are arguments (oracles or
  functions), with no assumption unless a theorem states one. Numbers are exact rationals where
  the code's doubles are integers below \<open>2 ^ 53\<close>, a bound the code checks; the rubric hash is on
  32-bit words.

  Not modelled: the promise queues that serialise callers (operations are atomic steps and their
  interleaving is explicit); rendering of prompts, panes and transcripts (prompts of the gate are
  modelled, those of the goal are constructors with their arguments); worker processes, git
  workspaces and the model SDK of the subagents, which are calls of programs outside the
  repository; the \<open>ls\<close>, \<open>find\<close>, \<open>grep\<close> and \<open>write\<close> scripts, which walk or change the file system; the
  supervisor's spawning, generations and dispatch from the task queues (calls of them are entries of an
  outbox, and other changes of an agent are events), model overrides of messages and what workers answer;
  the dispatcher of external tools and the wire protocol; journals written by older versions; Chronicle, Haystack and the Nix packaging.
\<close>

end
